(* ===== verification/Go_Prelude.thy ===== *)
theory Go_Prelude
  imports Main "HOL-Library.Char_ord" "HOL-Library.List_Lexorder" "HOL-Library.AList"
    "HOL-Library.Multiset"
begin

text \<open>
  The shared base of the development: the fragment of Go's \<open>strings\<close>, \<open>time\<close> and
  container idioms that the modelled packages use, the generic lemmas about them, and the
  generic notions (reachability, invariant, canonical key) that several components share.

  \<^item> A Go string is its sequence of bytes, an Isabelle \<open>string\<close>; \<open>len\<close> is \<open>length\<close>.
    Text outside ASCII is written as UTF-8 bytes.
  \<^item> \<open>strings.ToLower\<close> is byte-wise lower-casing of \<open>A..Z\<close>. On valid UTF-8 text whose other
    runes have no case (digits, punctuation, CJK text) this is what Go computes; cased letters
    outside ASCII are outside the model.
  \<^item> \<open>strings.TrimSpace\<close> removes the encodings of the code points of \<open>unicode.IsSpace\<close>.
  \<^item> A \<open>time.Time\<close> is the number of nanoseconds since Go's zero time (January 1 of year 1,
    UTC), so the zero value \<open>time.Time{}\<close> is \<open>0\<close>; a \<open>time.Duration\<close> is a number of
    nanoseconds. Both are unbounded integers here.
  \<^item> A Go map whose keys are iterated is an association list with distinct keys; one that is
    only looked up is a map \<open>'k \<rightharpoonup> 'v\<close>.
\<close>

named_theorems go_str \<open>unfolding of the string operations\<close>
named_theorems inv_simps \<open>unfolding of component invariants\<close>

type_synonym time = int
type_synonym duration = int

section \<open>Time and durations\<close>

abbreviation (input) zero_time :: time where "zero_time \<equiv> 0"

definition is_zero_time :: "time \<Rightarrow> bool" where
  "is_zero_time t \<longleftrightarrow> t = 0"

definition Nanosecond :: duration where "Nanosecond = 1"
definition Millisecond :: duration where "Millisecond = 1000000"
definition Second :: duration where "Second = 1000000000"
definition Minute :: duration where "Minute = 60 * Second"
definition Hour :: duration where "Hour = 60 * Minute"

lemmas duration_defs = Nanosecond_def Millisecond_def Second_def Minute_def Hour_def

text \<open>\<open>t.Truncate(d)\<close> rounds down to a multiple of \<open>d\<close> since the zero time.\<close>

definition time_truncate :: "time \<Rightarrow> duration \<Rightarrow> time" where
  "time_truncate t d = t - t mod d"

text \<open>\<open>d.Milliseconds()\<close> divides towards zero.\<close>

definition go_div :: "int \<Rightarrow> int \<Rightarrow> int" where
  "go_div a b = sgn a * sgn b * (\<bar>a\<bar> div \<bar>b\<bar>)"

definition milliseconds :: "duration \<Rightarrow> int" where
  "milliseconds d = go_div d Millisecond"

section \<open>Strings\<close>

definition ascii_lower :: "char \<Rightarrow> char" where
  "ascii_lower c =
     (if 65 \<le> (of_char c :: nat) \<and> (of_char c :: nat) \<le> 90
      then char_of ((of_char c :: nat) + 32) else c)"

definition ascii_upper :: "char \<Rightarrow> char" where
  "ascii_upper c =
     (if 97 \<le> (of_char c :: nat) \<and> (of_char c :: nat) \<le> 122
      then char_of ((of_char c :: nat) - 32) else c)"

definition to_lower :: "string \<Rightarrow> string" where
  "to_lower s = map ascii_lower s"

definition to_upper :: "string \<Rightarrow> string" where
  "to_upper s = map ascii_upper s"

definition has_prefix :: "string \<Rightarrow> string \<Rightarrow> bool" where
  "has_prefix s p \<longleftrightarrow> take (length p) s = p"

definition has_suffix :: "string \<Rightarrow> string \<Rightarrow> bool" where
  "has_suffix s p \<longleftrightarrow> has_prefix (rev s) (rev p)"

definition trim_prefix :: "string \<Rightarrow> string \<Rightarrow> string" where
  "trim_prefix s p = (if has_prefix s p then drop (length p) s else s)"

fun contains :: "string \<Rightarrow> string \<Rightarrow> bool" where
  "contains [] sub = (sub = [])"
| "contains (c # cs) sub = (has_prefix (c # cs) sub \<or> contains cs sub)"

text \<open>\<open>strings.Index\<close>: the first position of \<open>sub\<close>, \<open>None\<close> for Go's \<open>-1\<close>.\<close>

fun index_of :: "string \<Rightarrow> string \<Rightarrow> nat option" where
  "index_of [] sub = (if sub = [] then Some 0 else None)"
| "index_of (c # cs) sub =
     (if has_prefix (c # cs) sub then Some 0 else map_option Suc (index_of cs sub))"

text \<open>Text before the first occurrence of a byte: \<open>strings.SplitN(s, sep, 2)[0]\<close>.\<close>

definition before_byte :: "char \<Rightarrow> string \<Rightarrow> string" where
  "before_byte c s = takeWhile (\<lambda>x. x \<noteq> c) s"

text \<open>The UTF-8 encodings of the runes for which \<open>unicode.IsSpace\<close> holds.\<close>

definition space_runes :: "string list" where
  "space_runes =
     [[CHR 0x09], [CHR 0x0A], [CHR 0x0B], [CHR 0x0C], [CHR 0x0D], [CHR 0x20],
      [CHR 0xC2, CHR 0x85], [CHR 0xC2, CHR 0xA0],
      [CHR 0xE1, CHR 0x9A, CHR 0x80],
      [CHR 0xE2, CHR 0x80, CHR 0x80], [CHR 0xE2, CHR 0x80, CHR 0x81],
      [CHR 0xE2, CHR 0x80, CHR 0x82], [CHR 0xE2, CHR 0x80, CHR 0x83],
      [CHR 0xE2, CHR 0x80, CHR 0x84], [CHR 0xE2, CHR 0x80, CHR 0x85],
      [CHR 0xE2, CHR 0x80, CHR 0x86], [CHR 0xE2, CHR 0x80, CHR 0x87],
      [CHR 0xE2, CHR 0x80, CHR 0x88], [CHR 0xE2, CHR 0x80, CHR 0x89],
      [CHR 0xE2, CHR 0x80, CHR 0x8A],
      [CHR 0xE2, CHR 0x80, CHR 0xA8], [CHR 0xE2, CHR 0x80, CHR 0xA9],
      [CHR 0xE2, CHR 0x80, CHR 0xAF], [CHR 0xE2, CHR 0x81, CHR 0x9F],
      [CHR 0xE3, CHR 0x80, CHR 0x80]]"

fun strip_any :: "string list \<Rightarrow> string \<Rightarrow> string option" where
  "strip_any [] s = None"
| "strip_any (p # ps) s =
     (if p \<noteq> [] \<and> has_prefix s p then Some (drop (length p) s) else strip_any ps s)"

lemma strip_any_shorter: "strip_any ps s = Some r \<Longrightarrow> length r < length s"
proof (induction ps)
  case (Cons p ps)
  then show ?case
    by (cases "p = []") (auto simp: has_prefix_def split: if_splits, metis diff_less
      length_greater_0_conv list.size(3) take_Nil)
qed simp

function trim_left :: "string list \<Rightarrow> string \<Rightarrow> string" where
  "trim_left ps s = (case strip_any ps s of None \<Rightarrow> s | Some r \<Rightarrow> trim_left ps r)"
  by pat_completeness auto
termination
  by (relation "measure (\<lambda>(ps, s). length s)") (auto dest: strip_any_shorter)

declare trim_left.simps [simp del]

definition trim_right :: "string list \<Rightarrow> string \<Rightarrow> string" where
  "trim_right ps s = rev (trim_left (map rev ps) (rev s))"

definition trim_runes :: "string list \<Rightarrow> string \<Rightarrow> string" where
  "trim_runes ps s = trim_right ps (trim_left ps s)"

definition trim_space :: "string \<Rightarrow> string" where
  "trim_space s = trim_runes space_runes s"

text \<open>\<open>strings.ToLower(strings.TrimSpace(s))\<close>, the normalisation most of the packages apply.\<close>

definition fold_key :: "string \<Rightarrow> string" where
  "fold_key s = to_lower (trim_space s)"

text \<open>\<open>strings.Join\<close>.\<close>

fun join_with :: "string \<Rightarrow> string list \<Rightarrow> string" where
  "join_with sep [] = []"
| "join_with sep [x] = x"
| "join_with sep (x # y # ys) = x @ sep @ join_with sep (y # ys)"

text \<open>\<open>strings.Split\<close> at a byte.\<close>

fun split_byte :: "char \<Rightarrow> string \<Rightarrow> string list" where
  "split_byte sep [] = [[]]"
| "split_byte sep (c # s) =
     (if c = sep then [] # split_byte sep s
      else (case split_byte sep s of [] \<Rightarrow> [[c]] | p # ps \<Rightarrow> (c # p) # ps))"

text \<open>Go's idiom of a \<open>seen\<close> set that keeps the first occurrence of each value.\<close>

fun uniq_acc :: "'a list \<Rightarrow> 'a list \<Rightarrow> 'a list" where
  "uniq_acc seen [] = []"
| "uniq_acc seen (x # xs) =
     (if x \<in> set seen then uniq_acc seen xs else x # uniq_acc (x # seen) xs)"

section \<open>Reachability\<close>

inductive reachable :: "('s \<Rightarrow> bool) \<Rightarrow> ('s \<Rightarrow> 's \<Rightarrow> bool) \<Rightarrow> 's \<Rightarrow> bool"
  for init :: "'s \<Rightarrow> bool" and step :: "'s \<Rightarrow> 's \<Rightarrow> bool" where
  reach_init: "init s \<Longrightarrow> reachable init step s"
| reach_step: "reachable init step s \<Longrightarrow> step s t \<Longrightarrow> reachable init step t"

section \<open>Lemmas: strings\<close>

lemma ascii_lower_idem [simp]: "ascii_lower (ascii_lower c) = ascii_lower c"
  by (auto simp: ascii_lower_def)

lemma to_lower_idem [simp]: "to_lower (to_lower s) = to_lower s"
  by (simp add: to_lower_def)

lemma length_to_lower [simp]: "length (to_lower s) = length s"
  by (simp add: to_lower_def)

lemma to_lower_Nil_iff [simp]: "to_lower s = [] \<longleftrightarrow> s = []"
  by (simp add: to_lower_def)

lemma to_lower_append [simp]: "to_lower (s @ t) = to_lower s @ to_lower t"
  by (simp add: to_lower_def)

lemma to_lower_id: "(\<forall>c\<in>set s. ascii_lower c = c) \<Longrightarrow> to_lower s = s"
  by (simp add: to_lower_def map_idI)

lemma has_prefix_iff: "has_prefix s p \<longleftrightarrow> (\<exists>t. s = p @ t)"
  unfolding has_prefix_def by (metis append_eq_conv_conj)

lemma has_prefix_Nil [simp]: "has_prefix s []"
  by (simp add: has_prefix_def)

lemma has_suffix_iff: "has_suffix s p \<longleftrightarrow> (\<exists>t. s = t @ p)"
  unfolding has_suffix_def has_prefix_iff by (metis rev_append rev_rev_ident)

lemma has_prefix_append_I: "has_prefix s p \<Longrightarrow> has_prefix (s @ t) p"
  by (auto simp: has_prefix_iff)

lemma contains_iff: "contains s sub \<longleftrightarrow> (\<exists>a b. s = a @ sub @ b)"
proof (induction s)
  case Nil
  then show ?case by auto
next
  case (Cons c cs)
  show ?case (is "?L \<longleftrightarrow> ?R")
  proof
    assume ?L
    then consider "has_prefix (c # cs) sub" | "contains cs sub" by auto
    then show ?R
    proof cases
      case 1
      then show ?thesis by (auto simp: has_prefix_iff intro: exI [of _ "[]"])
    next
      case 2
      then obtain a b where "cs = a @ sub @ b" using Cons.IH by auto
      then have "c # cs = (c # a) @ sub @ b" by simp
      then show ?thesis by blast
    qed
  next
    assume ?R
    then obtain a b where ab: "c # cs = a @ sub @ b" by blast
    show ?L
    proof (cases a)
      case Nil
      with ab have "has_prefix (c # cs) sub" by (auto simp: has_prefix_iff)
      then show ?thesis by simp
    next
      case (Cons x xs)
      with ab have "cs = xs @ sub @ b" by simp
      then show ?thesis using Cons.IH by auto
    qed
  qed
qed

lemma index_of_contains: "index_of s sub \<noteq> None \<longleftrightarrow> contains s sub"
  by (induction s) auto

lemma index_of_SomeD:
  "index_of s sub = Some i \<Longrightarrow> has_prefix (drop i s) sub \<and> i \<le> length s"
  by (induction s arbitrary: i) (auto split: if_splits)

lemma contains_has_prefix: "has_prefix s p \<Longrightarrow> contains s p"
  by (cases s) (auto simp: has_prefix_def)

lemma strip_any_None_iff:
  "strip_any ps s = None \<longleftrightarrow> (\<forall>p\<in>set ps. p = [] \<or> \<not> has_prefix s p)"
  by (induction ps) auto

lemma strip_any_SomeD:
  "strip_any ps s = Some r \<Longrightarrow> \<exists>p\<in>set ps. p \<noteq> [] \<and> s = p @ r"
proof (induction ps)
  case Nil
  then show ?case by simp
next
  case (Cons p ps)
  show ?case
  proof (cases "p \<noteq> [] \<and> has_prefix s p")
    case True
    with Cons.prems show ?thesis
      by (auto simp: has_prefix_def) (metis append_take_drop_id)
  next
    case False
    with Cons show ?thesis by auto
  qed
qed

lemma trim_left_stable: "strip_any ps (trim_left ps s) = None"
proof (induction ps s rule: trim_left.induct)
  case (1 ps s)
  then show ?case
    by (cases "strip_any ps s") (simp_all add: trim_left.simps [of ps s])
qed

lemma trim_left_id: "strip_any ps s = None \<Longrightarrow> trim_left ps s = s"
  by (simp add: trim_left.simps)

lemma trim_left_idem [simp]: "trim_left ps (trim_left ps s) = trim_left ps s"
  by (rule trim_left_id) (rule trim_left_stable)

lemma trim_left_suffix: "\<exists>p. s = p @ trim_left ps s"
proof (induction ps s rule: trim_left.induct)
  case (1 ps s)
  show ?case
  proof (cases "strip_any ps s")
    case None
    then show ?thesis by (simp add: trim_left_id)
  next
    case (Some r)
    from strip_any_SomeD [OF Some] obtain p where p: "s = p @ r" by blast
    from 1 [OF Some] obtain q where "r = q @ trim_left ps r" by blast
    with p have "s = (p @ q) @ trim_left ps r" by simp
    moreover from Some have "trim_left ps s = trim_left ps r"
      by (simp add: trim_left.simps [of ps s])
    ultimately show ?thesis by metis
  qed
qed

lemma trim_right_prefix: "\<exists>p. s = trim_right ps s @ p"
  using trim_left_suffix [of "rev s" "map rev ps"]
  unfolding trim_right_def by (metis rev_append rev_rev_ident)

lemma trim_right_idem [simp]: "trim_right ps (trim_right ps s) = trim_right ps s"
  by (simp add: trim_right_def)

lemma strip_any_None_prefix:
  "strip_any ps (s @ t) = None \<Longrightarrow> strip_any ps s = None"
  by (auto simp: strip_any_None_iff dest: has_prefix_append_I)

lemma trim_left_trim_right_id:
  assumes "strip_any ps s = None"
  shows "trim_left ps (trim_right ps s) = trim_right ps s"
proof (rule trim_left_id)
  obtain p where "s = trim_right ps s @ p" using trim_right_prefix by blast
  with assms show "strip_any ps (trim_right ps s) = None"
    by (metis strip_any_None_prefix)
qed

lemma trim_runes_idem [simp]: "trim_runes ps (trim_runes ps s) = trim_runes ps s"
  unfolding trim_runes_def
  by (simp add: trim_left_trim_right_id [OF trim_left_stable])

lemma trim_space_idem [simp]: "trim_space (trim_space s) = trim_space s"
  by (simp add: trim_space_def)

lemma strip_any_None_disjoint:
  assumes "\<forall>p\<in>set ps. set p \<inter> set s = {}"
  shows "strip_any ps s = None"
proof -
  have "\<not> has_prefix s p" if "p \<in> set ps" "p \<noteq> []" for p
  proof
    assume "has_prefix s p"
    then have "set p \<subseteq> set s" by (auto simp: has_prefix_iff)
    with assms that show False by (cases p) auto
  qed
  then show ?thesis by (auto simp: strip_any_None_iff)
qed

lemma trim_runes_id_disjoint:
  assumes "\<forall>p\<in>set ps. set p \<inter> set s = {}"
  shows "trim_runes ps s = s"
proof -
  have "strip_any ps s = None" using assms by (rule strip_any_None_disjoint)
  moreover have "strip_any (map rev ps) (rev s) = None"
    by (rule strip_any_None_disjoint) (use assms in auto)
  ultimately show ?thesis
    by (simp add: trim_runes_def trim_right_def trim_left_id)
qed

text \<open>The bytes that occur in the encodings of space runes.\<close>

definition space_bytes :: "char list" where
  "space_bytes =
     [CHR 0x09, CHR 0x0A, CHR 0x0B, CHR 0x0C, CHR 0x0D, CHR 0x20, CHR 0xC2, CHR 0x85,
      CHR 0xA0, CHR 0xE1, CHR 0x9A, CHR 0x80, CHR 0xE2, CHR 0x81, CHR 0x82, CHR 0x83,
      CHR 0x84, CHR 0x86, CHR 0x87, CHR 0x88, CHR 0x89, CHR 0x8A, CHR 0xA8, CHR 0xA9,
      CHR 0xAF, CHR 0x9F, CHR 0xE3]"

lemma space_runes_bytes: "\<forall>p\<in>set space_runes. set p \<subseteq> set space_bytes"
  by code_simp

lemma trim_space_id:
  assumes "\<forall>c\<in>set s. c \<notin> set space_bytes"
  shows "trim_space s = s"
  unfolding trim_space_def
  by (rule trim_runes_id_disjoint) (use assms space_runes_bytes in fastforce)

lemma trim_space_set: "set (trim_space s) \<subseteq> set s"
proof -
  obtain p where p: "s = p @ trim_left space_runes s"
    using trim_left_suffix by blast
  obtain q where q: "trim_left space_runes s = trim_space s @ q"
    unfolding trim_space_def trim_runes_def using trim_right_prefix by blast
  have "set s = set (p @ trim_space s @ q)" using p q by metis
  then show ?thesis by auto
qed

text \<open>Lower-casing commutes with trimming, because no byte of a space rune is a letter.\<close>

definition letter_free :: "string \<Rightarrow> bool" where
  "letter_free p \<longleftrightarrow>
     list_all (\<lambda>c. (of_char c :: nat) < 65 \<or> 90 < (of_char c :: nat) \<and> (of_char c :: nat) < 97
                  \<or> 122 < (of_char c :: nat)) p"

lemma letter_free_byte:
  assumes "(of_char c :: nat) < 65 \<or> 90 < (of_char c :: nat) \<and> (of_char c :: nat) < 97 \<or> 122 < (of_char c :: nat)"
  shows "ascii_lower d = c \<longleftrightarrow> d = c"
proof (cases "65 \<le> (of_char d :: nat) \<and> (of_char d :: nat) \<le> 90")
  case True
  then have "of_char (ascii_lower d) = (of_char d :: nat) + 32" by (simp add: ascii_lower_def)
  with True assms show ?thesis by auto
next
  case False
  then show ?thesis unfolding ascii_lower_def by (simp only: if_False)
qed

lemma letter_free_map: "letter_free p \<Longrightarrow> map ascii_lower s = p \<longleftrightarrow> s = p"
  by (induction p arbitrary: s) (auto simp: letter_free_def letter_free_byte map_eq_Cons_conv)

lemma has_prefix_to_lower: "letter_free p \<Longrightarrow> has_prefix (to_lower s) p \<longleftrightarrow> has_prefix s p"
  by (simp add: has_prefix_def to_lower_def take_map letter_free_map)

lemma strip_any_to_lower:
  "\<forall>p\<in>set ps. letter_free p \<Longrightarrow> strip_any ps (to_lower s) = map_option to_lower (strip_any ps s)"
  by (induction ps) (auto simp: has_prefix_to_lower, simp_all add: to_lower_def drop_map)

lemma trim_left_to_lower:
  assumes "\<forall>p\<in>set ps. letter_free p"
  shows "trim_left ps (to_lower s) = to_lower (trim_left ps s)"
proof (induction "length s" arbitrary: s rule: less_induct)
  case less
  then show ?case using strip_any_to_lower [OF assms, of s]
    by (subst (1 2) trim_left.simps) (auto split: option.splits dest: strip_any_shorter)
qed

lemma to_lower_rev: "to_lower (rev s) = rev (to_lower s)"
  by (simp add: to_lower_def rev_map)

lemma space_runes_letter_free: "\<forall>p\<in>set space_runes. letter_free p"
  by code_simp

lemma trim_space_to_lower: "trim_space (to_lower s) = to_lower (trim_space s)"
proof -
  have "\<forall>p\<in>set (map rev space_runes). letter_free p"
    using space_runes_letter_free by (auto simp: letter_free_def list_all_iff)
  then show ?thesis
    by (simp add: trim_space_def trim_runes_def trim_right_def trim_left_to_lower [OF space_runes_letter_free]
        trim_left_to_lower flip: to_lower_rev)
qed

lemma fold_key_idem [simp]: "fold_key (fold_key s) = fold_key s"
  by (simp add: fold_key_def trim_space_to_lower)

section \<open>Lemmas: first occurrences\<close>

lemma set_uniq_acc: "set (uniq_acc seen xs) = set xs - set seen"
  by (induction xs arbitrary: seen) auto

lemma distinct_uniq_acc: "distinct (uniq_acc seen xs)"
  by (induction xs arbitrary: seen) (auto simp: set_uniq_acc)

lemma uniq_acc_id: "distinct xs \<Longrightarrow> set xs \<inter> set seen = {} \<Longrightarrow> uniq_acc seen xs = xs"
  by (induction xs arbitrary: seen) auto

lemma uniq_acc_idem: "uniq_acc [] (uniq_acc seen xs) = uniq_acc seen xs"
  by (rule uniq_acc_id) (auto simp: distinct_uniq_acc)

lemma length_uniq_acc: "length (uniq_acc seen xs) \<le> length xs"
  by (induction xs arbitrary: seen) (auto intro: le_SucI)

lemma uniq_acc_append:
  "uniq_acc seen (xs @ ys) = uniq_acc seen xs @ uniq_acc (rev (uniq_acc seen xs) @ seen) ys"
  by (induction xs arbitrary: seen) auto

section \<open>Lemmas: association lists, division\<close>

lemma set_alist_update: "set (AList.update k v al) \<subseteq> insert (k, v) (set al)"
  by (induction al) auto

lemma go_div_mono:
  assumes "0 < b" and "x \<le> y"
  shows "go_div x b \<le> go_div y b"
proof -
  have nonneg: "0 \<le> \<bar>z\<bar> div b" for z using assms(1) by (simp add: pos_imp_zdiv_nonneg_iff)
  consider "0 \<le> x" | "x < 0" "0 \<le> y" | "x < 0" "y < 0" by linarith
  then show ?thesis
  proof cases
    case 1
    with assms have "x div b \<le> y div b" by (simp add: zdiv_mono1)
    with 1 assms show ?thesis by (auto simp: go_div_def sgn_if)
  next
    case 2
    with assms show ?thesis using nonneg [of x] nonneg [of y] by (auto simp: go_div_def sgn_if)
  next
    case 3
    with assms have "(- y) div b \<le> (- x) div b" by (simp add: zdiv_mono1)
    with 3 assms show ?thesis by (auto simp: go_div_def sgn_if)
  qed
qed

lemma milliseconds_mono: "x \<le> y \<Longrightarrow> milliseconds x \<le> milliseconds y"
  unfolding milliseconds_def by (rule go_div_mono) (simp_all add: Millisecond_def)

section \<open>Invariants of transition systems\<close>

text \<open>
  A machine and a predicate that its start states satisfy and its steps keep. Each concurrent
  component interprets this on its own step relation.
\<close>

locale invariant_machine =
  fixes init :: "'s \<Rightarrow> bool" and step :: "'s \<Rightarrow> 's \<Rightarrow> bool" and inv :: "'s \<Rightarrow> bool"
  assumes init_inv: "init s \<Longrightarrow> inv s"
    and step_inv: "inv s \<Longrightarrow> step s t \<Longrightarrow> inv t"
begin

lemma reachable_inv: "reachable init step s \<Longrightarrow> inv s"
  by (induction rule: reachable.induct) (auto intro: init_inv step_inv)

lemma rtranclp_inv: "inv s \<Longrightarrow> step\<^sup>*\<^sup>* s t \<Longrightarrow> inv t"
  by (erule rtranclp_induct) (auto intro: step_inv)

end

section \<open>Canonical keys\<close>

text \<open>
  Several packages bring user input to a canonical form that may be rejected, and then drop
  repetitions while keeping the first occurrence. The contract is that canonical forms are
  fixed points; the list operation is then canonical too.
\<close>

fun canon_list :: "('a \<Rightarrow> 'e + 'a) \<Rightarrow> 'a list \<Rightarrow> 'a list \<Rightarrow> 'e + 'a list" where
  "canon_list f seen [] = Inr []"
| "canon_list f seen (x # xs) =
     (case f x of
        Inl e \<Rightarrow> Inl e
      | Inr y \<Rightarrow>
          (if y \<in> set seen then canon_list f seen xs
           else (case canon_list f (y # seen) xs of
                   Inl e \<Rightarrow> Inl e
                 | Inr ys \<Rightarrow> Inr (y # ys))))"

locale canonical_key =
  fixes canon :: "'a \<Rightarrow> 'e + 'a"
  assumes canon_fixed: "canon x = Inr y \<Longrightarrow> canon y = Inr y"
begin

lemma canon_list_ok:
  "map canon xs = map Inr zs \<Longrightarrow> canon_list canon seen xs = Inr (uniq_acc seen zs)"
proof (induction xs arbitrary: seen zs)
  case (Cons x xs)
  then obtain z zs' where z: "zs = z # zs'" "canon x = Inr z" "map canon xs = map Inr zs'"
    by (auto simp: Cons_eq_map_conv map_eq_Cons_conv)
  then show ?case by (simp add: Cons.IH)
qed simp

lemma canon_list_error_iff:
  "(\<exists>e. canon_list canon seen xs = Inl e) \<longleftrightarrow> (\<exists>x\<in>set xs. \<exists>e. canon x = Inl e)"
proof (induction xs arbitrary: seen)
  case (Cons x xs)
  show ?case
  proof (cases "canon x")
    case (Inr y)
    show ?thesis
    proof (cases "y \<in> set seen")
      case True
      with Inr Cons.IH [of seen] show ?thesis by simp
    next
      case False
      with Inr Cons.IH [of "y # seen"] show ?thesis by (auto split: sum.splits)
    qed
  qed auto
qed simp

lemma canon_list_eq:
  "canon_list canon seen xs = Inr ys \<longleftrightarrow>
     (\<exists>zs. map canon xs = map Inr zs \<and> ys = uniq_acc seen zs)"
proof
  assume ys: "canon_list canon seen xs = Inr ys"
  then have "\<forall>x\<in>set xs. \<exists>y. canon x = Inr y"
    using canon_list_error_iff [of seen xs] by (metis Inl_Inr_False obj_sumE)
  then have "\<exists>zs. map canon xs = map Inr zs"
    by (induction xs) (auto, metis list.simps(9))
  then obtain zs where zs: "map canon xs = map Inr zs" by blast
  with canon_list_ok [OF zs, of seen] ys
  show "\<exists>zs. map canon xs = map Inr zs \<and> ys = uniq_acc seen zs" by auto
qed (auto dest: canon_list_ok)

lemma canon_list_distinct: "canon_list canon seen xs = Inr ys \<Longrightarrow> distinct ys"
  by (auto simp: canon_list_eq distinct_uniq_acc)

lemma canon_list_canonical:
  assumes "canon_list canon seen xs = Inr ys" and "y \<in> set ys"
  shows "canon y = Inr y"
proof -
  from assms(1) obtain zs where zs: "map canon xs = map Inr zs" "ys = uniq_acc seen zs"
    by (auto simp: canon_list_eq)
  with assms(2) have "y \<in> set zs" by (auto simp: set_uniq_acc)
  then have "Inr y \<in> set (map canon xs)" using zs(1) by auto
  then obtain x where "canon x = Inr y" by (auto simp: eq_commute)
  then show ?thesis by (rule canon_fixed)
qed

lemma canon_list_idem:
  assumes "canon_list canon [] xs = Inr ys"
  shows "canon_list canon [] ys = Inr ys"
proof -
  have "map canon ys = map Inr ys"
    using canon_list_canonical [OF assms] by simp
  moreover have "uniq_acc [] ys = ys"
    using canon_list_distinct [OF assms] by (simp add: uniq_acc_id)
  ultimately show ?thesis by (auto simp: canon_list_eq intro!: exI [of _ ys])
qed

lemma canon_list_set:
  assumes "canon_list canon [] xs = Inr ys"
  shows "Inr ` set ys = canon ` set xs"
proof -
  from assms obtain zs where zs: "map canon xs = map Inr zs" "ys = uniq_acc [] zs"
    by (auto simp: canon_list_eq)
  from zs(2) have "set ys = set zs" by (simp add: set_uniq_acc)
  moreover have "set (map canon xs) = set (map Inr zs)" using zs(1) by simp
  ultimately show ?thesis by simp
qed

end

end
