(* ===== verification/Limiter.thy ===== *)
theory Limiter
  imports Go_Prelude
begin

text \<open>
  The per-user request limiter of \<^verbatim>\<open>src/usage/limiter.go\<close>: two aligned fixed windows
  (one second, one minute) per user ID, with the configuration stored beside the counters so
  that a changed configuration starts new counters. The clock reading \<open>l.now()\<close> of a call is
  the argument \<open>now\<close>; the mutex makes each call one step.
\<close>

section \<open>Model\<close>

record LimitConfig =
  lc_RequestsPerSecond :: int
  lc_RequestsPerMinute :: int
  lc_Unlimited :: bool

record WindowLimit =
  wl_Limit :: int
  wl_Remaining :: int
  wl_ResetAt :: time

record LimitDecision =
  ld_Allowed :: bool
  ld_Unlimited :: bool
  ld_Remaining :: int
  ld_ResetAt :: time
  ld_RetryAfter :: duration
  ld_Second :: WindowLimit
  ld_Minute :: WindowLimit

record limitState =
  ls_config :: LimitConfig
  ls_secondWindow :: time
  ls_secondCount :: int
  ls_minuteWindow :: time
  ls_minuteCount :: int

record Limiter =
  l_config :: LimitConfig
  l_states :: "string \<rightharpoonup> limitState"

definition DefaultRequestsPerSecond :: int where "DefaultRequestsPerSecond = 3"
definition DefaultRequestsPerMinute :: int where "DefaultRequestsPerMinute = 60"

definition DefaultLimitConfig :: LimitConfig where
  "DefaultLimitConfig =
     \<lparr>lc_RequestsPerSecond = DefaultRequestsPerSecond,
      lc_RequestsPerMinute = DefaultRequestsPerMinute, lc_Unlimited = False\<rparr>"

definition normalizeLimitConfig :: "LimitConfig \<Rightarrow> LimitConfig" where
  "normalizeLimitConfig config =
     (if lc_Unlimited config
      then \<lparr>lc_RequestsPerSecond = 0, lc_RequestsPerMinute = 0, lc_Unlimited = True\<rparr>
      else let config =
             (if lc_RequestsPerSecond config \<le> 0
              then config\<lparr>lc_RequestsPerSecond := DefaultRequestsPerSecond\<rparr> else config)
           in if lc_RequestsPerMinute config \<le> 0
              then config\<lparr>lc_RequestsPerMinute := DefaultRequestsPerMinute\<rparr> else config)"

definition newLimiter :: "LimitConfig \<Rightarrow> Limiter" where
  "newLimiter config = \<lparr>l_config = normalizeLimitConfig config, l_states = Map.empty\<rparr>"

definition remaining :: "int \<Rightarrow> int \<Rightarrow> int" where
  "remaining limit used = (let value = limit - used in if value > 0 then value else 0)"

definition minInt :: "int \<Rightarrow> int \<Rightarrow> int" where
  "minInt left right = (if left < right then left else right)"

definition nonNegativeDuration :: "duration \<Rightarrow> duration" where
  "nonNegativeDuration value = (if value < 0 then 0 else value)"

definition restrictiveReset :: "int \<Rightarrow> time \<Rightarrow> int \<Rightarrow> time \<Rightarrow> time" where
  "restrictiveReset secondRemaining secondReset minuteRemaining minuteReset =
     (if secondRemaining < minuteRemaining then secondReset
      else if minuteRemaining < secondRemaining then minuteReset
      else if minuteReset > secondReset then minuteReset
      else secondReset)"

definition unlimitedDecision :: LimitDecision where
  "unlimitedDecision =
     (let window = \<lparr>wl_Limit = 0, wl_Remaining = -1, wl_ResetAt = zero_time\<rparr>
      in \<lparr>ld_Allowed = True, ld_Unlimited = True, ld_Remaining = -1, ld_ResetAt = zero_time,
          ld_RetryAfter = 0, ld_Second = window, ld_Minute = window\<rparr>)"

text \<open>The state a call works on: fresh after a configuration change, windows moved to \<open>now\<close>.\<close>

definition currentState :: "Limiter \<Rightarrow> string \<Rightarrow> LimitConfig \<Rightarrow> time \<Rightarrow> limitState" where
  "currentState l userID config now =
     (let fresh = \<lparr>ls_config = config, ls_secondWindow = zero_time, ls_secondCount = 0,
                   ls_minuteWindow = zero_time, ls_minuteCount = 0\<rparr>;
          state = (case l_states l userID of
                     None \<Rightarrow> fresh
                   | Some st \<Rightarrow> if ls_config st \<noteq> config then fresh else st);
          secondWindow = time_truncate now Second;
          minuteWindow = time_truncate now Minute;
          state = (if ls_secondWindow state \<noteq> secondWindow
                   then state\<lparr>ls_secondWindow := secondWindow, ls_secondCount := 0\<rparr> else state)
      in if ls_minuteWindow state \<noteq> minuteWindow
         then state\<lparr>ls_minuteWindow := minuteWindow, ls_minuteCount := 0\<rparr> else state)"

definition blockedReset :: "bool \<Rightarrow> time \<Rightarrow> bool \<Rightarrow> time \<Rightarrow> time" where
  "blockedReset blockedSecond secondReset blockedMinute minuteReset =
     (let resetAt = (if blockedSecond then secondReset else zero_time)
      in if blockedMinute \<and> (is_zero_time resetAt \<or> minuteReset > resetAt)
         then minuteReset else resetAt)"

definition AllowWithConfig ::
  "Limiter \<Rightarrow> time \<Rightarrow> string \<Rightarrow> LimitConfig \<Rightarrow> LimitDecision \<times> Limiter" where
  "AllowWithConfig l now userID requested =
     (let config = normalizeLimitConfig requested
      in if lc_Unlimited config
         then (unlimitedDecision, l\<lparr>l_states := (l_states l)(userID := None)\<rparr>)
         else
           let state = currentState l userID config now;
               secondReset = time_truncate now Second + Second;
               minuteReset = time_truncate now Minute + Minute;
               rps = lc_RequestsPerSecond config;
               rpm = lc_RequestsPerMinute config;
               blockedSecond = ls_secondCount state \<ge> rps;
               blockedMinute = ls_minuteCount state \<ge> rpm
           in if blockedSecond \<or> blockedMinute
              then
                let resetAt = blockedReset blockedSecond secondReset blockedMinute minuteReset;
                    secondRemaining = remaining rps (ls_secondCount state);
                    minuteRemaining = remaining rpm (ls_minuteCount state)
                in (\<lparr>ld_Allowed = False, ld_Unlimited = False,
                     ld_Remaining = minInt secondRemaining minuteRemaining,
                     ld_ResetAt = resetAt,
                     ld_RetryAfter = nonNegativeDuration (resetAt - now),
                     ld_Second = \<lparr>wl_Limit = rps, wl_Remaining = secondRemaining, wl_ResetAt = secondReset\<rparr>,
                     ld_Minute = \<lparr>wl_Limit = rpm, wl_Remaining = minuteRemaining, wl_ResetAt = minuteReset\<rparr>\<rparr>,
                    l\<lparr>l_states := (l_states l)(userID \<mapsto> state)\<rparr>)
              else
                let state = state\<lparr>ls_secondCount := ls_secondCount state + 1,
                                  ls_minuteCount := ls_minuteCount state + 1\<rparr>;
                    secondRemaining = remaining rps (ls_secondCount state);
                    minuteRemaining = remaining rpm (ls_minuteCount state)
                in (\<lparr>ld_Allowed = True, ld_Unlimited = False,
                     ld_Remaining = minInt secondRemaining minuteRemaining,
                     ld_ResetAt = restrictiveReset secondRemaining secondReset minuteRemaining minuteReset,
                     ld_RetryAfter = 0,
                     ld_Second = \<lparr>wl_Limit = rps, wl_Remaining = secondRemaining, wl_ResetAt = secondReset\<rparr>,
                     ld_Minute = \<lparr>wl_Limit = rpm, wl_Remaining = minuteRemaining, wl_ResetAt = minuteReset\<rparr>\<rparr>,
                    l\<lparr>l_states := (l_states l)(userID \<mapsto> state)\<rparr>))"

definition Allow :: "Limiter \<Rightarrow> time \<Rightarrow> string \<Rightarrow> LimitDecision \<times> Limiter" where
  "Allow l now userID = AllowWithConfig l now userID (l_config l)"

definition UpdateConfig :: "Limiter \<Rightarrow> LimitConfig \<Rightarrow> Limiter" where
  "UpdateConfig l config = l\<lparr>l_config := normalizeLimitConfig config, l_states := Map.empty\<rparr>"

definition ResetUser :: "Limiter \<Rightarrow> string \<Rightarrow> Limiter" where
  "ResetUser l userID = l\<lparr>l_states := (l_states l)(userID := None)\<rparr>"

text \<open>A run of requests, each with its user, its clock reading and the configuration asked for.\<close>

type_synonym limit_request = "string \<times> time \<times> LimitConfig"

fun run_requests :: "Limiter \<Rightarrow> limit_request list \<Rightarrow> LimitDecision list \<times> Limiter" where
  "run_requests l [] = ([], l)"
| "run_requests l ((u, t, c) # rs) =
     (let (d, l') = AllowWithConfig l t u c; (ds, l'') = run_requests l' rs in (d # ds, l''))"

text \<open>How many requests of user \<open>u\<close> were granted in the window of length \<open>len\<close> that starts at \<open>w\<close>.\<close>

definition granted :: "duration \<Rightarrow> string \<Rightarrow> time \<Rightarrow> limit_request list \<Rightarrow> LimitDecision list \<Rightarrow> nat" where
  "granted len u w rs ds =
     length (filter (\<lambda>((v, t, c), d). v = u \<and> time_truncate t len = w \<and> ld_Allowed d) (zip rs ds))"

section \<open>Windows\<close>

lemma Second_pos: "0 < Second" and Minute_pos: "0 < Minute"
  by (simp_all add: duration_defs)

lemma time_truncate_le: "0 < d \<Longrightarrow> time_truncate t d \<le> t"
  by (simp add: time_truncate_def)

lemma time_truncate_gt: "0 < d \<Longrightarrow> t < time_truncate t d + d"
  by (simp add: time_truncate_def)

lemma time_truncate_mono:
  assumes "0 < d" and "s \<le> t"
  shows "time_truncate s d \<le> time_truncate t d"
proof -
  have eq: "time_truncate x d = d * (x div d)" for x
    by (simp add: time_truncate_def minus_mod_eq_mult_div)
  show ?thesis using assms by (simp add: eq zdiv_mono1)
qed

lemma time_truncate_neq:
  "0 < d \<Longrightarrow> time_truncate s d + d \<le> t \<Longrightarrow> time_truncate t d \<noteq> time_truncate s d"
  using time_truncate_gt [of d t] by auto

lemma second_reset_le_minute_reset:
  "time_truncate t Second + Second \<le> time_truncate t Minute + Minute"
proof -
  have m: "Minute = Second * 60" by (simp add: Minute_def)
  have "t mod (Second * 60) = Second * (t div Second mod 60) + t mod Second"
    by (rule zmod_zmult2_eq) simp
  then have "t mod Minute - t mod Second = Second * (t div Second mod 60)" by (simp add: m)
  moreover have "Second * (t div Second mod 60) \<le> Second * 59"
    by (rule mult_left_mono) (simp_all add: duration_defs)
  ultimately show ?thesis by (simp add: time_truncate_def m)
qed

lemma normalize_limits_pos:
  "\<not> lc_Unlimited (normalizeLimitConfig c) \<Longrightarrow>
     0 < lc_RequestsPerSecond (normalizeLimitConfig c) \<and>
     0 < lc_RequestsPerMinute (normalizeLimitConfig c)"
  by (auto simp: normalizeLimitConfig_def Let_def DefaultRequestsPerSecond_def
      DefaultRequestsPerMinute_def split: if_splits)

lemma normalizeLimitConfig_idem [simp]:
  "normalizeLimitConfig (normalizeLimitConfig c) = normalizeLimitConfig c"
  by (auto simp: normalizeLimitConfig_def Let_def DefaultRequestsPerSecond_def
      DefaultRequestsPerMinute_def)

section \<open>The contract of one window\<close>

text \<open>
  What both windows promise: a call adds one to the count of its own window exactly when it is
  allowed, and only while the count is below the limit; every other window of that user counts
  as unused afterwards, and other users are untouched. The bound on the number of grants in a
  window follows from these laws alone, so it is proved once for both windows.
\<close>

definition window_used ::
  "(limitState \<Rightarrow> time) \<Rightarrow> (limitState \<Rightarrow> int) \<Rightarrow> Limiter \<Rightarrow> string \<Rightarrow> LimitConfig \<Rightarrow> time \<Rightarrow> int" where
  "window_used win cnt l u c w =
     (case l_states l u of
        None \<Rightarrow> 0
      | Some st \<Rightarrow> if ls_config st = c \<and> win st = w then cnt st else 0)"

locale fixed_window =
  fixes win :: "limitState \<Rightarrow> time" and cnt :: "limitState \<Rightarrow> int"
    and len :: duration and lim :: "LimitConfig \<Rightarrow> int"
  assumes len_pos: "0 < len"
    and lim_pos: "\<not> lc_Unlimited (normalizeLimitConfig c) \<Longrightarrow> 0 < lim (normalizeLimitConfig c)"
    and call_own: "AllowWithConfig l t u c = (d, l') \<Longrightarrow> \<not> lc_Unlimited (normalizeLimitConfig c) \<Longrightarrow>
       window_used win cnt l' u (normalizeLimitConfig c) (time_truncate t len) =
       window_used win cnt l u (normalizeLimitConfig c) (time_truncate t len)
         + (if ld_Allowed d then 1 else 0)"
    and call_below: "AllowWithConfig l t u c = (d, l') \<Longrightarrow> \<not> lc_Unlimited (normalizeLimitConfig c) \<Longrightarrow>
       ld_Allowed d \<Longrightarrow>
       window_used win cnt l u (normalizeLimitConfig c) (time_truncate t len)
         < lim (normalizeLimitConfig c)"
    and call_other_window: "AllowWithConfig l t u c = (d, l') \<Longrightarrow>
       \<not> lc_Unlimited (normalizeLimitConfig c) \<Longrightarrow> w \<noteq> time_truncate t len \<Longrightarrow>
       window_used win cnt l' u (normalizeLimitConfig c) w = 0"
    and call_other_user: "AllowWithConfig l t u c = (d, l') \<Longrightarrow> v \<noteq> u \<Longrightarrow>
       l_states l' v = l_states l v"
begin

lemma used_other_user:
  "AllowWithConfig l t u c = (d, l') \<Longrightarrow> v \<noteq> u \<Longrightarrow>
     window_used win cnt l' v k w = window_used win cnt l v k w"
  by (simp add: window_used_def call_other_user)

lemma granted_past:
  assumes "\<forall>(v, t, c)\<in>set rs. w < time_truncate t len"
  shows "granted len u w rs ds = 0"
  using assms unfolding granted_def
  by (auto simp: filter_empty_conv dest!: set_zip_leftD)

lemma granted_bound:
  assumes "sorted (map (\<lambda>(u, t, c). t) rs)"
    and "\<forall>(v, t, c)\<in>set rs. v = u \<longrightarrow> normalizeLimitConfig c = k"
    and "\<not> lc_Unlimited k"
    and "window_used win cnt l u k w \<le> lim k"
    and "0 \<le> lim k"
  shows "int (granted len u w rs (fst (run_requests l rs))) + window_used win cnt l u k w \<le> lim k
     \<or> (\<exists>(v, t, c)\<in>set rs. v = u \<and> time_truncate t len < w \<and> window_used win cnt l u k w \<noteq> 0)"
  using assms
proof (induction rs arbitrary: l)
  case Nil
  then show ?case by (simp add: granted_def)
next
  case (Cons r rs)
  obtain v t c where r: "r = (v, t, c)" by (cases r)
  obtain d l' where call: "AllowWithConfig l t v c = (d, l')" by fastforce
  let ?ds = "fst (run_requests l' rs)"
  have run: "fst (run_requests l (r # rs)) = d # ?ds"
    by (simp add: r call Let_def split: prod.splits)
  have srt: "sorted (map (\<lambda>(u, t, c). t) rs)" using Cons.prems(1) by simp
  have later: "\<forall>(v', t', c')\<in>set rs. t \<le> t'" using Cons.prems(1) by (auto simp: r)
  have cfg: "\<forall>(v, t, c)\<in>set rs. v = u \<longrightarrow> normalizeLimitConfig c = k"
    using Cons.prems(2) by auto
  have step: "granted len u w (r # rs) (fst (run_requests l (r # rs))) =
      (if v = u \<and> time_truncate t len = w \<and> ld_Allowed d then 1 else 0) + granted len u w rs ?ds"
    unfolding run by (simp add: granted_def r)
  show ?case
  proof (cases "v = u")
    case False
    then have same: "window_used win cnt l' u k w = window_used win cnt l u k w"
      using used_other_user [OF call] by simp
    have "window_used win cnt l' u k w \<le> lim k" using Cons.prems(4) same by simp
    from Cons.IH [OF srt cfg Cons.prems(3) this Cons.prems(5)] show ?thesis
      using False unfolding step by (auto simp: same)
  next
    case True
    then have ck: "normalizeLimitConfig c = k" using Cons.prems(2) by (auto simp: r)
    with Cons.prems(3) have lim: "\<not> lc_Unlimited (normalizeLimitConfig c)" by simp
    note own = call_own [OF call lim, unfolded ck True]
      and below = call_below [OF call lim, unfolded ck True]
      and other = call_other_window [OF call lim, unfolded ck True]
    consider (within) "time_truncate t len = w" | (before) "time_truncate t len < w"
      | (after) "w < time_truncate t len" by linarith
    then show ?thesis
    proof cases
      case within
      have no_before: "\<not> (\<exists>(v', t', c')\<in>set rs. v' = u \<and> time_truncate t' len < w \<and> X)" for X
        using later time_truncate_mono [OF len_pos] within by fastforce
      have "window_used win cnt l' u k w \<le> lim k"
        using own below Cons.prems(4) within by (cases "ld_Allowed d") auto
      from Cons.IH [OF srt cfg Cons.prems(3) this Cons.prems(5)] no_before
      have "int (granted len u w rs ?ds) + window_used win cnt l' u k w \<le> lim k" by blast
      then show ?thesis using own within True
        unfolding step by (intro disjI1) (cases "ld_Allowed d", simp_all)
    next
      case before
      show ?thesis
      proof (cases "window_used win cnt l u k w = 0")
        case False
        then show ?thesis using before True by (auto simp: r)
      next
        case used0: True
        from other before have z: "window_used win cnt l' u k w = 0" by simp
        with Cons.prems(5) have "window_used win cnt l' u k w \<le> lim k" by simp
        from Cons.IH [OF srt cfg Cons.prems(3) this Cons.prems(5)] z
        have "int (granted len u w rs ?ds) \<le> lim k" by auto
        then show ?thesis using before used0 unfolding step by simp
      qed
    next
      case after
      have "\<forall>(v', t', c')\<in>set rs. w < time_truncate t' len"
        using later time_truncate_mono [OF len_pos] after by fastforce
      then have "granted len u w rs ?ds = 0" by (rule granted_past)
      then show ?thesis using after Cons.prems(4) unfolding step by simp
    qed
  qed
qed

lemma granted_le_limit:
  assumes "sorted (map (\<lambda>(u, t, c). t) rs)"
    and "\<forall>(v, t, c)\<in>set rs. v = u \<longrightarrow> normalizeLimitConfig c = normalizeLimitConfig k"
    and "\<not> lc_Unlimited (normalizeLimitConfig k)"
    and "l_states l u = None"
  shows "int (granted len u w rs (fst (run_requests l rs))) \<le> lim (normalizeLimitConfig k)"
proof -
  have z: "window_used win cnt l u (normalizeLimitConfig k) w = 0"
    using assms(4) by (simp add: window_used_def)
  have "0 < lim (normalizeLimitConfig k)" using assms(3) by (rule lim_pos)
  with granted_bound [OF assms(1,2,3)] z show ?thesis by force
qed

end

section \<open>The model keeps the contract\<close>

lemma currentState_config [simp]: "ls_config (currentState l u c t) = c"
  by (simp add: currentState_def Let_def split: option.splits)

lemma currentState_windows [simp]:
  "ls_secondWindow (currentState l u c t) = time_truncate t Second"
  "ls_minuteWindow (currentState l u c t) = time_truncate t Minute"
  by (simp_all add: currentState_def Let_def split: option.splits)

lemma currentState_secondCount:
  "ls_secondCount (currentState l u c t) =
     window_used ls_secondWindow ls_secondCount l u c (time_truncate t Second)"
  by (auto simp: currentState_def window_used_def Let_def split: option.splits)

lemma currentState_minuteCount:
  "ls_minuteCount (currentState l u c t) =
     window_used ls_minuteWindow ls_minuteCount l u c (time_truncate t Minute)"
  by (auto simp: currentState_def window_used_def Let_def split: option.splits)

lemma currentState_known:
  assumes "l_states l u = Some st" and "ls_config st = k"
  shows "ls_secondCount (currentState l u k t) =
           (if ls_secondWindow st = time_truncate t Second then ls_secondCount st else 0)"
    and "ls_minuteCount (currentState l u k t) =
           (if ls_minuteWindow st = time_truncate t Minute then ls_minuteCount st else 0)"
  using assms by (simp_all add: currentState_secondCount currentState_minuteCount window_used_def)

text \<open>A limited call as a case distinction on the counters of the current windows.\<close>

lemma AllowWithConfig_limited:
  assumes "\<not> lc_Unlimited (normalizeLimitConfig c)"
  shows "ld_Allowed (fst (AllowWithConfig l t u c)) \<longleftrightarrow>
           ls_secondCount (currentState l u (normalizeLimitConfig c) t)
             < lc_RequestsPerSecond (normalizeLimitConfig c)
         \<and> ls_minuteCount (currentState l u (normalizeLimitConfig c) t)
             < lc_RequestsPerMinute (normalizeLimitConfig c)"
    and "l_states (snd (AllowWithConfig l t u c)) =
           (l_states l)(u \<mapsto>
             (let st = currentState l u (normalizeLimitConfig c) t
              in if ld_Allowed (fst (AllowWithConfig l t u c))
                 then st\<lparr>ls_secondCount := ls_secondCount st + 1,
                         ls_minuteCount := ls_minuteCount st + 1\<rparr>
                 else st))"
  using assms by (auto simp: AllowWithConfig_def Let_def)

lemma AllowWithConfig_other_user:
  "v \<noteq> u \<Longrightarrow> l_states (snd (AllowWithConfig l t u c)) v = l_states l v"
  by (auto simp: AllowWithConfig_def Let_def)

interpretation second_window: fixed_window ls_secondWindow ls_secondCount Second lc_RequestsPerSecond
proof
  show "0 < Second" by (rule Second_pos)
next
  fix c
  show "\<not> lc_Unlimited (normalizeLimitConfig c) \<Longrightarrow> 0 < lc_RequestsPerSecond (normalizeLimitConfig c)"
    by (simp add: normalize_limits_pos)
next
  fix l :: Limiter and t u c d and l' :: Limiter and w
  assume call: "AllowWithConfig l t u c = (d, l')"
    and lim: "\<not> lc_Unlimited (normalizeLimitConfig c)"
  note eqs = AllowWithConfig_limited [OF lim, of l t u, unfolded call fst_conv snd_conv]
  show "window_used ls_secondWindow ls_secondCount l' u (normalizeLimitConfig c) (time_truncate t Second) =
        window_used ls_secondWindow ls_secondCount l u (normalizeLimitConfig c) (time_truncate t Second)
          + (if ld_Allowed d then 1 else 0)"
    by (simp add: window_used_def [of _ _ l'] eqs(2) Let_def currentState_secondCount)
  show "ld_Allowed d \<Longrightarrow>
        window_used ls_secondWindow ls_secondCount l u (normalizeLimitConfig c) (time_truncate t Second)
          < lc_RequestsPerSecond (normalizeLimitConfig c)"
    by (simp add: eqs(1) currentState_secondCount)
  show "w \<noteq> time_truncate t Second \<Longrightarrow>
        window_used ls_secondWindow ls_secondCount l' u (normalizeLimitConfig c) w = 0"
    by (simp add: window_used_def eqs(2) Let_def)
next
  fix l :: Limiter and t u c d and l' :: Limiter and v
  assume "AllowWithConfig l t u c = (d, l')" and "v \<noteq> u"
  then show "l_states l' v = l_states l v" using AllowWithConfig_other_user [of v u l t c] by simp
qed

interpretation minute_window: fixed_window ls_minuteWindow ls_minuteCount Minute lc_RequestsPerMinute
proof
  show "0 < Minute" by (rule Minute_pos)
next
  fix c
  show "\<not> lc_Unlimited (normalizeLimitConfig c) \<Longrightarrow> 0 < lc_RequestsPerMinute (normalizeLimitConfig c)"
    by (simp add: normalize_limits_pos)
next
  fix l :: Limiter and t u c d and l' :: Limiter and w
  assume call: "AllowWithConfig l t u c = (d, l')"
    and lim: "\<not> lc_Unlimited (normalizeLimitConfig c)"
  note eqs = AllowWithConfig_limited [OF lim, of l t u, unfolded call fst_conv snd_conv]
  show "window_used ls_minuteWindow ls_minuteCount l' u (normalizeLimitConfig c) (time_truncate t Minute) =
        window_used ls_minuteWindow ls_minuteCount l u (normalizeLimitConfig c) (time_truncate t Minute)
          + (if ld_Allowed d then 1 else 0)"
    by (simp add: window_used_def [of _ _ l'] eqs(2) Let_def currentState_minuteCount)
  show "ld_Allowed d \<Longrightarrow>
        window_used ls_minuteWindow ls_minuteCount l u (normalizeLimitConfig c) (time_truncate t Minute)
          < lc_RequestsPerMinute (normalizeLimitConfig c)"
    by (simp add: eqs(1) currentState_minuteCount)
  show "w \<noteq> time_truncate t Minute \<Longrightarrow>
        window_used ls_minuteWindow ls_minuteCount l' u (normalizeLimitConfig c) w = 0"
    by (simp add: window_used_def eqs(2) Let_def)
next
  fix l :: Limiter and t u c d and l' :: Limiter and v
  assume "AllowWithConfig l t u c = (d, l')" and "v \<noteq> u"
  then show "l_states l' v = l_states l v" using AllowWithConfig_other_user [of v u l t c] by simp
qed

section \<open>Properties\<close>

text \<open>C5: over any run of requests with non-decreasing clock readings that starts with no state
  for the user, and in which that user always asks for the same (limited) configuration while
  other users do anything, no aligned one-second window grants the user more than the configured
  requests per second, and no aligned one-minute window more than the requests per minute.\<close>

theorem limiter_window_caps:
  assumes "sorted (map (\<lambda>(u, t, c). t) rs)"
    and "\<forall>(v, t, c)\<in>set rs. v = u \<longrightarrow> normalizeLimitConfig c = normalizeLimitConfig k"
    and "\<not> lc_Unlimited (normalizeLimitConfig k)"
    and "l_states l u = None"
  shows "int (granted Second u w rs (fst (run_requests l rs)))
           \<le> lc_RequestsPerSecond (normalizeLimitConfig k)
       \<and> int (granted Minute u w rs (fst (run_requests l rs)))
           \<le> lc_RequestsPerMinute (normalizeLimitConfig k)"
  using second_window.granted_le_limit [OF assms] minute_window.granted_le_limit [OF assms]
  by blast

theorem limiter_window_caps_witness:
  "let k = \<lparr>lc_RequestsPerSecond = 1, lc_RequestsPerMinute = 5, lc_Unlimited = False\<rparr>;
       rs = [(''ann'', 10, k), (''bob'', 11, DefaultLimitConfig), (''ann'', 12, k)]
   in granted Second ''ann'' 0 rs (fst (run_requests (newLimiter k) rs)) = 1
      \<and> int (granted Second ''ann'' 0 rs (fst (run_requests (newLimiter k) rs)))
          \<le> lc_RequestsPerSecond (normalizeLimitConfig k)"
proof -
  let ?k = "\<lparr>lc_RequestsPerSecond = 1, lc_RequestsPerMinute = 5, lc_Unlimited = False\<rparr>"
  let ?rs = "[(''ann'', 10, ?k), (''bob'', 11, DefaultLimitConfig), (''ann'', 12, ?k)]"
  have "int (granted Second ''ann'' 0 ?rs (fst (run_requests (newLimiter ?k) ?rs)))
          \<le> lc_RequestsPerSecond (normalizeLimitConfig ?k)"
    by (rule limiter_window_caps [THEN conjunct1])
      (simp_all add: normalizeLimitConfig_def newLimiter_def)
  moreover have "granted Second ''ann'' 0 ?rs (fst (run_requests (newLimiter ?k) ?rs)) = 1"
    by code_simp
  ultimately show ?thesis by (simp add: Let_def)
qed

text \<open>a refusal is honest. When a call is refused, repeating it at the advertised
  \<open>ResetAt\<close> or at any later time, with no other request in between, is allowed.\<close>

theorem limiter_retry_after_reset:
  assumes "\<not> ld_Allowed (fst (AllowWithConfig l t u c))"
    and "ld_ResetAt (fst (AllowWithConfig l t u c)) \<le> t'"
  shows "ld_Allowed (fst (AllowWithConfig (snd (AllowWithConfig l t u c)) t' u c))"
proof -
  let ?k = "normalizeLimitConfig c"
  have lim: "\<not> lc_Unlimited ?k"
    using assms(1) by (auto simp: AllowWithConfig_def unlimitedDecision_def Let_def)
  let ?st = "currentState l u ?k t"
  let ?bs = "lc_RequestsPerSecond ?k \<le> ls_secondCount ?st"
  let ?bm = "lc_RequestsPerMinute ?k \<le> ls_minuteCount ?st"
  let ?sr = "time_truncate t Second + Second"
  let ?mr = "time_truncate t Minute + Minute"
  have blocked: "?bs \<or> ?bm"
    using assms(1) AllowWithConfig_limited(1) [OF lim, of l t u] by auto
  have "ld_ResetAt (fst (AllowWithConfig l t u c)) = blockedReset ?bs ?sr ?bm ?mr"
    using lim blocked by (simp add: AllowWithConfig_def Let_def)
  with assms(2) have due: "(?bs \<longrightarrow> ?sr \<le> t') \<and> (?bm \<longrightarrow> ?mr \<le> t')"
    using second_reset_le_minute_reset [of t] by (auto simp: blockedReset_def Let_def split: if_splits)
  have l': "l_states (snd (AllowWithConfig l t u c)) u = Some ?st"
    using AllowWithConfig_limited(2) [OF lim, of l t u] assms(1) by simp
  note known = currentState_known [OF l' currentState_config, of t']
  have "ls_secondCount (currentState (snd (AllowWithConfig l t u c)) u ?k t') < lc_RequestsPerSecond ?k"
    unfolding known(1) using due normalize_limits_pos [OF lim] time_truncate_neq [OF Second_pos, of t t']
    by (cases ?bs) auto
  moreover have "ls_minuteCount (currentState (snd (AllowWithConfig l t u c)) u ?k t') < lc_RequestsPerMinute ?k"
    unfolding known(2) using due normalize_limits_pos [OF lim] time_truncate_neq [OF Minute_pos, of t t']
    by (cases ?bm) auto
  ultimately show ?thesis by (simp add: AllowWithConfig_limited(1) [OF lim])
qed

theorem limiter_retry_after_reset_witness:
  "let k = \<lparr>lc_RequestsPerSecond = 1, lc_RequestsPerMinute = 5, lc_Unlimited = False\<rparr>;
       l = snd (AllowWithConfig (newLimiter k) 10 ''ann'' k);
       d = fst (AllowWithConfig l 12 ''ann'' k)
   in \<not> ld_Allowed d \<and> ld_ResetAt d = 1000000000
      \<and> ld_Allowed (fst (AllowWithConfig (snd (AllowWithConfig l 12 ''ann'' k)) 1000000000 ''ann'' k))"
proof -
  let ?k = "\<lparr>lc_RequestsPerSecond = 1, lc_RequestsPerMinute = 5, lc_Unlimited = False\<rparr>"
  let ?l = "snd (AllowWithConfig (newLimiter ?k) 10 ''ann'' ?k)"
  have a: "\<not> ld_Allowed (fst (AllowWithConfig ?l 12 ''ann'' ?k))" by code_simp
  have b: "ld_ResetAt (fst (AllowWithConfig ?l 12 ''ann'' ?k)) = 1000000000" by code_simp
  from limiter_retry_after_reset [OF a, of 1000000000] b a show ?thesis by (simp add: Let_def)
qed

text \<open>requests of one user never change what another user is granted: whatever user \<open>u\<close>
  asks and at whatever time, the decision for a different user is the same before and after.\<close>

theorem limiter_user_isolation:
  assumes "v \<noteq> u"
  shows "fst (AllowWithConfig (snd (AllowWithConfig l t u c)) t' v c') = fst (AllowWithConfig l t' v c')"
proof -
  have "l_states (snd (AllowWithConfig l t u c)) v = l_states l v"
    using assms by (rule AllowWithConfig_other_user)
  then have "currentState (snd (AllowWithConfig l t u c)) v k t' = currentState l v k t'" for k
    by (simp add: currentState_def)
  then show ?thesis by (simp add: AllowWithConfig_def Let_def)
qed

theorem limiter_user_isolation_witness:
  "''bob'' \<noteq> ''ann'' \<and>
   fst (AllowWithConfig (snd (AllowWithConfig (newLimiter DefaultLimitConfig) 5 ''ann'' DefaultLimitConfig))
          7 ''bob'' DefaultLimitConfig)
     = fst (AllowWithConfig (newLimiter DefaultLimitConfig) 7 ''bob'' DefaultLimitConfig)"
  using limiter_user_isolation [of "''bob''" "''ann''"] by simp

end
