(* ===== verification/Circuit_Breaker.thy ===== *)
theory Circuit_Breaker
  imports Go_Prelude
begin

text \<open>
  The circuit-breaker contract that the search scheduler's source gate and the link checker's
  platform state share: while the breaker is open nothing is admitted before its deadline; after
  it a single probe is admitted, and nothing more until the probe reports. The number of
  admissions in a run of attempts follows from these laws for both.
\<close>

text \<open>Admissions over a run of attempts at the given times, with no completion in between.\<close>

fun admissions :: "(time \<Rightarrow> 's \<Rightarrow> 's option) \<Rightarrow> 's \<Rightarrow> time list \<Rightarrow> nat" where
  "admissions admit s [] = 0"
| "admissions admit s (t # ts) =
     (case admit t s of
        None \<Rightarrow> admissions admit s ts
      | Some s' \<Rightarrow> Suc (admissions admit s' ts))"

locale circuit_breaker =
  fixes open_until :: "'s \<Rightarrow> time" and probing :: "'s \<Rightarrow> bool" and ready :: "'s \<Rightarrow> bool"
    and admit :: "time \<Rightarrow> 's \<Rightarrow> 's option"
  assumes admit_early: "open_until s \<noteq> 0 \<Longrightarrow> now < open_until s \<Longrightarrow> admit now s = None"
    and admit_probing: "open_until s \<noteq> 0 \<Longrightarrow> probing s \<Longrightarrow> admit now s = None"
    and admit_open: "open_until s \<noteq> 0 \<Longrightarrow> admit now s = Some s' \<Longrightarrow>
          probing s' \<and> open_until s' = open_until s"
    and admit_due: "open_until s \<noteq> 0 \<Longrightarrow> open_until s \<le> now \<Longrightarrow> ready s \<Longrightarrow> admit now s \<noteq> None"
begin

lemma probing_admits_none:
  "open_until s \<noteq> 0 \<Longrightarrow> probing s \<Longrightarrow> admissions admit s ts = 0"
  by (induction ts) (simp_all add: admit_probing)

lemma early_admits_none:
  "open_until s \<noteq> 0 \<Longrightarrow> \<forall>t\<in>set ts. t < open_until s \<Longrightarrow> admissions admit s ts = 0"
  by (induction ts) (simp_all add: admit_early)

lemma single_probe: "open_until s \<noteq> 0 \<Longrightarrow> admissions admit s ts \<le> 1"
proof (induction ts)
  case (Cons t ts)
  show ?case
  proof (cases "admit t s")
    case (Some s')
    with Cons.prems have "admissions admit s' ts = 0"
      using admit_open by (intro probing_admits_none) auto
    with Some show ?thesis by simp
  qed (use Cons in simp)
qed simp

lemma probe_iff_due:
  assumes "open_until s \<noteq> 0" and "ready s"
  shows "admissions admit s ts = (if \<exists>t\<in>set ts. open_until s \<le> t then 1 else 0)"
  using assms(1)
proof (induction ts)
  case (Cons t ts)
  show ?case
  proof (cases "open_until s \<le> t")
    case True
    with assms obtain s' where s': "admit t s = Some s'" using admit_due by blast
    then have "admissions admit s' ts = 0"
      using admit_open assms(1) by (intro probing_admits_none) auto
    with s' True show ?thesis by simp
  next
    case False
    with assms(1) have "admit t s = None" by (simp add: admit_early)
    with False Cons show ?thesis by simp
  qed
qed simp

end

end
