(* ===== verification/Scheduler.thy ===== *)
theory Scheduler
  imports Circuit_Breaker
begin

text \<open>
  The sequential parts of the search scheduler, \<^verbatim>\<open>src/service/scheduler/scheduler.go\<close>:
  configuration defaults, the resizable semaphore, the per-source gate with its circuit breaker
  and statistics, source configuration and the monitoring snapshot. Each method runs under its
  mutex and is one state transformer here; clock readings are arguments. The concurrent parts
  (admission and task execution) are in \<open>Scheduler_Admission\<close> and \<open>Scheduler_Execute\<close>.

  The channel \<open>changed\<close> that the semaphore closes and replaces is a generation number: closing it
  wakes every waiter that read the old generation. Percentiles are given in hundredths; the
  float expression \<open>int(float64(n-1)*p)\<close> equals the integer division for the two percentiles used.
\<close>

section \<open>Model: configuration\<close>

record SchedConfig =
  sc_Enabled :: bool
  sc_ActiveSearches :: int
  sc_SearchQueue :: int
  sc_TGWorkers :: int
  sc_PluginWorkers :: int
  sc_CredentialWorkers :: int
  sc_PerSource :: int
  sc_CircuitFailures :: int
  sc_CircuitCooldown :: duration

datatype Class = ClassTG | ClassPlugin | ClassCredential

datatype Priority = PriorityBackground | PriorityCollection | PriorityInteractive

text \<open>Every non-positive field is replaced by its default; the fields are independent.\<close>

definition normalizeSched :: "SchedConfig \<Rightarrow> SchedConfig" where
  "normalizeSched config =
     config\<lparr>sc_ActiveSearches := (if sc_ActiveSearches config \<le> 0 then 8 else sc_ActiveSearches config),
            sc_SearchQueue := (if sc_SearchQueue config \<le> 0 then 100 else sc_SearchQueue config),
            sc_TGWorkers := (if sc_TGWorkers config \<le> 0 then 32 else sc_TGWorkers config),
            sc_PluginWorkers := (if sc_PluginWorkers config \<le> 0 then 32 else sc_PluginWorkers config),
            sc_CredentialWorkers := (if sc_CredentialWorkers config \<le> 0 then 16 else sc_CredentialWorkers config),
            sc_PerSource := (if sc_PerSource config \<le> 0 then 2 else sc_PerSource config),
            sc_CircuitFailures := (if sc_CircuitFailures config \<le> 0 then 5 else sc_CircuitFailures config),
            sc_CircuitCooldown := (if sc_CircuitCooldown config \<le> 0 then 5 * Minute else sc_CircuitCooldown config)\<rparr>"

section \<open>Model: resizable semaphore\<close>

record resizableSemaphore =
  rs_limit :: int
  rs_inUse :: int
  rs_changed :: nat

definition newResizableSemaphore :: "int \<Rightarrow> resizableSemaphore" where
  "newResizableSemaphore limit =
     \<lparr>rs_limit = (if limit \<le> 0 then 1 else limit), rs_inUse = 0, rs_changed = 0\<rparr>"

text \<open>One pass of the loop of \<open>Acquire\<close>: the slot, or the generation the caller waits on.\<close>

definition sem_Acquire :: "resizableSemaphore \<Rightarrow> nat + resizableSemaphore" where
  "sem_Acquire s =
     (if rs_inUse s < rs_limit s then Inr (s\<lparr>rs_inUse := rs_inUse s + 1\<rparr>) else Inl (rs_changed s))"

definition sem_Release :: "resizableSemaphore \<Rightarrow> resizableSemaphore" where
  "sem_Release s =
     (let s = (if rs_inUse s > 0 then s\<lparr>rs_inUse := rs_inUse s - 1\<rparr> else s)
      in s\<lparr>rs_changed := Suc (rs_changed s)\<rparr>)"

definition sem_SetLimit :: "int \<Rightarrow> resizableSemaphore \<Rightarrow> resizableSemaphore" where
  "sem_SetLimit limit s =
     (if limit \<le> 0 then s else s\<lparr>rs_limit := limit, rs_changed := Suc (rs_changed s)\<rparr>)"

definition sem_Snapshot :: "resizableSemaphore \<Rightarrow> int \<times> int" where
  "sem_Snapshot s = (rs_inUse s, rs_limit s)"

datatype sem_op = SemAcquire | SemRelease | SemSetLimit int

fun sem_apply :: "resizableSemaphore \<Rightarrow> sem_op \<Rightarrow> resizableSemaphore" where
  "sem_apply s SemAcquire = (case sem_Acquire s of Inl _ \<Rightarrow> s | Inr s' \<Rightarrow> s')"
| "sem_apply s SemRelease = sem_Release s"
| "sem_apply s (SemSetLimit n) = sem_SetLimit n s"

section \<open>Model: source gate\<close>

text \<open>An error value: its text and whether it is a deadline error.\<close>

record go_error =
  err_message :: string
  err_deadline :: bool

record 'v Result =
  r_Source :: string
  r_Value :: 'v
  r_Err :: "go_error option"
  r_Skipped :: bool
  r_Duration :: duration
  r_ResultCount :: int
  r_UniqueCount :: int

record SourcePolicy =
  sp_MaxConcurrency :: int
  sp_Timeout :: duration
  sp_CircuitFailures :: int
  sp_CircuitCooldown :: duration

record sourceGate =
  g_limiter :: resizableSemaphore
  g_failStreak :: int
  g_breakUntil :: time
  g_halfOpen :: bool
  g_runs :: nat
  g_failures :: nat
  g_skipped :: nat
  g_totalDuration :: duration
  g_maxDuration :: duration
  g_durations :: "duration list"
  g_timeouts :: nat
  g_rateLimited :: nat
  g_resultCount :: nat
  g_uniqueCount :: nat
  g_waiting :: int
  g_timeout :: duration
  g_circuitFailures :: int
  g_circuitCooldown :: duration

definition newGate :: "int \<Rightarrow> sourceGate" where
  "newGate perSource =
     \<lparr>g_limiter = newResizableSemaphore perSource, g_failStreak = 0, g_breakUntil = zero_time,
      g_halfOpen = False, g_runs = 0, g_failures = 0, g_skipped = 0, g_totalDuration = 0,
      g_maxDuration = 0, g_durations = [], g_timeouts = 0, g_rateLimited = 0, g_resultCount = 0,
      g_uniqueCount = 0, g_waiting = 0, g_timeout = 0, g_circuitFailures = 0, g_circuitCooldown = 0\<rparr>"

text \<open>\<open>allow\<close> with its effect on the gate: \<open>None\<close> when it refuses (and changes nothing).\<close>

definition gate_allow :: "time \<Rightarrow> sourceGate \<Rightarrow> sourceGate option" where
  "gate_allow now g =
     (if is_zero_time (g_breakUntil g) then Some g
      else if now < g_breakUntil g then None
      else if g_halfOpen g then None
      else Some (g\<lparr>g_halfOpen := True\<rparr>))"

definition timeout_text :: string where "timeout_text = ''timeout''"
definition timeout_text_zh :: string where
  "timeout_text_zh = [CHR 0xE8, CHR 0xB6, CHR 0x85, CHR 0xE6, CHR 0x97, CHR 0xB6]"
definition rate_limit_text_zh :: string where
  "rate_limit_text_zh = [CHR 0xE9, CHR 0x99, CHR 0x90, CHR 0xE6, CHR 0xB5, CHR 0x81]"

text \<open>\<open>record\<close> in three parts: the statistics of every run, closing the breaker on success, and
  the failure path. A source's own threshold and cooldown, when set, replace the scheduler's.\<close>

definition gate_threshold :: "sourceGate \<Rightarrow> int \<Rightarrow> int" where
  "gate_threshold g threshold = (if g_circuitFailures g > 0 then g_circuitFailures g else threshold)"

definition gate_cooldown :: "sourceGate \<Rightarrow> duration \<Rightarrow> duration" where
  "gate_cooldown g cooldown = (if g_circuitCooldown g > 0 then g_circuitCooldown g else cooldown)"

definition push_duration :: "duration list \<Rightarrow> duration \<Rightarrow> duration list" where
  "push_duration durations d =
     (let durations = durations @ [d]
      in if length durations > 256 then drop (length durations - 256) durations else durations)"

definition gate_stats :: "sourceGate \<Rightarrow> 'v Result \<Rightarrow> sourceGate" where
  "gate_stats g outcome =
     g\<lparr>g_runs := Suc (g_runs g),
       g_totalDuration := g_totalDuration g + r_Duration outcome,
       g_resultCount := g_resultCount g + nat (max 0 (r_ResultCount outcome)),
       g_uniqueCount := g_uniqueCount g + nat (max 0 (r_UniqueCount outcome)),
       g_durations := push_duration (g_durations g) (r_Duration outcome),
       g_maxDuration := (if r_Duration outcome > g_maxDuration g then r_Duration outcome
                         else g_maxDuration g)\<rparr>"

definition gate_close :: "sourceGate \<Rightarrow> sourceGate" where
  "gate_close g = g\<lparr>g_failStreak := 0, g_breakUntil := zero_time, g_halfOpen := False\<rparr>"

definition is_timeout_error :: "go_error \<Rightarrow> bool" where
  "is_timeout_error err \<longleftrightarrow>
     err_deadline err \<or> contains (to_lower (err_message err)) timeout_text
     \<or> contains (to_lower (err_message err)) timeout_text_zh"

definition is_rate_limit_error :: "go_error \<Rightarrow> bool" where
  "is_rate_limit_error err \<longleftrightarrow>
     contains (to_lower (err_message err)) ''429''
     \<or> contains (to_lower (err_message err)) ''rate limit''
     \<or> contains (to_lower (err_message err)) rate_limit_text_zh"

definition break_time :: "time \<Rightarrow> duration \<Rightarrow> int \<Rightarrow> time" where
  "break_time now cooldown multiplier =
     (let multiplier = (if multiplier > 2 then 2 else multiplier)
      in now + cooldown * 2 ^ nat multiplier)"

definition gate_fail :: "time \<Rightarrow> sourceGate \<Rightarrow> go_error \<Rightarrow> int \<Rightarrow> duration \<Rightarrow> sourceGate" where
  "gate_fail now g err threshold cooldown =
     g\<lparr>g_failures := Suc (g_failures g),
       g_timeouts := (if is_timeout_error err then Suc (g_timeouts g) else g_timeouts g),
       g_rateLimited := (if is_rate_limit_error err then Suc (g_rateLimited g) else g_rateLimited g),
       g_failStreak := g_failStreak g + 1,
       g_halfOpen := False,
       g_breakUntil := (if g_failStreak g + 1 \<ge> threshold
                        then break_time now cooldown (g_failStreak g + 1 - threshold)
                        else g_breakUntil g)\<rparr>"

definition gate_record :: "time \<Rightarrow> sourceGate \<Rightarrow> 'v Result \<Rightarrow> int \<Rightarrow> duration \<Rightarrow> sourceGate" where
  "gate_record now g outcome threshold cooldown =
     (case r_Err outcome of
        None \<Rightarrow> gate_close (gate_stats g outcome)
      | Some err \<Rightarrow>
          gate_fail now (gate_stats g outcome) err (gate_threshold g threshold) (gate_cooldown g cooldown))"

definition gate_recordSkip :: "sourceGate \<Rightarrow> sourceGate" where
  "gate_recordSkip g = g\<lparr>g_skipped := Suc (g_skipped g)\<rparr>"

section \<open>Model: scheduler registry and snapshot\<close>

text \<open>The gates by source and the class counters; admission state is in \<open>Scheduler_Admission\<close>.\<close>

record SchedRegistry =
  sg_config :: SchedConfig
  sg_gates :: "(string \<times> sourceGate) list"
  sg_classInUse :: "Class \<Rightarrow> int"
  sg_classRuns :: "Class \<Rightarrow> nat"

definition NewRegistry :: "SchedConfig \<Rightarrow> SchedRegistry" where
  "NewRegistry config =
     \<lparr>sg_config = normalizeSched config, sg_gates = [], sg_classInUse = (\<lambda>_. 0), sg_classRuns = (\<lambda>_. 0)\<rparr>"

definition class_cap :: "SchedConfig \<Rightarrow> Class \<Rightarrow> int" where
  "class_cap config c =
     (case c of ClassTG \<Rightarrow> sc_TGWorkers config
      | ClassPlugin \<Rightarrow> sc_PluginWorkers config
      | ClassCredential \<Rightarrow> sc_CredentialWorkers config)"

definition sched_gate :: "SchedRegistry \<Rightarrow> string \<Rightarrow> sourceGate \<times> SchedRegistry" where
  "sched_gate s source =
     (case map_of (sg_gates s) source of
        Some gate \<Rightarrow> (gate, s)
      | None \<Rightarrow>
          let gate = newGate (sc_PerSource (sg_config s))
          in (gate, s\<lparr>sg_gates := AList.update source gate (sg_gates s)\<rparr>))"

definition ConfigureSource :: "SchedRegistry \<Rightarrow> string \<Rightarrow> SourcePolicy \<Rightarrow> SchedRegistry" where
  "ConfigureSource s source policy =
     (if source = [] then s
      else let (gate, s) = sched_gate s source;
               limit = (if sp_MaxConcurrency policy \<le> 0 then sc_PerSource (sg_config s)
                        else sp_MaxConcurrency policy);
               gate = gate\<lparr>g_limiter := sem_SetLimit limit (g_limiter gate),
                           g_timeout := sp_Timeout policy,
                           g_circuitFailures := sp_CircuitFailures policy,
                           g_circuitCooldown := sp_CircuitCooldown policy\<rparr>
           in s\<lparr>sg_gates := AList.update source gate (sg_gates s)\<rparr>)"

definition percentileDuration :: "duration list \<Rightarrow> nat \<Rightarrow> duration" where
  "percentileDuration samples percent =
     (if samples = [] then 0
      else let index = (length samples - 1) * percent div 100;
               index = (if index \<ge> length samples then length samples - 1 else index)
           in samples ! index)"

record SourceSnapshot =
  ss_Source :: string
  ss_InUse :: int
  ss_Limit :: int
  ss_Runs :: nat
  ss_Failures :: nat
  ss_Skipped :: nat
  ss_Timeouts :: nat
  ss_RateLimited :: nat
  ss_ResultCount :: nat
  ss_UniqueCount :: nat
  ss_FailStreak :: int
  ss_CircuitOpen :: bool
  ss_BreakUntil :: "time option"
  ss_AverageMS :: int
  ss_TotalDurationMS :: nat
  ss_P50MS :: int
  ss_P95MS :: int
  ss_MaxMS :: int
  ss_Waiting :: int

definition sourceSnapshot :: "time \<Rightarrow> string \<times> sourceGate \<Rightarrow> SourceSnapshot" where
  "sourceSnapshot now entry =
     (let (source, gate) = entry;
          (inUse, limit) = sem_Snapshot (g_limiter gate);
          samples = sort (g_durations gate);
          open = (\<not> is_zero_time (g_breakUntil gate) \<and> now < g_breakUntil gate)
      in \<lparr>ss_Source = source, ss_InUse = inUse, ss_Limit = limit, ss_Runs = g_runs gate,
          ss_Failures = g_failures gate, ss_Skipped = g_skipped gate, ss_Timeouts = g_timeouts gate,
          ss_RateLimited = g_rateLimited gate, ss_ResultCount = g_resultCount gate,
          ss_UniqueCount = g_uniqueCount gate, ss_FailStreak = g_failStreak gate,
          ss_CircuitOpen = open,
          ss_BreakUntil = (if open then Some (g_breakUntil gate) else None),
          ss_AverageMS = (if g_runs gate > 0
                          then milliseconds (go_div (g_totalDuration gate) (int (g_runs gate))) else 0),
          ss_TotalDurationMS = nat (max 0 (milliseconds (g_totalDuration gate))),
          ss_P50MS = milliseconds (percentileDuration samples 50),
          ss_P95MS = milliseconds (percentileDuration samples 95),
          ss_MaxMS = milliseconds (g_maxDuration gate),
          ss_Waiting = g_waiting gate\<rparr>)"

record PoolSnapshot =
  ps_InUse :: int
  ps_Limit :: int
  ps_Runs :: nat

definition poolSnapshot :: "SchedRegistry \<Rightarrow> Class \<Rightarrow> PoolSnapshot" where
  "poolSnapshot s c =
     \<lparr>ps_InUse = sg_classInUse s c, ps_Limit = class_cap (sg_config s) c, ps_Runs = sg_classRuns s c\<rparr>"

definition sourceSnapshots :: "time \<Rightarrow> SchedRegistry \<Rightarrow> SourceSnapshot list" where
  "sourceSnapshots now s = sort_key ss_Source (map (sourceSnapshot now) (sg_gates s))"

section \<open>Invariants\<close>

definition sem_wf :: "resizableSemaphore \<Rightarrow> bool" where
  "sem_wf s \<longleftrightarrow> 0 < rs_limit s \<and> 0 \<le> rs_inUse s"

definition gate_wf :: "sourceGate \<Rightarrow> bool" where
  "gate_wf g \<longleftrightarrow>
     sem_wf (g_limiter g) \<and> 0 \<le> g_failStreak g \<and> (g_halfOpen g \<longrightarrow> g_breakUntil g \<noteq> 0)
     \<and> length (g_durations g) \<le> 256 \<and> length (g_durations g) \<le> g_runs g
     \<and> g_failures g \<le> g_runs g \<and> g_timeouts g \<le> g_failures g \<and> g_rateLimited g \<le> g_failures g
     \<and> (\<forall>d\<in>set (g_durations g). d \<le> g_maxDuration g)"

definition registry_wf :: "SchedRegistry \<Rightarrow> bool" where
  "registry_wf s \<longleftrightarrow>
     0 < sc_PerSource (sg_config s) \<and> distinct (map fst (sg_gates s))
     \<and> (\<forall>gate\<in>snd ` set (sg_gates s). gate_wf gate)"

lemmas sched_inv_defs = sem_wf_def gate_wf_def registry_wf_def

lemma normalizeSched_idem [simp]: "normalizeSched (normalizeSched c) = normalizeSched c"
  by (simp add: normalizeSched_def Let_def duration_defs)

lemma normalizeSched_pos:
  "0 < sc_ActiveSearches (normalizeSched c)" "0 < sc_SearchQueue (normalizeSched c)"
  "0 < sc_TGWorkers (normalizeSched c)" "0 < sc_PluginWorkers (normalizeSched c)"
  "0 < sc_CredentialWorkers (normalizeSched c)" "0 < sc_PerSource (normalizeSched c)"
  "0 < sc_CircuitFailures (normalizeSched c)" "0 < sc_CircuitCooldown (normalizeSched c)"
  by (simp_all add: normalizeSched_def Let_def duration_defs)

lemma normalizeSched_Enabled [simp]: "sc_Enabled (normalizeSched c) = sc_Enabled c"
  by (simp add: normalizeSched_def Let_def)

section \<open>Semaphore\<close>

lemma newResizableSemaphore_wf [simp]: "sem_wf (newResizableSemaphore n)"
  by (simp add: newResizableSemaphore_def sem_wf_def)

lemma sem_apply_wf: "sem_wf s \<Longrightarrow> sem_wf (sem_apply s op)"
  by (cases op) (auto simp: sem_wf_def sem_Acquire_def sem_Release_def sem_SetLimit_def Let_def)

lemma sem_SetLimit_wf [simp]: "sem_wf s \<Longrightarrow> sem_wf (sem_SetLimit n s)"
  using sem_apply_wf [of s "SemSetLimit n"] by simp

lemma sem_changed_mono: "rs_changed s \<le> rs_changed (sem_apply s op)"
  by (cases op) (auto simp: sem_Acquire_def sem_Release_def sem_SetLimit_def Let_def)

lemma sem_run_changed_mono: "rs_changed s \<le> rs_changed (foldl sem_apply s ops)"
  by (induction ops arbitrary: s) (auto intro: order_trans [OF sem_changed_mono])

lemma sem_frees_signals:
  "\<not> rs_inUse s < rs_limit s \<Longrightarrow> rs_inUse (sem_apply s op) < rs_limit (sem_apply s op) \<Longrightarrow>
     rs_changed s < rs_changed (sem_apply s op)"
  by (cases op) (auto simp: sem_Acquire_def sem_Release_def sem_SetLimit_def Let_def split: if_splits)

lemma sem_acquire_bound:
  "rs_inUse s \<le> b \<Longrightarrow> (\<forall>n. SemSetLimit n \<in> set ops \<longrightarrow> n \<le> b) \<Longrightarrow> rs_limit s \<le> b \<Longrightarrow>
     rs_inUse (foldl sem_apply s ops) \<le> b"
proof (induction ops arbitrary: s)
  case (Cons op ops)
  have "rs_inUse (sem_apply s op) \<le> b \<and> rs_limit (sem_apply s op) \<le> b"
    using Cons.prems by (cases op) (auto simp: sem_Acquire_def sem_Release_def sem_SetLimit_def Let_def)
  then show ?case using Cons by auto
qed simp

section \<open>Gate\<close>

interpretation source_gate: circuit_breaker g_breakUntil g_halfOpen "\<lambda>g. \<not> g_halfOpen g" gate_allow
  by unfold_locales (auto simp: gate_allow_def is_zero_time_def split: if_splits)

lemmas gate_record_defs = gate_record_def gate_stats_def gate_close_def gate_fail_def

lemma break_time_min: "break_time now cd m = now + cd * 2 ^ nat (min 2 m)"
  by (simp add: break_time_def Let_def min_def)

lemma gate_record_success:
  assumes "r_Err out = None"
  shows "g_failStreak (gate_record now g out th cd) = 0"
    and "g_breakUntil (gate_record now g out th cd) = 0"
    and "\<not> g_halfOpen (gate_record now g out th cd)"
  using assms by (simp_all add: gate_record_defs)

lemma gate_record_failure:
  assumes "r_Err out = Some e"
  shows "g_failStreak (gate_record now g out th cd) = g_failStreak g + 1"
    and "\<not> g_halfOpen (gate_record now g out th cd)"
    and "g_breakUntil (gate_record now g out th cd) =
           (if gate_threshold g th \<le> g_failStreak g + 1
            then now + gate_cooldown g cd * 2 ^ nat (min 2 (g_failStreak g + 1 - gate_threshold g th))
            else g_breakUntil g)"
  using assms
  by (simp_all add: gate_record_defs break_time_min)

lemma gate_record_frame:
  "g_limiter (gate_record now g out th cd) = g_limiter g"
  "g_circuitFailures (gate_record now g out th cd) = g_circuitFailures g"
  "g_circuitCooldown (gate_record now g out th cd) = g_circuitCooldown g"
  by (simp_all add: gate_record_defs split: option.split)

lemma gate_record_durations:
  "g_durations (gate_record now g out th cd) =
     drop (Suc (length (g_durations g)) - 256) (g_durations g @ [r_Duration out])"
  by (simp add: gate_record_defs push_duration_def Let_def split: option.split)

lemma gate_record_counters:
  "g_runs (gate_record now g out th cd) = Suc (g_runs g)"
  "g_failures (gate_record now g out th cd) = g_failures g + (if r_Err out = None then 0 else 1)"
  "g_timeouts (gate_record now g out th cd) \<le> g_timeouts g + (if r_Err out = None then 0 else 1)"
  "g_rateLimited (gate_record now g out th cd) \<le> g_rateLimited g + (if r_Err out = None then 0 else 1)"
  "g_maxDuration (gate_record now g out th cd) = max (g_maxDuration g) (r_Duration out)"
  by (auto simp: gate_record_defs max_def split: option.split)

lemma newGate_wf [simp]: "gate_wf (newGate n)"
  by (simp add: newGate_def gate_wf_def)

lemma gate_allow_wf: "gate_wf g \<Longrightarrow> gate_allow now g = Some g' \<Longrightarrow> gate_wf g'"
  by (auto simp: gate_allow_def gate_wf_def is_zero_time_def split: if_splits)

lemma gate_record_wf:
  assumes "gate_wf g"
  shows "gate_wf (gate_record now g out th cd)"
proof -
  let ?g = "gate_record now g out th cd"
  note cnt = gate_record_counters [of now g out th cd]
  have streak: "0 \<le> g_failStreak ?g \<and> \<not> g_halfOpen ?g"
    using assms gate_record_success [of out now g th cd] gate_record_failure [of out _ now g th cd]
    by (cases "r_Err out") (auto simp: gate_wf_def)
  have durs: "length (g_durations ?g) \<le> 256 \<and> length (g_durations ?g) \<le> g_runs ?g"
    using assms by (auto simp: gate_record_durations cnt gate_wf_def)
  have "set (g_durations ?g) \<subseteq> insert (r_Duration out) (set (g_durations g))"
    unfolding gate_record_durations by (rule order_trans [OF set_drop_subset]) simp
  then have maxd: "\<forall>d\<in>set (g_durations ?g). d \<le> g_maxDuration ?g"
    using assms by (fastforce simp: cnt gate_wf_def)
  show ?thesis using assms streak durs maxd cnt
    by (auto simp: gate_wf_def gate_record_frame split: if_splits)
qed

lemma gate_recordSkip_wf: "gate_wf g \<Longrightarrow> gate_wf (gate_recordSkip g)"
  by (simp add: gate_recordSkip_def gate_wf_def)

text \<open>Runs of outcomes: the fail streak counts the failures since the last success.\<close>

fun gate_run :: "sourceGate \<Rightarrow> int \<Rightarrow> duration \<Rightarrow> (time \<times> 'v Result) list \<Rightarrow> sourceGate" where
  "gate_run g th cd [] = g"
| "gate_run g th cd ((now, out) # outs) = gate_run (gate_record now g out th cd) th cd outs"

definition trailing_failures :: "(time \<times> 'v Result) list \<Rightarrow> nat" where
  "trailing_failures outs = length (takeWhile (\<lambda>(now, out). r_Err out \<noteq> None) (rev outs))"

lemma gate_run_append: "gate_run g th cd (xs @ ys) = gate_run (gate_run g th cd xs) th cd ys"
  by (induction g th cd xs rule: gate_run.induct) auto

lemma gate_run_snoc:
  "gate_run g th cd (xs @ [(now, out)]) = gate_record now (gate_run g th cd xs) out th cd"
  by (simp add: gate_run_append)

lemma trailing_failures_snoc:
  "trailing_failures (xs @ [(now, out)]) = (if r_Err out = None then 0 else Suc (trailing_failures xs))"
  by (simp add: trailing_failures_def)

lemma gate_run_frame:
  "g_circuitFailures (gate_run g th cd outs) = g_circuitFailures g"
  "g_circuitCooldown (gate_run g th cd outs) = g_circuitCooldown g"
  by (induction g th cd outs rule: gate_run.induct) (simp_all add: gate_record_frame)

lemma gate_run_wf: "gate_wf g \<Longrightarrow> gate_wf (gate_run g th cd outs)"
  by (induction g th cd outs rule: gate_run.induct) (simp_all add: gate_record_wf)

lemma gate_run_streak:
  assumes "g_failStreak g = 0" and "g_breakUntil g = 0"
    and "0 < gate_threshold g th" and "0 \<le> gate_cooldown g cd"
    and "\<forall>(now, out)\<in>set outs. 0 < now"
  shows "g_failStreak (gate_run g th cd outs) = int (trailing_failures outs)
       \<and> (g_breakUntil (gate_run g th cd outs) = 0 \<longleftrightarrow>
            int (trailing_failures outs) < gate_threshold g th)"
  using assms(5)
proof (induction outs rule: rev_induct)
  case Nil
  then show ?case using assms by (simp add: trailing_failures_def)
next
  case (snoc x xs)
  obtain now out where x: "x = (now, out)" by (cases x)
  let ?g = "gate_run g th cd xs"
  have th: "gate_threshold ?g th = gate_threshold g th" "gate_cooldown ?g cd = gate_cooldown g cd"
    by (simp_all add: gate_threshold_def gate_cooldown_def gate_run_frame)
  have ih: "g_failStreak ?g = int (trailing_failures xs)"
    "(g_breakUntil ?g = 0 \<longleftrightarrow> int (trailing_failures xs) < gate_threshold g th)"
    using snoc by auto
  show ?case
  proof (cases "r_Err out")
    case None
    then show ?thesis using assms(3)
      by (simp add: x gate_run_snoc trailing_failures_snoc gate_record_success)
  next
    case (Some e)
    have "0 < now + gate_cooldown g cd * 2 ^ k" for k
      using snoc.prems assms(4) by (simp add: x add_pos_nonneg)
    then have nz: "now + gate_cooldown g cd * 2 ^ k \<noteq> 0" for k
      by (metis less_irrefl)
    show ?thesis using Some ih th nz [of 0]
      by (auto simp: x gate_run_snoc trailing_failures_snoc gate_record_failure nz)
  qed
qed

section \<open>Registry\<close>

lemma registry_gate_wf: "registry_wf s \<Longrightarrow> map_of (sg_gates s) k = Some g \<Longrightarrow> gate_wf g"
  by (auto simp: registry_wf_def dest: map_of_SomeD)

lemma registry_update_wf:
  "registry_wf s \<Longrightarrow> gate_wf g \<Longrightarrow> registry_wf (s\<lparr>sg_gates := AList.update k g (sg_gates s)\<rparr>)"
  using set_alist_update [of k g "sg_gates s"]
  by (auto simp: registry_wf_def distinct_update)

lemma NewRegistry_wf: "registry_wf (NewRegistry c)"
  by (simp add: NewRegistry_def registry_wf_def normalizeSched_pos)

lemma sched_gate_wf:
  "registry_wf s \<Longrightarrow> registry_wf (snd (sched_gate s k)) \<and> gate_wf (fst (sched_gate s k))"
  by (auto simp: sched_gate_def Let_def registry_gate_wf registry_update_wf split: option.split)

lemma sched_gate_config [simp]: "sg_config (snd (sched_gate s k)) = sg_config s"
  by (simp add: sched_gate_def Let_def split: option.split)

lemma ConfigureSource_wf:
  assumes "registry_wf s"
  shows "registry_wf (ConfigureSource s k policy)"
proof -
  obtain gate s' where g: "sched_gate s k = (gate, s')" by fastforce
  with sched_gate_wf [OF assms, of k] have wf: "registry_wf s'" "gate_wf gate" by auto
  then have "gate_wf (gate\<lparr>g_limiter := sem_SetLimit n (g_limiter gate), g_timeout := a,
      g_circuitFailures := b, g_circuitCooldown := c\<rparr>)" for n a b c
    by (auto simp: gate_wf_def)
  with wf assms g show ?thesis
    by (auto simp: ConfigureSource_def Let_def intro!: registry_update_wf)
qed

section \<open>Properties\<close>

text \<open>no wake-up of the resizable semaphore is lost. Suppose a caller found no free slot and
  remembers the current generation of \<open>changed\<close>. After any further acquisitions, releases and
  limit changes, if a slot is free then the generation has moved on, so the channel the caller
  waits on has been closed.\<close>

theorem semaphore_no_lost_wakeup:
  assumes "sem_Acquire s = Inl gen"
    and "rs_inUse (foldl sem_apply s ops) < rs_limit (foldl sem_apply s ops)"
  shows "gen < rs_changed (foldl sem_apply s ops)"
proof -
  have full: "\<not> rs_inUse s < rs_limit s" and gen: "gen = rs_changed s"
    using assms(1) by (auto simp: sem_Acquire_def split: if_splits)
  from full assms(2) have "rs_changed s < rs_changed (foldl sem_apply s ops)"
  proof (induction ops arbitrary: s)
    case (Cons op ops)
    let ?s = "sem_apply s op"
    show ?case
    proof (cases "rs_inUse ?s < rs_limit ?s")
      case True
      with Cons.prems(1) have "rs_changed s < rs_changed ?s" by (rule sem_frees_signals)
      also have "\<dots> \<le> rs_changed (foldl sem_apply ?s ops)" by (rule sem_run_changed_mono)
      finally show ?thesis by simp
    next
      case False
      with Cons have "rs_changed ?s < rs_changed (foldl sem_apply ?s ops)" by simp
      with sem_changed_mono [of s op] show ?thesis by simp
    qed
  qed simp
  with gen show ?thesis by simp
qed

theorem semaphore_no_lost_wakeup_witness:
  "let s = sem_apply (newResizableSemaphore 1) SemAcquire;
       t = foldl sem_apply s [SemAcquire, SemSetLimit 2]
   in sem_Acquire s = Inl 0 \<and> rs_inUse t < rs_limit t \<and> 0 < rs_changed t"
proof -
  let ?s = "sem_apply (newResizableSemaphore 1) SemAcquire"
  let ?ops = "[SemAcquire, SemSetLimit 2]"
  have a: "sem_Acquire ?s = Inl 0" by code_simp
  have b: "rs_inUse (foldl sem_apply ?s ?ops) < rs_limit (foldl sem_apply ?s ?ops)" by code_simp
  from semaphore_no_lost_wakeup [OF a b] a b show ?thesis by (simp add: Let_def)
qed

text \<open>the circuit of a fresh source opens exactly when the failures since the last success
  reach the threshold in force. After any run of outcomes at positive clock times, the fail
  streak is the number of trailing failures, the break deadline is set if and only if that number
  has reached the threshold, and the statistics satisfy the gate's invariant.\<close>

theorem gate_opens_at_threshold:
  assumes "0 < threshold" and "0 \<le> cooldown"
    and "\<forall>(now, out)\<in>set outs. 0 < now"
  shows "let g = gate_run (newGate perSource) threshold cooldown outs
         in g_failStreak g = int (trailing_failures outs)
          \<and> (\<not> is_zero_time (g_breakUntil g) \<longleftrightarrow> threshold \<le> int (trailing_failures outs))
          \<and> gate_wf g"
proof -
  have "gate_threshold (newGate perSource) threshold = threshold"
    "gate_cooldown (newGate perSource) cooldown = cooldown"
    by (simp_all add: gate_threshold_def gate_cooldown_def newGate_def)
  moreover have "g_failStreak (newGate perSource) = 0" "g_breakUntil (newGate perSource) = 0"
    by (simp_all add: newGate_def)
  moreover have "gate_wf (gate_run (newGate perSource) threshold cooldown outs)"
    using newGate_wf by (rule gate_run_wf)
  ultimately show ?thesis
    using gate_run_streak [of "newGate perSource" threshold cooldown outs] assms
    by (simp add: Let_def is_zero_time_def not_less)
qed

theorem gate_opens_at_threshold_witness:
  "let bad = \<lparr>r_Source = ''tg:a'', r_Value = (), r_Err = Some \<lparr>err_message = ''HTTP 429'', err_deadline = False\<rparr>,
              r_Skipped = False, r_Duration = 7, r_ResultCount = 0, r_UniqueCount = 0\<rparr>;
       g = gate_run (newGate 2) 2 100 [(10, bad), (20, bad)]
   in g_failStreak g = 2 \<and> g_breakUntil g = 120 \<and> g_rateLimited g = 2
    \<and> (\<not> is_zero_time (g_breakUntil g) \<longleftrightarrow> 2 \<le> int (trailing_failures [(10, bad), (20, bad)]))"
proof -
  let ?bad = "\<lparr>r_Source = ''tg:a'', r_Value = (), r_Err = Some \<lparr>err_message = ''HTTP 429'', err_deadline = False\<rparr>,
              r_Skipped = False, r_Duration = 7, r_ResultCount = 0, r_UniqueCount = 0\<rparr>"
  let ?g = "gate_run (newGate 2) 2 100 [(10, ?bad), (20, ?bad)]"
  have "\<not> is_zero_time (g_breakUntil ?g) \<longleftrightarrow> 2 \<le> int (trailing_failures [(10, ?bad), (20, ?bad)])"
    using gate_opens_at_threshold [of 2 100 "[(10, ?bad), (20, ?bad)]" 2] by (simp add: Let_def)
  moreover have "g_failStreak ?g = 2 \<and> g_breakUntil ?g = 120 \<and> g_rateLimited ?g = 2" by code_simp
  ultimately show ?thesis by (simp add: Let_def)
qed

text \<open>an open source gate admits nothing before its break deadline, and over any run of
  attempts without a completed task it admits at most one probe; a gate that has no probe running
  admits exactly one as soon as an attempt is made at or after the deadline.\<close>

theorem gate_single_probe:
  assumes "\<not> is_zero_time (g_breakUntil g)"
  shows "admissions gate_allow g attempts \<le> 1
       \<and> ((\<forall>t\<in>set attempts. t < g_breakUntil g) \<longrightarrow> admissions gate_allow g attempts = 0)
       \<and> (\<not> g_halfOpen g \<longrightarrow>
            admissions gate_allow g attempts = (if \<exists>t\<in>set attempts. g_breakUntil g \<le> t then 1 else 0))"
  using assms source_gate.single_probe [of g attempts] source_gate.early_admits_none [of g attempts]
    source_gate.probe_iff_due [of g attempts]
  by (simp add: is_zero_time_def)

theorem gate_single_probe_witness:
  "let g = (newGate 2)\<lparr>g_breakUntil := 50\<rparr>
   in \<not> is_zero_time (g_breakUntil g) \<and> admissions gate_allow g [10, 60, 70] = 1"
proof -
  let ?g = "(newGate 2)\<lparr>g_breakUntil := 50\<rparr>"
  have o: "\<not> is_zero_time (g_breakUntil ?g)" by (simp add: is_zero_time_def)
  from gate_single_probe [OF o, of "[10, 60, 70]"] o show ?thesis
    by (simp add: Let_def newGate_def)
qed

text \<open>the registry of sources keeps its invariant (distinct sources, well-formed gates) under
  creation, gate lookup and hot reconfiguration, and after configuring a source its gate has
  exactly the limits of the policy, with the scheduler's default for a missing concurrency.\<close>

theorem configure_source_policy:
  assumes "registry_wf s" and "source \<noteq> []"
  shows "registry_wf (ConfigureSource s source policy)
       \<and> (\<exists>gate. map_of (sg_gates (ConfigureSource s source policy)) source = Some gate
           \<and> rs_limit (g_limiter gate) =
               (if sp_MaxConcurrency policy \<le> 0 then sc_PerSource (sg_config s) else sp_MaxConcurrency policy)
           \<and> g_timeout gate = sp_Timeout policy
           \<and> g_circuitFailures gate = sp_CircuitFailures policy
           \<and> g_circuitCooldown gate = sp_CircuitCooldown policy)
       \<and> (\<forall>other. other \<noteq> source \<longrightarrow>
            map_of (sg_gates (ConfigureSource s source policy)) other = map_of (sg_gates s) other)"
proof -
  obtain gate s' where g: "sched_gate s source = (gate, s')" by fastforce
  have cfg: "sg_config s' = sg_config s" using sched_gate_config [of s source] g by simp
  have same: "map_of (sg_gates s') other = map_of (sg_gates s) other" if "other \<noteq> source" for other
    using g that by (auto simp: sched_gate_def Let_def update_conv' split: option.splits)
  have pos: "0 < sc_PerSource (sg_config s)" using assms(1) by (simp add: registry_wf_def)
  have "\<exists>gate. map_of (sg_gates (ConfigureSource s source policy)) source = Some gate
           \<and> rs_limit (g_limiter gate) =
               (if sp_MaxConcurrency policy \<le> 0 then sc_PerSource (sg_config s) else sp_MaxConcurrency policy)
           \<and> g_timeout gate = sp_Timeout policy
           \<and> g_circuitFailures gate = sp_CircuitFailures policy
           \<and> g_circuitCooldown gate = sp_CircuitCooldown policy"
    using assms(2) cfg pos by (simp add: ConfigureSource_def g Let_def update_conv' sem_SetLimit_def)
  moreover have "map_of (sg_gates (ConfigureSource s source policy)) other = map_of (sg_gates s) other"
    if "other \<noteq> source" for other
    using assms(2) same [OF that] that by (simp add: ConfigureSource_def g Let_def update_conv')
  ultimately show ?thesis using ConfigureSource_wf [OF assms(1)] by blast
qed

theorem configure_source_policy_witness:
  "\<exists>gate. map_of (sg_gates (ConfigureSource
       (NewRegistry \<lparr>sc_Enabled = True, sc_ActiveSearches = 0, sc_SearchQueue = 0, sc_TGWorkers = 0,
          sc_PluginWorkers = 0, sc_CredentialWorkers = 0, sc_PerSource = 0, sc_CircuitFailures = 0,
          sc_CircuitCooldown = 0\<rparr>) ''plugin:x''
       \<lparr>sp_MaxConcurrency = 0, sp_Timeout = 9, sp_CircuitFailures = 4, sp_CircuitCooldown = 0\<rparr>)) ''plugin:x'' = Some gate
     \<and> rs_limit (g_limiter gate) = 2 \<and> g_timeout gate = 9"
proof -
  let ?c = "\<lparr>sc_Enabled = True, sc_ActiveSearches = 0, sc_SearchQueue = 0, sc_TGWorkers = 0,
          sc_PluginWorkers = 0, sc_CredentialWorkers = 0, sc_PerSource = 0, sc_CircuitFailures = 0,
          sc_CircuitCooldown = 0\<rparr>"
  have p: "sc_PerSource (sg_config (NewRegistry ?c)) = 2"
    by (simp add: NewRegistry_def normalizeSched_def)
  show ?thesis
    using configure_source_policy [OF NewRegistry_wf [of ?c], of "''plugin:x''"
        "\<lparr>sp_MaxConcurrency = 0, sp_Timeout = 9, sp_CircuitFailures = 4, sp_CircuitCooldown = 0\<rparr>"] p
    by auto
qed

text \<open>the latency figures of a source snapshot are consistent: for a well-formed gate that has
  run, the 50th percentile is at most the 95th, which is at most the maximum.\<close>

theorem snapshot_percentiles_ordered:
  assumes "gate_wf g" and "g_durations g \<noteq> []"
  shows "ss_P50MS (sourceSnapshot now (k, g)) \<le> ss_P95MS (sourceSnapshot now (k, g))
       \<and> ss_P95MS (sourceSnapshot now (k, g)) \<le> ss_MaxMS (sourceSnapshot now (k, g))"
proof -
  let ?xs = "sort (g_durations g)"
  have pick: "percentileDuration ?xs p = ?xs ! ((length ?xs - 1) * p div 100)"
    and idx: "(length ?xs - 1) * p div 100 < length ?xs" if "p \<le> 100" for p
  proof -
    have "(length ?xs - 1) * p div 100 \<le> length ?xs - 1"
      using that by (metis div_le_mono div_mult_self_is_m mult_le_mono2 zero_less_numeral)
    moreover have ne: "0 < length ?xs" using assms(2) by simp
    ultimately show "(length ?xs - 1) * p div 100 < length ?xs" by linarith
    then show "percentileDuration ?xs p = ?xs ! ((length ?xs - 1) * p div 100)"
      using ne by (cases ?xs) (simp_all add: percentileDuration_def Let_def)
  qed
  have "percentileDuration ?xs 50 \<le> percentileDuration ?xs 95"
  proof -
    have "(length ?xs - 1) * 50 div 100 \<le> (length ?xs - 1) * 95 div 100"
      by (intro div_le_mono mult_le_mono2) simp
    from sorted_nth_mono [OF sorted_sort this idx [of 95]] show ?thesis
      using pick [of 50] pick [of 95] by simp
  qed
  moreover have "percentileDuration ?xs 95 \<le> g_maxDuration g"
    using assms(1) pick [of 95] nth_mem [OF idx [of 95]] by (simp add: gate_wf_def)
  ultimately show ?thesis
    by (simp add: sourceSnapshot_def sem_Snapshot_def Let_def milliseconds_mono)
qed

theorem snapshot_percentiles_ordered_witness:
  "let g = (newGate 2)\<lparr>g_runs := 3, g_durations := [9000000, 1000000, 4000000], g_maxDuration := 9000000\<rparr>;
       s = sourceSnapshot 0 (''x'', g)
   in ss_P50MS s = 4 \<and> ss_MaxMS s = 9 \<and> ss_P50MS s \<le> ss_P95MS s"
proof -
  let ?g = "(newGate 2)\<lparr>g_runs := 3, g_durations := [9000000, 1000000, 4000000], g_maxDuration := 9000000\<rparr>"
  have "gate_wf ?g" by (simp add: gate_wf_def newGate_def)
  then have "ss_P50MS (sourceSnapshot 0 (''x'', ?g)) \<le> ss_P95MS (sourceSnapshot 0 (''x'', ?g))"
    using snapshot_percentiles_ordered [of ?g 0 "''x''"] by simp
  moreover have "ss_P50MS (sourceSnapshot 0 (''x'', ?g)) = 4 \<and> ss_MaxMS (sourceSnapshot 0 (''x'', ?g)) = 9"
    by code_simp
  ultimately show ?thesis by (simp add: Let_def)
qed

end
