(* ===== verification/Interleaving.thy ===== *)
theory Interleaving
  imports Go_Prelude "HOL-Library.Multiset"
begin

text \<open>
  Goroutines that share state, for the concurrent components. A component gives the possible next
  atomic steps of one goroutine, \<open>next s p\<close>, where \<open>s\<close> is the shared state and \<open>p\<close> the program
  counter with the goroutine's local variables; \<open>interleave\<close> is the system that runs any number of
  them in any order, goroutines being a multiset because they have no identity. The locale
  \<open>interleaved\<close> reduces an invariant of the system to the steps of a single goroutine. A script
  replays one particular interleaving and is executable.
\<close>

section \<open>The interleaved system\<close>

type_synonym ('s, 'p) system = "'s \<times> 'p multiset"

inductive interleave ::
  "('s \<Rightarrow> 'p \<Rightarrow> ('s \<times> 'p) list) \<Rightarrow> ('p \<Rightarrow> bool) \<Rightarrow> ('s, 'p) system \<Rightarrow> ('s, 'p) system \<Rightarrow> bool"
  for "next" :: "'s \<Rightarrow> 'p \<Rightarrow> ('s \<times> 'p) list" and start :: "'p \<Rightarrow> bool" where
  spawn: "start p \<Longrightarrow> interleave next start (s, ts) (s, add_mset p ts)"
| run: "(s', p') \<in> set (next s p) \<Longrightarrow> interleave next start (s, add_mset p ts) (s', add_mset p' ts)"

definition only_state :: "'s \<Rightarrow> ('s, 'p) system \<Rightarrow> bool" where
  "only_state s sys \<longleftrightarrow> sys = (s, {#})"

abbreviation interleaved_reachable ::
  "'s \<Rightarrow> ('s \<Rightarrow> 'p \<Rightarrow> ('s \<times> 'p) list) \<Rightarrow> ('p \<Rightarrow> bool) \<Rightarrow> ('s, 'p) system \<Rightarrow> bool" where
  "interleaved_reachable s0 next start \<equiv> reachable (only_state s0) (interleave next start)"

locale interleaved =
  fixes s0 :: 's and "next" :: "'s \<Rightarrow> 'p \<Rightarrow> ('s \<times> 'p) list" and start :: "'p \<Rightarrow> bool"
    and inv :: "('s, 'p) system \<Rightarrow> bool"
  assumes start_inv: "inv (s0, {#})"
    and spawn_inv: "inv (s, ts) \<Longrightarrow> start p \<Longrightarrow> inv (s, add_mset p ts)"
    and run_inv: "inv (s, add_mset p ts) \<Longrightarrow> (s', p') \<in> set (next s p) \<Longrightarrow> inv (s', add_mset p' ts)"
begin

lemma interleave_inv: "inv sys \<Longrightarrow> interleave next start sys sys' \<Longrightarrow> inv sys'"
  by (erule interleave.cases) (auto intro: spawn_inv run_inv)

end

sublocale interleaved \<subseteq> invariant_machine "only_state s0" "interleave next start" inv
  by unfold_locales (auto simp: only_state_def intro: start_inv interleave_inv)

section \<open>Scripts\<close>

datatype 'p move = Spawn 'p | Run nat nat

text \<open>\<open>Run i j\<close> lets goroutine \<open>i\<close> take the \<open>j\<close>-th of its possible steps.\<close>

fun script :: "('s \<Rightarrow> 'p \<Rightarrow> ('s \<times> 'p) list) \<Rightarrow> ('p \<Rightarrow> bool) \<Rightarrow> 'p move list \<Rightarrow> 's \<times> 'p list \<Rightarrow> ('s \<times> 'p list) option" where
  "script next start [] sys = Some sys"
| "script next start (Spawn p # ms) (s, ps) =
     (if start p then script next start ms (s, ps @ [p]) else None)"
| "script next start (Run i j # ms) (s, ps) =
     (if i < length ps \<and> j < length (next s (ps ! i))
      then let (s', p') = next s (ps ! i) ! j in script next start ms (s', ps[i := p'])
      else None)"

lemma mset_list_update: "i < length ps \<Longrightarrow> mset (ps[i := p]) = add_mset p (mset ps - {#ps ! i#})"
  by (simp add: mset_update)

lemma script_reachable:
  assumes "reachable init (interleave next start) (s, mset ps)"
    and "script next start ms (s, ps) = Some (s', ps')"
  shows "reachable init (interleave next start) (s', mset ps')"
  using assms
proof (induction "next" start ms "(s, ps)" arbitrary: s ps rule: script.induct)
  case (2 nxt start p ms s ps)
  then have "reachable init (interleave nxt start) (s, mset (ps @ [p]))"
    by (auto intro: reachable.intros interleave.spawn split: if_splits)
  with 2 show ?case by (auto split: if_splits)
next
  case (3 nxt start i j ms s ps)
  obtain t p where n: "nxt s (ps ! i) ! j = (t, p)" by fastforce
  from 3(3) n have ij: "i < length ps" "j < length (nxt s (ps ! i))" by (auto split: if_splits)
  have "(t, p) \<in> set (nxt s (ps ! i))" using n ij by (metis nth_mem)
  then have "interleave nxt start (s, add_mset (ps ! i) (mset ps - {#ps ! i#})) (t, add_mset p (mset ps - {#ps ! i#}))"
    by (rule interleave.run)
  then have "interleave nxt start (s, mset ps) (t, mset (ps[i := p]))"
    using ij by (simp add: mset_list_update)
  with 3(2) have "reachable init (interleave nxt start) (t, mset (ps[i := p]))"
    by (rule reach_step)
  with 3 n ij show ?case by simp
qed simp

lemma script_from_start:
  assumes "script next start ms (s0, []) = Some (s, ps)"
  shows "interleaved_reachable s0 next start (s, mset ps)"
  by (rule script_reachable [OF _ assms]) (simp add: reachable.intros only_state_def)

section \<open>Counting goroutines\<close>

definition count_if :: "('a \<Rightarrow> bool) \<Rightarrow> 'a multiset \<Rightarrow> nat" where
  "count_if P ts = size (filter_mset P ts)"

lemma count_if_add [simp]:
  "count_if P (add_mset p ts) = (if P p then Suc (count_if P ts) else count_if P ts)"
  by (simp add: count_if_def)

lemma count_if_empty [simp]: "count_if P {#} = 0"
  by (simp add: count_if_def)

lemma count_if_mono: "(\<And>p. p \<in># ts \<Longrightarrow> P p \<Longrightarrow> Q p) \<Longrightarrow> count_if P ts \<le> count_if Q ts"
  by (induction ts) auto

lemma count_if_zero: "(\<And>p. p \<in># ts \<Longrightarrow> \<not> P p) \<Longrightarrow> count_if P ts = 0"
  by (induction ts) auto

lemma count_if_pos: "p \<in># ts \<Longrightarrow> P p \<Longrightarrow> 0 < count_if P ts"
  by (induction ts) (auto split: if_splits)

lemma count_if_strict:
  "p \<in># ts \<Longrightarrow> Q p \<Longrightarrow> \<not> P p \<Longrightarrow> (\<And>q. P q \<Longrightarrow> Q q) \<Longrightarrow> count_if P ts < count_if Q ts"
proof (induction ts)
  case (add q ts)
  have "count_if P ts \<le> count_if Q ts" by (rule count_if_mono) (rule add.prems(4))
  with add show ?case by (cases "p = q") (auto split: if_splits)
qed simp

end
