(* ===== verification/Scheduler_Admission.thy ===== *)
theory Scheduler_Admission
  imports Scheduler Interleaving
begin

text \<open>
  Admission control of the search scheduler: \<open>Acquire\<close> and \<open>Admission.Release\<close> of
  \<^verbatim>\<open>src/service/scheduler/scheduler.go\<close> as an interleaving of goroutines.

  A goroutine is a program counter \<open>admission_pc\<close> that carries its local variables; one step of
  it is one channel operation or one atomic access. \<open>acquire_next\<close> lists the possible results of
  the next step: a select with several ready cases, and a context that may be done at any moment,
  give several. \<open>active\<close> and \<open>background\<close> are the numbers of tokens in the two buffered channels.
  Deferred calls run in Go's last-in first-out order.
\<close>

section \<open>Model\<close>

text \<open>The boolean of a program counter is \<open>isBackground\<close>; \<open>ticket\<close> is the value that
  \<open>s.waiting.Add(1)\<close> returned, present while the deferred decrement is still to run.\<close>

datatype admission_pc =
    AStart bool
  | ATryActive bool
  | AEnqueue bool
  | ACheck bool int
  | ALeaveRejected bool int
  | ACountRejected bool
  | AWait bool int
  | ACountTotal bool "int option"
  | AReadActive bool "int option"
  | APeakLoad bool "int option" int
  | APeakCAS bool "int option" int int
  | ALeaveAdmitted bool int
  | ALeaveCancelled bool int
  | AReleaseBackground bool
  | AHold bool
  | AHoldDisabled
  | AReleasing bool
  | AReleased
  | ARefused

record admission =
  ad_active :: nat
  ad_background :: nat
  ad_waiting :: int
  ad_total :: nat
  ad_rejected :: nat
  ad_peak :: int

definition background_cap :: "SchedConfig \<Rightarrow> int" where
  "background_cap config = max 1 (sc_ActiveSearches config - 2)"

text \<open>What follows a successful send on \<open>s.active\<close> once the peak is recorded: the deferred
  decrement of the waiting counter, when this goroutine had queued.\<close>

definition after_peak :: "bool \<Rightarrow> int option \<Rightarrow> admission_pc" where
  "after_peak b queued = (case queued of None \<Rightarrow> AHold b | Some ticket \<Rightarrow> ALeaveAdmitted b ticket)"

fun acquire_next :: "SchedConfig \<Rightarrow> admission \<Rightarrow> admission_pc \<Rightarrow> (admission \<times> admission_pc) list" where
  "acquire_next config s (AStart b) =
     (if \<not> sc_Enabled config then [(s, AHoldDisabled)]
      else if \<not> b then [(s, ATryActive b)]
      else if int (ad_background s) < background_cap config
           then [(s\<lparr>ad_background := Suc (ad_background s)\<rparr>, ATryActive b), (s, ARefused)]
           else [(s, ARefused), (s\<lparr>ad_rejected := Suc (ad_rejected s)\<rparr>, ARefused)])"
| "acquire_next config s (ATryActive b) =
     (if int (ad_active s) < sc_ActiveSearches config
      then [(s\<lparr>ad_active := Suc (ad_active s)\<rparr>, ACountTotal b None)]
      else [(s, AEnqueue b)])"
| "acquire_next config s (AEnqueue b) =
     [(s\<lparr>ad_waiting := ad_waiting s + 1\<rparr>, ACheck b (ad_waiting s + 1))]"
| "acquire_next config s (ACheck b ticket) =
     (if ticket > sc_SearchQueue config then [(s, ALeaveRejected b ticket)] else [(s, AWait b ticket)])"
| "acquire_next config s (ALeaveRejected b ticket) =
     [(s\<lparr>ad_waiting := ad_waiting s - 1\<rparr>, ACountRejected b)]"
| "acquire_next config s (ACountRejected b) =
     [(s\<lparr>ad_rejected := Suc (ad_rejected s)\<rparr>, AReleaseBackground b)]"
| "acquire_next config s (AWait b ticket) =
     (if int (ad_active s) < sc_ActiveSearches config
      then [(s\<lparr>ad_active := Suc (ad_active s)\<rparr>, ACountTotal b (Some ticket))] else [])
     @ [(s, ALeaveCancelled b ticket)]"
| "acquire_next config s (ACountTotal b queued) =
     [(s\<lparr>ad_total := Suc (ad_total s)\<rparr>, AReadActive b queued)]"
| "acquire_next config s (AReadActive b queued) = [(s, APeakLoad b queued (int (ad_active s)))]"
| "acquire_next config s (APeakLoad b queued v) =
     (if v > ad_peak s then [(s, APeakCAS b queued v (ad_peak s))] else [(s, after_peak b queued)])"
| "acquire_next config s (APeakCAS b queued v current) =
     (if ad_peak s = current then [(s\<lparr>ad_peak := v\<rparr>, after_peak b queued)]
      else [(s, APeakLoad b queued v)])"
| "acquire_next config s (ALeaveAdmitted b ticket) = [(s\<lparr>ad_waiting := ad_waiting s - 1\<rparr>, AHold b)]"
| "acquire_next config s (ALeaveCancelled b ticket) =
     [(s\<lparr>ad_waiting := ad_waiting s - 1\<rparr>, AReleaseBackground b)]"
| "acquire_next config s (AReleaseBackground b) =
     (if \<not> b then [(s, ARefused)]
      else if ad_background s = 0 then []
      else [(s\<lparr>ad_background := ad_background s - 1\<rparr>, ARefused)])"
| "acquire_next config s (AHold b) =
     (if ad_active s = 0 then [] else [(s\<lparr>ad_active := ad_active s - 1\<rparr>, AReleasing b)])"
| "acquire_next config s AHoldDisabled = [(s, AHoldDisabled)]"
| "acquire_next config s (AReleasing b) =
     (if \<not> b then [(s, AReleased)]
      else if ad_background s = 0 then []
      else [(s\<lparr>ad_background := ad_background s - 1\<rparr>, AReleased)])"
| "acquire_next config s AReleased = [(s, AReleased)]"
| "acquire_next config s ARefused = []"

text \<open>The system: the shared state and the multiset of goroutines. A call of \<open>Acquire\<close> with any
  priority may start at any time.\<close>

definition acquire_call :: "Priority \<Rightarrow> admission_pc" where
  "acquire_call priority = AStart (priority \<noteq> PriorityInteractive)"

definition NewAdmission :: admission where
  "NewAdmission =
     \<lparr>ad_active = 0, ad_background = 0, ad_waiting = 0, ad_total = 0, ad_rejected = 0, ad_peak = 0\<rparr>"

definition is_acquire_call :: "admission_pc \<Rightarrow> bool" where
  "is_acquire_call p \<longleftrightarrow> p = acquire_call PriorityBackground \<or> p = acquire_call PriorityCollection
     \<or> p = acquire_call PriorityInteractive"

abbreviation admission_reachable :: "SchedConfig \<Rightarrow> (admission, admission_pc) system \<Rightarrow> bool" where
  "admission_reachable config \<equiv> interleaved_reachable NewAdmission (acquire_next config) is_acquire_call"

section \<open>Who holds what\<close>

text \<open>Token ownership of a goroutine, read off its program counter.\<close>

fun holds_active :: "admission_pc \<Rightarrow> bool" where
  "holds_active (ACountTotal b q) = True"
| "holds_active (AReadActive b q) = True"
| "holds_active (APeakLoad b q v) = True"
| "holds_active (APeakCAS b q v c) = True"
| "holds_active (ALeaveAdmitted b t) = True"
| "holds_active (AHold b) = True"
| "holds_active _ = False"

fun holds_background :: "admission_pc \<Rightarrow> bool" where
  "holds_background (AStart b) = False"
| "holds_background (ATryActive b) = b"
| "holds_background (AEnqueue b) = b"
| "holds_background (ACheck b t) = b"
| "holds_background (ALeaveRejected b t) = b"
| "holds_background (ACountRejected b) = b"
| "holds_background (AWait b t) = b"
| "holds_background (ACountTotal b q) = b"
| "holds_background (AReadActive b q) = b"
| "holds_background (APeakLoad b q v) = b"
| "holds_background (APeakCAS b q v c) = b"
| "holds_background (ALeaveAdmitted b t) = b"
| "holds_background (ALeaveCancelled b t) = b"
| "holds_background (AReleaseBackground b) = b"
| "holds_background (AHold b) = b"
| "holds_background (AReleasing b) = b"
| "holds_background _ = False"

text \<open>The ticket of a goroutine whose decrement of the waiting counter is outstanding.\<close>

fun queue_ticket :: "admission_pc \<Rightarrow> int option" where
  "queue_ticket (ACheck b t) = Some t"
| "queue_ticket (ALeaveRejected b t) = Some t"
| "queue_ticket (AWait b t) = Some t"
| "queue_ticket (ACountTotal b q) = q"
| "queue_ticket (AReadActive b q) = q"
| "queue_ticket (APeakLoad b q v) = q"
| "queue_ticket (APeakCAS b q v c) = q"
| "queue_ticket (ALeaveAdmitted b t) = Some t"
| "queue_ticket (ALeaveCancelled b t) = Some t"
| "queue_ticket _ = None"

definition is_queued :: "admission_pc \<Rightarrow> bool" where
  "is_queued p \<longleftrightarrow> queue_ticket p \<noteq> None"

definition ticket_at_most :: "int \<Rightarrow> admission_pc \<Rightarrow> bool" where
  "ticket_at_most k p \<longleftrightarrow> (case queue_ticket p of None \<Rightarrow> False | Some t \<Rightarrow> t \<le> k)"

fun is_waiter :: "admission_pc \<Rightarrow> bool" where
  "is_waiter (AWait b t) = True"
| "is_waiter _ = False"

fun peak_value :: "admission_pc \<Rightarrow> int" where
  "peak_value (APeakLoad b q v) = v"
| "peak_value (APeakCAS b q v c) = v"
| "peak_value _ = 0"

definition waiter_ok :: "SchedConfig \<Rightarrow> admission_pc \<Rightarrow> bool" where
  "waiter_ok config p \<longleftrightarrow>
     (case p of AWait b t \<Rightarrow> t \<le> sc_SearchQueue config | ALeaveRejected b t \<Rightarrow> sc_SearchQueue config < t | _ \<Rightarrow> True)
     \<and> peak_value p \<le> sc_ActiveSearches config"

definition admission_wf :: "SchedConfig \<Rightarrow> (admission, admission_pc) system \<Rightarrow> bool" where
  "admission_wf config sys \<longleftrightarrow> (case sys of (s, ts) \<Rightarrow>
     ad_active s = count_if holds_active ts
   \<and> ad_background s = count_if holds_background ts
   \<and> ad_waiting s = int (count_if is_queued ts)
   \<and> int (ad_active s) \<le> sc_ActiveSearches config
   \<and> int (ad_background s) \<le> background_cap config
   \<and> (\<forall>k. int (count_if (ticket_at_most k) ts) \<le> max 0 k)
   \<and> (\<forall>p\<in>#ts. waiter_ok config p)
   \<and> ad_peak s \<le> sc_ActiveSearches config)"

section \<open>Every step keeps the books\<close>

text \<open>A step changes each counter by exactly what it changes in the goroutine's own holdings.\<close>

lemma acquire_next_balance:
  assumes "(s', p') \<in> set (acquire_next config s p)"
  shows "ad_active s' + of_bool (holds_active p) = ad_active s + of_bool (holds_active p')"
    and "ad_background s' + of_bool (holds_background p) = ad_background s + of_bool (holds_background p')"
    and "ad_waiting s' + of_bool (is_queued p) = ad_waiting s + of_bool (is_queued p')"
  using assms
  by (cases p; auto simp: is_queued_def after_peak_def split: if_splits option.splits)+

lemma acquire_next_caps:
  assumes "(s', p') \<in> set (acquire_next config s p)"
  shows "int (ad_active s) \<le> sc_ActiveSearches config \<Longrightarrow> int (ad_active s') \<le> sc_ActiveSearches config"
    and "int (ad_background s) \<le> background_cap config \<Longrightarrow> int (ad_background s') \<le> background_cap config"
  using assms by (cases p; auto split: if_splits)+

lemma acquire_next_local:
  assumes "(s', p') \<in> set (acquire_next config s p)" and "waiter_ok config p"
    and "int (ad_active s) \<le> sc_ActiveSearches config" and "0 < sc_ActiveSearches config"
    and "ad_peak s \<le> sc_ActiveSearches config"
  shows "waiter_ok config p'" and "ad_peak s' \<le> sc_ActiveSearches config"
  using assms
  by (cases p; auto simp: waiter_ok_def after_peak_def split: if_splits option.splits)+

lemma acquire_next_ticket:
  assumes "(s', p') \<in> set (acquire_next config s p)" and "ticket_at_most k p'"
  shows "ticket_at_most k p \<or> ad_waiting s + 1 \<le> k \<and> ad_waiting s' = ad_waiting s + 1"
  using assms
  by (cases p; auto simp: ticket_at_most_def after_peak_def split: if_splits option.splits)

lemma admission_run_wf:
  assumes wf: "admission_wf config (s, add_mset p ts)" and pos: "0 < sc_ActiveSearches config"
    and st: "(s', p') \<in> set (acquire_next config s p)"
  shows "admission_wf config (s', add_mset p' ts)"
proof -
  note balance = acquire_next_balance [OF st]
  have active: "ad_active s' = count_if holds_active (add_mset p' ts)"
    and background: "ad_background s' = count_if holds_background (add_mset p' ts)"
    and waiting: "ad_waiting s' = int (count_if is_queued (add_mset p' ts))"
    using wf balance by (auto simp: admission_wf_def split: if_splits)
  have rank: "int (count_if (ticket_at_most k) (add_mset p' ts)) \<le> max 0 k" for k
  proof (cases "ticket_at_most k p' \<and> \<not> ticket_at_most k p")
    case True
    with acquire_next_ticket [OF st] have k: "ad_waiting s' \<le> k" by fastforce
    have "count_if (ticket_at_most k) (add_mset p' ts) \<le> count_if is_queued (add_mset p' ts)"
      by (rule count_if_mono) (auto simp: ticket_at_most_def is_queued_def split: option.splits)
    with waiting k show ?thesis by linarith
  next
    case False
    then have "count_if (ticket_at_most k) (add_mset p' ts) \<le> count_if (ticket_at_most k) (add_mset p ts)"
      by simp
    moreover have "int (count_if (ticket_at_most k) (add_mset p ts)) \<le> max 0 k"
      using wf unfolding admission_wf_def by blast
    ultimately show ?thesis by linarith
  qed
  have caps: "int (ad_active s) \<le> sc_ActiveSearches config" "int (ad_background s) \<le> background_cap config"
    "ad_peak s \<le> sc_ActiveSearches config" "waiter_ok config p" "\<forall>q\<in>#ts. waiter_ok config q"
    using wf unfolding admission_wf_def by simp_all
  have local: "waiter_ok config p'" "ad_peak s' \<le> sc_ActiveSearches config"
    using acquire_next_local [OF st caps(4,1) pos caps(3)] by blast+
  from active background waiting rank acquire_next_caps [OF st] caps local
  show ?thesis unfolding admission_wf_def by simp
qed

lemma admission_call_wf:
  "admission_wf config (s, ts) \<Longrightarrow> 0 < sc_ActiveSearches config \<Longrightarrow> is_acquire_call p \<Longrightarrow>
   admission_wf config (s, add_mset p ts)"
  by (auto simp: admission_wf_def is_acquire_call_def acquire_call_def is_queued_def ticket_at_most_def
      waiter_ok_def)

lemma normalizeSched_active_pos [simp]: "0 < sc_ActiveSearches (normalizeSched c)"
  and normalizeSched_queue_pos [simp]: "0 < sc_SearchQueue (normalizeSched c)"
  by (simp_all add: normalizeSched_def)

interpretation admission: interleaved NewAdmission "acquire_next (normalizeSched c)" is_acquire_call
  "admission_wf (normalizeSched c)" for c
proof unfold_locales
  show "admission_wf (normalizeSched c) (NewAdmission, {#})"
    by (simp add: NewAdmission_def admission_wf_def background_cap_def less_imp_le)
qed (simp_all add: admission_call_wf admission_run_wf)

text \<open>The goroutines that are inside an admission or have one to give back.\<close>

definition in_flight :: "admission_pc \<Rightarrow> bool" where
  "in_flight p \<longleftrightarrow> p \<noteq> AHoldDisabled \<and> p \<noteq> AReleased \<and> p \<noteq> ARefused \<and> (\<forall>b. p \<noteq> AStart b)"

text \<open>Two runs for the witnesses. In the first a background search is admitted; in the second,
  two interactive searches take the other slots and a third one waits.\<close>

definition small_config :: SchedConfig where
  "small_config = \<lparr>sc_Enabled = True, sc_ActiveSearches = 3, sc_SearchQueue = 1, sc_TGWorkers = 1,
     sc_PluginWorkers = 1, sc_CredentialWorkers = 1, sc_PerSource = 1, sc_CircuitFailures = 1,
     sc_CircuitCooldown = 1\<rparr>"

definition one_admitted :: "admission_pc move list" where
  "one_admitted = Spawn (AStart True) # replicate 6 (Run 0 0)"

definition three_admitted :: "admission_pc move list" where
  "three_admitted =
     one_admitted @ Spawn (AStart False) # replicate 6 (Run 1 0)
     @ Spawn (AStart False) # replicate 6 (Run 2 0) @ Spawn (AStart False) # replicate 4 (Run 3 0)"

lemma one_admitted_result:
  "script (acquire_next (normalizeSched small_config)) is_acquire_call one_admitted (NewAdmission, []) =
     Some (\<lparr>ad_active = 1, ad_background = 1, ad_waiting = 0, ad_total = 1, ad_rejected = 0, ad_peak = 1\<rparr>,
       [AHold True])"
  by code_simp

lemma three_admitted_result:
  "script (acquire_next (normalizeSched small_config)) is_acquire_call three_admitted (NewAdmission, []) =
     Some (\<lparr>ad_active = 3, ad_background = 1, ad_waiting = 1, ad_total = 3, ad_rejected = 0, ad_peak = 3\<rparr>,
       [AHold True, AHold False, AHold False, AWait False 1])"
  by code_simp

lemmas one_admitted_reachable = script_from_start [OF one_admitted_result]
lemmas three_admitted_reachable = script_from_start [OF three_admitted_result]

section \<open>Properties\<close>

text \<open>C22: whatever the interleaving of any number of \<open>Acquire\<close> and \<open>Release\<close> calls, at most
  \<open>ActiveSearches\<close> searches run, at most \<open>max(1, ActiveSearches-2)\<close> of them are background work, at
  most \<open>SearchQueue\<close> callers wait for a slot, the reported peak stays within the limit, and the
  waiting counter counts exactly the queued callers.\<close>

theorem admission_capacity:
  assumes "admission_reachable (normalizeSched c) (s, ts)"
  shows "int (count_if holds_active ts) \<le> sc_ActiveSearches (normalizeSched c)
       \<and> int (count_if holds_background ts) \<le> background_cap (normalizeSched c)
       \<and> int (count_if is_waiter ts) \<le> sc_SearchQueue (normalizeSched c)
       \<and> ad_peak s \<le> sc_ActiveSearches (normalizeSched c)
       \<and> ad_waiting s = int (count_if is_queued ts)"
proof -
  let ?c = "normalizeSched c" and ?q = "sc_SearchQueue (normalizeSched c)"
  from assms have wf: "admission_wf ?c (s, ts)" by (rule admission.reachable_inv)
  have "count_if is_waiter ts \<le> count_if (ticket_at_most ?q) ts"
  proof (rule count_if_mono)
    fix p assume "p \<in># ts" "is_waiter p"
    with wf show "ticket_at_most ?q p"
      by (cases p) (auto simp: admission_wf_def waiter_ok_def ticket_at_most_def)
  qed
  moreover have "int (count_if (ticket_at_most ?q) ts) \<le> max 0 ?q"
    using wf unfolding admission_wf_def by blast
  moreover have "0 < ?q" by simp
  ultimately have "int (count_if is_waiter ts) \<le> ?q" by linarith
  with wf show ?thesis by (simp add: admission_wf_def)
qed

theorem admission_capacity_witness:
  "let ts = {#AHold True, AHold False, AHold False, AWait False 1#}
   in int (count_if holds_active ts) = sc_ActiveSearches (normalizeSched small_config)
    \<and> int (count_if is_waiter ts) \<le> sc_SearchQueue (normalizeSched small_config)"
  using admission_capacity [OF three_admitted_reachable]
  by (simp add: Let_def normalizeSched_def small_config_def)

text \<open>\<open>Release\<close> never blocks and nothing leaks: a goroutine that gives back a slot finds a
  token in the channel it receives from, and once no call is in flight all counters are zero.\<close>

theorem admission_release_safe:
  assumes "admission_reachable (normalizeSched c) (s, ts)"
  shows "(\<forall>p\<in>#ts. (\<exists>b. p = AHold b \<or> p = AReleasing b \<or> p = AReleaseBackground b) \<longrightarrow>
            acquire_next (normalizeSched c) s p \<noteq> [])
       \<and> ((\<forall>p\<in>#ts. \<not> in_flight p) \<longrightarrow> ad_active s = 0 \<and> ad_background s = 0 \<and> ad_waiting s = 0)"
proof -
  from assms have wf: "admission_wf (normalizeSched c) (s, ts)" by (rule admission.reachable_inv)
  have "acquire_next (normalizeSched c) s p \<noteq> []"
    if "p \<in># ts" "p = AHold b \<or> p = AReleasing b \<or> p = AReleaseBackground b" for p b
    using that wf count_if_pos [of p ts holds_active] count_if_pos [of p ts holds_background]
    by (auto simp: admission_wf_def split: if_splits)
  moreover have "ad_active s = 0 \<and> ad_background s = 0 \<and> ad_waiting s = 0"
    if idle: "\<forall>p\<in>#ts. \<not> in_flight p"
  proof -
    have "\<not> holds_active p \<and> \<not> holds_background p \<and> \<not> is_queued p" if "p \<in># ts" for p
      using idle that by (cases p) (auto simp: in_flight_def is_queued_def)
    then have "count_if holds_active ts = 0 \<and> count_if holds_background ts = 0 \<and> count_if is_queued ts = 0"
      by (auto intro!: count_if_zero)
    with wf show ?thesis by (simp add: admission_wf_def)
  qed
  ultimately show ?thesis by blast
qed

theorem admission_release_safe_witness:
  "let s = \<lparr>ad_active = 3, ad_background = 1, ad_waiting = 1, ad_total = 3, ad_rejected = 0, ad_peak = 3\<rparr>
   in acquire_next (normalizeSched small_config) s (AHold True) \<noteq> []"
  using admission_release_safe [OF three_admitted_reachable] by (simp add: Let_def)

text \<open>slots are reserved for interactive searches: with at least three active slots, as long
  as no interactive search holds a slot, a new interactive search is admitted at its first attempt,
  however much background work runs or queues.\<close>

theorem admission_interactive_reserve:
  assumes "admission_reachable (normalizeSched c) (s, ts)"
    and "3 \<le> sc_ActiveSearches (normalizeSched c)"
    and "\<forall>p\<in>#ts. holds_active p \<longrightarrow> holds_background p"
  shows "acquire_next (normalizeSched c) s (ATryActive False)
           = [(s\<lparr>ad_active := Suc (ad_active s)\<rparr>, ACountTotal False None)]"
proof -
  from assms(1) have wf: "admission_wf (normalizeSched c) (s, ts)" by (rule admission.reachable_inv)
  have "count_if holds_active ts \<le> count_if holds_background ts"
    using assms(3) by (intro count_if_mono) blast
  with wf have "int (ad_active s) \<le> background_cap (normalizeSched c)" by (simp add: admission_wf_def)
  with assms(2) show ?thesis by (simp add: background_cap_def)
qed

theorem admission_interactive_reserve_witness:
  "let s = \<lparr>ad_active = 1, ad_background = 1, ad_waiting = 0, ad_total = 1, ad_rejected = 0, ad_peak = 1\<rparr>
   in acquire_next (normalizeSched small_config) s (ATryActive False)
        = [(s\<lparr>ad_active := 2\<rparr>, ACountTotal False None)]"
  using admission_interactive_reserve [OF one_admitted_reachable]
  by (simp add: Let_def normalizeSched_def small_config_def)

end
