(* ===== verification/Scheduler_Execute.thy ===== *)
theory Scheduler_Execute
  imports Scheduler Interleaving
begin

text \<open>
  Task execution of the search scheduler: \<open>Execute\<close> and \<open>executeUnscheduled\<close> of
  \<^verbatim>\<open>src/service/scheduler/scheduler.go\<close>, with hot reconfiguration of sources running beside them.

  A goroutine of a call takes a permit of the call (\<open>local\<close>), one of its class pool and one of its
  source's limiter, runs, records the outcome at the gate, sends the result and gives the permits
  back in reverse order; a second kind of goroutine collects the results of a call. What a task's
  \<open>Run\<close> returns and the clock readings it sees are arbitrary and are part of the task. Whenever the
  code also listens on \<open>ctx.Done()\<close>, the cancelled case is one of the possible steps.
\<close>

section \<open>Model\<close>

record exec_task =
  et_call :: nat
  et_class :: Class
  et_source :: string
  et_outcome :: "unit Result"
  et_allow_at :: time
  et_record_at :: time
  et_elapsed :: duration

datatype exec_pc =
    ELocal exec_task
  | EClass exec_task
  | EGate exec_task
  | ESkip exec_task
  | ESendSkip exec_task
  | EWaitInc exec_task
  | ELimiter exec_task
  | EWaitDec exec_task bool
  | ERun exec_task
  | ERecord exec_task
  | ESend exec_task
  | EReleaseLimiter exec_task bool
  | EReleaseClass exec_task bool
  | EReleaseLocal exec_task bool
  | EDone exec_task bool
  | UAcquire exec_task
  | URun exec_task
  | USend exec_task
  | ECollect nat nat
  | ECollected nat
  | EConfigure string SourcePolicy
  | EConfigured string SourcePolicy

text \<open>The boolean of the release states says whether the goroutine has sent a result.\<close>

record exec_state =
  ex_reg :: SchedRegistry
  ex_local :: "nat \<Rightarrow> int"
  ex_results :: "nat \<Rightarrow> unit Result list"
  ex_collected :: "nat \<Rightarrow> unit Result list"

text \<open>Per call: the number of tasks and the requested parallelism.\<close>

record exec_call =
  ec_tasks :: nat
  ec_perRequest :: int

definition local_cap :: "exec_call \<Rightarrow> int" where
  "local_cap call =
     (if ec_perRequest call \<le> 0 \<or> ec_perRequest call > int (ec_tasks call) then int (ec_tasks call)
      else ec_perRequest call)"

definition add_local :: "nat \<Rightarrow> int \<Rightarrow> exec_state \<Rightarrow> exec_state" where
  "add_local k d s = s\<lparr>ex_local := (ex_local s)(k := ex_local s k + d)\<rparr>"

definition add_class :: "Class \<Rightarrow> int \<Rightarrow> exec_state \<Rightarrow> exec_state" where
  "add_class c d s =
     s\<lparr>ex_reg := (ex_reg s)\<lparr>sg_classInUse := (sg_classInUse (ex_reg s))(c := sg_classInUse (ex_reg s) c + d)\<rparr>\<rparr>"

definition count_run :: "Class \<Rightarrow> exec_state \<Rightarrow> exec_state" where
  "count_run c s =
     s\<lparr>ex_reg := (ex_reg s)\<lparr>sg_classRuns := (sg_classRuns (ex_reg s))(c := Suc (sg_classRuns (ex_reg s) c))\<rparr>\<rparr>"

definition get_gate :: "exec_state \<Rightarrow> string \<Rightarrow> sourceGate" where
  "get_gate s source = fst (sched_gate (ex_reg s) source)"

definition put_gate :: "string \<Rightarrow> sourceGate \<Rightarrow> exec_state \<Rightarrow> exec_state" where
  "put_gate source gate s =
     s\<lparr>ex_reg := (ex_reg s)\<lparr>sg_gates := AList.update source gate (sg_gates (ex_reg s))\<rparr>\<rparr>"

definition add_waiting :: "string \<Rightarrow> int \<Rightarrow> exec_state \<Rightarrow> exec_state" where
  "add_waiting source d s =
     (let g = get_gate s source in put_gate source (g\<lparr>g_waiting := g_waiting g + d\<rparr>) s)"

definition send_result :: "nat \<Rightarrow> unit Result \<Rightarrow> exec_state \<Rightarrow> exec_state" where
  "send_result k r s = s\<lparr>ex_results := (ex_results s)(k := ex_results s k @ [r])\<rparr>"

definition skipped_result :: "exec_task \<Rightarrow> unit Result" where
  "skipped_result t =
     \<lparr>r_Source = et_source t, r_Value = (),
      r_Err = Some \<lparr>err_message = ''search source circuit is open'', err_deadline = False\<rparr>,
      r_Skipped = True, r_Duration = 0, r_ResultCount = 0, r_UniqueCount = 0\<rparr>"

definition task_result :: "exec_task \<Rightarrow> unit Result" where
  "task_result t = (et_outcome t)\<lparr>r_Source := et_source t, r_Duration := et_elapsed t\<rparr>"

text \<open>\<open>acquire(ctx, semaphore)\<close> on a buffered channel with \<open>n\<close> tokens: the send if there is room,
  and the cancelled case.\<close>

definition acquire_chan :: "int \<Rightarrow> int \<Rightarrow> 'a \<Rightarrow> 'a \<Rightarrow> 'a list" where
  "acquire_chan n cap got cancelled = (if n < cap then [got, cancelled] else [cancelled])"

text \<open>\<open>release(semaphore)\<close>: it blocks on an empty channel.\<close>

definition release_chan :: "int \<Rightarrow> 'a \<Rightarrow> 'a list" where
  "release_chan n released = (if n > 0 then [released] else [])"

fun execute_next :: "(nat \<Rightarrow> exec_call) \<Rightarrow> exec_state \<Rightarrow> exec_pc \<Rightarrow> (exec_state \<times> exec_pc) list" where
  "execute_next calls s (ELocal t) =
     acquire_chan (ex_local s (et_call t)) (local_cap (calls (et_call t)))
       (add_local (et_call t) 1 s, EClass t) (s, EDone t False)"
| "execute_next calls s (EClass t) =
     acquire_chan (sg_classInUse (ex_reg s) (et_class t)) (class_cap (sg_config (ex_reg s)) (et_class t))
       (add_class (et_class t) 1 s, EGate t) (s, EReleaseLocal t False)"
| "execute_next calls s (EGate t) =
     (case gate_allow (et_allow_at t) (get_gate s (et_source t)) of
        None \<Rightarrow> [(put_gate (et_source t) (get_gate s (et_source t)) s, ESkip t)]
      | Some g \<Rightarrow> [(put_gate (et_source t) g s, EWaitInc t)])"
| "execute_next calls s (ESkip t) =
     [(put_gate (et_source t) (gate_recordSkip (get_gate s (et_source t))) s, ESendSkip t)]"
| "execute_next calls s (ESendSkip t) =
     [(send_result (et_call t) (skipped_result t) s, EReleaseClass t True)]"
| "execute_next calls s (EWaitInc t) = [(add_waiting (et_source t) 1 s, ELimiter t)]"
| "execute_next calls s (ELimiter t) =
     (let g = get_gate s (et_source t)
      in case sem_Acquire (g_limiter g) of
           Inr l \<Rightarrow> [(put_gate (et_source t) (g\<lparr>g_limiter := l\<rparr>) s, EWaitDec t True)]
         | Inl _ \<Rightarrow> [(s, ELimiter t), (s, EWaitDec t False)])"
| "execute_next calls s (EWaitDec t ok) =
     [(add_waiting (et_source t) (- 1) s, if ok then ERun t else EReleaseClass t False)]"
| "execute_next calls s (ERun t) = [(count_run (et_class t) s, ERecord t)]"
| "execute_next calls s (ERecord t) =
     [(put_gate (et_source t)
         (gate_record (et_record_at t) (get_gate s (et_source t)) (task_result t)
            (sc_CircuitFailures (sg_config (ex_reg s))) (sc_CircuitCooldown (sg_config (ex_reg s)))) s,
       ESend t)]"
| "execute_next calls s (ESend t) =
     [(send_result (et_call t) (task_result t) s, EReleaseLimiter t True), (s, EReleaseLimiter t False)]"
| "execute_next calls s (EReleaseLimiter t sent) =
     (let g = get_gate s (et_source t)
      in [(put_gate (et_source t) (g\<lparr>g_limiter := sem_Release (g_limiter g)\<rparr>) s, EReleaseClass t sent)])"
| "execute_next calls s (EReleaseClass t sent) =
     release_chan (sg_classInUse (ex_reg s) (et_class t))
       (add_class (et_class t) (- 1) s, EReleaseLocal t sent)"
| "execute_next calls s (EReleaseLocal t sent) =
     release_chan (ex_local s (et_call t)) (add_local (et_call t) (- 1) s, EDone t sent)"
| "execute_next calls s (EDone t sent) = []"
| "execute_next calls s (UAcquire t) =
     acquire_chan (ex_local s (et_call t)) (local_cap (calls (et_call t)))
       (add_local (et_call t) 1 s, URun t) (s, EDone t False)"
| "execute_next calls s (URun t) = [(s, USend t)]"
| "execute_next calls s (USend t) =
     [(send_result (et_call t) (task_result t) s, EReleaseLocal t True), (s, EReleaseLocal t False)]"
| "execute_next calls s (ECollect k n) =
     (if n \<le> length (ex_collected s k) then [(s, ECollected k)]
      else (case ex_results s k of
              [] \<Rightarrow> []
            | r # rs \<Rightarrow> [(s\<lparr>ex_results := (ex_results s)(k := rs),
                            ex_collected := (ex_collected s)(k := ex_collected s k @ [r])\<rparr>, ECollect k n)])
           @ [(s, ECollected k)])"
| "execute_next calls s (ECollected k) = []"
| "execute_next calls s (EConfigure source policy) =
     [(s\<lparr>ex_reg := ConfigureSource (ex_reg s) source policy\<rparr>, EConfigured source policy)]"
| "execute_next calls s (EConfigured source policy) = []"

definition exec_start :: "(nat \<Rightarrow> exec_call) \<Rightarrow> exec_pc \<Rightarrow> bool" where
  "exec_start calls p \<longleftrightarrow>
     (case p of ELocal t \<Rightarrow> True | UAcquire t \<Rightarrow> True
      | ECollect k n \<Rightarrow> n = ec_tasks (calls k) | EConfigure source policy \<Rightarrow> True | _ \<Rightarrow> False)"

definition NewExec :: "SchedConfig \<Rightarrow> exec_state" where
  "NewExec config =
     \<lparr>ex_reg = NewRegistry config, ex_local = (\<lambda>_. 0), ex_results = (\<lambda>_. []), ex_collected = (\<lambda>_. [])\<rparr>"

abbreviation exec_reachable :: "SchedConfig \<Rightarrow> (nat \<Rightarrow> exec_call) \<Rightarrow> (exec_state, exec_pc) system \<Rightarrow> bool" where
  "exec_reachable config calls \<equiv>
     interleaved_reachable (NewExec config) (execute_next calls) (exec_start calls)"

section \<open>Who holds what\<close>

fun holds_local :: "nat \<Rightarrow> exec_pc \<Rightarrow> bool" where
  "holds_local k (ELocal t) = False"
| "holds_local k (EDone t b) = False"
| "holds_local k (UAcquire t) = False"
| "holds_local k (EClass t) = (et_call t = k)"
| "holds_local k (EGate t) = (et_call t = k)"
| "holds_local k (ESkip t) = (et_call t = k)"
| "holds_local k (ESendSkip t) = (et_call t = k)"
| "holds_local k (EWaitInc t) = (et_call t = k)"
| "holds_local k (ELimiter t) = (et_call t = k)"
| "holds_local k (EWaitDec t b) = (et_call t = k)"
| "holds_local k (ERun t) = (et_call t = k)"
| "holds_local k (ERecord t) = (et_call t = k)"
| "holds_local k (ESend t) = (et_call t = k)"
| "holds_local k (EReleaseLimiter t b) = (et_call t = k)"
| "holds_local k (EReleaseClass t b) = (et_call t = k)"
| "holds_local k (EReleaseLocal t b) = (et_call t = k)"
| "holds_local k (URun t) = (et_call t = k)"
| "holds_local k (USend t) = (et_call t = k)"
| "holds_local k _ = False"

fun holds_class :: "Class \<Rightarrow> exec_pc \<Rightarrow> bool" where
  "holds_class c (EGate t) = (et_class t = c)"
| "holds_class c (ESkip t) = (et_class t = c)"
| "holds_class c (ESendSkip t) = (et_class t = c)"
| "holds_class c (EWaitInc t) = (et_class t = c)"
| "holds_class c (ELimiter t) = (et_class t = c)"
| "holds_class c (EWaitDec t b) = (et_class t = c)"
| "holds_class c (ERun t) = (et_class t = c)"
| "holds_class c (ERecord t) = (et_class t = c)"
| "holds_class c (ESend t) = (et_class t = c)"
| "holds_class c (EReleaseLimiter t b) = (et_class t = c)"
| "holds_class c (EReleaseClass t b) = (et_class t = c)"
| "holds_class c _ = False"

fun holds_limiter :: "string \<Rightarrow> exec_pc \<Rightarrow> bool" where
  "holds_limiter x (EWaitDec t ok) = (ok \<and> et_source t = x)"
| "holds_limiter x (ERun t) = (et_source t = x)"
| "holds_limiter x (ERecord t) = (et_source t = x)"
| "holds_limiter x (ESend t) = (et_source t = x)"
| "holds_limiter x (EReleaseLimiter t b) = (et_source t = x)"
| "holds_limiter x _ = False"

fun waits_limiter :: "string \<Rightarrow> exec_pc \<Rightarrow> bool" where
  "waits_limiter x (ELimiter t) = (et_source t = x)"
| "waits_limiter x (EWaitDec t ok) = (et_source t = x)"
| "waits_limiter x _ = False"

fun has_sent :: "nat \<Rightarrow> exec_pc \<Rightarrow> bool" where
  "has_sent k (EReleaseLimiter t sent) = (sent \<and> et_call t = k)"
| "has_sent k (EReleaseClass t sent) = (sent \<and> et_call t = k)"
| "has_sent k (EReleaseLocal t sent) = (sent \<and> et_call t = k)"
| "has_sent k (EDone t sent) = (sent \<and> et_call t = k)"
| "has_sent k _ = False"

fun task_of :: "exec_pc \<Rightarrow> exec_task option" where
  "task_of (ELocal t) = Some t"
| "task_of (EClass t) = Some t"
| "task_of (EGate t) = Some t"
| "task_of (ESkip t) = Some t"
| "task_of (ESendSkip t) = Some t"
| "task_of (EWaitInc t) = Some t"
| "task_of (ELimiter t) = Some t"
| "task_of (EWaitDec t b) = Some t"
| "task_of (ERun t) = Some t"
| "task_of (ERecord t) = Some t"
| "task_of (ESend t) = Some t"
| "task_of (EReleaseLimiter t b) = Some t"
| "task_of (EReleaseClass t b) = Some t"
| "task_of (EReleaseLocal t b) = Some t"
| "task_of (EDone t b) = Some t"
| "task_of (UAcquire t) = Some t"
| "task_of (URun t) = Some t"
| "task_of (USend t) = Some t"
| "task_of _ = None"

definition goroutine_of :: "nat \<Rightarrow> exec_pc \<Rightarrow> bool" where
  "goroutine_of k p \<longleftrightarrow> (case task_of p of None \<Rightarrow> False | Some t \<Rightarrow> et_call t = k)"

definition limiter_in_use :: "exec_state \<Rightarrow> string \<Rightarrow> int" where
  "limiter_in_use s x = rs_inUse (g_limiter (get_gate s x))"

definition source_limit :: "exec_state \<Rightarrow> string \<Rightarrow> int" where
  "source_limit s x = rs_limit (g_limiter (get_gate s x))"

text \<open>No limit the source \<open>x\<close> has been given, by the configuration or by a policy applied since, is
  above \<open>b\<close>.\<close>

definition policy_limit :: "SchedConfig \<Rightarrow> SourcePolicy \<Rightarrow> int" where
  "policy_limit config policy =
     (if sp_MaxConcurrency policy \<le> 0 then sc_PerSource (normalizeSched config) else sp_MaxConcurrency policy)"

definition limits_within :: "SchedConfig \<Rightarrow> exec_pc multiset \<Rightarrow> string \<Rightarrow> int \<Rightarrow> bool" where
  "limits_within config ts x b \<longleftrightarrow>
     sc_PerSource (normalizeSched config) \<le> b
   \<and> (\<forall>policy. EConfigured x policy \<in># ts \<longrightarrow> policy_limit config policy \<le> b)"

definition gate_waiting :: "exec_state \<Rightarrow> string \<Rightarrow> int" where
  "gate_waiting s x = g_waiting (get_gate s x)"

definition exec_wf :: "SchedConfig \<Rightarrow> (nat \<Rightarrow> exec_call) \<Rightarrow> (exec_state, exec_pc) system \<Rightarrow> bool" where
  "exec_wf config calls sys \<longleftrightarrow> (case sys of (s, ts) \<Rightarrow>
     sg_config (ex_reg s) = normalizeSched config
   \<and> (\<forall>k. ex_local s k = int (count_if (holds_local k) ts) \<and> ex_local s k \<le> local_cap (calls k))
   \<and> (\<forall>c. sg_classInUse (ex_reg s) c = int (count_if (holds_class c) ts)
         \<and> sg_classInUse (ex_reg s) c \<le> class_cap (normalizeSched config) c)
   \<and> (\<forall>x. limiter_in_use s x = int (count_if (holds_limiter x) ts)
         \<and> gate_waiting s x = int (count_if (waits_limiter x) ts))
   \<and> (\<forall>x b. limits_within config ts x b \<longrightarrow> source_limit s x \<le> b \<and> limiter_in_use s x \<le> b)
   \<and> (\<forall>k. length (ex_results s k) + length (ex_collected s k) = count_if (has_sent k) ts))"

section \<open>Effects of the primitive updates\<close>

lemma get_gate_put [simp]: "get_gate (put_gate x g s) y = (if y = x then g else get_gate s y)"
  by (simp add: get_gate_def put_gate_def sched_gate_def update_conv' Let_def split: option.split)

lemma get_gate_other_fields [simp]:
  "get_gate (add_local k d s) y = get_gate s y"
  "get_gate (add_class c d s) y = get_gate s y"
  "get_gate (count_run c s) y = get_gate s y"
  "get_gate (send_result k r s) y = get_gate s y"
  "get_gate (s\<lparr>ex_results := f, ex_collected := h\<rparr>) y = get_gate s y"
  by (simp_all add: get_gate_def sched_gate_def add_local_def add_class_def count_run_def send_result_def
      Let_def split: option.split)

lemma put_gate_fields [simp]:
  "ex_local (put_gate x g s) = ex_local s"
  "ex_results (put_gate x g s) = ex_results s"
  "ex_collected (put_gate x g s) = ex_collected s"
  "sg_config (ex_reg (put_gate x g s)) = sg_config (ex_reg s)"
  "sg_classInUse (ex_reg (put_gate x g s)) = sg_classInUse (ex_reg s)"
  by (simp_all add: put_gate_def)

lemma update_fields [simp]:
  "ex_local (add_local k d s) = (ex_local s)(k := ex_local s k + d)"
  "ex_results (add_local k d s) = ex_results s"
  "ex_collected (add_local k d s) = ex_collected s"
  "ex_reg (add_local k d s) = ex_reg s"
  "ex_local (add_class c d s) = ex_local s"
  "ex_results (add_class c d s) = ex_results s"
  "ex_collected (add_class c d s) = ex_collected s"
  "sg_config (ex_reg (add_class c d s)) = sg_config (ex_reg s)"
  "sg_classInUse (ex_reg (add_class c d s)) = (sg_classInUse (ex_reg s))(c := sg_classInUse (ex_reg s) c + d)"
  "ex_local (count_run c s) = ex_local s"
  "ex_results (count_run c s) = ex_results s"
  "ex_collected (count_run c s) = ex_collected s"
  "sg_config (ex_reg (count_run c s)) = sg_config (ex_reg s)"
  "sg_classInUse (ex_reg (count_run c s)) = sg_classInUse (ex_reg s)"
  "ex_local (send_result k r s) = ex_local s"
  "ex_results (send_result k r s) = (ex_results s)(k := ex_results s k @ [r])"
  "ex_collected (send_result k r s) = ex_collected s"
  "ex_reg (send_result k r s) = ex_reg s"
  by (simp_all add: add_local_def add_class_def count_run_def send_result_def)

lemma add_waiting_effects [simp]:
  "ex_local (add_waiting x d s) = ex_local s"
  "ex_results (add_waiting x d s) = ex_results s"
  "ex_collected (add_waiting x d s) = ex_collected s"
  "sg_config (ex_reg (add_waiting x d s)) = sg_config (ex_reg s)"
  "sg_classInUse (ex_reg (add_waiting x d s)) = sg_classInUse (ex_reg s)"
  "get_gate (add_waiting x d s) y =
     (if y = x then (get_gate s x)\<lparr>g_waiting := g_waiting (get_gate s x) + d\<rparr> else get_gate s y)"
  by (simp_all add: add_waiting_def Let_def)

lemma ConfigureSource_registry [simp]:
  "sg_config (ConfigureSource r x policy) = sg_config r"
  "sg_classInUse (ConfigureSource r x policy) = sg_classInUse r"
  by (simp_all add: ConfigureSource_def sched_gate_def Let_def split: option.split)

lemma ConfigureSource_keeps_permits [simp]:
  "rs_inUse (g_limiter (fst (sched_gate (ConfigureSource r x policy) y))) = rs_inUse (g_limiter (fst (sched_gate r y)))"
  "g_waiting (fst (sched_gate (ConfigureSource r x policy) y)) = g_waiting (fst (sched_gate r y))"
  by (simp_all add: ConfigureSource_def sched_gate_def Let_def update_conv' sem_SetLimit_def split: option.split)

lemma gate_transitions_keep_permits [simp]:
  "gate_allow now g = Some g' \<Longrightarrow> g_limiter g' = g_limiter g"
  "gate_allow now g = Some g' \<Longrightarrow> g_waiting g' = g_waiting g"
  "g_limiter (gate_recordSkip g) = g_limiter g"
  "g_waiting (gate_recordSkip g) = g_waiting g"
  "g_limiter (gate_record now g out th cd) = g_limiter g"
  "g_waiting (gate_record now g out th cd) = g_waiting g"
  by (auto simp: gate_allow_def gate_recordSkip_def gate_record_def gate_close_def gate_fail_def gate_stats_def
      split: if_splits option.split)

section \<open>Every step keeps the books\<close>

lemmas exec_chan_defs = acquire_chan_def release_chan_def

lemma execute_next_local:
  assumes "(s', p') \<in> set (execute_next calls s p)"
  shows "ex_local s' k + of_bool (holds_local k p) = ex_local s k + of_bool (holds_local k p')"
    and "ex_local s k \<le> local_cap (calls k) \<Longrightarrow> ex_local s' k \<le> local_cap (calls k)"
  using assms
  by (cases p; auto simp: exec_chan_defs Let_def split: if_splits option.splits sum.splits list.splits)+

lemma execute_next_class:
  assumes "(s', p') \<in> set (execute_next calls s p)"
  shows "sg_classInUse (ex_reg s') c + of_bool (holds_class c p)
           = sg_classInUse (ex_reg s) c + of_bool (holds_class c p')"
    and "sg_config (ex_reg s') = sg_config (ex_reg s)"
    and "sg_classInUse (ex_reg s) c \<le> class_cap (sg_config (ex_reg s)) c \<Longrightarrow>
         sg_classInUse (ex_reg s') c \<le> class_cap (sg_config (ex_reg s)) c"
  using assms
  by (cases p; auto simp: exec_chan_defs Let_def split: if_splits option.splits sum.splits list.splits)+

lemma execute_next_results:
  assumes "(s', p') \<in> set (execute_next calls s p)"
  shows "length (ex_results s' k) + length (ex_collected s' k) + of_bool (has_sent k p)
           = length (ex_results s k) + length (ex_collected s k) + of_bool (has_sent k p')"
  using assms
  by (cases p; auto simp: exec_chan_defs Let_def dest: arg_cong [of "_ # _" _ length]
      split: if_splits option.splits sum.splits list.splits)

lemma execute_next_gate:
  assumes "(s', p') \<in> set (execute_next calls s p)"
    and "\<And>t b. p = EReleaseLimiter t b \<Longrightarrow> 0 < limiter_in_use s (et_source t)"
  shows "limiter_in_use s' x + of_bool (holds_limiter x p) = limiter_in_use s x + of_bool (holds_limiter x p')"
    and "gate_waiting s' x + of_bool (waits_limiter x p) = gate_waiting s x + of_bool (waits_limiter x p')"
  using assms
  by (cases p; auto simp: exec_chan_defs Let_def limiter_in_use_def gate_waiting_def sem_Acquire_def
      sem_Release_def get_gate_def [of "_\<lparr>ex_reg := _\<rparr>"] get_gate_def [symmetric]
      split: if_splits option.splits sum.splits list.splits)+

lemma ConfigureSource_limit:
  "rs_limit (g_limiter (fst (sched_gate (ConfigureSource r x policy) y))) =
     (if y = x \<and> x \<noteq> [] \<and> 0 < (if sp_MaxConcurrency policy \<le> 0 then sc_PerSource (sg_config r) else sp_MaxConcurrency policy)
      then (if sp_MaxConcurrency policy \<le> 0 then sc_PerSource (sg_config r) else sp_MaxConcurrency policy)
      else rs_limit (g_limiter (fst (sched_gate r y))))"
  by (simp add: ConfigureSource_def sched_gate_def Let_def update_conv' sem_SetLimit_def split: option.split)

text \<open>A step leaves the limit of a source alone unless it is a reconfiguration of that source, and a
  goroutine gets a permit only below the limit.\<close>

lemma execute_next_limit:
  assumes "(s', p') \<in> set (execute_next calls s p)"
    and "sg_config (ex_reg s) = normalizeSched config"
  shows "source_limit s' x = source_limit s x
       \<or> (\<exists>policy. p' = EConfigured x policy \<and> source_limit s' x = policy_limit config policy)"
  using assms
  by (cases p; auto simp: exec_chan_defs Let_def source_limit_def policy_limit_def sem_Acquire_def
      sem_Release_def ConfigureSource_limit get_gate_def [of "_\<lparr>ex_reg := _\<rparr>"] get_gate_def [symmetric]
      split: if_splits option.splits sum.splits list.splits)

lemma execute_next_acquires_below_limit:
  assumes "(s', p') \<in> set (execute_next calls s p)" and "\<not> holds_limiter x p" "holds_limiter x p'"
  shows "limiter_in_use s x < source_limit s x \<and> limiter_in_use s' x \<le> source_limit s' x"
  using assms
  by (cases p; auto simp: exec_chan_defs Let_def source_limit_def limiter_in_use_def sem_Acquire_def
      split: if_splits option.splits sum.splits list.splits)

lemma limits_within_step:
  "limits_within config (add_mset p' ts) x b \<Longrightarrow> (s', p') \<in> set (execute_next calls s p) \<Longrightarrow>
     limits_within config (add_mset p ts) x b"
  by (cases p) (auto simp: limits_within_def)

lemma exec_run_wf:
  assumes wf: "exec_wf config calls (s, add_mset p ts)" and st: "(s', p') \<in> set (execute_next calls s p)"
  shows "exec_wf config calls (s', add_mset p' ts)"
proof -
  have cfg: "sg_config (ex_reg s) = normalizeSched config"
    and loc: "ex_local s k = int (count_if (holds_local k) (add_mset p ts)) \<and> ex_local s k \<le> local_cap (calls k)"
    and cls: "sg_classInUse (ex_reg s) c = int (count_if (holds_class c) (add_mset p ts))
         \<and> sg_classInUse (ex_reg s) c \<le> class_cap (normalizeSched config) c"
    and lim: "limiter_in_use s x = int (count_if (holds_limiter x) (add_mset p ts))
         \<and> gate_waiting s x = int (count_if (waits_limiter x) (add_mset p ts))"
    and res: "length (ex_results s k) + length (ex_collected s k) = count_if (has_sent k) (add_mset p ts)" for k c x
    using wf unfolding exec_wf_def by blast+
  have bound: "limits_within config (add_mset p ts) x b \<Longrightarrow> source_limit s x \<le> b \<and> limiter_in_use s x \<le> b" for x b
    using wf unfolding exec_wf_def by blast
  have held: "0 < limiter_in_use s (et_source t)" if "p = EReleaseLimiter t b" for t b
    using lim [of "et_source t"] that by simp
  have "ex_local s' k = int (count_if (holds_local k) (add_mset p' ts)) \<and> ex_local s' k \<le> local_cap (calls k)" for k
    using execute_next_local [OF st, of k] loc [of k] by (auto split: if_splits)
  moreover have "sg_classInUse (ex_reg s') c = int (count_if (holds_class c) (add_mset p' ts))
       \<and> sg_classInUse (ex_reg s') c \<le> class_cap (normalizeSched config) c" for c
    using execute_next_class(1,3) [OF st, of c] cls [of c] cfg by (auto split: if_splits)
  moreover have "limiter_in_use s' x = int (count_if (holds_limiter x) (add_mset p' ts))
       \<and> gate_waiting s' x = int (count_if (waits_limiter x) (add_mset p' ts))" for x
    using execute_next_gate [OF st held, where x = x] lim [of x] by (auto split: if_splits)
  moreover have "source_limit s' x \<le> b \<and> limiter_in_use s' x \<le> b" if new: "limits_within config (add_mset p' ts) x b" for x b
  proof -
    have old: "source_limit s x \<le> b" "limiter_in_use s x \<le> b"
      using bound [OF limits_within_step [OF new st]] by blast+
    have "policy_limit config policy \<le> b" if "p' = EConfigured x policy" for policy
      using new that by (simp add: limits_within_def)
    then have lim': "source_limit s' x \<le> b" using execute_next_limit [OF st cfg, of x] old by auto
    have "limiter_in_use s' x \<le> b"
    proof (cases "\<not> holds_limiter x p \<and> holds_limiter x p'")
      case True
      then show ?thesis using execute_next_acquires_below_limit [OF st, of x] lim' by simp
    next
      case False
      have "limiter_in_use s' x + of_bool (holds_limiter x p) = limiter_in_use s x + of_bool (holds_limiter x p')"
        by (rule execute_next_gate(1) [OF st held])
      with False old show ?thesis by (auto simp: of_bool_def split: if_splits)
    qed
    with lim' show ?thesis by blast
  qed
  moreover have "length (ex_results s' k) + length (ex_collected s' k) = count_if (has_sent k) (add_mset p' ts)" for k
    using execute_next_results [OF st, of k] res [of k] by (auto split: if_splits)
  moreover have "sg_config (ex_reg s') = normalizeSched config"
    using execute_next_class(2) [OF st] cfg by simp
  ultimately show ?thesis unfolding exec_wf_def prod.case by blast
qed

lemma exec_start_holds_nothing:
  assumes "exec_start calls p"
  shows "holds_local k p = False" "holds_class c p = False" "holds_limiter x p = False"
    "waits_limiter x p = False" "has_sent k p = False"
  using assms by (cases p; simp add: exec_start_def)+

lemma exec_spawn_limits:
  "exec_start calls p \<Longrightarrow> limits_within config (add_mset p ts) x b = limits_within config ts x b"
  by (auto simp: limits_within_def exec_start_def)

lemma exec_spawn_wf:
  assumes "exec_wf config calls (s, ts)" and "exec_start calls p"
  shows "exec_wf config calls (s, add_mset p ts)"
  using assms(1)
  unfolding exec_wf_def prod.case count_if_add exec_start_holds_nothing [OF assms(2)]
    exec_spawn_limits [OF assms(2)] if_False .

lemma local_cap_nonneg: "0 \<le> local_cap call"
  by (simp add: local_cap_def)

lemma class_cap_nonneg: "0 \<le> class_cap (normalizeSched config) c"
  by (cases c) (simp_all add: class_cap_def normalizeSched_def)

lemma PerSource_pos: "0 < sc_PerSource (normalizeSched config)"
  by (simp add: normalizeSched_def)

lemma NewExec_gate:
  "limiter_in_use (NewExec config) x = 0" "gate_waiting (NewExec config) x = 0"
  "source_limit (NewExec config) x = sc_PerSource (normalizeSched config)"
  using PerSource_pos [of config]
  by (simp_all add: source_limit_def limiter_in_use_def gate_waiting_def get_gate_def NewExec_def NewRegistry_def
      sched_gate_def Let_def newGate_def newResizableSemaphore_def)

lemma NewExec_wf: "exec_wf config calls (NewExec config, {#})"
  unfolding exec_wf_def prod.case NewExec_gate
  using PerSource_pos [of config]
  by (simp add: limits_within_def NewExec_def NewRegistry_def local_cap_nonneg class_cap_nonneg)

interpretation execution: interleaved "NewExec config" "execute_next calls" "exec_start calls"
  "exec_wf config calls" for config calls
  by unfold_locales (simp_all add: NewExec_wf exec_spawn_wf exec_run_wf)

lemma holders_have_task:
  "\<not> holds_local k (EDone t b)" "\<not> holds_class c (EDone t b)" "\<not> holds_limiter x (EDone t b)"
  "holds_local k p \<Longrightarrow> task_of p \<noteq> None" "holds_class c p \<Longrightarrow> task_of p \<noteq> None"
  "holds_limiter x p \<Longrightarrow> task_of p \<noteq> None"
  by simp_all (cases p; simp)+

lemma has_sent_goroutine: "has_sent k p \<Longrightarrow> goroutine_of k p"
  by (cases p) (auto simp: goroutine_of_def)

text \<open>A run in which a probe is given up while it waits for the limiter. Task 0 fails, which
  opens the circuit (threshold 1); before its goroutine releases the limiter, task 1 becomes the
  half-open probe, and its call's context ends while it waits for the permit.\<close>

definition failing_task :: "nat \<Rightarrow> exec_task" where
  "failing_task k =
     \<lparr>et_call = k, et_class = ClassPlugin, et_source = ''plugin:x'',
      et_outcome = \<lparr>r_Source = [], r_Value = (), r_Err = Some \<lparr>err_message = ''HTTP 500'', err_deadline = False\<rparr>,
                    r_Skipped = False, r_Duration = 0, r_ResultCount = 0, r_UniqueCount = 0\<rparr>,
      et_allow_at = 100, et_record_at = 10, et_elapsed = 1\<rparr>"

definition probe_config :: SchedConfig where
  "probe_config = \<lparr>sc_Enabled = True, sc_ActiveSearches = 3, sc_SearchQueue = 1, sc_TGWorkers = 2,
     sc_PluginWorkers = 2, sc_CredentialWorkers = 1, sc_PerSource = 1, sc_CircuitFailures = 1,
     sc_CircuitCooldown = 1\<rparr>"

definition probe_calls :: "nat \<Rightarrow> exec_call" where
  "probe_calls k = \<lparr>ec_tasks = 1, ec_perRequest = 1\<rparr>"

definition probe_run :: "exec_pc move list" where
  "probe_run =
     Spawn (ELocal (failing_task 0)) # Spawn (ELocal (failing_task 1)) # replicate 8 (Run 0 0)
     @ replicate 4 (Run 1 0) @ [Run 1 1] @ replicate 4 (Run 0 0) @ replicate 3 (Run 1 0)"

definition probe_end :: "(exec_state \<times> exec_pc list) option" where
  "probe_end = script (execute_next probe_calls) (exec_start probe_calls) probe_run (NewExec probe_config, [])"

lemma probe_end_run:
  "map_option (\<lambda>(s, ps). (ps, g_halfOpen (get_gate s ''plugin:x''), g_breakUntil (get_gate s ''plugin:x''))) probe_end
   = Some ([EDone (failing_task 0) True, EDone (failing_task 1) False], True, 11)"
  by code_simp

lemma probe_end_facts:
  "map_option snd probe_end = Some [EDone (failing_task 0) True, EDone (failing_task 1) False]"
  "map_option (\<lambda>(s, ps). g_halfOpen (get_gate s ''plugin:x'')) probe_end = Some True"
  "map_option (\<lambda>(s, ps). g_breakUntil (get_gate s ''plugin:x'')) probe_end = Some 11"
  using probe_end_run by (cases probe_end; auto)+

text \<open>The same run with the collector of call 0, which takes the result and ends, and a
  reconfiguration of the source.\<close>

definition collected_policy :: SourcePolicy where
  "collected_policy = \<lparr>sp_MaxConcurrency = 2, sp_Timeout = 5, sp_CircuitFailures = 0, sp_CircuitCooldown = 0\<rparr>"

definition collected_end :: "(exec_state \<times> exec_pc list) option" where
  "collected_end =
     script (execute_next probe_calls) (exec_start probe_calls)
       (probe_run @ [Spawn (ECollect 0 1), Run 2 0, Run 2 0,
                     Spawn (EConfigure ''plugin:x'' collected_policy), Run 3 0])
       (NewExec probe_config, [])"

lemma collected_end_run:
  "map_option (\<lambda>(s, ps). (ps, length (ex_collected s 0))) collected_end
   = Some ([EDone (failing_task 0) True, EDone (failing_task 1) False, ECollected 0, EConfigured ''plugin:x'' collected_policy], 1)"
  by code_simp

lemma collected_end_facts:
  "map_option snd collected_end = Some [EDone (failing_task 0) True, EDone (failing_task 1) False,
     ECollected 0, EConfigured ''plugin:x'' collected_policy]"
  "map_option (\<lambda>(s, ps). length (ex_collected s 0)) collected_end = Some 1"
  using collected_end_run by (cases collected_end; auto)+

definition two_running :: "(exec_state \<times> exec_pc list) option" where
  "two_running =
     script (execute_next probe_calls) (exec_start probe_calls)
       (Spawn (ELocal (failing_task 0)) # replicate 7 (Run 0 0)) (NewExec probe_config, [])"

lemma two_running_facts:
  "map_option snd two_running = Some [ERecord (failing_task 0)]"
  by code_simp

lemma script_final:
  assumes "r = script (execute_next calls) (exec_start calls) ms (NewExec config, [])"
    and "map_option snd r = Some ps"
  obtains s where "r = Some (s, ps)" and "exec_reachable config calls (s, mset ps)"
  using assms script_from_start [of "execute_next calls" "exec_start calls" ms "NewExec config"]
  by (cases r) auto

section \<open>Properties\<close>

text \<open>C3: parallelism is bounded on every level, for any number of concurrent \<open>Execute\<close> calls, any
  cancellations and any hot reconfiguration: a call runs at most its per-request number of tasks
  at once and a class at most its worker pool. A source's limiter counts exactly the tasks that
  hold a permit of it, and these are never more than the largest limit the source has been given,
  by the configuration or by a policy (without a policy: never more than the configured number per
  source). Whatever the limit has become, a goroutine gets a permit only while fewer permits
  than the current limit are in use.\<close>

theorem execute_permits:
  assumes "exec_reachable config calls (s, ts)"
  shows "int (count_if (holds_local k) ts) \<le> local_cap (calls k)
       \<and> int (count_if (holds_class c) ts) \<le> class_cap (normalizeSched config) c
       \<and> limiter_in_use s x = int (count_if (holds_limiter x) ts)
       \<and> gate_waiting s x = int (count_if (waits_limiter x) ts)
       \<and> (limits_within config ts x b \<longrightarrow> int (count_if (holds_limiter x) ts) \<le> b)
       \<and> (\<forall>p\<in>#ts. \<forall>(s', p')\<in>set (execute_next calls s p). \<not> holds_limiter x p \<and> holds_limiter x p' \<longrightarrow>
            limiter_in_use s x < source_limit s x \<and> limiter_in_use s' x \<le> source_limit s' x)"
proof -
  from assms have "exec_wf config calls (s, ts)" by (rule execution.reachable_inv)
  then have "ex_local s k = int (count_if (holds_local k) ts) \<and> ex_local s k \<le> local_cap (calls k)"
    "sg_classInUse (ex_reg s) c = int (count_if (holds_class c) ts)
       \<and> sg_classInUse (ex_reg s) c \<le> class_cap (normalizeSched config) c"
    "limiter_in_use s x = int (count_if (holds_limiter x) ts)
       \<and> gate_waiting s x = int (count_if (waits_limiter x) ts)"
    "limits_within config ts x b \<longrightarrow> limiter_in_use s x \<le> b"
    unfolding exec_wf_def by blast+
  moreover have "\<forall>p\<in>#ts. \<forall>(s', p')\<in>set (execute_next calls s p). \<not> holds_limiter x p \<and> holds_limiter x p' \<longrightarrow>
            limiter_in_use s x < source_limit s x \<and> limiter_in_use s' x \<le> source_limit s' x"
    using execute_next_acquires_below_limit by blast
  ultimately show ?thesis by simp
qed

text \<open>With one permit per source, the running task of \<open>two_running\<close> is the only one.\<close>

theorem execute_permits_witness:
  "\<exists>s. two_running = Some (s, [ERecord (failing_task 0)]) \<and> limiter_in_use s ''plugin:x'' = 1
     \<and> (1::int) \<le> local_cap (probe_calls 0) \<and> limiter_in_use s ''plugin:x'' \<le> 1"
proof -
  obtain s where s: "two_running = Some (s, [ERecord (failing_task 0)])"
    and r: "exec_reachable probe_config probe_calls (s, mset [ERecord (failing_task 0)])"
    by (rule script_final [OF two_running_def two_running_facts])
  have "limits_within probe_config (mset [ERecord (failing_task 0)]) ''plugin:x'' 1"
    by (simp add: limits_within_def) code_simp
  with execute_permits [OF r, of 0 ClassPlugin "''plugin:x''" 1]
  have "limiter_in_use s ''plugin:x'' = 1" "(1::int) \<le> local_cap (probe_calls 0)" "limiter_in_use s ''plugin:x'' \<le> 1"
    by (simp_all add: failing_task_def)
  with s show ?thesis by blast
qed

text \<open>C23: every goroutine of a call delivers at most one result, so a buffer of one place per task is
  never full: while a goroutine is about to send, fewer results than goroutines of its call have
  been sent. Giving back a permit never blocks, and when all task goroutines are done no permit is left in
  use, whatever the collecting and reconfiguring goroutines have done.\<close>

theorem execute_results_and_release:
  assumes "exec_reachable config calls (s, ts)"
  shows "length (ex_results s k) + length (ex_collected s k) \<le> count_if (goroutine_of k) ts
       \<and> (\<forall>p\<in>#ts. goroutine_of k p \<and> \<not> has_sent k p \<longrightarrow>
            length (ex_results s k) + length (ex_collected s k) < count_if (goroutine_of k) ts)
       \<and> (\<forall>p\<in>#ts. (\<exists>t b. p = EReleaseClass t b \<or> p = EReleaseLocal t b) \<longrightarrow> execute_next calls s p \<noteq> [])
       \<and> ((\<forall>p\<in>#ts. task_of p \<noteq> None \<longrightarrow> (\<exists>t b. p = EDone t b)) \<longrightarrow>
            ex_local s k = 0 \<and> sg_classInUse (ex_reg s) c = 0 \<and> limiter_in_use s x = 0)"
proof -
  from assms have wf: "exec_wf config calls (s, ts)" by (rule execution.reachable_inv)
  then have loc: "ex_local s k' = int (count_if (holds_local k') ts)"
    and cls: "sg_classInUse (ex_reg s) c' = int (count_if (holds_class c') ts)"
    and lim: "limiter_in_use s x = int (count_if (holds_limiter x) ts)"
    and res: "length (ex_results s k) + length (ex_collected s k) = count_if (has_sent k) ts" for k' c'
    unfolding exec_wf_def by blast+
  have "count_if (has_sent k) ts \<le> count_if (goroutine_of k) ts"
    by (rule count_if_mono) (rule has_sent_goroutine)
  moreover have "count_if (has_sent k) ts < count_if (goroutine_of k) ts"
    if "p \<in># ts" "goroutine_of k p" "\<not> has_sent k p" for p
    using that has_sent_goroutine by (rule count_if_strict)
  moreover have "execute_next calls s p \<noteq> []"
    if "p \<in># ts" "p = EReleaseClass t b \<or> p = EReleaseLocal t b" for p t b
    using that loc [of "et_call t"] cls [of "et_class t"] count_if_pos [of p ts "holds_local (et_call t)"]
      count_if_pos [of p ts "holds_class (et_class t)"]
    by (auto simp: release_chan_def)
  moreover have "ex_local s k = 0 \<and> sg_classInUse (ex_reg s) c = 0 \<and> limiter_in_use s x = 0"
    if "\<forall>p\<in>#ts. task_of p \<noteq> None \<longrightarrow> (\<exists>t b. p = EDone t b)"
    unfolding loc cls lim using that holders_have_task by (fastforce intro!: count_if_zero)
  ultimately show ?thesis unfolding res by blast
qed

theorem execute_results_and_release_witness:
  "\<exists>s. collected_end = Some (s, [EDone (failing_task 0) True, EDone (failing_task 1) False,
             ECollected 0, EConfigured ''plugin:x'' collected_policy])
     \<and> length (ex_collected s 0) = 1
     \<and> ex_local s 0 = 0 \<and> sg_classInUse (ex_reg s) ClassPlugin = 0 \<and> limiter_in_use s ''plugin:x'' = 0"
proof -
  let ?ps = "[EDone (failing_task 0) True, EDone (failing_task 1) False,
             ECollected 0, EConfigured ''plugin:x'' collected_policy]"
  obtain s where s: "collected_end = Some (s, ?ps)"
    and r: "exec_reachable probe_config probe_calls (s, mset ?ps)"
    by (rule script_final [OF collected_end_def collected_end_facts(1)])
  have "length (ex_collected s 0) = 1" using collected_end_facts(2) unfolding s by simp
  moreover from execute_results_and_release [OF r, of 0 ClassPlugin "''plugin:x''"]
  have "ex_local s 0 = 0 \<and> sg_classInUse (ex_reg s) ClassPlugin = 0 \<and> limiter_in_use s ''plugin:x'' = 0"
    by auto
  ultimately show ?thesis using s by blast
qed

text \<open>a half-open probe can be lost. There is a reachable state in which every goroutine is done
  and no limiter permit is in use, yet the gate of the source refuses every later attempt: the
  goroutine that \<open>allow\<close> had made the probe ended at the limiter without \<open>record\<close>, so \<open>halfOpen\<close>
  stays set and nothing clears it.\<close>

theorem execute_probe_can_be_lost:
  "\<exists>s. exec_reachable probe_config probe_calls
         (s, {#EDone (failing_task 0) True, EDone (failing_task 1) False#})
     \<and> limiter_in_use s ''plugin:x'' = 0
     \<and> (\<forall>now. gate_allow now (get_gate s ''plugin:x'') = None)"
proof -
  obtain s where s: "probe_end = Some (s, [EDone (failing_task 0) True, EDone (failing_task 1) False])"
    and r: "exec_reachable probe_config probe_calls
              (s, mset [EDone (failing_task 0) True, EDone (failing_task 1) False])"
    by (rule script_final [OF probe_end_def probe_end_facts(1)])
  have gate: "g_halfOpen (get_gate s ''plugin:x'')" "g_breakUntil (get_gate s ''plugin:x'') = 11"
    using probe_end_facts(2,3) unfolding s by simp_all
  then have "gate_allow now (get_gate s ''plugin:x'') = None" for now
    by (simp add: gate_allow_def is_zero_time_def)
  moreover have "limiter_in_use s ''plugin:x'' = 0"
    using execution.reachable_inv [OF r] by (simp add: exec_wf_def)
  ultimately show ?thesis using r by auto
qed

end
