(* ===== verification/Tg_Channel.thy ===== *)
theory Tg_Channel
  imports Go_Prelude
begin

text \<open>
  Canonical Telegram channel keys, \<^verbatim>\<open>src/tgchannel/channel.go\<close>: \<open>Normalize\<close> turns a
  channel name or a \<open>t.me\<close> URL into its lower-case key or an error, \<open>NormalizeList\<close> does so for
  a list and drops repetitions. The regular expression \<open>^[a-z][a-z0-9_]{4,31}$\<close> is the
  predicate \<open>publicChannelPattern\<close>.
\<close>

section \<open>Model\<close>

datatype channel_error = ChannelEmpty | InvalidChannel string

definition is_channel_start :: "char \<Rightarrow> bool" where
  "is_channel_start c \<longleftrightarrow> 97 \<le> (of_char c :: nat) \<and> (of_char c :: nat) \<le> 122"

definition is_channel_byte :: "char \<Rightarrow> bool" where
  "is_channel_byte c \<longleftrightarrow>
     is_channel_start c \<or> (48 \<le> (of_char c :: nat) \<and> (of_char c :: nat) \<le> 57) \<or> c = CHR ''_''"

fun publicChannelPattern :: "string \<Rightarrow> bool" where
  "publicChannelPattern [] = False"
| "publicChannelPattern (c # cs) \<longleftrightarrow>
     is_channel_start c \<and> list_all is_channel_byte cs \<and> 4 \<le> length cs \<and> length cs \<le> 31"

definition channel_url_prefixes :: "string list" where
  "channel_url_prefixes =
     [''https://www.t.me/'', ''http://www.t.me/'',
      ''https://t.me/'', ''http://t.me/'',
      ''https://www.telegram.me/'', ''http://www.telegram.me/'',
      ''https://telegram.me/'', ''http://telegram.me/'',
      ''www.t.me/'', ''t.me/'', ''www.telegram.me/'', ''telegram.me/'']"

text \<open>The prefix loop: the first prefix the lower-cased text has is cut off the text.\<close>

fun cut_url_prefix :: "string list \<Rightarrow> string \<Rightarrow> string" where
  "cut_url_prefix [] channel = channel"
| "cut_url_prefix (p # ps) channel =
     (if has_prefix (to_lower channel) p then drop (length p) channel else cut_url_prefix ps channel)"

definition Normalize :: "string \<Rightarrow> channel_error + string" where
  "Normalize value =
     (let raw = trim_space value
      in if raw = [] then Inl ChannelEmpty
         else
           let withoutQuery = before_byte (CHR ''#'') (before_byte (CHR ''?'') raw);
               channel = trim_space withoutQuery;
               channel = cut_url_prefix channel_url_prefixes channel;
               channel = trim_space (trim_runes [''/''] channel);
               channel = (if has_prefix (to_lower channel) ''s/'' then drop 2 channel else channel);
               channel = trim_prefix channel ''@'';
               channel = before_byte (CHR ''/'') channel;
               channel = fold_key channel
           in if publicChannelPattern channel then Inr channel else Inl (InvalidChannel value))"

text \<open>\<open>NormalizeList\<close> keeps \<open>nil\<close> and the empty list apart.\<close>

definition NormalizeList :: "string list option \<Rightarrow> channel_error + string list option" where
  "NormalizeList values =
     (case values of
        None \<Rightarrow> Inr None
      | Some vs \<Rightarrow>
          (case canon_list Normalize [] vs of Inl e \<Rightarrow> Inl e | Inr cs \<Rightarrow> Inr (Some cs)))"

section \<open>Canonical keys are fixed points\<close>

lemma channel_start_byte: "is_channel_start c \<Longrightarrow> is_channel_byte c"
  by (simp add: is_channel_byte_def)

lemma pattern_bytes: "publicChannelPattern s \<Longrightarrow> c \<in> set s \<Longrightarrow> is_channel_byte c"
  by (cases s) (auto simp: list_all_iff channel_start_byte)

lemma pattern_nonempty: "publicChannelPattern s \<Longrightarrow> s \<noteq> []"
  by auto

lemma pattern_length: "publicChannelPattern s \<Longrightarrow> 5 \<le> length s \<and> length s \<le> 32"
  by (cases s) auto

lemma channel_byte_not_space:
  assumes "is_channel_byte c"
  shows "c \<notin> set space_bytes"
proof -
  have "\<forall>b\<in>set space_bytes. \<not> is_channel_byte b" by code_simp
  with assms show ?thesis by blast
qed

lemma channel_byte_lower: "is_channel_byte c \<Longrightarrow> ascii_lower c = c"
  by (auto simp: is_channel_byte_def is_channel_start_def ascii_lower_def)

lemma channel_byte_special:
  "is_channel_byte c \<Longrightarrow> c \<noteq> CHR ''/'' \<and> c \<noteq> CHR ''?'' \<and> c \<noteq> CHR ''#'' \<and> c \<noteq> CHR ''@''"
  by (auto simp: is_channel_byte_def is_channel_start_def)

text \<open>A text without a slash, query, fragment or space passes every step of \<open>Normalize\<close> unchanged.\<close>

lemma cut_url_prefix_id:
  assumes "\<forall>p\<in>set ps. CHR ''/'' \<in> set p" and "CHR ''/'' \<notin> set (to_lower s)"
  shows "cut_url_prefix ps s = s"
  using assms by (induction ps) (auto simp: has_prefix_iff)

lemma before_byte_id: "c \<notin> set s \<Longrightarrow> before_byte c s = s"
  by (auto simp: before_byte_def)

lemma pattern_step_ids:
  assumes pat: "publicChannelPattern s"
  shows "trim_space s = s" and "to_lower s = s"
    and "before_byte (CHR ''?'') s = s" and "before_byte (CHR ''#'') s = s"
    and "before_byte (CHR ''/'') s = s" and "trim_runes [''/''] s = s"
    and "\<not> has_prefix s ''s/''" and "trim_prefix s ''@'' = s"
proof -
  note bytes = pattern_bytes [OF pat]
  show "trim_space s = s" by (rule trim_space_id) (auto dest: bytes channel_byte_not_space)
  show "to_lower s = s" by (rule to_lower_id) (auto dest: bytes channel_byte_lower)
  have special: "CHR ''/'' \<notin> set s" "CHR ''?'' \<notin> set s" "CHR ''#'' \<notin> set s" "CHR ''@'' \<notin> set s"
    by (auto dest!: bytes channel_byte_special)
  then show "before_byte (CHR ''?'') s = s" "before_byte (CHR ''#'') s = s"
    "before_byte (CHR ''/'') s = s" by (simp_all add: before_byte_id)
  show "trim_runes [''/''] s = s" by (rule trim_runes_id_disjoint) (use special in auto)
  show "\<not> has_prefix s ''s/''" using special by (auto simp: has_prefix_iff)
  show "trim_prefix s ''@'' = s" using special by (auto simp: trim_prefix_def has_prefix_iff)
qed

lemma url_prefixes_slash: "\<forall>p\<in>set channel_url_prefixes. CHR ''/'' \<in> set p"
  by (simp add: channel_url_prefixes_def)

lemma pattern_cut: "publicChannelPattern s \<Longrightarrow> cut_url_prefix channel_url_prefixes s = s"
  by (rule cut_url_prefix_id [OF url_prefixes_slash])
    (auto simp: pattern_step_ids dest!: pattern_bytes channel_byte_special)

lemma Normalize_pattern: "publicChannelPattern s \<Longrightarrow> Normalize s = Inr s"
  by (simp add: Normalize_def Let_def pattern_step_ids pattern_cut pattern_nonempty fold_key_def)

lemma Normalize_result: "Normalize v = Inr s \<Longrightarrow> publicChannelPattern s"
  by (auto simp: Normalize_def Let_def split: if_splits)

interpretation tg_key: canonical_key Normalize
  by unfold_locales (auto dest: Normalize_result Normalize_pattern)

section \<open>Properties\<close>

text \<open>a canonical channel key has 5 to 32 bytes, starts with a letter a-z, consists of a-z,
  0-9 and underscore, and normalising it again returns it unchanged.\<close>

theorem channel_normalize_canonical:
  assumes "Normalize value = Inr key"
  shows "Normalize key = Inr key \<and> 5 \<le> length key \<and> length key \<le> 32
       \<and> is_channel_start (hd key) \<and> (\<forall>c\<in>set key. is_channel_byte c)"
proof -
  have pat: "publicChannelPattern key" using assms by (rule Normalize_result)
  then have "is_channel_start (hd key)" by (cases key) auto
  with pat show ?thesis
    by (auto simp: Normalize_pattern dest: pattern_length pattern_bytes)
qed

theorem channel_normalize_canonical_witness:
  "Normalize '' https://T.me/s/Movie_Share/12?q=1 '' = Inr ''movie_share''
   \<and> Normalize ''movie_share'' = Inr ''movie_share''"
proof -
  have n: "Normalize '' https://T.me/s/Movie_Share/12?q=1 '' = Inr ''movie_share''" by code_simp
  from channel_normalize_canonical [OF n] n show ?thesis by simp
qed

text \<open>normalising a channel list either fails, exactly when some member is not a channel, or
  yields distinct canonical keys: those of the members, in the order of their first occurrence.
  The result is stable under normalising it again.\<close>

theorem channel_list_canonical:
  "(case NormalizeList (Some vs) of
      Inl _ \<Rightarrow> \<exists>v\<in>set vs. \<exists>e. Normalize v = Inl e
    | Inr None \<Rightarrow> False
    | Inr (Some cs) \<Rightarrow>
        distinct cs \<and> Inr ` set cs = Normalize ` set vs
        \<and> (\<exists>keys. map Normalize vs = map Inr keys \<and> cs = uniq_acc [] keys)
        \<and> NormalizeList (Some cs) = Inr (Some cs))"
proof (cases "canon_list Normalize [] vs")
  case (Inl e)
  then show ?thesis using tg_key.canon_list_error_iff [of "[]" vs] by (auto simp: NormalizeList_def)
next
  case (Inr cs)
  moreover from Inr obtain keys where "map Normalize vs = map Inr keys" "cs = uniq_acc [] keys"
    by (auto simp: tg_key.canon_list_eq)
  ultimately show ?thesis
    by (auto simp: NormalizeList_def tg_key.canon_list_idem tg_key.canon_list_distinct
        tg_key.canon_list_set)
qed

end
