(* ===== verification/Source_Config.thy ===== *)
theory Source_Config
  imports Tg_Channel "HOL-Library.Product_Lexorder"
begin

text \<open>
  Search source configuration: \<^verbatim>\<open>src/sourceconfig/types.go\<close> (catalogue, validation) and the
  read-only methods of a snapshot in \<^verbatim>\<open>src/sourceconfig/snapshot.go\<close> and
  \<^verbatim>\<open>src/sourceconfig/service.go\<close>.

  The plugin table is an association list whose order stands for one iteration order of the Go
  map. A plugin's own settings have an arbitrary type \<open>'v\<close>; \<open>origin\<close> stands for the parse of a
  \<open>base_url\<close> value by \<open>fmt.Sprint\<close> and \<open>net/url\<close>: the canonical \<open>scheme://host\<close> of an HTTPS origin
  without user information, or nothing.
\<close>

section \<open>Model: data\<close>

record Channel =
  ch_Key :: string
  ch_DisplayName :: string
  ch_Enabled :: bool
  ch_Order :: int
  ch_Tier :: string
  ch_MaxConcurrency :: int
  ch_TimeoutSeconds :: int

record 'v PluginConfig =
  pc_Enabled :: bool
  pc_Order :: int
  pc_Tier :: string
  pc_MaxConcurrency :: int
  pc_TimeoutSeconds :: int
  pc_CircuitFailures :: int
  pc_CircuitCooldownSeconds :: int
  pc_Config :: "(string \<times> 'v) list"

record 'v Config =
  cf_SchemaVersion :: int
  cf_AsyncPluginsEnabled :: bool
  cf_Channels :: "Channel list"
  cf_Plugins :: "(string \<times> 'v PluginConfig) list"

record PluginDescriptor =
  pd_Key :: string
  pd_DisplayName :: string
  pd_Description :: string
  pd_RequiresAccount :: bool
  pd_LoginType :: string
  pd_AllowedConfigKeys :: "string list"
  pd_BindingConfigKeys :: "string list"

type_synonym Catalog = "(string \<times> PluginDescriptor) list"

datatype config_error =
    EmptyPluginKey
  | DuplicatePlugin string
  | UnsupportedSchema int
  | BadChannel nat channel_error
  | BadChannelTier string
  | NegativeChannelLimit string
  | DuplicateChannel string
  | UnknownPlugin string
  | BadPluginTier string
  | NegativePluginLimit string
  | FieldNotAllowed string string
  | BadBaseUrl string

section \<open>Model: catalogue\<close>

definition uniqueStrings :: "string list \<Rightarrow> string list" where
  "uniqueStrings values = sort (uniq_acc [] (filter (\<lambda>v. v \<noteq> []) (map trim_space values)))"

fun NewCatalog_loop :: "Catalog \<Rightarrow> PluginDescriptor list \<Rightarrow> config_error + Catalog" where
  "NewCatalog_loop plugins [] = Inr plugins"
| "NewCatalog_loop plugins (d # ds) =
     (let key = fold_key (pd_Key d)
      in if key = [] then Inl EmptyPluginKey
         else if map_of plugins key \<noteq> None then Inl (DuplicatePlugin key)
         else NewCatalog_loop
                (AList.update key
                   (d\<lparr>pd_Key := key,
                      pd_AllowedConfigKeys := uniqueStrings (pd_AllowedConfigKeys d),
                      pd_BindingConfigKeys := uniqueStrings (pd_BindingConfigKeys d)\<rparr>) plugins) ds)"

definition NewCatalog :: "PluginDescriptor list \<Rightarrow> config_error + Catalog" where
  "NewCatalog descriptors = NewCatalog_loop [] descriptors"

definition CatalogPlugins :: "Catalog \<Rightarrow> PluginDescriptor list" where
  "CatalogPlugins c = sort_key pd_Key (map snd c)"

section \<open>Model: validation\<close>

text \<open>One pass over the channels; \<open>n\<close> is the one-based position used in the error.\<close>

fun validate_channels :: "nat \<Rightarrow> string list \<Rightarrow> Channel list \<Rightarrow> config_error + Channel list" where
  "validate_channels n seen [] = Inr []"
| "validate_channels n seen (c # cs) =
     (case Normalize (ch_Key c) of
        Inl e \<Rightarrow> Inl (BadChannel n e)
      | Inr key \<Rightarrow>
          let c = c\<lparr>ch_Key := key, ch_Tier := fold_key (ch_Tier c)\<rparr>
          in if ch_Tier c \<noteq> [] \<and> ch_Tier c \<noteq> ''realtime'' \<and> ch_Tier c \<noteq> ''collection''
             then Inl (BadChannelTier key)
             else if ch_MaxConcurrency c < 0 \<or> ch_TimeoutSeconds c < 0 then Inl (NegativeChannelLimit key)
             else if key \<in> set seen then Inl (DuplicateChannel key)
             else (case validate_channels (Suc n) (key # seen) cs of
                     Inl e \<Rightarrow> Inl e
                   | Inr cs' \<Rightarrow> Inr (c # cs')))"

fun validate_fields :: "('v \<Rightarrow> 'v option) \<Rightarrow> string \<Rightarrow> string list \<Rightarrow> (string \<times> 'v) list \<Rightarrow>
    config_error + (string \<times> 'v) list" where
  "validate_fields origin key allowed [] = Inr []"
| "validate_fields origin key allowed ((field, val) # fs) =
     (if field \<notin> set allowed then Inl (FieldNotAllowed key field)
      else (case (if field = ''base_url'' then origin val else Some val) of
              None \<Rightarrow> Inl (BadBaseUrl key)
            | Some val' \<Rightarrow>
                (case validate_fields origin key allowed fs of
                   Inl e \<Rightarrow> Inl e
                 | Inr fs' \<Rightarrow> Inr ((field, val') # fs'))))"

definition validate_plugin :: "('v \<Rightarrow> 'v option) \<Rightarrow> Catalog \<Rightarrow> string \<Rightarrow> 'v PluginConfig \<Rightarrow>
    config_error + string \<times> 'v PluginConfig" where
  "validate_plugin origin c rawKey settings =
     (let key = fold_key rawKey
      in case map_of c key of
           None \<Rightarrow> Inl (UnknownPlugin rawKey)
         | Some descriptor \<Rightarrow>
             let tier = fold_key (pc_Tier settings)
             in if tier \<noteq> [] \<and> tier \<noteq> ''primary'' \<and> tier \<noteq> ''secondary'' \<and> tier \<noteq> ''deep''
                then Inl (BadPluginTier key)
                else if pc_MaxConcurrency settings < 0 \<or> pc_TimeoutSeconds settings < 0
                        \<or> pc_CircuitFailures settings < 0 \<or> pc_CircuitCooldownSeconds settings < 0
                then Inl (NegativePluginLimit key)
                else (case validate_fields origin key (pd_AllowedConfigKeys descriptor) (pc_Config settings) of
                        Inl e \<Rightarrow> Inl e
                      | Inr fs \<Rightarrow> Inr (key, settings\<lparr>pc_Tier := tier, pc_Config := fs\<rparr>)))"

fun validate_plugins :: "('v \<Rightarrow> 'v option) \<Rightarrow> Catalog \<Rightarrow> (string \<times> 'v PluginConfig) list \<Rightarrow>
    (string \<times> 'v PluginConfig) list \<Rightarrow> config_error + (string \<times> 'v PluginConfig) list" where
  "validate_plugins origin c normalized [] = Inr normalized"
| "validate_plugins origin c normalized ((rawKey, settings) # ps) =
     (case validate_plugin origin c rawKey settings of
        Inl e \<Rightarrow> Inl e
      | Inr (key, settings') \<Rightarrow> validate_plugins origin c (AList.update key settings' normalized) ps)"

definition channel_rank :: "Channel \<Rightarrow> int \<times> string" where
  "channel_rank c = (ch_Order c, ch_Key c)"

definition Validate :: "('v \<Rightarrow> 'v option) \<Rightarrow> Catalog \<Rightarrow> 'v Config \<Rightarrow> config_error + 'v Config" where
  "Validate origin c config =
     (let version = (if cf_SchemaVersion config = 0 then 1 else cf_SchemaVersion config)
      in if version \<noteq> 1 then Inl (UnsupportedSchema version)
         else (case validate_channels 1 [] (cf_Channels config) of
                 Inl e \<Rightarrow> Inl e
               | Inr channels \<Rightarrow>
                   (case validate_plugins origin c [] (cf_Plugins config) of
                      Inl e \<Rightarrow> Inl e
                    | Inr plugins \<Rightarrow>
                        Inr (config\<lparr>cf_SchemaVersion := version, cf_Plugins := plugins,
                                    cf_Channels := sort_key channel_rank channels\<rparr>))))"

section \<open>Model: reading a snapshot\<close>

definition Channels :: "'v Config \<Rightarrow> string list" where
  "Channels config = map ch_Key (filter ch_Enabled (cf_Channels config))"

definition hasTiers :: "'v Config \<Rightarrow> bool" where
  "hasTiers config \<longleftrightarrow> (\<exists>c\<in>set (cf_Channels config). ch_Enabled c \<and> ch_Tier c \<noteq> [])"

fun realtime_loop :: "bool \<Rightarrow> string list \<Rightarrow> Channel list \<Rightarrow> string list" where
  "realtime_loop tiers result [] = result"
| "realtime_loop tiers result (c # cs) =
     (if \<not> ch_Enabled c then realtime_loop tiers result cs
      else if tiers
           then realtime_loop tiers (if ch_Tier c = ''realtime'' then result @ [ch_Key c] else result) cs
      else realtime_loop tiers (if length result < 30 then result @ [ch_Key c] else result) cs)"

definition RealtimeChannels :: "'v Config \<Rightarrow> string list" where
  "RealtimeChannels config = realtime_loop (hasTiers config) [] (cf_Channels config)"

definition plugin_tier :: "string \<Rightarrow> nat" where
  "plugin_tier tier = (if tier = ''secondary'' then 1 else if tier = ''deep'' then 2 else 0)"

definition plugin_rank :: "string \<times> 'v PluginConfig \<Rightarrow> nat \<times> int \<times> string" where
  "plugin_rank item = (plugin_tier (pc_Tier (snd item)), pc_Order (snd item), fst item)"

definition PluginNames :: "'v Config \<Rightarrow> string list" where
  "PluginNames config =
     (if \<not> cf_AsyncPluginsEnabled config then []
      else map fst (sort_key plugin_rank (filter (\<lambda>item. pc_Enabled (snd item)) (cf_Plugins config))))"

record configSummaryMap =
  cs_channels :: nat
  cs_plugins :: nat
  cs_plugin_master_enabled :: bool

definition configSummary :: "'v Config \<Rightarrow> configSummaryMap" where
  "configSummary config =
     \<lparr>cs_channels = length (filter ch_Enabled (cf_Channels config)),
      cs_plugins = length (filter (\<lambda>item. pc_Enabled (snd item)) (cf_Plugins config)),
      cs_plugin_master_enabled = cf_AsyncPluginsEnabled config\<rparr>"

section \<open>Well-formed configurations\<close>

text \<open>What validation relies on of the parser: a canonical origin parses to itself.\<close>

definition origin_law :: "('v \<Rightarrow> 'v option) \<Rightarrow> bool" where
  "origin_law origin \<longleftrightarrow> (\<forall>v w. origin v = Some w \<longrightarrow> origin w = Some w)"

lemma fold_key_tiers [simp]:
  "fold_key [] = []" "fold_key ''realtime'' = ''realtime''" "fold_key ''collection'' = ''collection''"
  "fold_key ''primary'' = ''primary''" "fold_key ''secondary'' = ''secondary''" "fold_key ''deep'' = ''deep''"
  by code_simp+

lemma normalize_fixed: "Normalize k = Inr key \<Longrightarrow> Normalize key = Inr key"
  by (rule tg_key.canon_fixed)

definition channel_ok :: "Channel \<Rightarrow> bool" where
  "channel_ok c \<longleftrightarrow>
     Normalize (ch_Key c) = Inr (ch_Key c)
   \<and> ch_Tier c \<in> {[], ''realtime'', ''collection''} \<and> 0 \<le> ch_MaxConcurrency c \<and> 0 \<le> ch_TimeoutSeconds c"

definition fields_ok :: "('v \<Rightarrow> 'v option) \<Rightarrow> string list \<Rightarrow> (string \<times> 'v) list \<Rightarrow> bool" where
  "fields_ok origin allowed fs \<longleftrightarrow>
     list_all (\<lambda>f. fst f \<in> set allowed \<and> (fst f = ''base_url'' \<longrightarrow> origin (snd f) = Some (snd f))) fs"

definition plugin_ok :: "('v \<Rightarrow> 'v option) \<Rightarrow> Catalog \<Rightarrow> string \<times> 'v PluginConfig \<Rightarrow> bool" where
  "plugin_ok origin c item \<longleftrightarrow> (case item of (key, settings) \<Rightarrow>
     fold_key key = key
   \<and> pc_Tier settings \<in> {[], ''primary'', ''secondary'', ''deep''}
   \<and> 0 \<le> pc_MaxConcurrency settings \<and> 0 \<le> pc_TimeoutSeconds settings
   \<and> 0 \<le> pc_CircuitFailures settings \<and> 0 \<le> pc_CircuitCooldownSeconds settings
   \<and> (case map_of c key of None \<Rightarrow> False
      | Some d \<Rightarrow> fields_ok origin (pd_AllowedConfigKeys d) (pc_Config settings)))"

definition config_ok :: "('v \<Rightarrow> 'v option) \<Rightarrow> Catalog \<Rightarrow> 'v Config \<Rightarrow> bool" where
  "config_ok origin c config \<longleftrightarrow>
     cf_SchemaVersion config = 1
   \<and> list_all channel_ok (cf_Channels config) \<and> distinct (map ch_Key (cf_Channels config))
   \<and> sorted (map channel_rank (cf_Channels config))
   \<and> list_all (plugin_ok origin c) (cf_Plugins config) \<and> distinct (map fst (cf_Plugins config))"

lemma validate_channels_ok:
  "validate_channels n seen cs = Inr cs' \<Longrightarrow>
   list_all channel_ok cs' \<and> distinct (map ch_Key cs') \<and> set (map ch_Key cs') \<inter> set seen = {}"
proof (induction cs arbitrary: n seen cs')
  case (Cons c cs)
  let ?key = "\<lambda>key. c\<lparr>ch_Key := key, ch_Tier := fold_key (ch_Tier c)\<rparr>"
  from Cons.prems obtain key rest where key: "Normalize (ch_Key c) = Inr key"
    and ok: "ch_Tier (?key key) \<in> {[], ''realtime'', ''collection''}" "0 \<le> ch_MaxConcurrency c"
      "0 \<le> ch_TimeoutSeconds c" "key \<notin> set seen"
    and rest: "validate_channels (Suc n) (key # seen) cs = Inr rest" and out: "cs' = ?key key # rest"
    by (auto simp: Let_def not_less split: sum.splits if_splits)
  from key have "Normalize key = Inr key" by (rule normalize_fixed)
  with ok have "channel_ok (?key key)" by (simp add: channel_ok_def)
  with Cons.IH [OF rest] ok show ?case by (auto simp: out)
qed simp

lemma validate_channels_fixed:
  "list_all channel_ok cs \<Longrightarrow> distinct (map ch_Key cs) \<Longrightarrow> set (map ch_Key cs) \<inter> set seen = {} \<Longrightarrow>
   validate_channels n seen cs = Inr cs"
  by (induction n seen cs rule: validate_channels.induct) (auto simp: channel_ok_def Let_def)

lemma validate_fields_ok:
  assumes "origin_law origin"
  shows "validate_fields origin key allowed fs = Inr fs' \<Longrightarrow> fields_ok origin allowed fs'"
proof (induction fs arbitrary: fs')
  case (Cons f fs)
  then show ?case using assms
    by (cases f) (auto simp: fields_ok_def origin_law_def split: sum.splits if_splits option.splits)
qed (simp add: fields_ok_def)

lemma validate_fields_fixed: "fields_ok origin allowed fs \<Longrightarrow> validate_fields origin key allowed fs = Inr fs"
  by (induction origin key allowed fs rule: validate_fields.induct) (auto simp: fields_ok_def)

lemma validate_plugin_ok:
  assumes "origin_law origin"
    and "validate_plugin origin c rawKey settings = Inr item"
  shows "plugin_ok origin c item"
  using assms(2)
  by (auto simp: validate_plugin_def Let_def plugin_ok_def dest: validate_fields_ok [OF assms(1)]
      split: option.splits sum.splits if_splits)

lemma validate_plugin_fixed:
  "plugin_ok origin c (key, settings) \<Longrightarrow> validate_plugin origin c key settings = Inr (key, settings)"
  by (auto simp: validate_plugin_def Let_def plugin_ok_def validate_fields_fixed split: option.splits)

lemma list_all_update:
  "list_all P al \<Longrightarrow> P (k, v) \<Longrightarrow> list_all P (AList.update k v al)"
  using set_alist_update [of k v al] by (auto simp: list_all_iff)

lemma validate_plugins_ok:
  assumes "origin_law origin"
    and "validate_plugins origin c acc ps = Inr out"
    and "list_all (plugin_ok origin c) acc" and "distinct (map fst acc)"
  shows "list_all (plugin_ok origin c) out \<and> distinct (map fst out)"
  using assms(2-)
proof (induction ps arbitrary: acc)
  case (Cons p ps)
  obtain k st where p: "p = (k, st)" by fastforce
  with Cons.prems(1) obtain k' st' where v: "validate_plugin origin c k st = Inr (k', st')"
    and rest: "validate_plugins origin c (AList.update k' st' acc) ps = Inr out"
    by (auto split: sum.splits)
  from v have "plugin_ok origin c (k', st')" by (rule validate_plugin_ok [OF assms(1)])
  with Cons.prems show ?case by (intro Cons.IH [OF rest]) (simp_all add: list_all_update distinct_update)
qed simp

lemma update_fresh: "k \<notin> fst ` set al \<Longrightarrow> AList.update k v al = al @ [(k, v)]"
  by (induction al) auto

lemma validate_plugins_fixed:
  "list_all (plugin_ok origin c) ps \<Longrightarrow> distinct (map fst (acc @ ps)) \<Longrightarrow>
   validate_plugins origin c acc ps = Inr (acc @ ps)"
  by (induction ps arbitrary: acc) (auto simp: validate_plugin_fixed update_fresh)

lemma validate_result_ok:
  assumes "origin_law origin" and "Validate origin c config = Inr out"
  shows "config_ok origin c out"
proof -
  from assms(2) obtain channels plugins where
    ch: "validate_channels 1 [] (cf_Channels config) = Inr channels"
    and pl: "validate_plugins origin c [] (cf_Plugins config) = Inr plugins"
    and out: "out = config\<lparr>cf_SchemaVersion := 1, cf_Plugins := plugins,
                cf_Channels := sort_key channel_rank channels\<rparr>"
    by (auto simp: Validate_def Let_def split: sum.splits if_splits)
  from ch have "list_all channel_ok channels" "distinct (map ch_Key channels)"
    using validate_channels_ok by blast+
  moreover from pl have "list_all (plugin_ok origin c) plugins \<and> distinct (map fst plugins)"
    by (rule validate_plugins_ok [OF assms(1)]) simp_all
  ultimately show ?thesis by (simp add: config_ok_def out list_all_iff distinct_map)
qed

lemma validate_ok_fixed: "config_ok origin c config \<Longrightarrow> Validate origin c config = Inr config"
  using validate_plugins_fixed [of origin c "cf_Plugins config" "[]"]
  by (simp add: Validate_def config_ok_def validate_channels_fixed sort_key_id_if_sorted)

lemma realtime_loop_tiers:
  "realtime_loop True result cs =
     result @ map ch_Key (filter (\<lambda>c. ch_Enabled c \<and> ch_Tier c = ''realtime'') cs)"
  by (induction cs arbitrary: result) auto

lemma realtime_loop_cold:
  "length result \<le> 30 \<Longrightarrow>
   realtime_loop False result cs = take 30 (result @ map ch_Key (filter ch_Enabled cs))"
  by (induction cs arbitrary: result) (auto simp: take_Cons' Suc_diff_Suc numeral_eq_Suc)

section \<open>Properties\<close>

text \<open>validation is canonical. Given that a canonical HTTPS origin parses to itself, an accepted
  configuration has schema version 1, canonical distinct channel keys in display order, known
  plugins with valid tiers, limits and fields; and validating it again returns it unchanged.\<close>

theorem validate_canonical:
  assumes "origin_law origin" and "Validate origin c config = Inr out"
  shows "config_ok origin c out \<and> Validate origin c out = Inr out"
  using validate_result_ok [OF assms] validate_ok_fixed by blast

text \<open>A catalogue with one plugin, and a parser of origins that accepts one prefix.\<close>

definition demo_catalog :: Catalog where
  "demo_catalog = [(''gying'', \<lparr>pd_Key = ''gying'', pd_DisplayName = ''G'', pd_Description = [],
     pd_RequiresAccount = True, pd_LoginType = ''password'', pd_AllowedConfigKeys = [''base_url''],
     pd_BindingConfigKeys = [''base_url'']\<rparr>)]"

definition demo_origin :: "string \<Rightarrow> string option" where
  "demo_origin v = (if has_prefix v ''https://g'' then Some ''https://g'' else None)"

definition demo_config :: "string Config" where
  "demo_config = \<lparr>cf_SchemaVersion = 0, cf_AsyncPluginsEnabled = True,
     cf_Channels = [\<lparr>ch_Key = ''https://t.me/Movies'', ch_DisplayName = [], ch_Enabled = True, ch_Order = 2,
                     ch_Tier = '' Realtime'', ch_MaxConcurrency = 0, ch_TimeoutSeconds = 0\<rparr>],
     cf_Plugins = [('' GYING'', \<lparr>pc_Enabled = True, pc_Order = 1, pc_Tier = ''Deep'', pc_MaxConcurrency = 1,
        pc_TimeoutSeconds = 0, pc_CircuitFailures = 0, pc_CircuitCooldownSeconds = 0,
        pc_Config = [(''base_url'', ''https://g/path'')]\<rparr>)]\<rparr>"

definition demo_validated :: "string Config" where
  "demo_validated = \<lparr>cf_SchemaVersion = 1, cf_AsyncPluginsEnabled = True,
     cf_Channels = [\<lparr>ch_Key = ''movies'', ch_DisplayName = [], ch_Enabled = True, ch_Order = 2,
                     ch_Tier = ''realtime'', ch_MaxConcurrency = 0, ch_TimeoutSeconds = 0\<rparr>],
     cf_Plugins = [(''gying'', \<lparr>pc_Enabled = True, pc_Order = 1, pc_Tier = ''deep'', pc_MaxConcurrency = 1,
        pc_TimeoutSeconds = 0, pc_CircuitFailures = 0, pc_CircuitCooldownSeconds = 0,
        pc_Config = [(''base_url'', ''https://g'')]\<rparr>)]\<rparr>"

theorem validate_canonical_witness:
  "Validate demo_origin demo_catalog demo_config = Inr demo_validated
   \<and> Validate demo_origin demo_catalog demo_validated = Inr demo_validated"
proof -
  have law: "origin_law demo_origin"
    by (auto simp: origin_law_def demo_origin_def has_prefix_def split: if_splits)
  have ok: "Validate demo_origin demo_catalog demo_config = Inr demo_validated" by code_simp
  from validate_canonical [OF law ok] ok show ?thesis by blast
qed

text \<open>the channels of an interactive search are enabled channels in display order: those marked
  realtime when any enabled channel has a tier, and otherwise the first thirty.\<close>

theorem realtime_channels_selection:
  "RealtimeChannels config =
     (if hasTiers config
      then map ch_Key (filter (\<lambda>c. ch_Enabled c \<and> ch_Tier c = ''realtime'') (cf_Channels config))
      else take 30 (Channels config))"
  using realtime_loop_tiers [of "[]"] realtime_loop_cold [of "[]"]
  by (simp add: RealtimeChannels_def Channels_def)

text \<open>the plugin order of a snapshot does not depend on the iteration order of the plugin map:
  every order of the same table gives the same names, without repetition, sorted by tier, then
  order, then name.\<close>

theorem plugin_names_deterministic:
  assumes "distinct (map fst ps)" and "mset qs = mset ps"
  shows "PluginNames (config\<lparr>cf_Plugins := qs\<rparr>) = PluginNames (config\<lparr>cf_Plugins := ps\<rparr>)
       \<and> distinct (PluginNames (config\<lparr>cf_Plugins := ps\<rparr>))"
proof -
  let ?on = "\<lambda>item. pc_Enabled (snd item)"
  have d: "distinct (map fst (filter ?on ps))" using assms(1) by (simp add: distinct_map_filter)
  have inj: "inj_on plugin_rank (set (filter ?on ps))"
  proof (rule inj_onI)
    fix x y assume xy: "x \<in> set (filter ?on ps)" "y \<in> set (filter ?on ps)" "plugin_rank x = plugin_rank y"
    then have "fst x = fst y" by (simp add: plugin_rank_def)
    moreover have "inj_on fst (set (filter ?on ps))" using d by (simp add: distinct_map)
    ultimately show "x = y" using xy(1,2) by (blast dest: inj_onD)
  qed
  have m: "mset (filter ?on qs) = mset (filter ?on ps)" using assms(2) by simp
  then have "set (filter ?on qs) = set (filter ?on ps)" by (rule mset_eq_setD)
  with inj m have "sort_key plugin_rank (filter ?on qs) = sort_key plugin_rank (filter ?on ps)"
    by (intro sort_key_inj_key_eq) (simp_all del: set_filter)
  moreover have "distinct (map fst (sort_key plugin_rank (filter ?on ps)))"
    using d by (simp add: distinct_map)
  ultimately show ?thesis by (simp add: PluginNames_def)
qed

theorem plugin_names_deterministic_witness:
  "let p = (\<lambda>t n. \<lparr>pc_Enabled = True, pc_Order = n, pc_Tier = t, pc_MaxConcurrency = 0, pc_TimeoutSeconds = 0,
        pc_CircuitFailures = 0, pc_CircuitCooldownSeconds = 0, pc_Config = []\<rparr>);
       ps = [(''b'', p ''deep'' 1), (''a'', p ''primary'' 2)]
   in PluginNames (demo_config\<lparr>cf_Plugins := rev ps\<rparr>) = [''a'', ''b'']
    \<and> PluginNames (demo_config\<lparr>cf_Plugins := rev ps\<rparr>) = PluginNames (demo_config\<lparr>cf_Plugins := ps\<rparr>)"
proof -
  let ?p = "\<lambda>t n. \<lparr>pc_Enabled = True, pc_Order = n, pc_Tier = t, pc_MaxConcurrency = 0, pc_TimeoutSeconds = 0,
        pc_CircuitFailures = 0, pc_CircuitCooldownSeconds = 0, pc_Config = []\<rparr> :: string PluginConfig"
  let ?ps = "[(''b'', ?p ''deep'' 1), (''a'', ?p ''primary'' 2)]"
  have "PluginNames (demo_config\<lparr>cf_Plugins := rev ?ps\<rparr>) = [''a'', ''b'']" by code_simp
  moreover have "PluginNames (demo_config\<lparr>cf_Plugins := rev ?ps\<rparr>) = PluginNames (demo_config\<lparr>cf_Plugins := ?ps\<rparr>)"
    using plugin_names_deterministic [of ?ps "rev ?ps" demo_config] by simp
  ultimately show ?thesis by (simp only: Let_def)
qed

text \<open>two spellings of one plugin key are not rejected, and the surviving settings depend on the
  iteration order of the map: the same table, iterated in its two orders, validates to two
  different configurations.\<close>

theorem validate_plugin_collision:
  "\<exists>(ps :: (string \<times> string PluginConfig) list) out1 out2.
     distinct (map fst ps)
   \<and> Validate demo_origin demo_catalog (demo_config\<lparr>cf_Plugins := ps\<rparr>) = Inr out1
   \<and> Validate demo_origin demo_catalog (demo_config\<lparr>cf_Plugins := rev ps\<rparr>) = Inr out2
   \<and> map_of (cf_Plugins out1) ''gying'' \<noteq> map_of (cf_Plugins out2) ''gying''"
proof -
  let ?p = "\<lambda>b. \<lparr>pc_Enabled = b, pc_Order = 1, pc_Tier = [], pc_MaxConcurrency = 0, pc_TimeoutSeconds = 0,
        pc_CircuitFailures = 0, pc_CircuitCooldownSeconds = 0, pc_Config = []\<rparr> :: string PluginConfig"
  let ?ps = "[(''gying'', ?p True), (''Gying'', ?p False)]"
  let ?v = "\<lambda>ps. Validate demo_origin demo_catalog (demo_config\<lparr>cf_Plugins := ps\<rparr>)"
  have "?v ?ps = Inr (demo_validated\<lparr>cf_Plugins := [(''gying'', ?p False)]\<rparr>)"
    "?v (rev ?ps) = Inr (demo_validated\<lparr>cf_Plugins := [(''gying'', ?p True)]\<rparr>)" by code_simp+
  then show ?thesis
    by (intro exI [of _ ?ps] exI [of _ "demo_validated\<lparr>cf_Plugins := [(''gying'', ?p False)]\<rparr>"]
        exI [of _ "demo_validated\<lparr>cf_Plugins := [(''gying'', ?p True)]\<rparr>"]) simp
qed

end
