(* ===== verification/Snapshot_Manager.thy ===== *)
theory Snapshot_Manager
  imports Interleaving
begin

text \<open>
  Lifetime of search source snapshots: \<open>Manager\<close> and \<open>Lease\<close> of
  \<^verbatim>\<open>src/sourceconfig/snapshot.go\<close>, a reference-counting protocol without a lock between readers
  and the publisher. Snapshots are numbered in the order they are built; number \<open>0\<close> is the initial
  one. A step is one atomic access. Closing a snapshot closes its plugins and its \<open>done\<close> channel;
  closing a Go channel twice panics, so the number of closes is part of the state.
\<close>

section \<open>Model\<close>

record manager =
  mg_current :: "nat option"
  mg_closed :: bool
  mg_next :: nat
  mg_refs :: "nat \<Rightarrow> int"
  mg_retired :: "nat \<Rightarrow> bool"
  mg_snapClosed :: "nat \<Rightarrow> bool"
  mg_done :: "nat \<Rightarrow> nat"

text \<open>What a goroutine does after \<open>close\<close> returns.\<close>

datatype close_cont = ThenEnd | ThenRetry | ThenAwait nat

datatype manager_pc =
    MAcquire
  | MLoad
  | MInc nat
  | MCheck nat
  | MUndo nat
  | MLease nat
  | MTestRetired nat close_cont
  | MClose nat close_cont
  | MCloseDone nat close_cont
  | MBuild
  | MPublish nat
  | MSwap nat
  | MRetire nat close_cont
  | MRetireTest nat close_cont
  | MShutdown
  | MSwapNil
  | MAwait nat
  | MEnd

definition continue_at :: "close_cont \<Rightarrow> manager_pc" where
  "continue_at k = (case k of ThenEnd \<Rightarrow> MEnd | ThenRetry \<Rightarrow> MLoad | ThenAwait i \<Rightarrow> MAwait i)"

definition retire_old :: "nat option \<Rightarrow> (nat \<Rightarrow> close_cont) \<Rightarrow> manager_pc" where
  "retire_old old k = (case old of None \<Rightarrow> MEnd | Some i \<Rightarrow> MRetire i (k i))"

text \<open>\<open>refs.Add(-1)\<close> and the test of its result.\<close>

definition drop_ref :: "nat \<Rightarrow> close_cont \<Rightarrow> manager \<Rightarrow> manager \<times> manager_pc" where
  "drop_ref i k s =
     (let n = mg_refs s i - 1
      in (s\<lparr>mg_refs := (mg_refs s)(i := n)\<rparr>, if n = 0 then MTestRetired i k else continue_at k))"

fun manager_next :: "manager \<Rightarrow> manager_pc \<Rightarrow> (manager \<times> manager_pc) list" where
  "manager_next s MAcquire = [(s, if mg_closed s then MEnd else MLoad)]"
| "manager_next s MLoad = [(s, case mg_current s of None \<Rightarrow> MEnd | Some i \<Rightarrow> MInc i)]"
| "manager_next s (MInc i) = [(s\<lparr>mg_refs := (mg_refs s)(i := mg_refs s i + 1)\<rparr>, MCheck i)]"
| "manager_next s (MCheck i) = [(s, if mg_snapClosed s i then MUndo i else MLease i)]"
| "manager_next s (MUndo i) = [drop_ref i ThenRetry s]"
| "manager_next s (MLease i) = [drop_ref i ThenEnd s]"
| "manager_next s (MTestRetired i k) = [(s, if mg_retired s i then MClose i k else continue_at k)]"
| "manager_next s (MClose i k) =
     [if mg_snapClosed s i then (s, continue_at k)
      else (s\<lparr>mg_snapClosed := (mg_snapClosed s)(i := True)\<rparr>, MCloseDone i k)]"
| "manager_next s (MCloseDone i k) =
     [(s\<lparr>mg_done := (mg_done s)(i := Suc (mg_done s i))\<rparr>, continue_at k)]"
| "manager_next s MBuild =
     (if mg_closed s then [(s, MEnd)]
      else [(s\<lparr>mg_next := Suc (mg_next s)\<rparr>, MPublish (mg_next s)), (s, MEnd)])"
| "manager_next s (MPublish i) = [(s, if mg_closed s then MClose i ThenEnd else MSwap i)]"
| "manager_next s (MSwap i) =
     [(s\<lparr>mg_current := Some i\<rparr>, retire_old (mg_current s) (\<lambda>_. ThenEnd))]"
| "manager_next s (MRetire i k) = [(s\<lparr>mg_retired := (mg_retired s)(i := True)\<rparr>, MRetireTest i k)]"
| "manager_next s (MRetireTest i k) = [(s, if mg_refs s i = 0 then MClose i k else continue_at k)]"
| "manager_next s MShutdown =
     [if mg_closed s then (s, MEnd) else (s\<lparr>mg_closed := True\<rparr>, MSwapNil)]"
| "manager_next s MSwapNil = [(s\<lparr>mg_current := None\<rparr>, retire_old (mg_current s) ThenAwait)]"
| "manager_next s (MAwait i) = [(s, MEnd)]"
| "manager_next s MEnd = []"

text \<open>\<open>MBuild\<close> is \<open>BuildCandidate\<close>, whose builder may fail. \<open>MAwait\<close> waits for \<open>done\<close> or for its context, so it may always go on; both end the call.\<close>

definition manager_start :: "manager_pc \<Rightarrow> bool" where
  "manager_start p \<longleftrightarrow> p = MAcquire \<or> p = MBuild \<or> p = MShutdown"

definition NewManager :: manager where
  "NewManager =
     \<lparr>mg_current = Some 0, mg_closed = False, mg_next = 1, mg_refs = (\<lambda>_. 0), mg_retired = (\<lambda>_. False),
      mg_snapClosed = (\<lambda>_. False), mg_done = (\<lambda>_. 0)\<rparr>"

abbreviation manager_reachable :: "(manager, manager_pc) system \<Rightarrow> bool" where
  "manager_reachable \<equiv> interleaved_reachable NewManager manager_next manager_start"

section \<open>Roles of a goroutine\<close>

fun counts_ref :: "nat \<Rightarrow> manager_pc \<Rightarrow> bool" where
  "counts_ref i (MCheck j) = (j = i)"
| "counts_ref i (MUndo j) = (j = i)"
| "counts_ref i (MLease j) = (j = i)"
| "counts_ref i _ = False"

fun will_close_done :: "nat \<Rightarrow> manager_pc \<Rightarrow> bool" where
  "will_close_done i (MCloseDone j k) = (j = i)"
| "will_close_done i _ = False"

text \<open>A goroutine that is committed to look at the snapshot again after it was retired.\<close>

fun pending_close :: "nat \<Rightarrow> manager_pc \<Rightarrow> bool" where
  "pending_close i (MTestRetired j k) = (j = i)"
| "pending_close i (MRetireTest j k) = (j = i)"
| "pending_close i (MClose j k) = (j = i)"
| "pending_close i _ = False"

fun closing :: "nat \<Rightarrow> manager_pc \<Rightarrow> bool" where
  "closing i (MClose j k) = (j = i)"
| "closing i _ = False"

fun testing_retired :: "nat \<Rightarrow> manager_pc \<Rightarrow> bool" where
  "testing_retired i (MRetireTest j k) = (j = i)"
| "testing_retired i _ = False"

fun before_publish :: "nat \<Rightarrow> manager_pc \<Rightarrow> bool" where
  "before_publish i (MPublish j) = (j = i)"
| "before_publish i (MSwap j) = (j = i)"
| "before_publish i _ = False"

fun before_retire :: "nat \<Rightarrow> manager_pc \<Rightarrow> bool" where
  "before_retire i (MRetire j k) = (j = i)"
| "before_retire i _ = False"

fun heading_for :: "nat \<Rightarrow> manager_pc \<Rightarrow> bool" where
  "heading_for i (MInc j) = (j = i)"
| "heading_for i _ = False"

text \<open>A snapshot is live while it waits to be published or is current.\<close>

definition live_tokens :: "manager \<Rightarrow> manager_pc multiset \<Rightarrow> nat \<Rightarrow> nat" where
  "live_tokens s ts i = count_if (before_publish i) ts + of_bool (mg_current s = Some i)"

text \<open>The invariant of one snapshot: the reference count is exact; \<open>done\<close> is closed once, by the
  goroutine that won the compare-and-swap; a retired snapshot that is still open has a reader or a
  goroutine that will look at it; a snapshot is owned by at most one of publisher, manager and
  retirer; only a dead snapshot is retired or closed; none that was built is forgotten, and numbers
  not yet used are untouched.\<close>

definition refs_exact :: "nat \<Rightarrow> manager \<Rightarrow> manager_pc multiset \<Rightarrow> bool" where
  "refs_exact i s ts \<longleftrightarrow> mg_refs s i = int (count_if (counts_ref i) ts)"

definition done_once :: "nat \<Rightarrow> manager \<Rightarrow> manager_pc multiset \<Rightarrow> bool" where
  "done_once i s ts \<longleftrightarrow> mg_done s i + count_if (will_close_done i) ts = (if mg_snapClosed s i then 1 else 0)"

definition reclaim_pending :: "nat \<Rightarrow> manager \<Rightarrow> manager_pc multiset \<Rightarrow> bool" where
  "reclaim_pending i s ts \<longleftrightarrow>
     (mg_retired s i \<and> \<not> mg_snapClosed s i \<longrightarrow> 0 < mg_refs s i \<or> 0 < count_if (pending_close i) ts)"

definition one_owner :: "nat \<Rightarrow> manager \<Rightarrow> manager_pc multiset \<Rightarrow> bool" where
  "one_owner i s ts \<longleftrightarrow> live_tokens s ts i + count_if (before_retire i) ts \<le> 1"

definition retired_marked :: "nat \<Rightarrow> manager \<Rightarrow> manager_pc multiset \<Rightarrow> bool" where
  "retired_marked i s ts \<longleftrightarrow> (0 < count_if (testing_retired i) ts \<longrightarrow> mg_retired s i)"

definition dead_only :: "nat \<Rightarrow> manager \<Rightarrow> manager_pc multiset \<Rightarrow> bool" where
  "dead_only i s ts \<longleftrightarrow>
     (mg_retired s i \<or> mg_snapClosed s i \<or> 0 < count_if (closing i) ts \<longrightarrow> live_tokens s ts i = 0)"

definition none_forgotten :: "nat \<Rightarrow> manager \<Rightarrow> manager_pc multiset \<Rightarrow> bool" where
  "none_forgotten i s ts \<longleftrightarrow>
     (i < mg_next s \<longrightarrow> 0 < live_tokens s ts i \<or> 0 < count_if (before_retire i) ts
        \<or> 0 < count_if (closing i) ts \<or> mg_retired s i \<or> mg_snapClosed s i)"

definition unused_clean :: "nat \<Rightarrow> manager \<Rightarrow> manager_pc multiset \<Rightarrow> bool" where
  "unused_clean i s ts \<longleftrightarrow>
     (mg_next s \<le> i \<longrightarrow> live_tokens s ts i = 0 \<and> count_if (before_retire i) ts = 0
        \<and> count_if (counts_ref i) ts = 0 \<and> count_if (heading_for i) ts = 0
        \<and> count_if (pending_close i) ts = 0 \<and> count_if (closing i) ts = 0
        \<and> \<not> mg_retired s i \<and> \<not> mg_snapClosed s i)"

definition snapshot_wf :: "nat \<Rightarrow> manager \<Rightarrow> manager_pc multiset \<Rightarrow> bool" where
  "snapshot_wf i s ts \<longleftrightarrow>
     refs_exact i s ts \<and> done_once i s ts \<and> reclaim_pending i s ts \<and> one_owner i s ts
   \<and> retired_marked i s ts \<and> dead_only i s ts \<and> none_forgotten i s ts \<and> unused_clean i s ts"

definition manager_wf :: "(manager, manager_pc) system \<Rightarrow> bool" where
  "manager_wf sys \<longleftrightarrow> (\<forall>i. snapshot_wf i (fst sys) (snd sys))"

lemma continue_at_no_role [simp]:
  "counts_ref i (continue_at k) = False" "will_close_done i (continue_at k) = False"
  "pending_close i (continue_at k) = False" "closing i (continue_at k) = False"
  "testing_retired i (continue_at k) = False" "before_publish i (continue_at k) = False"
  "before_retire i (continue_at k) = False" "heading_for i (continue_at k) = False"
  by (simp_all add: continue_at_def split: close_cont.split)

lemma retire_old_roles [simp]:
  "counts_ref i (retire_old old k) = False" "will_close_done i (retire_old old k) = False"
  "pending_close i (retire_old old k) = False" "closing i (retire_old old k) = False"
  "testing_retired i (retire_old old k) = False" "heading_for i (retire_old old k) = False"
  "before_publish i (retire_old old k) = False"
  "before_retire i (retire_old old k) = (old = Some i)"
  by (auto simp: retire_old_def split: option.split)

lemmas run_simps = live_tokens_def drop_ref_def Let_def

lemma run_refs:
  "refs_exact i s (add_mset p ts) \<Longrightarrow> (s', p') \<in> set (manager_next s p) \<Longrightarrow> refs_exact i s' (add_mset p' ts)"
  by (cases p) (auto simp: refs_exact_def run_simps split: if_splits option.splits)

lemma run_done:
  "done_once i s (add_mset p ts) \<Longrightarrow> (s', p') \<in> set (manager_next s p) \<Longrightarrow> done_once i s' (add_mset p' ts)"
  by (cases p) (auto simp: done_once_def run_simps split: if_splits option.splits)

lemma run_reclaim:
  assumes "reclaim_pending i s (add_mset p ts)" and "refs_exact i s (add_mset p ts)"
    and "(s', p') \<in> set (manager_next s p)"
  shows "reclaim_pending i s' (add_mset p' ts)"
  using assms
  by (cases p) (auto simp: reclaim_pending_def refs_exact_def run_simps split: if_splits option.splits)

lemma run_owner:
  assumes "one_owner i s (add_mset p ts)" and "unused_clean i s (add_mset p ts)"
    and "(s', p') \<in> set (manager_next s p)"
  shows "one_owner i s' (add_mset p' ts)"
  using assms
  by (cases p) (auto simp: one_owner_def unused_clean_def run_simps split: if_splits option.splits)

lemma run_marked:
  "retired_marked i s (add_mset p ts) \<Longrightarrow> (s', p') \<in> set (manager_next s p) \<Longrightarrow>
   retired_marked i s' (add_mset p' ts)"
  by (cases p) (auto simp: retired_marked_def run_simps split: if_splits option.splits)

lemma run_dead:
  assumes "dead_only i s (add_mset p ts)" and "one_owner i s (add_mset p ts)"
    and "retired_marked i s (add_mset p ts)" and "unused_clean i s (add_mset p ts)"
    and "(s', p') \<in> set (manager_next s p)"
  shows "dead_only i s' (add_mset p' ts)"
  using assms
  by (cases p) (auto simp: dead_only_def one_owner_def retired_marked_def unused_clean_def run_simps
      split: if_splits option.splits)

lemma run_forgotten:
  assumes "none_forgotten i s (add_mset p ts)" and "(s', p') \<in> set (manager_next s p)"
  shows "none_forgotten i s' (add_mset p' ts)"
  using assms
  by (cases p) (auto simp: none_forgotten_def run_simps split: if_splits option.splits)

lemma run_unused:
  assumes "unused_clean i s (add_mset p ts)" and "(s', p') \<in> set (manager_next s p)"
  shows "unused_clean i s' (add_mset p' ts)"
  using assms
  by (cases p) (auto simp: unused_clean_def run_simps split: if_splits option.splits)

lemma snapshot_run_wf:
  "snapshot_wf i s (add_mset p ts) \<Longrightarrow> (s', p') \<in> set (manager_next s p) \<Longrightarrow>
   snapshot_wf i s' (add_mset p' ts)"
  unfolding snapshot_wf_def
  by (intro conjI; elim conjE)
    (rule run_refs run_done run_reclaim run_owner run_marked run_dead run_forgotten run_unused; assumption)+

lemmas snapshot_parts = snapshot_wf_def refs_exact_def done_once_def reclaim_pending_def one_owner_def
  retired_marked_def dead_only_def none_forgotten_def unused_clean_def

lemma manager_start_no_role:
  assumes "manager_start p"
  shows "counts_ref i p = False" "will_close_done i p = False" "pending_close i p = False"
    "closing i p = False" "testing_retired i p = False" "before_publish i p = False"
    "before_retire i p = False" "heading_for i p = False"
  using assms by (auto simp: manager_start_def)

lemma snapshot_spawn_wf:
  assumes "snapshot_wf i s ts" and "manager_start p"
  shows "snapshot_wf i s (add_mset p ts)"
  using assms(1)
  unfolding snapshot_parts live_tokens_def count_if_add manager_start_no_role [OF assms(2)] if_False .

interpretation snapshots: interleaved NewManager manager_next manager_start manager_wf
proof unfold_locales
  show "manager_wf (NewManager, {#})"
    by (simp add: manager_wf_def snapshot_parts NewManager_def live_tokens_def)
qed (auto simp: manager_wf_def intro: snapshot_run_wf snapshot_spawn_wf)

lemma reachable_snapshot_wf: "manager_reachable (s, ts) \<Longrightarrow> snapshot_wf i s ts"
  using snapshots.reachable_inv by (auto simp: manager_wf_def)

section \<open>Properties\<close>

text \<open>C4: for any interleaving of readers, publishers and shutdown, a snapshot is closed at most once
  (its \<open>done\<close> channel is never closed twice, which would panic), its reference count is the number
  of goroutines that hold a reference, and the current snapshot is never closed.\<close>

theorem snapshot_closed_once:
  assumes "manager_reachable (s, ts)"
  shows "mg_done s i \<le> 1 \<and> mg_refs s i = int (count_if (counts_ref i) ts)
       \<and> (mg_current s = Some i \<longrightarrow> \<not> mg_snapClosed s i)"
  using reachable_snapshot_wf [OF assms, of i]
  by (auto simp: snapshot_parts live_tokens_def split: if_splits)

text \<open>no snapshot leaks: when every call has finished and every lease is released, each snapshot
  ever built, except the current one, has been closed exactly once.\<close>

theorem snapshot_reclaimed:
  assumes "manager_reachable (s, ts)" and "\<forall>p\<in>#ts. p = MEnd"
    and "i < mg_next s" and "mg_current s \<noteq> Some i"
  shows "mg_snapClosed s i \<and> mg_done s i = 1"
proof -
  have none: "count_if P ts = 0" if "\<not> P MEnd" for P
    using assms(2) that by (auto intro!: count_if_zero)
  then have "count_if (counts_ref i) ts = 0" "count_if (will_close_done i) ts = 0"
    "count_if (pending_close i) ts = 0" "count_if (closing i) ts = 0" "count_if (before_publish i) ts = 0"
    "count_if (before_retire i) ts = 0" by simp_all
  with reachable_snapshot_wf [OF assms(1), of i] assms(3,4) show ?thesis
    by (auto simp: snapshot_parts live_tokens_def split: if_splits)
qed

text \<open>Runs for the witnesses and for the two races. In \<open>republish\<close> a second snapshot replaces the
  first while it is leased, and the lease is then released.\<close>

definition republish :: "manager_pc move list" where
  "republish = [Spawn MAcquire, Spawn MBuild] @ replicate 4 (Run 0 0) @ replicate 5 (Run 1 0) @ replicate 4 (Run 0 0)"

definition late_reader :: "manager_pc move list" where
  "late_reader = [Spawn MAcquire, Spawn MBuild] @ replicate 2 (Run 0 0) @ replicate 5 (Run 1 0)
     @ replicate 2 (Run 0 0) @ replicate 2 (Run 1 0)"

definition late_publish :: "manager_pc move list" where
  "late_publish = [Spawn MBuild, Spawn MShutdown] @ replicate 2 (Run 0 0) @ replicate 7 (Run 1 0) @ [Run 0 0]"

definition run_from_new :: "manager_pc move list \<Rightarrow> (manager \<times> manager_pc list) option" where
  "run_from_new ms = script manager_next manager_start ms (NewManager, [])"

lemma republish_facts:
  "map_option snd (run_from_new republish) = Some [MEnd, MEnd]"
  "map_option (\<lambda>(s, _). (mg_current s, mg_next s)) (run_from_new republish) = Some (Some 1, 2)"
  by code_simp+

lemma late_reader_facts:
  "map_option snd (run_from_new late_reader) = Some [MLease 0, MEnd]"
  "map_option (\<lambda>(s, _). (mg_snapClosed s 0, mg_done s 0)) (run_from_new late_reader) = Some (True, 1)"
  by code_simp+

lemma late_publish_facts:
  "map_option snd (run_from_new late_publish) = Some [MEnd, MEnd]"
  "map_option (\<lambda>(s, _). (mg_closed s, mg_current s, mg_snapClosed s 1)) (run_from_new late_publish)
     = Some (True, Some 1, False)"
  by code_simp+

lemma run_from_new_final:
  assumes "map_option snd (run_from_new ms) = Some ps" and "map_option (\<lambda>(s, _). f s) (run_from_new ms) = Some v"
  obtains s where "manager_reachable (s, mset ps)" and "f s = v"
  using assms script_from_start [of manager_next manager_start ms NewManager]
  by (cases "run_from_new ms") (auto simp: run_from_new_def)

theorem snapshot_closed_once_witness:
  "\<exists>s. manager_reachable (s, {#MLease 0, MEnd#}) \<and> mg_refs s 0 = 1 \<and> mg_done s 0 \<le> 1"
proof -
  obtain s where r: "manager_reachable (s, mset [MLease 0, MEnd])"
    by (rule run_from_new_final [OF late_reader_facts])
  from snapshot_closed_once [OF r, of 0] r show ?thesis by auto
qed

theorem snapshot_reclaimed_witness:
  "\<exists>s. manager_reachable (s, {#MEnd, MEnd#}) \<and> mg_current s = Some 1 \<and> mg_snapClosed s 0 \<and> mg_done s 0 = 1"
proof -
  obtain s where r: "manager_reachable (s, mset [MEnd, MEnd])" and f: "(mg_current s, mg_next s) = (Some 1, 2)"
    by (rule run_from_new_final [OF republish_facts])
  from snapshot_reclaimed [OF r, of 0] r f show ?thesis by auto
qed

text \<open>a lease can be granted on a snapshot that is then closed under its holder: \<open>retire\<close> reads a
  zero reference count, a reader that had loaded the pointer takes its reference and finds the
  snapshot still open, and only then \<open>retire\<close> closes it.\<close>

theorem snapshot_lease_race:
  "\<exists>s. manager_reachable (s, {#MLease 0, MEnd#}) \<and> mg_snapClosed s 0 \<and> mg_done s 0 = 1"
proof -
  obtain s where "manager_reachable (s, mset [MLease 0, MEnd])" and "(mg_snapClosed s 0, mg_done s 0) = (True, 1)"
    by (rule run_from_new_final [OF late_reader_facts])
  then show ?thesis by auto
qed

text \<open>a publish that passed its check before the shutdown installs its snapshot afterwards: all
  calls have returned, the manager is closed, and its current snapshot is open and stays open.\<close>

theorem snapshot_publish_after_close:
  "\<exists>s. manager_reachable (s, {#MEnd, MEnd#}) \<and> mg_closed s \<and> mg_current s = Some 1 \<and> \<not> mg_snapClosed s 1"
proof -
  obtain s where "manager_reachable (s, mset [MEnd, MEnd])"
    and "(mg_closed s, mg_current s, mg_snapClosed s 1) = (True, Some 1, False)"
    by (rule run_from_new_final [OF late_publish_facts])
  then show ?thesis by auto
qed

end
