(* ===== verification/Shard_Hash.thy ===== *)
theory Shard_Hash
  imports Go_Prelude "HOL-Library.Word"
begin

text \<open>
  The sharding shared by the memory and the disk cache (\<^verbatim>\<open>src/util/cache/sharded_memory_cache.go\<close>,
  \<^verbatim>\<open>src/util/cache/sharded_disk_cache.go\<close>): rounding the number of shards to a power of two, the
  32-bit FNV-1a hash of a key and the mask that turns it into a shard index; and the interface of a
  store that is a list of such shards.
\<close>

unbundle bit_operations_syntax

section \<open>Model\<close>

text \<open>\<open>n >> k\<close> on Go's signed \<open>int\<close> is \<open>drop_bit k\<close> on integers.\<close>

definition smear :: "nat \<Rightarrow> int \<Rightarrow> int" where
  "smear k n = n OR drop_bit k n"

definition smear_all :: "int \<Rightarrow> int" where
  "smear_all n = smear 16 (smear 8 (smear 4 (smear 2 (smear 1 n))))"

definition nextPowerOfTwo :: "int \<Rightarrow> int" where
  "nextPowerOfTwo n = (if n \<le> 1 then 1 else smear_all (n - 1) + 1)"

text \<open>The loop variable starts at 1 and doubles, so it is positive throughout.\<close>

function maxPowerOfTwo_loop :: "int \<Rightarrow> int \<Rightarrow> int" where
  "maxPowerOfTwo_loop n result =
     (if 0 < result \<and> result * 2 \<le> n then maxPowerOfTwo_loop n (result * 2) else result)"
  by pat_completeness auto
termination
  by (relation "measure (\<lambda>(n, result). nat (n - result))") auto

declare maxPowerOfTwo_loop.simps [simp del]

definition maxPowerOfTwoAtMost :: "int \<Rightarrow> int" where
  "maxPowerOfTwoAtMost n = maxPowerOfTwo_loop n 1"

definition fnv_step :: "32 word \<Rightarrow> char \<Rightarrow> 32 word" where
  "fnv_step h c = (h XOR of_char c) * 16777619"

definition fnv32a :: "string \<Rightarrow> 32 word" where
  "fnv32a key = foldl fnv_step 2166136261 key"

definition shardIndex :: "32 word \<Rightarrow> string \<Rightarrow> nat" where
  "shardIndex shardMask key = unat (fnv32a key AND shardMask)"

section \<open>Powers of two\<close>

lemma bit_smear: "bit (smear k n) i \<longleftrightarrow> bit n i \<or> bit n (k + i)"
  by (simp add: smear_def bit_or_iff bit_drop_bit_eq)

text \<open>The five smearing steps spread every set bit down by at most 31 places.\<close>

lemma bit_smeared:
  "bit (smear_all n) i \<longleftrightarrow> (\<exists>j<32. bit n (i + j))"
proof -
  have step: "(\<exists>j<m. bit n (i + j)) \<or> (\<exists>j<m. bit n (m + i + j)) \<longleftrightarrow> (\<exists>j<2 * m. bit n (i + j))" for m i
  proof
    assume "\<exists>j<2 * m. bit n (i + j)"
    then obtain j where j: "j < 2 * m" "bit n (i + j)" by blast
    show "(\<exists>j<m. bit n (i + j)) \<or> (\<exists>j<m. bit n (m + i + j))"
    proof (cases "j < m")
      case False
      with j have "j - m < m" "bit n (m + i + (j - m))" by (simp_all add: add.commute)
      then show ?thesis by blast
    qed (use j in blast)
  next
    assume "(\<exists>j<m. bit n (i + j)) \<or> (\<exists>j<m. bit n (m + i + j))"
    then show "\<exists>j<2 * m. bit n (i + j)"
    proof (elim disjE exE conjE)
      fix j assume "j < m" "bit n (m + i + j)"
      then show ?thesis by (intro exI [of _ "m + j"]) (simp add: ac_simps)
    qed (metis add_lessD1 mult_2 trans_less_add1)
  qed
  have s1: "bit (smear 1 n) i \<longleftrightarrow> (\<exists>j<2. bit n (i + j))" for i
    using step [of 1 i] by (simp add: bit_smear add.commute numeral_2_eq_2)
  have s2: "bit (smear 2 (smear 1 n)) i \<longleftrightarrow> (\<exists>j<4. bit n (i + j))" for i
    using step [of 2 i] unfolding bit_smear [of 2] s1 by simp
  have s3: "bit (smear 4 (smear 2 (smear 1 n))) i \<longleftrightarrow> (\<exists>j<8. bit n (i + j))" for i
    using step [of 4 i] unfolding bit_smear [of 4] s2 by simp
  have s4: "bit (smear 8 (smear 4 (smear 2 (smear 1 n)))) i \<longleftrightarrow> (\<exists>j<16. bit n (i + j))" for i
    using step [of 8 i] unfolding bit_smear [of 8] s3 by simp
  show ?thesis using step [of 16 i] unfolding smear_all_def bit_smear [of 16] s4 by simp
qed

lemma top_bit_exists:
  fixes n :: int
  assumes "0 < n"
  shows "\<exists>t. 2 ^ t \<le> n \<and> n < 2 ^ Suc t"
proof -
  obtain t where t: "2 ^ t \<le> nat n" "nat n < 2 ^ (t + 1)"
    using ex_power_ivl1 [of 2 "nat n"] assms by (auto simp: Suc_le_eq)
  have "int (2 ^ t) \<le> n" using t(1) by (simp add: le_nat_iff)
  moreover have "n < int (2 ^ (t + 1))" using t(2) assms by linarith
  ultimately show ?thesis by (intro exI [of _ t]) simp
qed

lemma smeared_mask:
  fixes n :: int
  assumes "2 ^ t \<le> n" and "n < 2 ^ Suc t" and "t < 32"
  shows "smear_all n = mask (Suc t)"
proof (rule bit_eqI)
  fix i
  have hi: "\<not> bit n j" if "t < j" for j
  proof -
    have "n < 2 ^ j" using assms(2) that by (meson Suc_leI less_le_trans one_le_numeral power_increasing)
    moreover have "0 \<le> n" using assms(1) by (meson order_trans zero_le_numeral zero_le_power)
    ultimately show ?thesis by (simp add: bit_iff_odd)
  qed
  have top: "bit n t"
  proof -
    have "n div 2 ^ t = 1" using assms(1,2) by (simp add: int_div_pos_eq [of n "2 ^ t" 1 "n - 2 ^ t"])
    then show ?thesis by (simp add: bit_iff_odd)
  qed
  show "bit (smear_all n) i = bit (mask (Suc t) :: int) i"
  proof (cases "i \<le> t")
    case True
    then have "\<exists>j<32. bit n (i + j)" using top assms(3) by (intro exI [of _ "t - i"]) simp
    with True show ?thesis by (simp add: bit_smeared bit_mask_iff)
  next
    case False
    with hi show ?thesis by (auto simp: bit_smeared bit_mask_iff)
  qed
qed

lemma maxPowerOfTwo_loop_spec:
  "result = 2 ^ k \<Longrightarrow> result \<le> max 1 n \<Longrightarrow>
   \<exists>m. maxPowerOfTwo_loop n result = 2 ^ m \<and> 2 ^ m \<le> max 1 n \<and> n < 2 * 2 ^ m"
proof (induction n result arbitrary: k rule: maxPowerOfTwo_loop.induct)
  case (1 n result)
  show ?case
  proof (cases "result * 2 \<le> n")
    case True
    with 1(1) [of "Suc k"] 1(2) show ?thesis by (subst maxPowerOfTwo_loop.simps) (simp add: mult.commute)
  next
    case False
    with 1(2,3) show ?thesis by (subst maxPowerOfTwo_loop.simps) (auto intro!: exI [of _ k])
  qed
qed

lemma maxPowerOfTwoAtMost_spec:
  "\<exists>m. maxPowerOfTwoAtMost n = 2 ^ m \<and> 2 ^ m \<le> max 1 n \<and> n < 2 * 2 ^ m"
  unfolding maxPowerOfTwoAtMost_def by (rule maxPowerOfTwo_loop_spec [of 1 0]) simp_all

lemma nextPowerOfTwo_spec:
  assumes "n \<le> 2 ^ 32"
  shows "\<exists>k. nextPowerOfTwo n = 2 ^ k \<and> n \<le> 2 ^ k \<and> (1 < n \<longrightarrow> 2 ^ k < 2 * n)"
proof (cases "n \<le> 1")
  case True
  then show ?thesis by (auto simp: nextPowerOfTwo_def intro: exI [of _ 0])
next
  case False
  then obtain t where t: "2 ^ t \<le> n - 1" "n - 1 < 2 ^ Suc t" using top_bit_exists [of "n - 1"] by auto
  have "(2::int) ^ t < 2 ^ 32" using t(1) assms by linarith
  then have "t < 32" using power_less_imp_less_exp by (metis one_less_numeral_iff semiring_norm(76))
  with t False have "nextPowerOfTwo n = 2 ^ Suc t"
    by (simp add: nextPowerOfTwo_def smeared_mask mask_eq_exp_minus_1)
  with t show ?thesis by (intro exI [of _ "Suc t"]) simp
qed

section \<open>Shard indices\<close>

lemma shardIndex_le_mask: "shardIndex m key \<le> unat m"
  unfolding shardIndex_def by (simp add: word_and_le1 flip: word_le_nat_alt)

lemma shardIndex_lt:
  assumes "m = word_of_nat (n - 1)" and "0 < n" and "n < 2 ^ 32"
  shows "shardIndex m key < n"
proof -
  have "unat m \<le> n - 1" unfolding assms(1) unat_of_nat by (rule mod_less_eq_dividend)
  with shardIndex_le_mask [of m key] assms(2) show ?thesis by linarith
qed

lemma and_exp_cases: "x AND 2 ^ m = (if bit x m then 2 ^ m else 0)" for x :: "'a::len word"
  by (rule bit_word_eqI) (auto simp: bit_and_iff bit_exp_iff)

section \<open>Stores made of shards\<close>

text \<open>The interface of a sharded store: the shards of a state, replacing them, and the shard a key
  belongs to. An operation on a key changes one shard.\<close>

definition at_shard :: "('c \<Rightarrow> 'sh list) \<Rightarrow> ('sh list \<Rightarrow> 'c \<Rightarrow> 'c) \<Rightarrow> nat \<Rightarrow> ('sh \<Rightarrow> 'sh) \<Rightarrow> 'c \<Rightarrow> 'c" where
  "at_shard shards put i f c = put ((shards c)[i := f (shards c ! i)]) c"

locale shard_router =
  fixes shards :: "'c \<Rightarrow> 'sh list" and put :: "'sh list \<Rightarrow> 'c \<Rightarrow> 'c"
    and index :: "'c \<Rightarrow> string \<Rightarrow> nat" and ok :: "'c \<Rightarrow> bool"
  assumes shards_put: "shards (put xs c) = xs"
    and index_put: "index (put xs c) k = index c k"
    and index_lt: "ok c \<Longrightarrow> index c k < length (shards c)"
    and ok_put: "ok c \<Longrightarrow> length xs = length (shards c) \<Longrightarrow> ok (put xs c)"
begin

abbreviation on_key :: "string \<Rightarrow> ('sh \<Rightarrow> 'sh) \<Rightarrow> 'c \<Rightarrow> 'c" where
  "on_key k f c \<equiv> at_shard shards put (index c k) f c"

lemma on_key_ok: "ok c \<Longrightarrow> ok (on_key k f c)"
  by (simp add: at_shard_def ok_put)

lemma on_key_same: "ok c \<Longrightarrow> shards (on_key k f c) ! index (on_key k f c) k = f (shards c ! index c k)"
  by (simp add: at_shard_def shards_put index_put index_lt)

lemma on_key_other:
  "index c k' \<noteq> index c k \<Longrightarrow> shards (on_key k f c) ! index (on_key k f c) k' = shards c ! index c k'"
  by (simp add: at_shard_def shards_put index_put)

lemma on_key_all:
  assumes "\<And>i. i < length (shards c) \<Longrightarrow> P i (shards c ! i)"
    and "P (index c k) (shards c ! index c k) \<Longrightarrow> P (index c k) (f (shards c ! index c k))"
    and "i < length (shards (on_key k f c))"
  shows "P i (shards (on_key k f c) ! i)"
  using assms by (cases "i = index c k") (simp_all add: at_shard_def shards_put)

lemma total_le:
  assumes "\<And>sh. sh \<in> set (shards c) \<Longrightarrow> used sh \<le> (cap :: int)"
  shows "sum_list (map used (shards c)) \<le> int (length (shards c)) * cap"
proof -
  have "sum_list (map used xs) \<le> int (length xs) * cap" if "\<And>sh. sh \<in> set xs \<Longrightarrow> used sh \<le> cap" for xs
    using that by (induction xs) (simp_all add: algebra_simps add_mono)
  then show ?thesis using assms by blast
qed

end

end
