(* ===== verification/Memory_Cache.thy ===== *)
theory Memory_Cache
  imports Shard_Hash
begin

text \<open>
  The sharded in-memory cache, \<^verbatim>\<open>src/util/cache/sharded_memory_cache.go\<close>. Each method holds its
  shard's mutex, so it is one transformer of the shard, with the clock reading as an argument. \<open>Get\<close>
  is the exception: it looks up under the read lock and, when the item has expired, removes it under
  the write lock in a second step; both steps and their composition are modelled. An eviction may
  hand the evicted item to the disk cache in a new goroutine: the requests are returned as a list.

  The loop that evicts until the new item fits ends because every pass removes an item.
\<close>

section \<open>Model: one shard\<close>

record mem_item =
  mi_data :: string
  mi_expiry :: time
  mi_lastUsed :: int
  mi_lastModified :: time
  mi_size :: int

record mem_shard =
  sh_items :: "(string \<times> mem_item) list"
  sh_currSize :: int

type_synonym flush = "string \<times> string \<times> time"

text \<open>\<open>UnixNano\<close> counts from 1970; Go's zero time is year 1.\<close>

definition unix_nano :: "time \<Rightarrow> int" where
  "unix_nano now = now - 62135596800 * Second"

definition max_int64 :: int where "max_int64 = 9223372036854775807"

fun evict_scan :: "(string \<times> mem_item) option \<Rightarrow> int \<Rightarrow> (string \<times> mem_item) list \<Rightarrow> (string \<times> mem_item) option" where
  "evict_scan oldest oldestTime [] = oldest"
| "evict_scan oldest oldestTime ((k, v) # items) =
     (if mi_lastUsed v < oldestTime then evict_scan (Some (k, v)) (mi_lastUsed v) items
      else evict_scan oldest oldestTime items)"

definition drop_entry :: "string \<Rightarrow> mem_item \<Rightarrow> mem_shard \<Rightarrow> mem_shard" where
  "drop_entry key item shard =
     shard\<lparr>sh_items := AList.delete key (sh_items shard), sh_currSize := sh_currSize shard - mi_size item\<rparr>"

definition evictFromShard :: "time \<Rightarrow> bool \<Rightarrow> mem_shard \<Rightarrow> (mem_shard \<times> flush list) option" where
  "evictFromShard now disk shard =
     (case evict_scan None max_int64 (sh_items shard) of
        None \<Rightarrow> None
      | Some (oldestKey, oldestItem) \<Rightarrow>
          (if oldestKey = [] then None
           else Some (drop_entry oldestKey oldestItem shard,
                      if now < mi_expiry oldestItem \<and> disk
                      then [(oldestKey, mi_data oldestItem, mi_expiry oldestItem)] else [])))"

lemma evict_scan_mem: "evict_scan best t xs = Some kv \<Longrightarrow> best = Some kv \<or> kv \<in> set xs"
  by (induction best t xs rule: evict_scan.induct) (auto split: if_splits)

lemma length_delete_mem: "(k, v) \<in> set xs \<Longrightarrow> length (AList.delete k xs) < length xs"
  by (induction xs) (auto simp: AList.delete_eq le_imp_less_Suc)

lemma evict_shrinks:
  "evictFromShard now disk shard = Some (shard', fl) \<Longrightarrow> length (sh_items shard') < length (sh_items shard)"
  by (auto simp: evictFromShard_def drop_entry_def split: option.splits if_splits
      dest!: evict_scan_mem length_delete_mem)

text \<open>The eviction loop: whether the item fits at the end, the shard, and the flush requests.\<close>

function make_room :: "time \<Rightarrow> bool \<Rightarrow> int \<Rightarrow> int \<Rightarrow> int \<Rightarrow> mem_shard \<Rightarrow> bool \<times> mem_shard \<times> flush list" where
  "make_room now disk itemsPerShard sizePerShard len shard =
     (if int (length (sh_items shard)) \<ge> itemsPerShard \<or> sh_currSize shard + len > sizePerShard
      then (case evictFromShard now disk shard of
              None \<Rightarrow> (False, shard, [])
            | Some (shard', fl) \<Rightarrow>
                let (ok, shard'', fls) = make_room now disk itemsPerShard sizePerShard len shard'
                in (ok, shard'', fl @ fls))
      else (True, shard, []))"
  by pat_completeness auto
termination
  by (relation "measure (\<lambda>(_, _, _, _, _, shard). length (sh_items shard))") (auto dest: evict_shrinks)

declare make_room.simps [simp del]

definition shard_delete :: "string \<Rightarrow> mem_shard \<Rightarrow> mem_shard" where
  "shard_delete key shard =
     (case map_of (sh_items shard) key of None \<Rightarrow> shard | Some item \<Rightarrow> drop_entry key item shard)"

definition new_item :: "time \<Rightarrow> string \<Rightarrow> duration \<Rightarrow> time \<Rightarrow> mem_item" where
  "new_item now data ttl lastModified =
     \<lparr>mi_data = data, mi_expiry = now + ttl, mi_lastUsed = unix_nano now, mi_lastModified = lastModified,
      mi_size = int (length data)\<rparr>"

definition shard_set :: "time \<Rightarrow> bool \<Rightarrow> int \<Rightarrow> int \<Rightarrow> string \<Rightarrow> string \<Rightarrow> duration \<Rightarrow> time \<Rightarrow> mem_shard \<Rightarrow>
    mem_shard \<times> flush list" where
  "shard_set now disk itemsPerShard sizePerShard key data ttl lastModified shard =
     (if itemsPerShard \<le> 0 \<or> int (length data) > sizePerShard then (shard, [])
      else let (ok, shard', fls) =
                 make_room now disk itemsPerShard sizePerShard (int (length data)) (shard_delete key shard)
           in (if ok
               then shard'\<lparr>sh_items := AList.update key (new_item now data ttl lastModified) (sh_items shard'),
                           sh_currSize := sh_currSize shard' + int (length data)\<rparr>
               else shard', fls))"

text \<open>\<open>Get\<close>: the lookup, and what is done with an expired or a live item.\<close>

definition touch :: "time \<Rightarrow> string \<Rightarrow> mem_shard \<Rightarrow> mem_shard" where
  "touch now key shard =
     shard\<lparr>sh_items := map (\<lambda>(k, v). (k, if k = key then v\<lparr>mi_lastUsed := unix_nano now\<rparr> else v)) (sh_items shard)\<rparr>"

definition shard_get :: "time \<Rightarrow> string \<Rightarrow> mem_shard \<Rightarrow> mem_item option \<times> mem_shard" where
  "shard_get now key shard =
     (case map_of (sh_items shard) key of
        None \<Rightarrow> (None, shard)
      | Some item \<Rightarrow>
          (if now > mi_expiry item then (None, drop_entry key item shard)
           else (Some item, touch now key shard)))"

definition shard_lastModified :: "time \<Rightarrow> string \<Rightarrow> mem_shard \<Rightarrow> time option" where
  "shard_lastModified now key shard =
     (case map_of (sh_items shard) key of
        None \<Rightarrow> None
      | Some item \<Rightarrow> if now > mi_expiry item then None else Some (mi_lastModified item))"

fun clean_loop :: "time \<Rightarrow> (string \<times> mem_item) list \<Rightarrow> mem_shard \<Rightarrow> mem_shard" where
  "clean_loop now [] shard = shard"
| "clean_loop now ((k, v) # items) shard =
     clean_loop now items (if now > mi_expiry v then drop_entry k v shard else shard)"

definition shard_clean :: "time \<Rightarrow> mem_shard \<Rightarrow> mem_shard" where
  "shard_clean now shard = clean_loop now (sh_items shard) shard"

definition empty_shard :: mem_shard where
  "empty_shard = \<lparr>sh_items = [], sh_currSize = 0\<rparr>"

definition exported :: "time \<Rightarrow> string \<times> mem_item \<Rightarrow> (string \<times> string \<times> duration) option" where
  "exported now kv =
     (let item = snd kv
      in if is_zero_time (mi_expiry item) then Some (fst kv, mi_data item, 0)
         else if now > mi_expiry item \<or> mi_expiry item - now \<le> 0 then None
         else Some (fst kv, mi_data item, mi_expiry item - now))"

section \<open>Model: the cache\<close>

record ShardedMemoryCache =
  mc_shards :: "mem_shard list"
  mc_shardMask :: "32 word"
  mc_maxItems :: int
  mc_maxSize :: int
  mc_itemsPerShard :: int
  mc_sizePerShard :: int
  mc_diskCache :: bool

definition memory_shard_count :: "int \<Rightarrow> int \<Rightarrow> int" where
  "memory_shard_count numCPU maxItems =
     (let shardCount = numCPU * 2;
          shardCount = (if shardCount < 4 then 4 else shardCount);
          shardCount = (if shardCount > 64 then 64 else shardCount);
          shardCount = nextPowerOfTwo shardCount
      in if maxItems > 0 \<and> shardCount > maxItems then maxPowerOfTwoAtMost maxItems else shardCount)"

definition NewShardedMemoryCache :: "int \<Rightarrow> int \<Rightarrow> int \<Rightarrow> ShardedMemoryCache" where
  "NewShardedMemoryCache numCPU maxItems maxSizeMB =
     (let shardCount = memory_shard_count numCPU maxItems;
          totalSize = maxSizeMB * 1024 * 1024
      in \<lparr>mc_shards = replicate (nat shardCount) empty_shard,
          mc_shardMask = word_of_nat (nat shardCount - 1),
          mc_maxItems = maxItems, mc_maxSize = totalSize,
          mc_itemsPerShard = go_div maxItems shardCount,
          mc_sizePerShard = go_div totalSize shardCount,
          mc_diskCache = False\<rparr>)"

definition mem_index :: "ShardedMemoryCache \<Rightarrow> string \<Rightarrow> nat" where
  "mem_index c key = shardIndex (mc_shardMask c) key"

definition put_shards :: "mem_shard list \<Rightarrow> ShardedMemoryCache \<Rightarrow> ShardedMemoryCache" where
  "put_shards xs c = c\<lparr>mc_shards := xs\<rparr>"

definition mem_getShard :: "ShardedMemoryCache \<Rightarrow> string \<Rightarrow> mem_shard" where
  "mem_getShard c key = mc_shards c ! mem_index c key"

definition SetWithTimestamp :: "time \<Rightarrow> string \<Rightarrow> string \<Rightarrow> duration \<Rightarrow> time \<Rightarrow> ShardedMemoryCache \<Rightarrow>
    ShardedMemoryCache \<times> flush list" where
  "SetWithTimestamp now key data ttl lastModified c =
     (let set = shard_set now (mc_diskCache c) (mc_itemsPerShard c) (mc_sizePerShard c) key data ttl lastModified
      in (at_shard mc_shards put_shards (mem_index c key) (fst \<circ> set) c, snd (set (mem_getShard c key))))"

definition mem_Set :: "time \<Rightarrow> string \<Rightarrow> string \<Rightarrow> duration \<Rightarrow> ShardedMemoryCache \<Rightarrow> ShardedMemoryCache \<times> flush list" where
  "mem_Set now key data ttl c = SetWithTimestamp now key data ttl now c"

definition GetWithTimestamp :: "time \<Rightarrow> string \<Rightarrow> ShardedMemoryCache \<Rightarrow> (string \<times> time) option \<times> ShardedMemoryCache" where
  "GetWithTimestamp now key c =
     (map_option (\<lambda>item. (mi_data item, mi_lastModified item)) (fst (shard_get now key (mem_getShard c key))),
      at_shard mc_shards put_shards (mem_index c key) (snd \<circ> shard_get now key) c)"

definition mem_Get :: "time \<Rightarrow> string \<Rightarrow> ShardedMemoryCache \<Rightarrow> string option \<times> ShardedMemoryCache" where
  "mem_Get now key c = (case GetWithTimestamp now key c of (r, c') \<Rightarrow> (map_option fst r, c'))"

definition mem_GetLastModified :: "time \<Rightarrow> string \<Rightarrow> ShardedMemoryCache \<Rightarrow> time option" where
  "mem_GetLastModified now key c = shard_lastModified now key (mem_getShard c key)"

definition mem_Stats :: "ShardedMemoryCache \<Rightarrow> int \<times> int" where
  "mem_Stats c =
     (sum_list (map (\<lambda>sh. int (length (sh_items sh))) (mc_shards c)), sum_list (map sh_currSize (mc_shards c)))"

definition mem_CleanExpired :: "time \<Rightarrow> ShardedMemoryCache \<Rightarrow> ShardedMemoryCache" where
  "mem_CleanExpired now c = c\<lparr>mc_shards := map (shard_clean now) (mc_shards c)\<rparr>"

definition mem_Delete :: "string \<Rightarrow> ShardedMemoryCache \<Rightarrow> ShardedMemoryCache" where
  "mem_Delete key c = at_shard mc_shards put_shards (mem_index c key) (shard_delete key) c"

definition mem_Clear :: "ShardedMemoryCache \<Rightarrow> ShardedMemoryCache" where
  "mem_Clear c = c\<lparr>mc_shards := map (\<lambda>_. empty_shard) (mc_shards c)\<rparr>"

definition SetDiskCacheReference :: "bool \<Rightarrow> ShardedMemoryCache \<Rightarrow> ShardedMemoryCache" where
  "SetDiskCacheReference disk c = c\<lparr>mc_diskCache := disk\<rparr>"

definition GetAllItems :: "time \<Rightarrow> ShardedMemoryCache \<Rightarrow> (string \<times> string \<times> duration) list" where
  "GetAllItems now c = concat (map (\<lambda>sh. List.map_filter (exported now) (sh_items sh)) (mc_shards c))"

section \<open>Invariant of a shard\<close>

definition items_wf :: "(string \<times> mem_item) list \<Rightarrow> bool" where
  "items_wf items \<longleftrightarrow> distinct (map fst items) \<and> list_all (\<lambda>kv. mi_size (snd kv) = int (length (mi_data (snd kv)))) items"

definition payload :: "(string \<times> mem_item) list \<Rightarrow> int" where
  "payload items = sum_list (map (\<lambda>kv. mi_size (snd kv)) items)"

definition shard_exact :: "mem_shard \<Rightarrow> bool" where
  "shard_exact shard \<longleftrightarrow> items_wf (sh_items shard) \<and> sh_currSize shard = payload (sh_items shard)"

definition shard_wf :: "int \<Rightarrow> int \<Rightarrow> mem_shard \<Rightarrow> bool" where
  "shard_wf itemsPerShard sizePerShard shard \<longleftrightarrow>
     shard_exact shard \<and> int (length (sh_items shard)) \<le> max 0 itemsPerShard
   \<and> sh_currSize shard \<le> max 0 sizePerShard"

lemma payload_simps [simp]: "payload [] = 0" "payload (kv # items) = mi_size (snd kv) + payload items"
  by (simp_all add: payload_def)

lemma payload_nonneg: "items_wf items \<Longrightarrow> 0 \<le> payload items"
  by (induction items) (auto simp: items_wf_def)

lemma items_wf_delete: "items_wf items \<Longrightarrow> items_wf (AList.delete k items)"
  by (auto simp: items_wf_def list_all_iff AList.delete_eq distinct_map_filter)

lemma payload_delete_absent: "k \<notin> fst ` set items \<Longrightarrow> payload (AList.delete k items) = payload items"
  by (simp add: delete_idem)

lemma payload_delete:
  "distinct (map fst items) \<Longrightarrow> (k, v) \<in> set items \<Longrightarrow> payload (AList.delete k items) = payload items - mi_size v"
  by (induction items) (auto simp: payload_delete_absent, force simp: payload_delete_absent)

lemma length_delete_le: "length (AList.delete k items) \<le> length items"
  by (simp add: AList.delete_eq)

lemma drop_entry_exact:
  "shard_exact shard \<Longrightarrow> (k, v) \<in> set (sh_items shard) \<Longrightarrow> shard_exact (drop_entry k v shard)"
  by (auto simp: shard_exact_def drop_entry_def items_wf_delete payload_delete items_wf_def [of "sh_items shard"])

lemma drop_entry_size:
  "shard_exact shard \<Longrightarrow> (k, v) \<in> set (sh_items shard) \<Longrightarrow> sh_currSize (drop_entry k v shard) \<le> sh_currSize shard"
  by (auto simp: shard_exact_def drop_entry_def items_wf_def list_all_iff)

lemma drop_entry_wf:
  assumes "shard_wf n m shard" and "(k, v) \<in> set (sh_items shard)"
  shows "shard_wf n m (drop_entry k v shard)"
  using assms drop_entry_exact [of shard k v] drop_entry_size [of shard k v]
    length_delete_le [of k "sh_items shard"]
  by (auto simp: shard_wf_def drop_entry_def)

lemma shard_delete_wf: "shard_wf n m shard \<Longrightarrow> shard_wf n m (shard_delete key shard)"
  by (auto simp: shard_delete_def drop_entry_wf map_of_SomeD split: option.split)

lemma shard_delete_absent: "key \<notin> fst ` set (sh_items (shard_delete key shard))"
  by (auto simp: shard_delete_def drop_entry_def map_of_eq_None_iff image_iff AList.delete_eq split: option.split)

lemma evict_result:
  assumes "evictFromShard now disk shard = Some (shard', fl)"
  obtains k v where "(k, v) \<in> set (sh_items shard)" and "shard' = drop_entry k v shard"
    and "evict_scan None max_int64 (sh_items shard) = Some (k, v)"
  using assms by (auto simp: evictFromShard_def split: option.splits if_splits dest!: evict_scan_mem)

lemma make_room_induct [consumes 1, case_names stuck room evict]:
  assumes run: "make_room now disk n m len shard = (ok, shard', fls)"
    and stuck: "\<And>shard. int (length (sh_items shard)) \<ge> n \<or> sh_currSize shard + len > m \<Longrightarrow>
       evictFromShard now disk shard = None \<Longrightarrow> P shard False shard []"
    and room: "\<And>shard. int (length (sh_items shard)) < n \<Longrightarrow> sh_currSize shard + len \<le> m \<Longrightarrow> P shard True shard []"
    and evict: "\<And>shard mid fl ok shard' fls. evictFromShard now disk shard = Some (mid, fl) \<Longrightarrow> P mid ok shard' fls \<Longrightarrow>
       P shard ok shard' (fl @ fls)"
  shows "P shard ok shard' fls"
  using run
proof (induction "length (sh_items shard)" arbitrary: shard ok shard' fls rule: less_induct)
  case less
  show ?case
  proof (cases "int (length (sh_items shard)) \<ge> n \<or> sh_currSize shard + len > m")
    case True
    show ?thesis
    proof (cases "evictFromShard now disk shard")
      case None
      with True less.prems stuck show ?thesis by (auto simp: make_room.simps [of now disk n m len shard])
    next
      case (Some r)
      obtain mid fl where r: "r = (mid, fl)" by fastforce
      obtain ok2 end2 fls2 where rec: "make_room now disk n m len mid = (ok2, end2, fls2)" by (metis prod_cases3)
      have "P mid ok2 end2 fls2" using less.hyps [OF _ rec] Some r evict_shrinks by blast
      with evict Some r have "P shard ok2 end2 (fl @ fls2)" by blast
      with True Some r rec less.prems show ?thesis
        by (auto simp: make_room.simps [of now disk n m len shard])
    qed
  next
    case False
    with less.prems room show ?thesis by (auto simp: make_room.simps [of now disk n m len shard])
  qed
qed

lemma make_room_wf:
  assumes "make_room now disk n m len shard = (ok, shard', fls)"
  shows "shard_wf n m shard \<longrightarrow> shard_wf n m shard'
       \<and> set (sh_items shard') \<subseteq> set (sh_items shard)
       \<and> (ok \<longrightarrow> int (length (sh_items shard')) < n \<and> sh_currSize shard' + len \<le> m)"
  using assms
proof (induction rule: make_room_induct)
  case (evict shard mid fl ok shard' fls)
  then show ?case
    by (auto elim!: evict_result intro: drop_entry_wf)
      (auto simp: drop_entry_def AList.delete_eq dest!: subsetD)
qed auto

text \<open>Eviction cannot get stuck while keys are non-empty and use times are below the sentinel.\<close>

definition evictable :: "mem_shard \<Rightarrow> bool" where
  "evictable shard \<longleftrightarrow> list_all (\<lambda>kv. fst kv \<noteq> [] \<and> mi_lastUsed (snd kv) < max_int64) (sh_items shard)"

lemma evict_scan_Some: "\<exists>k v. evict_scan (Some b) t xs = Some (k, v)"
  by (induction "Some b" t xs arbitrary: b rule: evict_scan.induct) auto

lemma evict_scan_found:
  "\<exists>kv\<in>set xs. mi_lastUsed (snd kv) < t \<Longrightarrow> \<exists>k v. evict_scan best t xs = Some (k, v)"
  by (induction best t xs rule: evict_scan.induct) (auto simp: evict_scan_Some)

lemma evict_succeeds:
  assumes "evictable shard" and "sh_items shard \<noteq> []"
  shows "evictFromShard now disk shard \<noteq> None"
proof -
  have "\<exists>kv\<in>set (sh_items shard). mi_lastUsed (snd kv) < max_int64"
    using assms by (cases "sh_items shard") (auto simp: evictable_def)
  then obtain k v where kv: "evict_scan None max_int64 (sh_items shard) = Some (k, v)"
    using evict_scan_found by blast
  with assms(1) have "k \<noteq> []" by (auto simp: evictable_def list_all_iff dest!: evict_scan_mem)
  with kv show ?thesis by (simp add: evictFromShard_def)
qed

lemma make_room_ok:
  assumes "make_room now disk n m len shard = (ok, shard', fls)" and "0 < n" and "len \<le> m"
  shows "evictable shard \<and> shard_exact shard \<longrightarrow> ok"
  using assms(1)
proof (induction rule: make_room_induct)
  case (stuck shard)
  show ?case
  proof (intro impI)
    assume a: "evictable shard \<and> shard_exact shard"
    with stuck(2) evict_succeeds have "sh_items shard = []" by blast
    with a assms(2,3) stuck(1) show False by (auto simp: shard_exact_def)
  qed
next
  case (evict shard mid fl ok shard' fls)
  have "evictable mid \<and> shard_exact mid" if "evictable shard" "shard_exact shard"
    using evict(1) that
    by (auto elim!: evict_result intro!: drop_entry_exact)
      (auto simp: evictable_def drop_entry_def list_all_iff AList.delete_eq)
  with evict show ?case by blast
qed auto

section \<open>Operations of a shard keep the invariant\<close>

lemma map_of_subset:
  assumes "set xs \<subseteq> set ys" and "distinct (map fst ys)" and "map_of xs k = Some v"
  shows "map_of ys k = Some v"
  using assms by (meson map_of_SomeD map_of_is_SomeI subsetD)

lemma shard_delete_items: "set (sh_items (shard_delete key shard)) \<subseteq> set (sh_items shard)"
  by (auto simp: shard_delete_def drop_entry_def AList.delete_eq split: option.splits)

lemma shard_set_cases:
  assumes "shard_wf n m shard" and "shard_set now disk n m key data ttl lm shard = (shard', fls)"
  obtains "shard' = shard" and "n \<le> 0 \<or> int (length data) > m"
  | ok mid where "make_room now disk n m (int (length data)) (shard_delete key shard) = (ok, mid, fls)"
      and "0 < n" and "int (length data) \<le> m" and "shard_wf n m mid" and "key \<notin> fst ` set (sh_items mid)"
      and "set (sh_items mid) \<subseteq> set (sh_items shard)"
      and "ok \<Longrightarrow> int (length (sh_items mid)) < n \<and> sh_currSize mid + int (length data) \<le> m"
      and "shard' = (if ok then mid\<lparr>sh_items := AList.update key (new_item now data ttl lm) (sh_items mid),
             sh_currSize := sh_currSize mid + int (length data)\<rparr> else mid)"
proof (cases "n \<le> 0 \<or> int (length data) > m")
  case True
  then show ?thesis using assms(2) that(1) by (simp add: shard_set_def)
next
  case False
  obtain ok mid fl where r: "make_room now disk n m (int (length data)) (shard_delete key shard) = (ok, mid, fl)"
    by (metis prod_cases3)
  from make_room_wf [OF r] shard_delete_wf [OF assms(1)]
  have mid: "shard_wf n m mid" "set (sh_items mid) \<subseteq> set (sh_items (shard_delete key shard))"
    "ok \<Longrightarrow> int (length (sh_items mid)) < n \<and> sh_currSize mid + int (length data) \<le> m" by blast+
  from mid(2) shard_delete_absent have "key \<notin> fst ` set (sh_items mid)" by fast
  with False r mid assms(2) shard_delete_items [of key shard] show ?thesis
    by (intro that(2) [of ok mid]) (auto simp: shard_set_def)
qed

lemma update_absent: "k \<notin> fst ` set xs \<Longrightarrow> AList.update k v xs = xs @ [(k, v)]"
  by (induction xs) auto

lemma insert_wf:
  assumes "shard_wf n m mid" and "key \<notin> fst ` set (sh_items mid)" and "int (length (sh_items mid)) < n"
    and "sh_currSize mid + int (length data) \<le> m"
  shows "shard_wf n m (mid\<lparr>sh_items := AList.update key (new_item now data ttl lm) (sh_items mid),
           sh_currSize := sh_currSize mid + int (length data)\<rparr>)"
  using assms
  by (auto simp: shard_wf_def shard_exact_def items_wf_def update_absent new_item_def payload_def)

lemma shard_set_wf:
  assumes "shard_wf n m shard"
  shows "shard_wf n m (fst (shard_set now disk n m key data ttl lm shard))"
proof -
  obtain shard' fls where r: "shard_set now disk n m key data ttl lm shard = (shard', fls)" by fastforce
  from assms r show ?thesis
    by (cases rule: shard_set_cases) (use assms r in \<open>auto intro: insert_wf\<close>)
qed

lemma touch_fields [simp]:
  "map fst (sh_items (touch now key shard)) = map fst (sh_items shard)"
  "payload (sh_items (touch now key shard)) = payload (sh_items shard)"
  "sh_currSize (touch now key shard) = sh_currSize shard"
  "length (sh_items (touch now key shard)) = length (sh_items shard)"
  by (auto simp: touch_def payload_def comp_def case_prod_unfold intro!: arg_cong [of _ _ sum_list])

lemma touch_wf: "shard_wf n m shard \<Longrightarrow> shard_wf n m (touch now key shard)"
  using touch_fields [of now key shard]
  by (auto simp: shard_wf_def shard_exact_def items_wf_def list_all_iff simp del: touch_fields)
    (auto simp: touch_def split: if_splits)

lemma shard_get_wf: "shard_wf n m shard \<Longrightarrow> shard_wf n m (snd (shard_get now key shard))"
  by (auto simp: shard_get_def drop_entry_wf touch_wf map_of_SomeD split: option.split)

lemma clean_loop_spec:
  assumes "shard_wf n m shard" and "set items \<subseteq> set (sh_items shard)" and "distinct (map fst items)"
  shows "shard_wf n m (clean_loop now items shard)
       \<and> set (sh_items (clean_loop now items shard)) =
           set (sh_items shard) - {kv \<in> set items. now > mi_expiry (snd kv)}"
  using assms
proof (induction items arbitrary: shard)
  case (Cons kv items)
  obtain k v where kv: "kv = (k, v)" by fastforce
  let ?s = "if now > mi_expiry v then drop_entry k v shard else shard"
  have uniq: "kv' = (k, v)" if "kv' \<in> set (sh_items shard)" "fst kv' = k" for kv'
    using Cons.prems that kv
    by (cases kv') (auto simp: shard_wf_def shard_exact_def items_wf_def dest: eq_key_imp_eq_value)
  then have sub: "set (sh_items ?s) = set (sh_items shard) - (if now > mi_expiry v then {(k, v)} else {})"
    by (auto simp: drop_entry_def AList.delete_eq)
  have wf: "shard_wf n m ?s" using Cons.prems kv by (auto intro: drop_entry_wf)
  have "set items \<subseteq> set (sh_items ?s)" using Cons.prems sub kv by (auto simp: image_iff)
  with Cons.IH [OF wf] Cons.prems sub kv show ?case by auto
qed simp

lemma shard_clean_wf: "shard_wf n m shard \<Longrightarrow> shard_wf n m (shard_clean now shard)"
  using clean_loop_spec [of n m shard "sh_items shard" now]
  by (simp add: shard_clean_def shard_wf_def shard_exact_def items_wf_def)

lemma empty_shard_wf [simp]: "shard_wf n m empty_shard"
  by (simp add: empty_shard_def shard_wf_def shard_exact_def items_wf_def)

section \<open>The whole cache\<close>

definition cache_ok :: "ShardedMemoryCache \<Rightarrow> bool" where
  "cache_ok c \<longleftrightarrow> 0 < length (mc_shards c) \<and> length (mc_shards c) < 2 ^ 32
     \<and> mc_shardMask c = word_of_nat (length (mc_shards c) - 1)"

definition cache_limits :: "ShardedMemoryCache \<Rightarrow> bool" where
  "cache_limits c \<longleftrightarrow>
     mc_itemsPerShard c = go_div (mc_maxItems c) (int (length (mc_shards c)))
   \<and> mc_sizePerShard c = go_div (mc_maxSize c) (int (length (mc_shards c)))"

definition shards_wf :: "ShardedMemoryCache \<Rightarrow> bool" where
  "shards_wf c \<longleftrightarrow>
     (\<forall>i < length (mc_shards c). shard_wf (mc_itemsPerShard c) (mc_sizePerShard c) (mc_shards c ! i))"

definition cache_wf :: "ShardedMemoryCache \<Rightarrow> bool" where
  "cache_wf c \<longleftrightarrow> cache_ok c \<and> cache_limits c \<and> shards_wf c"

interpretation mem_router: shard_router mc_shards put_shards mem_index cache_ok
proof unfold_locales
  fix c k assume "cache_ok c"
  then show "mem_index c k < length (mc_shards c)"
    unfolding cache_ok_def mem_index_def by (auto intro: shardIndex_lt)
qed (simp_all add: put_shards_def mem_index_def cache_ok_def)

lemma at_shard_fields [simp]:
  "mc_maxItems (at_shard mc_shards put_shards i f c) = mc_maxItems c"
  "mc_maxSize (at_shard mc_shards put_shards i f c) = mc_maxSize c"
  "mc_itemsPerShard (at_shard mc_shards put_shards i f c) = mc_itemsPerShard c"
  "mc_sizePerShard (at_shard mc_shards put_shards i f c) = mc_sizePerShard c"
  "length (mc_shards (at_shard mc_shards put_shards i f c)) = length (mc_shards c)"
  by (simp_all add: at_shard_def put_shards_def)

lemma at_shard_cache_wf:
  assumes "cache_wf c"
    and "\<And>sh. shard_wf (mc_itemsPerShard c) (mc_sizePerShard c) sh \<Longrightarrow>
           shard_wf (mc_itemsPerShard c) (mc_sizePerShard c) (f sh)"
  shows "cache_wf (at_shard mc_shards put_shards (mem_index c k) f c)"
  unfolding cache_wf_def
proof (intro conjI)
  let ?P = "\<lambda>_. shard_wf (mc_itemsPerShard c) (mc_sizePerShard c)"
  show "cache_ok (mem_router.on_key k f c)" using assms(1) by (simp add: cache_wf_def mem_router.on_key_ok)
  show "cache_limits (mem_router.on_key k f c)" using assms(1) by (simp add: cache_wf_def cache_limits_def)
  have all: "?P i (mc_shards c ! i)" if "i < length (mc_shards c)" for i
    using assms(1) that by (simp add: cache_wf_def shards_wf_def)
  have "?P i (mc_shards (mem_router.on_key k f c) ! i)" if "i < length (mc_shards (mem_router.on_key k f c))" for i
    using all assms(2) that by (rule mem_router.on_key_all)
  then show "shards_wf (mem_router.on_key k f c)" by (simp add: shards_wf_def)
qed

datatype mem_op =
    MemSet time string string duration time
  | MemGet time string
  | MemDelete string
  | MemClean time
  | MemClear
  | MemSetDisk bool

fun mem_apply :: "ShardedMemoryCache \<Rightarrow> mem_op \<Rightarrow> ShardedMemoryCache" where
  "mem_apply c (MemSet now key data ttl lm) = fst (SetWithTimestamp now key data ttl lm c)"
| "mem_apply c (MemGet now key) = snd (mem_Get now key c)"
| "mem_apply c (MemDelete key) = mem_Delete key c"
| "mem_apply c (MemClean now) = mem_CleanExpired now c"
| "mem_apply c MemClear = mem_Clear c"
| "mem_apply c (MemSetDisk disk) = SetDiskCacheReference disk c"

lemma map_shards_cache_wf:
  assumes "cache_wf c" and "\<And>n m sh. shard_wf n m sh \<Longrightarrow> shard_wf n m (f sh)"
  shows "cache_wf (c\<lparr>mc_shards := map f (mc_shards c)\<rparr>)"
proof -
  have "cache_ok (c\<lparr>mc_shards := map f (mc_shards c)\<rparr>)" "cache_limits (c\<lparr>mc_shards := map f (mc_shards c)\<rparr>)"
    using assms(1) by (simp_all add: cache_wf_def cache_ok_def cache_limits_def)
  moreover have "shards_wf (c\<lparr>mc_shards := map f (mc_shards c)\<rparr>)"
    using assms by (simp add: cache_wf_def shards_wf_def)
  ultimately show ?thesis by (simp add: cache_wf_def)
qed

lemma mem_apply_wf: "cache_wf c \<Longrightarrow> cache_wf (mem_apply c op)"
proof (cases op)
  case (MemClean now)
  assume "cache_wf c"
  with MemClean show ?thesis by (simp add: mem_CleanExpired_def map_shards_cache_wf shard_clean_wf)
next
  case MemClear
  assume "cache_wf c"
  with MemClear show ?thesis by (simp add: mem_Clear_def map_shards_cache_wf)
next
  case (MemSetDisk b)
  assume "cache_wf c"
  then have "cache_ok c" "cache_limits c" "shards_wf c" by (simp_all add: cache_wf_def)
  then have "cache_ok (SetDiskCacheReference b c)" "cache_limits (SetDiskCacheReference b c)"
    "shards_wf (SetDiskCacheReference b c)"
    by (simp add: SetDiskCacheReference_def cache_ok_def, simp add: SetDiskCacheReference_def cache_limits_def,
        simp add: SetDiskCacheReference_def shards_wf_def)
  with MemSetDisk show ?thesis by (simp add: cache_wf_def)
qed (auto simp: SetWithTimestamp_def mem_Get_def GetWithTimestamp_def mem_Delete_def Let_def
    intro!: at_shard_cache_wf shard_set_wf shard_get_wf shard_delete_wf)

lemma mem_run_wf: "cache_wf c \<Longrightarrow> cache_wf (foldl mem_apply c ops)"
  by (induction ops arbitrary: c) (simp_all add: mem_apply_wf)

lemma memory_shard_count_range: "0 < memory_shard_count numCPU maxItems \<and> memory_shard_count numCPU maxItems \<le> 128"
proof -
  let ?n = "if numCPU * 2 < 4 then 4 else if numCPU * 2 > 64 then 64 else numCPU * 2"
  obtain k where k: "nextPowerOfTwo ?n = 2 ^ k" "2 ^ k < 2 * ?n"
    using nextPowerOfTwo_spec [of ?n] by (fastforce split: if_splits)
  have le: "nextPowerOfTwo ?n \<le> 128" "0 < nextPowerOfTwo ?n" using k by (auto split: if_splits)
  obtain m where "maxPowerOfTwoAtMost maxItems = 2 ^ m" "2 ^ m \<le> max 1 maxItems"
    using maxPowerOfTwoAtMost_spec by blast
  with le show ?thesis by (auto simp: memory_shard_count_def Let_def split: if_splits)
qed

lemma New_cache_wf: "cache_wf (NewShardedMemoryCache numCPU maxItems maxSizeMB)"
proof -
  let ?n = "nat (memory_shard_count numCPU maxItems)"
  have "0 < ?n" "?n < 2 ^ 32" "int ?n = memory_shard_count numCPU maxItems"
    using memory_shard_count_range [of numCPU maxItems] by auto
  then show ?thesis
    by (simp add: cache_wf_def cache_ok_def cache_limits_def shards_wf_def NewShardedMemoryCache_def Let_def)
qed

lemma New_cache_limits [simp]:
  "mc_maxItems (NewShardedMemoryCache numCPU maxItems maxSizeMB) = maxItems"
  "mc_maxSize (NewShardedMemoryCache numCPU maxItems maxSizeMB) = maxSizeMB * 1024 * 1024"
  by (simp_all add: NewShardedMemoryCache_def Let_def)

lemma mem_apply_limits [simp]:
  "mc_maxItems (mem_apply c op) = mc_maxItems c" "mc_maxSize (mem_apply c op) = mc_maxSize c"
  by (cases op; simp add: SetWithTimestamp_def mem_Get_def GetWithTimestamp_def mem_Delete_def Let_def
      mem_CleanExpired_def mem_Clear_def SetDiskCacheReference_def)+

lemma mem_run_limits [simp]:
  "mc_maxItems (foldl mem_apply c ops) = mc_maxItems c" "mc_maxSize (foldl mem_apply c ops) = mc_maxSize c"
  by (induction ops arbitrary: c) simp_all

lemma go_div_share: "0 < b \<Longrightarrow> b * max 0 (go_div a b) \<le> max 0 a"
proof (cases "0 \<le> a")
  case True
  moreover assume "0 < b"
  ultimately have "go_div a b = a div b" "0 \<le> a div b"
    by (cases "a = 0"; simp add: go_div_def sgn_if pos_imp_zdiv_nonneg_iff)+
  moreover have "b * (a div b) \<le> a"
    using \<open>0 < b\<close> minus_mod_eq_mult_div [of a b] pos_mod_sign [of b a] by linarith
  ultimately show ?thesis using True by simp
next
  case False
  moreover assume "0 < b"
  ultimately have "go_div a b \<le> 0" by (simp add: go_div_def sgn_if pos_imp_zdiv_nonneg_iff)
  then show ?thesis by (simp add: max_def)
qed


lemma stats_le:
  assumes "cache_wf c"
  shows "fst (mem_Stats c) \<le> max 0 (mc_maxItems c)" and "snd (mem_Stats c) \<le> max 0 (mc_maxSize c)"
proof -
  let ?n = "int (length (mc_shards c))"
  have pos: "0 < ?n" using assms by (simp add: cache_wf_def cache_ok_def)
  have sh: "shard_wf (mc_itemsPerShard c) (mc_sizePerShard c) sh" if "sh \<in> set (mc_shards c)" for sh
    using assms that by (metis cache_wf_def in_set_conv_nth shards_wf_def)
  then have each: "int (length (sh_items sh)) \<le> max 0 (mc_itemsPerShard c)"
    "sh_currSize sh \<le> max 0 (mc_sizePerShard c)" if "sh \<in> set (mc_shards c)" for sh
    using that by (simp_all add: shard_wf_def)
  have "fst (mem_Stats c) \<le> ?n * max 0 (mc_itemsPerShard c)"
    unfolding mem_Stats_def fst_conv by (rule mem_router.total_le) (rule each)
  moreover have "snd (mem_Stats c) \<le> ?n * max 0 (mc_sizePerShard c)"
    unfolding mem_Stats_def snd_conv by (rule mem_router.total_le) (rule each)
  ultimately show "fst (mem_Stats c) \<le> max 0 (mc_maxItems c)" "snd (mem_Stats c) \<le> max 0 (mc_maxSize c)"
    using assms go_div_share [OF pos] unfolding cache_wf_def cache_limits_def by (metis order_trans)+
qed

lemma stats_exact:
  assumes "cache_wf c"
  shows "snd (mem_Stats c) =
     sum_list (map (\<lambda>sh. sum_list (map (\<lambda>kv. int (length (mi_data (snd kv)))) (sh_items sh))) (mc_shards c))"
proof -
  have "sh_currSize sh = sum_list (map (\<lambda>kv. int (length (mi_data (snd kv)))) (sh_items sh))"
    if "sh \<in> set (mc_shards c)" for sh
  proof -
    have "shard_exact sh"
      using assms that by (metis cache_wf_def in_set_conv_nth shards_wf_def shard_wf_def)
    then show ?thesis
      by (auto simp: shard_exact_def items_wf_def payload_def list_all_iff intro!: arg_cong [of _ _ sum_list])
  qed
  then show ?thesis unfolding mem_Stats_def snd_conv by (intro arg_cong [of _ _ sum_list] map_cong) auto
qed

lemma evict_scan_least:
  "evict_scan best t xs = Some (k, v) \<Longrightarrow> (\<And>b. best = Some b \<Longrightarrow> mi_lastUsed (snd b) = t) \<Longrightarrow>
   mi_lastUsed v \<le> t \<and> (\<forall>kv\<in>set xs. mi_lastUsed v \<le> mi_lastUsed (snd kv))"
proof (induction best t xs rule: evict_scan.induct)
  case (2 best t k' v' xs)
  show ?case
  proof (cases "mi_lastUsed v' < t")
    case True
    with 2(1) [OF True] 2(3,4) show ?thesis by auto
  next
    case False
    with 2(2) [OF False] 2(3,4) show ?thesis by auto
  qed
qed auto

lemma set_then_get:
  assumes "cache_wf c" and "0 < mc_itemsPerShard c" and "int (length data) \<le> mc_sizePerShard c"
    and "evictable (mem_getShard c key)" and "now' \<le> now + ttl"
  shows "fst (GetWithTimestamp now' key (fst (SetWithTimestamp now key data ttl lm c))) = Some (data, lm)
       \<and> (\<forall>k v. k \<noteq> key \<longrightarrow>
            map_of (sh_items (mem_getShard (fst (SetWithTimestamp now key data ttl lm c)) k)) k = Some v \<longrightarrow>
            map_of (sh_items (mem_getShard c k)) k = Some v)"
proof -
  let ?n = "mc_itemsPerShard c" and ?m = "mc_sizePerShard c" and ?sh = "mem_getShard c key"
  let ?f = "fst \<circ> shard_set now (mc_diskCache c) ?n ?m key data ttl lm"
  let ?c = "fst (SetWithTimestamp now key data ttl lm c)"
  have ok: "cache_ok c" using assms(1) by (simp add: cache_wf_def)
  have c': "?c = mem_router.on_key key ?f c" by (simp add: SetWithTimestamp_def Let_def)
  have wf: "shard_wf ?n ?m ?sh"
    using assms(1) mem_router.index_lt [OF ok] by (simp add: mem_getShard_def cache_wf_def shards_wf_def)
  obtain sh' fls where r: "shard_set now (mc_diskCache c) ?n ?m key data ttl lm ?sh = (sh', fls)" by fastforce
  have same: "mem_getShard ?c key = sh'"
    using mem_router.on_key_same [OF ok, of key ?f] r by (simp add: c' mem_getShard_def)
  obtain fit mid where mid: "make_room now (mc_diskCache c) ?n ?m (int (length data)) (shard_delete key ?sh) = (fit, mid, fls)"
    "key \<notin> fst ` set (sh_items mid)" "set (sh_items mid) \<subseteq> set (sh_items ?sh)"
    "sh' = (if fit then mid\<lparr>sh_items := AList.update key (new_item now data ttl lm) (sh_items mid),
             sh_currSize := sh_currSize mid + int (length data)\<rparr> else mid)"
    using wf r assms(2,3) by (cases rule: shard_set_cases) auto
  have "evictable (shard_delete key ?sh)" "shard_exact (shard_delete key ?sh)"
    using assms(4) shard_delete_items [of key ?sh] shard_delete_wf [OF wf]
    by (auto simp: evictable_def list_all_iff shard_wf_def)
  with make_room_ok [OF mid(1) assms(2,3)] have fit by blast
  with mid(4) have sh': "sh_items sh' = AList.update key (new_item now data ttl lm) (sh_items mid)" by simp
  then have "map_of (sh_items sh') key = Some (new_item now data ttl lm)" by (simp add: update_conv')
  then have "fst (GetWithTimestamp now' key ?c) = Some (data, lm)"
    using assms(5) by (simp add: GetWithTimestamp_def same shard_get_def new_item_def)
  moreover have "map_of (sh_items (mem_getShard c k)) k = Some v"
    if k: "k \<noteq> key" "map_of (sh_items (mem_getShard ?c k)) k = Some v" for k v
  proof (cases "mem_index c k = mem_index c key")
    case True
    then have "mem_getShard c k = ?sh" "mem_getShard ?c k = sh'"
      using same by (simp_all add: mem_getShard_def c' at_shard_def put_shards_def mem_index_def)
    with k sh' have "map_of (sh_items mid) k = Some v" by (simp add: update_conv')
    moreover have "distinct (map fst (sh_items ?sh))"
      using wf by (simp add: shard_wf_def shard_exact_def items_wf_def)
    ultimately show ?thesis
      using mid(3) map_of_subset \<open>mem_getShard c k = ?sh\<close> by metis
  next
    case False
    then have "mem_getShard ?c k = mem_getShard c k"
      using mem_router.on_key_other [of c k key ?f] by (simp add: c' mem_getShard_def)
    with k show ?thesis by simp
  qed
  ultimately show ?thesis by blast
qed

lemma set_stored_item:
  assumes "cache_wf c" and "map_of (sh_items (mem_getShard c key)) key = None"
    and "map_of (sh_items (mem_getShard (fst (SetWithTimestamp now key data ttl lm c)) key)) key = Some item"
  shows "item = new_item now data ttl lm"
proof -
  let ?n = "mc_itemsPerShard c" and ?m = "mc_sizePerShard c" and ?sh = "mem_getShard c key"
  let ?f = "fst \<circ> shard_set now (mc_diskCache c) ?n ?m key data ttl lm"
  have ok: "cache_ok c" using assms(1) by (simp add: cache_wf_def)
  have wf: "shard_wf ?n ?m ?sh"
    using assms(1) mem_router.index_lt [OF ok] by (simp add: mem_getShard_def cache_wf_def shards_wf_def)
  obtain sh' fls where r: "shard_set now (mc_diskCache c) ?n ?m key data ttl lm ?sh = (sh', fls)" by fastforce
  have "mem_getShard (fst (SetWithTimestamp now key data ttl lm c)) key = sh'"
    using mem_router.on_key_same [OF ok, of key ?f] r by (simp add: SetWithTimestamp_def Let_def mem_getShard_def)
  with assms(3) have item: "map_of (sh_items sh') key = Some item" by simp
  from wf r show ?thesis
  proof (cases rule: shard_set_cases)
    case 1
    with item assms(2) show ?thesis by simp
  next
    case (2 ok mid)
    then have "map_of (sh_items mid) key = None" by (simp add: map_of_eq_None_iff)
    with 2 item show ?thesis by (auto simp: update_conv' split: if_splits)
  qed
qed

lemma get_miss_absent:
  assumes "cache_wf c" and "fst (GetWithTimestamp now key c) = None"
  shows "map_of (sh_items (mem_getShard (snd (GetWithTimestamp now key c)) key)) key = None"
proof -
  have ok: "cache_ok c" using assms(1) by (simp add: cache_wf_def)
  have "mem_getShard (snd (GetWithTimestamp now key c)) key = snd (shard_get now key (mem_getShard c key))"
    using mem_router.on_key_same [OF ok, of key "snd \<circ> shard_get now key"]
    by (simp add: GetWithTimestamp_def mem_getShard_def)
  with assms(2) show ?thesis
    by (auto simp: GetWithTimestamp_def shard_get_def drop_entry_def delete_conv' split: option.splits if_splits)
qed

section \<open>Properties\<close>

text \<open>C9: the memory budget holds: after any sequence of sets, gets, deletions, clean-ups and clears,
  on any number of processors, the cache holds at most \<open>maxItems\<close> items and \<open>maxSizeMB\<close> megabytes, and
  the bytes it reports are exactly the bytes it holds.\<close>

theorem memory_cache_budget:
  "let c = foldl mem_apply (NewShardedMemoryCache numCPU maxItems maxSizeMB) ops
   in fst (mem_Stats c) \<le> max 0 maxItems \<and> snd (mem_Stats c) \<le> max 0 (maxSizeMB * 1024 * 1024)
    \<and> snd (mem_Stats c) =
        sum_list (map (\<lambda>sh. sum_list (map (\<lambda>kv. int (length (mi_data (snd kv)))) (sh_items sh))) (mc_shards c))"
proof -
  let ?c = "foldl mem_apply (NewShardedMemoryCache numCPU maxItems maxSizeMB) ops"
  have wf: "cache_wf ?c" by (rule mem_run_wf [OF New_cache_wf])
  show ?thesis using stats_le [OF wf] stats_exact [OF wf] by (simp add: Let_def)
qed

text \<open>an item that fits is stored: setting a key and reading it before it expires returns the
  data and its modification time, whatever had to be evicted; and no other key changes its value
  (it is kept or evicted). Eviction needs non-empty keys and use times below the sentinel.\<close>

theorem memory_set_get:
  assumes "cache_wf c" and "0 < mc_itemsPerShard c" and "int (length data) \<le> mc_sizePerShard c"
    and "evictable (mem_getShard c key)" and "now' \<le> now + ttl"
  shows "fst (GetWithTimestamp now' key (fst (SetWithTimestamp now key data ttl lm c))) = Some (data, lm)
       \<and> (\<forall>k v. k \<noteq> key \<longrightarrow>
            map_of (sh_items (mem_getShard (fst (SetWithTimestamp now key data ttl lm c)) k)) k = Some v \<longrightarrow>
            map_of (sh_items (mem_getShard c k)) k = Some v)"
  using assms by (rule set_then_get)

theorem memory_set_get_witness:
  "let c = NewShardedMemoryCache 1 4 1; c' = fst (SetWithTimestamp 100 ''k'' ''value'' 50 7 c)
   in fst (GetWithTimestamp 150 ''k'' c') = Some (''value'', 7)"
proof -
  let ?c = "NewShardedMemoryCache 1 4 1"
  have "0 < mc_itemsPerShard ?c \<and> int (length ''value'') \<le> mc_sizePerShard ?c
      \<and> evictable (mem_getShard ?c ''k'')" by code_simp
  with memory_set_get [OF New_cache_wf, of 1 4 1 "''value''" "''k''" 150 100 50 7] show ?thesis
    by (simp add: Let_def)
qed

text \<open>eviction is least-recently-used: the item removed was used no later than any other item of
  the shard, and it is handed to the disk cache exactly when it has not expired and a disk cache
  is attached.\<close>

theorem memory_evict_lru:
  assumes "evictFromShard now disk shard = Some (shard', fls)"
  shows "\<exists>k v. (k, v) \<in> set (sh_items shard) \<and> shard' = drop_entry k v shard
       \<and> (\<forall>kv\<in>set (sh_items shard). mi_lastUsed v \<le> mi_lastUsed (snd kv))
       \<and> fls = (if now < mi_expiry v \<and> disk then [(k, mi_data v, mi_expiry v)] else [])"
proof -
  from assms obtain k v where kv: "evict_scan None max_int64 (sh_items shard) = Some (k, v)"
    and out: "shard' = drop_entry k v shard"
      "fls = (if now < mi_expiry v \<and> disk then [(k, mi_data v, mi_expiry v)] else [])"
    by (auto simp: evictFromShard_def split: option.splits if_splits)
  from kv have "(k, v) \<in> set (sh_items shard)" using evict_scan_mem by fastforce
  moreover from evict_scan_least [OF kv] have "\<forall>kv\<in>set (sh_items shard). mi_lastUsed v \<le> mi_lastUsed (snd kv)"
    by simp
  ultimately show ?thesis using out by blast
qed

definition two_items :: mem_shard where
  "two_items = \<lparr>sh_items = [(''a'', \<lparr>mi_data = ''xx'', mi_expiry = 90, mi_lastUsed = 5, mi_lastModified = 0, mi_size = 2\<rparr>),
                           (''b'', \<lparr>mi_data = ''y'', mi_expiry = 90, mi_lastUsed = 3, mi_lastModified = 0, mi_size = 1\<rparr>)],
               sh_currSize = 3\<rparr>"

definition without_b :: mem_shard where
  "without_b = \<lparr>sh_items = [(''a'', \<lparr>mi_data = ''xx'', mi_expiry = 90, mi_lastUsed = 5, mi_lastModified = 0, mi_size = 2\<rparr>)],
               sh_currSize = 2\<rparr>"

theorem memory_evict_lru_witness:
  "evictFromShard 10 True two_items = Some (without_b, [(''b'', ''y'', 90)])
   \<and> (\<exists>k v. without_b = drop_entry k v two_items \<and> [(''b'', ''y'', 90)] = [(k, mi_data v, mi_expiry v)])"
proof -
  have e: "evictFromShard 10 True two_items = Some (without_b, [(''b'', ''y'', 90)])" by code_simp
  from memory_evict_lru [OF e] obtain k v where "without_b = drop_entry k v two_items"
    "[(''b'', ''y'', 90)] = (if 10 < mi_expiry v \<and> True then [(k, mi_data v, mi_expiry v)] else [])" by blast
  then have "without_b = drop_entry k v two_items \<and> [(''b'', ''y'', 90)] = [(k, mi_data v, mi_expiry v)]"
    by (auto split: if_splits)
  with e show ?thesis by blast
qed

text \<open>reading an expired item is not atomic. Two readers find the same expired item under the
  read lock; the first removes it, a writer stores a fresh value, and the second reader then removes
  the fresh value and subtracts the old size: the shard is empty but reports a negative size, so
  later inserts may exceed the budget.\<close>

theorem memory_expired_get_race:
  "let item = \<lparr>mi_data = ''old'', mi_expiry = 10, mi_lastUsed = 1, mi_lastModified = 0, mi_size = 3\<rparr>;
       shard = \<lparr>sh_items = [(''k'', item)], sh_currSize = 3\<rparr>;
       first = snd (shard_get 20 ''k'' shard);
       fresh = fst (shard_set 20 False 4 100 ''k'' ''v'' 50 0 first);
       second = drop_entry ''k'' item fresh
   in shard_exact shard \<and> map_of (sh_items shard) ''k'' = Some item
    \<and> map_option mi_data (fst (shard_get 30 ''k'' fresh)) = Some ''v''
    \<and> fst (shard_get 30 ''k'' second) = None \<and> sh_items second = [] \<and> sh_currSize second = - 2"
  by code_simp

end
