(* ===== verification/Disk_Cache.thy ===== *)
theory Disk_Cache
  imports Shard_Hash
begin

text \<open>
  The disk cache: one shard (\<^verbatim>\<open>src/util/cache/disk_cache.go\<close>) and the sharded cache above it
  (\<^verbatim>\<open>src/util/cache/sharded_disk_cache.go\<close>).

  A shard's directory is part of its state: the data files and the \<open>.meta\<close> files by name. The
  name of a key's file is a parameter \<open>fname\<close>, the hexadecimal MD5 digest in the code; two keys of one
  shard share a file only if the digests collide. Input and output may fail: an \<open>io\<close> value says
  which operations of a call succeed.
\<close>

section \<open>Model: one shard\<close>

record diskCacheMetadata =
  dm_Key :: string
  dm_Expiry :: time
  dm_LastUsed :: time
  dm_Size :: int
  dm_LastModified :: time

record DiskCache =
  dc_maxSizeMB :: int
  dc_metadata :: "(string \<times> diskCacheMetadata) list"
  dc_currSize :: int
  dc_files :: "string \<rightharpoonup> string"
  dc_metaFiles :: "string \<rightharpoonup> diskCacheMetadata"

record disk_io =
  io_mkdir :: bool
  io_write :: bool
  io_writeMeta :: bool
  io_read :: bool
  io_remove :: "string \<Rightarrow> bool"

datatype disk_error = TooLarge | MkdirFailed | WriteFailed | MetaFailed | ReadFailed | NotExist

definition disk_max :: "DiskCache \<Rightarrow> int" where
  "disk_max c = dc_maxSizeMB c * 1024 * 1024"

definition emptyDisk :: "int \<Rightarrow> DiskCache" where
  "emptyDisk maxSizeMB =
     \<lparr>dc_maxSizeMB = maxSizeMB, dc_metadata = [], dc_currSize = 0, dc_files = (\<lambda>_. None), dc_metaFiles = (\<lambda>_. None)\<rparr>"

text \<open>\<open>loadMetadata\<close> at start: the names of the directory's plain files in listing order. A name
  with \<open>.meta\<close> has no metadata of its own and is skipped by the failing read.\<close>

fun loadMetadata :: "string list \<Rightarrow> DiskCache \<Rightarrow> DiskCache" where
  "loadMetadata [] c = c"
| "loadMetadata (file # files) c =
     (if file = ''metadata.json'' then loadMetadata files c
      else (case dc_metaFiles c file of
              None \<Rightarrow> loadMetadata files c
            | Some meta \<Rightarrow>
                loadMetadata files
                  (c\<lparr>dc_currSize := dc_currSize c + dm_Size meta,
                     dc_metadata := AList.update (dm_Key meta) meta (dc_metadata c)\<rparr>)))"

definition remove_files :: "(string \<Rightarrow> string) \<Rightarrow> string \<Rightarrow> DiskCache \<Rightarrow> DiskCache" where
  "remove_files fname key c =
     c\<lparr>dc_files := (dc_files c)(fname key := None), dc_metaFiles := (dc_metaFiles c)(fname key := None)\<rparr>"

definition forget :: "string \<Rightarrow> int \<Rightarrow> DiskCache \<Rightarrow> DiskCache" where
  "forget key sz c =
     c\<lparr>dc_currSize := dc_currSize c - sz, dc_metadata := AList.delete key (dc_metadata c)\<rparr>"

fun evict_loop :: "(string \<Rightarrow> string) \<Rightarrow> disk_io \<Rightarrow> int \<Rightarrow> (string \<times> diskCacheMetadata) list \<Rightarrow> DiskCache \<Rightarrow> DiskCache" where
  "evict_loop fname io requiredSpace [] c = c"
| "evict_loop fname io requiredSpace ((key, meta) # items) c =
     (if dc_currSize c + requiredSpace \<le> disk_max c then c
      else evict_loop fname io requiredSpace items
             (if io_remove io key then forget key (dm_Size meta) (remove_files fname key c) else c))"

definition evictLRU :: "(string \<Rightarrow> string) \<Rightarrow> disk_io \<Rightarrow> int \<Rightarrow> DiskCache \<Rightarrow> DiskCache" where
  "evictLRU fname io requiredSpace c =
     evict_loop fname io requiredSpace (sort_key (\<lambda>kv. dm_LastUsed (snd kv)) (dc_metadata c)) c"

definition drop_old :: "(string \<Rightarrow> string) \<Rightarrow> string \<Rightarrow> DiskCache \<Rightarrow> DiskCache" where
  "drop_old fname key c =
     (case map_of (dc_metadata c) key of
        None \<Rightarrow> c
      | Some meta \<Rightarrow> remove_files fname key (c\<lparr>dc_currSize := dc_currSize c - dm_Size meta\<rparr>))"

definition make_space :: "(string \<Rightarrow> string) \<Rightarrow> disk_io \<Rightarrow> int \<Rightarrow> DiskCache \<Rightarrow> DiskCache" where
  "make_space fname io len c =
     (if dc_currSize c + len > disk_max c then evictLRU fname io len c else c)"

definition new_meta :: "time \<Rightarrow> string \<Rightarrow> duration \<Rightarrow> string \<Rightarrow> diskCacheMetadata" where
  "new_meta now key ttl data =
     \<lparr>dm_Key = key, dm_Expiry = now + ttl, dm_LastUsed = now, dm_Size = int (length data), dm_LastModified = now\<rparr>"

definition disk_Set :: "(string \<Rightarrow> string) \<Rightarrow> disk_io \<Rightarrow> time \<Rightarrow> string \<Rightarrow> string \<Rightarrow> duration \<Rightarrow> DiskCache \<Rightarrow>
    disk_error option \<times> DiskCache" where
  "disk_Set fname io now key data ttl c =
     (if int (length data) > disk_max c then (Some TooLarge, c)
      else let c = make_space fname io (int (length data)) (drop_old fname key c)
           in if \<not> io_mkdir io then (Some MkdirFailed, c)
              else if \<not> io_write io then (Some WriteFailed, c)
              else if \<not> io_writeMeta io then (Some MetaFailed, c\<lparr>dc_files := (dc_files c)(fname key := None)\<rparr>)
              else (None, c\<lparr>dc_files := (dc_files c)(fname key \<mapsto> data),
                            dc_metaFiles := (dc_metaFiles c)(fname key \<mapsto> new_meta now key ttl data),
                            dc_metadata := AList.update key (new_meta now key ttl data) (dc_metadata c),
                            dc_currSize := dc_currSize c + int (length data)\<rparr>))"

definition disk_Delete :: "(string \<Rightarrow> string) \<Rightarrow> string \<Rightarrow> DiskCache \<Rightarrow> DiskCache" where
  "disk_Delete fname key c =
     (case map_of (dc_metadata c) key of
        None \<Rightarrow> c
      | Some meta \<Rightarrow> forget key (dm_Size meta) (remove_files fname key c))"

text \<open>\<open>GetWithTTL\<close> reads the clock before and after the file: \<open>now\<close> and \<open>later\<close>.\<close>

definition disk_touch :: "time \<Rightarrow> string \<Rightarrow> DiskCache \<Rightarrow> DiskCache" where
  "disk_touch now key c =
     c\<lparr>dc_metadata := map (\<lambda>(k, m). (k, if k = key then m\<lparr>dm_LastUsed := now\<rparr> else m)) (dc_metadata c)\<rparr>"

definition disk_GetWithTTL :: "(string \<Rightarrow> string) \<Rightarrow> disk_io \<Rightarrow> time \<Rightarrow> time \<Rightarrow> string \<Rightarrow> DiskCache \<Rightarrow>
    (disk_error + (string \<times> duration) option) \<times> DiskCache" where
  "disk_GetWithTTL fname io now later key c =
     (case map_of (dc_metadata c) key of
        None \<Rightarrow> (Inr None, c)
      | Some meta \<Rightarrow>
          (if dm_Expiry meta - now \<le> 0 then (Inr None, disk_Delete fname key c)
           else (case dc_files c (fname key) of
                   None \<Rightarrow> (Inl NotExist, disk_Delete fname key c)
                 | Some data \<Rightarrow>
                     if \<not> io_read io then (Inl ReadFailed, c)
                     else if dm_Expiry meta - later \<le> 0
                     then (Inr None, disk_Delete fname key (disk_touch later key c))
                     else (Inr (Some (data, dm_Expiry meta - later)), disk_touch later key c))))"

definition disk_Get :: "(string \<Rightarrow> string) \<Rightarrow> disk_io \<Rightarrow> time \<Rightarrow> time \<Rightarrow> string \<Rightarrow> DiskCache \<Rightarrow>
    (disk_error + string option) \<times> DiskCache" where
  "disk_Get fname io now later key c =
     (case disk_GetWithTTL fname io now later key c of
        (Inl e, c') \<Rightarrow> (Inl e, c')
      | (Inr r, c') \<Rightarrow> (Inr (map_option fst r), c'))"

definition disk_Has :: "time \<Rightarrow> string \<Rightarrow> DiskCache \<Rightarrow> bool" where
  "disk_Has now key c =
     (case map_of (dc_metadata c) key of None \<Rightarrow> False | Some meta \<Rightarrow> \<not> now > dm_Expiry meta)"

fun disk_clean_loop :: "(string \<Rightarrow> string) \<Rightarrow> disk_io \<Rightarrow> time \<Rightarrow> (string \<times> diskCacheMetadata) list \<Rightarrow> DiskCache \<Rightarrow> DiskCache" where
  "disk_clean_loop fname io now [] c = c"
| "disk_clean_loop fname io now ((key, meta) # items) c =
     disk_clean_loop fname io now items
       (if now > dm_Expiry meta \<and> io_remove io key then forget key (dm_Size meta) (remove_files fname key c) else c)"

definition disk_cleanExpired :: "(string \<Rightarrow> string) \<Rightarrow> disk_io \<Rightarrow> time \<Rightarrow> DiskCache \<Rightarrow> DiskCache" where
  "disk_cleanExpired fname io now c = disk_clean_loop fname io now (dc_metadata c) c"

definition disk_Clear :: "DiskCache \<Rightarrow> DiskCache" where
  "disk_Clear c = c\<lparr>dc_files := (\<lambda>_. None), dc_metaFiles := (\<lambda>_. None), dc_metadata := [], dc_currSize := 0\<rparr>"

definition disk_GetLastModified :: "string \<Rightarrow> DiskCache \<Rightarrow> time option" where
  "disk_GetLastModified key c = map_option dm_LastModified (map_of (dc_metadata c) key)"

section \<open>Model: the sharded disk cache\<close>

record ShardedDiskCache =
  sd_shardCount :: int
  sd_shardMask :: "32 word"
  sd_shards :: "DiskCache list"
  sd_maxSizeMB :: int

definition disk_shard_count :: "int \<Rightarrow> int" where
  "disk_shard_count numCPU =
     (let shardCount = numCPU * 2;
          shardCount = (if shardCount < 4 then 4 else shardCount);
          shardCount = (if shardCount > 32 then 32 else shardCount)
      in nextPowerOfTwo shardCount)"

definition newShardedDiskCacheWithCount :: "int \<Rightarrow> int \<Rightarrow> ShardedDiskCache option" where
  "newShardedDiskCacheWithCount shardCount maxSizeMB =
     (if maxSizeMB \<le> 0 then None
      else let shardCount = (if shardCount > maxSizeMB then maxSizeMB else shardCount);
               shardSize = go_div maxSizeMB shardCount
           in Some \<lparr>sd_shardCount = shardCount, sd_shardMask = word_of_int (shardCount - 1),
                    sd_shards = replicate (nat shardCount) (emptyDisk shardSize), sd_maxSizeMB = maxSizeMB\<rparr>)"

definition NewOptimizedShardedDiskCache :: "int \<Rightarrow> int \<Rightarrow> ShardedDiskCache option" where
  "NewOptimizedShardedDiskCache numCPU maxSizeMB = newShardedDiskCacheWithCount (disk_shard_count numCPU) maxSizeMB"

definition sd_index :: "ShardedDiskCache \<Rightarrow> string \<Rightarrow> nat" where
  "sd_index c key = shardIndex (sd_shardMask c) key"

definition put_disks :: "DiskCache list \<Rightarrow> ShardedDiskCache \<Rightarrow> ShardedDiskCache" where
  "put_disks xs c = c\<lparr>sd_shards := xs\<rparr>"

definition sd_getShard :: "ShardedDiskCache \<Rightarrow> string \<Rightarrow> DiskCache" where
  "sd_getShard c key = sd_shards c ! sd_index c key"

definition sd_Set :: "(string \<Rightarrow> string) \<Rightarrow> disk_io \<Rightarrow> time \<Rightarrow> string \<Rightarrow> string \<Rightarrow> duration \<Rightarrow> ShardedDiskCache \<Rightarrow>
    disk_error option \<times> ShardedDiskCache" where
  "sd_Set fname io now key data ttl c =
     (fst (disk_Set fname io now key data ttl (sd_getShard c key)),
      at_shard sd_shards put_disks (sd_index c key) (snd \<circ> disk_Set fname io now key data ttl) c)"

definition sd_GetWithTTL :: "(string \<Rightarrow> string) \<Rightarrow> disk_io \<Rightarrow> time \<Rightarrow> time \<Rightarrow> string \<Rightarrow> ShardedDiskCache \<Rightarrow>
    (disk_error + (string \<times> duration) option) \<times> ShardedDiskCache" where
  "sd_GetWithTTL fname io now later key c =
     (fst (disk_GetWithTTL fname io now later key (sd_getShard c key)),
      at_shard sd_shards put_disks (sd_index c key) (snd \<circ> disk_GetWithTTL fname io now later key) c)"

definition sd_Delete :: "(string \<Rightarrow> string) \<Rightarrow> string \<Rightarrow> ShardedDiskCache \<Rightarrow> ShardedDiskCache" where
  "sd_Delete fname key c = at_shard sd_shards put_disks (sd_index c key) (disk_Delete fname key) c"

definition sd_Has :: "time \<Rightarrow> string \<Rightarrow> ShardedDiskCache \<Rightarrow> bool" where
  "sd_Has now key c = disk_Has now key (sd_getShard c key)"

definition sd_Clear :: "ShardedDiskCache \<Rightarrow> ShardedDiskCache" where
  "sd_Clear c = c\<lparr>sd_shards := map disk_Clear (sd_shards c)\<rparr>"

definition sd_GetLastModified :: "string \<Rightarrow> ShardedDiskCache \<Rightarrow> time option" where
  "sd_GetLastModified key c = disk_GetLastModified key (sd_getShard c key)"

definition sd_Stats :: "ShardedDiskCache \<Rightarrow> int \<times> int" where
  "sd_Stats c =
     (sum_list (map (\<lambda>sh. int (length (dc_metadata sh))) (sd_shards c)), sum_list (map dc_currSize (sd_shards c)))"

definition sd_cleanExpired :: "(string \<Rightarrow> string) \<Rightarrow> disk_io \<Rightarrow> time \<Rightarrow> ShardedDiskCache \<Rightarrow> ShardedDiskCache" where
  "sd_cleanExpired fname io now c = c\<lparr>sd_shards := map (disk_cleanExpired fname io now) (sd_shards c)\<rparr>"

definition sd_GetShardIndex :: "ShardedDiskCache \<Rightarrow> string \<Rightarrow> int" where
  "sd_GetShardIndex c key =
     (if sd_shardMask c > 0 then int (shardIndex (sd_shardMask c) key)
      else uint (fnv32a key) mod sd_shardCount c)"

section \<open>Invariant of a shard\<close>

text \<open>The size counter is the sum of the sizes, and every entry has its data file of that size.\<close>

definition entry_ok :: "(string \<Rightarrow> string) \<Rightarrow> DiskCache \<Rightarrow> string \<times> diskCacheMetadata \<Rightarrow> bool" where
  "entry_ok fname c kv \<longleftrightarrow>
     (case dc_files c (fname (fst kv)) of None \<Rightarrow> False | Some data \<Rightarrow> dm_Size (snd kv) = int (length data))"

definition disk_bytes :: "(string \<times> diskCacheMetadata) list \<Rightarrow> int" where
  "disk_bytes ms = sum_list (map (\<lambda>kv. dm_Size (snd kv)) ms)"

definition disk_exact :: "(string \<Rightarrow> string) \<Rightarrow> DiskCache \<Rightarrow> bool" where
  "disk_exact fname c \<longleftrightarrow>
     distinct (map fst (dc_metadata c)) \<and> inj_on fname (fst ` set (dc_metadata c))
   \<and> dc_currSize c = disk_bytes (dc_metadata c) \<and> (\<forall>kv\<in>set (dc_metadata c). entry_ok fname c kv)"

lemma disk_bytes_simps [simp]: "disk_bytes [] = 0" "disk_bytes (kv # ms) = dm_Size (snd kv) + disk_bytes ms"
  by (simp_all add: disk_bytes_def)

lemma disk_bytes_delete:
  "distinct (map fst ms) \<Longrightarrow> (k, v) \<in> set ms \<Longrightarrow> disk_bytes (AList.delete k ms) = disk_bytes ms - dm_Size v"
  by (induction ms) (auto simp: delete_idem, force simp: delete_idem)

lemma key_unique:
  "distinct (map fst ms) \<Longrightarrow> (k, v) \<in> set ms \<Longrightarrow> kv \<in> set ms \<Longrightarrow> fst kv = k \<Longrightarrow> kv = (k, v)"
  by (cases kv) (auto dest: eq_key_imp_eq_value)

text \<open>Removing one entry with its files.\<close>

abbreviation remove_entry :: "(string \<Rightarrow> string) \<Rightarrow> string \<Rightarrow> int \<Rightarrow> DiskCache \<Rightarrow> DiskCache" where
  "remove_entry fname key sz c \<equiv> forget key sz (remove_files fname key c)"

lemma remove_entry_fields [simp]:
  "dc_metadata (remove_entry fname key sz c) = AList.delete key (dc_metadata c)"
  "dc_currSize (remove_entry fname key sz c) = dc_currSize c - sz"
  "dc_files (remove_entry fname key sz c) = (dc_files c)(fname key := None)"
  "disk_max (remove_entry fname key sz c) = disk_max c"
  by (simp_all add: forget_def remove_files_def disk_max_def)

lemma remove_entry_exact:
  assumes "disk_exact fname c" and "(key, meta) \<in> set (dc_metadata c)"
  shows "disk_exact fname (remove_entry fname key (dm_Size meta) c)"
proof -
  have sub: "set (AList.delete key (dc_metadata c)) = {kv \<in> set (dc_metadata c). fst kv \<noteq> key}"
    by (auto simp: AList.delete_eq)
  have d: "distinct (map fst (dc_metadata c))" and inj: "inj_on fname (fst ` set (dc_metadata c))"
    using assms(1) by (simp_all add: disk_exact_def)
  have "entry_ok fname (remove_entry fname key (dm_Size meta) c) kv"
    if "kv \<in> set (dc_metadata c)" "fst kv \<noteq> key" for kv
  proof -
    have "fname (fst kv) \<noteq> fname key"
      using inj that assms(2) by (metis image_eqI inj_onD fst_conv)
    with assms(1) that show ?thesis by (simp add: disk_exact_def entry_ok_def)
  qed
  moreover have "inj_on fname (fst ` {kv \<in> set (dc_metadata c). fst kv \<noteq> key})"
    by (rule inj_on_subset [OF inj]) auto
  moreover have "distinct (map fst (AList.delete key (dc_metadata c)))" using d by (rule distinct_delete)
  ultimately show ?thesis
    using assms disk_bytes_delete [OF d assms(2)] by (simp add: disk_exact_def sub)
qed

lemma evict_loop_spec:
  assumes "disk_exact fname c" and "set items \<subseteq> set (dc_metadata c)" and "distinct (map fst items)"
    and "\<And>k. io_remove io k"
  shows "let c' = evict_loop fname io req items c
         in disk_exact fname c' \<and> disk_max c' = disk_max c \<and> set (dc_metadata c') \<subseteq> set (dc_metadata c)
          \<and> (dc_currSize c' + req \<le> disk_max c \<or> set (dc_metadata c') = set (dc_metadata c) - set items)"
  using assms(1-3)
proof (induction items arbitrary: c)
  case (Cons kv items)
  obtain k m where kv: "kv = (k, m)" by fastforce
  let ?c = "remove_entry fname k (dm_Size m) c"
  show ?case
  proof (cases "dc_currSize c + req \<le> disk_max c")
    case True
    with Cons.prems kv show ?thesis by simp
  next
    case False
    have mem: "(k, m) \<in> set (dc_metadata c)" using Cons.prems kv by simp
    have meta: "set (AList.delete k (dc_metadata c)) = set (dc_metadata c) - {(k, m)}"
      using Cons.prems(1) key_unique [OF _ mem] by (auto simp: AList.delete_eq disk_exact_def)
    have sub: "set items \<subseteq> set (dc_metadata ?c)" using Cons.prems kv meta by (auto simp: image_iff)
    have ex: "disk_exact fname ?c" using Cons.prems(1) mem by (rule remove_entry_exact)
    have "distinct (map fst items)" using Cons.prems(3) by simp
    from Cons.IH [OF ex sub this] False kv meta assms(4) show ?thesis
      by (auto simp: Let_def split: if_splits)
  qed
qed (simp add: Let_def)

lemma evictLRU_spec:
  assumes "disk_exact fname c" and "\<And>k. io_remove io k" and "req \<le> disk_max c"
  shows "let c' = evictLRU fname io req c
         in disk_exact fname c' \<and> disk_max c' = disk_max c \<and> set (dc_metadata c') \<subseteq> set (dc_metadata c)
          \<and> dc_currSize c' + req \<le> disk_max c"
proof -
  let ?items = "sort_key (\<lambda>kv. dm_LastUsed (snd kv)) (dc_metadata c)"
  let ?c = "evict_loop fname io req ?items c"
  have d: "distinct (map fst ?items)"
    using assms(1) by (simp add: disk_exact_def distinct_map)
  from evict_loop_spec [OF assms(1) _ d assms(2), of req]
  have r: "disk_exact fname ?c" "disk_max ?c = disk_max c" "set (dc_metadata ?c) \<subseteq> set (dc_metadata c)"
    "dc_currSize ?c + req \<le> disk_max c \<or> set (dc_metadata ?c) = set (dc_metadata c) - set ?items"
    by (simp_all add: Let_def)
  have "dc_currSize ?c + req \<le> disk_max c"
  proof (rule disjE [OF r(4)])
    assume "set (dc_metadata ?c) = set (dc_metadata c) - set ?items"
    then have "dc_metadata ?c = []" by simp
    with r(1) assms(3) show ?thesis by (simp add: disk_exact_def)
  qed
  with r show ?thesis by (simp add: evictLRU_def Let_def)
qed

text \<open>Storing a key whose old entry, if any, is already out of the counter.\<close>

definition store :: "(string \<Rightarrow> string) \<Rightarrow> time \<Rightarrow> string \<Rightarrow> string \<Rightarrow> duration \<Rightarrow> DiskCache \<Rightarrow> DiskCache" where
  "store fname now key data ttl c =
     c\<lparr>dc_files := (dc_files c)(fname key \<mapsto> data),
       dc_metaFiles := (dc_metaFiles c)(fname key \<mapsto> new_meta now key ttl data),
       dc_metadata := AList.update key (new_meta now key ttl data) (dc_metadata c),
       dc_currSize := dc_currSize c + int (length data)\<rparr>"

lemma disk_bytes_update:
  "distinct (map fst ms) \<Longrightarrow> disk_bytes (AList.update k v ms) = disk_bytes (AList.delete k ms) + dm_Size v"
  by (induction ms) (auto simp: delete_idem)

lemma set_update_distinct:
  "distinct (map fst ms) \<Longrightarrow> set (AList.update k v ms) = insert (k, v) {kv \<in> set ms. fst kv \<noteq> k}"
  by (induction ms) (auto simp: rev_image_eqI)

lemma store_exact:
  assumes "distinct (map fst (dc_metadata c))" and "inj_on fname (insert key (fst ` set (dc_metadata c)))"
    and "dc_currSize c = disk_bytes (AList.delete key (dc_metadata c))"
    and "\<And>kv. kv \<in> set (dc_metadata c) \<Longrightarrow> fst kv \<noteq> key \<Longrightarrow> entry_ok fname c kv"
  shows "disk_exact fname (store fname now key data ttl c)"
proof -
  let ?c = "store fname now key data ttl c"
  have set: "set (dc_metadata ?c) = insert (key, new_meta now key ttl data) {kv \<in> set (dc_metadata c). fst kv \<noteq> key}"
    using assms(1) by (simp add: store_def set_update_distinct)
  have "entry_ok fname ?c kv" if "kv \<in> set (dc_metadata c)" "fst kv \<noteq> key" for kv
  proof -
    have "fname (fst kv) \<noteq> fname key" using assms(2) that by (metis image_eqI inj_onD insertCI)
    with assms(4) [OF that] show ?thesis by (simp add: store_def entry_ok_def)
  qed
  moreover have "entry_ok fname ?c (key, new_meta now key ttl data)"
    by (simp add: store_def entry_ok_def new_meta_def)
  ultimately have "\<forall>kv\<in>set (dc_metadata ?c). entry_ok fname ?c kv" unfolding set by blast
  moreover have "inj_on fname (fst ` set (dc_metadata ?c))"
    unfolding set by (rule inj_on_subset [OF assms(2)]) auto
  ultimately show ?thesis
    using assms(1,3) by (simp add: disk_exact_def)
      (simp add: store_def distinct_update disk_bytes_update new_meta_def)
qed

definition io_ok :: "disk_io \<Rightarrow> bool" where
  "io_ok io \<longleftrightarrow> io_mkdir io \<and> io_write io \<and> io_writeMeta io \<and> io_read io \<and> (\<forall>k. io_remove io k)"

text \<open>The bytes of the old version of a key, which \<open>Set\<close> takes out of the counter first.\<close>

definition old_size :: "string \<Rightarrow> DiskCache \<Rightarrow> int" where
  "old_size key c = (case map_of (dc_metadata c) key of None \<Rightarrow> 0 | Some meta \<Rightarrow> dm_Size meta)"

lemma disk_Set_store:
  assumes "io_ok io" and "int (length data) \<le> disk_max c"
  shows "disk_Set fname io now key data ttl c =
     (None, store fname now key data ttl (make_space fname io (int (length data)) (drop_old fname key c)))"
  using assms by (simp add: disk_Set_def io_ok_def store_def Let_def)

lemma disk_Set_exact:
  assumes "disk_exact fname c" and "inj_on fname (insert key (fst ` set (dc_metadata c)))"
    and "io_ok io" and "int (length data) \<le> disk_max c"
    and "map_of (dc_metadata c) key = None \<or> dc_currSize c - old_size key c + int (length data) \<le> disk_max c"
  shows "disk_exact fname (snd (disk_Set fname io now key data ttl c))
       \<and> dc_currSize (snd (disk_Set fname io now key data ttl c)) \<le> disk_max c"
proof (cases "map_of (dc_metadata c) key")
  case None
  let ?m = "make_space fname io (int (length data)) c"
  have rm: "io_remove io k" for k using assms(3) by (simp add: io_ok_def)
  have ev: "disk_exact fname ?m \<and> set (dc_metadata ?m) \<subseteq> set (dc_metadata c)
      \<and> dc_currSize ?m + int (length data) \<le> disk_max c"
    using assms(1) evictLRU_spec [OF assms(1) rm assms(4)] by (auto simp: make_space_def Let_def)
  have absent: "key \<notin> fst ` set (dc_metadata ?m)" using None ev by (auto simp: map_of_eq_None_iff)
  have "inj_on fname (insert key (fst ` set (dc_metadata ?m)))"
    by (rule inj_on_subset [OF assms(2)]) (use ev in auto)
  with ev absent have "disk_exact fname (store fname now key data ttl ?m)"
    by (intro store_exact) (auto simp: disk_exact_def delete_idem)
  moreover have "dc_currSize (store fname now key data ttl ?m) \<le> disk_max c" using ev by (simp add: store_def)
  ultimately show ?thesis using None assms(3,4) by (simp add: disk_Set_store drop_old_def)
next
  case (Some meta)
  let ?d = "drop_old fname key c"
  have mem: "(key, meta) \<in> set (dc_metadata c)" using Some by (rule map_of_SomeD)
  have d: "?d = remove_files fname key (c\<lparr>dc_currSize := dc_currSize c - dm_Size meta\<rparr>)"
    using Some by (simp add: drop_old_def)
  have fits: "dc_currSize c - dm_Size meta + int (length data) \<le> disk_max c"
    using assms(5) Some by (simp add: old_size_def)
  then have ms: "make_space fname io (int (length data)) ?d = ?d"
    by (simp add: make_space_def d remove_files_def disk_max_def)
  have keep: "entry_ok fname ?d kv" if "kv \<in> set (dc_metadata c)" "fst kv \<noteq> key" for kv
  proof -
    have "fname (fst kv) \<noteq> fname key" using assms(2) that by (metis image_eqI inj_onD insertCI)
    with assms(1) that show ?thesis by (simp add: d remove_files_def disk_exact_def entry_ok_def)
  qed
  have "disk_exact fname (store fname now key data ttl ?d)"
    using assms(1,2) disk_bytes_delete [OF _ mem] keep
    by (intro store_exact) (simp_all add: d remove_files_def disk_exact_def)
  with fits ms assms(3,4) show ?thesis by (simp add: disk_Set_store store_def d remove_files_def)
qed

lemma disk_Delete_exact: "disk_exact fname c \<Longrightarrow> disk_exact fname (disk_Delete fname key c)"
  by (auto simp: disk_Delete_def remove_entry_exact map_of_SomeD split: option.split)

lemma disk_touch_fields:
  "map fst (dc_metadata (disk_touch now key c)) = map fst (dc_metadata c)"
  "disk_bytes (dc_metadata (disk_touch now key c)) = disk_bytes (dc_metadata c)"
  "dc_currSize (disk_touch now key c) = dc_currSize c" "dc_files (disk_touch now key c) = dc_files c"
  by (auto simp: disk_touch_def disk_bytes_def comp_def case_prod_unfold intro!: arg_cong [of _ _ sum_list])

lemma disk_touch_exact: "disk_exact fname c \<Longrightarrow> disk_exact fname (disk_touch now key c)"
proof -
  assume ex: "disk_exact fname c"
  have keys: "fst ` set (dc_metadata (disk_touch now key c)) = fst ` set (dc_metadata c)"
    using disk_touch_fields(1) [of now key c] by (metis image_set)
  have "\<forall>kv\<in>set (dc_metadata (disk_touch now key c)). entry_ok fname (disk_touch now key c) kv"
  proof
    fix kv assume "kv \<in> set (dc_metadata (disk_touch now key c))"
    then obtain k m where "(k, m) \<in> set (dc_metadata c)"
      and "kv = (k, if k = key then m\<lparr>dm_LastUsed := now\<rparr> else m)"
      by (auto simp: disk_touch_def)
    with ex show "entry_ok fname (disk_touch now key c) kv"
      by (fastforce simp: disk_exact_def entry_ok_def disk_touch_fields split: option.splits)
  qed
  with ex keys show ?thesis by (simp add: disk_exact_def disk_touch_fields)
qed

lemma disk_GetWithTTL_exact:
  "disk_exact fname c \<Longrightarrow> disk_exact fname (snd (disk_GetWithTTL fname io now later key c))"
  by (auto simp: disk_GetWithTTL_def disk_Delete_exact disk_touch_exact split: option.split)

section \<open>Sharding\<close>

definition disks_ok :: "ShardedDiskCache \<Rightarrow> bool" where
  "disks_ok c \<longleftrightarrow> 0 < sd_shardCount c \<and> sd_shardCount c < 2 ^ 32 \<and> length (sd_shards c) = nat (sd_shardCount c)
     \<and> sd_shardMask c = word_of_int (sd_shardCount c - 1)"

lemma disks_index_lt: "disks_ok c \<Longrightarrow> sd_index c k < length (sd_shards c)"
proof -
  assume ok: "disks_ok c"
  then have "sd_shardCount c - 1 = int (nat (sd_shardCount c) - 1)" by (auto simp: disks_ok_def)
  with ok have "sd_shardMask c = word_of_nat (nat (sd_shardCount c) - 1)"
    unfolding disks_ok_def by (metis of_int_of_nat_eq)
  with ok show ?thesis unfolding sd_index_def
    by (auto intro!: shardIndex_lt simp: disks_ok_def nat_less_iff)
qed

interpretation disk_router: shard_router sd_shards put_disks sd_index disks_ok
proof unfold_locales
  fix c k assume "disks_ok c"
  then show "sd_index c k < length (sd_shards c)" by (rule disks_index_lt)
qed (simp_all add: put_disks_def sd_index_def disks_ok_def)

section \<open>Properties\<close>

text \<open>C34: a set on a healthy disk succeeds for every value that fits into a shard, and the value can be read
  back, with its remaining lifetime, until it expires. Provided that the key is new, or that its value is
  replaced without an eviction, the accounting stays exact and the shard within its budget. (When replacing
  needs an eviction the code breaks both: \<open>disk_replace_exceeds_budget\<close>.)\<close>

theorem disk_set_get:
  assumes "disk_exact fname c" and "inj_on fname (insert key (fst ` set (dc_metadata c)))"
    and "io_ok io" and "int (length data) \<le> disk_max c"
    and "now' \<le> later" and "later < now + ttl"
  shows "let c' = snd (disk_Set fname io now key data ttl c)
         in fst (disk_Set fname io now key data ttl c) = None
          \<and> fst (disk_GetWithTTL fname io now' later key c') = Inr (Some (data, now + ttl - later))
          \<and> (map_of (dc_metadata c) key = None \<or> dc_currSize c - old_size key c + int (length data) \<le> disk_max c
               \<longrightarrow> disk_exact fname c' \<and> dc_currSize c' \<le> disk_max c)"
proof -
  let ?c = "snd (disk_Set fname io now key data ttl c)"
  have "map_of (dc_metadata ?c) key = Some (new_meta now key ttl data)" "dc_files ?c (fname key) = Some data"
    "fst (disk_Set fname io now key data ttl c) = None"
    using assms(3,4) by (simp_all add: disk_Set_store store_def update_conv')
  moreover have "map_of (dc_metadata c) key = None \<or> dc_currSize c - old_size key c + int (length data) \<le> disk_max c \<Longrightarrow>
      disk_exact fname ?c \<and> dc_currSize ?c \<le> disk_max c" by (rule disk_Set_exact [OF assms(1-4)])
  ultimately show ?thesis
    using assms(3,5,6) by (simp add: Let_def disk_GetWithTTL_def new_meta_def io_ok_def)
qed

definition good_io :: disk_io where
  "good_io = \<lparr>io_mkdir = True, io_write = True, io_writeMeta = True, io_read = True, io_remove = (\<lambda>_. True)\<rparr>"

theorem disk_set_get_witness:
  "let c' = snd (disk_Set (\<lambda>k. k) good_io 100 ''k'' ''data'' 50 (emptyDisk 1))
   in dc_currSize c' = 4 \<and> disk_exact (\<lambda>k. k) c'
    \<and> fst (disk_GetWithTTL (\<lambda>k. k) good_io 120 130 ''k'' c') = Inr (Some (''data'', 20))"
proof -
  let ?c = "snd (disk_Set (\<lambda>k. k) good_io 100 ''k'' ''data'' 50 (emptyDisk 1))"
  have "disk_exact (\<lambda>k. k) (emptyDisk 1)" "io_ok good_io" "map_of (dc_metadata (emptyDisk 1)) ''k'' = None"
    "int (length ''data'') \<le> disk_max (emptyDisk 1)"
    by (simp_all add: emptyDisk_def disk_exact_def io_ok_def good_io_def disk_max_def)
  from disk_set_get [OF this(1) _ this(2,4), of "''k''" 120 130 100 50] this
  have "disk_exact (\<lambda>k. k) ?c \<and> fst (disk_GetWithTTL (\<lambda>k. k) good_io 120 130 ''k'' ?c) = Inr (Some (''data'', 20))"
    by (simp add: Let_def)
  moreover have "dc_currSize ?c = 4" by code_simp
  ultimately show ?thesis by (simp add: Let_def)
qed

definition crowded_disk :: "string \<Rightarrow> DiskCache" where
  "crowded_disk b =
     (emptyDisk 1)\<lparr>dc_metadata := [(''a'', \<lparr>dm_Key = ''a'', dm_Expiry = 900, dm_LastUsed = 1, dm_Size = 600000, dm_LastModified = 1\<rparr>),
                                  (''b'', \<lparr>dm_Key = ''b'', dm_Expiry = 900, dm_LastUsed = 2, dm_Size = 400000, dm_LastModified = 2\<rparr>)],
                   dc_currSize := 1000000,
                   dc_files := [''a'' \<mapsto> replicate 600000 CHR ''x'', ''b'' \<mapsto> b]\<rparr>"

text \<open>the disk budget can be exceeded. Replacing a value when space is short subtracts the old
  size and leaves the old entry in the table, where the eviction finds it and subtracts it again:
  starting from an exact shard of one megabyte, one set leaves more than one megabyte of data while
  the counter says less than half of it.\<close>

theorem disk_replace_exceeds_budget:
  "let b = replicate 400000 CHR ''y''; data = replicate 700000 CHR ''z'';
       c = crowded_disk b;
       c' = snd (disk_Set (\<lambda>k. k) good_io 10 ''a'' data 50 c)
   in disk_exact (\<lambda>k. k) c \<and> dc_files c' ''a'' = Some data \<and> dc_files c' ''b'' = Some b
    \<and> dc_currSize c' = 500000 \<and> disk_max c' = 1048576 \<and> disk_max c' < int (length data) + int (length b)"
  by (simp add: Let_def crowded_disk_def emptyDisk_def disk_exact_def entry_ok_def disk_Set_def disk_max_def
      good_io_def drop_old_def make_space_def evictLRU_def remove_files_def forget_def)

text \<open>every key is served by an existing shard, for every shard count the constructor accepts; but
  the mask spreads keys over all shards only when the count is a power of two. Clamping the count to
  the number of megabytes breaks that: with five shards only the first and the last are ever used.\<close>

theorem disk_shards_reached:
  assumes "0 < shardCount" and "shardCount < 2 ^ 32"
    and "newShardedDiskCacheWithCount shardCount maxSizeMB = Some c"
  shows "sd_index c key < length (sd_shards c)
       \<and> (sd_shardCount c = 5 \<longrightarrow> sd_index c key \<in> {0, 4})"
proof -
  have ok: "disks_ok c"
    using assms by (auto simp: newShardedDiskCacheWithCount_def disks_ok_def Let_def split: if_splits)
  have "unat (fnv32a key AND 4) \<in> {0, 4}"
    using and_exp_cases [of "fnv32a key" 2] by auto
  moreover have "sd_shardMask c = 4" if "sd_shardCount c = 5" using ok that by (simp add: disks_ok_def)
  ultimately show ?thesis using disks_index_lt [OF ok, of key]
    by (auto simp: sd_index_def shardIndex_def)
qed

theorem disk_shards_reached_witness:
  "\<exists>c. newShardedDiskCacheWithCount 8 5 = Some c \<and> sd_shardCount c = 5 \<and> length (sd_shards c) = 5
     \<and> sd_index c ''some key'' \<in> {0, 4}"
proof -
  obtain c where c: "newShardedDiskCacheWithCount 8 5 = Some c" and n: "sd_shardCount c = 5" "length (sd_shards c) = 5"
    by (simp add: newShardedDiskCacheWithCount_def)
  from disk_shards_reached [OF _ _ c, of "''some key''"] c n show ?thesis by auto
qed

end
