(* ===== verification/Two_Level_Cache.thy ===== *)
theory Two_Level_Cache
  imports Complex_Main Memory_Cache Disk_Cache
begin

text \<open>
  The two-level cache above the memory and the disk cache,
  \<^verbatim>\<open>src/util/cache/enhanced_two_level_cache.go\<close>. Disk writes that the code starts in a new
  goroutine (a plain \<open>Set\<close>, and the flush of an evicted item) are collected in \<open>tl_pending\<close>;
  \<open>run_pending\<close> performs one of them. A lookup reads the clock several times: \<open>now\<close> for the memory
  cache and the first test of the disk entry, \<open>later\<close> for its remaining lifetime and \<open>final\<close> for the
  promotion into memory.
\<close>

section \<open>Model\<close>

datatype pending_write =
    WriteNow string string duration
  | FlushEvicted string string time

record TwoLevelCache =
  tl_memory :: ShardedMemoryCache
  tl_disk :: ShardedDiskCache
  tl_memoryHits :: nat
  tl_diskHits :: nat
  tl_misses :: nat
  tl_diskErrors :: nat
  tl_pending :: "pending_write list"

definition splitCacheBudget :: "int \<Rightarrow> int \<times> int" where
  "splitCacheBudget totalMB =
     (if totalMB \<le> 1 then (0, 1)
      else let memoryMB = go_div (totalMB * 3) 5 in (memoryMB, totalMB - memoryMB))"

definition NewEnhancedTwoLevelCache :: "int \<Rightarrow> int \<Rightarrow> TwoLevelCache option" where
  "NewEnhancedTwoLevelCache numCPU cacheMaxSizeMB =
     (let (memCacheSizeMB, diskCacheSizeMB) = splitCacheBudget cacheMaxSizeMB
      in case NewOptimizedShardedDiskCache numCPU diskCacheSizeMB of
           None \<Rightarrow> None
         | Some disk \<Rightarrow>
             Some \<lparr>tl_memory = SetDiskCacheReference True (NewShardedMemoryCache numCPU 5000 memCacheSizeMB),
                   tl_disk = disk, tl_memoryHits = 0, tl_diskHits = 0, tl_misses = 0, tl_diskErrors = 0,
                   tl_pending = []\<rparr>)"

definition flushes :: "flush list \<Rightarrow> pending_write list" where
  "flushes fls = map (\<lambda>(k, d, expiry). FlushEvicted k d expiry) fls"

definition mem_store :: "time \<Rightarrow> string \<Rightarrow> string \<Rightarrow> duration \<Rightarrow> time \<Rightarrow> TwoLevelCache \<Rightarrow> TwoLevelCache" where
  "mem_store now key data ttl lm c =
     (case SetWithTimestamp now key data ttl lm (tl_memory c) of
        (memory, fls) \<Rightarrow> c\<lparr>tl_memory := memory, tl_pending := tl_pending c @ flushes fls\<rparr>)"

definition tl_Set :: "time \<Rightarrow> string \<Rightarrow> string \<Rightarrow> duration \<Rightarrow> TwoLevelCache \<Rightarrow> TwoLevelCache" where
  "tl_Set now key data ttl c =
     (let c = mem_store now key data ttl now c in c\<lparr>tl_pending := tl_pending c @ [WriteNow key data ttl]\<rparr>)"

definition SetMemoryOnly :: "time \<Rightarrow> string \<Rightarrow> string \<Rightarrow> duration \<Rightarrow> TwoLevelCache \<Rightarrow> TwoLevelCache" where
  "SetMemoryOnly now key data ttl c = mem_store now key data ttl now c"

definition SetBothLevels :: "(string \<Rightarrow> string) \<Rightarrow> disk_io \<Rightarrow> time \<Rightarrow> string \<Rightarrow> string \<Rightarrow> duration \<Rightarrow> TwoLevelCache \<Rightarrow>
    disk_error option \<times> TwoLevelCache" where
  "SetBothLevels fname io now key data ttl c =
     (let c = mem_store now key data ttl now c;
          (err, disk) = sd_Set fname io now key data ttl (tl_disk c)
      in (err, c\<lparr>tl_disk := disk\<rparr>))"

definition SetWithFinalFlag :: "(string \<Rightarrow> string) \<Rightarrow> disk_io \<Rightarrow> time \<Rightarrow> string \<Rightarrow> string \<Rightarrow> duration \<Rightarrow> bool \<Rightarrow>
    TwoLevelCache \<Rightarrow> disk_error option \<times> TwoLevelCache" where
  "SetWithFinalFlag fname io now key data ttl isFinal c =
     (if isFinal then SetBothLevels fname io now key data ttl c else (None, SetMemoryOnly now key data ttl c))"

definition tl_Get :: "(string \<Rightarrow> string) \<Rightarrow> disk_io \<Rightarrow> time \<Rightarrow> time \<Rightarrow> time \<Rightarrow> string \<Rightarrow> TwoLevelCache \<Rightarrow>
    string option \<times> TwoLevelCache" where
  "tl_Get fname io now later final key c =
     (case GetWithTimestamp now key (tl_memory c) of
        (Some (data, _), memory) \<Rightarrow> (Some data, c\<lparr>tl_memory := memory, tl_memoryHits := Suc (tl_memoryHits c)\<rparr>)
      | (None, memory) \<Rightarrow>
          (case sd_GetWithTTL fname io now later key (tl_disk c) of
             (Inr (Some (diskData, remainingTTL)), disk) \<Rightarrow>
               let diskLastModified = (case sd_GetLastModified key disk of None \<Rightarrow> zero_time | Some t \<Rightarrow> t);
                   c = c\<lparr>tl_memory := memory, tl_disk := disk, tl_diskHits := Suc (tl_diskHits c)\<rparr>
               in (Some diskData, mem_store final key diskData remainingTTL diskLastModified c)
           | (Inr None, disk) \<Rightarrow> (None, c\<lparr>tl_memory := memory, tl_disk := disk, tl_misses := Suc (tl_misses c)\<rparr>)
           | (Inl _, disk) \<Rightarrow>
               (None, c\<lparr>tl_memory := memory, tl_disk := disk, tl_misses := Suc (tl_misses c),
                        tl_diskErrors := Suc (tl_diskErrors c)\<rparr>)))"

definition run_pending :: "(string \<Rightarrow> string) \<Rightarrow> disk_io \<Rightarrow> time \<Rightarrow> pending_write \<Rightarrow> TwoLevelCache \<Rightarrow> TwoLevelCache" where
  "run_pending fname io now w c =
     (case w of
        WriteNow k d ttl \<Rightarrow> c\<lparr>tl_disk := snd (sd_Set fname io now k d ttl (tl_disk c))\<rparr>
      | FlushEvicted k d expiry \<Rightarrow>
          (if expiry - now > 0 then c\<lparr>tl_disk := snd (sd_Set fname io now k d (expiry - now) (tl_disk c))\<rparr> else c))"

record CacheStats =
  cs_MemoryHits :: nat
  cs_DiskHits :: nat
  cs_Misses :: nat
  cs_DiskErrors :: nat
  cs_Lookups :: nat
  cs_HitRate :: rat
  cs_MemoryItems :: int
  cs_MemoryBytes :: int
  cs_DiskItems :: int
  cs_DiskBytes :: int

definition tl_Stats :: "TwoLevelCache \<Rightarrow> CacheStats" where
  "tl_Stats c =
     (let lookups = tl_memoryHits c + tl_diskHits c + tl_misses c
      in \<lparr>cs_MemoryHits = tl_memoryHits c, cs_DiskHits = tl_diskHits c, cs_Misses = tl_misses c,
          cs_DiskErrors = tl_diskErrors c, cs_Lookups = lookups,
          cs_HitRate = (if lookups > 0 then of_nat (tl_memoryHits c + tl_diskHits c) / of_nat lookups else 0),
          cs_MemoryItems = fst (mem_Stats (tl_memory c)), cs_MemoryBytes = snd (mem_Stats (tl_memory c)),
          cs_DiskItems = fst (sd_Stats (tl_disk c)), cs_DiskBytes = snd (sd_Stats (tl_disk c))\<rparr>)"

definition tl_Delete :: "(string \<Rightarrow> string) \<Rightarrow> string \<Rightarrow> TwoLevelCache \<Rightarrow> TwoLevelCache" where
  "tl_Delete fname key c =
     c\<lparr>tl_memory := mem_Delete key (tl_memory c), tl_disk := sd_Delete fname key (tl_disk c)\<rparr>"

definition tl_Clear :: "TwoLevelCache \<Rightarrow> TwoLevelCache" where
  "tl_Clear c = c\<lparr>tl_memory := mem_Clear (tl_memory c), tl_disk := sd_Clear (tl_disk c)\<rparr>"

text \<open>\<open>FlushMemoryToDisk\<close> goes on after a failed write and reports the last error.\<close>

fun flush_loop :: "(string \<Rightarrow> string) \<Rightarrow> disk_io \<Rightarrow> time \<Rightarrow> (string \<times> string \<times> duration) list \<Rightarrow>
    disk_error option \<Rightarrow> ShardedDiskCache \<Rightarrow> disk_error option \<times> ShardedDiskCache" where
  "flush_loop fname io now [] lastErr disk = (lastErr, disk)"
| "flush_loop fname io now ((key, data, ttl) # items) lastErr disk =
     (case sd_Set fname io now key data ttl disk of
        (None, disk) \<Rightarrow> flush_loop fname io now items lastErr disk
      | (Some err, disk) \<Rightarrow> flush_loop fname io now items (Some err) disk)"

definition FlushMemoryToDisk :: "(string \<Rightarrow> string) \<Rightarrow> disk_io \<Rightarrow> time \<Rightarrow> TwoLevelCache \<Rightarrow> disk_error option \<times> TwoLevelCache" where
  "FlushMemoryToDisk fname io now c =
     (case flush_loop fname io now (GetAllItems now (tl_memory c)) None (tl_disk c) of
        (err, disk) \<Rightarrow> (err, c\<lparr>tl_disk := disk\<rparr>))"

section \<open>Lemmas\<close>

lemma mem_store_memory [simp]:
  "tl_memory (mem_store now key data ttl lm c) = fst (SetWithTimestamp now key data ttl lm (tl_memory c))"
  "tl_disk (mem_store now key data ttl lm c) = tl_disk c"
  "tl_diskHits (mem_store now key data ttl lm c) = tl_diskHits c"
  by (simp_all add: mem_store_def case_prod_unfold)

lemma oversized_set_ignored:
  "int (length data) > mc_sizePerShard m \<Longrightarrow> fst (SetWithTimestamp now key data ttl lm m) = m"
  by (simp add: SetWithTimestamp_def shard_set_def at_shard_def put_shards_def Let_def)

lemma final_memory:
  "tl_memory (snd (SetWithFinalFlag fname io now key data ttl isFinal c)) =
     fst (SetWithTimestamp now key data ttl now (tl_memory c))"
  by (simp add: SetWithFinalFlag_def SetBothLevels_def SetMemoryOnly_def Let_def case_prod_unfold)

lemma tl_Get_memory_hit:
  "fst (GetWithTimestamp now key (tl_memory c)) = Some (data, lm) \<Longrightarrow>
   fst (tl_Get fname io now later final key c) = Some data
   \<and> tl_memoryHits (snd (tl_Get fname io now later final key c)) = Suc (tl_memoryHits c)"
  by (simp add: tl_Get_def case_prod_unfold split: prod.split)

lemma disk_hit_expiry:
  assumes "fst (disk_GetWithTTL fname io now later key c) = Inr (Some (data, ttl))"
  obtains meta where "map_of (dc_metadata c) key = Some meta" and "ttl = dm_Expiry meta - later" and "0 < ttl"
  using assms by (auto simp: disk_GetWithTTL_def split: option.splits if_splits)

section \<open>Properties\<close>

text \<open>the configured size is a combined budget: the memory and the disk share add up to it (to
  one megabyte when it is smaller), both are non-negative and the disk share is positive.\<close>

theorem cache_budget_split:
  "case splitCacheBudget totalMB of (memoryMB, diskMB) \<Rightarrow>
     0 \<le> memoryMB \<and> 0 < diskMB \<and> memoryMB + diskMB = max 1 totalMB"
proof (cases "totalMB \<le> 1")
  case False
  then have "go_div (totalMB * 3) 5 = totalMB * 3 div 5" by (simp add: go_div_def)
  moreover have "0 \<le> totalMB * 3 div 5" "totalMB * 3 div 5 < totalMB" using False by linarith+
  ultimately show ?thesis using False by (simp add: splitCacheBudget_def Let_def)
qed (simp add: splitCacheBudget_def)

text \<open>a value written by either policy of \<open>SetWithFinalFlag\<close> is what the next lookup returns, as a
  memory hit, until it expires, if it fits into a memory shard.\<close>

theorem two_level_write_visible:
  assumes "cache_wf (tl_memory c)" and "0 < mc_itemsPerShard (tl_memory c)"
    and "int (length data) \<le> mc_sizePerShard (tl_memory c)"
    and "evictable (mem_getShard (tl_memory c) key)" and "now' \<le> now + ttl"
  shows "let c' = snd (SetWithFinalFlag fname io now key data ttl isFinal c)
         in fst (tl_Get fname io now' later final key c') = Some data
          \<and> tl_memoryHits (snd (tl_Get fname io now' later final key c')) = Suc (tl_memoryHits c')"
proof -
  have "fst (GetWithTimestamp now' key (tl_memory (snd (SetWithFinalFlag fname io now key data ttl isFinal c))))
      = Some (data, now)"
    unfolding final_memory using set_then_get [OF assms, of now] by blast
  then show ?thesis unfolding Let_def by (rule tl_Get_memory_hit)
qed

theorem two_level_write_visible_witness:
  "\<exists>c. NewEnhancedTwoLevelCache 1 10 = Some c
     \<and> fst (tl_Get (\<lambda>k. k) good_io 150 150 150 ''k''
              (snd (SetWithFinalFlag (\<lambda>k. k) good_io 100 ''k'' ''v'' 60 True c))) = Some ''v''"
proof -
  obtain c where c: "NewEnhancedTwoLevelCache 1 10 = Some c"
    and m: "tl_memory c = SetDiskCacheReference True (NewShardedMemoryCache 1 5000 6)"
    by (auto simp: NewEnhancedTwoLevelCache_def splitCacheBudget_def go_div_def NewOptimizedShardedDiskCache_def
        newShardedDiskCacheWithCount_def Let_def)
  have wf: "cache_wf (tl_memory c)"
    unfolding m using mem_apply_wf [OF New_cache_wf, of _ _ _ "MemSetDisk True"] by simp
  have "0 < mc_itemsPerShard (tl_memory c) \<and> int (length ''v'') \<le> mc_sizePerShard (tl_memory c)
      \<and> evictable (mem_getShard (tl_memory c) ''k'')" unfolding m by code_simp
  with two_level_write_visible [OF wf, of "''v''" "''k''" 150 100 60] c show ?thesis by (auto simp: Let_def)
qed

text \<open>promotion keeps the lifetime: when a lookup is answered by the disk and stores the value in
  memory, the memory entry carries the disk entry's modification time and expires when the disk entry
  does, up to the time that passed between the two clock readings.\<close>

theorem two_level_promotion_expiry:
  assumes "cache_wf (tl_memory c)" and "fst (GetWithTimestamp now key (tl_memory c)) = None"
    and "map_of (dc_metadata (sd_getShard (tl_disk c) key)) key = Some meta"
    and "fst (tl_Get fname io now later final key c) = Some data"
    and "map_of (sh_items (mem_getShard (tl_memory (snd (tl_Get fname io now later final key c))) key)) key = Some item"
  shows "mi_data item = data \<and> mi_expiry item = dm_Expiry meta + (final - later)"
proof -
  obtain m where miss: "GetWithTimestamp now key (tl_memory c) = (None, m)" using assms(2) by (metis prod.collapse)
  obtain r disk where g: "sd_GetWithTTL fname io now later key (tl_disk c) = (r, disk)" by fastforce
  obtain ttl where r: "r = Inr (Some (data, ttl))"
    using assms(4) g by (cases r) (auto simp: tl_Get_def miss split: option.splits)
  have "fst (disk_GetWithTTL fname io now later key (sd_getShard (tl_disk c) key)) = Inr (Some (data, ttl))"
    using g r by (simp add: sd_GetWithTTL_def)
  then have ttl: "ttl = dm_Expiry meta - later"
    using assms(3) by (auto elim!: disk_hit_expiry)
  have wf: "cache_wf m"
    using mem_apply_wf [OF assms(1), of "MemGet now key"] miss by (simp add: mem_Get_def)
  obtain lm where "tl_memory (snd (tl_Get fname io now later final key c)) = fst (SetWithTimestamp final key data ttl lm m)"
    using miss g r by (simp add: tl_Get_def Let_def)
  moreover have "map_of (sh_items (mem_getShard m key)) key = None"
    using get_miss_absent [OF assms(1,2)] miss by simp
  ultimately have "item = new_item final data ttl lm"
    using assms(5) set_stored_item [OF wf] by metis
  with ttl show ?thesis by (simp add: new_item_def)
qed

text \<open>A cache whose disk holds a value that memory does not.\<close>

definition warm_disk :: "TwoLevelCache option" where
  "warm_disk =
     map_option (\<lambda>c. c\<lparr>tl_disk := snd (sd_Set (\<lambda>k. k) good_io 100 ''k'' ''v'' 60 (tl_disk c))\<rparr>)
       (NewEnhancedTwoLevelCache 1 10)"

theorem two_level_promotion_expiry_witness:
  "\<exists>c item. warm_disk = Some c
     \<and> map_of (sh_items (mem_getShard (tl_memory (snd (tl_Get (\<lambda>k. k) good_io 120 121 123 ''k'' c))) ''k'')) ''k'' = Some item
     \<and> mi_data item = ''v'' \<and> mi_expiry item = 162"
proof -
  obtain c where c: "warm_disk = Some c"
    and m: "tl_memory c = SetDiskCacheReference True (NewShardedMemoryCache 1 5000 6)"
    by (auto simp: warm_disk_def NewEnhancedTwoLevelCache_def splitCacheBudget_def go_div_def
        NewOptimizedShardedDiskCache_def newShardedDiskCacheWithCount_def Let_def)
  let ?meta = "\<lambda>c. map_option dm_Expiry (map_of (dc_metadata (sd_getShard (tl_disk c) ''k'')) ''k'')"
  let ?get = "tl_Get (\<lambda>k. k) good_io 120 121 123 ''k''"
  let ?item = "\<lambda>c. map_of (sh_items (mem_getShard (tl_memory (snd (?get c))) ''k'')) ''k''"
  have wf: "cache_wf (tl_memory c)"
    unfolding m using mem_apply_wf [OF New_cache_wf, of _ _ _ "MemSetDisk True"] by simp
  have "map_option (\<lambda>c. (fst (GetWithTimestamp 120 ''k'' (tl_memory c)), ?meta c, fst (?get c), ?item c = None)) warm_disk
      = Some (None, Some 160, Some ''v'', False)" by code_simp
  then obtain meta item where f: "fst (GetWithTimestamp 120 ''k'' (tl_memory c)) = None"
    "map_of (dc_metadata (sd_getShard (tl_disk c) ''k'')) ''k'' = Some meta" "dm_Expiry meta = 160"
    "fst (?get c) = Some ''v''" "?item c = Some item" unfolding c by auto
  from two_level_promotion_expiry [OF wf f(1,2,4,5)] f(3,5) c show ?thesis by auto
qed

text \<open>a value too large for a memory shard does not replace the older one there: after a final
  write of such a value, which reaches the disk, lookups keep returning the old value from memory
  until that entry expires or is evicted.\<close>

theorem two_level_stale_after_large_write:
  assumes "fst (GetWithTimestamp now' key (tl_memory c)) = Some (old, lm)"
    and "mc_sizePerShard (tl_memory c) < int (length data)"
  shows "fst (tl_Get fname io now' later final key (snd (SetWithFinalFlag fname io now key data ttl True c))) = Some old"
proof -
  have "tl_memory (snd (SetWithFinalFlag fname io now key data ttl True c)) = tl_memory c"
    unfolding final_memory using assms(2) by (rule oversized_set_ignored)
  with assms(1) tl_Get_memory_hit [of now' key "snd (SetWithFinalFlag fname io now key data ttl True c)"]
  show ?thesis by simp
qed

definition small_value :: "TwoLevelCache option" where
  "small_value =
     map_option (\<lambda>c. snd (SetWithFinalFlag (\<lambda>k. k) good_io 100 ''k'' ''old'' 60 True c)) (NewEnhancedTwoLevelCache 1 10)"

theorem two_level_stale_after_large_write_witness:
  "\<exists>c data. fst (tl_Get (\<lambda>k. k) good_io 150 150 150 ''k''
       (snd (SetWithFinalFlag (\<lambda>k. k) good_io 140 ''k'' data 60 True c))) = Some ''old'' \<and> data \<noteq> ''old''"
proof -
  have "map_option (\<lambda>c. (fst (GetWithTimestamp 150 ''k'' (tl_memory c)), mc_sizePerShard (tl_memory c))) small_value
      = Some (Some (''old'', 100), 1572864)" by code_simp
  then obtain c :: TwoLevelCache where "(fst (GetWithTimestamp 150 ''k'' (tl_memory c)), mc_sizePerShard (tl_memory c))
      = (Some (''old'', 100), 1572864)" unfolding map_option_eq_Some by blast
  then have c: "fst (GetWithTimestamp 150 ''k'' (tl_memory c)) = Some (''old'', 100)"
    and m: "mc_sizePerShard (tl_memory c) = 1572864" by blast+
  let ?data = "replicate 2000000 CHR ''x''"
  have "fst (tl_Get (\<lambda>k. k) good_io 150 150 150 ''k''
       (snd (SetWithFinalFlag (\<lambda>k. k) good_io 140 ''k'' ?data 60 True c))) = Some ''old''"
    by (rule two_level_stale_after_large_write [OF c]) (simp add: m)
  moreover have "length ?data \<noteq> length ''old''" unfolding length_replicate by simp
  then have "?data \<noteq> ''old''" by metis
  ultimately show ?thesis by blast
qed

end
