(* ===== verification/Link_Titles.thy ===== *)
theory Link_Titles
  imports Go_Prelude
begin

text \<open>
  Titles of the links in a message: \<open>extractLinkTitlePairs\<close> and its helpers in
  \<^verbatim>\<open>src/service/search_service.go\<close>, which give each link found in the text of a message the
  title that belongs to it.

  The regular expression of links in a text (\<open>messageLinkRegex\<close>) is the scanner
  \<open>find_message_links\<close>, and \<open>url.QueryUnescape\<close> is \<open>query_unescape\<close>. The other regular expressions
  rest on Unicode classes or are those of \<^verbatim>\<open>src/util/regex_util.go\<close>; what the \<open>regexp\<close> package returns
  for them is the parameter \<open>title_rx\<close>. Chinese words are written as their UTF-8 bytes. The map of
  titles is an association list; the functions here only look it up and update it.
\<close>

section \<open>Model: text primitives\<close>

record title_rx =
  rx_emoji :: "string \<Rightarrow> string"
  rx_suffix :: "string \<Rightarrow> string option"
  rx_pans :: "(string \<Rightarrow> string list) list"

text \<open>\<open>https?://[^\s"']+\<close>, all matches from left to right.\<close>

definition link_byte :: "char \<Rightarrow> bool" where
  "link_byte c \<longleftrightarrow> of_char c \<notin> {9, 10, 12, 13, 32, 34, 39 :: nat}"

definition scheme_length :: "string \<Rightarrow> nat" where
  "scheme_length s = (if has_prefix s ''http://'' then 7 else if has_prefix s ''https://'' then 8 else 0)"

function find_message_links :: "string \<Rightarrow> string list" where
  "find_message_links s =
     (if s = [] then []
      else let n = scheme_length s; body = takeWhile link_byte (drop n s)
           in if n > 0 \<and> body \<noteq> [] then (take n s @ body) # find_message_links (drop (n + length body) s)
              else find_message_links (tl s))"
  by pat_completeness auto
termination by (relation "measure length") (auto simp: neq_Nil_conv)

text \<open>\<open>strings.Split\<close> and \<open>strings.SplitN(s, sep, 2)\<close> for a non-empty separator.\<close>

fun split_fuel :: "nat \<Rightarrow> string \<Rightarrow> string \<Rightarrow> string list" where
  "split_fuel 0 s sep = [s]"
| "split_fuel (Suc n) s sep =
     (case index_of s sep of
        None \<Rightarrow> [s]
      | Some i \<Rightarrow> take i s # split_fuel n (drop (i + length sep) s) sep)"

definition split_str :: "string \<Rightarrow> string \<Rightarrow> string list" where
  "split_str s sep = split_fuel (length s) s sep"

definition cut_at :: "string \<Rightarrow> string \<Rightarrow> (string \<times> string) option" where
  "cut_at s sep = (case index_of s sep of None \<Rightarrow> None | Some i \<Rightarrow> Some (take i s, drop (i + length sep) s))"

text \<open>\<open>url.QueryUnescape\<close>: \<open>None\<close> is its error, a percent sign without two hexadecimal digits.\<close>

definition hex_value :: "char \<Rightarrow> nat option" where
  "hex_value c =
     (let n = of_char c :: nat
      in if 48 \<le> n \<and> n \<le> 57 then Some (n - 48)
         else if 97 \<le> n \<and> n \<le> 102 then Some (n - 87)
         else if 65 \<le> n \<and> n \<le> 70 then Some (n - 55)
         else None)"

fun query_unescape :: "string \<Rightarrow> string option" where
  "query_unescape [] = Some []"
| "query_unescape (c # s) =
     (if c = CHR ''%''
      then (case s of
              h # l # r \<Rightarrow>
                (case (hex_value h, hex_value l) of
                   (Some a, Some b) \<Rightarrow> map_option (Cons (char_of (16 * a + b))) (query_unescape r)
                 | _ \<Rightarrow> None)
            | _ \<Rightarrow> None)
      else map_option (Cons (if c = CHR ''+'' then CHR '' '' else c)) (query_unescape s))"

definition normalizeUrl :: "string \<Rightarrow> string" where
  "normalizeUrl rawUrl = (case query_unescape rawUrl of None \<Rightarrow> rawUrl | Some decoded \<Rightarrow> decoded)"

section \<open>Model: titles and link lines\<close>

definition title_prefixes :: "string list" where
  "title_prefixes =
     [[CHR 0xE5, CHR 0x90, CHR 0x8D, CHR 0xE7, CHR 0xA7, CHR 0xB0, CHR 0xEF, CHR 0xBC, CHR 0x9A],
      [CHR 0xE6, CHR 0xA0, CHR 0x87, CHR 0xE9, CHR 0xA2, CHR 0x98, CHR 0xEF, CHR 0xBC, CHR 0x9A],
      [CHR 0xE7, CHR 0x89, CHR 0x87, CHR 0xE5, CHR 0x90, CHR 0x8D, CHR 0xEF, CHR 0xBC, CHR 0x9A],
      ([CHR 0xE5, CHR 0x90, CHR 0x8D, CHR 0xE7, CHR 0xA7, CHR 0xB0] @ '':''),
      ([CHR 0xE6, CHR 0xA0, CHR 0x87, CHR 0xE9, CHR 0xA2, CHR 0x98] @ '':''),
      ([CHR 0xE7, CHR 0x89, CHR 0x87, CHR 0xE5, CHR 0x90, CHR 0x8D] @ '':'')]"

definition cleanTitle :: "title_rx \<Rightarrow> string \<Rightarrow> string" where
  "cleanTitle rx title = trim_space (rx_emoji rx (foldl trim_prefix (trim_space title) title_prefixes))"

definition link_line_prefixes :: "string list" where
  "link_line_prefixes =
     [[CHR 0xE9, CHR 0x93, CHR 0xBE, CHR 0xE6, CHR 0x8E, CHR 0xA5, CHR 0xEF, CHR 0xBC, CHR 0x9A],
      [CHR 0xE5, CHR 0x9C, CHR 0xB0, CHR 0xE5, CHR 0x9D, CHR 0x80, CHR 0xEF, CHR 0xBC, CHR 0x9A],
      [CHR 0xE8, CHR 0xB5, CHR 0x84, CHR 0xE6, CHR 0xBA, CHR 0x90, CHR 0xE5, CHR 0x9C, CHR 0xB0, CHR 0xE5, CHR 0x9D, CHR 0x80, CHR 0xEF, CHR 0xBC, CHR 0x9A],
      [CHR 0xE7, CHR 0xBD, CHR 0x91, CHR 0xE7, CHR 0x9B, CHR 0x98, CHR 0xEF, CHR 0xBC, CHR 0x9A],
      [CHR 0xE7, CHR 0xBD, CHR 0x91, CHR 0xE7, CHR 0x9B, CHR 0x98, CHR 0xE5, CHR 0x9C, CHR 0xB0, CHR 0xE5, CHR 0x9D, CHR 0x80, CHR 0xEF, CHR 0xBC, CHR 0x9A],
      ([CHR 0xE9, CHR 0x93, CHR 0xBE, CHR 0xE6, CHR 0x8E, CHR 0xA5] @ '':'')]"

definition isLinkLine :: "string \<Rightarrow> bool" where
  "isLinkLine line \<longleftrightarrow> list_ex (has_prefix (to_lower line)) link_line_prefixes"

definition link_prefix_words :: "string list" where
  "link_prefix_words =
     [[CHR 0xE9, CHR 0x93, CHR 0xBE, CHR 0xE6, CHR 0x8E, CHR 0xA5],
      [CHR 0xE5, CHR 0x9C, CHR 0xB0, CHR 0xE5, CHR 0x9D, CHR 0x80],
      [CHR 0xE8, CHR 0xB5, CHR 0x84, CHR 0xE6, CHR 0xBA, CHR 0x90, CHR 0xE5, CHR 0x9C, CHR 0xB0, CHR 0xE5, CHR 0x9D, CHR 0x80],
      [CHR 0xE7, CHR 0xBD, CHR 0x91, CHR 0xE7, CHR 0x9B, CHR 0x98],
      [CHR 0xE7, CHR 0xBD, CHR 0x91, CHR 0xE7, CHR 0x9B, CHR 0x98, CHR 0xE5, CHR 0x9C, CHR 0xB0, CHR 0xE5, CHR 0x9D, CHR 0x80]]"

definition cloudDiskNames :: "string list" where
  "cloudDiskNames =
     [[CHR 0xE5, CHR 0xA4, CHR 0xB8, CHR 0xE5, CHR 0x85, CHR 0x8B],
      [CHR 0xE5, CHR 0xA4, CHR 0xB8, CHR 0xE5, CHR 0x85, CHR 0x8B, CHR 0xE7, CHR 0xBD, CHR 0x91, CHR 0xE7, CHR 0x9B, CHR 0x98],
      ''quark'',
      [CHR 0xE5, CHR 0xA4, CHR 0xB8, CHR 0xE5, CHR 0x85, CHR 0x8B, CHR 0xE4, CHR 0xBA, CHR 0x91, CHR 0xE7, CHR 0x9B, CHR 0x98],
      [CHR 0xE7, CHR 0x99, CHR 0xBE, CHR 0xE5, CHR 0xBA, CHR 0xA6],
      [CHR 0xE7, CHR 0x99, CHR 0xBE, CHR 0xE5, CHR 0xBA, CHR 0xA6, CHR 0xE7, CHR 0xBD, CHR 0x91, CHR 0xE7, CHR 0x9B, CHR 0x98],
      ''baidu'',
      [CHR 0xE7, CHR 0x99, CHR 0xBE, CHR 0xE5, CHR 0xBA, CHR 0xA6, CHR 0xE4, CHR 0xBA, CHR 0x91],
      ''bdwp'',
      ''bdpan'',
      [CHR 0xE8, CHR 0xBF, CHR 0x85, CHR 0xE9, CHR 0x9B, CHR 0xB7],
      [CHR 0xE8, CHR 0xBF, CHR 0x85, CHR 0xE9, CHR 0x9B, CHR 0xB7, CHR 0xE7, CHR 0xBD, CHR 0x91, CHR 0xE7, CHR 0x9B, CHR 0x98],
      ''xunlei'',
      [CHR 0xE8, CHR 0xBF, CHR 0x85, CHR 0xE9, CHR 0x9B, CHR 0xB7, CHR 0xE4, CHR 0xBA, CHR 0x91, CHR 0xE7, CHR 0x9B, CHR 0x98],
      ''115'',
      (''115'' @ [CHR 0xE7, CHR 0xBD, CHR 0x91, CHR 0xE7, CHR 0x9B, CHR 0x98]),
      (''115'' @ [CHR 0xE4, CHR 0xBA, CHR 0x91, CHR 0xE7, CHR 0x9B, CHR 0x98]),
      ''123'',
      ''123pan'',
      (''123'' @ [CHR 0xE7, CHR 0xBD, CHR 0x91, CHR 0xE7, CHR 0x9B, CHR 0x98]),
      (''123'' @ [CHR 0xE4, CHR 0xBA, CHR 0x91, CHR 0xE7, CHR 0x9B, CHR 0x98]),
      [CHR 0xE9, CHR 0x98, CHR 0xBF, CHR 0xE9, CHR 0x87, CHR 0x8C],
      [CHR 0xE9, CHR 0x98, CHR 0xBF, CHR 0xE9, CHR 0x87, CHR 0x8C, CHR 0xE4, CHR 0xBA, CHR 0x91],
      [CHR 0xE9, CHR 0x98, CHR 0xBF, CHR 0xE9, CHR 0x87, CHR 0x8C, CHR 0xE4, CHR 0xBA, CHR 0x91, CHR 0xE7, CHR 0x9B, CHR 0x98],
      ''aliyun'',
      ''alipan'',
      [CHR 0xE9, CHR 0x98, CHR 0xBF, CHR 0xE9, CHR 0x87, CHR 0x8C, CHR 0xE7, CHR 0xBD, CHR 0x91, CHR 0xE7, CHR 0x9B, CHR 0x98],
      [CHR 0xE5, CHR 0x85, CHR 0x89, CHR 0xE9, CHR 0xB8, CHR 0xAD],
      [CHR 0xE5, CHR 0x85, CHR 0x89, CHR 0xE9, CHR 0xB8, CHR 0xAD, CHR 0xE4, CHR 0xBA, CHR 0x91, CHR 0xE7, CHR 0x9B, CHR 0x98],
      [CHR 0xE5, CHR 0x85, CHR 0x89, CHR 0xE9, CHR 0xB8, CHR 0xAD, CHR 0xE7, CHR 0xBD, CHR 0x91, CHR 0xE7, CHR 0x9B, CHR 0x98],
      ''guangya'',
      [CHR 0xE5, CHR 0xA4, CHR 0xA9, CHR 0xE7, CHR 0xBF, CHR 0xBC],
      [CHR 0xE5, CHR 0xA4, CHR 0xA9, CHR 0xE7, CHR 0xBF, CHR 0xBC, CHR 0xE4, CHR 0xBA, CHR 0x91],
      [CHR 0xE5, CHR 0xA4, CHR 0xA9, CHR 0xE7, CHR 0xBF, CHR 0xBC, CHR 0xE4, CHR 0xBA, CHR 0x91, CHR 0xE7, CHR 0x9B, CHR 0x98],
      ''tianyi'',
      [CHR 0xE5, CHR 0xA4, CHR 0xA9, CHR 0xE7, CHR 0xBF, CHR 0xBC, CHR 0xE7, CHR 0xBD, CHR 0x91, CHR 0xE7, CHR 0x9B, CHR 0x98],
      ''uc'',
      (''uc'' @ [CHR 0xE7, CHR 0xBD, CHR 0x91, CHR 0xE7, CHR 0x9B, CHR 0x98]),
      (''uc'' @ [CHR 0xE4, CHR 0xBA, CHR 0x91, CHR 0xE7, CHR 0x9B, CHR 0x98]),
      [CHR 0xE7, CHR 0xA7, CHR 0xBB, CHR 0xE5, CHR 0x8A, CHR 0xA8],
      [CHR 0xE7, CHR 0xA7, CHR 0xBB, CHR 0xE5, CHR 0x8A, CHR 0xA8, CHR 0xE4, CHR 0xBA, CHR 0x91],
      [CHR 0xE7, CHR 0xA7, CHR 0xBB, CHR 0xE5, CHR 0x8A, CHR 0xA8, CHR 0xE4, CHR 0xBA, CHR 0x91, CHR 0xE7, CHR 0x9B, CHR 0x98],
      ''caiyun'',
      [CHR 0xE5, CHR 0xBD, CHR 0xA9, CHR 0xE4, CHR 0xBA, CHR 0x91],
      ''pikpak'',
      (''pikpak'' @ [CHR 0xE7, CHR 0xBD, CHR 0x91, CHR 0xE7, CHR 0x9B, CHR 0x98])]"

definition isLinkPrefix :: "string \<Rightarrow> bool" where
  "isLinkPrefix text \<longleftrightarrow>
     (let text = to_lower (trim_space text)
      in text \<in> set link_prefix_words \<or> text \<in> set cloudDiskNames)"

definition title_part :: "title_rx \<Rightarrow> string \<Rightarrow> string \<Rightarrow> string option" where
  "title_part rx line sep =
     (case cut_at line sep of
        Some (first, _) \<Rightarrow>
          if \<not> contains first ''http'' \<and> \<not> isLinkPrefix first then Some (cleanTitle rx first) else None
      | None \<Rightarrow> None)"

definition extractTitleFromLinkLine :: "title_rx \<Rightarrow> string \<Rightarrow> string" where
  "extractTitleFromLinkLine rx line =
     (case title_part rx line [CHR 0xEF, CHR 0xBC, CHR 0x9A] of
        Some t \<Rightarrow> t
      | None \<Rightarrow> (case title_part rx line '':'' of Some t \<Rightarrow> t | None \<Rightarrow> []))"

definition extractTitleBeforeLink :: "title_rx \<Rightarrow> string \<Rightarrow> string" where
  "extractTitleBeforeLink rx text =
     (let text = trim_space text
      in case index_of text [CHR 0xE9, CHR 0x93, CHR 0xBE, CHR 0xE6, CHR 0x8E, CHR 0xA5, CHR 0xEF, CHR 0xBC, CHR 0x9A] of
           Some (Suc i) \<Rightarrow> cleanTitle rx (take (Suc i) text)
         | _ \<Rightarrow> (case rx_suffix rx text of
                   Some t \<Rightarrow> cleanTitle rx t
                 | None \<Rightarrow> cleanTitle rx text))"

section \<open>Model: messages with line breaks\<close>

type_synonym titles = "(string \<times> string) list"

definition put_all :: "string list \<Rightarrow> string \<Rightarrow> titles \<Rightarrow> titles" where
  "put_all links title m = foldl (\<lambda>m link. AList.update link title m) m links"

text \<open>The first pass: \<open>m\<close>, \<open>lastTitle\<close> and \<open>lastTitleIndex\<close> at line \<open>i\<close>.\<close>

fun first_pass :: "title_rx \<Rightarrow> nat \<Rightarrow> titles \<times> string \<times> nat \<Rightarrow> string list \<Rightarrow> titles \<times> string \<times> nat" where
  "first_pass rx i st [] = st"
| "first_pass rx i (m, lastTitle, lastTitleIndex) (raw # rest) =
     (let line = trim_space raw; links = find_message_links line
      in first_pass rx (Suc i)
           (if line = [] then (m, lastTitle, lastTitleIndex)
            else if links \<noteq> [] then
              (if isLinkLine line \<and> lastTitle \<noteq> [] then put_all links lastTitle m
               else if \<not> isLinkLine line then
                 (let titleFromLine = extractTitleFromLinkLine rx line
                  in if titleFromLine \<noteq> [] then put_all links titleFromLine m
                     else if lastTitle \<noteq> [] then put_all links lastTitle m
                     else m)
               else m, lastTitle, lastTitleIndex)
            else
              (case rest of
                 next_line # _ \<Rightarrow>
                   let nextLine = trim_space next_line
                   in if isLinkLine nextLine \<or> find_message_links nextLine \<noteq> []
                      then (m, cleanTitle rx line, i) else (m, lastTitle, lastTitleIndex)
               | [] \<Rightarrow> (m, cleanTitle rx line, i))) rest)"

text \<open>\<open>nearest_title rx lines lti n\<close> looks at the lines \<open>n - 1\<close>, \<open>n - 2\<close>, ..., \<open>0\<close>.\<close>

fun nearest_title :: "title_rx \<Rightarrow> string list \<Rightarrow> nat \<Rightarrow> nat \<Rightarrow> string" where
  "nearest_title rx lines lastTitleIndex 0 = []"
| "nearest_title rx lines lastTitleIndex (Suc j) =
     (if (j = lastTitleIndex
          \<or> (j + 1 < length lines \<and> find_message_links (lines ! (j + 1)) \<noteq> [] \<and> find_message_links (lines ! j) = []))
         \<and> cleanTitle rx (lines ! j) \<noteq> []
      then cleanTitle rx (lines ! j)
      else nearest_title rx lines lastTitleIndex j)"

definition put_missing :: "string \<Rightarrow> string \<Rightarrow> titles \<Rightarrow> titles" where
  "put_missing nearest link m =
     (if map_of m link = None \<and> nearest \<noteq> [] then AList.update link nearest m else m)"

fun second_pass :: "title_rx \<Rightarrow> string list \<Rightarrow> nat \<Rightarrow> nat \<Rightarrow> titles \<Rightarrow> string list \<Rightarrow> titles" where
  "second_pass rx lines lti i m [] = m"
| "second_pass rx lines lti i m (raw # rest) =
     second_pass rx lines lti (Suc i)
       (foldl (\<lambda>m link. put_missing (nearest_title rx lines lti i) link m) m (find_message_links (trim_space raw)))
       rest"

definition extractLinkTitlePairsWithNewlines :: "title_rx \<Rightarrow> string \<Rightarrow> titles" where
  "extractLinkTitlePairsWithNewlines rx content =
     (let lines = split_str content [CHR 10];
          (m, lastTitle, lti) = first_pass rx 0 ([], [], 0) lines
      in second_pass rx lines lti 0 m lines)"

section \<open>Model: messages on one line\<close>

text \<open>The exchange sort of the code: the inner loop carries the smallest position so far to slot
  \<open>i\<close> and leaves what it exchanged in its place.\<close>

fun exchange_inner :: "string \<times> nat \<Rightarrow> (string \<times> nat) list \<Rightarrow> (string \<times> nat) \<times> (string \<times> nat) list" where
  "exchange_inner x [] = (x, [])"
| "exchange_inner x (y # ys) =
     (if snd x > snd y then (let (m, r) = exchange_inner y ys in (m, x # r))
      else (let (m, r) = exchange_inner x ys in (m, y # r)))"

lemma exchange_inner_length [simp]: "length (snd (exchange_inner x ys)) = length ys"
  by (induction x ys rule: exchange_inner.induct) (auto split: prod.split simp: Let_def split_beta)

function exchange_sort :: "(string \<times> nat) list \<Rightarrow> (string \<times> nat) list" where
  "exchange_sort [] = []"
| "exchange_sort (x # xs) = fst (exchange_inner x xs) # exchange_sort (snd (exchange_inner x xs))"
  by pat_completeness auto
termination by (relation "measure length") auto

fun dedup_urls :: "string list \<Rightarrow> string list \<Rightarrow> string list" where
  "dedup_urls seen [] = []"
| "dedup_urls seen (u # us) =
     (if normalizeUrl u \<in> set seen then dedup_urls seen us
      else u # dedup_urls (normalizeUrl u # seen) us)"

fun link_segments :: "string \<Rightarrow> nat \<Rightarrow> string list \<Rightarrow> string list" where
  "link_segments content lastPos [] = [if lastPos < length content then drop lastPos content else []]"
| "link_segments content lastPos (link # links) =
     (case index_of (drop lastPos content) link of
        None \<Rightarrow> [] # link_segments content lastPos links
      | Some idx \<Rightarrow>
          (if idx > 0 then take idx (drop lastPos content) else [])
          # link_segments content (lastPos + idx + length link) links)"

definition positioned :: "string \<Rightarrow> string list \<Rightarrow> (string \<times> nat) list" where
  "positioned content matches =
     map (\<lambda>u. (u, the (index_of content u))) (filter (\<lambda>u. index_of content u \<noteq> None) matches)"

definition message_links :: "title_rx \<Rightarrow> string \<Rightarrow> string list" where
  "message_links rx content =
     dedup_urls [] (map fst (exchange_sort (concat (map (\<lambda>p. positioned content (p content)) (rx_pans rx)))))"

definition put_titles :: "title_rx \<Rightarrow> (string \<times> string) list \<Rightarrow> titles \<Rightarrow> titles" where
  "put_titles rx link_segs m =
     foldl (\<lambda>m (link, seg). let title = extractTitleBeforeLink rx seg
              in if title \<noteq> [] then AList.update link title m else m) m link_segs"

definition extractLinkTitlePairsWithoutNewlines :: "title_rx \<Rightarrow> string \<Rightarrow> titles" where
  "extractLinkTitlePairsWithoutNewlines rx content =
     (let links = message_links rx content
      in if links = [] then []
         else put_titles rx (zip links (link_segments content 0 links)) [])"

definition extractLinkTitlePairs :: "title_rx \<Rightarrow> string \<Rightarrow> titles" where
  "extractLinkTitlePairs rx content =
     (if contains content [CHR 10] then extractLinkTitlePairsWithNewlines rx content
      else extractLinkTitlePairsWithoutNewlines rx content)"

text \<open>\<open>util.CutTitleByKeywords\<close>: the text before the earliest keyword.\<close>

fun earliest_index :: "string \<Rightarrow> nat option \<Rightarrow> string list \<Rightarrow> nat option" where
  "earliest_index title minIdx [] = minIdx"
| "earliest_index title minIdx (kw # kws) =
     earliest_index title
       (case index_of title kw of
          None \<Rightarrow> minIdx
        | Some i \<Rightarrow> (case minIdx of None \<Rightarrow> Some i | Some m \<Rightarrow> if i < m then Some i else Some m)) kws"

definition CutTitleByKeywords :: "string \<Rightarrow> string list \<Rightarrow> string" where
  "CutTitleByKeywords title keywords =
     (case earliest_index title None keywords of
        Some (Suc i) \<Rightarrow> trim_space (take (Suc i) title)
      | _ \<Rightarrow> trim_space title)"

section \<open>Lemmas: parts of a text\<close>

declare find_message_links.simps [simp del]

lemma contains_refl [simp]: "contains s s"
  unfolding contains_iff by (intro exI [of _ "[]"]) simp

lemma contains_trans: "contains s t \<Longrightarrow> contains t u \<Longrightarrow> contains s u"
  unfolding contains_iff by (metis append.assoc)

lemma contains_drop: "contains (drop n s) t \<Longrightarrow> contains s t"
  unfolding contains_iff by (metis append.assoc append_take_drop_id)

lemma contains_take [simp]: "contains s (take n s)"
  unfolding contains_iff by (intro exI [of _ "[]"] exI [of _ "drop n s"]) simp

lemma trim_space_part: "contains s (trim_space s)"
proof -
  obtain p where p: "s = p @ trim_left space_runes s" using trim_left_suffix by blast
  obtain q where q: "trim_left space_runes s = trim_space s @ q"
    unfolding trim_space_def trim_runes_def using trim_right_prefix by blast
  from p q have "s = p @ trim_space s @ q" by metis
  then show ?thesis unfolding contains_iff by blast
qed

lemma find_message_links_part: "u \<in> set (find_message_links s) \<Longrightarrow> contains s u"
proof (induction s rule: find_message_links.induct)
  case (1 s)
  let ?n = "scheme_length s"
  let ?body = "takeWhile link_byte (drop ?n s)"
  show ?case
  proof (cases "s = [] \<or> \<not> (?n > 0 \<and> ?body \<noteq> [])")
    case True
    with 1 have "s \<noteq> [] \<and> contains (tl s) u"
      by (auto simp: find_message_links.simps [of s] Let_def split: if_splits)
    then show ?thesis using contains_drop [of 1 s u] by (simp add: drop_Suc)
  next
    case False
    with 1(3) have "u = take ?n s @ ?body \<or> u \<in> set (find_message_links (drop (?n + length ?body) s))"
      by (auto simp: find_message_links.simps [of s] Let_def)
    then show ?thesis
    proof
      assume u: "u = take ?n s @ ?body"
      have "take ?n s @ ?body @ dropWhile link_byte (drop ?n s) = s" by simp
      with u have "s = [] @ u @ dropWhile link_byte (drop ?n s)" by simp
      then show ?thesis unfolding contains_iff by blast
    next
      assume "u \<in> set (find_message_links (drop (?n + length ?body) s))"
      with 1(1) False show ?thesis by (auto intro: contains_drop)
    qed
  qed
qed

lemma split_fuel_part: "x \<in> set (split_fuel n s sep) \<Longrightarrow> contains s x"
  by (induction n s sep rule: split_fuel.induct) (auto split: option.splits intro: contains_drop)

lemma split_str_part: "x \<in> set (split_str s sep) \<Longrightarrow> contains s x"
  by (simp add: split_str_def split_fuel_part)

text \<open>The link of a line of a message is a part of the message.\<close>

lemma line_link_part:
  "raw \<in> set (split_str content sep) \<Longrightarrow> u \<in> set (find_message_links (trim_space raw)) \<Longrightarrow> contains content u"
  by (meson contains_trans find_message_links_part split_str_part trim_space_part)

section \<open>Lemmas: the table of titles\<close>

text \<open>A table that gives links of \<open>L\<close> non-empty titles.\<close>

definition titled :: "string \<Rightarrow> titles \<Rightarrow> bool" where
  "titled content m \<longleftrightarrow> distinct (map fst m) \<and> (\<forall>(link, title)\<in>set m. title \<noteq> [] \<and> contains content link)"

lemma titled_Nil [simp]: "titled content []"
  by (simp add: titled_def)

lemma titled_update: "titled content m \<Longrightarrow> contains content link \<Longrightarrow> title \<noteq> [] \<Longrightarrow> titled content (AList.update link title m)"
  using set_alist_update [of link title m] by (auto simp: titled_def distinct_update)

lemma put_all_titled:
  "titled content m \<Longrightarrow> \<forall>u\<in>set links. contains content u \<Longrightarrow> title \<noteq> [] \<Longrightarrow> titled content (put_all links title m)"
  unfolding put_all_def by (induction links arbitrary: m) (simp_all add: titled_update)

lemma first_pass_titled:
  "titled content (fst st) \<Longrightarrow> \<forall>raw\<in>set ls. \<forall>u\<in>set (find_message_links (trim_space raw)). contains content u \<Longrightarrow>
   titled content (fst (first_pass rx i st ls))"
proof (induction ls arbitrary: i st)
  case (Cons raw rest)
  obtain m lastTitle lti where st: "st = (m, lastTitle, lti)" by (metis prod.exhaust)
  from Cons.prems(2) have rest: "\<forall>raw\<in>set rest. \<forall>u\<in>set (find_message_links (trim_space raw)). contains content u"
    by simp
  show ?case
    unfolding st first_pass.simps Let_def
    by (rule Cons.IH [OF _ rest])
      (use Cons.prems st in \<open>auto simp: put_all_titled Let_def split: list.split\<close>)
qed simp

lemma put_missing_titled:
  "titled content m \<Longrightarrow> contains content link \<Longrightarrow> titled content (put_missing t link m)"
  by (simp add: put_missing_def titled_update)

lemma fold_missing_titled:
  "titled content m \<Longrightarrow> \<forall>u\<in>set links. contains content u \<Longrightarrow>
   titled content (foldl (\<lambda>m link. put_missing t link m) m links)"
  by (induction links arbitrary: m) (simp_all add: put_missing_titled)

lemma second_pass_titled:
  "titled content m \<Longrightarrow> \<forall>raw\<in>set ls. \<forall>u\<in>set (find_message_links (trim_space raw)). contains content u \<Longrightarrow>
   titled content (second_pass rx lines lti i m ls)"
  by (induction ls arbitrary: i m) (simp_all add: fold_missing_titled)

lemma newlines_titled: "titled content (extractLinkTitlePairsWithNewlines rx content)"
proof -
  let ?ls = "split_str content [CHR 10]"
  have parts: "\<forall>raw\<in>set ?ls. \<forall>u\<in>set (find_message_links (trim_space raw)). contains content u"
    using line_link_part by blast
  obtain m lt lti where fp: "first_pass rx 0 ([], [], 0) ?ls = (m, lt, lti)" by (metis prod.exhaust)
  from first_pass_titled [OF _ parts, of "([], [], 0)" rx 0] fp have "titled content m" by simp
  with second_pass_titled [OF _ parts] fp show ?thesis
    by (simp add: extractLinkTitlePairsWithNewlines_def Let_def)
qed

text \<open>The second pass never changes a title the first pass has found.\<close>

lemma put_missing_keeps: "map_of m u = Some t \<Longrightarrow> map_of (put_missing t' link m) u = Some t"
  by (auto simp: put_missing_def update_conv')

lemma second_pass_keeps: "map_of m u = Some t \<Longrightarrow> map_of (second_pass rx lines lti i m ls) u = Some t"
proof (induction ls arbitrary: i m)
  case (Cons raw ls)
  have "map_of m u = Some t \<Longrightarrow> map_of (foldl (\<lambda>m link. put_missing t' link m) m links) u = Some t" for m t' links
    by (induction links arbitrary: m) (simp_all add: put_missing_keeps)
  with Cons show ?case by simp
qed simp

section \<open>Lemmas: links by position\<close>

lemma exchange_inner_mset: "add_mset (fst (exchange_inner x ys)) (mset (snd (exchange_inner x ys))) = add_mset x (mset ys)"
  by (induction x ys rule: exchange_inner.induct) (auto simp: split_beta Let_def)

lemma exchange_inner_least:
  "snd (fst (exchange_inner x ys)) \<le> snd x \<and> (\<forall>y\<in>set (snd (exchange_inner x ys)). snd (fst (exchange_inner x ys)) \<le> snd y)"
  by (induction x ys rule: exchange_inner.induct) (auto simp: split_beta Let_def)

lemma exchange_sort_mset: "mset (exchange_sort xs) = mset xs"
  by (induction xs rule: exchange_sort.induct) (simp_all add: exchange_inner_mset)

lemma exchange_sort_set [simp]: "set (exchange_sort xs) = set xs"
  by (metis exchange_sort_mset set_mset_mset)

lemma exchange_sort_sorted: "sorted_wrt (\<lambda>a b. snd a \<le> snd b) (exchange_sort xs)"
  by (induction xs rule: exchange_sort.induct) (simp_all add: exchange_inner_least)

lemma dedup_urls_subset: "set (dedup_urls seen us) \<subseteq> set us"
  by (induction seen us rule: dedup_urls.induct) auto

lemma dedup_urls_unseen: "u \<in> set (dedup_urls seen us) \<Longrightarrow> normalizeUrl u \<notin> set seen"
  by (induction seen us rule: dedup_urls.induct) (auto split: if_splits)

lemma dedup_urls_distinct: "distinct (map normalizeUrl (dedup_urls seen us))"
  by (induction seen us rule: dedup_urls.induct) (auto dest: dedup_urls_unseen)

lemma dedup_urls_covers:
  "u \<in> set us \<Longrightarrow> normalizeUrl u \<in> set seen \<or> normalizeUrl u \<in> normalizeUrl ` set (dedup_urls seen us)"
proof (induction seen us rule: dedup_urls.induct)
  case (2 seen v us)
  then show ?case by (cases "normalizeUrl v \<in> set seen"; cases "u = v") auto
qed simp

lemma dedup_urls_sorted: "sorted_wrt R us \<Longrightarrow> sorted_wrt R (dedup_urls seen us)"
proof (induction seen us rule: dedup_urls.induct)
  case (2 seen v us)
  then show ?case using dedup_urls_subset [of "normalizeUrl v # seen" us] by auto
qed simp

lemma positioned_set: "(u, i) \<in> set (positioned content ms) \<longleftrightarrow> u \<in> set ms \<and> index_of content u = Some i"
  by (auto simp: positioned_def)

definition found_links :: "title_rx \<Rightarrow> string \<Rightarrow> string set" where
  "found_links rx content = {u. \<exists>p\<in>set (rx_pans rx). u \<in> set (p content) \<and> contains content u}"

lemma positioned_urls:
  "fst ` set (concat (map (\<lambda>p. positioned content (p content)) (rx_pans rx))) = found_links rx content"
proof -
  have "u \<in> fst ` set (positioned content ms) \<longleftrightarrow> u \<in> set ms \<and> contains content u" for u ms
    unfolding index_of_contains [symmetric] by (auto simp: positioned_def image_image)
  then show ?thesis unfolding found_links_def by (auto simp: image_Union)
qed

lemma message_links_set: "set (message_links rx content) \<subseteq> found_links rx content"
  unfolding message_links_def positioned_urls [symmetric] by (rule order_trans [OF dedup_urls_subset]) simp

lemma message_links_sorted:
  "sorted_wrt (\<lambda>a b. the (index_of content a) \<le> the (index_of content b)) (message_links rx content)"
proof -
  let ?ps = "concat (map (\<lambda>p. positioned content (p content)) (rx_pans rx))"
  have "sorted_wrt (\<lambda>a b. the (index_of content (fst a)) \<le> the (index_of content (fst b))) (exchange_sort ?ps)"
    by (rule sorted_wrt_mono_rel [OF _ exchange_sort_sorted]) (auto simp: positioned_set)
  then show ?thesis unfolding message_links_def by (intro dedup_urls_sorted) (simp add: sorted_wrt_map)
qed

lemma put_titles_titled:
  "titled content m \<Longrightarrow> \<forall>u\<in>fst ` set lss. contains content u \<Longrightarrow> titled content (put_titles rx lss m)"
  unfolding put_titles_def by (induction lss arbitrary: m) (auto simp: titled_update Let_def split_beta)

lemma without_newlines_titled: "titled content (extractLinkTitlePairsWithoutNewlines rx content)"
proof -
  have "\<forall>u\<in>fst ` set (zip (message_links rx content) segs). contains content u" for segs
    using message_links_set [of rx content] by (auto simp: found_links_def dest: set_zip_leftD)
  then show ?thesis by (auto simp: extractLinkTitlePairsWithoutNewlines_def Let_def intro!: put_titles_titled)
qed

lemma titles_titled: "titled content (extractLinkTitlePairs rx content)"
  by (simp add: extractLinkTitlePairs_def newlines_titled without_newlines_titled)

section \<open>Lemmas: percent encoding\<close>

text \<open>A spelling of a text: each byte as it is, or as a percent sign and two hexadecimal digits.\<close>

definition hex_digit :: "nat \<Rightarrow> char" where
  "hex_digit n = (if n < 10 then char_of (48 + n) else char_of (55 + n))"

definition spell :: "bool \<times> char \<Rightarrow> string" where
  "spell bc =
     (if fst bc then [CHR ''%'', hex_digit (of_char (snd bc) div 16), hex_digit (of_char (snd bc) mod 16)]
      else [snd bc])"

lemma hex_digit_value: "n < 16 \<Longrightarrow> hex_value (hex_digit n) = Some n"
  by (auto simp: hex_digit_def hex_value_def Let_def)

lemma char_nibbles: "char_of (16 * (of_char c div 16) + of_char c mod 16 :: nat) = c"
  by simp

lemma query_unescape_spell:
  assumes "\<forall>bc\<in>set bcs. fst bc \<or> snd bc \<notin> {CHR ''%'', CHR ''+''}"
  shows "query_unescape (concat (map spell bcs)) = Some (map snd bcs)"
  using assms
proof (induction bcs)
  case (Cons bc bcs)
  obtain b c where bc: "bc = (b, c)" by fastforce
  have "of_char c div 16 < (16 :: nat)" by (simp add: less_mult_imp_div_less)
  with Cons bc show ?case by (cases b) (simp_all add: spell_def hex_digit_value char_nibbles)
qed simp

text \<open>The links that are paired with titles in a one-line message are in the order of their
  first positions in the text, no two of them are spellings of one URL (the percent-encoded and the
  plain form of a link are one link), and each link a pattern finds in the text is among them up to
  its spelling. Two spellings of a URL text are equal after \<open>normalizeUrl\<close>.\<close>

theorem message_links_order:
  assumes plain: "\<forall>bc\<in>set bcs. fst bc \<or> snd bc \<notin> {CHR ''%'', CHR ''+''}"
  shows "sorted_wrt (\<lambda>a b. the (index_of content a) \<le> the (index_of content b)) (message_links rx content)
       \<and> distinct (map normalizeUrl (message_links rx content))
       \<and> normalizeUrl ` set (message_links rx content) = normalizeUrl ` found_links rx content
       \<and> normalizeUrl (concat (map spell bcs)) = map snd bcs"
proof (intro conjI)
  show "distinct (map normalizeUrl (message_links rx content))"
    unfolding message_links_def by (rule dedup_urls_distinct)
  show "normalizeUrl ` set (message_links rx content) = normalizeUrl ` found_links rx content"
  proof
    show "normalizeUrl ` set (message_links rx content) \<subseteq> normalizeUrl ` found_links rx content"
      by (rule image_mono [OF message_links_set])
    have "normalizeUrl u \<in> normalizeUrl ` set (message_links rx content)" if "u \<in> found_links rx content" for u
      using dedup_urls_covers [of u _ "[]"] that
      unfolding message_links_def positioned_urls [symmetric] by simp
    then show "normalizeUrl ` found_links rx content \<subseteq> normalizeUrl ` set (message_links rx content)" by blast
  qed
  show "normalizeUrl (concat (map spell bcs)) = map snd bcs"
    using query_unescape_spell [OF plain] by (simp add: normalizeUrl_def)
qed (rule message_links_sorted)

text \<open>A pattern that finds the links of a text and no emoji to remove.\<close>

definition demo_rx :: title_rx where
  "demo_rx = \<lparr>rx_emoji = (\<lambda>s. s), rx_suffix = (\<lambda>_. None), rx_pans = [find_message_links]\<rparr>"

theorem message_links_order_witness:
  "message_links demo_rx ''b http://x/%61 a http://x/a http://y'' = [''http://x/%61'', ''http://y'']
   \<and> normalizeUrl (concat (map spell [(False, CHR ''x''), (True, CHR ''/'')])) = ''x/''
   \<and> distinct (map normalizeUrl (message_links demo_rx ''b http://x/%61 a http://x/a http://y''))"
proof (intro conjI)
  have plain: "\<forall>bc\<in>set [(False, CHR ''x''), (True, CHR ''/'')]. fst bc \<or> snd bc \<notin> {CHR ''%'', CHR ''+''}"
    by code_simp
  show "message_links demo_rx ''b http://x/%61 a http://x/a http://y'' = [''http://x/%61'', ''http://y'']"
    by code_simp
  show "normalizeUrl (concat (map spell [(False, CHR ''x''), (True, CHR ''/'')])) = ''x/''"
    using message_links_order [OF plain] by simp
  show "distinct (map normalizeUrl (message_links demo_rx ''b http://x/%61 a http://x/a http://y''))"
    using message_links_order [OF plain] by blast
qed

text \<open>Whatever the text of a message, \<open>extractLinkTitlePairs\<close> gives a link at most one title,
  every title it gives is non-empty, every link it titles occurs in the text, and a title found by the
  first pass over the lines is never replaced by the search for the nearest title above.\<close>

theorem link_titles_of_text:
  "distinct (map fst (extractLinkTitlePairs rx content))
   \<and> (\<forall>(link, title)\<in>set (extractLinkTitlePairs rx content). title \<noteq> [] \<and> contains content link)
   \<and> (contains content [CHR 10] \<longrightarrow>
       map_of (fst (first_pass rx 0 ([], [], 0) (split_str content [CHR 10])))
         \<subseteq>\<^sub>m map_of (extractLinkTitlePairs rx content))"
proof -
  have keeps: "map_of (fst (first_pass rx 0 ([], [], 0) (split_str content [CHR 10])))
      \<subseteq>\<^sub>m map_of (extractLinkTitlePairsWithNewlines rx content)"
    unfolding map_le_def extractLinkTitlePairsWithNewlines_def Let_def
    by (auto simp: split_beta second_pass_keeps)
  from titles_titled [of content rx] keeps show ?thesis
    by (simp add: titled_def extractLinkTitlePairs_def)
qed

theorem link_titles_of_text_witness:
  "extractLinkTitlePairs demo_rx (''Film'' @ [CHR 10] @ ''http://x/1'') = [(''http://x/1'', ''Film'')]
   \<and> map_of (extractLinkTitlePairs demo_rx (''Film'' @ [CHR 10] @ ''http://x/1'')) ''http://x/1'' = Some ''Film''
   \<and> contains (''Film'' @ [CHR 10] @ ''http://x/1'') ''http://x/1''"
proof (intro conjI)
  show eq: "extractLinkTitlePairs demo_rx (''Film'' @ [CHR 10] @ ''http://x/1'') = [(''http://x/1'', ''Film'')]"
    by code_simp
  show "map_of (extractLinkTitlePairs demo_rx (''Film'' @ [CHR 10] @ ''http://x/1'')) ''http://x/1'' = Some ''Film''"
    unfolding eq by simp
  show "contains (''Film'' @ [CHR 10] @ ''http://x/1'') ''http://x/1''"
    using link_titles_of_text [of demo_rx "''Film'' @ [CHR 10] @ ''http://x/1''"] unfolding eq by simp
qed

end
