(* ===== verification/Search_Results.thy ===== *)
theory Search_Results
  imports Source_Config Link_Titles
begin

text \<open>
  Merging, ranking and presenting search results: the result functions of
  \<^verbatim>\<open>src/service/search_service.go\<close> over the data of \<^verbatim>\<open>src/model/response.go\<close>.

  A Go map is iterated in an arbitrary order and \<open>sort.Slice\<close> is not stable; \<open>mergeSearchResults\<close>
  therefore takes the order in which the merged values reach the final (stable) sort as an
  argument, and the choice of a title for a link the order in which the map of titles is iterated
  (\<open>link_env\<close>). The Unicode tables of the \<open>regexp\<close> and \<open>unicode\<close> packages are the parameters of \<open>text_ops\<close>:
  removing white space, punctuation and symbols from a text, and splitting at them. The plugin
  registry gives the priority of a plugin by name. Scores are integers: every summand of the
  floating-point total is one. The thresholds of the time score are compared exactly; the code
  compares a number of days rounded to a double.
\<close>

section \<open>Model: data\<close>

record Link =
  ln_Type :: string
  ln_URL :: string
  ln_Password :: string
  ln_Datetime :: time
  ln_WorkTitle :: string

record SearchResult =
  sr_MessageID :: string
  sr_UniqueID :: string
  sr_Channel :: string
  sr_SubSource :: string
  sr_Datetime :: time
  sr_Title :: string
  sr_Content :: string
  sr_Links :: "Link list"
  sr_Tags :: "string list"
  sr_Images :: "string list"

record MergedLink =
  ml_URL :: string
  ml_Password :: string
  ml_Note :: string
  ml_Datetime :: time
  ml_Source :: string
  ml_SubSource :: string
  ml_Images :: "string list"

type_synonym MergedLinks = "(string \<times> MergedLink list) list"

record SearchExecution =
  se_Requested :: int
  se_Executed :: int
  se_Cached :: int
  se_Deferred :: int
  se_Completed :: int
  se_Cancelled :: int
  se_Strategy :: string

record 'st SearchResponse =
  rp_Total :: int
  rp_Results :: "SearchResult list option"
  rp_MergedByType :: "MergedLinks option"
  rp_Completion :: string
  rp_PartialSources :: "string list"
  rp_SourceStatuses :: "(string \<times> 'st) list option"
  rp_Execution :: "SearchExecution option"
  rp_StopReason :: string
  rp_ElapsedMS :: int

section \<open>Model: merging result lists\<close>

definition generateResultKey :: "SearchResult \<Rightarrow> string" where
  "generateResultKey r =
     (if sr_UniqueID r \<noteq> [] then sr_UniqueID r
      else if sr_MessageID r \<noteq> [] then sr_MessageID r
      else ''title_'' @ sr_Title r @ ''_'' @ sr_Channel r)"

definition calculateCompletenessScore :: "SearchResult \<Rightarrow> nat" where
  "calculateCompletenessScore r =
     (if sr_UniqueID r \<noteq> [] then 10 else 0)
     + (if sr_Links r \<noteq> [] then 5 + length (sr_Links r) else 0)
     + (if sr_Content r \<noteq> [] then 3 else 0)
     + length (sr_Title r) div 10
     + (if sr_Channel r \<noteq> [] then 2 else 0)
     + length (sr_Tags r)"

definition selectBetterResult :: "SearchResult \<Rightarrow> SearchResult \<Rightarrow> SearchResult" where
  "selectBetterResult existing new =
     (if calculateCompletenessScore new > calculateCompletenessScore existing then new else existing)"

fun add_existing :: "(string \<times> SearchResult) list \<Rightarrow> SearchResult list \<Rightarrow> (string \<times> SearchResult) list" where
  "add_existing m [] = m"
| "add_existing m (r # rs) = add_existing (AList.update (generateResultKey r) r m) rs"

fun merge_new :: "(string \<times> SearchResult) list \<Rightarrow> SearchResult list \<Rightarrow> (string \<times> SearchResult) list" where
  "merge_new m [] = m"
| "merge_new m (r # rs) =
     (let key = generateResultKey r
      in case map_of m key of
           Some e \<Rightarrow> merge_new (AList.update key (selectBetterResult e r) m) rs
         | None \<Rightarrow> merge_new (AList.update key r m) rs)"

definition mergeSearchResults :: "(SearchResult list \<Rightarrow> SearchResult list) \<Rightarrow> SearchResult list \<Rightarrow> SearchResult list \<Rightarrow>
    SearchResult list" where
  "mergeSearchResults order existing newResults =
     sort_key (\<lambda>r. - sr_Datetime r) (order (map snd (merge_new (add_existing [] existing) newResults)))"

section \<open>Model: execution summaries\<close>

definition add_execution :: "SearchExecution \<Rightarrow> SearchExecution \<Rightarrow> SearchExecution" where
  "add_execution merged grp =
     \<lparr>se_Requested = se_Requested merged + se_Requested grp,
      se_Executed = se_Executed merged + se_Executed grp,
      se_Cached = se_Cached merged + se_Cached grp,
      se_Deferred = se_Deferred merged + se_Deferred grp,
      se_Completed = se_Completed merged + se_Completed grp,
      se_Cancelled = se_Cancelled merged + se_Cancelled grp,
      se_Strategy =
        (if se_Strategy grp = [] then se_Strategy merged
         else if se_Strategy merged = [] then se_Strategy grp
         else if se_Strategy merged \<noteq> se_Strategy grp then ''mixed''
         else se_Strategy merged)\<rparr>"

definition no_execution :: SearchExecution where
  "no_execution = \<lparr>se_Requested = 0, se_Executed = 0, se_Cached = 0, se_Deferred = 0, se_Completed = 0,
     se_Cancelled = 0, se_Strategy = []\<rparr>"

definition mergeSearchExecution :: "SearchExecution list \<Rightarrow> SearchExecution option" where
  "mergeSearchExecution groups =
     (let merged = foldl add_execution no_execution groups
      in if se_Requested merged = 0 \<and> se_Executed merged = 0 \<and> se_Cached merged = 0 \<and> se_Deferred merged = 0
         then None else Some merged)"

definition mergeSourceStatuses :: "(string \<times> 'st) list list \<Rightarrow> (string \<times> 'st) list option" where
  "mergeSourceStatuses groups =
     (let merged = foldl (\<lambda>m (source, status). AList.update source status m) [] (concat groups)
      in if concat groups = [] then None else Some merged)"

definition filterResponseByType :: "'st SearchResponse \<Rightarrow> string \<Rightarrow> 'st SearchResponse" where
  "filterResponseByType response resultType =
     (if resultType = ''merged_by_type'' then response\<lparr>rp_Results := None\<rparr>
      else if resultType = ''all'' then response
      else if resultType = ''results'' then response\<lparr>rp_MergedByType := None\<rparr>
      else response\<lparr>rp_Results := None\<rparr>)"

section \<open>Model: relevance and ranking\<close>

record text_ops =
  tx_noise :: "string \<Rightarrow> string"
  tx_fields :: "string \<Rightarrow> string list"

text \<open>The number of runes of valid UTF-8: the bytes that are not continuation bytes.\<close>

definition rune_count :: "string \<Rightarrow> nat" where
  "rune_count s = length (filter (\<lambda>c. \<not> (128 \<le> (of_char c :: nat) \<and> (of_char c :: nat) < 192)) s)"

definition normalizeSearchText :: "text_ops \<Rightarrow> string \<Rightarrow> string" where
  "normalizeSearchText tx val = tx_noise tx (to_lower (trim_space val))"

definition searchKeywordTerms :: "text_ops \<Rightarrow> string \<Rightarrow> string list" where
  "searchKeywordTerms tx keyword =
     (let raw = tx_fields tx (to_lower (trim_space keyword))
      in uniq_acc [] (filter (\<lambda>t. t \<noteq> []) (map (normalizeSearchText tx) (keyword # raw))))"

definition scoreTextRelevance :: "text_ops \<Rightarrow> string \<Rightarrow> string \<Rightarrow> bool \<Rightarrow> int" where
  "scoreTextRelevance tx text keyword title =
     (let normalizedText = normalizeSearchText tx text; terms = searchKeywordTerms tx keyword
      in case terms of
           [] \<Rightarrow> 0
         | query # others \<Rightarrow>
             if normalizedText = [] then 0
             else let base = (if title then 700 else 70) in
               if normalizedText = query then base + 900
               else if has_prefix normalizedText query
                 then base + 650 - int (min (rune_count normalizedText div 4) 120)
               else (case index_of normalizedText query of
                       Some i \<Rightarrow> base + 450 - int (min i 160) - int (min (rune_count normalizedText div 8) 100)
                     | None \<Rightarrow>
                         let matched = length (filter (contains normalizedText) others)
                         in if others \<noteq> [] \<and> matched = length others then base + 180 + int matched * 30 else 0))"

definition scoreSearchResultRelevance :: "text_ops \<Rightarrow> SearchResult \<Rightarrow> string \<Rightarrow> int" where
  "scoreSearchResultRelevance tx r keyword =
     (if trim_space keyword = [] then 0
      else let score = scoreTextRelevance tx (sr_Title r) keyword True;
               score = foldl (\<lambda>s l. max s (scoreTextRelevance tx (ln_WorkTitle l) keyword True)) score (sr_Links r);
               score = max score (scoreTextRelevance tx (sr_Content r) keyword False)
           in foldl (\<lambda>s t. max s (scoreTextRelevance tx t keyword False)) score (sr_Tags r))"

definition priorityKeywords :: "string list" where
  "priorityKeywords =
     [[CHR 0xE5, CHR 0x90, CHR 0x88, CHR 0xE9, CHR 0x9B, CHR 0x86],
      [CHR 0xE7, CHR 0xB3, CHR 0xBB, CHR 0xE5, CHR 0x88, CHR 0x97],
      [CHR 0xE5, CHR 0x85, CHR 0xA8],
      [CHR 0xE5, CHR 0xAE, CHR 0x8C],
      [CHR 0xE6, CHR 0x9C, CHR 0x80, CHR 0xE6, CHR 0x96, CHR 0xB0],
      [CHR 0xE9, CHR 0x99, CHR 0x84],
      ''complete'']"

fun keyword_priority_loop :: "string \<Rightarrow> string list \<Rightarrow> int" where
  "keyword_priority_loop title [] = 0"
| "keyword_priority_loop title (k # ks) =
     (if contains title k then int (length (k # ks)) * 70 else keyword_priority_loop title ks)"

definition getKeywordPriority :: "string \<Rightarrow> int" where
  "getKeywordPriority title = keyword_priority_loop (to_lower title) priorityKeywords"

fun index_any :: "string \<Rightarrow> char list \<Rightarrow> nat option" where
  "index_any [] cs = None"
| "index_any (c # s) cs = (if c \<in> set cs then Some 0 else map_option Suc (index_any s cs))"

definition pluginNameFromUniqueID :: "string \<Rightarrow> string" where
  "pluginNameFromUniqueID uniqueID =
     (let uniqueID = trim_space uniqueID
      in case index_any uniqueID ''-:'' of
           None \<Rightarrow> []
         | Some separator \<Rightarrow> if separator = 0 then [] else take separator uniqueID)"

definition getResultSource :: "SearchResult \<Rightarrow> string" where
  "getResultSource r =
     (if sr_Channel r \<noteq> [] then ''tg:'' @ sr_Channel r
      else let pluginName = pluginNameFromUniqueID (sr_UniqueID r)
           in if pluginName \<noteq> [] then ''plugin:'' @ pluginName else ''unknown'')"

definition plugin_level :: "(string \<rightharpoonup> int) \<Rightarrow> string \<Rightarrow> int" where
  "plugin_level priority source =
     (case split_byte CHR '':'' source of
        [kind, name] \<Rightarrow>
          if kind = ''tg'' then 3
          else if kind = ''plugin'' then (case priority name of Some p \<Rightarrow> p | None \<Rightarrow> 3)
          else 3
      | _ \<Rightarrow> 3)"

definition getPluginLevelBySource :: "(string \<rightharpoonup> int) \<Rightarrow> (string \<rightharpoonup> int) \<Rightarrow> string \<Rightarrow> int \<times> (string \<rightharpoonup> int)" where
  "getPluginLevelBySource priority pluginLevelCache source =
     (case pluginLevelCache source of
        Some level \<Rightarrow> (level, pluginLevelCache)
      | None \<Rightarrow> let level = plugin_level priority source in (level, pluginLevelCache(source \<mapsto> level)))"

definition level_score :: "int \<Rightarrow> int" where
  "level_score level = (if level = 1 then 1000 else if level = 2 then 500 else if level = 4 then - 200 else 0)"

definition getPluginLevelScore :: "(string \<rightharpoonup> int) \<Rightarrow> (string \<rightharpoonup> int) \<Rightarrow> string \<Rightarrow> int \<times> (string \<rightharpoonup> int)" where
  "getPluginLevelScore priority pluginLevelCache source =
     (let (level, pluginLevelCache) = getPluginLevelBySource priority pluginLevelCache source
      in (level_score level, pluginLevelCache))"

definition calculateTimeScore :: "time \<Rightarrow> time \<Rightarrow> int" where
  "calculateTimeScore now datetime =
     (if is_zero_time datetime then 0
      else let age = now - datetime; day = 24 * Hour
           in if age \<le> day then 500 else if age \<le> 3 * day then 400 else if age \<le> 7 * day then 300
              else if age \<le> 30 * day then 200 else if age \<le> 90 * day then 100
              else if age \<le> 365 * day then 50 else 20)"

text \<open>The environment of a ranking: text operations, plugin priorities and the clock reading.\<close>

record rank_env =
  re_text :: text_ops
  re_priority :: "string \<rightharpoonup> int"
  re_now :: time

definition total_score :: "rank_env \<Rightarrow> string \<Rightarrow> SearchResult \<Rightarrow> int" where
  "total_score env keyword r =
     calculateTimeScore (re_now env) (sr_Datetime r)
     + (scoreSearchResultRelevance (re_text env) r keyword * 10 + getKeywordPriority (sr_Title r))
     + level_score (plugin_level (re_priority env) (getResultSource r))"

definition rankSearchResultsInPlace :: "rank_env \<Rightarrow> string \<Rightarrow> SearchResult list \<Rightarrow> SearchResult list" where
  "rankSearchResultsInPlace env keyword results = sort_key (\<lambda>r. - total_score env keyword r) results"

definition rankSearchResults :: "rank_env \<Rightarrow> string \<Rightarrow> SearchResult list \<Rightarrow> SearchResult list" where
  "rankSearchResults env keyword results =
     (if trim_space keyword = [] then rankSearchResultsInPlace env [] results
      else rankSearchResultsInPlace env keyword
             (filter (\<lambda>r. scoreSearchResultRelevance (re_text env) r keyword > 0) results))"

section \<open>Model: links by type\<close>

text \<open>The title of a link: its own, the one its message gives it, or the title of the message.
  \<open>le_order\<close> is the order in which the map of titles is iterated.\<close>

record link_env =
  le_rx :: title_rx
  le_order :: "titles \<Rightarrow> titles"

definition linkPrefixes :: "string list" where
  "linkPrefixes =
     [[CHR 0xE5, CHR 0xA4, CHR 0xA9, CHR 0xE7, CHR 0xBF, CHR 0xBC, CHR 0xE9, CHR 0x93, CHR 0xBE, CHR 0xE6, CHR 0x8E, CHR 0xA5, CHR 0xEF, CHR 0xBC, CHR 0x9A],
      [CHR 0xE7, CHR 0x99, CHR 0xBE, CHR 0xE5, CHR 0xBA, CHR 0xA6, CHR 0xE9, CHR 0x93, CHR 0xBE, CHR 0xE6, CHR 0x8E, CHR 0xA5, CHR 0xEF, CHR 0xBC, CHR 0x9A],
      [CHR 0xE5, CHR 0xA4, CHR 0xB8, CHR 0xE5, CHR 0x85, CHR 0x8B, CHR 0xE9, CHR 0x93, CHR 0xBE, CHR 0xE6, CHR 0x8E, CHR 0xA5, CHR 0xEF, CHR 0xBC, CHR 0x9A],
      [CHR 0xE9, CHR 0x98, CHR 0xBF, CHR 0xE9, CHR 0x87, CHR 0x8C, CHR 0xE9, CHR 0x93, CHR 0xBE, CHR 0xE6, CHR 0x8E, CHR 0xA5, CHR 0xEF, CHR 0xBC, CHR 0x9A],
      (''UC'' @ [CHR 0xE9, CHR 0x93, CHR 0xBE, CHR 0xE6, CHR 0x8E, CHR 0xA5, CHR 0xEF, CHR 0xBC, CHR 0x9A]),
      (''115'' @ [CHR 0xE9, CHR 0x93, CHR 0xBE, CHR 0xE6, CHR 0x8E, CHR 0xA5, CHR 0xEF, CHR 0xBC, CHR 0x9A]),
      [CHR 0xE8, CHR 0xBF, CHR 0x85, CHR 0xE9, CHR 0x9B, CHR 0xB7, CHR 0xE9, CHR 0x93, CHR 0xBE, CHR 0xE6, CHR 0x8E, CHR 0xA5, CHR 0xEF, CHR 0xBC, CHR 0x9A],
      (''123'' @ [CHR 0xE9, CHR 0x93, CHR 0xBE, CHR 0xE6, CHR 0x8E, CHR 0xA5, CHR 0xEF, CHR 0xBC, CHR 0x9A]),
      [CHR 0xE9, CHR 0x93, CHR 0xBE, CHR 0xE6, CHR 0x8E, CHR 0xA5, CHR 0xEF, CHR 0xBC, CHR 0x9A]]"

definition title_starts :: "string list" where
  "title_starts =
     ['' '',
      [CHR 0xE7, CHR 0xAA, CHR 0x83],
      [CHR 0xE4, CHR 0xB8, CHR 0x9C],
      [CHR 0xE8, CHR 0xBF, CHR 0x8E],
      [CHR 0xE5, CHR 0x8D, CHR 0x83],
      [CHR 0xE6, CHR 0x88, CHR 0x91],
      [CHR 0xE6, CHR 0x81, CHR 0x8B],
      [CHR 0xE5, CHR 0xB0, CHR 0x86],
      [CHR 0xE9, CHR 0x87, CHR 0x8E],
      [CHR 0xE5, CHR 0x90, CHR 0x88],
      [CHR 0xE9, CHR 0x9B, CHR 0x86],
      [CHR 0xE5, CHR 0xA4, CHR 0xA9],
      [CHR 0xE7, CHR 0xBF, CHR 0xBC],
      [CHR 0xE7, CHR 0xBD, CHR 0x91],
      [CHR 0xE7, CHR 0x9B, CHR 0x98],
      ''('',
      [CHR 0xEF, CHR 0xBC, CHR 0x88]]"

fun title_start :: "string \<Rightarrow> nat option" where
  "title_start [] = None"
| "title_start (c # s) = (if list_ex (has_prefix (c # s)) title_starts then Some 0 else map_option Suc (title_start s))"

definition middle_titles :: "title_rx \<Rightarrow> string list \<Rightarrow> string list" where
  "middle_titles rx parts =
     concat (map (\<lambda>part. case title_start part of Some (Suc i) \<Rightarrow> [cleanTitle rx (drop (Suc i) part)] | _ \<Rightarrow> []) parts)"

definition content_parts :: "string \<Rightarrow> string list" where
  "content_parts content =
     (case filter (contains content) linkPrefixes of [] \<Rightarrow> [] | prefix # _ \<Rightarrow> split_str content prefix)"

definition put_direct :: "(Link \<times> string) list \<Rightarrow> titles \<Rightarrow> titles" where
  "put_direct links_titles m = foldl (\<lambda>m (link, title). AList.update (ln_URL link) title m) m links_titles"

definition link_title_map :: "title_rx \<Rightarrow> SearchResult \<Rightarrow> titles" where
  "link_title_map rx result =
     (let linkTitleMap = extractLinkTitlePairs rx (sr_Content result); parts = content_parts (sr_Content result)
      in if linkTitleMap = [] \<and> sr_Links result \<noteq> [] \<and> \<not> contains (sr_Content result) [CHR 10]
            \<and> length parts > 1 \<and> length (sr_Links result) \<le> length parts - 1
         then put_direct (zip (sr_Links result) (cleanTitle rx (hd parts) # middle_titles rx (butlast (tl parts)))) linkTitleMap
         else linkTitleMap)"

definition link_title :: "link_env \<Rightarrow> SearchResult \<Rightarrow> Link \<Rightarrow> string" where
  "link_title le result link =
     (if ln_WorkTitle link \<noteq> [] then ln_WorkTitle link
      else let linkTitleMap = link_title_map (le_rx le) result
           in case map_of linkTitleMap (ln_URL link) of
                Some (c # cs) \<Rightarrow> c # cs
              | _ \<Rightarrow> (case filter (\<lambda>(mappedLink, _). has_prefix mappedLink (ln_URL link)) (le_order le linkTitleMap) of
                        [] \<Rightarrow> sr_Title result
                      | (_, mappedTitle) # _ \<Rightarrow> mappedTitle))"

definition note_keywords :: "string list" where
  "note_keywords = [[CHR 0xE7, CHR 0xAE, CHR 0x80, CHR 0xE4, CHR 0xBB, CHR 0x8B],
      [CHR 0xE6, CHR 0x8F, CHR 0x8F, CHR 0xE8, CHR 0xBF, CHR 0xB0]]"

definition merged_link :: "link_env \<Rightarrow> SearchResult \<Rightarrow> Link \<Rightarrow> MergedLink" where
  "merged_link le result link =
     \<lparr>ml_URL = ln_URL link, ml_Password = ln_Password link,
      ml_Note = CutTitleByKeywords (link_title le result link) note_keywords,
      ml_Datetime = (if is_zero_time (ln_Datetime link) then sr_Datetime result else ln_Datetime link),
      ml_Source = getResultSource result, ml_SubSource = sr_SubSource result, ml_Images = sr_Images result\<rparr>"

definition relevant_link :: "text_ops \<Rightarrow> link_env \<Rightarrow> string \<Rightarrow> SearchResult \<times> Link \<Rightarrow> bool" where
  "relevant_link tx le keyword rl \<longleftrightarrow>
     \<not> (keyword \<noteq> [] \<and> scoreTextRelevance tx (link_title le (fst rl) (snd rl)) keyword True = 0)"

definition all_links :: "SearchResult list \<Rightarrow> (SearchResult \<times> Link) list" where
  "all_links results = concat (map (\<lambda>r. map (Pair r) (sr_Links r)) results)"

definition keep_newest :: "(string \<times> MergedLink) list \<Rightarrow> MergedLink \<Rightarrow> (string \<times> MergedLink) list" where
  "keep_newest uniqueLinks ml =
     (case map_of uniqueLinks (ml_URL ml) of
        Some e \<Rightarrow> if ml_Datetime ml > ml_Datetime e then AList.update (ml_URL ml) ml uniqueLinks else uniqueLinks
      | None \<Rightarrow> AList.update (ml_URL ml) ml uniqueLinks)"

definition unique_links :: "text_ops \<Rightarrow> link_env \<Rightarrow> string \<Rightarrow> SearchResult list \<Rightarrow> (string \<times> MergedLink) list" where
  "unique_links tx le keyword results =
     foldl keep_newest []
       (map (\<lambda>(r, l). merged_link le r l) (filter (relevant_link tx le keyword) (all_links results)))"

text \<open>The second pass over the results: each URL once, with the type of its first link.\<close>

fun ordered_loop :: "(string \<rightharpoonup> MergedLink) \<Rightarrow> string list \<Rightarrow> (SearchResult \<times> Link) list \<Rightarrow> (string \<times> MergedLink) list" where
  "ordered_loop uniqueLinks orderedSeen [] = []"
| "ordered_loop uniqueLinks orderedSeen ((r, l) # rls) =
     (case uniqueLinks (ln_URL l) of
        Some ml \<Rightarrow>
          if ln_URL l \<in> set orderedSeen then ordered_loop uniqueLinks orderedSeen rls
          else (if ln_Type l = [] then ''unknown'' else ln_Type l, ml)
               # ordered_loop uniqueLinks (ln_URL l # orderedSeen) rls
      | None \<Rightarrow> ordered_loop uniqueLinks orderedSeen rls)"

fun group_by_type :: "MergedLinks \<Rightarrow> (string \<times> MergedLink) list \<Rightarrow> MergedLinks" where
  "group_by_type merged [] = merged"
| "group_by_type merged ((t, ml) # tls) =
     group_by_type
       (AList.update t ((case map_of merged t of None \<Rightarrow> [] | Some ls \<Rightarrow> ls) @ [ml]) merged) tls"

definition mergeResultsByType :: "text_ops \<Rightarrow> link_env \<Rightarrow> SearchResult list \<Rightarrow> string \<Rightarrow> string list \<Rightarrow> MergedLinks" where
  "mergeResultsByType tx le results keyword cloudTypes =
     (let uniqueLinks = unique_links tx le keyword results;
          ordered = ordered_loop (map_of uniqueLinks) [] (all_links results);
          mergedLinks = group_by_type [] ordered
      in if cloudTypes \<noteq> [] then filter (\<lambda>(t, _). to_lower t \<in> set (map fold_key cloudTypes)) mergedLinks
         else mergedLinks)"

definition searchResultMetrics :: "SearchResult list \<Rightarrow> nat \<times> nat" where
  "searchResultMetrics results =
     (length (all_links results),
      length (uniq_acc [] (filter (\<lambda>k. k \<noteq> [])
        (map (\<lambda>(r, l). if trim_space (ln_URL l) = [] then sr_UniqueID r else trim_space (ln_URL l)) (all_links results)))))"

section \<open>Model: choosing the sources of a request\<close>

definition selectPlugins :: "string list \<Rightarrow> string list \<Rightarrow> string list" where
  "selectPlugins all_plugins requested =
     (let wanted = filter (\<lambda>n. n \<noteq> []) (map fold_key requested)
      in if requested = [] \<or> wanted = [] then all_plugins
         else filter (\<lambda>name. to_lower name \<in> set wanted) all_plugins)"

fun intersect_loop :: "(string \<rightharpoonup> string) \<Rightarrow> string list \<Rightarrow> string list \<Rightarrow> string list" where
  "intersect_loop allowed seen [] = []"
| "intersect_loop allowed seen (v # vs) =
     (let key = fold_key v
      in case allowed key of
           None \<Rightarrow> intersect_loop allowed seen vs
         | Some canonical \<Rightarrow>
             if key \<in> set seen then intersect_loop allowed seen vs
             else canonical # intersect_loop allowed (key # seen) vs)"

definition allowed_map :: "string list \<Rightarrow> (string \<rightharpoonup> string)" where
  "allowed_map enabled = foldl (\<lambda>m v. m(fold_key v \<mapsto> v)) (\<lambda>_. None) enabled"

definition intersectSources :: "string list option \<Rightarrow> string list \<Rightarrow> string list" where
  "intersectSources requested enabled =
     (if enabled = [] then []
      else (case requested of
              None \<Rightarrow> enabled
            | Some req \<Rightarrow> intersect_loop (allowed_map enabled) [] req))"

record SearchRequest =
  rq_SourceType :: string
  rq_Channels :: "string list option"
  rq_Plugins :: "string list option"
  rq_deep :: bool
  rq_requiresLiveTG :: bool

definition resolve_channels :: "bool \<Rightarrow> SearchRequest \<Rightarrow> 'v Config \<Rightarrow> channel_error + SearchRequest" where
  "resolve_channels tieredRollout request snapshot =
     (if fold_key (rq_SourceType request) = ''plugin''
      then Inr (request\<lparr>rq_Channels := Some [], rq_requiresLiveTG := False\<rparr>)
      else (case rq_Channels request of
              None \<Rightarrow>
                Inr (request\<lparr>rq_Channels := Some (if rq_deep request \<or> \<not> tieredRollout then Channels snapshot
                                                 else RealtimeChannels snapshot),
                             rq_requiresLiveTG := False\<rparr>)
            | Some cs \<Rightarrow>
                (case NormalizeList (Some cs) of
                   Inl e \<Rightarrow> Inl e
                 | Inr channels \<Rightarrow>
                     Inr (request\<lparr>rq_Channels := channels,
                                  rq_requiresLiveTG :=
                                    list_ex (\<lambda>c. c \<notin> set (Channels snapshot)) (case channels of None \<Rightarrow> [] | Some xs \<Rightarrow> xs)\<rparr>))))"

definition resolveManagedSearchRequest :: "bool \<Rightarrow> SearchRequest \<Rightarrow> 'v Config \<Rightarrow> channel_error + SearchRequest" where
  "resolveManagedSearchRequest tieredRollout request snapshot =
     (case resolve_channels tieredRollout request snapshot of
        Inl e \<Rightarrow> Inl e
      | Inr r \<Rightarrow>
          Inr (r\<lparr>rq_Plugins :=
                   (if fold_key (rq_SourceType request) = ''tg'' then Some []
                    else Some (intersectSources (rq_Plugins request) (PluginNames snapshot)))\<rparr>))"

section \<open>Tables that keep the best entry\<close>

text \<open>The contract of a table that is filled from a list and keeps, per key, an entry at least as
  good as each candidate: one step never lowers the stored weight and covers its candidate. Both the
  table of results and the table of links have it.\<close>

locale keep_best =
  fixes look :: "'m \<Rightarrow> 'k \<Rightarrow> 'e option" and add :: "'m \<Rightarrow> 'r \<Rightarrow> 'm" and key :: "'r \<Rightarrow> 'k"
    and weight :: "'e \<Rightarrow> 'o::linorder" and offered :: "'r \<Rightarrow> 'o"
  assumes grows: "look m k = Some e \<Longrightarrow> \<exists>e'. look (add m r) k = Some e' \<and> weight e \<le> weight e'"
    and covers: "\<exists>e. look (add m r) (key r) = Some e \<and> offered r \<le> weight e"
begin

lemma fold_grows: "look m k = Some e \<Longrightarrow> \<exists>e'. look (foldl add m rs) k = Some e' \<and> weight e \<le> weight e'"
proof (induction rs arbitrary: m e)
  case (Cons r rs)
  from grows [OF Cons.prems, of r] obtain e1 where e1: "look (add m r) k = Some e1" "weight e \<le> weight e1" by blast
  from Cons.IH [OF e1(1)] obtain e2 where "look (foldl add (add m r) rs) k = Some e2" "weight e1 \<le> weight e2"
    by blast
  with e1(2) have "look (foldl add m (r # rs)) k = Some e2 \<and> weight e \<le> weight e2"
    by (simp add: order_trans [OF e1(2)])
  then show ?case by blast
qed simp

lemma fold_covers: "r \<in> set rs \<Longrightarrow> \<exists>e. look (foldl add m rs) (key r) = Some e \<and> offered r \<le> weight e"
proof (induction rs arbitrary: m)
  case (Cons r' rs)
  show ?case
  proof (cases "r \<in> set rs")
    case True
    with Cons.IH show ?thesis by simp
  next
    case False
    with Cons.prems have eq: "r' = r" by simp
    obtain e where e: "look (add m r) (key r) = Some e" "offered r \<le> weight e" using covers by blast
    from fold_grows [OF e(1), of rs] obtain e' where
      "look (foldl add (add m r) rs) (key r) = Some e'" "weight e \<le> weight e'" by blast
    with order_trans [OF e(2)] eq have "look (foldl add m (r' # rs)) (key r) = Some e' \<and> offered r \<le> weight e'"
      by simp
    then show ?thesis by blast
  qed
qed simp

end

section \<open>Lemmas: merging\<close>

definition keyed :: "(string \<times> SearchResult) list \<Rightarrow> bool" where
  "keyed m \<longleftrightarrow> distinct (map fst m) \<and> (\<forall>(k, r)\<in>set m. generateResultKey r = k)"

lemma keyed_update:
  "keyed m \<Longrightarrow> generateResultKey r = k \<Longrightarrow> keyed (AList.update k r m)"
  using set_alist_update [of k r m] by (auto simp: keyed_def distinct_update)

lemma keys_update: "fst ` set (AList.update k v m) = insert k (fst ` set m)"
  by (simp add: update_conv' flip: dom_map_of_conv_image_fst)

lemma values_update: "snd ` set (AList.update k v m) \<subseteq> insert v (snd ` set m)"
  using set_alist_update [of k v m] by force

lemma add_existing_keyed: "keyed m \<Longrightarrow> keyed (add_existing m rs)"
  by (induction rs arbitrary: m) (simp_all add: keyed_update)

lemma add_existing_keys: "fst ` set (add_existing m rs) = fst ` set m \<union> generateResultKey ` set rs"
  by (induction rs arbitrary: m) (simp_all add: keys_update)

lemma add_existing_values: "snd ` set (add_existing m rs) \<subseteq> snd ` set m \<union> set rs"
proof (induction rs arbitrary: m)
  case (Cons r rs)
  from Cons.IH [of "AList.update (generateResultKey r) r m"] values_update [of "generateResultKey r" r m]
  have "snd ` set (add_existing (AList.update (generateResultKey r) r m) rs) \<subseteq> insert r (snd ` set m) \<union> set rs"
    by (meson Un_mono order_trans subset_refl)
  then show ?case by simp
qed simp

text \<open>One new result: what it does to the table.\<close>

definition merge_one :: "(string \<times> SearchResult) list \<Rightarrow> SearchResult \<Rightarrow> (string \<times> SearchResult) list" where
  "merge_one m r =
     AList.update (generateResultKey r)
       (case map_of m (generateResultKey r) of Some e \<Rightarrow> selectBetterResult e r | None \<Rightarrow> r) m"

lemma merge_new_fold: "merge_new m rs = foldl merge_one m rs"
  by (induction m rs rule: merge_new.induct) (auto simp: merge_one_def Let_def split: option.split)

lemma keyed_lookup: "keyed m \<Longrightarrow> map_of m k = Some e \<Longrightarrow> generateResultKey e = k"
  by (auto simp: keyed_def dest!: map_of_SomeD)

lemma merge_one_keyed: "keyed m \<Longrightarrow> keyed (merge_one m r)"
  unfolding merge_one_def
  by (rule keyed_update) (auto simp: selectBetterResult_def keyed_lookup split: option.split)

lemma merge_one_keys: "fst ` set (merge_one m r) = insert (generateResultKey r) (fst ` set m)"
  by (simp add: merge_one_def keys_update)

lemma merge_one_values: "snd ` set (merge_one m r) \<subseteq> insert r (snd ` set m)"
proof -
  let ?v = "case map_of m (generateResultKey r) of Some e \<Rightarrow> selectBetterResult e r | None \<Rightarrow> r"
  have "?v \<in> insert r (snd ` set m)"
  proof (cases "map_of m (generateResultKey r)")
    case (Some e)
    then have "e \<in> snd ` set m" by (metis image_eqI map_of_SomeD snd_conv)
    with Some show ?thesis by (simp add: selectBetterResult_def)
  qed simp
  then have "insert ?v (snd ` set m) \<subseteq> insert r (snd ` set m)"
    by (intro insert_subset [THEN iffD2] conjI subset_insertI)
  with values_update show ?thesis unfolding merge_one_def by (rule order_trans)
qed

text \<open>The score stored under a key never decreases, and covers each new result.\<close>

interpretation result_table: keep_best map_of merge_one generateResultKey calculateCompletenessScore
  calculateCompletenessScore
  by unfold_locales
    (auto simp: merge_one_def update_conv' selectBetterResult_def split: option.split)

lemma merge_fold_keyed: "keyed m \<Longrightarrow> keyed (foldl merge_one m rs)"
  by (induction rs arbitrary: m) (simp_all add: merge_one_keyed)

lemma merge_fold_keys: "fst ` set (foldl merge_one m rs) = fst ` set m \<union> generateResultKey ` set rs"
  by (induction rs arbitrary: m) (simp_all add: merge_one_keys)

lemma merge_fold_values: "snd ` set (foldl merge_one m rs) \<subseteq> snd ` set m \<union> set rs"
proof (induction rs arbitrary: m)
  case (Cons r rs)
  from Cons.IH [of "merge_one m r"] merge_one_values [of m r]
  have "snd ` set (foldl merge_one (merge_one m r) rs) \<subseteq> insert r (snd ` set m) \<union> set rs"
    by (meson Un_mono order_trans subset_refl)
  then show ?case by simp
qed simp

text \<open>The table that \<open>mergeSearchResults\<close> builds.\<close>

definition merge_table :: "SearchResult list \<Rightarrow> SearchResult list \<Rightarrow> (string \<times> SearchResult) list" where
  "merge_table existing newResults = merge_new (add_existing [] existing) newResults"

lemma merge_table_keyed: "keyed (merge_table existing newResults)"
  by (simp add: merge_table_def merge_new_fold merge_fold_keyed add_existing_keyed keyed_def [of "[]"])

lemma merge_table_keys:
  "fst ` set (merge_table existing newResults) = generateResultKey ` (set existing \<union> set newResults)"
  by (simp add: merge_table_def merge_new_fold merge_fold_keys add_existing_keys image_Un)

lemma merge_table_values: "snd ` set (merge_table existing newResults) \<subseteq> set existing \<union> set newResults"
  using merge_fold_values [of "add_existing [] existing" newResults] add_existing_values [of "[]" existing]
  by (auto simp: merge_table_def merge_new_fold)

lemma merge_table_covers:
  "r \<in> set newResults \<Longrightarrow> \<exists>e\<in>snd ` set (merge_table existing newResults).
     generateResultKey e = generateResultKey r \<and> calculateCompletenessScore r \<le> calculateCompletenessScore e"
  using result_table.fold_covers [of r newResults "add_existing [] existing"] merge_table_keyed [of existing newResults]
  by (force simp: merge_table_def merge_new_fold dest: keyed_lookup map_of_SomeD)

lemma keyed_map_key: "keyed m \<Longrightarrow> map (\<lambda>kv. generateResultKey (snd kv)) m = map fst m"
  by (auto simp: keyed_def)

lemma sort_desc: "sorted_wrt (\<lambda>a b. f b \<le> f a) (sort_key (\<lambda>r. - f r :: int) xs)"
proof -
  have "sorted (map (\<lambda>r. - f r) (sort_key (\<lambda>r. - f r) xs))" by (rule sorted_sort_key)
  then show ?thesis by (simp add: sorted_map)
qed

section \<open>Lemmas: links\<close>

definition urls_ok :: "(string \<times> MergedLink) list \<Rightarrow> bool" where
  "urls_ok u \<longleftrightarrow> (\<forall>k e. map_of u k = Some e \<longrightarrow> ml_URL e = k)"

lemma keep_newest_urls: "urls_ok u \<Longrightarrow> urls_ok (keep_newest u ml)"
  by (auto simp: urls_ok_def keep_newest_def update_conv' split: option.splits if_splits)

lemma keep_newest_fold_urls: "urls_ok u \<Longrightarrow> urls_ok (foldl keep_newest u mls)"
  by (induction mls arbitrary: u) (simp_all add: keep_newest_urls)

interpretation link_table: keep_best map_of keep_newest ml_URL ml_Datetime ml_Datetime
  by unfold_locales (auto simp: keep_newest_def update_conv' not_less split: option.splits if_splits)

lemma ordered_loop_urls:
  assumes "urls_ok u"
  shows "distinct (map (\<lambda>tl. ml_URL (snd tl)) (ordered_loop (map_of u) seen rls))
       \<and> (\<forall>tl\<in>set (ordered_loop (map_of u) seen rls). ml_URL (snd tl) \<notin> set seen)"
proof (induction rls arbitrary: seen)
  case (Cons rl rls)
  obtain r l where rl: "rl = (r, l)" by fastforce
  show ?case
  proof (cases "map_of u (ln_URL l)")
    case None
    with Cons rl show ?thesis by simp
  next
    case (Some ml)
    with assms have "ml_URL ml = ln_URL l" by (simp add: urls_ok_def)
    with Cons.IH [of "ln_URL l # seen"] Cons.IH [of seen] Some rl show ?thesis by auto
  qed
qed simp

lemma ordered_loop_complete:
  "(r, l) \<in> set rls \<Longrightarrow> u (ln_URL l) = Some ml \<Longrightarrow> ln_URL l \<notin> set seen \<Longrightarrow>
   ml \<in> snd ` set (ordered_loop u seen rls)"
proof (induction rls arbitrary: seen)
  case (Cons rl rls)
  obtain r' l' where rl: "rl = (r', l')" by fastforce
  show ?case
  proof (cases "ln_URL l' = ln_URL l")
    case True
    with Cons.prems rl show ?thesis by simp
  next
    case False
    with Cons.prems rl have "(r, l) \<in> set rls" by auto
    with Cons.IH [of seen] Cons.IH [of "ln_URL l' # seen"] Cons.prems False rl show ?thesis
      by (auto split: option.split)
  qed
qed simp

lemma append_at_type:
  "distinct (map fst merged) \<Longrightarrow>
   mset (concat (map snd (AList.update t ((case map_of merged t of None \<Rightarrow> [] | Some ls \<Rightarrow> ls) @ [ml]) merged)))
     = add_mset ml (mset (concat (map snd merged)))"
  by (induction merged) auto

lemma group_by_type_links:
  "distinct (map fst merged) \<Longrightarrow>
   mset (concat (map snd (group_by_type merged tls))) = mset (concat (map snd merged)) + mset (map snd tls)"
proof (induction tls arbitrary: merged)
  case (Cons tl tls)
  obtain t ml where tl: "tl = (t, ml)" by fastforce
  with Cons.prems Cons.IH show ?case by (simp add: append_at_type distinct_update)
qed simp

lemma urls_distinct_mset:
  "distinct (map f xs) \<Longrightarrow> mset ys = mset xs \<Longrightarrow> distinct (map f ys)"
  by (metis mset_eq_imp_distinct_iff mset_map)

section \<open>Lemmas: sources of a request\<close>

lemma allowed_map_append: "allowed_map (xs @ [v]) = (allowed_map xs)(fold_key v \<mapsto> v)"
  by (simp add: allowed_map_def)

lemma allowed_map_spec: "allowed_map enabled k = Some v \<Longrightarrow> v \<in> set enabled \<and> fold_key v = k"
  by (induction enabled rule: rev_induct) (auto simp: allowed_map_append allowed_map_def [of "[]"] split: if_splits)

lemma intersect_loop_spec:
  assumes "\<And>k v. allowed k = Some v \<Longrightarrow> v \<in> A \<and> fold_key v = k"
  shows "set (intersect_loop allowed seen vs) \<subseteq> A \<and> distinct (map fold_key (intersect_loop allowed seen vs))
       \<and> (\<forall>x\<in>set (intersect_loop allowed seen vs). fold_key x \<notin> set seen \<and> fold_key x \<in> fold_key ` set vs)"
proof (induction vs arbitrary: seen)
  case (Cons v vs)
  show ?case
  proof (cases "allowed (fold_key v)")
    case None
    with Cons.IH [of seen] show ?thesis by auto
  next
    case (Some c)
    with assms have c: "c \<in> A" "fold_key c = fold_key v" by blast+
    with Some Cons.IH [of seen] Cons.IH [of "fold_key v # seen"] show ?thesis by (auto simp: Let_def)
  qed
qed simp

section \<open>Properties\<close>

text \<open>C8: Merging the results of a search into earlier ones loses no result and invents none: the
  keys of the merged list are exactly the keys of the two lists, each once; every merged result is one
  of the given ones; every new result is represented by one with its key that is at least as complete;
  and the list is ordered from the newest to the oldest, whatever the order in which Go iterates the
  map.\<close>

theorem merge_results:
  assumes order: "mset (order (map snd (merge_table existing newResults))) = mset (map snd (merge_table existing newResults))"
  defines "merged \<equiv> mergeSearchResults order existing newResults"
  shows "distinct (map generateResultKey merged)
       \<and> generateResultKey ` set merged = generateResultKey ` (set existing \<union> set newResults)
       \<and> set merged \<subseteq> set existing \<union> set newResults
       \<and> (\<forall>r\<in>set newResults. \<exists>e\<in>set merged. generateResultKey e = generateResultKey r
            \<and> calculateCompletenessScore r \<le> calculateCompletenessScore e)
       \<and> sorted_wrt (\<lambda>a b. sr_Datetime b \<le> sr_Datetime a) merged"
proof -
  let ?t = "merge_table existing newResults"
  have mset: "mset merged = mset (map snd ?t)"
    unfolding merged_def mergeSearchResults_def using order by (simp add: merge_table_def)
  from arg_cong [OF this, of set_mset] have set: "set merged = snd ` set ?t" by simp
  have keyed: "keyed ?t" by (rule merge_table_keyed)
  have keys: "map generateResultKey (map snd ?t) = map fst ?t"
    using keyed_map_key [OF keyed] by (simp add: comp_def)
  from keyed have "distinct (map generateResultKey (map snd ?t))" unfolding keys by (simp add: keyed_def)
  from urls_distinct_mset [OF this mset] have "distinct (map generateResultKey merged)" .
  moreover have "generateResultKey ` snd ` set ?t = fst ` set ?t"
    using arg_cong [OF keys, of set] by (simp add: image_image)
  ultimately show ?thesis
    using set merge_table_keys [of existing newResults] merge_table_values [of existing newResults]
      merge_table_covers [of _ newResults existing]
    by (auto simp: merged_def mergeSearchResults_def sort_desc)
qed

definition demo_result :: SearchResult where
  "demo_result = \<lparr>sr_MessageID = ''7'', sr_UniqueID = ''p-7'', sr_Channel = [], sr_SubSource = [], sr_Datetime = 5,
     sr_Title = ''Film'', sr_Content = [], sr_Links = [], sr_Tags = [], sr_Images = []\<rparr>"

theorem merge_results_witness:
  "mergeSearchResults rev [demo_result] [demo_result\<lparr>sr_Content := ''x''\<rparr>, demo_result\<lparr>sr_UniqueID := ''p-8'', sr_Datetime := 6\<rparr>]
     = [demo_result\<lparr>sr_UniqueID := ''p-8'', sr_Datetime := 6\<rparr>, demo_result\<lparr>sr_Content := ''x''\<rparr>]
   \<and> distinct (map generateResultKey
       (mergeSearchResults rev [demo_result] [demo_result\<lparr>sr_Content := ''x''\<rparr>, demo_result\<lparr>sr_UniqueID := ''p-8'', sr_Datetime := 6\<rparr>]))"
proof
  show "mergeSearchResults rev [demo_result] [demo_result\<lparr>sr_Content := ''x''\<rparr>, demo_result\<lparr>sr_UniqueID := ''p-8'', sr_Datetime := 6\<rparr>]
     = [demo_result\<lparr>sr_UniqueID := ''p-8'', sr_Datetime := 6\<rparr>, demo_result\<lparr>sr_Content := ''x''\<rparr>]"
    by code_simp
qed (rule merge_results [THEN conjunct1]; simp)

lemma filter_concat_distinct:
  "distinct (map f (concat (map snd xs))) \<Longrightarrow> distinct (map f (concat (map snd (filter P xs))))"
  by (induction xs) auto

text \<open>The results a ranking keeps, and the keyword it scores with.\<close>

definition ranked_keyword :: "string \<Rightarrow> string" where
  "ranked_keyword keyword = (if trim_space keyword = [] then [] else keyword)"

definition kept_result :: "rank_env \<Rightarrow> string \<Rightarrow> SearchResult \<Rightarrow> bool" where
  "kept_result env keyword r \<longleftrightarrow> trim_space keyword = [] \<or> scoreSearchResultRelevance (re_text env) r keyword > 0"

lemma rankSearchResults_sort:
  "rankSearchResults env keyword results =
     sort_key (\<lambda>r. - total_score env (ranked_keyword keyword) r) (filter (kept_result env keyword) results)"
proof -
  have "kept_result env keyword =
      (\<lambda>r. trim_space keyword = [] \<or> scoreSearchResultRelevance (re_text env) r keyword > 0)"
    by (simp add: kept_result_def fun_eq_iff)
  then show ?thesis
    by (simp add: rankSearchResults_def rankSearchResultsInPlace_def ranked_keyword_def)
qed

definition levels_ok :: "(string \<rightharpoonup> int) \<Rightarrow> (string \<rightharpoonup> int) \<Rightarrow> bool" where
  "levels_ok priority pluginLevelCache \<longleftrightarrow> (\<forall>s l. pluginLevelCache s = Some l \<longrightarrow> l = plugin_level priority s)"

text \<open>C27: Ranking returns exactly the results that are relevant to the keyword (all of them for a
  blank keyword), from the highest total score to the lowest, and results with the same score keep
  their order. The score of a source that the level cache remembers is the one computed from the
  plugin registry, and the cache stays correct, as long as no plugin changes its priority.\<close>

theorem rank_results:
  assumes "levels_ok (re_priority env) pluginLevelCache"
  shows "mset (rankSearchResults env keyword results) = mset (filter (kept_result env keyword) results)
       \<and> sorted_wrt (\<lambda>a b. total_score env (ranked_keyword keyword) b \<le> total_score env (ranked_keyword keyword) a)
           (rankSearchResults env keyword results)
       \<and> (\<forall>k. filter (\<lambda>r. total_score env (ranked_keyword keyword) r = k) (rankSearchResults env keyword results)
            = filter (\<lambda>r. kept_result env keyword r \<and> total_score env (ranked_keyword keyword) r = k) results)
       \<and> fst (getPluginLevelScore (re_priority env) pluginLevelCache source)
           = level_score (plugin_level (re_priority env) source)
       \<and> levels_ok (re_priority env) (snd (getPluginLevelScore (re_priority env) pluginLevelCache source))"
proof -
  let ?f = "\<lambda>r. - total_score env (ranked_keyword keyword) r"
  have "filter (\<lambda>r. total_score env (ranked_keyword keyword) r = k) (sort_key ?f xs)
      = filter (\<lambda>r. total_score env (ranked_keyword keyword) r = k) xs" for k xs
    using sort_key_stable [of ?f "- k" xs] by simp
  moreover have "fst (getPluginLevelScore (re_priority env) pluginLevelCache source)
        = level_score (plugin_level (re_priority env) source)
      \<and> levels_ok (re_priority env) (snd (getPluginLevelScore (re_priority env) pluginLevelCache source))"
    using assms by (auto simp: getPluginLevelScore_def getPluginLevelBySource_def levels_ok_def Let_def split: option.split)
  ultimately show ?thesis by (simp add: rankSearchResults_sort sort_desc conj_commute)
qed

definition demo_text :: text_ops where
  "demo_text = \<lparr>tx_noise = filter (\<lambda>c. c \<noteq> CHR '' ''), tx_fields = split_byte CHR '' ''\<rparr>"

definition demo_env :: rank_env where
  "demo_env = \<lparr>re_text = demo_text, re_priority = [''p'' \<mapsto> 1], re_now = 100 * 24 * Hour\<rparr>"

theorem rank_results_witness:
  "rankSearchResults demo_env ''film''
     [demo_result\<lparr>sr_UniqueID := ''q-1''\<rparr>, demo_result\<lparr>sr_Title := ''other''\<rparr>, demo_result]
     = [demo_result, demo_result\<lparr>sr_UniqueID := ''q-1''\<rparr>]
   \<and> fst (getPluginLevelScore (re_priority demo_env) [''plugin:p'' \<mapsto> 1] ''plugin:p'') = 1000"
proof
  show "rankSearchResults demo_env ''film''
     [demo_result\<lparr>sr_UniqueID := ''q-1''\<rparr>, demo_result\<lparr>sr_Title := ''other''\<rparr>, demo_result]
     = [demo_result, demo_result\<lparr>sr_UniqueID := ''q-1''\<rparr>]"
    by code_simp
  have level: "plugin_level (re_priority demo_env) ''plugin:p'' = 1" by code_simp
  then have "levels_ok (re_priority demo_env) [''plugin:p'' \<mapsto> 1]" by (simp add: levels_ok_def)
  from rank_results [OF this] level
  show "fst (getPluginLevelScore (re_priority demo_env) [''plugin:p'' \<mapsto> 1] ''plugin:p'') = 1000"
    by (simp add: level_score_def)
qed

text \<open>What is in the table of unique links, and in the ordered list.\<close>

lemma keep_newest_values: "map_of (foldl keep_newest u mls) k = Some e \<Longrightarrow> e \<in> set mls \<or> map_of u k = Some e"
proof (induction mls arbitrary: u)
  case (Cons ml mls)
  then have "e \<in> set mls \<or> map_of (keep_newest u ml) k = Some e" by simp
  then show ?case by (auto simp: keep_newest_def update_conv' split: option.splits if_splits)
qed simp

lemma ordered_loop_from: "x \<in> set (ordered_loop u seen rls) \<Longrightarrow> \<exists>k. u k = Some (snd x)"
  by (induction u seen rls rule: ordered_loop.induct) (auto split: option.splits if_splits)

definition merged_links :: "MergedLinks \<Rightarrow> MergedLink list" where
  "merged_links m = concat (map snd m)"

abbreviation all_types :: "text_ops \<Rightarrow> link_env \<Rightarrow> SearchResult list \<Rightarrow> string \<Rightarrow> MergedLinks" where
  "all_types tx le results keyword \<equiv> mergeResultsByType tx le results keyword []"

lemma merged_by_type_mset:
  "mset (merged_links (all_types tx le results keyword)) =
     mset (map snd (ordered_loop (map_of (unique_links tx le keyword results)) [] (all_links results)))"
  by (simp add: mergeResultsByType_def merged_links_def Let_def group_by_type_links)

lemma merged_by_type_set:
  "set (merged_links (all_types tx le results keyword)) =
     snd ` set (ordered_loop (map_of (unique_links tx le keyword results)) [] (all_links results))"
  using arg_cong [OF merged_by_type_mset, of set_mset] by simp

lemma unique_links_urls: "urls_ok (unique_links tx le keyword results)"
  unfolding unique_links_def by (rule keep_newest_fold_urls) (simp add: urls_ok_def)

lemma merged_by_type_distinct: "distinct (map ml_URL (merged_links (all_types tx le results keyword)))"
  using ordered_loop_urls [OF unique_links_urls]
  by (intro urls_distinct_mset [OF _ merged_by_type_mset]) (simp add: comp_def)

lemma filtered_by_type:
  "cloudTypes \<noteq> [] \<Longrightarrow>
   mergeResultsByType tx le results keyword cloudTypes =
     filter (\<lambda>(t, _). to_lower t \<in> fold_key ` set cloudTypes) (all_types tx le results keyword)"
  by (simp add: mergeResultsByType_def Let_def)

text \<open>C28: Grouping the links of the results by type shows every URL at most once over all types; each
  link that is shown is a link of a result and relevant to the keyword; each relevant link of a result
  is shown, by a link with its URL that is at least as new; and with a list of cloud types exactly the
  groups of these types remain.\<close>

theorem merged_by_type_links:
  "distinct (map ml_URL (merged_links (mergeResultsByType tx le results keyword cloudTypes)))
   \<and> (\<forall>ml\<in>set (merged_links (mergeResultsByType tx le results keyword cloudTypes)).
        \<exists>rl\<in>set (all_links results). relevant_link tx le keyword rl \<and> ml = merged_link le (fst rl) (snd rl))
   \<and> (\<forall>rl\<in>set (all_links results). relevant_link tx le keyword rl \<longrightarrow>
        (\<exists>ml\<in>set (merged_links (all_types tx le results keyword)). ml_URL ml = ln_URL (snd rl)
           \<and> ml_Datetime (merged_link le (fst rl) (snd rl)) \<le> ml_Datetime ml))
   \<and> (cloudTypes \<noteq> [] \<longrightarrow> mergeResultsByType tx le results keyword cloudTypes =
        filter (\<lambda>(t, _). to_lower t \<in> fold_key ` set cloudTypes) (all_types tx le results keyword))"
proof -
  let ?mls = "map (\<lambda>(r, l). merged_link le r l) (filter (relevant_link tx le keyword) (all_links results))"
  let ?all = "merged_links (all_types tx le results keyword)"
  let ?shown = "merged_links (mergeResultsByType tx le results keyword cloudTypes)"
  have shown: "distinct (map ml_URL ?shown) \<and> set ?shown \<subseteq> set ?all"
    using merged_by_type_distinct [of tx le results keyword] filter_concat_distinct
    by (cases "cloudTypes = []") (auto simp: filtered_by_type merged_links_def)
  have "ml \<in> set ?mls" if "ml \<in> set ?all" for ml
  proof -
    from that obtain k where "map_of (unique_links tx le keyword results) k = Some ml"
      using ordered_loop_from unfolding merged_by_type_set by fastforce
    then show ?thesis using keep_newest_values [of "[]" ?mls k ml] by (simp add: unique_links_def)
  qed
  with shown have origin: "\<forall>ml\<in>set ?shown. \<exists>rl\<in>set (all_links results). relevant_link tx le keyword rl
      \<and> ml = merged_link le (fst rl) (snd rl)" by fastforce
  have "\<exists>ml\<in>set ?all. ml_URL ml = ln_URL l \<and> ml_Datetime (merged_link le r l) \<le> ml_Datetime ml"
    if rl: "(r, l) \<in> set (all_links results)" and rel: "relevant_link tx le keyword (r, l)" for r l
  proof -
    from rl rel have "merged_link le r l \<in> set ?mls" by force
    from link_table.fold_covers [OF this, of "[]"] obtain ml where
      ml: "map_of (unique_links tx le keyword results) (ln_URL l) = Some ml"
        "ml_Datetime (merged_link le r l) \<le> ml_Datetime ml"
      by (auto simp: unique_links_def merged_link_def)
    from ml(1) unique_links_urls have "ml_URL ml = ln_URL l" by (simp add: urls_ok_def)
    moreover from ordered_loop_complete [OF rl, of "map_of (unique_links tx le keyword results)" ml "[]"] ml(1)
    have "ml \<in> set ?all" by (simp add: merged_by_type_set)
    ultimately show ?thesis using ml(2) by blast
  qed
  with shown origin filtered_by_type [of cloudTypes] show ?thesis by auto
qed

definition demo_links :: link_env where
  "demo_links = \<lparr>le_rx = demo_rx, le_order = rev\<rparr>"

definition demo_link :: Link where
  "demo_link = \<lparr>ln_Type = ''quark'', ln_URL = ''http://x/1'', ln_Password = [], ln_Datetime = 0, ln_WorkTitle = []\<rparr>"

theorem merged_by_type_links_witness:
  "mergeResultsByType demo_text demo_links
     [demo_result\<lparr>sr_Links := [demo_link, demo_link\<lparr>ln_Datetime := 9, ln_Type := []\<rparr>]\<rparr>] ''film'' []
     = [(''quark'', [merged_link demo_links demo_result (demo_link\<lparr>ln_Datetime := 9\<rparr>)])]
   \<and> distinct (map ml_URL (merged_links (mergeResultsByType demo_text demo_links
        [demo_result\<lparr>sr_Links := [demo_link, demo_link\<lparr>ln_Datetime := 9, ln_Type := []\<rparr>]\<rparr>] ''film'' [])))"
proof
  show "mergeResultsByType demo_text demo_links
     [demo_result\<lparr>sr_Links := [demo_link, demo_link\<lparr>ln_Datetime := 9, ln_Type := []\<rparr>]\<rparr>] ''film'' []
     = [(''quark'', [merged_link demo_links demo_result (demo_link\<lparr>ln_Datetime := 9\<rparr>)])]"
    by code_simp
qed (rule merged_by_type_links [THEN conjunct1])

lemma intersectSources_spec:
  "set (intersectSources requested enabled) \<subseteq> set enabled
   \<and> (requested \<noteq> None \<longrightarrow> distinct (map fold_key (intersectSources requested enabled))
        \<and> fold_key ` set (intersectSources requested enabled) \<subseteq> fold_key ` set (the requested))"
  using intersect_loop_spec [of "allowed_map enabled" "set enabled" "[]"] allowed_map_spec [of enabled]
  by (auto simp: intersectSources_def split: option.split)

lemma realtime_subset: "set (RealtimeChannels config) \<subseteq> set (Channels config)"
proof (cases "hasTiers config")
  case True
  then show ?thesis by (auto simp: RealtimeChannels_def Channels_def realtime_loop_tiers)
next
  case False
  then show ?thesis
    using set_take_subset [of 30 "Channels config"]
    by (simp add: RealtimeChannels_def Channels_def realtime_loop_cold)
qed

text \<open>A resolved search request names only sources that the configuration enables: its plugins are
  enabled ones, for an explicit request each at most once and only requested ones; a Telegram-only
  search has no plugin and a plugin-only search no channel; and the request is marked as needing live
  Telegram access exactly when it names a channel outside the configured ones. Resolution fails only
  for an explicit channel that is not a valid name.\<close>

theorem resolved_sources:
  "case resolveManagedSearchRequest tieredRollout request config of
     Inl e \<Rightarrow> (\<exists>cs. rq_Channels request = Some cs \<and> NormalizeList (Some cs) = Inl e)
   | Inr out \<Rightarrow>
       (\<exists>ps cs. rq_Plugins out = Some ps \<and> rq_Channels out = Some cs
          \<and> set ps \<subseteq> set (PluginNames config)
          \<and> (rq_Plugins request \<noteq> None \<longrightarrow>
               distinct (map fold_key ps) \<and> fold_key ` set ps \<subseteq> fold_key ` set (the (rq_Plugins request)))
          \<and> (fold_key (rq_SourceType request) = ''tg'' \<longrightarrow> ps = [])
          \<and> (fold_key (rq_SourceType request) = ''plugin'' \<longrightarrow> cs = [])
          \<and> (rq_requiresLiveTG out \<longleftrightarrow> \<not> set cs \<subseteq> set (Channels config)))"
proof (cases "resolve_channels tieredRollout request config")
  case (Inl e)
  then show ?thesis
    by (auto simp: resolveManagedSearchRequest_def resolve_channels_def split: if_splits option.splits sum.splits)
next
  case (Inr r)
  let ?ps = "if fold_key (rq_SourceType request) = ''tg'' then []
             else intersectSources (rq_Plugins request) (PluginNames config)"
  have "\<exists>cs. rq_Channels r = Some cs \<and> (fold_key (rq_SourceType request) = ''plugin'' \<longrightarrow> cs = [])
      \<and> (rq_requiresLiveTG r \<longleftrightarrow> \<not> set cs \<subseteq> set (Channels config))"
    using Inr realtime_subset [of config]
    by (auto simp: resolve_channels_def NormalizeList_def list_ex_iff split: if_splits option.splits sum.splits)
  then obtain cs where cs: "rq_Channels r = Some cs" "fold_key (rq_SourceType request) = ''plugin'' \<longrightarrow> cs = []"
      "rq_requiresLiveTG r \<longleftrightarrow> \<not> set cs \<subseteq> set (Channels config)" by blast
  have out: "resolveManagedSearchRequest tieredRollout request config = Inr (r\<lparr>rq_Plugins := Some ?ps\<rparr>)"
    using Inr by (simp add: resolveManagedSearchRequest_def)
  show ?thesis unfolding out
    using cs intersectSources_spec [of "rq_Plugins request" "PluginNames config"] by auto
qed

theorem resolved_sources_witness:
  "resolveManagedSearchRequest False
     \<lparr>rq_SourceType = ''all'', rq_Channels = Some [''@Durov''], rq_Plugins = Some [''NOPE''],
      rq_deep = False, rq_requiresLiveTG = False\<rparr> demo_config
     = Inr \<lparr>rq_SourceType = ''all'', rq_Channels = Some [''durov''], rq_Plugins = Some [],
      rq_deep = False, rq_requiresLiveTG = True\<rparr>
   \<and> \<not> set [''durov''] \<subseteq> set (Channels demo_config)"
proof
  show eq: "resolveManagedSearchRequest False
     \<lparr>rq_SourceType = ''all'', rq_Channels = Some [''@Durov''], rq_Plugins = Some [''NOPE''],
      rq_deep = False, rq_requiresLiveTG = False\<rparr> demo_config
     = Inr \<lparr>rq_SourceType = ''all'', rq_Channels = Some [''durov''], rq_Plugins = Some [],
      rq_deep = False, rq_requiresLiveTG = True\<rparr>"
    by code_simp
  show "\<not> set [''durov''] \<subseteq> set (Channels demo_config)"
    using resolved_sources [of "\<lparr>rq_SourceType = ''all'', rq_Channels = Some [''@Durov''],
      rq_Plugins = Some [''NOPE''], rq_deep = False, rq_requiresLiveTG = False\<rparr>" demo_config False]
    unfolding eq by simp
qed

definition untitled_link :: Link where
  "untitled_link = demo_link\<lparr>ln_URL := ''magnet:?x''\<rparr>"

definition untitled_result :: SearchResult where
  "untitled_result =
     demo_result\<lparr>sr_Links := [untitled_link],
       sr_Content := [CHR 0xE9, CHR 0x93, CHR 0xBE, CHR 0xE6, CHR 0x8E, CHR 0xA5, CHR 0xEF, CHR 0xBC, CHR 0x9A] @ ''magnet:?x''\<rparr>"

text \<open>A link can lose the title of its message. On a message of one line whose only text before the
  link is the word for link, the title found for the link is empty; the code rejects the empty title but
  then looks for a title whose link starts with the URL, which finds the same empty entry, so the message
  title \<open>Film\<close> is not used, the link is judged irrelevant to the keyword \<open>Film\<close> and the message is shown
  without it.\<close>

theorem link_title_lost:
  "sr_Title untitled_result = ''Film''
   \<and> scoreSearchResultRelevance demo_text untitled_result ''Film'' = 1600
   \<and> link_title_map demo_rx untitled_result = [(''magnet:?x'', [])]
   \<and> link_title demo_links untitled_result untitled_link = []
   \<and> mergeResultsByType demo_text demo_links [untitled_result] ''Film'' [] = []"
proof (intro conjI)
  show "sr_Title untitled_result = ''Film''" by code_simp
  show "scoreSearchResultRelevance demo_text untitled_result ''Film'' = 1600" by code_simp
  show titles: "link_title_map demo_rx untitled_result = [(''magnet:?x'', [])]" by code_simp
  then show title: "link_title demo_links untitled_result untitled_link = []"
    by (simp add: link_title_def demo_links_def untitled_link_def demo_link_def has_prefix_def)
  have "scoreTextRelevance demo_text [] ''Film'' True = 0" by code_simp
  then have "\<not> relevant_link demo_text demo_links ''Film'' (untitled_result, untitled_link)"
    by (simp add: relevant_link_def title)
  moreover have "all_links [untitled_result] = [(untitled_result, untitled_link)]"
    by (simp add: all_links_def untitled_result_def)
  ultimately show "mergeResultsByType demo_text demo_links [untitled_result] ''Film'' [] = []"
    by (simp add: mergeResultsByType_def unique_links_def)
qed

end
