(* ===== verification/Link_Check.thy ===== *)
theory Link_Check
  imports Complex_Main Circuit_Breaker Interleaving
begin

text \<open>
  The link-check queue of \<^verbatim>\<open>src/collection/linkcheck.go\<close>: candidates wait per platform, a fixed number
  of workers claim them round robin under a per-platform limit and circuit breaker, and one writer
  persists the results and takes the resource off the queue.

  Every critical section of the mutex \<open>q.mu\<close> is one operation on the record \<open>LinkCheckQueue\<close>. The
  buffered channels are the list \<open>q_results\<close> and the flag \<open>q_wake\<close> (capacity one). Goroutines are
  the step relation \<open>lc_step\<close> on \<open>lc_system\<close>: workers that are awake, waiting, checking a candidate or
  sending its completion, and the writer with the batch it has collected. What the checker and the
  repository answer is arbitrary in each step. The set of queued resource ids is a list without
  repetition. Rates are rational numbers where the code has doubles.
\<close>

section \<open>Model: data\<close>

record LinkCheckCandidate =
  lc_ResourceID :: int
  lc_URL :: string
  lc_Password :: string
  lc_Platform :: string
  lc_Status :: string
  lc_IsNew :: bool
  lc_LastCheckedAt :: "time option"

record LinkCheckResult =
  lr_ResourceID :: int
  lr_Status :: string
  lr_CheckedAt :: time
  lr_Error :: string

record LinkCheckQueueConfig =
  qc_Workers :: int
  qc_Buffer :: int
  qc_Timeout :: duration
  qc_PollInterval :: duration
  qc_BacklogInterval :: duration
  qc_BatchSize :: int
  qc_PlatformLimit :: int
  qc_CircuitFailures :: int
  qc_CircuitCooldown :: duration
  qc_WriteBatchSize :: int
  qc_WriteFlushInterval :: duration

record linkCheckPlatformState =
  ps_inUse :: int
  ps_failStreak :: int
  ps_circuitUntil :: time
  ps_halfOpen :: bool

record linkCheckCompletion =
  cp_candidate :: LinkCheckCandidate
  cp_result :: LinkCheckResult
  cp_checkFailed :: bool
  cp_circuitFailure :: bool
  cp_skipPersistence :: bool

record linkCheckCompletionMetric =
  cm_at :: time
  cm_completed :: bool
  cm_failed :: bool

record linkCheckBacklogSample =
  bs_at :: time
  bs_dueCount :: int
  bs_policyRevision :: string

record LinkCheckQueue =
  q_config :: LinkCheckQueueConfig
  q_wake :: bool
  q_results :: "linkCheckCompletion list"
  q_started :: bool
  q_stopping :: bool
  q_queued :: "int list"
  q_pending :: "string \<rightharpoonup> LinkCheckCandidate list"
  q_platformOrder :: "string list"
  q_platformCursor :: nat
  q_platformStates :: "string \<rightharpoonup> linkCheckPlatformState"
  q_active :: int
  q_startedAt :: time
  q_completionMetrics :: "linkCheckCompletionMetric list"
  q_backlogSamples :: "linkCheckBacklogSample list"

datatype lc_error =
  InvalidCandidate | ErrQueueFull | ErrQueueNotStarted | ErrQueueStopping | NilRepository | NilChecker

definition linkCheckMetricsWindow :: duration where "linkCheckMetricsWindow = 5 * Minute"
definition linkCheckETAMinimumWindow :: duration where "linkCheckETAMinimumWindow = Minute"

definition DefaultLinkCheckQueueConfig :: LinkCheckQueueConfig where
  "DefaultLinkCheckQueueConfig =
     \<lparr>qc_Workers = 8, qc_Buffer = 1024, qc_Timeout = 15 * Second, qc_PollInterval = Minute,
      qc_BacklogInterval = 5 * Minute, qc_BatchSize = 500, qc_PlatformLimit = 2, qc_CircuitFailures = 5,
      qc_CircuitCooldown = 5 * Minute, qc_WriteBatchSize = 16, qc_WriteFlushInterval = Second\<rparr>"

definition or_default :: "int \<Rightarrow> int \<Rightarrow> int" where
  "or_default v d = (if v \<le> 0 then d else v)"

definition normalize_queue_config :: "LinkCheckQueueConfig \<Rightarrow> LinkCheckQueueConfig" where
  "normalize_queue_config config =
     (let defaults = DefaultLinkCheckQueueConfig in
      \<lparr>qc_Workers = or_default (qc_Workers config) (qc_Workers defaults),
       qc_Buffer = or_default (qc_Buffer config) (qc_Buffer defaults),
       qc_Timeout = or_default (qc_Timeout config) (qc_Timeout defaults),
       qc_PollInterval = or_default (qc_PollInterval config) (qc_PollInterval defaults),
       qc_BacklogInterval = or_default (qc_BacklogInterval config) (qc_BacklogInterval defaults),
       qc_BatchSize = (if qc_BatchSize config \<le> 0 \<or> qc_BatchSize config > 1000 then qc_BatchSize defaults
                       else qc_BatchSize config),
       qc_PlatformLimit = or_default (qc_PlatformLimit config) (qc_PlatformLimit defaults),
       qc_CircuitFailures = or_default (qc_CircuitFailures config) (qc_CircuitFailures defaults),
       qc_CircuitCooldown = or_default (qc_CircuitCooldown config) (qc_CircuitCooldown defaults),
       qc_WriteBatchSize = or_default (qc_WriteBatchSize config) (qc_WriteBatchSize defaults),
       qc_WriteFlushInterval = or_default (qc_WriteFlushInterval config) (qc_WriteFlushInterval defaults)\<rparr>)"

definition NewLinkCheckQueue :: "LinkCheckQueueConfig \<Rightarrow> LinkCheckQueue" where
  "NewLinkCheckQueue config =
     \<lparr>q_config = normalize_queue_config config, q_wake = False, q_results = [], q_started = False,
      q_stopping = False, q_queued = [], q_pending = Map.empty, q_platformOrder = [], q_platformCursor = 0,
      q_platformStates = Map.empty, q_active = 0, q_startedAt = 0, q_completionMetrics = [], q_backlogSamples = []\<rparr>"

definition results_capacity :: "LinkCheckQueue \<Rightarrow> int" where
  "results_capacity q = qc_Buffer (q_config q) + qc_Workers (q_config q)"

section \<open>Model: life cycle and queueing\<close>

definition signalWake :: "LinkCheckQueue \<Rightarrow> LinkCheckQueue" where
  "signalWake q = q\<lparr>q_wake := True\<rparr>"

text \<open>\<open>Start\<close> also says whether it has started the goroutines; a started queue is left alone.\<close>

definition lc_Start :: "bool \<Rightarrow> bool \<Rightarrow> time \<Rightarrow> LinkCheckQueue \<Rightarrow> lc_error + LinkCheckQueue \<times> bool" where
  "lc_Start has_repository has_checker now q =
     (if \<not> has_repository then Inl NilRepository
      else if \<not> has_checker then Inl NilChecker
      else if q_started q then Inr (q, False)
      else if q_stopping q then Inl ErrQueueStopping
      else Inr (signalWake
             (q\<lparr>q_started := True, q_startedAt := now, q_active := 0, q_completionMetrics := [], q_backlogSamples := [],
               q_queued := [], q_pending := Map.empty, q_platformOrder := [], q_platformCursor := 0,
               q_platformStates := Map.empty\<rparr>), True))"

definition lc_Stop :: "LinkCheckQueue \<Rightarrow> LinkCheckQueue" where
  "lc_Stop q = (if q_started q then q\<lparr>q_started := False, q_stopping := True\<rparr> else q)"

definition finishStop :: "LinkCheckQueue \<Rightarrow> LinkCheckQueue" where
  "finishStop q = q\<lparr>q_stopping := False\<rparr>"

definition normalizeLinkCheckPlatform :: "string \<Rightarrow> string" where
  "normalizeLinkCheckPlatform platform = (let platform = fold_key platform in if platform = [] then ''unknown'' else platform)"

definition list_at :: "(string \<rightharpoonup> 'c list) \<Rightarrow> string \<Rightarrow> 'c list" where
  "list_at m platform = (case m platform of None \<Rightarrow> [] | Some cs \<Rightarrow> cs)"

abbreviation pending_of :: "LinkCheckQueue \<Rightarrow> string \<Rightarrow> LinkCheckCandidate list" where
  "pending_of q \<equiv> list_at (q_pending q)"

definition lc_Enqueue :: "LinkCheckCandidate \<Rightarrow> LinkCheckQueue \<Rightarrow> lc_error + LinkCheckQueue" where
  "lc_Enqueue candidate q =
     (if lc_ResourceID candidate = 0 \<or> lc_URL candidate = [] then Inl InvalidCandidate
      else if \<not> q_started q then Inl ErrQueueNotStarted
      else if lc_ResourceID candidate \<in> set (q_queued q) then Inr q
      else if int (length (q_queued q)) - q_active q \<ge> qc_Buffer (q_config q) then Inl ErrQueueFull
      else let platform = normalizeLinkCheckPlatform (lc_Platform candidate);
               candidate = candidate\<lparr>lc_Platform := platform\<rparr>
           in Inr (signalWake
                (q\<lparr>q_platformOrder := (if q_pending q platform = None then q_platformOrder q @ [platform] else q_platformOrder q),
                  q_pending := (q_pending q)(platform \<mapsto> pending_of q platform @ [candidate]),
                  q_queued := lc_ResourceID candidate # q_queued q\<rparr>)))"

section \<open>Model: claiming and releasing\<close>

definition new_platform_state :: linkCheckPlatformState where
  "new_platform_state = \<lparr>ps_inUse = 0, ps_failStreak = 0, ps_circuitUntil = 0, ps_halfOpen = False\<rparr>"

definition state_at :: "(string \<rightharpoonup> linkCheckPlatformState) \<Rightarrow> string \<Rightarrow> linkCheckPlatformState" where
  "state_at m platform = (case m platform of None \<Rightarrow> new_platform_state | Some s \<Rightarrow> s)"

abbreviation platform_state :: "LinkCheckQueue \<Rightarrow> string \<Rightarrow> linkCheckPlatformState" where
  "platform_state q \<equiv> state_at (q_platformStates q)"

text \<open>The tests of \<open>claimNext\<close> on one platform; \<open>Some\<close> is the state with the claim taken.\<close>

definition platform_admit :: "int \<Rightarrow> time \<Rightarrow> linkCheckPlatformState \<Rightarrow> linkCheckPlatformState option" where
  "platform_admit limit now state =
     (if ps_circuitUntil state > now then None
      else if \<not> is_zero_time (ps_circuitUntil state)
      then (if ps_halfOpen state \<or> ps_inUse state > 0 then None
            else Some (state\<lparr>ps_halfOpen := True, ps_inUse := ps_inUse state + 1\<rparr>))
      else if ps_inUse state \<ge> limit then None
      else Some (state\<lparr>ps_inUse := ps_inUse state + 1\<rparr>))"

definition earlier_probe :: "time \<Rightarrow> time \<Rightarrow> time" where
  "earlier_probe nextProbe until = (if is_zero_time nextProbe \<or> until < nextProbe then until else nextProbe)"

fun claim_loop :: "time \<Rightarrow> time \<Rightarrow> nat list \<Rightarrow> LinkCheckQueue \<Rightarrow> LinkCheckQueue \<times> (time + LinkCheckCandidate)" where
  "claim_loop now nextProbe [] q = (q, Inl nextProbe)"
| "claim_loop now nextProbe (index # rest) q =
     (let platform = q_platformOrder q ! index
      in case pending_of q platform of
           [] \<Rightarrow> claim_loop now nextProbe rest q
         | candidate # others \<Rightarrow>
             let state = platform_state q platform;
                 q1 = q\<lparr>q_platformStates := (q_platformStates q)(platform \<mapsto> state)\<rparr>
             in case platform_admit (qc_PlatformLimit (q_config q)) now state of
                  None \<Rightarrow>
                    claim_loop now
                      (if ps_circuitUntil state > now then earlier_probe nextProbe (ps_circuitUntil state) else nextProbe)
                      rest q1
                | Some state' \<Rightarrow>
                    (signalWake
                       (q1\<lparr>q_pending := (q_pending q)(platform \<mapsto> others),
                          q_platformStates := (q_platformStates q)(platform \<mapsto> state'),
                          q_active := q_active q + 1,
                          q_platformCursor := (index + 1) mod length (q_platformOrder q)\<rparr>),
                     Inr candidate))"

text \<open>One pass of \<open>claimNext\<close>; \<open>Inl\<close> is a pass without a claim and the time of the next probe.\<close>

definition cyclic_from :: "nat \<Rightarrow> nat \<Rightarrow> nat list" where
  "cyclic_from cursor n = map (\<lambda>offset. (cursor + offset) mod n) [0..<n]"

definition claimNext :: "time \<Rightarrow> LinkCheckQueue \<Rightarrow> LinkCheckQueue \<times> (time + LinkCheckCandidate)" where
  "claimNext now q = claim_loop now 0 (cyclic_from (q_platformCursor q) (length (q_platformOrder q))) q"

definition release_state :: "LinkCheckQueueConfig \<Rightarrow> time \<Rightarrow> bool \<Rightarrow> linkCheckPlatformState \<Rightarrow> linkCheckPlatformState" where
  "release_state config now circuitFailure state =
     (let state = state\<lparr>ps_inUse := (if ps_inUse state > 0 then ps_inUse state - 1 else ps_inUse state)\<rparr>
      in if circuitFailure
         then let state = state\<lparr>ps_failStreak := ps_failStreak state + 1\<rparr>
              in if ps_halfOpen state \<or> ps_failStreak state \<ge> qc_CircuitFailures config
                 then state\<lparr>ps_circuitUntil := now + qc_CircuitCooldown config, ps_halfOpen := False\<rparr>
                 else state
         else state\<lparr>ps_failStreak := 0, ps_circuitUntil := 0, ps_halfOpen := False\<rparr>)"

definition releasePlatform :: "time \<Rightarrow> string \<Rightarrow> bool \<Rightarrow> LinkCheckQueue \<Rightarrow> LinkCheckQueue" where
  "releasePlatform now platform circuitFailure q =
     (let platform = normalizeLinkCheckPlatform platform
      in signalWake
           (q\<lparr>q_platformStates := (q_platformStates q)(platform \<mapsto>
                release_state (q_config q) now circuitFailure (platform_state q platform)),
             q_active := (if q_active q > 0 then q_active q - 1 else q_active q)\<rparr>))"

section \<open>Model: checking a candidate\<close>

text \<open>What \<open>checker.Check\<close> returns: a status and an error, which may be the cancellation of the context.\<close>

datatype check_error = Canceled | CheckError string

definition isFinalDetectionStatus :: "string \<Rightarrow> bool" where
  "isFinalDetectionStatus status \<longleftrightarrow>
     status \<in> {''valid'', ''invalid'', ''expired'', ''cancelled'', ''violation'', ''locked'', ''unknown'', ''unsupported''}"

fun check_error_text :: "check_error \<Rightarrow> string" where
  "check_error_text Canceled = ''context canceled''"
| "check_error_text (CheckError e) = e"

text \<open>Go's \<open>%q\<close> for a text of printable ASCII without quotes and backslashes.\<close>

definition quoted :: "string \<Rightarrow> string" where
  "quoted s = [CHR 0x22] @ s @ [CHR 0x22]"

definition checkCandidate :: "time \<Rightarrow> bool \<Rightarrow> LinkCheckCandidate \<Rightarrow> string \<times> check_error option \<Rightarrow> linkCheckCompletion" where
  "checkCandidate checkedAt parent_done candidate answer =
     (let (status, checkErr) = answer;
          status = (if checkErr \<noteq> None then ''unknown'' else status);
          (status, checkErr) =
            (if \<not> isFinalDetectionStatus status
             then (''unknown'', if checkErr = None then Some (CheckError (''checker returned invalid status '' @ quoted status)) else checkErr)
             else (status, checkErr))
      in \<lparr>cp_candidate = candidate,
          cp_result = \<lparr>lr_ResourceID = lc_ResourceID candidate, lr_Status = status, lr_CheckedAt = checkedAt,
                       lr_Error = (case checkErr of None \<Rightarrow> [] | Some e \<Rightarrow> check_error_text e)\<rparr>,
          cp_checkFailed = (checkErr \<noteq> None),
          cp_circuitFailure = (checkErr \<noteq> None \<and> checkErr \<noteq> Some Canceled),
          cp_skipPersistence = (parent_done \<and> checkErr = Some Canceled)\<rparr>)"

section \<open>Model: metrics\<close>

definition pruneCompletionMetricsLocked :: "time \<Rightarrow> LinkCheckQueue \<Rightarrow> LinkCheckQueue" where
  "pruneCompletionMetricsLocked now q =
     q\<lparr>q_completionMetrics := filter (\<lambda>m. \<not> cm_at m < now - linkCheckMetricsWindow) (q_completionMetrics q)\<rparr>"

definition pruneBacklogSamplesLocked :: "time \<Rightarrow> LinkCheckQueue \<Rightarrow> LinkCheckQueue" where
  "pruneBacklogSamplesLocked now q =
     q\<lparr>q_backlogSamples := dropWhile (\<lambda>s. bs_at s < now - linkCheckMetricsWindow) (q_backlogSamples q)\<rparr>"

definition recordCompletion :: "time \<Rightarrow> bool \<Rightarrow> bool \<Rightarrow> LinkCheckQueue \<Rightarrow> LinkCheckQueue" where
  "recordCompletion now completed failed q =
     pruneCompletionMetricsLocked now
       (q\<lparr>q_completionMetrics := q_completionMetrics q @ [\<lparr>cm_at = now, cm_completed = completed, cm_failed = failed\<rparr>]\<rparr>)"

definition forget_queued :: "int \<Rightarrow> LinkCheckQueue \<Rightarrow> LinkCheckQueue" where
  "forget_queued resource q = q\<lparr>q_queued := removeAll resource (q_queued q)\<rparr>"

definition finalizeCompletion :: "time \<Rightarrow> linkCheckCompletion \<Rightarrow> bool \<Rightarrow> LinkCheckQueue \<Rightarrow> LinkCheckQueue" where
  "finalizeCompletion now completion complete_failed q =
     signalWake
       (recordCompletion now (\<not> complete_failed) (cp_checkFailed completion \<or> complete_failed)
         (forget_queued (lc_ResourceID (cp_candidate completion)) q))"

definition discardCompletion :: "linkCheckCompletion \<Rightarrow> LinkCheckQueue \<Rightarrow> LinkCheckQueue" where
  "discardCompletion completion q = signalWake (forget_queued (lc_ResourceID (cp_candidate completion)) q)"

definition ObserveBacklog :: "time \<Rightarrow> int \<Rightarrow> time \<Rightarrow> string \<Rightarrow> LinkCheckQueue \<Rightarrow> LinkCheckQueue" where
  "ObserveBacklog now dueCount observed policyRevision q =
     (let dueCount = (if dueCount < 0 then 0 else dueCount);
          observed = (if is_zero_time observed then now else observed);
          samples = q_backlogSamples q
      in if samples \<noteq> [] \<and> observed < bs_at (last samples) then q
         else let samples = (if samples \<noteq> [] \<and> policyRevision \<noteq> bs_policyRevision (last samples) then [] else samples)
              in if samples \<noteq> [] \<and> observed = bs_at (last samples)
                 then pruneBacklogSamplesLocked observed
                        (q\<lparr>q_backlogSamples := butlast samples @ [(last samples)\<lparr>bs_dueCount := dueCount\<rparr>]\<rparr>)
                 else pruneBacklogSamplesLocked observed
                        (q\<lparr>q_backlogSamples := samples @ [\<lparr>bs_at = observed, bs_dueCount = dueCount, bs_policyRevision = policyRevision\<rparr>]\<rparr>))"

record LinkCheckPlatformSnapshot =
  pl_Platform :: string
  pl_Queued :: nat
  pl_InUse :: int
  pl_Limit :: int
  pl_FailStreak :: int
  pl_CircuitOpen :: bool
  pl_CircuitUntil :: "time option"

datatype eta_state = ETAIdle | ETACalculating | ETAAvailable | ETABacklogNotDecreasing | ETAStopped

record LinkCheckQueueSnapshot =
  sn_Started :: bool
  sn_Workers :: int
  sn_Queued :: int
  sn_Active :: int
  sn_DueCount :: int
  sn_DueCountKnown :: bool
  sn_CompletedLastFiveMinutes :: nat
  sn_FailedLastFiveMinutes :: nat
  sn_ThroughputPerMinute :: rat
  sn_NetDrainPerMinute :: "rat option"
  sn_ETASeconds :: "int option"
  sn_ETAState :: eta_state
  sn_MetricsWindow :: duration
  sn_MetricsSampleWindow :: duration
  sn_BacklogSampleWindow :: duration
  sn_BacklogUpdatedAt :: time
  sn_Platforms :: "LinkCheckPlatformSnapshot list"

definition minutes :: "duration \<Rightarrow> rat" where
  "minutes d = of_int d / of_int Minute"

definition platform_snapshot :: "LinkCheckQueue \<Rightarrow> time \<Rightarrow> string \<Rightarrow> LinkCheckPlatformSnapshot" where
  "platform_snapshot q now platform =
     \<lparr>pl_Platform = platform, pl_Queued = length (pending_of q platform),
      pl_InUse = ps_inUse (platform_state q platform), pl_Limit = qc_PlatformLimit (q_config q),
      pl_FailStreak = ps_failStreak (platform_state q platform),
      pl_CircuitOpen = (ps_circuitUntil (platform_state q platform) > now),
      pl_CircuitUntil = (if is_zero_time (ps_circuitUntil (platform_state q platform)) then None
                         else Some (ps_circuitUntil (platform_state q platform)))\<rparr>"

definition shown_platform :: "LinkCheckPlatformSnapshot \<Rightarrow> bool" where
  "shown_platform p \<longleftrightarrow> pl_Queued p > 0 \<or> pl_InUse p > 0 \<or> pl_FailStreak p > 0 \<or> pl_CircuitOpen p"

definition metrics_elapsed :: "LinkCheckQueue \<Rightarrow> time \<Rightarrow> duration" where
  "metrics_elapsed q now =
     (let metricsStart = now - linkCheckMetricsWindow;
          metricsStart = (if \<not> is_zero_time (q_startedAt q) \<and> q_startedAt q > metricsStart then q_startedAt q
                          else metricsStart)
      in max 0 (now - metricsStart))"

text \<open>The part of \<open>Snapshot\<close> before the backlog samples are looked at.\<close>

definition base_snapshot :: "LinkCheckQueue \<Rightarrow> time \<Rightarrow> LinkCheckQueueSnapshot" where
  "base_snapshot q now =
     (let completed = length (filter cm_completed (q_completionMetrics q)); elapsed = metrics_elapsed q now
      in \<lparr>sn_Started = q_started q, sn_Workers = qc_Workers (q_config q),
          sn_Queued = max 0 (int (length (q_queued q)) - q_active q), sn_Active = q_active q,
          sn_DueCount = 0, sn_DueCountKnown = False,
          sn_CompletedLastFiveMinutes = completed,
          sn_FailedLastFiveMinutes = length (filter cm_failed (q_completionMetrics q)),
          sn_ThroughputPerMinute = (if elapsed \<ge> linkCheckETAMinimumWindow then of_nat completed / minutes elapsed else 0),
          sn_NetDrainPerMinute = None, sn_ETASeconds = None,
          sn_ETAState = (if q_started q then ETACalculating else ETAStopped),
          sn_MetricsWindow = linkCheckMetricsWindow, sn_MetricsSampleWindow = elapsed, sn_BacklogSampleWindow = 0,
          sn_BacklogUpdatedAt = 0,
          sn_Platforms = sort_key pl_Platform (filter shown_platform (map (platform_snapshot q now) (q_platformOrder q)))\<rparr>)"

definition eta_snapshot :: "linkCheckBacklogSample \<Rightarrow> linkCheckBacklogSample \<Rightarrow> LinkCheckQueueSnapshot \<Rightarrow> LinkCheckQueueSnapshot" where
  "eta_snapshot oldest latest snapshot =
     (let window = max 0 (bs_at latest - bs_at oldest);
          snapshot = snapshot\<lparr>sn_DueCountKnown := True, sn_DueCount := bs_dueCount latest, sn_BacklogUpdatedAt := bs_at latest,
                             sn_BacklogSampleWindow := window\<rparr>;
          drained = bs_dueCount oldest - bs_dueCount latest
      in if \<not> sn_Started snapshot then snapshot
         else if bs_dueCount latest = 0 then snapshot\<lparr>sn_ETASeconds := Some 0, sn_ETAState := ETAIdle\<rparr>
         else if window < linkCheckETAMinimumWindow then snapshot
         else if drained \<le> 0 then snapshot\<lparr>sn_ETAState := ETABacklogNotDecreasing\<rparr>
         else let rate = of_int drained / minutes window
              in if rate \<le> 0 then snapshot\<lparr>sn_ETAState := ETABacklogNotDecreasing\<rparr>
                 else snapshot\<lparr>sn_NetDrainPerMinute := Some rate,
                               sn_ETASeconds := Some \<lceil>of_int (bs_dueCount latest) / rate * 60\<rceil>,
                               sn_ETAState := ETAAvailable\<rparr>)"

definition lc_Snapshot :: "time \<Rightarrow> LinkCheckQueue \<Rightarrow> LinkCheckQueue \<times> LinkCheckQueueSnapshot" where
  "lc_Snapshot now q =
     (let q = pruneBacklogSamplesLocked now (pruneCompletionMetricsLocked now q);
          snapshot = base_snapshot q now; samples = q_backlogSamples q
      in if samples = [] then (q, snapshot)
         else (q, eta_snapshot (hd samples) (last samples) snapshot))"

section \<open>Model: dispatching due checks\<close>

text \<open>\<open>dispatch\<close> with what the repository returned; the second component collects the reported errors.\<close>

definition fetch_limit :: "LinkCheckQueueConfig \<Rightarrow> int" where
  "fetch_limit config = (if qc_BatchSize config * 2 > 1000 then 1000 else qc_BatchSize config * 2)"

fun dispatch_loop :: "bool \<Rightarrow> LinkCheckCandidate list \<Rightarrow> LinkCheckQueue \<Rightarrow> LinkCheckQueue \<times> lc_error list" where
  "dispatch_loop cancelled [] q = (q, [])"
| "dispatch_loop cancelled (c # cs) q =
     (case lc_Enqueue c q of
        Inr q' \<Rightarrow> dispatch_loop cancelled cs q'
      | Inl e \<Rightarrow>
          if e = ErrQueueFull \<or> e = ErrQueueNotStarted \<or> cancelled then (q, [])
          else let (q', es) = dispatch_loop cancelled cs q in (q', e # es))"

section \<open>Model: the writer\<close>

text \<open>One completion taken from the results channel; the last component is the batch that is to be
  persisted at once. While the writer drains the channel after the workers are gone it only collects.\<close>

definition writer_receive :: "bool \<Rightarrow> bool \<Rightarrow> linkCheckCompletion \<Rightarrow> linkCheckCompletion list \<Rightarrow> LinkCheckQueue \<Rightarrow>
    LinkCheckQueue \<times> linkCheckCompletion list \<times> linkCheckCompletion list" where
  "writer_receive supportsBatch draining completion batch q =
     (if cp_skipPersistence completion then (discardCompletion completion q, batch, [])
      else let batch = batch @ [completion]
           in if \<not> draining \<and> (\<not> supportsBatch \<or> int (length batch) \<ge> qc_WriteBatchSize (q_config q))
              then (q, [], batch) else (q, batch, []))"

text \<open>\<open>persistCompletions\<close>: which error each completion is finalized with, given the answers of the
  repository to the batch call and to the single calls.\<close>

definition persist_errors :: "bool \<Rightarrow> bool \<Rightarrow> (linkCheckCompletion \<Rightarrow> bool) \<Rightarrow> linkCheckCompletion list \<Rightarrow>
    (linkCheckCompletion \<times> bool) list" where
  "persist_errors supportsBatch batch_failed single_failed completions =
     (if supportsBatch \<and> length completions > 1 then map (\<lambda>c. (c, batch_failed)) completions
      else map (\<lambda>c. (c, single_failed c)) completions)"

section \<open>Model: the goroutines\<close>

text \<open>The clock of a pass is not before Go's zero time.\<close>

record lc_system =
  sy_q :: LinkCheckQueue
  sy_cancelled :: bool
  sy_awake :: nat
  sy_waiting :: nat
  sy_running :: "LinkCheckCandidate list"
  sy_sending :: "linkCheckCompletion list"
  sy_writer :: bool
  sy_batch :: "linkCheckCompletion list"
  sy_final :: "(linkCheckCompletion \<times> bool) list"

definition no_workers :: "lc_system \<Rightarrow> bool" where
  "no_workers s \<longleftrightarrow> sy_awake s = 0 \<and> sy_waiting s = 0 \<and> sy_running s = [] \<and> sy_sending s = []"

definition lc_init :: "LinkCheckQueueConfig \<Rightarrow> lc_system \<Rightarrow> bool" where
  "lc_init config s \<longleftrightarrow>
     s = \<lparr>sy_q = NewLinkCheckQueue config, sy_cancelled = False, sy_awake = 0, sy_waiting = 0, sy_running = [],
          sy_sending = [], sy_writer = False, sy_batch = [], sy_final = []\<rparr>"

inductive lc_step :: "bool \<Rightarrow> lc_system \<Rightarrow> lc_system \<Rightarrow> bool" for supportsBatch :: bool where
  start: "lc_Start True True now (sy_q s) = Inr (q, True) \<Longrightarrow>
    lc_step supportsBatch s (s\<lparr>sy_q := q, sy_cancelled := False, sy_awake := nat (qc_Workers (q_config q)), sy_writer := True\<rparr>)"
| cancel: "lc_step supportsBatch s (s\<lparr>sy_cancelled := True\<rparr>)"
| stop: "q_started (sy_q s) \<Longrightarrow> lc_step supportsBatch s (s\<lparr>sy_q := lc_Stop (sy_q s), sy_cancelled := True\<rparr>)"
| finish: "q_stopping (sy_q s) \<Longrightarrow> no_workers s \<Longrightarrow> \<not> sy_writer s \<Longrightarrow>
    lc_step supportsBatch s (s\<lparr>sy_q := finishStop (sy_q s)\<rparr>)"
| enqueue: "lc_Enqueue candidate (sy_q s) = Inr q \<Longrightarrow> lc_step supportsBatch s (s\<lparr>sy_q := q\<rparr>)"
| claim: "sy_awake s = Suc n \<Longrightarrow> 0 \<le> now \<Longrightarrow> claimNext now (sy_q s) = (q, Inr candidate) \<Longrightarrow>
    lc_step supportsBatch s (s\<lparr>sy_q := q, sy_awake := n, sy_running := candidate # sy_running s\<rparr>)"
| pass: "sy_awake s = Suc n \<Longrightarrow> 0 \<le> now \<Longrightarrow> claimNext now (sy_q s) = (q, Inl nextProbe) \<Longrightarrow>
    lc_step supportsBatch s (s\<lparr>sy_q := q, sy_awake := n, sy_waiting := Suc (sy_waiting s)\<rparr>)"
| wake: "sy_waiting s = Suc n \<Longrightarrow> q_wake (sy_q s) \<Longrightarrow>
    lc_step supportsBatch s (s\<lparr>sy_q := (sy_q s)\<lparr>q_wake := False\<rparr>, sy_waiting := n, sy_awake := Suc (sy_awake s)\<rparr>)"
| timer: "sy_waiting s = Suc n \<Longrightarrow> lc_step supportsBatch s (s\<lparr>sy_waiting := n, sy_awake := Suc (sy_awake s)\<rparr>)"
| leave: "sy_waiting s = Suc n \<Longrightarrow> sy_cancelled s \<Longrightarrow> lc_step supportsBatch s (s\<lparr>sy_waiting := n\<rparr>)"
| release: "sy_running s = xs @ candidate # ys \<Longrightarrow> completion = checkCandidate checkedAt (sy_cancelled s) candidate answer \<Longrightarrow>
    lc_step supportsBatch s
      (s\<lparr>sy_q := releasePlatform now (lc_Platform candidate) (cp_circuitFailure completion) (sy_q s),
        sy_running := xs @ ys, sy_sending := completion # sy_sending s\<rparr>)"
| send: "sy_sending s = xs @ completion # ys \<Longrightarrow> int (length (q_results (sy_q s))) < results_capacity (sy_q s) \<Longrightarrow>
    lc_step supportsBatch s
      (s\<lparr>sy_q := (sy_q s)\<lparr>q_results := q_results (sy_q s) @ [completion]\<rparr>, sy_sending := xs @ ys, sy_awake := Suc (sy_awake s)\<rparr>)"
| receive: "sy_writer s \<Longrightarrow> sy_final s = [] \<Longrightarrow> q_results (sy_q s) = completion # rest \<Longrightarrow> draining \<longrightarrow> no_workers s \<Longrightarrow>
    writer_receive supportsBatch draining completion (sy_batch s) ((sy_q s)\<lparr>q_results := rest\<rparr>) = (q, batch, flushed) \<Longrightarrow>
    lc_step supportsBatch s
      (s\<lparr>sy_q := q, sy_batch := batch, sy_final := persist_errors supportsBatch batch_failed single_failed flushed\<rparr>)"
| flush: "sy_writer s \<Longrightarrow> sy_final s = [] \<Longrightarrow>
    lc_step supportsBatch s
      (s\<lparr>sy_batch := [], sy_final := persist_errors supportsBatch batch_failed single_failed (sy_batch s)\<rparr>)"
| finalize: "sy_final s = (completion, failed) # rest \<Longrightarrow>
    lc_step supportsBatch s (s\<lparr>sy_q := finalizeCompletion now completion failed (sy_q s), sy_final := rest\<rparr>)"
| written: "sy_writer s \<Longrightarrow> no_workers s \<Longrightarrow> q_results (sy_q s) = [] \<Longrightarrow> sy_batch s = [] \<Longrightarrow> sy_final s = [] \<Longrightarrow>
    lc_step supportsBatch s (s\<lparr>sy_writer := False\<rparr>)"
| observe: "lc_step supportsBatch s (s\<lparr>sy_q := ObserveBacklog now dueCount observed policyRevision (sy_q s)\<rparr>)"
| snapshot: "lc_step supportsBatch s (s\<lparr>sy_q := fst (lc_Snapshot now (sy_q s))\<rparr>)"

abbreviation lc_reachable :: "LinkCheckQueueConfig \<Rightarrow> bool \<Rightarrow> lc_system \<Rightarrow> bool" where
  "lc_reachable config supportsBatch \<equiv> reachable (lc_init config) (lc_step supportsBatch)"

section \<open>Lemmas: claiming\<close>

lemmas signalWake_simp [simp] = signalWake_def

lemma list_at_simps [simp]:
  "list_at Map.empty = (\<lambda>_. [])" "list_at (m(p \<mapsto> cs)) = (list_at m)(p := cs)"
  by (simp_all add: list_at_def fun_eq_iff)

lemma state_at_simps [simp]:
  "state_at Map.empty = (\<lambda>_. new_platform_state)" "state_at (m(p \<mapsto> st)) = (state_at m)(p := st)"
  by (simp_all add: state_at_def fun_eq_iff)

definition touched :: "LinkCheckQueue \<Rightarrow> LinkCheckQueue \<Rightarrow> bool" where
  "touched q q' \<longleftrightarrow> (\<exists>ss. q' = q\<lparr>q_platformStates := ss\<rparr>) \<and> platform_state q' = platform_state q"

definition eligible :: "time \<Rightarrow> LinkCheckQueue \<Rightarrow> nat \<Rightarrow> bool" where
  "eligible now q index \<longleftrightarrow>
     pending_of q (q_platformOrder q ! index) \<noteq> []
     \<and> platform_admit (qc_PlatformLimit (q_config q)) now (platform_state q (q_platformOrder q ! index)) \<noteq> None"

definition claims :: "time \<Rightarrow> nat \<Rightarrow> LinkCheckQueue \<Rightarrow> LinkCheckCandidate \<Rightarrow> LinkCheckQueue \<Rightarrow> bool" where
  "claims now index q c q' \<longleftrightarrow>
     (let p = q_platformOrder q ! index in
      \<exists>others st ss. pending_of q p = c # others
        \<and> platform_admit (qc_PlatformLimit (q_config q)) now (platform_state q p) = Some st
        \<and> q' = q\<lparr>q_pending := (q_pending q)(p \<mapsto> others), q_platformStates := ss, q_active := q_active q + 1,
                q_platformCursor := (index + 1) mod length (q_platformOrder q), q_wake := True\<rparr>
        \<and> platform_state q' = (platform_state q)(p := st))"

lemma touched_refl: "touched q q"
  by (auto simp: touched_def intro: exI [of _ "q_platformStates q"])

lemma touched_state:
  "touched q (q\<lparr>q_platformStates := (q_platformStates q)(p \<mapsto> platform_state q p)\<rparr>)"
  by (auto simp: touched_def fun_eq_iff)

lemma touched_trans: "touched q q1 \<Longrightarrow> touched q1 q2 \<Longrightarrow> touched q q2"
  by (auto simp: touched_def)

lemma touched_eligible: "touched q q1 \<Longrightarrow> eligible now q1 j = eligible now q j"
  by (auto simp: touched_def eligible_def)

lemma touched_claims: "touched q q1 \<Longrightarrow> claims now index q1 c q' \<Longrightarrow> claims now index q c q'"
  by (fastforce simp: touched_def claims_def Let_def)

text \<open>A pass claims at the first eligible index, or leaves the queue as it was when there is none.\<close>

lemma claim_loop_spec:
  "case claim_loop now np idxs q of
     (q', Inr c) \<Rightarrow> \<exists>pre index post. idxs = pre @ index # post \<and> (\<forall>j\<in>set pre. \<not> eligible now q j) \<and> claims now index q c q'
   | (q', Inl np') \<Rightarrow> (\<forall>j\<in>set idxs. \<not> eligible now q j) \<and> touched q q'"
proof (induction idxs arbitrary: np q)
  case Nil
  show ?case by (simp add: touched_refl)
next
  case (Cons i idxs)
  let ?p = "q_platformOrder q ! i"
  let ?q1 = "q\<lparr>q_platformStates := (q_platformStates q)(?p \<mapsto> platform_state q ?p)\<rparr>"
  have skip: ?case
    if step: "claim_loop now np (i # idxs) q = claim_loop now np' idxs q1"
      and t: "touched q q1" and ne: "\<not> eligible now q i" for np' q1
  proof (cases "claim_loop now np' idxs q1")
    case (Pair q' r)
    show ?thesis
    proof (cases r)
      case (Inl x)
      with Cons.IH [where np = np' and q = q1] Pair step t ne show ?thesis
        by (auto simp: touched_eligible intro: touched_trans)
    next
      case (Inr c)
      with Cons.IH [where np = np' and q = q1] Pair obtain pre index post where
        "idxs = pre @ index # post" "\<forall>j\<in>set pre. \<not> eligible now q1 j" "claims now index q1 c q'" by auto
      then have "i # idxs = (i # pre) @ index # post \<and> (\<forall>j\<in>set (i # pre). \<not> eligible now q j) \<and> claims now index q c q'"
        using ne touched_eligible [OF t] touched_claims [OF t] by simp
      then have "\<exists>pre index post. i # idxs = pre @ index # post \<and> (\<forall>j\<in>set pre. \<not> eligible now q j) \<and> claims now index q c q'"
        by blast
      then show ?thesis unfolding step Pair Inr by simp
    qed
  qed
  show ?case
  proof (cases "pending_of q ?p")
    case Nil
    then show ?thesis by (intro skip [OF _ touched_refl]) (simp_all add: eligible_def)
  next
    case (Cons c others)
    note pend = Cons
    show ?thesis
    proof (cases "platform_admit (qc_PlatformLimit (q_config q)) now (platform_state q ?p)")
      case None
      with pend show ?thesis by (intro skip [OF _ touched_state [of q ?p]]) (simp_all add: eligible_def Let_def)
    next
      case (Some st)
      let ?q' = "q\<lparr>q_pending := (q_pending q)(?p \<mapsto> others),
        q_platformStates := (q_platformStates q)(?p \<mapsto> st), q_active := q_active q + 1,
        q_platformCursor := (i + 1) mod length (q_platformOrder q), q_wake := True\<rparr>"
      have "claims now i q c ?q'"
        using pend Some by (auto simp: claims_def Let_def)
      then have "\<exists>pre index post. i # idxs = pre @ index # post \<and> (\<forall>j\<in>set pre. \<not> eligible now q j) \<and> claims now index q c ?q'"
        by (intro exI [of _ "[]"] exI [of _ i] exI [of _ idxs]) simp
      moreover have "claim_loop now np (i # idxs) q = (?q', Inr c)" using pend Some by (simp add: Let_def)
      ultimately show ?thesis by (simp del: claim_loop.simps)
    qed
  qed
qed

lemma set_cyclic_from: "set (cyclic_from cursor n) = {..<n}"
proof
  show "set (cyclic_from cursor n) \<subseteq> {..<n}" by (auto simp: cyclic_from_def)
  show "{..<n} \<subseteq> set (cyclic_from cursor n)"
  proof
    fix i assume "i \<in> {..<n}"
    then have i: "i < n" by simp
    let ?k = "(i + (n - cursor mod n)) mod n"
    have "(cursor + ?k) mod n = (cursor mod n + (i + (n - cursor mod n))) mod n"
      by (simp add: mod_simps)
    also have "cursor mod n + (i + (n - cursor mod n)) = i + n"
      using i mod_less_divisor [of n cursor] by linarith
    finally have "(cursor + ?k) mod n = i" using i by simp
    moreover have "?k < n" using i by simp
    ultimately show "i \<in> set (cyclic_from cursor n)" unfolding cyclic_from_def by force
  qed
qed

lemma claimNext_claims:
  assumes "claimNext now q = (q', Inr c)"
  obtains index where "index < length (q_platformOrder q)" and "claims now index q c q'"
proof -
  let ?idxs = "cyclic_from (q_platformCursor q) (length (q_platformOrder q))"
  from claim_loop_spec [where now = now and np = 0 and idxs = ?idxs and q = q] assms obtain pre index post where
    "?idxs = pre @ index # post" "claims now index q c q'" by (auto simp: claimNext_def)
  moreover from this(1) have "index \<in> set ?idxs" by simp
  then have "index < length (q_platformOrder q)" unfolding set_cyclic_from by simp
  ultimately show ?thesis using that by blast
qed

lemma claimNext_none:
  assumes "claimNext now q = (q', Inl np)"
  shows "touched q q'" and "index < length (q_platformOrder q) \<Longrightarrow> \<not> eligible now q index"
  using claim_loop_spec [where now = now and np = 0 and q = q
      and idxs = "cyclic_from (q_platformCursor q) (length (q_platformOrder q))"] assms
  by (auto simp: claimNext_def set_cyclic_from)

section \<open>The circuit breaker of a platform\<close>

text \<open>The state of a platform is a circuit breaker in the sense of the shared contract.\<close>

interpretation platform_breaker: circuit_breaker ps_circuitUntil "\<lambda>s. ps_halfOpen s \<or> ps_inUse s > 0"
  "\<lambda>s. \<not> ps_halfOpen s \<and> ps_inUse s \<le> 0" "platform_admit limit"
  by unfold_locales (auto simp: platform_admit_def is_zero_time_def split: if_splits)

end
