(* ===== verification/Link_Check_Safety.thy ===== *)
theory Link_Check_Safety
  imports Link_Check
begin

text \<open>
  The invariants of the link-check queue over every run of its goroutines: each queued resource is in
  exactly one place, the counters are exact, the limits hold, a worker never blocks on the results
  channel and no wake-up is lost. Each part of the invariant has its own preservation lemma; the
  machine of \<open>lc_step\<close> is then an instance of \<open>invariant_machine\<close>.
\<close>

section \<open>Views of the queue\<close>

lemma observe_view: "\<exists>bs. ObserveBacklog now dueCount observed revision q = q\<lparr>q_backlogSamples := bs\<rparr>"
proof
  show "ObserveBacklog now dueCount observed revision q
      = q\<lparr>q_backlogSamples := q_backlogSamples (ObserveBacklog now dueCount observed revision q)\<rparr>"
    by (simp add: ObserveBacklog_def Let_def pruneBacklogSamplesLocked_def)
qed

lemma snapshot_view: "\<exists>ms bs. fst (lc_Snapshot now q) = q\<lparr>q_completionMetrics := ms, q_backlogSamples := bs\<rparr>"
  unfolding lc_Snapshot_def Let_def pruneBacklogSamplesLocked_def pruneCompletionMetricsLocked_def
  by (auto intro: exI)

lemma finalize_view:
  "\<exists>ms. finalizeCompletion now c failed q =
     q\<lparr>q_queued := removeAll (lc_ResourceID (cp_candidate c)) (q_queued q), q_completionMetrics := ms, q_wake := True\<rparr>"
  unfolding finalizeCompletion_def recordCompletion_def forget_queued_def pruneCompletionMetricsLocked_def by auto

lemma discard_view:
  "discardCompletion c q = q\<lparr>q_queued := removeAll (lc_ResourceID (cp_candidate c)) (q_queued q), q_wake := True\<rparr>"
  by (simp add: discardCompletion_def forget_queued_def)

lemma normalize_platform_idem [simp]:
  "normalizeLinkCheckPlatform (normalizeLinkCheckPlatform p) = normalizeLinkCheckPlatform p"
proof -
  have "fold_key ''unknown'' = ''unknown''" by code_simp
  then show ?thesis by (simp add: normalizeLinkCheckPlatform_def Let_def)
qed

section \<open>Well-formed platform tables\<close>

definition queue_wf :: "LinkCheckQueue \<Rightarrow> bool" where
  "queue_wf q \<longleftrightarrow> distinct (q_platformOrder q) \<and> (\<forall>p. p \<in> set (q_platformOrder q) \<longleftrightarrow> q_pending q p \<noteq> None)
     \<and> (\<forall>p. \<forall>c\<in>set (pending_of q p). lc_Platform c = p \<and> normalizeLinkCheckPlatform p = p)"

text \<open>What an accepted enqueue does: nothing, or one more candidate at its platform.\<close>

lemma enqueue_cases:
  assumes "lc_Enqueue candidate q = Inr q'"
  obtains "q' = q"
  | p where "p = normalizeLinkCheckPlatform (lc_Platform candidate)" "q_started q" "lc_ResourceID candidate \<notin> set (q_queued q)"
      "int (length (q_queued q)) - q_active q < qc_Buffer (q_config q)"
      "q' = q\<lparr>q_platformOrder := (if q_pending q p = None then q_platformOrder q @ [p] else q_platformOrder q),
              q_pending := (q_pending q)(p \<mapsto> pending_of q p @ [candidate\<lparr>lc_Platform := p\<rparr>]),
              q_queued := lc_ResourceID candidate # q_queued q, q_wake := True\<rparr>"
  using assms by (auto simp: lc_Enqueue_def Let_def split: if_splits)

lemma queue_wf_enqueue:
  assumes "queue_wf q" and "lc_Enqueue candidate q = Inr q'"
  shows "queue_wf q'"
  using assms(2)
proof (cases rule: enqueue_cases)
  case 1
  with assms(1) show ?thesis by simp
next
  case (2 p)
  have "q_pending q p = None \<Longrightarrow> pending_of q p = []" by (simp add: list_at_def)
  with assms(1) 2(1) show ?thesis unfolding 2(5) queue_wf_def by (auto split: if_splits)
qed

lemma claims_wf: "queue_wf q \<Longrightarrow> index < length (q_platformOrder q) \<Longrightarrow> claims now index q c q' \<Longrightarrow> queue_wf q'"
  unfolding claims_def Let_def queue_wf_def by (auto split: if_splits) (metis list.set_intros(1))

lemma step_wf: "lc_step b s s' \<Longrightarrow> queue_wf (sy_q s) \<Longrightarrow> queue_wf (sy_q s')"
proof (induction rule: lc_step.induct)
  case (claim s n now q candidate)
  then show ?case by (elim claimNext_claims) (simp add: claims_wf)
next
  case (pass s n now q np)
  then show ?case using claimNext_none(1) [OF pass(3)] by (auto simp: touched_def queue_wf_def)
next
  case (observe s now due obs revision)
  then show ?case using observe_view [of now due obs revision "sy_q s"] by (auto simp: queue_wf_def)
next
  case (snapshot s now)
  then show ?case using snapshot_view [of now "sy_q s"] by (auto simp: queue_wf_def)
next
  case (finalize s c failed rest now)
  then show ?case using finalize_view [of now c failed "sy_q s"] by (auto simp: queue_wf_def)
next
  case (receive s c rest dr q batch flushed bf sf)
  then show ?case
    by (auto simp: writer_receive_def discard_view queue_wf_def Let_def split: if_splits)
next
  case (enqueue candidate s q)
  then show ?case by (simp add: queue_wf_enqueue)
qed (auto simp: lc_Start_def lc_Stop_def finishStop_def releasePlatform_def Let_def queue_wf_def split: if_splits)

section \<open>Where a queued resource is\<close>

definition pend_all :: "LinkCheckQueue \<Rightarrow> LinkCheckCandidate list" where
  "pend_all q = concat (map (pending_of q) (q_platformOrder q))"

definition item_ids :: "lc_system \<Rightarrow> int list" where
  "item_ids s = map lc_ResourceID (pend_all (sy_q s) @ sy_running s
     @ map cp_candidate (sy_sending s @ q_results (sy_q s) @ sy_batch s @ map fst (sy_final s)))"

definition inv_ids :: "lc_system \<Rightarrow> bool" where
  "inv_ids s \<longleftrightarrow> distinct (q_queued (sy_q s)) \<and> mset (q_queued (sy_q s)) = mset (item_ids s)"

text \<open>Between two runs nothing is left of the goroutines.\<close>

definition inv_session :: "lc_system \<Rightarrow> bool" where
  "inv_session s \<longleftrightarrow>
     (\<not> q_started (sy_q s) \<and> \<not> q_stopping (sy_q s) \<longrightarrow> \<not> sy_writer s)
     \<and> (\<not> sy_writer s \<longrightarrow> no_workers s \<and> q_results (sy_q s) = [] \<and> sy_batch s = [] \<and> sy_final s = [])"

lemma mset_concat_update:
  "distinct ps \<Longrightarrow> p \<in> set ps \<Longrightarrow>
   mset (concat (map (f(p := xs)) ps)) + mset (f p) = mset (concat (map f ps)) + mset xs"
proof (induction ps)
  case (Cons a ps)
  then show ?case
    by (cases "a = p") (auto simp: map_fun_upd fun_upd_same fun_upd_other simp del: fun_upd_apply)
qed simp

lemma pend_enqueue:
  assumes wf: "queue_wf q" and q': "q_platformOrder q' = (if q_pending q p = None then q_platformOrder q @ [p] else q_platformOrder q)"
    and pend: "q_pending q' = (q_pending q)(p \<mapsto> pending_of q p @ [c])"
  shows "mset (pend_all q') = add_mset c (mset (pend_all q))"
proof (cases "q_pending q p")
  case None
  with wf have "p \<notin> set (q_platformOrder q)" "pending_of q p = []" by (auto simp: queue_wf_def list_at_def)
  with None q' pend show ?thesis by (simp add: pend_all_def map_fun_upd)
next
  case (Some cs)
  with wf have "distinct (q_platformOrder q)" "p \<in> set (q_platformOrder q)" by (auto simp: queue_wf_def)
  from mset_concat_update [OF this, of "pending_of q" "pending_of q p @ [c]"] Some q' pend show ?thesis
    by (simp add: pend_all_def)
qed

lemma pend_claim:
  assumes wf: "queue_wf q" and i: "index < length (q_platformOrder q)" and c: "claims now index q c q'"
  shows "mset (pend_all q) = add_mset c (mset (pend_all q'))"
proof -
  let ?p = "q_platformOrder q ! index"
  from c obtain others where o: "pending_of q ?p = c # others" "q_pending q' = (q_pending q)(?p \<mapsto> others)"
    "q_platformOrder q' = q_platformOrder q" by (auto simp: claims_def Let_def)
  from wf i have "distinct (q_platformOrder q)" "?p \<in> set (q_platformOrder q)" by (auto simp: queue_wf_def)
  from mset_concat_update [OF this, of "pending_of q" others] o show ?thesis by (simp add: pend_all_def)
qed

lemma claims_view:
  assumes "claims now index q c q'"
  shows "q_queued q' = q_queued q" "q_results q' = q_results q" "q_active q' = q_active q + 1" "q_config q' = q_config q"
    "q_started q' = q_started q" "q_stopping q' = q_stopping q" "q_wake q'" "q_platformOrder q' = q_platformOrder q"
  using assms by (auto simp: claims_def Let_def)

lemma touched_view:
  assumes "touched q q'"
  shows "q_queued q' = q_queued q" "q_results q' = q_results q" "q_active q' = q_active q" "q_config q' = q_config q"
    "q_started q' = q_started q" "q_stopping q' = q_stopping q" "q_wake q' = q_wake q" "q_platformOrder q' = q_platformOrder q"
    "q_pending q' = q_pending q" "platform_state q' = platform_state q"
  using assms by (auto simp: touched_def)

lemma persist_fst [simp]: "map fst (persist_errors b bf sf cs) = cs"
  by (simp add: persist_errors_def comp_def)

lemma remove_distinct: "distinct xs \<Longrightarrow> mset xs = add_mset x ms \<Longrightarrow> mset (removeAll x xs) = ms"
  by (simp add: distinct_remove1_removeAll [symmetric])

lemma step_ids:
  assumes "lc_step b s s'" and "queue_wf (sy_q s)" and "inv_session s" and "inv_ids s"
  shows "inv_ids s'"
  using assms
proof (induction rule: lc_step.induct)
  case (start now s q)
  then show ?case
    by (auto simp: lc_Start_def inv_ids_def item_ids_def pend_all_def inv_session_def no_workers_def split: if_splits)
next
  case (enqueue candidate s q)
  from enqueue(1) show ?case
  proof (cases rule: enqueue_cases)
    case (2 p)
    from pend_enqueue [OF enqueue(2), of q p] 2(5)
    have "mset (pend_all q) = add_mset (candidate\<lparr>lc_Platform := p\<rparr>) (mset (pend_all (sy_q s)))" by simp
    moreover from 2(5) have "q_queued q = lc_ResourceID candidate # q_queued (sy_q s)" "q_results q = q_results (sy_q s)"
      by simp_all
    ultimately show ?thesis using enqueue(4) 2(3) by (simp add: inv_ids_def item_ids_def)
  qed (use enqueue in simp)
next
  case (claim s n now q candidate)
  from claim(3) obtain index where i: "index < length (q_platformOrder (sy_q s))" "claims now index (sy_q s) candidate q"
    by (rule claimNext_claims)
  from pend_claim [OF claim(4) i] claims_view [OF i(2)] claim(6) show ?case
    by (simp add: inv_ids_def item_ids_def)
next
  case (pass s n now q np)
  from touched_view [OF claimNext_none(1) [OF pass(3)]] pass(6) show ?case
    by (simp add: inv_ids_def item_ids_def pend_all_def)
next
  case (observe s now due obs revision)
  then show ?case using observe_view [of now due obs revision "sy_q s"]
    by (auto simp: inv_ids_def item_ids_def pend_all_def)
next
  case (snapshot s now)
  then show ?case using snapshot_view [of now "sy_q s"] by (auto simp: inv_ids_def item_ids_def pend_all_def)
next
  case (finalize s c failed rest now)
  obtain ms where v: "finalizeCompletion now c failed (sy_q s) =
     (sy_q s)\<lparr>q_queued := removeAll (lc_ResourceID (cp_candidate c)) (q_queued (sy_q s)), q_completionMetrics := ms, q_wake := True\<rparr>"
    using finalize_view by blast
  from finalize(4) show ?case unfolding v using finalize(1)
    by (auto simp: inv_ids_def item_ids_def pend_all_def distinct_removeAll intro!: remove_distinct)
next
  case (receive s c rest dr q batch flushed bf sf)
  then show ?case
    by (auto simp: writer_receive_def discard_view inv_ids_def item_ids_def pend_all_def Let_def distinct_removeAll intro!: remove_distinct
        split: if_splits)
qed (auto simp: lc_Stop_def finishStop_def releasePlatform_def checkCandidate_def Let_def inv_ids_def item_ids_def
    pend_all_def split: if_splits prod.splits)

section \<open>Sessions, workers and sizes\<close>

lemma step_session: "lc_step b s s' \<Longrightarrow> inv_session s \<Longrightarrow> inv_session s'"
proof (induction rule: lc_step.induct)
  case (claim s n now q candidate)
  from claim(3) obtain index where "claims now index (sy_q s) candidate q" by (rule claimNext_claims)
  from claims_view [OF this] claim(1,4) show ?case by (auto simp: inv_session_def no_workers_def)
next
  case (pass s n now q np)
  from touched_view [OF claimNext_none(1) [OF pass(3)]] pass(1,4) show ?case
    by (auto simp: inv_session_def no_workers_def)
next
  case (enqueue candidate s q)
  from enqueue(1) enqueue(2) show ?case by (cases rule: enqueue_cases) (auto simp: inv_session_def no_workers_def)
next
  case (observe s now due obs revision)
  then show ?case using observe_view [of now due obs revision "sy_q s"] by (auto simp: inv_session_def no_workers_def)
next
  case (snapshot s now)
  then show ?case using snapshot_view [of now "sy_q s"] by (auto simp: inv_session_def no_workers_def)
next
  case (finalize s c failed rest now)
  then show ?case using finalize_view [of now c failed "sy_q s"] by (auto simp: inv_session_def no_workers_def)
qed (auto simp: inv_session_def no_workers_def lc_Start_def lc_Stop_def finishStop_def releasePlatform_def
    writer_receive_def discard_view persist_errors_def Let_def split: if_splits)

definition inv_workers :: "LinkCheckQueueConfig \<Rightarrow> lc_system \<Rightarrow> bool" where
  "inv_workers config s \<longleftrightarrow>
     q_config (sy_q s) = config
     \<and> int (sy_awake s + sy_waiting s + length (sy_running s) + length (sy_sending s)) \<le> qc_Workers config
     \<and> q_active (sy_q s) = int (length (sy_running s))
     \<and> int (length (q_queued (sy_q s))) \<le> qc_Buffer config + qc_Workers config"

lemma length_removeAll_le: "int (length xs) \<le> n \<Longrightarrow> int (length (removeAll x xs)) \<le> n"
  by (rule order_trans [of _ "int (length xs)"]) (simp_all add: removeAll_filter_not_eq)

lemma step_workers:
  assumes "lc_step b s s'" and "inv_session s" and "inv_workers config s" and "0 < qc_Workers config" "0 < qc_Buffer config"
  shows "inv_workers config s'"
  using assms
proof (induction rule: lc_step.induct)
  case (claim s n now q candidate)
  from claim(3) obtain index where "claims now index (sy_q s) candidate q" by (rule claimNext_claims)
  from claims_view [OF this] claim(1,5) show ?case by (simp add: inv_workers_def)
next
  case (pass s n now q np)
  from touched_view [OF claimNext_none(1) [OF pass(3)]] pass(1,5) show ?case by (simp add: inv_workers_def)
next
  case (enqueue candidate s q)
  from enqueue(1) enqueue(3) show ?case by (cases rule: enqueue_cases) (auto simp: inv_workers_def)
next
  case (observe s now due obs revision)
  then show ?case using observe_view [of now due obs revision "sy_q s"] by (auto simp: inv_workers_def)
next
  case (snapshot s now)
  then show ?case using snapshot_view [of now "sy_q s"] by (auto simp: inv_workers_def)
next
  case (finalize s c failed rest now)
  obtain ms where v: "finalizeCompletion now c failed (sy_q s) =
     (sy_q s)\<lparr>q_queued := removeAll (lc_ResourceID (cp_candidate c)) (q_queued (sy_q s)), q_completionMetrics := ms, q_wake := True\<rparr>"
    using finalize_view by blast
  with finalize(3) show ?case by (auto simp: inv_workers_def length_removeAll_le)
next
  case (receive s c rest dr q batch flushed bf sf)
  then show ?case
    by (auto simp: writer_receive_def discard_view inv_workers_def Let_def length_removeAll_le split: if_splits)
qed (auto simp: inv_workers_def inv_session_def no_workers_def lc_Start_def lc_Stop_def finishStop_def releasePlatform_def
    Let_def split: if_splits)

section \<open>Platform limits and circuits\<close>

definition on_platform :: "string \<Rightarrow> LinkCheckCandidate \<Rightarrow> bool" where
  "on_platform p c \<longleftrightarrow> lc_Platform c = p"

definition inv_use :: "LinkCheckQueueConfig \<Rightarrow> lc_system \<Rightarrow> bool" where
  "inv_use config s \<longleftrightarrow>
     (\<forall>c\<in>set (sy_running s). normalizeLinkCheckPlatform (lc_Platform c) = lc_Platform c)
     \<and> (\<forall>p. ps_inUse (platform_state (sy_q s) p) = int (length (filter (on_platform p) (sy_running s)))
          \<and> ps_inUse (platform_state (sy_q s) p) \<le> qc_PlatformLimit config
          \<and> (ps_halfOpen (platform_state (sy_q s) p) \<longrightarrow>
               ps_inUse (platform_state (sy_q s) p) = 1 \<and> ps_circuitUntil (platform_state (sy_q s) p) \<noteq> 0))"

text \<open>The part of the invariant on one platform, and how claims and releases change it.\<close>

definition state_ok :: "LinkCheckQueueConfig \<Rightarrow> int \<Rightarrow> linkCheckPlatformState \<Rightarrow> bool" where
  "state_ok config n st \<longleftrightarrow> ps_inUse st = n \<and> 0 \<le> n \<and> n \<le> qc_PlatformLimit config
     \<and> (ps_halfOpen st \<longrightarrow> n = 1 \<and> ps_circuitUntil st \<noteq> 0)"

lemma admit_state_ok:
  "state_ok config n st \<Longrightarrow> 0 < qc_PlatformLimit config \<Longrightarrow> platform_admit (qc_PlatformLimit config) now st = Some st' \<Longrightarrow>
   state_ok config (n + 1) st'"
  by (auto simp: state_ok_def platform_admit_def is_zero_time_def split: if_splits)

lemma release_state_ok:
  "state_ok config (n + 1) st \<Longrightarrow> 0 \<le> n \<Longrightarrow> state_ok config n (release_state config now failure st)"
  by (auto simp: state_ok_def release_state_def Let_def)

lemma inv_use_state:
  "inv_use config s \<longleftrightarrow>
     (\<forall>c\<in>set (sy_running s). normalizeLinkCheckPlatform (lc_Platform c) = lc_Platform c)
     \<and> (\<forall>p. state_ok config (int (length (filter (on_platform p) (sy_running s)))) (platform_state (sy_q s) p))"
  unfolding inv_use_def state_ok_def by (metis of_nat_0_le_iff)

lemma new_state_ok: "0 < qc_PlatformLimit config \<Longrightarrow> state_ok config 0 new_platform_state"
  by (simp add: state_ok_def new_platform_state_def)

lemma step_use:
  assumes "lc_step b s s'" and "queue_wf (sy_q s)" and "inv_session s" and "q_config (sy_q s) = config"
    and "inv_use config s" and "0 < qc_PlatformLimit config"
  shows "inv_use config s'"
  using assms
proof (induction rule: lc_step.induct)
  case (start now s q)
  then show ?case unfolding inv_use_state
    by (auto simp: lc_Start_def inv_session_def no_workers_def new_state_ok split: if_splits)
next
  case (claim s n now q candidate)
  from claim(3) obtain index where i: "index < length (q_platformOrder (sy_q s))" "claims now index (sy_q s) candidate q"
    by (rule claimNext_claims)
  let ?p = "q_platformOrder (sy_q s) ! index"
  from i(2) obtain others st where c: "pending_of (sy_q s) ?p = candidate # others"
      "platform_admit (qc_PlatformLimit (q_config (sy_q s))) now (platform_state (sy_q s) ?p) = Some st"
      "platform_state q = (platform_state (sy_q s))(?p := st)"
    by (auto simp: claims_def Let_def)
  from claim(4) c(1) have p: "lc_Platform candidate = ?p" "normalizeLinkCheckPlatform ?p = ?p"
    unfolding queue_wf_def by (metis list.set_intros(1))+
  from claim(7) have "state_ok config (int (length (filter (on_platform ?p) (sy_running s)))) (platform_state (sy_q s) ?p)"
    unfolding inv_use_state by blast
  from admit_state_ok [OF this claim(8)] c(2) claim(6)
  have "state_ok config (int (length (filter (on_platform ?p) (sy_running s))) + 1) st" by blast
  with claim(7) c(3) p show ?case unfolding inv_use_state by (auto simp: on_platform_def add.commute)
next
  case (release s xs candidate ys completion checkedAt answer now)
  let ?p = "lc_Platform candidate"
  let ?n = "int (length (filter (on_platform ?p) (xs @ ys)))"
  from release(6) have norm: "normalizeLinkCheckPlatform ?p = ?p"
    and "state_ok config (int (length (filter (on_platform ?p) (sy_running s)))) (platform_state (sy_q s) ?p)"
    unfolding inv_use_state release(1) by simp_all
  then have "state_ok config (?n + 1) (platform_state (sy_q s) ?p)"
    by (simp add: release(1) on_platform_def algebra_simps)
  then have "state_ok config ?n (release_state config now (cp_circuitFailure completion) (platform_state (sy_q s) ?p))"
    by (simp add: release_state_ok)
  with release(5,6) release(1) norm show ?case unfolding inv_use_state
    by (auto simp: releasePlatform_def Let_def on_platform_def split: if_splits)
next
  case (pass s n now q np)
  from touched_view [OF claimNext_none(1) [OF pass(3)]] pass(7) show ?case by (simp add: inv_use_state)
next
  case (enqueue candidate s q)
  from enqueue(1) enqueue(5) show ?case by (cases rule: enqueue_cases) (auto simp: inv_use_state)
next
  case (observe s now due obs revision)
  then show ?case using observe_view [of now due obs revision "sy_q s"] by (auto simp: inv_use_state)
next
  case (snapshot s now)
  then show ?case using snapshot_view [of now "sy_q s"] by (auto simp: inv_use_state)
next
  case (finalize s c failed rest now)
  then show ?case using finalize_view [of now c failed "sy_q s"] by (auto simp: inv_use_state)
next
  case (receive s c rest dr q batch flushed bf sf)
  then show ?case by (auto simp: writer_receive_def discard_view inv_use_state Let_def split: if_splits)
qed (auto simp: inv_use_state lc_Stop_def finishStop_def split: if_splits)

section \<open>Wake-ups\<close>

text \<open>Some platform with a closed circuit has a candidate and a free place.\<close>

definition work_ready :: "LinkCheckQueue \<Rightarrow> bool" where
  "work_ready q \<longleftrightarrow> (\<exists>p\<in>set (q_platformOrder q). pending_of q p \<noteq> [] \<and> ps_circuitUntil (platform_state q p) = 0
     \<and> ps_inUse (platform_state q p) < qc_PlatformLimit (q_config q))"

definition inv_wake :: "lc_system \<Rightarrow> bool" where
  "inv_wake s \<longleftrightarrow> sy_cancelled s \<or> \<not> work_ready (sy_q s) \<or> q_wake (sy_q s) \<or> 0 < sy_awake s"

lemma pass_not_ready:
  assumes "claimNext now q = (q', Inl np)" and "0 \<le> now"
  shows "\<not> work_ready q'"
proof
  note v = touched_view [OF claimNext_none(1) [OF assms(1)]]
  assume "work_ready q'"
  then obtain p where p: "p \<in> set (q_platformOrder q)" "pending_of q p \<noteq> []" "ps_circuitUntil (platform_state q p) = 0"
      "ps_inUse (platform_state q p) < qc_PlatformLimit (q_config q)"
    unfolding work_ready_def v by blast
  from p(1) obtain i where i: "i < length (q_platformOrder q)" "q_platformOrder q ! i = p" by (metis in_set_conv_nth)
  with p assms(2) have "eligible now q i" by (simp add: eligible_def platform_admit_def is_zero_time_def)
  with claimNext_none(2) [OF assms(1) i(1)] show False by blast
qed

lemma step_wake: "lc_step b s s' \<Longrightarrow> inv_wake s \<Longrightarrow> inv_wake s'"
proof (induction rule: lc_step.induct)
  case (claim s n now q candidate)
  from claim(3) obtain index where "claims now index (sy_q s) candidate q" by (rule claimNext_claims)
  from claims_view [OF this] show ?case by (simp add: inv_wake_def)
next
  case (pass s n now q np)
  from pass_not_ready [OF pass(3,2)] show ?case by (simp add: inv_wake_def)
next
  case (enqueue candidate s q)
  from enqueue(1) enqueue(2) show ?case by (cases rule: enqueue_cases) (auto simp: inv_wake_def)
next
  case (observe s now due obs revision)
  then show ?case using observe_view [of now due obs revision "sy_q s"] by (auto simp: inv_wake_def work_ready_def)
next
  case (snapshot s now)
  then show ?case using snapshot_view [of now "sy_q s"] by (auto simp: inv_wake_def work_ready_def)
next
  case (finalize s c failed rest now)
  then show ?case using finalize_view [of now c failed "sy_q s"] by (auto simp: inv_wake_def)
qed (auto simp: inv_wake_def work_ready_def lc_Start_def lc_Stop_def finishStop_def releasePlatform_def
    writer_receive_def discard_view Let_def split: if_splits)

section \<open>The invariant\<close>

definition lc_inv :: "LinkCheckQueueConfig \<Rightarrow> lc_system \<Rightarrow> bool" where
  "lc_inv config s \<longleftrightarrow> queue_wf (sy_q s) \<and> inv_session s \<and> inv_ids s \<and> inv_workers (normalize_queue_config config) s
     \<and> inv_use (normalize_queue_config config) s \<and> inv_wake s"

lemma normalized_positive:
  "0 < qc_Workers (normalize_queue_config config)" "0 < qc_Buffer (normalize_queue_config config)"
  "0 < qc_PlatformLimit (normalize_queue_config config)" "0 < qc_CircuitFailures (normalize_queue_config config)"
  by (simp_all add: normalize_queue_config_def or_default_def DefaultLinkCheckQueueConfig_def Let_def)

lemma lc_inv_init: "lc_init config s \<Longrightarrow> lc_inv config s"
  using normalized_positive [of config]
  by (auto simp: lc_init_def lc_inv_def queue_wf_def inv_session_def no_workers_def inv_ids_def item_ids_def pend_all_def
      inv_workers_def inv_use_def inv_wake_def work_ready_def NewLinkCheckQueue_def new_platform_state_def)

lemma lc_inv_step:
  assumes "lc_inv config s" and "lc_step b s s'"
  shows "lc_inv config s'"
proof -
  from assms(1) have i: "queue_wf (sy_q s)" "inv_session s" "inv_ids s" "inv_workers (normalize_queue_config config) s"
    "inv_use (normalize_queue_config config) s" "inv_wake s" by (simp_all add: lc_inv_def)
  from i(4) have "q_config (sy_q s) = normalize_queue_config config" by (simp add: inv_workers_def)
  with i show ?thesis unfolding lc_inv_def
    using step_wf [OF assms(2)] step_session [OF assms(2)] step_ids [OF assms(2)] step_workers [OF assms(2)]
      step_use [OF assms(2)] step_wake [OF assms(2)] normalized_positive by blast
qed

interpretation lc_machine: invariant_machine "lc_init config" "lc_step b" "lc_inv config"
  by unfold_locales (auto intro: lc_inv_init lc_inv_step)

section \<open>Properties\<close>

text \<open>C1: However the workers, the writer and the callers are interleaved, a queued resource is in
  exactly one place (waiting at its platform, being checked, on its way to the writer, or being
  persisted), so it is never checked by two workers at once; the set of queued ids is exactly these
  resources and the active counter is the number of checks that run.\<close>

theorem link_check_exclusive:
  assumes "lc_reachable config supportsBatch s"
  shows "distinct (item_ids s) \<and> set (q_queued (sy_q s)) = set (item_ids s)
       \<and> q_active (sy_q s) = int (length (sy_running s))"
proof -
  from lc_machine.reachable_inv [OF assms] have "inv_ids s" "inv_workers (normalize_queue_config config) s"
    by (simp_all add: lc_inv_def)
  then have "distinct (q_queued (sy_q s))" "mset (q_queued (sy_q s)) = mset (item_ids s)"
    "q_active (sy_q s) = int (length (sy_running s))" by (simp_all add: inv_ids_def inv_workers_def)
  moreover from this have "distinct (item_ids s)" using mset_eq_imp_distinct_iff by blast
  ultimately show ?thesis by (metis set_mset_mset)
qed

text \<open>A run that starts the queue, enqueues a candidate and claims it.\<close>

definition demo_candidate :: LinkCheckCandidate where
  "demo_candidate = \<lparr>lc_ResourceID = 7, lc_URL = ''http://x'', lc_Password = [], lc_Platform = ''Quark '',
     lc_Status = ''pending'', lc_IsNew = True, lc_LastCheckedAt = None\<rparr>"

definition demo_started :: LinkCheckQueue where
  "demo_started = fst (projr (lc_Start True True 100 (NewLinkCheckQueue DefaultLinkCheckQueueConfig)))"

definition demo_enqueued :: LinkCheckQueue where
  "demo_enqueued = projr (lc_Enqueue demo_candidate demo_started)"

definition demo_claimed :: LinkCheckQueue where
  "demo_claimed = fst (claimNext 100 demo_enqueued)"

definition demo_system :: lc_system where
  "demo_system = \<lparr>sy_q = demo_claimed, sy_cancelled = False, sy_awake = 7, sy_waiting = 0,
     sy_running = [demo_candidate\<lparr>lc_Platform := ''quark''\<rparr>], sy_sending = [], sy_writer = True, sy_batch = [], sy_final = []\<rparr>"

definition demo_waiting :: lc_system where
  "demo_waiting = demo_system\<lparr>sy_q := demo_enqueued, sy_awake := 8, sy_running := []\<rparr>"

lemma demo_waiting_reachable: "lc_reachable DefaultLinkCheckQueueConfig True demo_waiting"
proof -
  let ?s0 = "\<lparr>sy_q = NewLinkCheckQueue DefaultLinkCheckQueueConfig, sy_cancelled = False, sy_awake = 0, sy_waiting = 0,
    sy_running = [], sy_sending = [], sy_writer = False, sy_batch = [], sy_final = []\<rparr>"
  let ?s1 = "?s0\<lparr>sy_q := demo_started, sy_cancelled := False, sy_awake := nat (qc_Workers (q_config demo_started)), sy_writer := True\<rparr>"
  have start: "lc_Start True True 100 (sy_q ?s0) = Inr (demo_started, True)"
    by (simp add: demo_started_def lc_Start_def NewLinkCheckQueue_def)
  have workers: "nat (qc_Workers (q_config demo_started)) = 8" by code_simp
  have "\<not> isl (lc_Enqueue demo_candidate demo_started)" by code_simp
  then have enq: "lc_Enqueue demo_candidate (sy_q ?s1) = Inr demo_enqueued"
    by (simp add: demo_enqueued_def sum.collapse(2))
  have "lc_reachable DefaultLinkCheckQueueConfig True ?s0" by (rule reach_init) (simp add: lc_init_def)
  then have "lc_reachable DefaultLinkCheckQueueConfig True ?s1" by (rule reach_step) (rule lc_step.start [OF start])
  then have "lc_reachable DefaultLinkCheckQueueConfig True (?s1\<lparr>sy_q := demo_enqueued\<rparr>)"
    by (rule reach_step) (rule lc_step.enqueue [OF enq])
  then show ?thesis by (simp add: demo_waiting_def demo_system_def workers)
qed

lemma demo_system_reachable: "lc_reachable DefaultLinkCheckQueueConfig True demo_system"
proof -
  have "snd (claimNext 100 demo_enqueued) = Inr (demo_candidate\<lparr>lc_Platform := ''quark''\<rparr>)" by code_simp
  then have claim: "claimNext 100 demo_enqueued = (demo_claimed, Inr (demo_candidate\<lparr>lc_Platform := ''quark''\<rparr>))"
    by (simp add: demo_claimed_def prod_eq_iff)
  show ?thesis
    by (rule reach_step [OF demo_waiting_reachable])
      (use lc_step.claim [of demo_waiting 7 100 demo_claimed] claim in \<open>simp add: demo_system_def demo_waiting_def\<close>)
qed

theorem link_check_exclusive_witness:
  "distinct (item_ids demo_system) \<and> item_ids demo_system = [7] \<and> q_active (sy_q demo_system) = 1"
proof -
  have "item_ids demo_system = [7]" by code_simp
  with link_check_exclusive [OF demo_system_reachable] show ?thesis by (simp add: demo_system_def)
qed

text \<open>C24: In every reachable state at most \<open>PlatformLimit\<close> checks run on one platform, its counter is
  exact, and a platform that probes its circuit runs exactly one check; there are never more
  goroutines than workers and never more queued resources than buffer and workers together. So a
  worker that has finished a check never blocks on the results channel.\<close>

theorem link_check_limits:
  assumes "lc_reachable config supportsBatch s"
  defines "cfg \<equiv> normalize_queue_config config"
  shows "int (length (filter (on_platform p) (sy_running s))) \<le> qc_PlatformLimit cfg
       \<and> ps_inUse (platform_state (sy_q s) p) = int (length (filter (on_platform p) (sy_running s)))
       \<and> (ps_halfOpen (platform_state (sy_q s) p) \<longrightarrow> length (filter (on_platform p) (sy_running s)) = 1)
       \<and> int (length (sy_running s) + length (sy_sending s)) \<le> qc_Workers cfg
       \<and> int (length (q_queued (sy_q s))) \<le> qc_Buffer cfg + qc_Workers cfg
       \<and> (sy_sending s \<noteq> [] \<longrightarrow> int (length (q_results (sy_q s))) < results_capacity (sy_q s))"
proof -
  from lc_machine.reachable_inv [OF assms(1)] have i: "inv_ids s" "inv_workers cfg s" "inv_use cfg s"
    by (simp_all add: lc_inv_def cfg_def)
  from i(1) have "length (q_queued (sy_q s)) = length (item_ids s)" unfolding inv_ids_def by (metis size_mset)
  then have "length (q_results (sy_q s)) + length (sy_sending s) \<le> length (q_queued (sy_q s))"
    by (simp add: item_ids_def)
  moreover have "sy_sending s \<noteq> [] \<longrightarrow> 1 \<le> length (sy_sending s)" by (cases "sy_sending s") simp_all
  moreover from i(3) have "state_ok cfg (int (length (filter (on_platform p) (sy_running s)))) (platform_state (sy_q s) p)"
    unfolding inv_use_state by blast
  ultimately show ?thesis using i(2) by (auto simp: inv_workers_def results_capacity_def state_ok_def)
qed

theorem link_check_limits_witness:
  "ps_inUse (platform_state (sy_q demo_system) ''quark'') = 1
   \<and> ps_inUse (platform_state (sy_q demo_system) ''quark'') \<le> qc_PlatformLimit (normalize_queue_config DefaultLinkCheckQueueConfig)"
proof -
  have "length (filter (on_platform ''quark'') (sy_running demo_system)) = 1" by code_simp
  with link_check_limits [OF demo_system_reachable, of "''quark''"] show ?thesis by simp
qed

text \<open>No wake-up is lost: as long as the queue is not cancelled, whenever a platform with a closed
  circuit has a waiting candidate and a free place, a worker is awake or a wake-up is pending that the
  next waiting worker takes.\<close>

theorem link_check_no_lost_wakeup:
  assumes "lc_reachable config supportsBatch s" and "\<not> sy_cancelled s" and "work_ready (sy_q s)"
  shows "q_wake (sy_q s) \<or> 0 < sy_awake s"
  using lc_machine.reachable_inv [OF assms(1)] assms(2,3) by (simp add: lc_inv_def inv_wake_def)

theorem link_check_no_lost_wakeup_witness:
  "work_ready (sy_q demo_waiting) \<and> (q_wake (sy_q demo_waiting) \<or> 0 < sy_awake demo_waiting)"
proof -
  have ready: "work_ready (sy_q demo_waiting)" by code_simp
  have "\<not> sy_cancelled demo_waiting" by (simp add: demo_waiting_def demo_system_def)
  with ready link_check_no_lost_wakeup [OF demo_waiting_reachable] show ?thesis by simp
qed

section \<open>Round robin\<close>

lemma cyclic_nth: "k < n \<Longrightarrow> cyclic_from cursor n ! k = (cursor + k) mod n"
  by (simp add: cyclic_from_def)

lemma cyclic_first:
  assumes "cyclic_from cursor n = pre @ index # post" and "\<forall>j\<in>set pre. \<not> P j"
  obtains k where "k < n" "index = (cursor + k) mod n" "\<forall>j<k. \<not> P ((cursor + j) mod n)"
proof
  have n: "length (cyclic_from cursor n) = n" by (simp add: cyclic_from_def)
  then show k: "length pre < n" unfolding assms(1) by simp
  show "index = (cursor + length pre) mod n"
    using cyclic_nth [OF k, of cursor] unfolding assms(1) by simp
  show "\<forall>j<length pre. \<not> P ((cursor + j) mod n)"
  proof (intro allI impI)
    fix j assume j: "j < length pre"
    with cyclic_nth [of j n cursor] k have "(cursor + j) mod n = pre ! j" unfolding assms(1) by (simp add: nth_append)
    with assms(2) j show "\<not> P ((cursor + j) mod n)" by simp
  qed
qed

text \<open>A pass of \<open>claimNext\<close> takes the oldest candidate of the first platform, in cyclic order from
  the cursor, that may run one, and moves the cursor behind that platform; every other platform that
  could have been chosen comes strictly nearer to the cursor, so it is passed over at most as many times
  as there are platforms. A pass claims nothing exactly when no platform may run a candidate.\<close>

theorem claim_round_robin:
  "case claimNext now q of
     (q', Inr c) \<Rightarrow>
       \<exists>k<length (q_platformOrder q). let n = length (q_platformOrder q); index = (q_platformCursor q + k) mod n;
           p = q_platformOrder q ! index
         in eligible now q index \<and> (\<forall>j<k. \<not> eligible now q ((q_platformCursor q + j) mod n))
            \<and> pending_of q = (pending_of q')(p := c # pending_of q' p)
            \<and> (\<forall>d<n. eligible now q ((q_platformCursor q + d) mod n) \<and> d \<noteq> k \<longrightarrow>
                 (\<exists>d'<d. (q_platformCursor q' + d') mod n = (q_platformCursor q + d) mod n))
   | (q', Inl nextProbe) \<Rightarrow> \<forall>index<length (q_platformOrder q). \<not> eligible now q index"
proof (cases "claimNext now q")
  case (Pair q' r)
  show ?thesis
  proof (cases r)
    case (Inl np)
    with Pair claimNext_none(2) show ?thesis by auto
  next
    case (Inr c)
    let ?n = "length (q_platformOrder q)" and ?cur = "q_platformCursor q"
    from claim_loop_spec [where now = now and np = 0 and q = q and idxs = "cyclic_from ?cur ?n"] Pair Inr
    obtain pre index post where split: "cyclic_from ?cur ?n = pre @ index # post" "\<forall>j\<in>set pre. \<not> eligible now q j"
      and c: "claims now index q c q'" by (auto simp: claimNext_def)
    from cyclic_first [OF split] obtain k where k: "k < ?n" "index = (?cur + k) mod ?n"
      "\<forall>j<k. \<not> eligible now q ((?cur + j) mod ?n)" .
    have "\<exists>d'<d. (q_platformCursor q' + d') mod ?n = (?cur + d) mod ?n"
      if d: "eligible now q ((?cur + d) mod ?n)" "d \<noteq> k" for d
    proof -
      from d k(3) have "k < d" by (metis linorder_neqE_nat)
      then obtain e where e: "d = Suc (k + e)" using less_imp_Suc_add by blast
      moreover have "q_platformCursor q' = (index + 1) mod ?n" using c by (auto simp: claims_def Let_def)
      ultimately have "(q_platformCursor q' + e) mod ?n = (?cur + d) mod ?n"
        unfolding k(2) by (simp add: mod_simps add.assoc)
      with e show ?thesis by (intro exI [of _ e]) simp
    qed
    moreover have "eligible now q index" and "pending_of q = (pending_of q')(q_platformOrder q ! index := c # pending_of q' (q_platformOrder q ! index))"
      using c by (auto simp: claims_def eligible_def Let_def fun_eq_iff)
    ultimately show ?thesis using k Pair Inr by (simp add: Let_def) (rule exI [of _ k], blast)
  qed
qed

theorem claim_round_robin_witness:
  "snd (claimNext 100 demo_enqueued) = Inr (demo_candidate\<lparr>lc_Platform := ''quark''\<rparr>)
   \<and> (case claimNext 100 demo_claimed of (q', Inr c) \<Rightarrow> False | (q', Inl nextProbe) \<Rightarrow> \<not> eligible 100 demo_claimed 0)"
proof
  show "snd (claimNext 100 demo_enqueued) = Inr (demo_candidate\<lparr>lc_Platform := ''quark''\<rparr>)" by code_simp
  have "isl (snd (claimNext 100 demo_claimed))" "0 < length (q_platformOrder demo_claimed)" by code_simp+
  with claim_round_robin [of demo_claimed 100]
  show "case claimNext 100 demo_claimed of (q', Inr c) \<Rightarrow> False | (q', Inl nextProbe) \<Rightarrow> \<not> eligible 100 demo_claimed 0"
    by (auto split: prod.splits sum.splits)
qed

section \<open>Backlog samples and the estimated time\<close>

definition backlog_wf :: "LinkCheckQueue \<Rightarrow> bool" where
  "backlog_wf q \<longleftrightarrow> sorted_wrt (\<lambda>a b. bs_at a < bs_at b) (q_backlogSamples q)
     \<and> (\<forall>x\<in>set (q_backlogSamples q). 0 \<le> bs_dueCount x
          \<and> bs_policyRevision x = bs_policyRevision (last (q_backlogSamples q))
          \<and> bs_at (last (q_backlogSamples q)) - linkCheckMetricsWindow \<le> bs_at x)"

lemma dropWhile_sorted: "sorted_wrt R xs \<Longrightarrow> sorted_wrt R (dropWhile P xs)"
  by (induction xs) auto

lemma last_dropWhile: "dropWhile P xs \<noteq> [] \<Longrightarrow> last (dropWhile P xs) = last xs"
  by (induction xs) auto

lemma prune_backlog_wf: "backlog_wf q \<Longrightarrow> backlog_wf (pruneBacklogSamplesLocked now q)"
proof (cases "q_backlogSamples (pruneBacklogSamplesLocked now q) = []")
  case False
  assume wf: "backlog_wf q"
  from False have "last (q_backlogSamples (pruneBacklogSamplesLocked now q)) = last (q_backlogSamples q)"
    unfolding pruneBacklogSamplesLocked_def by (simp add: last_dropWhile)
  with wf show ?thesis
    by (auto simp: backlog_wf_def pruneBacklogSamplesLocked_def dropWhile_sorted dest: set_dropWhileD)
qed (simp add: backlog_wf_def)

text \<open>Pruning at the time of the last sample leaves only samples of the window before it.\<close>

lemma prune_window:
  assumes "sorted_wrt (\<lambda>a b. bs_at a < bs_at b) xs" and "x \<in> set (dropWhile (\<lambda>s. bs_at s < t) xs)"
  shows "t \<le> bs_at x"
  using assms by (induction xs) (auto split: if_splits)

lemma append_backlog_wf:
  assumes "sorted_wrt (\<lambda>a b. bs_at a < bs_at b) (xs @ [x])" and "0 \<le> bs_dueCount x"
    and "\<forall>y\<in>set xs. 0 \<le> bs_dueCount y \<and> bs_policyRevision y = bs_policyRevision x"
  shows "backlog_wf (pruneBacklogSamplesLocked (bs_at x) (q\<lparr>q_backlogSamples := xs @ [x]\<rparr>))"
proof -
  let ?kept = "dropWhile (\<lambda>s. bs_at s < bs_at x - linkCheckMetricsWindow) (xs @ [x])"
  have "0 < linkCheckMetricsWindow" by (simp add: linkCheckMetricsWindow_def duration_defs)
  then have "last ?kept = x" by (simp add: dropWhile_append last_dropWhile)
  moreover have "0 \<le> bs_dueCount y \<and> bs_policyRevision y = bs_policyRevision x \<and> bs_at x - linkCheckMetricsWindow \<le> bs_at y"
    if "y \<in> set ?kept" for y
    using that assms(2,3) prune_window [OF assms(1) that] set_dropWhileD [OF that] by auto
  ultimately show ?thesis
    by (simp add: backlog_wf_def pruneBacklogSamplesLocked_def dropWhile_sorted [OF assms(1)])
qed

lemma observe_backlog_wf:
  assumes "backlog_wf q"
  shows "backlog_wf (ObserveBacklog now dueCount observed revision q)"
proof -
  define due where "due = (if dueCount < 0 then 0 else dueCount)"
  define t where "t = (if is_zero_time observed then now else observed)"
  define xs where "xs = (if q_backlogSamples q \<noteq> [] \<and> revision \<noteq> bs_policyRevision (last (q_backlogSamples q)) then []
    else q_backlogSamples q)"
  have due: "0 \<le> due" by (simp add: due_def)
  from assms have sorted: "sorted_wrt (\<lambda>a b. bs_at a < bs_at b) xs" unfolding backlog_wf_def xs_def by simp
  have ok: "0 \<le> bs_dueCount y \<and> bs_policyRevision y = revision" if "y \<in> set xs" for y
  proof -
    from that have y: "y \<in> set (q_backlogSamples q)" "revision = bs_policyRevision (last (q_backlogSamples q))"
      by (auto simp: xs_def split: if_splits)
    with assms show ?thesis unfolding backlog_wf_def y(2) by blast
  qed
  have sub: "xs \<noteq> [] \<Longrightarrow> q_backlogSamples q = xs" by (simp add: xs_def split: if_splits)
  have def: "ObserveBacklog now dueCount observed revision q =
      (if q_backlogSamples q \<noteq> [] \<and> t < bs_at (last (q_backlogSamples q)) then q
       else if xs \<noteq> [] \<and> t = bs_at (last xs)
            then pruneBacklogSamplesLocked t (q\<lparr>q_backlogSamples := butlast xs @ [(last xs)\<lparr>bs_dueCount := due\<rparr>]\<rparr>)
            else pruneBacklogSamplesLocked t (q\<lparr>q_backlogSamples := xs @ [\<lparr>bs_at = t, bs_dueCount = due, bs_policyRevision = revision\<rparr>]\<rparr>))"
    unfolding ObserveBacklog_def Let_def due_def t_def xs_def by simp
  consider (old) "q_backlogSamples q \<noteq> []" "t < bs_at (last (q_backlogSamples q))"
    | (same) "xs \<noteq> []" "t = bs_at (last xs)" "\<not> (q_backlogSamples q \<noteq> [] \<and> t < bs_at (last (q_backlogSamples q)))"
    | (new) "xs = [] \<or> bs_at (last xs) < t" "\<not> (q_backlogSamples q \<noteq> [] \<and> t < bs_at (last (q_backlogSamples q)))"
      "\<not> (xs \<noteq> [] \<and> t = bs_at (last xs))"
    using sub by (cases "xs = []"; cases "t = bs_at (last xs)") force+
  then show ?thesis
  proof cases
    case old
    with assms show ?thesis unfolding def by simp
  next
    case same
    let ?x = "(last xs)\<lparr>bs_dueCount := due\<rparr>"
    from same(1) sorted ok have split: "sorted_wrt (\<lambda>a b. bs_at a < bs_at b) (butlast xs @ [last xs])"
      "\<forall>y\<in>set (butlast xs). 0 \<le> bs_dueCount y \<and> bs_policyRevision y = bs_policyRevision ?x"
      by (auto dest: in_set_butlastD)
    then have "sorted_wrt (\<lambda>a b. bs_at a < bs_at b) (butlast xs @ [?x])" by (simp add: sorted_wrt_append)
    from append_backlog_wf [OF this _ split(2), of q] due same show ?thesis unfolding def by auto
  next
    case new
    let ?x = "\<lparr>bs_at = t, bs_dueCount = due, bs_policyRevision = revision\<rparr>"
    have "bs_at y < t" if "y \<in> set xs" for y
    proof -
      from that sorted have "bs_at y \<le> bs_at (last xs)"
        by (cases xs rule: rev_cases) (auto simp: sorted_wrt_append)
      with that new(1) show ?thesis by auto
    qed
    with sorted have "sorted_wrt (\<lambda>a b. bs_at a < bs_at b) (xs @ [?x])" by (simp add: sorted_wrt_append)
    from append_backlog_wf [OF this, of q] due ok new show ?thesis unfolding def by auto
  qed
qed

lemma snapshot_samples:
  "q_backlogSamples (fst (lc_Snapshot now q)) = q_backlogSamples (pruneBacklogSamplesLocked now q)"
  by (simp add: lc_Snapshot_def pruneBacklogSamplesLocked_def pruneCompletionMetricsLocked_def Let_def)

lemma samples_wf: "q_backlogSamples q' = q_backlogSamples q \<Longrightarrow> backlog_wf q \<Longrightarrow> backlog_wf q'"
  by (simp add: backlog_wf_def)

lemma step_backlog: "lc_step b s s' \<Longrightarrow> backlog_wf (sy_q s) \<Longrightarrow> backlog_wf (sy_q s')"
proof (induction rule: lc_step.induct)
  case (start now s q)
  then show ?case by (auto simp: lc_Start_def backlog_wf_def split: if_splits)
next
  case (observe s now due obs revision)
  then show ?case by (simp add: observe_backlog_wf)
next
  case (snapshot s now)
  then show ?case using samples_wf [OF snapshot_samples prune_backlog_wf] by simp
next
  case (claim s n now q candidate)
  from claim(3) obtain index where "claims now index (sy_q s) candidate q" by (rule claimNext_claims)
  then have "q_backlogSamples q = q_backlogSamples (sy_q s)" by (auto simp: claims_def Let_def)
  with claim(4) show ?case by (simp add: samples_wf)
next
  case (pass s n now q np)
  from claimNext_none(1) [OF pass(3)] have "q_backlogSamples q = q_backlogSamples (sy_q s)" by (auto simp: touched_def)
  with pass(4) show ?case by (simp add: samples_wf)
next
  case (enqueue candidate s q)
  from enqueue(1) enqueue(2) show ?case by (cases rule: enqueue_cases) (auto intro: samples_wf [rotated])
next
  case (finalize s c failed rest now)
  then show ?case using finalize_view [of now c failed "sy_q s"] by (auto intro: samples_wf [rotated])
qed (auto simp: lc_Stop_def finishStop_def releasePlatform_def writer_receive_def discard_view Let_def
    intro: samples_wf [rotated] split: if_splits)

interpretation backlog_machine: invariant_machine "lc_init config" "lc_step b" "\<lambda>s. backlog_wf (sy_q s)"
proof
  show "backlog_wf (sy_q s)" if "lc_init config s" for s
    using that by (simp add: lc_init_def NewLinkCheckQueue_def backlog_wf_def)
qed (rule step_backlog)

lemma first_not_after_last:
  "sorted_wrt (\<lambda>a b. bs_at a < bs_at b) xs \<Longrightarrow> xs \<noteq> [] \<Longrightarrow> bs_at (hd xs) \<le> bs_at (last xs)"
  by (cases xs) (auto intro: less_imp_le)

lemma eta_ceiling:
  assumes d: "0 < d" and w: "0 < w" and L: "0 < L"
  defines "e \<equiv> \<lceil>of_int L / (of_int d / minutes w) * 60 :: rat\<rceil>"
  shows "L * w \<le> e * (d * Second) \<and> (e - 1) * (d * Second) < L * w"
proof -
  let ?x = "of_int (L * w) / of_int (d * Second) :: rat"
  have "0 < d * Second" using d by (simp add: duration_defs)
  then have pos: "0 < (of_int (d * Second) :: rat)" by (simp only: of_int_0_less_iff)
  have "of_int L / (of_int d / minutes w) * 60 = ?x"
    using d w by (simp add: minutes_def Minute_def Second_def field_simps)
  then have e: "e = \<lceil>?x\<rceil>" by (simp add: e_def)
  have "?x \<le> of_int e" unfolding e by (rule le_of_int_ceiling)
  then have "of_int (L * w) \<le> (of_int e * of_int (d * Second) :: rat)" by (simp only: pos_divide_le_eq [OF pos])
  then have "of_int (L * w) \<le> (of_int (e * (d * Second)) :: rat)" by (simp only: of_int_mult)
  moreover have "of_int e - 1 < ?x" unfolding e using ceiling_correct [of ?x] by simp
  then have "(of_int e - 1) * of_int (d * Second) < (of_int (L * w) :: rat)" by (simp only: pos_less_divide_eq [OF pos])
  then have "of_int ((e - 1) * (d * Second)) < (of_int (L * w) :: rat)" by (simp only: of_int_mult of_int_diff of_int_1)
  ultimately show ?thesis unfolding of_int_le_iff of_int_less_iff by blast
qed

lemma eta_available:
  assumes "sn_ETAState (eta_snapshot oldest latest sn) = ETAAvailable" and "sn_ETAState sn \<noteq> ETAAvailable"
    and "bs_at oldest \<le> bs_at latest" and "0 \<le> bs_dueCount latest"
  shows "sn_ETASeconds (eta_snapshot oldest latest sn) =
      Some \<lceil>of_int (bs_dueCount latest) / (of_int (bs_dueCount oldest - bs_dueCount latest) / minutes (bs_at latest - bs_at oldest)) * 60\<rceil>
    \<and> Minute \<le> bs_at latest - bs_at oldest \<and> 0 < bs_dueCount oldest - bs_dueCount latest \<and> 0 < bs_dueCount latest"
  using assms by (auto simp: eta_snapshot_def Let_def linkCheckETAMinimumWindow_def max_def split: if_splits)

text \<open>The backlog samples the queue keeps are in strictly increasing order of time, all from the same
  policy revision and from the five minutes before the latest one. When the snapshot gives an estimated
  time, the backlog has shrunk over at least a minute, and the estimate is the least number of whole
  seconds after which, at the observed rate, nothing is left.\<close>

theorem backlog_estimate:
  assumes "lc_reachable config supportsBatch s" and snap: "lc_Snapshot now (sy_q s) = (q, sn)"
  shows "sorted_wrt (\<lambda>a b. bs_at a < bs_at b) (q_backlogSamples q)
       \<and> (\<forall>x\<in>set (q_backlogSamples q). bs_policyRevision x = bs_policyRevision (last (q_backlogSamples q))
            \<and> bs_at (last (q_backlogSamples q)) - linkCheckMetricsWindow \<le> bs_at x)
       \<and> (sn_ETAState sn = ETAAvailable \<longrightarrow>
            (\<exists>e. sn_ETASeconds sn = Some e
              \<and> (let oldest = hd (q_backlogSamples q); latest = last (q_backlogSamples q);
                     window = bs_at latest - bs_at oldest; drained = bs_dueCount oldest - bs_dueCount latest
                 in Minute \<le> window \<and> 0 < drained \<and> 0 < bs_dueCount latest
                    \<and> bs_dueCount latest * window \<le> e * (drained * Second)
                    \<and> (e - 1) * (drained * Second) < bs_dueCount latest * window)))"
proof -
  have q: "q_backlogSamples q = q_backlogSamples (pruneBacklogSamplesLocked now (sy_q s))"
    using snapshot_samples [of now "sy_q s"] snap by simp
  from prune_backlog_wf [OF backlog_machine.reachable_inv [OF assms(1)]] have wf: "backlog_wf q"
    by (rule samples_wf [OF q])
  let ?old = "hd (q_backlogSamples q)" and ?new = "last (q_backlogSamples q)"
  have "\<exists>e. sn_ETASeconds sn = Some e \<and> Minute \<le> bs_at ?new - bs_at ?old \<and> 0 < bs_dueCount ?old - bs_dueCount ?new
      \<and> 0 < bs_dueCount ?new \<and> bs_dueCount ?new * (bs_at ?new - bs_at ?old) \<le> e * ((bs_dueCount ?old - bs_dueCount ?new) * Second)
      \<and> (e - 1) * ((bs_dueCount ?old - bs_dueCount ?new) * Second) < bs_dueCount ?new * (bs_at ?new - bs_at ?old)"
    if eta: "sn_ETAState sn = ETAAvailable"
  proof -
    have "0 < Minute" by (simp add: duration_defs)
    from snap eta have ne: "q_backlogSamples q \<noteq> []" and sn: "sn = eta_snapshot ?old ?new (base_snapshot q now)"
      by (auto simp: lc_Snapshot_def Let_def base_snapshot_def split: if_splits)
    from wf ne have "bs_at ?old \<le> bs_at ?new" unfolding backlog_wf_def by (intro first_not_after_last) blast+
    moreover from wf last_in_set [OF ne] have "0 \<le> bs_dueCount ?new" unfolding backlog_wf_def by blast
    ultimately have old_new: "bs_at ?old \<le> bs_at ?new" "0 \<le> bs_dueCount ?new" .
    from eta_available [OF _ _ old_new, of "base_snapshot q now"] eta sn
    have a: "sn_ETASeconds sn = Some \<lceil>of_int (bs_dueCount ?new) / (of_int (bs_dueCount ?old - bs_dueCount ?new) / minutes (bs_at ?new - bs_at ?old)) * 60 :: rat\<rceil>"
      "Minute \<le> bs_at ?new - bs_at ?old" "0 < bs_dueCount ?old - bs_dueCount ?new" "0 < bs_dueCount ?new"
      by (simp_all add: base_snapshot_def Let_def split: if_splits)
    with eta_ceiling [OF a(3) _ a(4), of "bs_at ?new - bs_at ?old"] \<open>0 < Minute\<close> show ?thesis by auto
  qed
  moreover from wf have "sorted_wrt (\<lambda>a b. bs_at a < bs_at b) (q_backlogSamples q)"
      "\<forall>x\<in>set (q_backlogSamples q). bs_policyRevision x = bs_policyRevision ?new \<and> bs_at ?new - linkCheckMetricsWindow \<le> bs_at x"
    unfolding backlog_wf_def by blast+
  ultimately show ?thesis unfolding Let_def by blast
qed

definition demo_observed :: LinkCheckQueue where
  "demo_observed = ObserveBacklog 0 40 (Hour + 2 * Minute) ''r1'' (ObserveBacklog 0 100 Hour ''r1'' demo_enqueued)"

lemma demo_observed_reachable: "lc_reachable DefaultLinkCheckQueueConfig True (demo_waiting\<lparr>sy_q := demo_observed\<rparr>)"
proof -
  have observed: "lc_reachable DefaultLinkCheckQueueConfig True (s\<lparr>sy_q := ObserveBacklog now due t revision (sy_q s)\<rparr>)"
    if "lc_reachable DefaultLinkCheckQueueConfig True s" for s now due t revision
    using that lc_step.observe by (rule reach_step)
  have "sy_q demo_waiting = demo_enqueued" by (simp add: demo_waiting_def)
  with observed [OF observed [OF demo_waiting_reachable, of 0 100 Hour "''r1''"], of 0 40 "Hour + 2 * Minute" "''r1''"]
  show ?thesis by (simp add: demo_observed_def)
qed

theorem backlog_estimate_witness:
  "sn_ETASeconds (snd (lc_Snapshot (Hour + 2 * Minute) demo_observed)) = Some 80
   \<and> sorted_wrt (\<lambda>a b. bs_at a < bs_at b) (q_backlogSamples (fst (lc_Snapshot (Hour + 2 * Minute) demo_observed)))"
proof
  show "sn_ETASeconds (snd (lc_Snapshot (Hour + 2 * Minute) demo_observed)) = Some 80" by code_simp
  show "sorted_wrt (\<lambda>a b. bs_at a < bs_at b) (q_backlogSamples (fst (lc_Snapshot (Hour + 2 * Minute) demo_observed)))"
    using backlog_estimate [OF demo_observed_reachable, of "Hour + 2 * Minute"] by (simp add: prod_eq_iff)
qed

text \<open>A platform that fails \<open>n\<close> times in a row.\<close>

fun fail_times :: "LinkCheckQueueConfig \<Rightarrow> time \<Rightarrow> nat \<Rightarrow> linkCheckPlatformState \<Rightarrow> linkCheckPlatformState" where
  "fail_times config now 0 st = st"
| "fail_times config now (Suc n) st = release_state config now True (fail_times config now n st)"

lemma fail_times_closed:
  "int n < qc_CircuitFailures config \<Longrightarrow>
   fail_times config now n new_platform_state = new_platform_state\<lparr>ps_failStreak := int n\<rparr>"
  by (induction n) (auto simp: release_state_def new_platform_state_def Let_def)

text \<open>C25: While the circuit of a platform is open nothing is claimed there before its deadline, and any
  number of passes after it start at most one probe; a failed probe opens the circuit again for the
  whole cooldown, a finished check without such a failure closes it, and from a fresh state the circuit
  opens exactly at the configured number of failures in a row.\<close>

theorem platform_circuit:
  assumes opened: "ps_circuitUntil st \<noteq> 0"
  shows "admissions (platform_admit limit) st ts \<le> 1
       \<and> ((\<forall>t\<in>set ts. t < ps_circuitUntil st) \<longrightarrow> admissions (platform_admit limit) st ts = 0)
       \<and> (ps_halfOpen st \<longrightarrow> ps_circuitUntil (release_state config now True st) = now + qc_CircuitCooldown config)
       \<and> ps_circuitUntil (release_state config now False st) = 0
       \<and> (\<forall>n. 0 < n \<and> 0 < now \<and> 0 < qc_CircuitCooldown config \<and> int n \<le> qc_CircuitFailures config \<longrightarrow>
            (ps_circuitUntil (fail_times config now n new_platform_state) \<noteq> 0 \<longleftrightarrow> int n = qc_CircuitFailures config))"
proof (intro conjI allI impI)
  show "admissions (platform_admit limit) st ts \<le> 1" by (rule platform_breaker.single_probe [OF opened])
  show "admissions (platform_admit limit) st ts = 0" if "\<forall>t\<in>set ts. t < ps_circuitUntil st"
    by (rule platform_breaker.early_admits_none [OF opened that])
  fix n assume n: "0 < n \<and> 0 < now \<and> 0 < qc_CircuitCooldown config \<and> int n \<le> qc_CircuitFailures config"
  then obtain m where m: "n = Suc m" "int m < qc_CircuitFailures config" by (cases n) auto
  with n fail_times_closed [OF m(2), of now]
  show "ps_circuitUntil (fail_times config now n new_platform_state) \<noteq> 0 \<longleftrightarrow> int n = qc_CircuitFailures config"
    by (simp add: release_state_def new_platform_state_def Let_def)
qed (simp_all add: release_state_def Let_def)

theorem platform_circuit_witness:
  "admissions (platform_admit 2) (new_platform_state\<lparr>ps_circuitUntil := 50\<rparr>) [10, 49] = 0
   \<and> admissions (platform_admit 2) (new_platform_state\<lparr>ps_circuitUntil := 50\<rparr>) [10, 50, 60, 70] = 1"
proof
  have opened: "ps_circuitUntil (new_platform_state\<lparr>ps_circuitUntil := 50\<rparr>) \<noteq> 0" by simp
  show "admissions (platform_admit 2) (new_platform_state\<lparr>ps_circuitUntil := 50\<rparr>) [10, 49] = 0"
    using platform_circuit [OF opened, of 2 "[10, 49]"] by simp
qed code_simp

end
