(* ===== verification/Proxy_Pool.thy ===== *)
theory Proxy_Pool
  imports Complex_Main Go_Prelude
begin

text \<open>
  The proxy pool of \<^verbatim>\<open>src/proxypool\<close>: selection strategies (\<^verbatim>\<open>selector.go\<close>), cooldowns and sticky
  assignments (\<^verbatim>\<open>runtime_state.go\<close>) and the leases of \<open>Service\<close> (\<^verbatim>\<open>service.go\<close>).

  Every operation runs under the mutex of the service and is one function on the record
  \<open>ProxyService\<close>. The maps of nodes and of sticky entries are association lists; the order in which Go
  iterates them is an argument. Decrypting the URL of a node and the random draw of the jitter are
  arguments. Scores are rational numbers where the code has doubles.
\<close>

section \<open>Model: data\<close>

record ProxyNode =
  pn_ID :: int
  pn_Enabled :: bool
  pn_Status :: string
  pn_LatencyMS :: int
  pn_SuccessCount :: int
  pn_FailureCount :: int
  pn_ConsecutiveFailure :: int
  pn_CooldownUntil :: "time option"
  pn_ExpiresAt :: time

record runtimeTarget =
  rt_successCount :: int
  rt_failureCount :: int
  rt_latencyMS :: int
  rt_consecutiveFailure :: int
  rt_cooldownUntil :: time

record runtimeProxy =
  rp_node :: ProxyNode
  rp_url :: string
  rp_inflight :: int
  rp_targets :: "string \<rightharpoonup> runtimeTarget"

record stickyEntry =
  st_nodeID :: int
  st_expiresAt :: time
  st_lastUsed :: time

record PoolConfig =
  pc_Enabled :: bool
  pc_FailureThreshold :: int
  pc_Cooldown :: duration
  pc_CooldownMax :: duration
  pc_CooldownJitter :: duration
  pc_MaxHotNodes :: int
  pc_MaxPerNode :: int
  pc_MaxAttempts :: int
  pc_StickyTTL :: duration
  pc_StickyMaxEntries :: int
  pc_SelectionStrategy :: string

datatype proxySelector = LeastScore | RoundRobin "(string \<times> int) list" | FillFirst

record ProxyService =
  sv_cfg :: PoolConfig
  sv_nodes :: "(int \<times> runtimeProxy) list"
  sv_sticky :: "(string \<times> stickyEntry) list"
  sv_policies :: "string \<rightharpoonup> string"
  sv_selector :: proxySelector
  sv_inUse :: int
  sv_lastStickyCleanup :: time

record ProxyRequest =
  pr_TargetType :: string
  pr_TargetKey :: string
  pr_StickyKey :: string
  pr_ExcludeIDs :: "int list"

record ProxyOutcome =
  po_Success :: bool
  po_FailureScope :: string
  po_RetryAfter :: duration
  po_Latency :: duration

record Lease =
  le_nodeID :: int
  le_target :: string
  le_url :: string
  le_started :: time

record ProxyOutcomeRecord =
  or_ProxyID :: int
  or_TargetKey :: string
  or_Success :: bool
  or_FailureScope :: string
  or_Latency :: duration
  or_ConsecutiveFailures :: int
  or_CooldownUntil :: "time option"
  or_TargetConsecutiveFailure :: int
  or_TargetCooldownUntil :: "time option"

record ProxyTargetStat =
  ts_ProxyID :: int
  ts_TargetKey :: string
  ts_SuccessCount :: int
  ts_FailureCount :: int
  ts_LatencyMS :: int
  ts_ConsecutiveFailure :: int
  ts_CooldownUntil :: "time option"

record ProxyPolicy =
  pp_TargetType :: string
  pp_TargetKey :: string
  pp_Mode :: string

datatype pool_error = ErrDisabled | ErrNoProxy | ErrContext | ErrInvalid

section \<open>Model: selection\<close>

definition proxyScore :: "runtimeProxy \<Rightarrow> string \<Rightarrow> rat" where
  "proxyScore node target =
     (let latency = (if pn_LatencyMS (rp_node node) \<le> 0 then 5000 else pn_LatencyMS (rp_node node));
          total = pn_SuccessCount (rp_node node) + pn_FailureCount (rp_node node);
          successRate = (if total > 0 then of_int (pn_SuccessCount (rp_node node) + 1) / of_int (total + 2) else 7 / 10);
          (latency, successRate) =
            (case rp_targets node target of
               None \<Rightarrow> (latency, successRate)
             | Some ts \<Rightarrow>
                 let targetTotal = rt_successCount ts + rt_failureCount ts
                 in if targetTotal > 0
                    then (if rt_latencyMS ts > 0 then rt_latencyMS ts else latency,
                          of_int (rt_successCount ts + 1) / of_int (targetTotal + 2))
                    else (latency, successRate))
      in of_int latency * of_int (rp_inflight node + 1) / successRate)"

fun least_score_loop :: "string \<Rightarrow> runtimeProxy \<Rightarrow> runtimeProxy list \<Rightarrow> runtimeProxy" where
  "least_score_loop target selected [] = selected"
| "least_score_loop target selected (c # cs) =
     least_score_loop target
       (if proxyScore c target < proxyScore selected target
           \<or> (proxyScore c target = proxyScore selected target \<and> pn_ID (rp_node c) < pn_ID (rp_node selected))
        then c else selected) cs"

fun fill_first_loop :: "runtimeProxy \<Rightarrow> runtimeProxy list \<Rightarrow> runtimeProxy" where
  "fill_first_loop selected [] = selected"
| "fill_first_loop selected (c # cs) =
     fill_first_loop (if pn_ID (rp_node c) < pn_ID (rp_node selected) then c else selected) cs"

definition cursor_of :: "(string \<times> int) list \<Rightarrow> string \<Rightarrow> int" where
  "cursor_of cursors target = (case map_of cursors target of None \<Rightarrow> 0 | Some i \<Rightarrow> i)"

fun Pick :: "proxySelector \<Rightarrow> string \<Rightarrow> runtimeProxy list \<Rightarrow> runtimeProxy option \<times> proxySelector" where
  "Pick LeastScore target candidates =
     (case candidates of [] \<Rightarrow> None | c # cs \<Rightarrow> Some (least_score_loop target c cs), LeastScore)"
| "Pick (RoundRobin cursors) target candidates =
     (if candidates = [] then (None, RoundRobin cursors)
      else let candidates = sort_key (\<lambda>c. pn_ID (rp_node c)) candidates;
               cursors = (if length cursors \<ge> 4096 then [] else cursors);
               index = cursor_of cursors target
           in (Some (candidates ! nat (index mod int (length candidates))),
               RoundRobin (AList.update target (index + 1) cursors)))"
| "Pick FillFirst target candidates =
     (case candidates of [] \<Rightarrow> None | c # cs \<Rightarrow> Some (fill_first_loop c cs), FillFirst)"

definition newProxySelector :: "string \<Rightarrow> proxySelector" where
  "newProxySelector strategy =
     (if fold_key strategy = ''round_robin'' then RoundRobin []
      else if fold_key strategy = ''fill_first'' then FillFirst
      else LeastScore)"

section \<open>Model: construction\<close>

definition DefaultConfig :: PoolConfig where
  "DefaultConfig =
     \<lparr>pc_Enabled = False, pc_FailureThreshold = 3, pc_Cooldown = 5 * Minute, pc_CooldownMax = 30 * Minute,
      pc_CooldownJitter = 30 * Second, pc_MaxHotNodes = 1000, pc_MaxPerNode = 2, pc_MaxAttempts = 3,
      pc_StickyTTL = Hour, pc_StickyMaxEntries = 100000, pc_SelectionStrategy = ''least_score''\<rparr>"

definition normalize_pool_config :: "PoolConfig \<Rightarrow> PoolConfig" where
  "normalize_pool_config cfg =
     (let d = DefaultConfig;
          positive = (\<lambda>v dv. if v \<le> 0 then dv else v :: int);
          cooldown = positive (pc_Cooldown cfg) (pc_Cooldown d);
          cooldownMax = positive (pc_CooldownMax cfg) (pc_CooldownMax d)
      in cfg\<lparr>pc_FailureThreshold := positive (pc_FailureThreshold cfg) (pc_FailureThreshold d),
             pc_Cooldown := cooldown,
             pc_CooldownMax := (if cooldownMax < cooldown then cooldown else cooldownMax),
             pc_CooldownJitter := (if pc_CooldownJitter cfg < 0 then pc_CooldownJitter d else pc_CooldownJitter cfg),
             pc_MaxHotNodes := positive (pc_MaxHotNodes cfg) (pc_MaxHotNodes d),
             pc_MaxPerNode := positive (pc_MaxPerNode cfg) (pc_MaxPerNode d),
             pc_MaxAttempts := positive (pc_MaxAttempts cfg) (pc_MaxAttempts d),
             pc_StickyTTL := positive (pc_StickyTTL cfg) (pc_StickyTTL d),
             pc_StickyMaxEntries := positive (pc_StickyMaxEntries cfg) (pc_StickyMaxEntries d),
             pc_SelectionStrategy := (if trim_space (pc_SelectionStrategy cfg) = [] then pc_SelectionStrategy d
                                      else pc_SelectionStrategy cfg)\<rparr>)"

definition NewService :: "PoolConfig \<Rightarrow> ProxyService" where
  "NewService cfg =
     (let cfg = normalize_pool_config cfg
      in \<lparr>sv_cfg = cfg, sv_nodes = [], sv_sticky = [], sv_policies = Map.empty,
          sv_selector = newProxySelector (pc_SelectionStrategy cfg), sv_inUse = 0, sv_lastStickyCleanup = 0\<rparr>)"

definition MaxAttempts :: "ProxyService \<Rightarrow> int" where
  "MaxAttempts s = (if pc_MaxAttempts (sv_cfg s) \<le> 0 then 1 else pc_MaxAttempts (sv_cfg s))"

section \<open>Model: cooldowns\<close>

text \<open>\<open>draw n\<close> is \<open>rand.Int63n(n)\<close>, a number from \<open>0\<close> to \<open>n - 1\<close>.\<close>

definition jitter :: "(int \<Rightarrow> int) \<Rightarrow> duration \<Rightarrow> duration \<Rightarrow> duration" where
  "jitter draw wait maxJitter =
     (if wait \<le> 0 \<or> maxJitter \<le> 0 then wait
      else let tenPercent = wait div 10;
               bound = (if tenPercent > 0 \<and> maxJitter > tenPercent then tenPercent else maxJitter)
           in if bound \<le> 0 then wait else wait + draw (bound + 1))"

fun cooldown_loop :: "duration \<Rightarrow> nat \<Rightarrow> duration \<Rightarrow> duration" where
  "cooldown_loop cooldownMax 0 wait = wait"
| "cooldown_loop cooldownMax (Suc level) wait =
     (if wait < cooldownMax
      then if wait > cooldownMax div 2 then cooldownMax else cooldown_loop cooldownMax level (wait * 2)
      else wait)"

definition failureCooldown :: "(int \<Rightarrow> int) \<Rightarrow> PoolConfig \<Rightarrow> int \<Rightarrow> duration" where
  "failureCooldown draw cfg consecutive =
     (if consecutive < pc_FailureThreshold cfg then 0
      else let wait = cooldown_loop (pc_CooldownMax cfg) (nat (consecutive - pc_FailureThreshold cfg)) (pc_Cooldown cfg);
               wait = min wait (pc_CooldownMax cfg);
               wait = jitter draw wait (pc_CooldownJitter cfg)
           in min wait (pc_CooldownMax cfg))"

definition nextFailureState :: "(int \<Rightarrow> int) \<Rightarrow> PoolConfig \<Rightarrow> int \<Rightarrow> time option \<Rightarrow> duration \<Rightarrow> time \<Rightarrow> int \<times> time option" where
  "nextFailureState draw cfg consecutive current retryAfter now =
     (case current of
        Some c \<Rightarrow>
          if c > now
          then (if retryAfter > c - now then (consecutive, Some (now + retryAfter)) else (consecutive, Some c))
          else let consecutive = consecutive + 1; wait = max (failureCooldown draw cfg consecutive) retryAfter
               in (consecutive, if wait \<le> 0 then None else Some (now + wait))
      | None \<Rightarrow>
          let consecutive = consecutive + 1; wait = max (failureCooldown draw cfg consecutive) retryAfter
          in (consecutive, if wait \<le> 0 then None else Some (now + wait)))"

definition timePointer :: "time \<Rightarrow> time option" where
  "timePointer t = (if is_zero_time t then None else Some t)"

definition nextTargetFailureState :: "(int \<Rightarrow> int) \<Rightarrow> PoolConfig \<Rightarrow> runtimeTarget \<Rightarrow> duration \<Rightarrow> time \<Rightarrow> int \<times> time" where
  "nextTargetFailureState draw cfg state retryAfter now =
     (let (consecutive, until) =
        nextFailureState draw cfg (rt_consecutiveFailure state) (timePointer (rt_cooldownUntil state)) retryAfter now
      in (consecutive, case until of None \<Rightarrow> 0 | Some t \<Rightarrow> t))"

section \<open>Model: availability and sticky entries\<close>

definition target_cooling :: "runtimeProxy \<Rightarrow> string \<Rightarrow> time \<Rightarrow> bool" where
  "target_cooling node target now \<longleftrightarrow>
     (case rp_targets node target of None \<Rightarrow> False | Some ts \<Rightarrow> rt_cooldownUntil ts > now)"

definition stickyNodeUsableLocked :: "runtimeProxy option \<Rightarrow> string \<Rightarrow> time \<Rightarrow> bool" where
  "stickyNodeUsableLocked node target now =
     (case node of
        None \<Rightarrow> False
      | Some p \<Rightarrow>
          pn_Enabled (rp_node p) \<and> pn_ExpiresAt (rp_node p) > now
          \<and> pn_Status (rp_node p) \<in> {''healthy'', ''cooling''}
          \<and> \<not> (case pn_CooldownUntil (rp_node p) of None \<Rightarrow> False | Some c \<Rightarrow> c > now)
          \<and> \<not> (pn_Status (rp_node p) = ''cooling'' \<and> pn_CooldownUntil (rp_node p) = None)
          \<and> \<not> target_cooling p target now)"

definition proxyAvailableLocked :: "PoolConfig \<Rightarrow> runtimeProxy option \<Rightarrow> string \<Rightarrow> int list \<Rightarrow> time \<Rightarrow> bool" where
  "proxyAvailableLocked cfg node target excluded now =
     (case node of
        None \<Rightarrow> False
      | Some p \<Rightarrow>
          pn_Enabled (rp_node p) \<and> pn_ExpiresAt (rp_node p) > now \<and> \<not> rp_inflight p \<ge> pc_MaxPerNode cfg
          \<and> pn_Status (rp_node p) \<in> {''healthy'', ''cooling''}
          \<and> \<not> (case pn_CooldownUntil (rp_node p) of None \<Rightarrow> False | Some c \<Rightarrow> c > now)
          \<and> \<not> (pn_Status (rp_node p) = ''cooling'' \<and> pn_CooldownUntil (rp_node p) = None)
          \<and> pn_ID (rp_node p) \<notin> set excluded
          \<and> \<not> target_cooling p target now)"

definition sticky_target :: "string \<Rightarrow> string" where
  "sticky_target key = takeWhile (\<lambda>c. c \<noteq> CHR 0x00) key"

definition sticky_live :: "ProxyService \<Rightarrow> time \<Rightarrow> string \<times> stickyEntry \<Rightarrow> bool" where
  "sticky_live s now ke \<longleftrightarrow>
     st_expiresAt (snd ke) > now
     \<and> stickyNodeUsableLocked (map_of (sv_nodes s) (st_nodeID (snd ke))) (sticky_target (fst ke)) now"

definition cleanup_interval :: "PoolConfig \<Rightarrow> duration" where
  "cleanup_interval cfg =
     (let halfTTL = go_div (pc_StickyTTL cfg) 2 in if halfTTL > 0 \<and> halfTTL < 5 * Minute then halfTTL else 5 * Minute)"

text \<open>\<open>order\<close> is the order in which the sticky map is iterated before the entries are sorted by use.\<close>

definition cleanupStickyLocked :: "((string \<times> stickyEntry) list \<Rightarrow> (string \<times> stickyEntry) list) \<Rightarrow> time \<Rightarrow> bool \<Rightarrow>
    ProxyService \<Rightarrow> ProxyService" where
  "cleanupStickyLocked order now force s =
     (if \<not> force \<and> int (length (sv_sticky s)) \<le> pc_StickyMaxEntries (sv_cfg s)
         \<and> \<not> is_zero_time (sv_lastStickyCleanup s) \<and> now - sv_lastStickyCleanup s < cleanup_interval (sv_cfg s)
      then s
      else let live = filter (sticky_live s now) (sv_sticky s);
               overflow = int (length live) - pc_StickyMaxEntries (sv_cfg s);
               oldest = map fst (take (nat overflow) (sort_key (\<lambda>ke. st_lastUsed (snd ke)) (order live)))
           in s\<lparr>sv_sticky := filter (\<lambda>ke. fst ke \<notin> set oldest) live, sv_lastStickyCleanup := now\<rparr>)"

definition invalidateStickyLocked :: "int \<Rightarrow> string \<Rightarrow> ProxyService \<Rightarrow> ProxyService" where
  "invalidateStickyLocked nodeID target s =
     s\<lparr>sv_sticky := filter (\<lambda>(key, entry). \<not> (st_nodeID entry = nodeID \<and> (target = [] \<or> has_prefix key (target @ [CHR 0x00]))))
                     (sv_sticky s)\<rparr>"

section \<open>Model: leases\<close>

record iteration =
  it_sticky :: "(string \<times> stickyEntry) list \<Rightarrow> (string \<times> stickyEntry) list"
  it_nodes :: "(int \<times> runtimeProxy) list \<Rightarrow> (int \<times> runtimeProxy) list"

definition request_target :: "ProxyRequest \<Rightarrow> string" where
  "request_target request = pr_TargetType request @ '':'' @ pr_TargetKey request"

definition sticky_key :: "ProxyRequest \<Rightarrow> string" where
  "sticky_key request = (if pr_StickyKey request = [] then [] else request_target request @ [CHR 0x00] @ pr_StickyKey request)"

text \<open>The sticky part of \<open>Acquire\<close>: the node of a live entry, whose times are renewed, or no node and no entry.\<close>

definition acquire_sticky :: "ProxyRequest \<Rightarrow> time \<Rightarrow> ProxyService \<Rightarrow> runtimeProxy option \<times> ProxyService" where
  "acquire_sticky request now s =
     (if pr_StickyKey request = [] then (None, s)
      else (case map_of (sv_sticky s) (sticky_key request) of
              None \<Rightarrow> (None, s)
            | Some entry \<Rightarrow>
                let candidate = map_of (sv_nodes s) (st_nodeID entry)
                in if st_expiresAt entry > now
                      \<and> proxyAvailableLocked (sv_cfg s) candidate (request_target request) (pr_ExcludeIDs request) now
                   then (candidate,
                         s\<lparr>sv_sticky := AList.update (sticky_key request)
                             (entry\<lparr>st_lastUsed := now, st_expiresAt := now + pc_StickyTTL (sv_cfg s)\<rparr>) (sv_sticky s)\<rparr>)
                   else (None, s\<lparr>sv_sticky := AList.delete (sticky_key request) (sv_sticky s)\<rparr>)))"

definition acquire_pick :: "iteration \<Rightarrow> ProxyRequest \<Rightarrow> time \<Rightarrow> ProxyService \<Rightarrow> runtimeProxy option \<times> ProxyService" where
  "acquire_pick it request now s =
     (let candidates = map snd (filter (\<lambda>(_, p).
            proxyAvailableLocked (sv_cfg s) (Some p) (request_target request) (pr_ExcludeIDs request) now) (it_nodes it (sv_nodes s)));
          (selected, selector) = Pick (sv_selector s) (request_target request) candidates
      in (selected, s\<lparr>sv_selector := selector\<rparr>))"

definition grant :: "ProxyRequest \<Rightarrow> time \<Rightarrow> runtimeProxy \<Rightarrow> ProxyService \<Rightarrow> ProxyService \<times> Lease" where
  "grant request now p s =
     (let ID = pn_ID (rp_node p)
      in (s\<lparr>sv_nodes := AList.update ID (p\<lparr>rp_inflight := rp_inflight p + 1\<rparr>) (sv_nodes s),
           sv_inUse := sv_inUse s + 1,
           sv_sticky := (if sticky_key request = [] then sv_sticky s
                         else AList.update (sticky_key request)
                                \<lparr>st_nodeID = ID, st_expiresAt = now + pc_StickyTTL (sv_cfg s), st_lastUsed = now\<rparr> (sv_sticky s))\<rparr>,
          \<lparr>le_nodeID = ID, le_target = request_target request, le_url = rp_url p, le_started = now\<rparr>))"

definition Acquire :: "iteration \<Rightarrow> bool \<Rightarrow> time \<Rightarrow> ProxyRequest \<Rightarrow> ProxyService \<Rightarrow> ProxyService \<times> (pool_error + Lease)" where
  "Acquire it cancelled now request s =
     (if \<not> pc_Enabled (sv_cfg s) then (s, Inl ErrDisabled)
      else if cancelled then (s, Inl ErrContext)
      else let s = cleanupStickyLocked (it_sticky it) now False s;
               (stuck, s) = acquire_sticky request now s;
               (selected, s) = (if stuck = None then acquire_pick it request now s else (stuck, s))
           in case selected of
                None \<Rightarrow> (s, Inl ErrNoProxy)
              | Some p \<Rightarrow> let (s, lease) = grant request now p s in (s, Inr lease))"

definition new_target :: runtimeTarget where
  "new_target = \<lparr>rt_successCount = 0, rt_failureCount = 0, rt_latencyMS = 0, rt_consecutiveFailure = 0, rt_cooldownUntil = 0\<rparr>"

definition outcome_scope :: "ProxyOutcome \<Rightarrow> string" where
  "outcome_scope outcome =
     (let scope = fold_key (po_FailureScope outcome) in if \<not> po_Success outcome \<and> scope = [] then ''node'' else scope)"

text \<open>What an outcome does to the node and to its statistics for the target; \<open>draw 0\<close> and \<open>draw 1\<close> are the random draws
  of the two.\<close>

definition outcome_success :: "duration \<Rightarrow> ProxyNode \<Rightarrow> runtimeTarget \<Rightarrow> ProxyNode \<times> runtimeTarget" where
  "outcome_success latency n ts =
     (n\<lparr>pn_Status := ''healthy'', pn_SuccessCount := pn_SuccessCount n + 1, pn_ConsecutiveFailure := 0, pn_CooldownUntil := None,
        pn_LatencyMS := (if latency > 0 then milliseconds latency else pn_LatencyMS n)\<rparr>,
      ts\<lparr>rt_successCount := rt_successCount ts + 1, rt_consecutiveFailure := 0, rt_cooldownUntil := 0,
         rt_latencyMS := (if latency > 0 then milliseconds latency else rt_latencyMS ts)\<rparr>)"

definition target_failure :: "(int \<Rightarrow> int) \<Rightarrow> PoolConfig \<Rightarrow> duration \<Rightarrow> duration \<Rightarrow> time \<Rightarrow> runtimeTarget \<Rightarrow> runtimeTarget" where
  "target_failure draw cfg retryAfter latency now ts =
     (let (consecutive, until) = nextTargetFailureState draw cfg ts retryAfter now
      in ts\<lparr>rt_failureCount := rt_failureCount ts + 1, rt_consecutiveFailure := consecutive, rt_cooldownUntil := until,
            rt_latencyMS := (if latency > 0 then milliseconds latency else rt_latencyMS ts)\<rparr>)"

definition node_failure :: "(int \<Rightarrow> int) \<Rightarrow> PoolConfig \<Rightarrow> duration \<Rightarrow> duration \<Rightarrow> time \<Rightarrow> ProxyNode \<Rightarrow> ProxyNode" where
  "node_failure draw cfg retryAfter latency now n =
     (let (consecutive, until) = nextFailureState draw cfg (pn_ConsecutiveFailure n) (pn_CooldownUntil n) retryAfter now
      in n\<lparr>pn_FailureCount := pn_FailureCount n + 1, pn_ConsecutiveFailure := consecutive, pn_CooldownUntil := until,
           pn_LatencyMS := (if latency > 0 then milliseconds latency else pn_LatencyMS n),
           pn_Status := (if until \<noteq> None then ''cooling'' else pn_Status n)\<rparr>)"

definition outcome_states :: "(nat \<Rightarrow> int \<Rightarrow> int) \<Rightarrow> PoolConfig \<Rightarrow> time \<Rightarrow> ProxyOutcome \<Rightarrow> duration \<Rightarrow> ProxyNode \<Rightarrow> runtimeTarget \<Rightarrow>
    ProxyNode \<times> runtimeTarget" where
  "outcome_states draw cfg now outcome latency n ts =
     (if po_Success outcome then outcome_success latency n ts
      else if outcome_scope outcome = ''node''
      then (node_failure (draw 0) cfg (po_RetryAfter outcome) latency now n,
            target_failure (draw 1) cfg (po_RetryAfter outcome) latency now ts)
      else if outcome_scope outcome = ''target''
      then (n, target_failure (draw 1) cfg (po_RetryAfter outcome) latency now ts)
      else (n, ts))"

text \<open>The sticky entries that the outcome breaks: all of a node that cools down, or those of the target that does.\<close>

definition outcome_invalidate :: "time \<Rightarrow> int \<Rightarrow> string \<Rightarrow> ProxyOutcome \<Rightarrow> ProxyNode \<Rightarrow> runtimeTarget \<Rightarrow> ProxyService \<Rightarrow> ProxyService" where
  "outcome_invalidate now ID target outcome n ts s =
     (if po_Success outcome then s
      else if outcome_scope outcome = ''node''
      then (if pn_CooldownUntil n \<noteq> None then invalidateStickyLocked ID [] s else s)
      else if outcome_scope outcome = ''target''
      then (if rt_cooldownUntil ts > now then invalidateStickyLocked ID target s else s)
      else s)"

definition completeLease :: "(nat \<Rightarrow> int \<Rightarrow> int) \<Rightarrow> time \<Rightarrow> int \<Rightarrow> string \<Rightarrow> ProxyOutcome \<Rightarrow> duration \<Rightarrow> ProxyService \<Rightarrow>
    ProxyService \<times> ProxyOutcomeRecord option" where
  "completeLease draw now ID target outcome latency s =
     (let scope = outcome_scope outcome; cfg = sv_cfg s;
          s = s\<lparr>sv_inUse := (if sv_inUse s > 0 then sv_inUse s - 1 else sv_inUse s)\<rparr>;
          record = \<lparr>or_ProxyID = ID, or_TargetKey = target, or_Success = po_Success outcome, or_FailureScope = scope,
                    or_Latency = latency, or_ConsecutiveFailures = 0, or_CooldownUntil = None,
                    or_TargetConsecutiveFailure = 0, or_TargetCooldownUntil = None\<rparr>;
          report = (po_Success outcome \<or> scope = ''node'' \<or> scope = ''target'')
      in case map_of (sv_nodes s) ID of
           None \<Rightarrow> (s, if report then Some record else None)
         | Some p \<Rightarrow>
             let p = p\<lparr>rp_inflight := (if rp_inflight p > 0 then rp_inflight p - 1 else rp_inflight p)\<rparr>;
                 (n, ts) = outcome_states draw cfg now outcome latency (rp_node p)
                             (case rp_targets p target of None \<Rightarrow> new_target | Some t \<Rightarrow> t);
                 s = outcome_invalidate now ID target outcome n ts s;
                 record = (if \<not> po_Success outcome \<and> scope = ''node''
                           then record\<lparr>or_ConsecutiveFailures := pn_ConsecutiveFailure n, or_CooldownUntil := pn_CooldownUntil n\<rparr>
                           else record);
                 record = record\<lparr>or_TargetConsecutiveFailure := rt_consecutiveFailure ts,
                                 or_TargetCooldownUntil := timePointer (rt_cooldownUntil ts)\<rparr>
             in (s\<lparr>sv_nodes := AList.update ID (p\<lparr>rp_node := n, rp_targets := (rp_targets p)(target \<mapsto> ts)\<rparr>) (sv_nodes s)\<rparr>,
                 if report then Some record else None))"

text \<open>\<open>Lease.Release\<close>: a latency of the outcome overrides the measured one.\<close>

definition Release :: "(nat \<Rightarrow> int \<Rightarrow> int) \<Rightarrow> time \<Rightarrow> Lease \<Rightarrow> ProxyOutcome \<Rightarrow> ProxyService \<Rightarrow> ProxyService \<times> ProxyOutcomeRecord option" where
  "Release draw now lease outcome s =
     (let latency = (if po_Latency outcome > 0 then po_Latency outcome else now - le_started lease)
      in completeLease draw now (le_nodeID lease) (le_target lease) outcome latency s)"

section \<open>Model: refreshing and probing\<close>

fun loaded_nodes :: "(ProxyNode \<Rightarrow> string option) \<Rightarrow> (int \<times> runtimeProxy) list \<Rightarrow> ProxyNode list \<Rightarrow> (int \<times> runtimeProxy) list" where
  "loaded_nodes decrypt m [] = m"
| "loaded_nodes decrypt m (n # ns) =
     loaded_nodes decrypt
       (case decrypt n of
          None \<Rightarrow> m
        | Some raw \<Rightarrow> AList.update (pn_ID n) \<lparr>rp_node = n, rp_url = raw, rp_inflight = 0, rp_targets = Map.empty\<rparr> m) ns"

fun loaded_targets :: "(int \<times> runtimeProxy) list \<Rightarrow> ProxyTargetStat list \<Rightarrow> (int \<times> runtimeProxy) list" where
  "loaded_targets m [] = m"
| "loaded_targets m (stat # stats) =
     loaded_targets
       (case map_of m (ts_ProxyID stat) of
          None \<Rightarrow> m
        | Some item \<Rightarrow>
            let t = \<lparr>rt_successCount = ts_SuccessCount stat, rt_failureCount = ts_FailureCount stat, rt_latencyMS = ts_LatencyMS stat,
                     rt_consecutiveFailure = ts_ConsecutiveFailure stat,
                     rt_cooldownUntil = (case ts_CooldownUntil stat of None \<Rightarrow> 0 | Some c \<Rightarrow> c)\<rparr>
            in AList.update (ts_ProxyID stat) (item\<lparr>rp_targets := (rp_targets item)(ts_TargetKey stat \<mapsto> t)\<rparr>) m) stats"

text \<open>What a refreshed node keeps of the running one: leases, and cooldowns that have not passed.\<close>

definition carry_over :: "time \<Rightarrow> runtimeProxy \<Rightarrow> runtimeProxy \<Rightarrow> runtimeProxy" where
  "carry_over now old item =
     (let item = item\<lparr>rp_inflight := rp_inflight old\<rparr>;
          item = (case pn_CooldownUntil (rp_node old) of
                    Some c \<Rightarrow> if c > now
                              then item\<lparr>rp_node := (rp_node item)\<lparr>pn_Status := pn_Status (rp_node old),
                                          pn_ConsecutiveFailure := pn_ConsecutiveFailure (rp_node old), pn_CooldownUntil := Some c\<rparr>\<rparr>
                              else item
                  | None \<Rightarrow> item)
      in item\<lparr>rp_targets := (\<lambda>key.
           case rp_targets old key of
             Some t \<Rightarrow> if rt_cooldownUntil t > now
                       then (case rp_targets item key of
                               None \<Rightarrow> Some t
                             | Some cur \<Rightarrow> if rt_cooldownUntil cur < rt_cooldownUntil t then Some t else Some cur)
                       else rp_targets item key
           | None \<Rightarrow> rp_targets item key)\<rparr>)"

definition keep_cooling :: "runtimeProxy \<Rightarrow> runtimeProxy" where
  "keep_cooling old = old\<lparr>rp_node := (rp_node old)\<lparr>pn_Status := ''cooling''\<rparr>\<rparr>"

definition merge_nodes :: "time \<Rightarrow> (int \<times> runtimeProxy) list \<Rightarrow> (int \<times> runtimeProxy) list \<Rightarrow> (int \<times> runtimeProxy) list" where
  "merge_nodes now old loaded =
     map (\<lambda>(i, item). (i, case map_of old i of None \<Rightarrow> item | Some o' \<Rightarrow> carry_over now o' item)) loaded
     @ map (\<lambda>(i, o'). (i, keep_cooling o')) (filter (\<lambda>(i, o'). map_of loaded i = None \<and> rp_inflight o' > 0) old)"

definition policy_key :: "string \<Rightarrow> string \<Rightarrow> string" where
  "policy_key targetType targetKey = targetType @ [CHR 0x00] @ targetKey"

definition policy_map :: "ProxyPolicy list \<Rightarrow> (string \<rightharpoonup> string)" where
  "policy_map policies = foldl (\<lambda>m p. m(policy_key (pp_TargetType p) (pp_TargetKey p) \<mapsto> pp_Mode p)) Map.empty policies"

definition Refresh :: "iteration \<Rightarrow> (ProxyNode \<Rightarrow> string option) \<Rightarrow> time \<Rightarrow> ProxyNode list \<Rightarrow> ProxyTargetStat list \<Rightarrow>
    ProxyPolicy list \<Rightarrow> ProxyService \<Rightarrow> ProxyService" where
  "Refresh it decrypt now nodes stats policies s =
     cleanupStickyLocked (it_sticky it) now True
       (s\<lparr>sv_nodes := merge_nodes now (sv_nodes s) (loaded_targets (loaded_nodes decrypt [] nodes) stats),
         sv_policies := policy_map policies\<rparr>)"

definition RouteMode :: "ProxyService \<Rightarrow> string \<Rightarrow> string \<Rightarrow> string" where
  "RouteMode s targetType targetKey =
     (let mode = (\<lambda>key. case sv_policies s key of None \<Rightarrow> [] | Some m \<Rightarrow> m)
      in if mode (policy_key targetType targetKey) \<noteq> [] then mode (policy_key targetType targetKey)
         else if mode (policy_key targetType ''*'') \<noteq> [] then mode (policy_key targetType ''*'')
         else if mode (policy_key ''global'' ''*'') \<noteq> [] then mode (policy_key ''global'' ''*'')
         else ''baseline_first'')"

definition validMode :: "string \<Rightarrow> bool" where
  "validMode mode \<longleftrightarrow> mode \<in> {''baseline_only'', ''baseline_first'', ''proxy_first'', ''proxy_only'', ''sticky_proxy''}"

definition healthy_node :: "duration \<Rightarrow> ProxyNode \<Rightarrow> ProxyNode" where
  "healthy_node latency n =
     n\<lparr>pn_Status := ''healthy'', pn_SuccessCount := pn_SuccessCount n + 1, pn_ConsecutiveFailure := 0, pn_CooldownUntil := None,
       pn_LatencyMS := (if latency > 0 then milliseconds latency else pn_LatencyMS n)\<rparr>"

text \<open>\<open>recordProbeResult\<close> after the repository has accepted the result.\<close>

definition recordProbeResult :: "ProxyNode \<Rightarrow> string \<Rightarrow> bool \<Rightarrow> duration \<Rightarrow> ProxyService \<Rightarrow> ProxyService" where
  "recordProbeResult node raw success latency s =
     (case map_of (sv_nodes s) (pn_ID node) of
        Some current \<Rightarrow>
          if success
          then (if raw = [] then s
                else s\<lparr>sv_nodes := AList.update (pn_ID node) (current\<lparr>rp_node := healthy_node latency node\<rparr>) (sv_nodes s)\<rparr>)
          else invalidateStickyLocked (pn_ID node) []
                 (if rp_inflight current > 0
                  then s\<lparr>sv_nodes := AList.update (pn_ID node) (keep_cooling current) (sv_nodes s)\<rparr>
                  else s\<lparr>sv_nodes := AList.delete (pn_ID node) (sv_nodes s)\<rparr>)
      | None \<Rightarrow>
          if success \<and> raw \<noteq> []
          then s\<lparr>sv_nodes := AList.update (pn_ID node)
                   \<lparr>rp_node = healthy_node latency node, rp_url = raw, rp_inflight = 0, rp_targets = Map.empty\<rparr> (sv_nodes s)\<rparr>
          else s)"

section \<open>Model: runs of the pool\<close>

text \<open>The pool with the leases that are out; a lease is released once. An iteration of a Go map visits its entries in some
  order.\<close>

definition map_order :: "iteration \<Rightarrow> bool" where
  "map_order it \<longleftrightarrow> (\<forall>xs. mset (it_sticky it xs) = mset xs) \<and> (\<forall>xs. mset (it_nodes it xs) = mset xs)"

inductive pool_step :: "ProxyService \<times> Lease list \<Rightarrow> ProxyService \<times> Lease list \<Rightarrow> bool" where
  acquired: "map_order it \<Longrightarrow> Acquire it cancelled now request s = (s', Inr lease) \<Longrightarrow> pool_step (s, ls) (s', lease # ls)"
| refused: "map_order it \<Longrightarrow> Acquire it cancelled now request s = (s', Inl e) \<Longrightarrow> pool_step (s, ls) (s', ls)"
| released: "Release draw now lease outcome s = (s', r) \<Longrightarrow> pool_step (s, xs @ lease # ys) (s', xs @ ys)"
| refreshed: "map_order it \<Longrightarrow> pool_step (s, ls) (Refresh it decrypt now nodes stats policies s, ls)"
| probed: "pool_step (s, ls) (recordProbeResult node raw success latency s, ls)"

definition pool_init :: "PoolConfig \<Rightarrow> ProxyService \<times> Lease list \<Rightarrow> bool" where
  "pool_init cfg sl \<longleftrightarrow> sl = (NewService cfg, [])"

abbreviation pool_reachable :: "PoolConfig \<Rightarrow> ProxyService \<times> Lease list \<Rightarrow> bool" where
  "pool_reachable cfg \<equiv> reachable (pool_init cfg) pool_step"

end
