(* ===== verification/Proxy_Pool_Safety.thy ===== *)
theory Proxy_Pool_Safety
  imports Proxy_Pool
begin

text \<open>
  What the proxy pool guarantees: the number of leases on a node is the number the node counts and never
  more than the limit, a lease is granted exactly when some node is available and then on such a node,
  selection does not depend on the order in which Go iterates the map, cooldowns double up to their cap,
  and a sticky request keeps its node.
\<close>

section \<open>Selection\<close>

lemma least_score_loop_mem: "least_score_loop target c cs \<in> set (c # cs)"
  by (induction cs arbitrary: c) (simp, simp, blast)

definition score_less :: "string \<Rightarrow> runtimeProxy \<Rightarrow> runtimeProxy \<Rightarrow> bool" where
  "score_less target a b \<longleftrightarrow>
     proxyScore a target < proxyScore b target
     \<or> (proxyScore a target = proxyScore b target \<and> pn_ID (rp_node a) < pn_ID (rp_node b))"

lemma score_less_trans: "score_less t a b \<Longrightarrow> \<not> score_less t c b \<Longrightarrow> \<not> score_less t c a"
  by (auto simp: score_less_def)

lemma least_score_loop_least: "d \<in> set (c # cs) \<Longrightarrow> \<not> score_less target d (least_score_loop target c cs)"
proof (induction cs arbitrary: c d)
  case Nil
  then show ?case by (simp add: score_less_def)
next
  case (Cons x cs)
  define y where "y = (if score_less target x c then x else c)"
  have step: "least_score_loop target c (x # cs) = least_score_loop target y cs"
    by (simp add: y_def score_less_def)
  have y: "\<not> score_less target y (least_score_loop target y cs)"
    by (rule Cons.IH) simp
  show ?case
  proof (cases "d \<in> set cs")
    case True
    then show ?thesis using Cons.IH [of d y] step by simp
  next
    case False
    then have "d = c \<or> d = x" using Cons.prems by simp
    then have "\<not> score_less target d y" by (auto simp: y_def score_less_def)
    with y show ?thesis unfolding step by (auto simp: score_less_def)
  qed
qed

lemma fill_first_loop_mem: "fill_first_loop c cs \<in> set (c # cs)"
  by (induction cs arbitrary: c) (simp, simp, blast)

lemma fill_first_loop_least: "d \<in> set (c # cs) \<Longrightarrow> pn_ID (rp_node (fill_first_loop c cs)) \<le> pn_ID (rp_node d)"
  by (induction cs arbitrary: c d) (auto, (metis (no_types) insert_iff list.set(2) order.trans linorder_le_less_linear less_imp_le)+)

lemma Pick_mem: "fst (Pick sel target cs) = Some p \<Longrightarrow> p \<in> set cs"
proof (cases sel)
  case LeastScore
  then show "fst (Pick sel target cs) = Some p \<Longrightarrow> p \<in> set cs"
    using least_score_loop_mem by (auto split: list.splits simp del: set_ConsD)
next
  case (RoundRobin cursors)
  assume p: "fst (Pick sel target cs) = Some p"
  define xs where "xs = sort_key (\<lambda>c. pn_ID (rp_node c)) cs"
  have cs: "cs \<noteq> []" and "\<exists>i. p = xs ! nat (i mod int (length xs))"
    using p RoundRobin by (auto simp: xs_def Let_def split: if_splits)
  then obtain i where "p = xs ! nat (i mod int (length xs))" by blast
  moreover have "0 < int (length xs)" using cs by (simp add: xs_def)
  ultimately have "p \<in> set xs" by (simp add: nat_less_iff)
  then show "p \<in> set cs" by (simp add: xs_def)
next
  case FillFirst
  then show "fst (Pick sel target cs) = Some p \<Longrightarrow> p \<in> set cs"
    using fill_first_loop_mem by (auto split: list.splits)
qed

lemma Pick_None_iff: "fst (Pick sel target cs) = None \<longleftrightarrow> cs = []"
  by (cases sel) (auto split: list.splits simp: Let_def)


lemma distinct_IDs_inj: "distinct (map (\<lambda>c. pn_ID (rp_node c)) cs) \<Longrightarrow> inj_on (\<lambda>c. pn_ID (rp_node c)) (set cs)"
  by (simp add: distinct_map)

lemma Pick_least_score:
  "fst (Pick LeastScore target cs) = Some p \<Longrightarrow> c \<in> set cs \<Longrightarrow>
     proxyScore p target < proxyScore c target \<or> proxyScore p target = proxyScore c target \<and> pn_ID (rp_node p) \<le> pn_ID (rp_node c)"
  using least_score_loop_least [of c "hd cs" "tl cs" target] by (cases cs) (auto simp: score_less_def)

lemma Pick_fill_first:
  "fst (Pick FillFirst target cs) = Some p \<Longrightarrow> c \<in> set cs \<Longrightarrow> pn_ID (rp_node p) \<le> pn_ID (rp_node c)"
  using fill_first_loop_least [of c "hd cs" "tl cs"] by (cases cs) auto

lemma Pick_perm:
  assumes "distinct (map (\<lambda>c. pn_ID (rp_node c)) cs)" and "mset ds = mset cs"
  shows "Pick sel target ds = Pick sel target cs"
proof (cases "cs = []")
  case False
  have sets: "set ds = set cs" using assms(2) by (rule mset_eq_setD)
  then have ds: "ds \<noteq> []" using False by auto
  have inj: "p = q" if "p \<in> set cs" "q \<in> set cs" "pn_ID (rp_node p) = pn_ID (rp_node q)" for p q
    using distinct_IDs_inj [OF assms(1)] that by (auto dest: inj_onD)
  show ?thesis
  proof (cases sel)
    case LeastScore
    obtain p q where p: "fst (Pick LeastScore target cs) = Some p" and q: "fst (Pick LeastScore target ds) = Some q"
      using False ds Pick_None_iff by (metis not_Some_eq)
    have mem: "p \<in> set cs" "q \<in> set cs" using Pick_mem [OF p] Pick_mem [OF q] sets by auto
    have "p = q" using Pick_least_score [OF p mem(2)] Pick_least_score [OF q, of p] mem sets by (intro inj) auto
    then show ?thesis using LeastScore p q by (simp add: prod_eq_iff)
  next
    case FillFirst
    obtain p q where p: "fst (Pick FillFirst target cs) = Some p" and q: "fst (Pick FillFirst target ds) = Some q"
      using False ds Pick_None_iff by (metis not_Some_eq)
    have mem: "p \<in> set cs" "q \<in> set cs" using Pick_mem [OF p] Pick_mem [OF q] sets by auto
    have "p = q" using Pick_fill_first [OF p mem(2)] Pick_fill_first [OF q, of p] mem sets by (intro inj) auto
    then show ?thesis using FillFirst p q by (simp add: prod_eq_iff)
  next
    case (RoundRobin cursors)
    have "sort_key (\<lambda>c. pn_ID (rp_node c)) ds = sort_key (\<lambda>c. pn_ID (rp_node c)) cs"
      using assms(2) distinct_IDs_inj [OF assms(1)] by (intro sort_key_inj_key_eq) (simp_all add: sets)
    moreover have "length ds = length cs" using assms(2) by (rule mset_eq_length)
    ultimately show ?thesis using RoundRobin False ds by (simp add: Let_def)
  qed
qed (use assms in simp)

section \<open>Accounting\<close>

definition nodes_ok :: "(int \<times> runtimeProxy) list \<Rightarrow> bool" where
  "nodes_ok m \<longleftrightarrow> distinct (map fst m) \<and> (\<forall>i p. map_of m i = Some p \<longrightarrow> pn_ID (rp_node p) = i)"

definition inflight_at :: "(int \<times> runtimeProxy) list \<Rightarrow> int \<Rightarrow> int" where
  "inflight_at m i = (case map_of m i of None \<Rightarrow> 0 | Some p \<Rightarrow> rp_inflight p)"

definition leases_on :: "Lease list \<Rightarrow> int \<Rightarrow> int" where
  "leases_on ls i = int (length (filter (\<lambda>l. le_nodeID l = i) ls))"

lemma leases_on_simps [simp]:
  "leases_on [] i = 0"
  "leases_on (l # ls) i = (if le_nodeID l = i then 1 else 0) + leases_on ls i"
  "leases_on (xs @ ys) i = leases_on xs i + leases_on ys i"
  by (simp_all add: leases_on_def)

lemma leases_on_nonneg [simp]: "0 \<le> leases_on ls i"
  by (simp add: leases_on_def)

lemma map_of_alist_update: "map_of (AList.update k v m) i = (if i = k then Some v else map_of m i)"
  by (simp add: update_conv)

lemma nodes_ok_update: "nodes_ok m \<Longrightarrow> pn_ID (rp_node p) = i \<Longrightarrow> nodes_ok (AList.update i p m)"
  by (auto simp: nodes_ok_def map_of_alist_update distinct_update)

lemma inflight_at_update [simp]: "inflight_at (AList.update i p m) j = (if j = i then rp_inflight p else inflight_at m j)"
  by (simp add: inflight_at_def map_of_alist_update)

lemma nodes_ok_delete: "nodes_ok m \<Longrightarrow> nodes_ok (AList.delete i m)"
  by (auto simp: nodes_ok_def delete_conv' distinct_delete split: if_splits)

lemma inflight_at_delete [simp]: "inflight_at (AList.delete i m) j = (if j = i then 0 else inflight_at m j)"
  by (simp add: inflight_at_def delete_conv')

lemma inflight_at_Some: "map_of m i = Some p \<Longrightarrow> inflight_at m i = rp_inflight p"
  by (simp add: inflight_at_def)

text \<open>A freshly loaded table is well-formed and counts no lease.\<close>

definition fresh_nodes :: "(int \<times> runtimeProxy) list \<Rightarrow> bool" where
  "fresh_nodes m \<longleftrightarrow> nodes_ok m \<and> (\<forall>i. inflight_at m i = 0)"

lemma fresh_update: "fresh_nodes m \<Longrightarrow> pn_ID (rp_node p) = i \<Longrightarrow> rp_inflight p = 0 \<Longrightarrow> fresh_nodes (AList.update i p m)"
  by (simp add: fresh_nodes_def nodes_ok_update)

lemma loaded_nodes_fresh: "fresh_nodes m \<Longrightarrow> fresh_nodes (loaded_nodes decrypt m ns)"
  by (induction decrypt m ns rule: loaded_nodes.induct) (simp_all add: fresh_update split: option.splits)

lemma loaded_targets_fresh: "fresh_nodes m \<Longrightarrow> fresh_nodes (loaded_targets m stats)"
proof (induction m stats rule: loaded_targets.induct)
  case (2 m stat stats)
  show ?case
  proof (cases "map_of m (ts_ProxyID stat)")
    case (Some item)
    have "pn_ID (rp_node item) = ts_ProxyID stat" "rp_inflight item = 0"
      using 2(2) Some inflight_at_Some [OF Some] by (simp_all add: fresh_nodes_def nodes_ok_def)
    with 2 Some show ?thesis by (simp add: Let_def fresh_update)
  qed (use 2 in simp)
qed simp

lemma loaded_fresh: "fresh_nodes (loaded_targets (loaded_nodes decrypt [] ns) stats)"
  by (intro loaded_targets_fresh loaded_nodes_fresh) (simp add: fresh_nodes_def nodes_ok_def inflight_at_def)

lemma carry_over_simps [simp]:
  "rp_inflight (carry_over now old item) = rp_inflight old"
  "pn_ID (rp_node (carry_over now old item)) = pn_ID (rp_node item)"
  by (auto simp: carry_over_def Let_def split: option.splits)

lemma keep_cooling_simps [simp]:
  "rp_inflight (keep_cooling p) = rp_inflight p" "pn_ID (rp_node (keep_cooling p)) = pn_ID (rp_node p)"
  by (simp_all add: keep_cooling_def)

lemma map_of_filter_distinct:
  "distinct (map fst m) \<Longrightarrow> map_of (filter P m) i = (case map_of m i of None \<Rightarrow> None | Some v \<Rightarrow> if P (i, v) then Some v else None)"
proof (induction m)
  case (Cons a m)
  then show ?case by (cases a) (auto split: option.splits simp: map_of_eq_None_iff image_iff)
qed simp

lemma map_of_map_val: "map_of (map (\<lambda>(k, v). (k, f k v)) m) i = map_option (f i) (map_of m i)"
  by (induction m) auto

lemma merge_nodes_lookup:
  assumes "distinct (map fst old)"
  shows "map_of (merge_nodes now old loaded) i =
    (case map_of loaded i of
       Some item \<Rightarrow> Some (case map_of old i of None \<Rightarrow> item | Some p \<Rightarrow> carry_over now p item)
     | None \<Rightarrow> (case map_of old i of None \<Rightarrow> None | Some p \<Rightarrow> if rp_inflight p > 0 then Some (keep_cooling p) else None))"
  unfolding merge_nodes_def map_of_append map_add_def map_of_map_val map_of_filter_distinct [OF assms]
  by (auto split: option.splits)

lemma merge_nodes_distinct:
  assumes "distinct (map fst old)" and "distinct (map fst loaded)"
  shows "distinct (map fst (merge_nodes now old loaded))"
proof -
  have "distinct (map fst (filter P old))" for P using assms(1) by (rule distinct_map_filter)
  moreover have "map fst (map (\<lambda>(k, v). (k, f k v)) m) = map fst m" for f :: "int \<Rightarrow> runtimeProxy \<Rightarrow> runtimeProxy" and m
    by (induction m) auto
  moreover have "set (map fst loaded) \<inter> set (map fst (filter (\<lambda>(i, p). map_of loaded i = None \<and> rp_inflight p > 0) old)) = {}"
    by (auto simp: map_of_eq_None_iff image_iff)
  ultimately show ?thesis using assms(2) unfolding merge_nodes_def by (simp only: map_append distinct_append)
qed

lemma merge_nodes_ok:
  assumes old: "nodes_ok old" and nonneg: "\<And>i. 0 \<le> inflight_at old i" and loaded: "fresh_nodes loaded"
  shows "nodes_ok (merge_nodes now old loaded)" and "inflight_at (merge_nodes now old loaded) i = inflight_at old i"
proof -
  have d: "distinct (map fst old)" and l: "nodes_ok loaded" using old loaded by (simp_all add: nodes_ok_def fresh_nodes_def)
  show "nodes_ok (merge_nodes now old loaded)"
    unfolding nodes_ok_def merge_nodes_lookup [OF d]
    using merge_nodes_distinct [OF d] l old by (auto simp: nodes_ok_def split: option.splits)
  have "inflight_at loaded i = 0" "0 \<le> inflight_at old i" using loaded nonneg by (simp_all add: fresh_nodes_def)
  then show "inflight_at (merge_nodes now old loaded) i = inflight_at old i"
    unfolding inflight_at_def merge_nodes_lookup [OF d] by (auto split: option.splits)
qed


section \<open>Granting\<close>

abbreviation available :: "ProxyService \<Rightarrow> ProxyRequest \<Rightarrow> time \<Rightarrow> runtimeProxy \<Rightarrow> bool" where
  "available s request now p \<equiv>
     proxyAvailableLocked (sv_cfg s) (Some p) (request_target request) (pr_ExcludeIDs request) now"

lemma cleanup_simps [simp]:
  "sv_cfg (cleanupStickyLocked ord now force s) = sv_cfg s"
  "sv_nodes (cleanupStickyLocked ord now force s) = sv_nodes s"
  "sv_inUse (cleanupStickyLocked ord now force s) = sv_inUse s"
  "sv_selector (cleanupStickyLocked ord now force s) = sv_selector s"
  by (simp_all add: cleanupStickyLocked_def Let_def)

lemma invalidate_simps [simp]:
  "sv_cfg (invalidateStickyLocked i t s) = sv_cfg s"
  "sv_nodes (invalidateStickyLocked i t s) = sv_nodes s"
  "sv_inUse (invalidateStickyLocked i t s) = sv_inUse s"
  by (simp_all add: invalidateStickyLocked_def)

lemma acquire_sticky_simps [simp]:
  "sv_cfg (snd (acquire_sticky request now s)) = sv_cfg s"
  "sv_nodes (snd (acquire_sticky request now s)) = sv_nodes s"
  "sv_inUse (snd (acquire_sticky request now s)) = sv_inUse s"
  "sv_selector (snd (acquire_sticky request now s)) = sv_selector s"
  by (simp_all add: acquire_sticky_def Let_def split: option.splits)

lemma acquire_pick_simps [simp]:
  "sv_cfg (snd (acquire_pick it request now s)) = sv_cfg s"
  "sv_nodes (snd (acquire_pick it request now s)) = sv_nodes s"
  "sv_inUse (snd (acquire_pick it request now s)) = sv_inUse s"
  "sv_sticky (snd (acquire_pick it request now s)) = sv_sticky s"
  by (simp_all add: acquire_pick_def Let_def case_prod_beta)

lemma acquire_sticky_Some:
  assumes "fst (acquire_sticky request now s) = Some p"
  shows "(\<exists>i. map_of (sv_nodes s) i = Some p) \<and> available s request now p"
  using assms by (auto simp: acquire_sticky_def Let_def split: option.splits if_splits)

lemma map_order_nodes: "map_order it \<Longrightarrow> set (it_nodes it m) = set m"
  unfolding map_order_def by (metis set_mset_mset)

lemma acquire_pick_Some:
  assumes "map_order it" and "nodes_ok (sv_nodes s)" and "fst (acquire_pick it request now s) = Some p"
  shows "(\<exists>i. map_of (sv_nodes s) i = Some p) \<and> available s request now p"
  using assms Pick_mem [of "sv_selector s" "request_target request" _ p]
  by (fastforce simp: acquire_pick_def Let_def case_prod_beta map_order_nodes nodes_ok_def)

lemma acquire_pick_None:
  assumes "map_order it" and "nodes_ok (sv_nodes s)" and "fst (acquire_pick it request now s) = None"
    and "map_of (sv_nodes s) i = Some p"
  shows "\<not> available s request now p"
proof -
  have "filter (\<lambda>(_, p). available s request now p) (it_nodes it (sv_nodes s)) = []"
    using assms(3) by (simp add: acquire_pick_def Let_def case_prod_beta Pick_None_iff)
  moreover have "(i, p) \<in> set (it_nodes it (sv_nodes s))"
    using map_of_SomeD [OF assms(4)] by (simp add: map_order_nodes [OF assms(1)])
  ultimately show ?thesis by (auto simp: filter_empty_conv)
qed

text \<open>The choice \<open>Acquire\<close> makes, and its effect.\<close>

definition chosen :: "iteration \<Rightarrow> time \<Rightarrow> ProxyRequest \<Rightarrow> ProxyService \<Rightarrow> runtimeProxy option \<times> ProxyService" where
  "chosen it now request s =
     (let (stuck, s) = acquire_sticky request now (cleanupStickyLocked (it_sticky it) now False s)
      in if stuck = None then acquire_pick it request now s else (stuck, s))"

lemma Acquire_chosen:
  "Acquire it cancelled now request s =
     (if \<not> pc_Enabled (sv_cfg s) then (s, Inl ErrDisabled)
      else if cancelled then (s, Inl ErrContext)
      else case fst (chosen it now request s) of
             None \<Rightarrow> (snd (chosen it now request s), Inl ErrNoProxy)
           | Some p \<Rightarrow> (fst (grant request now p (snd (chosen it now request s))),
                        Inr (snd (grant request now p (snd (chosen it now request s))))))"
  by (simp add: Acquire_def chosen_def Let_def case_prod_beta split: option.splits)

lemma chosen_simps [simp]:
  "sv_cfg (snd (chosen it now request s)) = sv_cfg s"
  "sv_nodes (snd (chosen it now request s)) = sv_nodes s"
  "sv_inUse (snd (chosen it now request s)) = sv_inUse s"
  by (simp_all add: chosen_def Let_def case_prod_beta)

lemma chosen_Some:
  assumes "map_order it" and "nodes_ok (sv_nodes s)" and "fst (chosen it now request s) = Some p"
  shows "map_of (sv_nodes s) (pn_ID (rp_node p)) = Some p" and "available s request now p"
proof -
  define t where "t = cleanupStickyLocked (it_sticky it) now False s"
  have t: "sv_nodes t = sv_nodes s" "sv_cfg t = sv_cfg s" by (simp_all add: t_def)
  have "(\<exists>i. map_of (sv_nodes t) i = Some p) \<and> available t request now p"
  proof (cases "fst (acquire_sticky request now t)")
    case None
    then have "fst (acquire_pick it request now (snd (acquire_sticky request now t))) = Some p"
      using assms(3) by (simp add: chosen_def t_def Let_def case_prod_beta)
    from acquire_pick_Some [OF assms(1) _ this] show ?thesis using assms(2) t by simp
  next
    case (Some q)
    then have "q = p" using assms(3) by (simp add: chosen_def t_def Let_def case_prod_beta)
    with Some acquire_sticky_Some show ?thesis by blast
  qed
  with t assms(2) show "map_of (sv_nodes s) (pn_ID (rp_node p)) = Some p" "available s request now p"
    by (auto simp: nodes_ok_def)
qed

lemma chosen_None:
  assumes "map_order it" and "nodes_ok (sv_nodes s)" and "fst (chosen it now request s) = None"
    and "map_of (sv_nodes s) i = Some p"
  shows "\<not> available s request now p"
proof -
  define t where "t = snd (acquire_sticky request now (cleanupStickyLocked (it_sticky it) now False s))"
  have t: "sv_nodes t = sv_nodes s" "sv_cfg t = sv_cfg s" by (simp_all add: t_def)
  have "fst (acquire_pick it request now t) = None"
    using assms(3) by (auto simp: chosen_def t_def Let_def case_prod_beta split: if_splits)
  from acquire_pick_None [OF assms(1) _ this] show ?thesis using assms(2,4) t by simp
qed

lemma grant_simps [simp]:
  "sv_cfg (fst (grant request now p s)) = sv_cfg s"
  "sv_nodes (fst (grant request now p s)) = AList.update (pn_ID (rp_node p)) (p\<lparr>rp_inflight := rp_inflight p + 1\<rparr>) (sv_nodes s)"
  "sv_inUse (fst (grant request now p s)) = sv_inUse s + 1"
  "le_nodeID (snd (grant request now p s)) = pn_ID (rp_node p)"
  "le_url (snd (grant request now p s)) = rp_url p"
  "le_target (snd (grant request now p s)) = request_target request"
  by (simp_all add: grant_def Let_def)

lemma outcome_states_ID: "pn_ID (fst (outcome_states draw cfg now out lat n ts)) = pn_ID n"
  by (simp add: outcome_states_def outcome_success_def node_failure_def case_prod_beta)

lemma outcome_invalidate_simps [simp]:
  "sv_cfg (outcome_invalidate now i t out n ts s) = sv_cfg s"
  "sv_nodes (outcome_invalidate now i t out n ts s) = sv_nodes s"
  "sv_inUse (outcome_invalidate now i t out n ts s) = sv_inUse s"
  by (simp_all add: outcome_invalidate_def)

lemma completeLease_absent:
  assumes "map_of (sv_nodes s) i = None"
  shows "fst (completeLease draw now i t out lat s) = s\<lparr>sv_inUse := (if sv_inUse s > 0 then sv_inUse s - 1 else sv_inUse s)\<rparr>"
  using assms by (simp add: completeLease_def Let_def)

lemma completeLease_present:
  assumes "map_of (sv_nodes s) i = Some p" and "fst (completeLease draw now i t out lat s) = s'"
  shows "\<exists>q. sv_nodes s' = AList.update i q (sv_nodes s) \<and> pn_ID (rp_node q) = pn_ID (rp_node p)
    \<and> rp_inflight q = (if rp_inflight p > 0 then rp_inflight p - 1 else rp_inflight p)"
    and "sv_cfg s' = sv_cfg s" and "sv_inUse s' = (if sv_inUse s > 0 then sv_inUse s - 1 else sv_inUse s)"
  using assms by (auto simp: completeLease_def Let_def case_prod_beta outcome_states_ID)


section \<open>The sticky table\<close>

definition sticky_ok :: "int \<Rightarrow> (string \<times> stickyEntry) list \<Rightarrow> bool" where
  "sticky_ok limit m \<longleftrightarrow> distinct (map fst m) \<and> int (length m) \<le> limit"

lemma length_filter_keys:
  assumes "distinct (map fst m)" and "distinct ks" and "set ks \<subseteq> fst ` set m"
  shows "length (filter (\<lambda>ke. fst ke \<notin> set ks) m) = length m - length ks"
proof -
  let ?r = "filter (\<lambda>ke. fst ke \<notin> set ks) m"
  have "length ?r = card (set (map fst ?r))"
    using distinct_card [OF distinct_map_filter [OF assms(1)]] by simp
  also have "set (map fst ?r) = set (map fst m) - set ks" by auto
  also have "card \<dots> = card (set (map fst m)) - card (set ks)" using assms(3) by (simp add: card_Diff_subset)
  also have "\<dots> = length m - length ks" using distinct_card [OF assms(1)] distinct_card [OF assms(2)] by simp
  finally show ?thesis .
qed

lemma cleanup_sticky_ok:
  assumes order: "map_order it" and ok: "distinct (map fst (sv_sticky s))" and pos: "0 \<le> pc_StickyMaxEntries (sv_cfg s)"
  shows "sticky_ok (pc_StickyMaxEntries (sv_cfg s)) (sv_sticky (cleanupStickyLocked (it_sticky it) now force s))"
proof -
  define live where "live = filter (sticky_live s now) (sv_sticky s)"
  define ks where "ks = map fst (take (nat (int (length live) - pc_StickyMaxEntries (sv_cfg s)))
                                   (sort_key (\<lambda>ke. st_lastUsed (snd ke)) (it_sticky it live)))"
  have live: "distinct (map fst live)" unfolding live_def by (rule distinct_map_filter [OF ok])
  have perm: "mset (it_sticky it live) = mset live" using order by (simp add: map_order_def)
  have "mset (map fst (sort_key (\<lambda>ke. st_lastUsed (snd ke)) (it_sticky it live))) = mset (map fst live)"
    using perm by simp
  then have "distinct (map fst (sort_key (\<lambda>ke. st_lastUsed (snd ke)) (it_sticky it live)))"
    using live mset_eq_imp_distinct_iff by blast
  then have dks: "distinct ks" unfolding ks_def take_map [symmetric] by (rule distinct_take)
  have sub: "set ks \<subseteq> fst ` set live"
    using mset_eq_setD [OF perm] set_take_subset unfolding ks_def by fastforce
  have "length (it_sticky it live) = length live" using perm by (rule mset_eq_length)
  then have lks: "length ks = min (nat (int (length live) - pc_StickyMaxEntries (sv_cfg s))) (length live)"
    by (simp add: ks_def min.commute)
  have "length (filter (\<lambda>ke. fst ke \<notin> set ks) live) = length live - length ks"
    by (rule length_filter_keys [OF live dks sub])
  then have "sticky_ok (pc_StickyMaxEntries (sv_cfg s)) (filter (\<lambda>ke. fst ke \<notin> set ks) live)"
    using distinct_map_filter [OF live] lks pos by (auto simp: sticky_ok_def)
  moreover have "sv_sticky (cleanupStickyLocked (it_sticky it) now force s) = filter (\<lambda>ke. fst ke \<notin> set ks) live
      \<or> sv_sticky (cleanupStickyLocked (it_sticky it) now force s) = sv_sticky s
        \<and> int (length (sv_sticky s)) \<le> pc_StickyMaxEntries (sv_cfg s)"
    by (simp add: cleanupStickyLocked_def Let_def live_def ks_def)
  ultimately show ?thesis using ok by (auto simp: sticky_ok_def)
qed

lemma length_alist_update: "length (AList.update k v m) = length m + (if k \<in> fst ` set m then 0 else 1)"
  by (induction m) auto

lemma acquire_sticky_table:
  assumes "sticky_ok n (sv_sticky s)"
  shows "sticky_ok n (sv_sticky (snd (acquire_sticky request now s)))"
  using assms length_delete_le [of "sticky_key request" "sv_sticky s"]
  by (auto simp: acquire_sticky_def Let_def sticky_ok_def distinct_update distinct_delete length_alist_update
      dest: map_of_SomeD split: option.splits) (force dest: map_of_SomeD)

lemma chosen_table:
  assumes "map_order it" and "distinct (map fst (sv_sticky s))" and "0 \<le> pc_StickyMaxEntries (sv_cfg s)"
  shows "sticky_ok (pc_StickyMaxEntries (sv_cfg s)) (sv_sticky (snd (chosen it now request s)))"
  using acquire_sticky_table [OF cleanup_sticky_ok [OF assms]] by (simp add: chosen_def Let_def case_prod_beta)

lemma grant_table:
  assumes "sticky_ok n (sv_sticky s)"
  shows "sticky_ok (n + 1) (sv_sticky (fst (grant request now p s)))"
  using assms by (auto simp: grant_def Let_def sticky_ok_def distinct_update length_alist_update)

lemma filter_table: "sticky_ok n m \<Longrightarrow> sticky_ok n (filter P m)"
  unfolding sticky_ok_def using length_filter_le [of P m] by (auto simp: distinct_map_filter simp del: length_filter_le)

lemma invalidate_table: "sticky_ok n (sv_sticky s) \<Longrightarrow> sticky_ok n (sv_sticky (invalidateStickyLocked i t s))"
  by (simp add: invalidateStickyLocked_def filter_table)

lemma completeLease_table: "sticky_ok n (sv_sticky s) \<Longrightarrow> sticky_ok n (sv_sticky (fst (completeLease draw now i t out lat s)))"
  by (auto simp: completeLease_def Let_def case_prod_beta outcome_invalidate_def intro!: invalidate_table split: option.splits)


section \<open>The invariant\<close>

definition pool_inv :: "PoolConfig \<Rightarrow> ProxyService \<times> Lease list \<Rightarrow> bool" where
  "pool_inv cfg sl \<longleftrightarrow>
     (let s = fst sl; ls = snd sl
      in sv_cfg s = normalize_pool_config cfg \<and> nodes_ok (sv_nodes s) \<and> sv_inUse s = int (length ls)
         \<and> (\<forall>i. inflight_at (sv_nodes s) i = leases_on ls i \<and> leases_on ls i \<le> pc_MaxPerNode (sv_cfg s))
         \<and> sticky_ok (pc_StickyMaxEntries (sv_cfg s) + 1) (sv_sticky s))"

lemma normalize_pos [simp]:
  "0 < pc_MaxPerNode (normalize_pool_config cfg)" "0 \<le> pc_MaxPerNode (normalize_pool_config cfg)" "0 < pc_StickyMaxEntries (normalize_pool_config cfg)"
  "0 < pc_Cooldown (normalize_pool_config cfg)" "pc_Cooldown (normalize_pool_config cfg) \<le> pc_CooldownMax (normalize_pool_config cfg)"
  "0 \<le> pc_CooldownJitter (normalize_pool_config cfg)"
  by (simp_all add: normalize_pool_config_def Let_def DefaultConfig_def duration_defs)

lemma pool_inv_init: "pool_init cfg sl \<Longrightarrow> pool_inv cfg sl"
  by (simp add: pool_init_def pool_inv_def NewService_def Let_def nodes_ok_def inflight_at_def sticky_ok_def less_imp_le)

lemma pool_inv_acquired:
  assumes inv: "pool_inv cfg (s, ls)" and order: "map_order it" and acq: "Acquire it cancelled now request s = (s', Inr lease)"
  shows "pool_inv cfg (s', lease # ls)"
proof -
  have ok: "nodes_ok (sv_nodes s)" using inv by (simp add: pool_inv_def Let_def)
  define t where "t = snd (chosen it now request s)"
  obtain p where p: "fst (chosen it now request s) = Some p" and s': "s' = fst (grant request now p t)"
    and lease: "lease = snd (grant request now p t)"
    using acq by (auto simp: Acquire_chosen t_def split: if_splits option.splits)
  note p' = chosen_Some [OF order ok p]
  have t: "sv_cfg t = sv_cfg s" "sv_nodes t = sv_nodes s" "sv_inUse t = sv_inUse s" by (simp_all add: t_def)
  have "sticky_ok (pc_StickyMaxEntries (sv_cfg s)) (sv_sticky t)"
    unfolding t_def using inv by (intro chosen_table [OF order]) (auto simp: pool_inv_def Let_def sticky_ok_def less_imp_le)
  then have "sticky_ok (pc_StickyMaxEntries (sv_cfg s) + 1) (sv_sticky s')" unfolding s' by (rule grant_table)
  moreover have "rp_inflight p < pc_MaxPerNode (sv_cfg s)" using p'(2) by (simp add: proxyAvailableLocked_def)
  moreover have "nodes_ok (sv_nodes s')" using ok by (simp add: s' t nodes_ok_update)
  ultimately show ?thesis
    using inv inflight_at_Some [OF p'(1)] by (auto simp: pool_inv_def Let_def s' lease t)
qed

lemma pool_inv_refused:
  assumes inv: "pool_inv cfg (s, ls)" and order: "map_order it" and acq: "Acquire it cancelled now request s = (s', Inl e)"
  shows "pool_inv cfg (s', ls)"
proof -
  consider "s' = s" | "s' = snd (chosen it now request s)"
    using acq by (auto simp: Acquire_chosen split: if_splits option.splits)
  then show ?thesis
  proof cases
    case 2
    have "sticky_ok (pc_StickyMaxEntries (sv_cfg s)) (sv_sticky s')"
      unfolding 2 using inv by (intro chosen_table [OF order]) (auto simp: pool_inv_def Let_def sticky_ok_def less_imp_le)
    then show ?thesis using inv by (auto simp: pool_inv_def Let_def 2 sticky_ok_def)
  qed (use inv in simp)
qed

lemma leases_on_middle: "leases_on (xs @ l # ys) (le_nodeID l) = leases_on (xs @ ys) (le_nodeID l) + 1"
  by simp

lemma pool_inv_released:
  assumes inv: "pool_inv cfg (s, xs @ lease # ys)" and rel: "Release draw now lease outcome s = (s', r)"
  shows "pool_inv cfg (s', xs @ ys)"
proof -
  let ?i = "le_nodeID lease"
  obtain lat where s': "s' = fst (completeLease draw now ?i (le_target lease) outcome lat s)"
    using rel unfolding Release_def Let_def by (metis fst_conv)
  have pos: "0 < leases_on (xs @ lease # ys) ?i" using leases_on_nonneg [of xs ?i] leases_on_nonneg [of ys ?i]
    by (simp del: leases_on_nonneg)
  then have "0 < inflight_at (sv_nodes s) ?i" using inv by (simp add: pool_inv_def Let_def)
  then obtain p where p: "map_of (sv_nodes s) ?i = Some p" and inflight: "0 < rp_inflight p"
    by (auto simp: inflight_at_def split: option.splits)
  obtain q where q: "sv_nodes s' = AList.update ?i q (sv_nodes s)" "pn_ID (rp_node q) = pn_ID (rp_node p)"
      "rp_inflight q = rp_inflight p - 1"
    using completeLease_present(1) [OF p s' [symmetric]] inflight by auto
  note s'_simps = completeLease_present(2,3) [OF p s' [symmetric]]
  have "nodes_ok (sv_nodes s')"
    unfolding q(1) using inv p q(2) by (intro nodes_ok_update) (auto simp: pool_inv_def Let_def nodes_ok_def)
  moreover have "sticky_ok (pc_StickyMaxEntries (sv_cfg s) + 1) (sv_sticky s')"
    unfolding s' using inv by (intro completeLease_table) (auto simp: pool_inv_def Let_def)
  moreover have "inflight_at (sv_nodes s') j = leases_on (xs @ ys) j \<and> leases_on (xs @ ys) j \<le> pc_MaxPerNode (sv_cfg s)" for j
  proof -
    have j: "inflight_at (sv_nodes s) j = leases_on (xs @ lease # ys) j" "leases_on (xs @ lease # ys) j \<le> pc_MaxPerNode (sv_cfg s)"
      using inv unfolding pool_inv_def Let_def fst_conv snd_conv by blast+
    then show ?thesis using inflight_at_Some [OF p] by (auto simp: q(1,3) split: if_splits)
  qed
  ultimately show ?thesis using inv s'_simps by (auto simp: pool_inv_def Let_def)
qed

lemma pool_inv_refreshed:
  assumes inv: "pool_inv cfg (s, ls)" and order: "map_order it"
  shows "pool_inv cfg (Refresh it decrypt now nodes stats policies s, ls)"
proof -
  define m where "m = merge_nodes now (sv_nodes s) (loaded_targets (loaded_nodes decrypt [] nodes) stats)"
  have nonneg: "0 \<le> inflight_at (sv_nodes s) i" for i using inv by (simp add: pool_inv_def Let_def)
  have "nodes_ok (sv_nodes s)" using inv by (simp add: pool_inv_def Let_def)
  note m = merge_nodes_ok [OF this nonneg loaded_fresh [of decrypt nodes stats], where now = now, folded m_def]
  define t where "t = s\<lparr>sv_nodes := m, sv_policies := policy_map policies\<rparr>"
  have "sticky_ok (pc_StickyMaxEntries (sv_cfg t)) (sv_sticky (cleanupStickyLocked (it_sticky it) now True t))"
    using inv by (intro cleanup_sticky_ok [OF order]) (auto simp: t_def pool_inv_def Let_def sticky_ok_def less_imp_le)
  then show ?thesis
    using inv m by (simp add: Refresh_def m_def [symmetric] t_def [symmetric] pool_inv_def Let_def) (auto simp: t_def sticky_ok_def)
qed

lemma pool_inv_probed:
  assumes inv: "pool_inv cfg (s, ls)"
  shows "pool_inv cfg (recordProbeResult node raw success latency s, ls)"
proof (cases "map_of (sv_nodes s) (pn_ID node)")
  case None
  then show ?thesis using inv inflight_at_def [of "sv_nodes s" "pn_ID node"]
    by (auto simp: recordProbeResult_def pool_inv_def Let_def healthy_node_def intro!: nodes_ok_update)
next
  case (Some current)
  have ID: "pn_ID (rp_node current) = pn_ID node" using inv Some by (simp add: pool_inv_def Let_def nodes_ok_def)
  have "0 \<le> inflight_at (sv_nodes s) (pn_ID node)" "inflight_at (sv_nodes s) (pn_ID node) \<le> pc_MaxPerNode (normalize_pool_config cfg)"
    using inv by (auto simp: pool_inv_def Let_def)
  then show ?thesis using inv Some inflight_at_Some [OF Some] ID
    by (auto simp: recordProbeResult_def pool_inv_def Let_def healthy_node_def intro!: nodes_ok_update nodes_ok_delete invalidate_table)
qed

interpretation pool: invariant_machine "pool_init cfg" pool_step "pool_inv cfg" for cfg
proof
  show "pool_inv cfg t" if "pool_inv cfg s" "pool_step s t" for s t
    using that(2,1)
    by cases (auto intro: pool_inv_acquired pool_inv_refused pool_inv_released pool_inv_refreshed pool_inv_probed)
qed (rule pool_inv_init)


section \<open>Cooldowns\<close>

lemma cooldown_loop_capped: "0 < w \<Longrightarrow> min (cooldown_loop M n w) M = min (w * 2 ^ n) M"
proof (induction n arbitrary: w)
  case (Suc n)
  have grow: "w * 2 \<le> w * 2 ^ Suc n" "w \<le> w * 2 ^ Suc n"
    using Suc.prems mult_left_mono [of 1 "2 ^ n" "w * 2"] mult_left_mono [of 1 "2 ^ Suc n" w] one_le_power [of "2 :: int" "Suc n"]
    by (simp_all del: power_Suc) simp
  consider "M \<le> w" | "w < M" "M div 2 < w" | "w < M" "w \<le> M div 2" by linarith
  then show ?case
  proof cases
    case 3
    then show ?thesis using Suc.IH [of "w * 2"] Suc.prems by (simp add: mult.assoc)
  qed (use grow in auto)
qed simp

lemma cooldown_loop_le: "w \<le> M \<Longrightarrow> cooldown_loop M n w \<le> M"
  by (induction n arbitrary: w) auto

lemma jitter_bounds:
  assumes "\<And>n. 0 < n \<Longrightarrow> 0 \<le> draw n \<and> draw n < n" and "0 \<le> maxJitter"
  shows "wait \<le> jitter draw wait maxJitter" and "jitter draw wait maxJitter \<le> wait + maxJitter"
    and "10 \<le> wait \<Longrightarrow> jitter draw wait maxJitter \<le> wait + wait div 10"
proof -
  have d: "0 \<le> draw (b + 1) \<and> draw (b + 1) \<le> b" if "0 < b" for b using assms(1) [of "b + 1"] that by simp
  show "wait \<le> jitter draw wait maxJitter"
    using d [of "wait div 10"] d [of maxJitter] by (auto simp: jitter_def Let_def)
  show "jitter draw wait maxJitter \<le> wait + maxJitter"
    using d [of "wait div 10"] d [of maxJitter] assms(2) by (auto simp: jitter_def Let_def)
  show "jitter draw wait maxJitter \<le> wait + wait div 10" if "10 \<le> wait"
    using d [of "wait div 10"] d [of maxJitter] that by (auto simp: jitter_def Let_def)
qed

section \<open>Sample run\<close>

text \<open>A pool with one probed node, and the orders in which the maps are stored.\<close>

definition sample_order :: iteration where
  "sample_order = \<lparr>it_sticky = (\<lambda>xs. xs), it_nodes = (\<lambda>xs. xs)\<rparr>"

definition sample_config :: PoolConfig where
  "sample_config = DefaultConfig\<lparr>pc_Enabled := True\<rparr>"

definition sample_node :: ProxyNode where
  "sample_node = \<lparr>pn_ID = 7, pn_Enabled = True, pn_Status = ''probing'', pn_LatencyMS = 0, pn_SuccessCount = 0, pn_FailureCount = 0,
     pn_ConsecutiveFailure = 0, pn_CooldownUntil = None, pn_ExpiresAt = 1000\<rparr>"

definition sample_request :: ProxyRequest where
  "sample_request = \<lparr>pr_TargetType = ''check'', pr_TargetKey = ''quark'', pr_StickyKey = ''u1'', pr_ExcludeIDs = []\<rparr>"

definition sample_probed :: ProxyService where
  "sample_probed = recordProbeResult sample_node ''http://10.0.0.1:80'' True 20000000 (NewService sample_config)"

definition sample_lease :: Lease where
  "sample_lease = \<lparr>le_nodeID = 7, le_target = ''check:quark'', le_url = ''http://10.0.0.1:80'', le_started = 100\<rparr>"

definition sample_leased :: ProxyService where
  "sample_leased = fst (Acquire sample_order False 100 sample_request sample_probed)"

definition sample_proxy :: "int \<Rightarrow> runtimeProxy" where
  "sample_proxy i = \<lparr>rp_node = sample_node\<lparr>pn_ID := i\<rparr>, rp_url = [], rp_inflight = 0, rp_targets = Map.empty\<rparr>"

lemma sample_order_ok: "map_order sample_order"
  by (simp add: map_order_def sample_order_def)

lemma sample_probed_reachable: "pool_reachable sample_config (sample_probed, [])"
proof -
  have "pool_reachable sample_config (NewService sample_config, [])" by (rule reachable.reach_init) (simp add: pool_init_def)
  then show ?thesis unfolding sample_probed_def by (rule reachable.reach_step) (rule probed)
qed

lemma sample_acquire: "snd (Acquire sample_order False 100 sample_request sample_probed) = Inr sample_lease"
  by code_simp

lemma sample_leased_reachable: "pool_reachable sample_config (sample_leased, [sample_lease])"
proof -
  have "Acquire sample_order False 100 sample_request sample_probed = (sample_leased, Inr sample_lease)"
    by (simp add: prod_eq_iff sample_leased_def sample_acquire)
  from reachable.reach_step [OF sample_probed_reachable acquired [OF sample_order_ok this]] show ?thesis .
qed

section \<open>Sticky requests\<close>

lemma sticky_target_key: "CHR 0x00 \<notin> set t \<Longrightarrow> sticky_target (t @ [CHR 0x00] @ k) = t"
  by (induction t) (auto simp: sticky_target_def)

lemma available_usable: "proxyAvailableLocked cfg p t ex now \<Longrightarrow> stickyNodeUsableLocked p t now"
  by (auto simp: proxyAvailableLocked_def stickyNodeUsableLocked_def split: option.splits)

lemma cleanup_keeps:
  assumes "map_of (sv_sticky s) k = Some e" and "sticky_live s now (k, e)" and "distinct (map fst (sv_sticky s))"
    and "int (length (sv_sticky s)) \<le> pc_StickyMaxEntries (sv_cfg s)"
  shows "map_of (sv_sticky (cleanupStickyLocked ord now force s)) k = Some e"
proof -
  define live where "live = filter (sticky_live s now) (sv_sticky s)"
  have "length live \<le> length (sv_sticky s)" by (simp add: live_def)
  then have "nat (int (length live) - pc_StickyMaxEntries (sv_cfg s)) = 0" using assms(4) by simp
  moreover have "map_of live k = Some e" unfolding live_def map_of_filter_distinct [OF assms(3)] using assms(1,2) by simp
  ultimately show ?thesis using assms(1) by (simp add: cleanupStickyLocked_def Let_def live_def [symmetric])
qed

section \<open>Properties\<close>

text \<open>C2: Leases are accounted for: in every reachable state the pool counts the leases that are out, each node counts
  the leases on it and never more than \<open>MaxPerNode\<close>, a node with a lease out is still in the pool, and the sticky table
  holds at most one entry more than its limit.\<close>

theorem pool_leases:
  assumes "pool_reachable cfg (s, ls)"
  shows "sv_inUse s = int (length ls)
    \<and> (\<forall>i. inflight_at (sv_nodes s) i = leases_on ls i \<and> leases_on ls i \<le> pc_MaxPerNode (sv_cfg s))
    \<and> (\<forall>lease\<in>set ls. map_of (sv_nodes s) (le_nodeID lease) \<noteq> None)
    \<and> int (length (sv_sticky s)) \<le> pc_StickyMaxEntries (sv_cfg s) + 1"
proof -
  have inv: "pool_inv cfg (s, ls)" using assms by (rule pool.reachable_inv)
  have "map_of (sv_nodes s) (le_nodeID lease) \<noteq> None" if "lease \<in> set ls" for lease
  proof -
    have "0 < leases_on ls (le_nodeID lease)"
      using that length_pos_if_in_set [of lease "filter (\<lambda>l. le_nodeID l = le_nodeID lease) ls"] by (simp add: leases_on_def)
    then have "inflight_at (sv_nodes s) (le_nodeID lease) \<noteq> 0" using inv by (auto simp: pool_inv_def Let_def)
    then show ?thesis by (auto simp: inflight_at_def split: option.splits)
  qed
  then show ?thesis using inv by (auto simp: pool_inv_def Let_def sticky_ok_def)
qed

theorem pool_leases_witness:
  "sv_inUse sample_leased = 1 \<and> inflight_at (sv_nodes sample_leased) 7 = 1 \<and> length (sv_sticky sample_leased) \<le> 100001"
proof -
  have "sv_cfg sample_leased = sample_config\<lparr>pc_MaxPerNode := 2\<rparr>" by code_simp
  then have "pc_StickyMaxEntries (sv_cfg sample_leased) = 100000" by (simp add: sample_config_def DefaultConfig_def)
  moreover have "leases_on [sample_lease] 7 = 1" by code_simp
  ultimately show ?thesis using pool_leases [OF sample_leased_reachable] by simp
qed


text \<open>C26: A lease is granted exactly when a node is available: when the pool is enabled and the caller has not given
  up, \<open>Acquire\<close> returns a lease on an available node of the pool with that node's URL, and it fails with \<open>ErrNoProxy\<close> only when
  no node is available.\<close>

theorem acquire_exact:
  assumes "pool_reachable cfg (s, ls)" and "map_order it" and "pc_Enabled (sv_cfg s)"
  shows "case snd (Acquire it False now request s) of
      Inl e \<Rightarrow> e = ErrNoProxy \<and> (\<forall>i p. map_of (sv_nodes s) i = Some p \<longrightarrow>
                 \<not> proxyAvailableLocked (sv_cfg s) (Some p) (request_target request) (pr_ExcludeIDs request) now)
    | Inr lease \<Rightarrow> (\<exists>p. map_of (sv_nodes s) (le_nodeID lease) = Some p \<and> le_url lease = rp_url p
                 \<and> proxyAvailableLocked (sv_cfg s) (Some p) (request_target request) (pr_ExcludeIDs request) now)"
proof -
  have ok: "nodes_ok (sv_nodes s)" using pool.reachable_inv [OF assms(1)] by (simp add: pool_inv_def Let_def)
  show ?thesis
  proof (cases "fst (chosen it now request s)")
    case None
    then show ?thesis using assms(3) chosen_None [OF assms(2) ok None] by (simp add: Acquire_chosen)
  next
    case (Some p)
    then show ?thesis using assms(3) chosen_Some [OF assms(2) ok Some] by (simp add: Acquire_chosen)
  qed
qed

theorem acquire_exact_witness:
  "\<exists>p. map_of (sv_nodes sample_probed) 7 = Some p \<and> rp_url p = ''http://10.0.0.1:80''
     \<and> proxyAvailableLocked (sv_cfg sample_probed) (Some p) ''check:quark'' [] 100"
proof -
  have "pc_Enabled (sv_cfg sample_probed)" by code_simp
  from acquire_exact [OF sample_probed_reachable sample_order_ok this, where now = 100 and request = sample_request]
  show ?thesis unfolding sample_acquire by (auto simp: sample_lease_def sample_request_def request_target_def)
qed

text \<open>C38: Selection does not depend on the order in which Go iterates the map of nodes: for candidates with distinct
  identifiers every strategy picks the same node for every order and leaves the same cursors; \<open>least_score\<close> picks a least
  score and, among those, the least identifier, and \<open>fill_first\<close> the least identifier.\<close>

theorem pick_order_independent:
  assumes "distinct (map (\<lambda>c. pn_ID (rp_node c)) cs)" and "mset ds = mset cs"
  shows "Pick sel target ds = Pick sel target cs
    \<and> (\<forall>p c. fst (Pick LeastScore target cs) = Some p \<and> c \<in> set cs \<longrightarrow>
          proxyScore p target < proxyScore c target
          \<or> proxyScore p target = proxyScore c target \<and> pn_ID (rp_node p) \<le> pn_ID (rp_node c))
    \<and> (\<forall>p c. fst (Pick FillFirst target cs) = Some p \<and> c \<in> set cs \<longrightarrow> pn_ID (rp_node p) \<le> pn_ID (rp_node c))"
  using Pick_perm [OF assms] Pick_least_score Pick_fill_first by blast

theorem pick_order_independent_witness:
  "Pick LeastScore ''t'' [sample_proxy 3, sample_proxy 2] = Pick LeastScore ''t'' [sample_proxy 2, sample_proxy 3]"
  using pick_order_independent [of "[sample_proxy 2, sample_proxy 3]" "[sample_proxy 3, sample_proxy 2]" LeastScore "''t''"]
  by (simp add: sample_proxy_def sample_node_def)

text \<open>with \<open>k\<close> failures past the threshold the wait is the base cooldown doubled \<open>k\<close> times, capped at \<open>CooldownMax\<close>;
  jitter only lengthens it, by at most \<open>CooldownJitter\<close> and never beyond the cap; no step of the loop exceeds the cap, so the doubling
  cannot overflow.\<close>

theorem failure_cooldown_bounds:
  assumes "\<And>n. 0 < n \<Longrightarrow> 0 \<le> draw n \<and> draw n < n" and "pc_FailureThreshold (normalize_pool_config cfg) \<le> consecutive"
  shows "let c = normalize_pool_config cfg; k = nat (consecutive - pc_FailureThreshold c);
             ideal = min (pc_Cooldown c * 2 ^ k) (pc_CooldownMax c); wait = failureCooldown draw c consecutive
         in ideal \<le> wait \<and> wait \<le> ideal + pc_CooldownJitter c \<and> wait \<le> pc_CooldownMax c
            \<and> cooldown_loop (pc_CooldownMax c) k (pc_Cooldown c) \<le> pc_CooldownMax c"
proof -
  define c where "c = normalize_pool_config cfg"
  define k where "k = nat (consecutive - pc_FailureThreshold c)"
  define ideal where "ideal = min (pc_Cooldown c * 2 ^ k) (pc_CooldownMax c)"
  have "failureCooldown draw c consecutive = min (jitter draw ideal (pc_CooldownJitter c)) (pc_CooldownMax c)"
    using assms(2) cooldown_loop_capped [of "pc_Cooldown c" "pc_CooldownMax c" k]
    by (simp add: failureCooldown_def Let_def c_def k_def ideal_def)
  moreover note jitter_bounds(1,2) [OF assms(1), where wait = ideal and maxJitter = "pc_CooldownJitter c"]
  moreover have "ideal \<le> pc_CooldownMax c" by (simp add: ideal_def)
  moreover have "cooldown_loop (pc_CooldownMax c) k (pc_Cooldown c) \<le> pc_CooldownMax c" by (rule cooldown_loop_le) (simp add: c_def)
  ultimately show ?thesis by (auto simp: Let_def c_def [symmetric] k_def [symmetric] ideal_def [symmetric]) (auto simp: c_def)
qed

theorem failure_cooldown_bounds_witness:
  "20 * Minute \<le> failureCooldown (\<lambda>n. 0) DefaultConfig 5 \<and> failureCooldown (\<lambda>n. 0) DefaultConfig 5 \<le> 20 * Minute + 30 * Second"
proof -
  have "normalize_pool_config DefaultConfig = DefaultConfig" by code_simp
  with failure_cooldown_bounds [of "\<lambda>n. 0" DefaultConfig 5] show ?thesis
    by (simp add: Let_def DefaultConfig_def duration_defs)
qed

text \<open>A sticky request keeps its node: while the sticky table is within its limit, the entry of the request has not
  expired and its node is available, \<open>Acquire\<close> leases that very node and renews the entry.\<close>

theorem sticky_acquire:
  assumes "pool_reachable cfg (s, ls)" and "pc_Enabled (sv_cfg s)"
    and "int (length (sv_sticky s)) \<le> pc_StickyMaxEntries (sv_cfg s)"
    and "pr_StickyKey request \<noteq> []" and "CHR 0x00 \<notin> set (request_target request)"
    and "map_of (sv_sticky s) (sticky_key request) = Some e" and "now < st_expiresAt e"
    and "proxyAvailableLocked (sv_cfg s) (map_of (sv_nodes s) (st_nodeID e)) (request_target request) (pr_ExcludeIDs request) now"
  shows "\<exists>s' lease. Acquire it False now request s = (s', Inr lease) \<and> le_nodeID lease = st_nodeID e
    \<and> map_of (sv_sticky s') (sticky_key request) =
        Some \<lparr>st_nodeID = st_nodeID e, st_expiresAt = now + pc_StickyTTL (sv_cfg s), st_lastUsed = now\<rparr>"
proof -
  have ok: "nodes_ok (sv_nodes s)" "distinct (map fst (sv_sticky s))"
    using pool.reachable_inv [OF assms(1)] by (auto simp: pool_inv_def Let_def sticky_ok_def)
  have key: "sticky_key request = request_target request @ [CHR 0x00] @ pr_StickyKey request" using assms(4) by (simp add: sticky_key_def)
  obtain p where p: "map_of (sv_nodes s) (st_nodeID e) = Some p"
    using assms(8) by (cases "map_of (sv_nodes s) (st_nodeID e)") (auto simp: proxyAvailableLocked_def)
  have ID: "pn_ID (rp_node p) = st_nodeID e" using ok p by (simp add: nodes_ok_def)
  have "sticky_live s now (sticky_key request, e)"
    using assms(7) available_usable [OF assms(8)] sticky_target_key [OF assms(5)] by (simp add: sticky_live_def key)
  from cleanup_keeps [OF assms(6) this ok(2) assms(3)]
  have "fst (chosen it now request s) = Some p"
    using assms(4,7,8) p by (simp add: chosen_def acquire_sticky_def Let_def)
  then show ?thesis using assms(2) ID key
    by (simp add: Acquire_chosen) (simp add: grant_def Let_def update_conv)
qed

theorem sticky_acquire_witness:
  "\<exists>s' lease. Acquire sample_order False 200 sample_request sample_leased = (s', Inr lease) \<and> le_nodeID lease = 7"
proof -
  let ?e = "\<lparr>st_nodeID = 7, st_expiresAt = 100 + Hour, st_lastUsed = 100\<rparr>"
  have "pc_Enabled (sv_cfg sample_leased)" "int (length (sv_sticky sample_leased)) \<le> pc_StickyMaxEntries (sv_cfg sample_leased)"
    "pr_StickyKey sample_request \<noteq> []" "CHR 0x00 \<notin> set (request_target sample_request)"
    "map_of (sv_sticky sample_leased) (sticky_key sample_request) = Some ?e" "200 < st_expiresAt ?e"
    "proxyAvailableLocked (sv_cfg sample_leased) (map_of (sv_nodes sample_leased) (st_nodeID ?e)) (request_target sample_request)
       (pr_ExcludeIDs sample_request) 200"
    by code_simp+
  from sticky_acquire [OF sample_leased_reachable this, of sample_order] show ?thesis by auto
qed

text \<open>A node that has left the repository can be leased again: it stays in the pool while a lease is out, and a successful
  release marks it healthy, after which \<open>Acquire\<close> hands it out although no refresh has listed it.\<close>

theorem removed_proxy_leased_again:
  "let s = Refresh sample_order (\<lambda>_. None) 200 [] [] [] sample_leased;
       out = \<lparr>po_Success = True, po_FailureScope = [], po_RetryAfter = 0, po_Latency = 0\<rparr>;
       s' = fst (Release (\<lambda>_ _. 0) 300 sample_lease out s)
   in pool_reachable sample_config (s', [])
      \<and> (\<exists>lease. snd (Acquire sample_order False 200 sample_request s) = Inl ErrNoProxy
           \<and> snd (Acquire sample_order False 400 sample_request s') = Inr lease \<and> le_nodeID lease = 7)"
proof -
  define s where "s = Refresh sample_order (\<lambda>_. None) 200 [] [] [] sample_leased"
  define out where "out = \<lparr>po_Success = True, po_FailureScope = [], po_RetryAfter = 0, po_Latency = 0\<rparr>"
  define s' where "s' = fst (Release (\<lambda>_ _. 0) 300 sample_lease out s)"
  have s: "pool_reachable sample_config (s, [sample_lease])"
    unfolding s_def by (rule reachable.reach_step [OF sample_leased_reachable refreshed [OF sample_order_ok]])
  have rel: "Release (\<lambda>_ _. 0) 300 sample_lease out s = (s', snd (Release (\<lambda>_ _. 0) 300 sample_lease out s))"
    by (simp add: s'_def)
  have "pool_reachable sample_config (s', [])"
    using reachable.reach_step [OF s released [where xs = "[]" and ys = "[]", OF rel, simplified]] .
  moreover have "snd (Acquire sample_order False 200 sample_request s) = Inl ErrNoProxy"
    unfolding s_def by code_simp
  moreover have "map_sum id le_nodeID (snd (Acquire sample_order False 400 sample_request s')) = Inr 7"
    unfolding s'_def out_def s_def by code_simp
  ultimately show ?thesis unfolding s_def [symmetric] out_def [symmetric] Let_def
    by (cases "snd (Acquire sample_order False 400 sample_request s')") (auto simp: s'_def)
qed

end
