(* ===== verification/Go_Decimal.thy ===== *)
theory Go_Decimal
  imports Go_Prelude
begin

text \<open>
  Decimal numerals of \<^verbatim>\<open>strconv\<close>: \<open>itoa\<close> is \<open>FormatInt\<close> in base ten, \<open>atoi\<close> is \<open>Atoi\<close> for 64-bit integers, with its
  rejection of empty, malformed and out-of-range texts. The two are inverse on the 64-bit range.
\<close>

section \<open>Numerals\<close>

definition int64_max :: int where "int64_max = 2 ^ 63 - 1"
definition int64_min :: int where "int64_min = - (2 ^ 63)"

definition in_int64 :: "int \<Rightarrow> bool" where
  "in_int64 v \<longleftrightarrow> int64_min \<le> v \<and> v \<le> int64_max"

definition digit_char :: "nat \<Rightarrow> char" where
  "digit_char d = char_of (48 + d)"

fun decimal :: "nat \<Rightarrow> string" where
  "decimal n = (if n < 10 then [digit_char n] else decimal (n div 10) @ [digit_char (n mod 10)])"

declare decimal.simps [simp del]

definition itoa :: "int \<Rightarrow> string" where
  "itoa v = (if v < 0 then CHR ''-'' # decimal (nat (- v)) else decimal (nat v))"

definition is_digit :: "char \<Rightarrow> bool" where
  "is_digit c \<longleftrightarrow> 48 \<le> (of_char c :: nat) \<and> (of_char c :: nat) \<le> 57"

definition decimal_value :: "string \<Rightarrow> nat" where
  "decimal_value s = foldl (\<lambda>v c. v * 10 + (of_char c - 48)) 0 s"

definition atoi :: "string \<Rightarrow> int option" where
  "atoi s =
     (let (neg, ds) = (case s of [] \<Rightarrow> (False, []) | c # cs \<Rightarrow>
                         if c = CHR ''-'' then (True, cs) else if c = CHR ''+'' then (False, cs) else (False, s))
      in if ds = [] \<or> \<not> list_all is_digit ds then None
         else let v = (if neg then - int (decimal_value ds) else int (decimal_value ds))
              in if in_int64 v then Some v else None)"

section \<open>Round trip\<close>

lemma digit_char_value: "d < 10 \<Longrightarrow> of_char (digit_char d) = 48 + d"
  by (simp add: digit_char_def)

lemma is_digit_digit_char: "d < 10 \<Longrightarrow> is_digit (digit_char d)"
  by (simp add: is_digit_def digit_char_value)

lemma decimal_digits: "list_all is_digit (decimal n)"
  by (induction n rule: decimal.induct) (subst decimal.simps, auto simp: is_digit_digit_char)

lemma decimal_nonempty [simp]: "decimal n \<noteq> []"
  by (subst decimal.simps) simp

lemma decimal_value_snoc: "decimal_value (s @ [c]) = decimal_value s * 10 + (of_char c - 48)"
  by (simp add: decimal_value_def)

lemma decimal_value_decimal: "decimal_value (decimal n) = n"
proof (induction n rule: decimal.induct)
  case (1 n)
  show ?case
  proof (cases "n < 10")
    case True
    then show ?thesis by (subst decimal.simps) (simp add: decimal_value_def digit_char_value)
  next
    case False
    then show ?thesis using 1 by (subst decimal.simps) (simp add: decimal_value_snoc digit_char_value)
  qed
qed

lemma is_digit_no_sign: "is_digit c \<Longrightarrow> c \<noteq> CHR ''-'' \<and> c \<noteq> CHR ''+''"
  unfolding is_digit_def by (intro conjI notI) simp_all

lemma atoi_itoa: "in_int64 v \<Longrightarrow> atoi (itoa v) = Some v"
proof -
  assume v: "in_int64 v"
  have "atoi (decimal (nat v)) = Some v" if "0 \<le> v"
    using v that decimal_digits [of "nat v"] decimal_value_decimal [of "nat v"]
    by (cases "decimal (nat v)") (auto simp: atoi_def dest: is_digit_no_sign)
  moreover have "atoi (CHR ''-'' # decimal (nat (- v))) = Some v" if "v < 0"
    using v that decimal_digits [of "nat (- v)"] decimal_value_decimal [of "nat (- v)"] by (simp add: atoi_def)
  ultimately show ?thesis by (auto simp: itoa_def)
qed

lemma atoi_range: "atoi s = Some v \<Longrightarrow> in_int64 v"
  by (auto simp: atoi_def Let_def split: if_splits list.splits)

lemma itoa_nonneg_digits: "0 \<le> v \<Longrightarrow> list_all is_digit (itoa v)"
  by (simp add: itoa_def decimal_digits)

end
