(* ===== verification/Keyword_Path.thy ===== *)
theory Keyword_Path
  imports Go_Decimal "HOL-Library.List_Lexorder" "HOL-Library.Char_ord"
begin

text \<open>
  The JSON path language of \<^verbatim>\<open>src/keywordsource/path.go\<close>: parsing of paths, extraction of scalar values, keyword
  normalisation, and the discovery of candidate paths.

  A document is what \<open>encoding/json\<close> decodes with \<open>UseNumber\<close>: numbers keep their text. Objects are association lists; the code
  reads them by key or in sorted key order.
\<close>

section \<open>Model: paths\<close>

datatype PathSegment = SegmentField string | SegmentIndex int | SegmentWildcard

datatype path_error =
  EmptyPath | EmptyField nat | InvalidField nat | UnclosedSelector nat | InvalidIndex string
| UnexpectedCharacter nat | MissingField nat | NoSegments | FieldNeedsObject string | IndexNeedsArray int | WildcardNeedsArray
| ErrObjectResult | UnsupportedTerminal

definition has_space :: "string \<Rightarrow> bool" where
  "has_space s \<longleftrightarrow> list_ex (contains s) space_runes"

definition selector_segment :: "string \<Rightarrow> path_error + PathSegment" where
  "selector_segment selector =
     (if selector = [] then Inr SegmentWildcard
      else case atoi selector of
             None \<Rightarrow> Inl (InvalidIndex selector)
           | Some index \<Rightarrow> if index < 0 then Inl (InvalidIndex selector) else Inr (SegmentIndex index))"

text \<open>The inner loop over selectors: position, rest of the path and segments so far.\<close>

function parse_selectors :: "nat \<Rightarrow> string \<Rightarrow> PathSegment list \<Rightarrow> path_error + (nat \<times> string \<times> PathSegment list)" where
  "parse_selectors i s segments =
     (case s of
        [] \<Rightarrow> Inr (i, [], segments)
      | c # cs \<Rightarrow>
          if c \<noteq> CHR ''['' then Inr (i, s, segments)
          else let body = takeWhile (\<lambda>x. x \<noteq> CHR '']'') cs; rest = dropWhile (\<lambda>x. x \<noteq> CHR '']'') cs
               in if rest = [] then Inl (UnclosedSelector i)
                  else case selector_segment (trim_space body) of
                         Inl e \<Rightarrow> Inl e
                       | Inr seg \<Rightarrow> parse_selectors (i + length body + 2) (tl rest) (segments @ [seg]))"
  by pat_completeness auto
termination
proof (relation "measure (\<lambda>(i, s, segments). length s)")
  fix cs :: string
  have "length (tl (dropWhile P cs)) \<le> length cs" for P using length_dropWhile_le [of P cs] by simp
  then show "((i', tl x, sg'), (i, s, sg)) \<in> measure (\<lambda>(i, s, segments). length s)"
    if "s = c # cs" "x = dropWhile P cs" for c P x i i' s and sg sg' :: "PathSegment list"
    using that by (simp add: less_Suc_eq_le)
qed simp

declare parse_selectors.simps [simp del]

definition field_byte :: "char \<Rightarrow> bool" where
  "field_byte c \<longleftrightarrow> c \<noteq> CHR ''.'' \<and> c \<noteq> CHR ''[''"

lemma parse_selectors_length:
  "parse_selectors i s segments = Inr (i', rest, segments') \<Longrightarrow> length rest \<le> length s"
proof (induction i s segments rule: parse_selectors.induct)
  case (1 i s segments)
  show ?case
  proof (cases s)
    case (Cons c cs)
    define body where "body = takeWhile (\<lambda>x. x \<noteq> CHR '']'') cs"
    define r where "r = dropWhile (\<lambda>x. x \<noteq> CHR '']'') cs"
    have len: "length (tl r) \<le> length cs" using length_dropWhile_le [of "\<lambda>x. x \<noteq> CHR '']''" cs] by (simp add: r_def)
    show ?thesis
      using 1(1) [OF Cons _ body_def r_def] 1(2) Cons len
      by (subst (asm) parse_selectors.simps) (fastforce simp: Let_def body_def [symmetric] r_def [symmetric] split: if_splits sum.splits)
  qed (use 1(2) in \<open>simp add: parse_selectors.simps\<close>)
qed

text \<open>The outer loop: a field unless a selector comes first, then selectors, then the end or a dot and another field.\<close>

function parse_loop :: "nat \<Rightarrow> string \<Rightarrow> PathSegment list \<Rightarrow> path_error + PathSegment list" where
  "parse_loop i s segments =
     (case s of
        [] \<Rightarrow> Inr segments
      | c # cs \<Rightarrow>
          if c = CHR ''.'' then Inl (EmptyField i)
          else let name = takeWhile field_byte s; rest = dropWhile field_byte s; field = trim_space name
               in if c \<noteq> CHR ''['' \<and> (field = [] \<or> has_space field) then Inl (InvalidField i)
                  else case parse_selectors (i + length name) rest
                              (if c \<noteq> CHR ''['' then segments @ [SegmentField field] else segments) of
                         Inl e \<Rightarrow> Inl e
                       | Inr (j, tail, segments) \<Rightarrow>
                           (case tail of
                              [] \<Rightarrow> Inr segments
                            | d # ds \<Rightarrow>
                                if d \<noteq> CHR ''.'' then Inl (UnexpectedCharacter j)
                                else if ds = [] \<or> hd ds = CHR ''.'' \<or> hd ds = CHR ''['' then Inl (MissingField (j + 1))
                                else parse_loop (j + 1) ds segments))"
  by pat_completeness auto
termination
proof (relation "measure (\<lambda>(i, s, segments). length s)")
  show "((j + 1, ds, sg'), (i, s, sg)) \<in> measure (\<lambda>(i, s, segments). length s)"
    if "parse_selectors k rest sg0 = Inr x" "(j, y) = x" "(tail, sg') = y" "tail = d # ds" "rest = dropWhile field_byte s"
    for i j k s d ds rest tail and sg sg' sg0 :: "PathSegment list" and x y
    using parse_selectors_length [of k rest sg0 j tail sg'] length_dropWhile_le [of field_byte s] that by auto
qed simp

declare parse_loop.simps [simp del]

definition ParsePath :: "string \<Rightarrow> path_error + PathSegment list" where
  "ParsePath path =
     (let path = trim_space path
      in if path = [] then Inl EmptyPath
         else case parse_loop 0 path [] of
                Inl e \<Rightarrow> Inl e
              | Inr segments \<Rightarrow> if segments = [] then Inl NoSegments else Inr segments)"

section \<open>Model: extraction\<close>

datatype json = JNull | JBool bool | JNumber string | JString string | JArray "json list" | JObject "(string \<times> json) list" | JOther

definition scalarText :: "json \<Rightarrow> string option" where
  "scalarText v =
     (case v of JString s \<Rightarrow> Some s | JNumber n \<Rightarrow> Some n | JBool b \<Rightarrow> Some (if b then ''true'' else ''false'') | _ \<Rightarrow> None)"

definition step_node :: "PathSegment \<Rightarrow> json \<Rightarrow> path_error + json list" where
  "step_node segment node =
     (if node = JNull then Inr []
      else case segment of
             SegmentField f \<Rightarrow>
               (case node of JObject kvs \<Rightarrow> Inr (case map_of kvs f of None \<Rightarrow> [] | Some v \<Rightarrow> [v]) | _ \<Rightarrow> Inl (FieldNeedsObject f))
           | SegmentIndex i \<Rightarrow>
               (case node of JArray xs \<Rightarrow> Inr (if i < int (length xs) then [xs ! nat i] else []) | _ \<Rightarrow> Inl (IndexNeedsArray i))
           | SegmentWildcard \<Rightarrow> (case node of JArray xs \<Rightarrow> Inr xs | _ \<Rightarrow> Inl WildcardNeedsArray))"

fun step_nodes :: "PathSegment \<Rightarrow> json list \<Rightarrow> json list \<Rightarrow> path_error + json list" where
  "step_nodes segment [] acc = Inr acc"
| "step_nodes segment (n # ns) acc =
     (case step_node segment n of Inl e \<Rightarrow> Inl e | Inr ms \<Rightarrow> step_nodes segment ns (acc @ ms))"

fun walk_segments :: "PathSegment list \<Rightarrow> json list \<Rightarrow> path_error + json list" where
  "walk_segments [] nodes = Inr nodes"
| "walk_segments (seg # segs) nodes =
     (case step_nodes seg nodes [] of Inl e \<Rightarrow> Inl e | Inr ms \<Rightarrow> walk_segments segs ms)"

fun appendScalarValues :: "string list \<Rightarrow> json \<Rightarrow> path_error + string list"
  and appendAll :: "string list \<Rightarrow> json list \<Rightarrow> path_error + string list" where
  "appendScalarValues values JNull = Inr values"
| "appendScalarValues values (JArray xs) = appendAll values xs"
| "appendScalarValues values (JObject kvs) = Inl ErrObjectResult"
| "appendScalarValues values v =
     (case scalarText v of None \<Rightarrow> Inl UnsupportedTerminal | Some text \<Rightarrow> Inr (values @ [text]))"
| "appendAll values [] = Inr values"
| "appendAll values (x # xs) = (case appendScalarValues values x of Inl e \<Rightarrow> Inl e | Inr vs \<Rightarrow> appendAll vs xs)"

definition Extract :: "json \<Rightarrow> string \<Rightarrow> path_error + string list" where
  "Extract document path =
     (case ParsePath path of
        Inl e \<Rightarrow> Inl e
      | Inr segments \<Rightarrow> (case walk_segments segments [document] of Inl e \<Rightarrow> Inl e | Inr nodes \<Rightarrow> appendAll [] nodes))"

section \<open>Model: keywords\<close>

text \<open>\<open>strings.FieldsFunc\<close> with \<open>unicode.IsSpace\<close>: the maximal runs without a space.\<close>

function space_fields :: "string \<Rightarrow> string \<Rightarrow> string list" where
  "space_fields cur s =
     (case s of
        [] \<Rightarrow> (if cur = [] then [] else [cur])
      | c # cs \<Rightarrow>
          (case strip_any space_runes s of
             Some r \<Rightarrow> (if cur = [] then space_fields [] r else cur # space_fields [] r)
           | None \<Rightarrow> space_fields (cur @ [c]) cs))"
  by pat_completeness auto
termination
  by (relation "measure (\<lambda>(cur, s). length s)") (auto dest: strip_any_shorter)

declare space_fields.simps [simp del]

definition NormalizeKeyword :: "string \<Rightarrow> string" where
  "NormalizeKeyword v = to_lower (join_with '' '' (space_fields [] (trim_space v)))"

record KeywordValue =
  kv_Value :: string
  kv_Normalized :: string

record ExtractionResult =
  ex_Path :: string
  ex_RawCount :: nat
  ex_UniqueCount :: nat
  ex_Values :: "KeywordValue list"

fun unique_keywords :: "string list \<Rightarrow> string list \<Rightarrow> KeywordValue list" where
  "unique_keywords seen [] = []"
| "unique_keywords seen (v # vs) =
     (let v = trim_space v; normalized = NormalizeKeyword v
      in if normalized = [] \<or> normalized \<in> set seen then unique_keywords seen vs
         else \<lparr>kv_Value = v, kv_Normalized = normalized\<rparr> # unique_keywords (normalized # seen) vs)"

definition ExtractKeywords :: "json \<Rightarrow> string \<Rightarrow> path_error + ExtractionResult" where
  "ExtractKeywords document path =
     (case Extract document path of
        Inl e \<Rightarrow> Inl e
      | Inr raw \<Rightarrow>
          let vs = unique_keywords [] raw
          in Inr \<lparr>ex_Path = trim_space path, ex_RawCount = length raw, ex_UniqueCount = length vs, ex_Values = vs\<rparr>)"

section \<open>Model: discovery of paths\<close>

record candidateAccumulator =
  ca_count :: nat
  ca_samples :: "string list"
  ca_seen :: "string list"

record FieldCandidate =
  fc_Path :: string
  fc_Kind :: string
  fc_Count :: nat
  fc_Samples :: "string list"

definition count_text :: "string \<Rightarrow> candidateAccumulator \<Rightarrow> candidateAccumulator" where
  "count_text text item =
     (let item = item\<lparr>ca_count := ca_count item + 1\<rparr>
      in if length (ca_samples item) < 3 \<and> text \<notin> set (ca_seen item)
         then item\<lparr>ca_seen := text # ca_seen item, ca_samples := ca_samples item @ [text]\<rparr> else item)"

definition record_leaf :: "string \<Rightarrow> string \<Rightarrow> (string \<times> candidateAccumulator) list \<Rightarrow> (string \<times> candidateAccumulator) list" where
  "record_leaf path text result =
     AList.update path
       (count_text text (case map_of result path of None \<Rightarrow> \<lparr>ca_count = 0, ca_samples = [], ca_seen = []\<rparr> | Some item \<Rightarrow> item)) result"

definition child_path :: "string \<Rightarrow> string \<Rightarrow> string" where
  "child_path path key = (if path \<noteq> [] then path @ ''.'' @ key else key)"

lemma size_object_field: "(k, v) \<in> set kvs \<Longrightarrow> size v < size (JObject kvs)"
  by (induction kvs) auto

lemma size_array_item: "x \<in> set xs \<Longrightarrow> size x < size (JArray xs)"
  by (induction xs) auto

function walkCandidates :: "json \<Rightarrow> string \<Rightarrow> (string \<times> candidateAccumulator) list \<Rightarrow> (string \<times> candidateAccumulator) list" where
  "walkCandidates node path result =
     (case node of
        JObject kvs \<Rightarrow> foldl (\<lambda>r kv. walkCandidates (snd kv) (child_path path (fst kv)) r) result (sort_key fst kvs)
      | JArray xs \<Rightarrow> foldl (\<lambda>r x. walkCandidates x (path @ ''[]'') r) result xs
      | JNull \<Rightarrow> result
      | _ \<Rightarrow> (case scalarText node of None \<Rightarrow> result | Some text \<Rightarrow> if path = [] then result else record_leaf path text result))"
  by pat_completeness auto
termination
proof (relation "measure (\<lambda>(node, path, result). size node)")
  show "((snd kv, child_path path (fst kv), r), (node, path, result)) \<in> measure (\<lambda>(node, path, result). size node)"
    if "node = JObject kvs" "kv \<in> set (sort_key fst kvs)" for node path result kvs kv r
    using that size_object_field [of "fst kv" "snd kv" kvs] by simp
  show "((x, path @ ''[]'', r), (node, path, result)) \<in> measure (\<lambda>(node, path, result). size node)"
    if "node = JArray xs" "x \<in> set xs" for node path result xs x r
    using that size_array_item [of x xs] by simp
qed simp

declare walkCandidates.simps [simp del]

definition DiscoverFields :: "json \<Rightarrow> FieldCandidate list" where
  "DiscoverFields document =
     (let accumulators = walkCandidates document [] [];
          paths = sort (filter (\<lambda>p. p \<noteq> []) (map fst accumulators))
      in map (\<lambda>path. let item = the (map_of accumulators path)
                     in \<lparr>fc_Path = path, fc_Kind = (if contains path ''[]'' then ''array'' else ''scalar''),
                         fc_Count = ca_count item, fc_Samples = ca_samples item\<rparr>) paths)"

section \<open>Printing and parsing\<close>

text \<open>The segments a path can have, and the text of a path.\<close>

definition segment_ok :: "PathSegment \<Rightarrow> bool" where
  "segment_ok seg =
     (case seg of
        SegmentField f \<Rightarrow> f \<noteq> [] \<and> \<not> has_space f \<and> list_all field_byte f
      | SegmentIndex i \<Rightarrow> 0 \<le> i \<and> i \<le> int64_max
      | SegmentWildcard \<Rightarrow> True)"

definition print_selector :: "PathSegment \<Rightarrow> string" where
  "print_selector seg =
     (case seg of SegmentField f \<Rightarrow> ''.'' @ f | SegmentIndex i \<Rightarrow> ''['' @ itoa i @ '']'' | SegmentWildcard \<Rightarrow> ''[]'')"

definition print_path :: "PathSegment list \<Rightarrow> string" where
  "print_path segs =
     (case segs of
        [] \<Rightarrow> []
      | seg # rest \<Rightarrow> (case seg of SegmentField f \<Rightarrow> f | _ \<Rightarrow> print_selector seg) @ concat (map print_selector rest))"

end
