(* ===== verification/Keyword_Path_Laws.thy ===== *)
theory Keyword_Path_Laws
  imports Keyword_Path
begin

text \<open>
  Laws of the path language: printing and parsing are inverse, parsed segments are well-formed, the breadth-first
  evaluation of the code computes the compositional meaning of a path, normalised keywords are fixed points, and the discovered
  candidates can be extracted.
\<close>

section \<open>Spaces\<close>

lemma contains_split:
  assumes "contains (xs @ c # ys) p" and "c \<notin> set p" and "p \<noteq> []"
  shows "contains xs p \<or> contains ys p"
proof -
  obtain a b where ab: "xs @ c # ys = a @ p @ b" using assms(1) by (auto simp: contains_iff)
  consider (left) "length (a @ p) \<le> length xs" | (right) "length xs < length a" | (mid) "length a \<le> length xs" "length xs < length (a @ p)"
    by linarith
  then show ?thesis
  proof cases
    case left
    have "a @ p = take (length (a @ p)) xs" using arg_cong [OF ab, of "take (length (a @ p))"] left by simp
    then have "xs = a @ p @ drop (length (a @ p)) xs" by (metis append.assoc append_take_drop_id)
    then show ?thesis by (auto simp: contains_iff)
  next
    case right
    then have "take (length xs + 1) a = xs @ [c]" using arg_cong [OF ab, of "take (length xs + 1)"] by simp
    then have "a = xs @ [c] @ drop (length xs + 1) a" by (metis append.assoc append_take_drop_id)
    then have "ys = drop (length xs + 1) a @ p @ b" using ab by (metis append.assoc append_Cons append_Nil same_append_eq list.inject)
    then show ?thesis by (auto simp: contains_iff)
  next
    case mid
    have "(xs @ c # ys) ! length xs = (a @ p @ b) ! length xs" by (simp only: ab)
    moreover have len: "length xs - length a < length p" using mid by simp
    ultimately have "c = p ! (length xs - length a)" using mid by (simp add: nth_append split: if_splits)
    with len have "c \<in> set p" by simp
    with assms(2) show ?thesis by simp
  qed
qed

lemma space_runes_nonempty: "p \<in> set space_runes \<Longrightarrow> p \<noteq> []"
  by (auto simp: space_runes_def)

lemma has_space_split: "has_space (xs @ c # ys) \<Longrightarrow> c \<notin> set space_bytes \<Longrightarrow> has_space xs \<or> has_space ys"
  unfolding has_space_def list_ex_iff using contains_split [of xs c ys] space_runes_bytes space_runes_nonempty by blast

lemma no_space_bytes: "set s \<inter> set space_bytes = {} \<Longrightarrow> \<not> has_space s"
proof
  assume disj: "set s \<inter> set space_bytes = {}" and "has_space s"
  then obtain p where p: "p \<in> set space_runes" "contains s p" by (auto simp: has_space_def list_ex_iff)
  then have "set p \<subseteq> set s" by (auto simp: contains_iff)
  moreover have "set p \<subseteq> set space_bytes" using p(1) space_runes_bytes by blast
  moreover obtain c where "c \<in> set p" using space_runes_nonempty [OF p(1)] by (cases p) auto
  ultimately show False using disj by blast
qed

lemma strip_any_no_space: "\<not> has_space s \<Longrightarrow> strip_any space_runes s = None"
  unfolding strip_any_None_iff has_space_def list_ex_iff using contains_has_prefix by blast

lemma strip_any_no_space_rev: "\<not> has_space s \<Longrightarrow> strip_any (map rev space_runes) (rev s) = None"
  unfolding strip_any_None_iff has_space_def list_ex_iff
  by (auto simp: has_prefix_iff contains_iff) (metis append_Nil2 rev_append rev_rev_ident)

lemma trim_space_no_space: "\<not> has_space s \<Longrightarrow> trim_space s = s"
  by (simp add: trim_space_def trim_runes_def trim_right_def trim_left_id strip_any_no_space strip_any_no_space_rev)

lemma path_bytes_not_space [simp]:
  "CHR ''.'' \<notin> set space_bytes" "CHR ''['' \<notin> set space_bytes" "CHR '']'' \<notin> set space_bytes"
  by (simp_all add: space_bytes_def)

lemma digit_not_space: "is_digit c \<Longrightarrow> c \<notin> set space_bytes"
  by (auto simp: is_digit_def space_bytes_def)

lemma itoa_bytes:
  assumes "0 \<le> i"
  shows "\<not> has_space (itoa i)" "CHR '']'' \<notin> set (itoa i)" "itoa i \<noteq> []"
proof -
  have digits: "\<forall>c\<in>set (itoa i). is_digit c" using itoa_nonneg_digits [OF assms] by (simp add: list_all_iff)
  show "\<not> has_space (itoa i)" using digits digit_not_space by (intro no_space_bytes) blast
  show "CHR '']'' \<notin> set (itoa i)" using digits by (auto simp: is_digit_def)
  show "itoa i \<noteq> []" by (simp add: itoa_def)
qed

section \<open>Printing and parsing are inverse\<close>

definition is_selector :: "PathSegment \<Rightarrow> bool" where
  "is_selector seg = (case seg of SegmentField f \<Rightarrow> False | _ \<Rightarrow> True)"

lemma parse_one_selector:
  assumes "is_selector seg" and "segment_ok seg"
  shows "\<exists>n. parse_selectors i (print_selector seg @ t) acc = parse_selectors n t (acc @ [seg])"
proof (cases seg)
  case (SegmentIndex k)
  have k: "0 \<le> k" "in_int64 k" using assms(2) SegmentIndex by (simp_all add: segment_ok_def in_int64_def int64_min_def)
  have tw: "takeWhile (\<lambda>x. x \<noteq> CHR '']'') (itoa k @ CHR '']'' # t) = itoa k"
    and dw: "dropWhile (\<lambda>x. x \<noteq> CHR '']'') (itoa k @ CHR '']'' # t) = CHR '']'' # t"
    using itoa_bytes(2) [OF k(1)] by (auto simp: takeWhile_append dropWhile_append)
  have "selector_segment (trim_space (itoa k)) = Inr (SegmentIndex k)"
    using k itoa_bytes [OF k(1)] by (simp add: selector_segment_def trim_space_no_space atoi_itoa)
  then show ?thesis
    by (subst parse_selectors.simps) (auto simp: SegmentIndex print_selector_def tw dw)
next
  case SegmentWildcard
  have "selector_segment (trim_space []) = Inr SegmentWildcard" by (simp add: selector_segment_def trim_space_no_space has_space_def
    list_ex_iff space_runes_def)
  then show ?thesis by (subst parse_selectors.simps) (auto simp: SegmentWildcard print_selector_def)
qed (use assms in \<open>simp add: is_selector_def\<close>)

lemma parse_selectors_print:
  assumes "list_all is_selector sels" and "list_all segment_ok sels" and "t = [] \<or> hd t \<noteq> CHR ''[''"
  shows "\<exists>n. parse_selectors i (concat (map print_selector sels) @ t) acc = Inr (n, t, acc @ sels)"
  using assms
proof (induction sels arbitrary: i acc)
  case Nil
  then show ?case by (subst parse_selectors.simps) (auto split: list.splits)
next
  case (Cons seg sels)
  obtain n where "parse_selectors i (print_selector seg @ concat (map print_selector sels) @ t) acc =
      parse_selectors n (concat (map print_selector sels) @ t) (acc @ [seg])"
    using parse_one_selector [of seg] Cons.prems by fastforce
  then show ?case using Cons.IH [of n "acc @ [seg]"] Cons.prems by simp
qed

lemma selector_text: "is_selector seg \<Longrightarrow> \<exists>t. print_selector seg = CHR ''['' # t"
  by (cases seg) (auto simp: is_selector_def print_selector_def)

text \<open>After the selectors of a field comes nothing, or a dot and the path that remains.\<close>

lemma print_rest:
  "concat (map print_selector segs) =
     concat (map print_selector (takeWhile is_selector segs))
     @ (case dropWhile is_selector segs of [] \<Rightarrow> [] | r \<Rightarrow> CHR ''.'' # print_path r)"
proof -
  have "concat (map print_selector r) = CHR ''.'' # print_path r" if "r = dropWhile is_selector segs" "r \<noteq> []" for r
  proof -
    have "\<not> is_selector (hd r)" using that hd_dropWhile by blast
    with that(2) show ?thesis by (cases r; cases "hd r") (auto simp: is_selector_def print_selector_def print_path_def)
  qed
  moreover have "concat (map print_selector segs) =
      concat (map print_selector (takeWhile is_selector segs)) @ concat (map print_selector (dropWhile is_selector segs))"
    by (metis concat_append map_append takeWhile_dropWhile_id)
  ultimately show ?thesis by (cases "dropWhile is_selector segs") (simp_all del: dropWhile_eq_Nil_conv)
qed

lemma print_path_start:
  assumes "segs \<noteq> []" and "list_all segment_ok segs"
  shows "print_path segs \<noteq> [] \<and> hd (print_path segs) \<noteq> CHR ''.''
    \<and> (hd (print_path segs) = CHR ''['' \<longleftrightarrow> is_selector (hd segs))"
proof (cases segs)
  case (Cons seg rest)
  show ?thesis
  proof (cases seg)
    case (SegmentField f)
    then have "f \<noteq> []" "field_byte (hd f)" using assms Cons by (auto simp: segment_ok_def list_all_iff)
    then show ?thesis using Cons SegmentField by (auto simp: print_path_def is_selector_def field_byte_def)
  qed (use Cons in \<open>auto simp: print_path_def print_selector_def is_selector_def\<close>)
qed (use assms in simp)


lemma field_split:
  assumes "list_all field_byte f" and "t = [] \<or> \<not> field_byte (hd t)"
  shows "takeWhile field_byte (f @ t) = f" and "dropWhile field_byte (f @ t) = t"
  using assms by (induction f) (auto simp: takeWhile_eq_Nil_iff dropWhile_eq_self_iff)

lemma parse_print_loop:
  "segs \<noteq> [] \<Longrightarrow> list_all segment_ok segs \<Longrightarrow> parse_loop i (print_path segs) acc = Inr (acc @ segs)"
proof (induction "length segs" arbitrary: segs i acc rule: less_induct)
  case less
  obtain seg rest where segs: "segs = seg # rest" using less.prems by (cases segs) auto
  define sels where "sels = takeWhile is_selector rest"
  define r where "r = dropWhile is_selector rest"
  define t where "t = (case r of [] \<Rightarrow> [] | _ \<Rightarrow> CHR ''.'' # print_path r)"
  have rest: "rest = sels @ r" by (simp add: sels_def r_def)
  have tx: "concat (map print_selector rest) = concat (map print_selector sels) @ t"
    by (subst print_rest) (cases r; simp add: sels_def r_def t_def del: dropWhile_eq_Nil_conv)
  have ok: "list_all segment_ok r" "list_all segment_ok sels" using less.prems segs rest by auto
  have sel: "list_all is_selector sels" unfolding sels_def list_all_iff by (metis set_takeWhileD)
  have t: "t = [] \<or> hd t \<noteq> CHR ''[''" by (auto simp: t_def split: list.splits)
  have cont: "(case t of [] \<Rightarrow> Inr a | d # ds \<Rightarrow> if d \<noteq> CHR ''.'' then Inl (UnexpectedCharacter j)
       else if ds = [] \<or> hd ds = CHR ''.'' \<or> hd ds = CHR ''['' then Inl (MissingField (j + 1)) else parse_loop (j + 1) ds a) = Inr (a @ r)"
    for a j
  proof (cases "r = []")
    case False
    moreover have "\<not> is_selector (hd r)" using False hd_dropWhile unfolding r_def by blast
    moreover have "length r < length segs" by (simp add: segs rest)
    ultimately show ?thesis using less.hyps [of r] print_path_start [OF False ok(1)] ok by (auto simp: t_def split: list.splits)
  qed (simp add: t_def)
  show ?case
  proof (cases "is_selector seg")
    case True
    obtain n where "parse_selectors i (concat (map print_selector (seg # sels)) @ t) acc = Inr (n, t, acc @ seg # sels)"
      using parse_selectors_print [of "seg # sels" t i acc] True sel ok t less.prems segs by auto
    moreover have "print_path segs = concat (map print_selector (seg # sels)) @ t"
      using True tx by (cases seg) (auto simp: segs print_path_def is_selector_def)
    moreover obtain u where "print_selector seg = CHR ''['' # u" using selector_text [OF True] by blast
    ultimately show ?thesis using cont [of "acc @ seg # sels"]
      by (subst parse_loop.simps) (simp add: field_byte_def segs rest)
  next
    case False
    then obtain f where f: "seg = SegmentField f" by (cases seg) (auto simp: is_selector_def)
    have fok: "f \<noteq> []" "\<not> has_space f" "list_all field_byte f" using less.prems segs f by (simp_all add: segment_ok_def)
    define u where "u = concat (map print_selector sels) @ t"
    have u: "u = [] \<or> \<not> field_byte (hd u)"
    proof (cases sels)
      case (Cons a sels')
      then show ?thesis using sel selector_text [of a] by (auto simp: u_def field_byte_def)
    qed (auto simp: u_def t_def field_byte_def split: list.splits)
    have tx': "print_path segs = f @ u" using tx by (simp add: segs f print_path_def u_def)
    obtain n where "parse_selectors (i + length f) u (acc @ [seg]) = Inr (n, t, acc @ seg # sels)"
      using parse_selectors_print [OF sel ok(2) t, of "i + length f" "acc @ [seg]"] by (auto simp: u_def)
    moreover obtain c f' where cf: "f = c # f'" "c \<noteq> CHR ''.''" "c \<noteq> CHR ''[''" using fok by (cases f) (auto simp: field_byte_def)
    ultimately have "parse_loop i (f @ u) acc = Inr (acc @ seg # sels @ r)"
      using cont [of "acc @ SegmentField (c # f') # sels" n] field_split [OF fok(3) u] trim_space_no_space [OF fok(2)] fok(2)
      by (subst parse_loop.simps) (simp add: f Let_def)
    then show ?thesis unfolding tx' by (simp add: segs rest)
  qed
qed

lemma print_no_space:
  assumes "list_all segment_ok segs"
  shows "\<not> has_space (print_path segs)"
proof -
  have empty: "\<not> has_space []" by (rule no_space_bytes) simp
  have one: "\<not> has_space xs \<Longrightarrow> segment_ok seg \<Longrightarrow> \<not> has_space (xs @ print_selector seg)" for xs seg
    using itoa_bytes(1) empty has_space_split [of "[]" "CHR '']''" "[]"]
    by (cases seg) (auto simp: print_selector_def segment_ok_def dest!: has_space_split)
  have sels: "\<not> has_space xs \<Longrightarrow> list_all segment_ok sels \<Longrightarrow> \<not> has_space (xs @ concat (map print_selector sels))" for xs sels
  proof (induction sels arbitrary: xs)
    case (Cons a sels)
    then show ?case using one [of xs a] Cons.IH [of "xs @ print_selector a"] by simp
  qed simp
  show ?thesis
  proof (cases segs)
    case (Cons seg rest)
    have "\<not> has_space (case seg of SegmentField f \<Rightarrow> f | _ \<Rightarrow> print_selector seg)"
      using assms Cons one [OF empty, of seg] by (cases seg) (simp_all add: segment_ok_def)
    then show ?thesis using sels assms Cons by (simp add: print_path_def)
  qed (simp add: print_path_def empty)
qed

lemma parse_print:
  assumes "segs \<noteq> []" and "list_all segment_ok segs"
  shows "ParsePath (print_path segs) = Inr segs"
  using assms trim_space_no_space [OF print_no_space [OF assms(2)]] print_path_start [OF assms]
  by (simp add: ParsePath_def parse_print_loop)

section \<open>Parsed segments are well-formed\<close>

lemma selector_segment_ok: "selector_segment s = Inr seg \<Longrightarrow> segment_ok seg"
  by (auto simp: selector_segment_def segment_ok_def in_int64_def dest!: atoi_range split: if_splits option.splits)

lemma parse_selectors_ok:
  "parse_selectors i s acc = Inr (j, t, segs) \<Longrightarrow> list_all segment_ok acc \<Longrightarrow> list_all segment_ok segs"
proof (induction i s acc rule: parse_selectors.induct)
  case (1 i s acc)
  show ?case
  proof (cases s)
    case (Cons c cs)
    show ?thesis using 1(1) [OF Cons _ refl refl] 1(2,3) Cons
      by (subst (asm) (2) parse_selectors.simps) (fastforce simp: Let_def selector_segment_ok split: if_splits sum.splits)
  qed (use 1(2,3) in \<open>simp add: parse_selectors.simps\<close>)
qed

lemma parse_loop_ok:
  "parse_loop i s acc = Inr segs \<Longrightarrow> list_all segment_ok acc \<Longrightarrow> list_all segment_ok segs"
proof (induction i s acc rule: parse_loop.induct)
  case (1 i s acc)
  show ?case
  proof (cases s)
    case (Cons c cs)
    define name where "name = takeWhile field_byte s"
    define field where "field = trim_space name"
    define acc' where "acc' = (if c \<noteq> CHR ''['' then acc @ [SegmentField field] else acc)"
    have dot: "c \<noteq> CHR ''.''" using 1(2) Cons by (auto simp: parse_loop.simps)
    define after where "after = (\<lambda>j t sg. case t of [] \<Rightarrow> Inr sg
       | d # ds \<Rightarrow> if d \<noteq> CHR ''.'' then Inl (UnexpectedCharacter j)
                   else if ds = [] \<or> hd ds = CHR ''.'' \<or> hd ds = CHR ''['' then Inl (MissingField (j + 1)) else parse_loop (j + 1) ds sg)"
    have body: "parse_loop i s acc = (if c \<noteq> CHR ''['' \<and> (field = [] \<or> has_space field) then Inl (InvalidField i)
       else case parse_selectors (i + length name) (dropWhile field_byte s) acc' of Inl e \<Rightarrow> Inl e | Inr (j, t, sg) \<Rightarrow> after j t sg)"
      unfolding name_def field_def acc'_def after_def using dot by (subst parse_loop.simps) (simp add: Cons Let_def)
    have good: "\<not> (c \<noteq> CHR ''['' \<and> (field = [] \<or> has_space field))" using 1(2) unfolding body by (auto split: if_splits)
    have "list_all field_byte field"
      using trim_space_set [of name] set_takeWhileD [of _ field_byte s] by (fastforce simp: list_all_iff field_def name_def)
    then have acc': "list_all segment_ok acc'" using 1(3) good by (auto simp: acc'_def segment_ok_def [of "SegmentField field"])
    obtain j t sg where p: "parse_selectors (i + length name) (dropWhile field_byte s) acc' = Inr (j, t, sg)"
      and a: "after j t sg = Inr segs"
      using 1(2) good unfolding body by (auto split: sum.splits)
    have sg: "list_all segment_ok sg" using parse_selectors_ok [OF p acc'] .
    consider "t = []" "segs = sg" | d ds where "t = d # ds" "parse_loop (j + 1) ds sg = Inr segs" "d = CHR ''.''"
        "\<not> (ds = [] \<or> hd ds = CHR ''.'' \<or> hd ds = CHR ''['')"
      using a by (auto simp: after_def split: list.splits if_splits)
    then show ?thesis
    proof cases
      case 2
      then show ?thesis
        using 1(1) [OF Cons dot refl refl refl] good [unfolded field_def name_def] p [unfolded acc'_def field_def name_def] sg by simp
    qed (use sg in simp)
  qed (use 1(2,3) in \<open>simp add: parse_loop.simps\<close>)
qed

lemma ParsePath_ok: "ParsePath path = Inr segs \<Longrightarrow> segs \<noteq> [] \<and> list_all segment_ok segs"
  using parse_loop_ok [of 0 "trim_space path" "[]" segs] by (auto simp: ParsePath_def Let_def split: if_splits sum.splits)


section \<open>Evaluation computes the compositional meaning\<close>

fun collect :: "('e + 'a list) list \<Rightarrow> 'e + 'a list" where
  "collect [] = Inr []"
| "collect (r # rs) =
     (case r of Inl e \<Rightarrow> Inl e | Inr xs \<Rightarrow> (case collect rs of Inl e \<Rightarrow> Inl e | Inr ys \<Rightarrow> Inr (xs @ ys)))"

text \<open>The nodes a path selects below one node, one segment at a time and depth first.\<close>

primrec select :: "PathSegment list \<Rightarrow> json \<Rightarrow> path_error + json list" where
  "select [] = (\<lambda>node. Inr [node])"
| "select (seg # segs) = (\<lambda>node. case step_node seg node of Inl e \<Rightarrow> Inl e | Inr ms \<Rightarrow> collect (map (select segs) ms))"

text \<open>The texts of the scalars below a node, and whether a node consists of scalars and arrays only.\<close>

fun texts :: "json \<Rightarrow> string list" where
  "texts (JArray xs) = concat (map texts xs)"
| "texts v = (case scalarText v of None \<Rightarrow> [] | Some t \<Rightarrow> [t])"

fun flat :: "json \<Rightarrow> bool" where
  "flat (JArray xs) = list_all flat xs"
| "flat JNull = True"
| "flat v = (scalarText v \<noteq> None)"

lemma collect_Cons: "collect (r # rs) = Inr out \<longleftrightarrow> (\<exists>xs ys. r = Inr xs \<and> collect rs = Inr ys \<and> out = xs @ ys)"
  by (auto split: sum.splits)

lemma collect_append: "collect (rs @ qs) = Inr out \<longleftrightarrow> (\<exists>xs ys. collect rs = Inr xs \<and> collect qs = Inr ys \<and> out = xs @ ys)"
proof (induction rs arbitrary: out)
  case (Cons r rs)
  show ?case unfolding append_Cons collect_Cons Cons.IH by (metis append.assoc)
qed simp

lemma step_nodes_collect:
  "step_nodes seg ns acc = Inr out \<longleftrightarrow> (\<exists>ms. collect (map (step_node seg) ns) = Inr ms \<and> out = acc @ ms)"
proof (induction ns arbitrary: acc)
  case (Cons n ns)
  show ?case
  proof (cases "step_node seg n")
    case (Inr ms)
    then show ?thesis by (auto simp: Cons.IH simp del: collect.simps simp add: collect_Cons)
  qed (simp)
qed auto

lemma select_collect:
  "collect (map (select (seg # segs)) ns) = Inr out \<longleftrightarrow>
     (\<exists>ms. collect (map (step_node seg) ns) = Inr ms \<and> collect (map (select segs) ms) = Inr out)"
proof (induction ns arbitrary: out)
  case (Cons n ns)
  show ?case
  proof (cases "step_node seg n")
    case (Inr ms)
    show ?thesis unfolding list.map collect_Cons Cons.IH
      by (auto simp: Inr collect_append)
  qed (simp)
qed auto

lemma walk_select: "walk_segments segs ns = Inr out \<longleftrightarrow> collect (map (select segs) ns) = Inr out"
proof (induction segs arbitrary: ns)
  case Nil
  have "collect (map (\<lambda>n. Inr [n]) ns) = (Inr ns :: path_error + json list)" by (induction ns) auto
  then show ?case by auto
next
  case (Cons seg segs)
  have "walk_segments (seg # segs) ns = Inr out \<longleftrightarrow> (\<exists>ms. step_nodes seg ns [] = Inr ms \<and> walk_segments segs ms = Inr out)"
    by (auto split: sum.splits)
  then show ?case unfolding Cons.IH select_collect step_nodes_collect by simp
qed

lemma append_texts:
  "appendScalarValues acc v = Inr out \<longleftrightarrow> flat v \<and> out = acc @ texts v"
  "appendAll acc vs = Inr out \<longleftrightarrow> list_all flat vs \<and> out = acc @ concat (map texts vs)"
  by (induction acc v and acc vs arbitrary: out and out rule: appendScalarValues_appendAll.induct)
    (auto simp: scalarText_def split: sum.splits, metis Inl_Inr_False)

lemma Extract_meaning:
  "Extract document path = Inr vs \<longleftrightarrow>
     (\<exists>segs nodes. ParsePath path = Inr segs \<and> select segs document = Inr nodes \<and> list_all flat nodes \<and> vs = concat (map texts nodes))"
proof -
  have "walk_segments segs [document] = Inr nodes \<longleftrightarrow> select segs document = Inr nodes" for segs nodes
    unfolding walk_select by (auto split: sum.splits)
  then show ?thesis unfolding Extract_def append_texts by (cases "ParsePath path") (auto simp: append_texts split: sum.splits, metis Inl_Inr_False)
qed

section \<open>Keyword normalisation\<close>

definition free_before :: "string \<Rightarrow> string \<Rightarrow> bool" where
  "free_before f t \<longleftrightarrow> (\<forall>k<length f. strip_any space_runes (drop k f @ t) = None)"

lemma free_before_Cons: "free_before (c # f) t \<longleftrightarrow> strip_any space_runes (c # f @ t) = None \<and> free_before f t"
  by (auto simp: free_before_def less_Suc_eq_0_disj)

lemma free_before_snoc: "free_before (f @ [c]) t \<longleftrightarrow> free_before f (c # t) \<and> strip_any space_runes (c # t) = None"
  by (auto simp: free_before_def less_Suc_eq)

lemma space_fields_free: "free_before f t \<Longrightarrow> space_fields cur (f @ t) = space_fields (cur @ f) t"
proof (induction f arbitrary: cur)
  case (Cons c f)
  then show ?case by (subst space_fields.simps) (simp add: free_before_Cons)
qed simp

lemma free_no_space: "free_before f t \<Longrightarrow> \<not> has_space f"
proof
  assume free: "free_before f t" and "has_space f"
  then obtain p a b where p: "p \<in> set space_runes" "f = a @ p @ b" by (auto simp: has_space_def list_ex_iff contains_iff)
  then have "length a < length f" using space_runes_nonempty [OF p(1)] by simp
  then have "strip_any space_runes (p @ b @ t) = None" using free p(2) by (auto simp: free_before_def dest!: spec [of _ "length a"])
  then show False using p(1) space_runes_nonempty [OF p(1)] by (auto simp: strip_any_None_iff has_prefix_iff)
qed

lemma space_fields_no_space:
  "free_before cur s \<Longrightarrow> f \<in> set (space_fields cur s) \<Longrightarrow> f \<noteq> [] \<and> \<not> has_space f"
proof (induction cur s rule: space_fields.induct)
  case (1 cur s)
  have nil: "free_before [] r" for r by (simp add: free_before_def)
  show ?case
  proof (cases s)
    case Nil
    then show ?thesis using 1(4,5) by (subst (asm) space_fields.simps) (auto split: if_splits dest: free_no_space)
  next
    case (Cons c cs)
    show ?thesis
    proof (cases "strip_any space_runes s")
      case None
      then show ?thesis using 1(1) [OF Cons None] 1(4,5) Cons by (subst (asm) (2) space_fields.simps) (simp add: free_before_snoc)
    next
      case (Some r)
      then show ?thesis using 1(2) [OF Cons Some _ nil] 1(3) [OF Cons Some _ nil] 1(4,5) Cons
        by (subst (asm) (3) space_fields.simps) (auto split: if_splits dest: free_no_space)
    qed
  qed
qed

lemma strip_space_prefix:
  assumes "\<not> has_space f" and "f \<noteq> []"
  shows "strip_any space_runes (f @ t) = None \<or> t \<noteq> [] \<and> hd t \<in> set space_bytes \<and> hd t \<noteq> CHR '' ''"
proof (rule ccontr)
  assume "\<not> ?thesis"
  then obtain p where p: "p \<in> set space_runes" "has_prefix (f @ t) p"
    and t: "t = [] \<or> hd t \<notin> set space_bytes \<or> hd t = CHR '' ''" by (auto simp: strip_any_None_iff)
  have "\<not> contains f p" using assms(1) p(1) by (auto simp: has_space_def list_ex_iff)
  then have "\<not> has_prefix f p" using contains_has_prefix by blast
  then obtain u where u: "p = f @ u" "u \<noteq> []" "has_prefix t u"
    using p(2) by (auto simp: has_prefix_iff append_eq_append_conv2)
  then have "hd t \<in> set p" "t \<noteq> []" by (cases u; auto simp: has_prefix_iff)+
  then have "hd t = CHR '' ''" using t p(1) space_runes_bytes by blast
  then have "CHR '' '' \<in> set p" using \<open>hd t \<in> set p\<close> by simp
  then have "p = '' ''" using p(1) by (auto simp: space_runes_def)
  then show False using u assms(2) by (cases f) auto
qed


definition spaced :: "string list \<Rightarrow> bool" where
  "spaced fs \<longleftrightarrow> (\<forall>f\<in>set fs. f \<noteq> [] \<and> \<not> has_space f)"

lemma no_space_drop: "\<not> has_space f \<Longrightarrow> \<not> has_space (drop k f)"
proof
  assume f: "\<not> has_space f" and "has_space (drop k f)"
  then obtain p a b where "p \<in> set space_runes" "drop k f = a @ p @ b" by (auto simp: has_space_def list_ex_iff contains_iff)
  then have "p \<in> set space_runes" "f = (take k f @ a) @ p @ b" by (metis append.assoc append_take_drop_id)+
  then show False using f unfolding has_space_def list_ex_iff contains_iff by blast
qed

lemma free_before_space: "\<not> has_space f \<Longrightarrow> t = [] \<or> hd t = CHR '' '' \<Longrightarrow> free_before f t"
  unfolding free_before_def using strip_space_prefix [of "drop _ f" t] no_space_drop [of f] by auto

lemma space_fields_join: "spaced fs \<Longrightarrow> space_fields [] (join_with '' '' fs) = fs"
proof (induction "'' ''" fs rule: join_with.induct)
  case 1
  show ?case by (subst space_fields.simps) simp
next
  case (2 x)
  then have "space_fields [] (x @ []) = space_fields x []" by (intro space_fields_free [where cur = "[]", simplified] free_before_space)
      (auto simp: spaced_def)
  with 2 show ?case by (simp add: space_fields.simps spaced_def)
next
  case (3 x y ys)
  have x: "x \<noteq> []" "\<not> has_space x" using 3 by (simp_all add: spaced_def)
  have "space_fields [] (x @ '' '' @ join_with '' '' (y # ys)) = space_fields x ('' '' @ join_with '' '' (y # ys))"
    using space_fields_free [of x "'' '' @ join_with '' '' (y # ys)" "[]"] free_before_space [OF x(2)] by simp
  moreover have "strip_any space_runes (CHR '' '' # u) = Some u" for u by (simp add: space_runes_def has_prefix_def)
  ultimately show ?case using 3 x by (simp add: space_fields.simps [of x] spaced_def)
qed

lemma strip_space_suffix:
  assumes "\<not> has_space l" and "l \<noteq> []" and "t = [] \<or> last t = CHR '' ''"
  shows "strip_any (map rev space_runes) (rev (t @ l)) = None"
proof (rule ccontr)
  assume "\<not> ?thesis"
  then obtain p a where p: "p \<in> set space_runes" "t @ l = a @ p"
    by (auto simp: strip_any_None_iff has_prefix_iff) (metis rev_append rev_rev_ident rev_swap)
  have "\<not> contains l p" using assms(1) p(1) by (auto simp: has_space_def list_ex_iff)
  then have "\<nexists>b. l = b @ p" by (metis append_Nil2 contains_iff)
  then obtain u where u: "p = u @ l" "u \<noteq> []" "t = a @ u"
    using p(2) by (auto simp: append_eq_append_conv2)
  then have "CHR '' '' \<in> set p" using assms(3) last_in_set [of u] by auto
  then have "p = '' ''" using p(1) by (auto simp: space_runes_def)
  then show False using u assms(2) by (cases u) auto
qed

lemma join_last: "fs \<noteq> [] \<Longrightarrow> \<exists>t. join_with '' '' fs = t @ last fs \<and> (t = [] \<or> last t = CHR '' '')"
proof (induction "'' ''" fs rule: join_with.induct)
  case (3 x y ys)
  then obtain t where "join_with '' '' (y # ys) = t @ last (y # ys)" "t = [] \<or> last t = CHR '' ''" by auto
  then show ?case by (intro exI [where x = "x @ '' '' @ t"]) auto
qed auto

lemma trim_join: "spaced fs \<Longrightarrow> trim_space (join_with '' '' fs) = join_with '' '' fs"
proof (cases fs)
  case (Cons f gs)
  assume fs: "spaced fs"
  have left: "strip_any space_runes (join_with '' '' fs) = None"
  proof (cases gs)
    case Nil
    then show ?thesis using fs Cons strip_any_no_space by (simp add: spaced_def)
  next
    case (Cons g gs')
    then show ?thesis using fs \<open>fs = f # gs\<close> strip_space_prefix [of f "'' '' @ join_with '' '' gs"] by (auto simp: spaced_def)
  qed
  obtain t where t: "join_with '' '' fs = t @ last fs" "t = [] \<or> last t = CHR '' ''" using join_last [of fs] Cons by auto
  have "strip_any (map rev space_runes) (rev (join_with '' '' fs)) = None"
    unfolding t(1) using fs Cons t(2) last_in_set [of fs] by (intro strip_space_suffix) (auto simp: spaced_def)
  with left show ?thesis by (simp add: trim_space_def trim_runes_def trim_right_def trim_left_id)
qed (simp add: trim_space_no_space no_space_bytes)

lemma space_fields_to_lower: "space_fields (to_lower cur) (to_lower s) = map to_lower (space_fields cur s)"
proof (induction cur s rule: space_fields.induct)
  case (1 cur s)
  note strip = strip_any_to_lower [OF space_runes_letter_free, of s]
  show ?case
  proof (cases s)
    case Nil
    then show ?thesis by (simp add: space_fields.simps to_lower_def)
  next
    case (Cons c cs)
    have low: "to_lower s = ascii_lower c # to_lower cs" by (simp add: Cons to_lower_def)
    show ?thesis
    proof (cases "strip_any space_runes s")
      case None
      then show ?thesis using 1(1) [OF Cons None] strip low
        by (subst (1 2) space_fields.simps) (simp add: Cons, simp add: to_lower_def)
    next
      case (Some r)
      then show ?thesis using 1(2) [OF Cons Some] 1(3) [OF Cons Some] strip low
        by (subst (1 2) space_fields.simps) (auto simp: Cons to_lower_def [of "[]"])
    qed
  qed
qed

lemma to_lower_join: "to_lower (join_with '' '' fs) = join_with '' '' (map to_lower fs)"
  by (induction "'' ''" fs rule: join_with.induct) (auto simp: to_lower_def ascii_lower_def)

lemma NormalizeKeyword_to_lower: "NormalizeKeyword (to_lower s) = NormalizeKeyword s"
  using space_fields_to_lower [of "[]" "trim_space s"]
  by (simp add: NormalizeKeyword_def trim_space_to_lower flip: to_lower_join) (simp add: to_lower_def [of "[]"] flip: to_lower_join)

lemma NormalizeKeyword_idem: "NormalizeKeyword (NormalizeKeyword v) = NormalizeKeyword v"
proof -
  define fs where "fs = space_fields [] (trim_space v)"
  have "spaced fs" unfolding fs_def spaced_def using space_fields_no_space [of "[]" "trim_space v"] by (simp add: free_before_def)
  then have "NormalizeKeyword (join_with '' '' fs) = to_lower (join_with '' '' fs)"
    by (simp add: NormalizeKeyword_def trim_join space_fields_join)
  then show ?thesis by (simp add: NormalizeKeyword_def [of v] fs_def [symmetric] NormalizeKeyword_to_lower)
qed

lemma NormalizeKeyword_trim: "NormalizeKeyword (trim_space v) = NormalizeKeyword v"
  by (simp add: NormalizeKeyword_def)

lemma unique_keywords_fresh: "kv \<in> set (unique_keywords seen vs) \<Longrightarrow> kv_Normalized kv \<notin> set seen"
  by (induction seen vs rule: unique_keywords.induct) (fastforce simp: Let_def split: if_splits)+

lemma unique_keywords_distinct: "distinct (map kv_Normalized (unique_keywords seen vs))"
  by (induction seen vs rule: unique_keywords.induct) (auto simp: Let_def dest!: unique_keywords_fresh)

lemma unique_keywords_sound:
  "kv \<in> set (unique_keywords seen vs) \<Longrightarrow>
     kv_Normalized kv = NormalizeKeyword (kv_Value kv) \<and> kv_Normalized kv \<noteq> [] \<and> (\<exists>v\<in>set vs. kv_Value kv = trim_space v)"
proof (induction seen vs rule: unique_keywords.induct)
  case (2 seen v vs)
  note IH = 2(1) [OF refl refl] 2(2) [OF refl refl]
  show ?case using 2(3) IH
    by (cases "NormalizeKeyword (trim_space v) = [] \<or> NormalizeKeyword (trim_space v) \<in> set seen") (auto simp: Let_def)
qed simp

lemma unique_keywords_complete:
  "v \<in> set vs \<Longrightarrow> NormalizeKeyword v \<noteq> [] \<Longrightarrow> NormalizeKeyword v \<notin> set seen \<Longrightarrow>
     NormalizeKeyword v \<in> kv_Normalized ` set (unique_keywords seen vs)"
  by (induction seen vs rule: unique_keywords.induct) (auto simp: Let_def NormalizeKeyword_trim split: if_splits)


section \<open>Properties\<close>

text \<open>C10: Parsing is sound and complete for printed paths: every non-empty list of well-formed segments is what its text parses to;
  whatever parses is such a list, so parsing the canonical text of a parsed path gives the same segments.\<close>

theorem path_round_trip:
  "(segs \<noteq> [] \<and> list_all segment_ok segs \<longrightarrow> ParsePath (print_path segs) = Inr segs)
   \<and> (ParsePath path = Inr segs \<longrightarrow>
        segs \<noteq> [] \<and> list_all segment_ok segs \<and> ParsePath (print_path segs) = ParsePath path)"
  using parse_print ParsePath_ok by auto

theorem path_round_trip_witness:
  "ParsePath (print_path [SegmentField ''data'', SegmentIndex 2, SegmentWildcard, SegmentField ''name'']) =
       Inr [SegmentField ''data'', SegmentIndex 2, SegmentWildcard, SegmentField ''name'']"
proof -
  have "list_all segment_ok [SegmentField ''data'', SegmentIndex 2, SegmentWildcard, SegmentField ''name'']" by code_simp
  then show ?thesis using path_round_trip [of "[SegmentField ''data'', SegmentIndex 2, SegmentWildcard, SegmentField ''name'']"] by simp
qed

text \<open>C6: Extraction implements the compositional meaning of a path: the level-by-level evaluation of the code returns values exactly
  when the path parses, the depth-first meaning selects nodes that consist of scalars and arrays only, and then it returns their
  scalars in document order.\<close>

theorem extract_refines_meaning:
  "Extract document path = Inr vs \<longleftrightarrow>
     (\<exists>segs nodes. ParsePath path = Inr segs \<and> select segs document = Inr nodes \<and> list_all flat nodes \<and> vs = concat (map texts nodes))"
  by (rule Extract_meaning)

text \<open>Extracted keywords are canonical: they are pairwise different after normalisation, never empty, counted, their normal form is a
  fixed point of \<open>NormalizeKeyword\<close>, and every raw value with a non-empty normal form is represented.\<close>

theorem extracted_keywords_canonical:
  assumes "Extract document path = Inr raw"
  shows "\<exists>r. ExtractKeywords document path = Inr r \<and> distinct (map kv_Normalized (ex_Values r))
    \<and> ex_UniqueCount r = length (ex_Values r) \<and> ex_RawCount r = length raw
    \<and> (\<forall>kv\<in>set (ex_Values r). kv_Normalized kv = NormalizeKeyword (kv_Value kv) \<and> kv_Normalized kv \<noteq> []
         \<and> NormalizeKeyword (kv_Normalized kv) = kv_Normalized kv)
    \<and> kv_Normalized ` set (ex_Values r) = NormalizeKeyword ` set raw - {[]}"
proof -
  let ?vs = "unique_keywords [] raw"
  have sound: "kv_Normalized kv = NormalizeKeyword (kv_Value kv) \<and> kv_Normalized kv \<noteq> [] \<and> (\<exists>v\<in>set raw. kv_Value kv = trim_space v)"
    if "kv \<in> set ?vs" for kv using unique_keywords_sound that .
  have "kv_Normalized ` set ?vs = NormalizeKeyword ` set raw - {[]}"
    using sound unique_keywords_complete [of _ raw "[]"] NormalizeKeyword_trim by fastforce
  then show ?thesis
    using assms sound unique_keywords_distinct [of "[]" raw] by (auto simp: ExtractKeywords_def Let_def NormalizeKeyword_idem)
qed

theorem extracted_keywords_canonical_witness:
  "\<exists>r. ExtractKeywords (JArray [JString '' The  Matrix'', JString ''the matrix'', JString ''Heat'']) ''[]'' = Inr r
     \<and> kv_Normalized ` set (ex_Values r) = {''the matrix'', ''heat''}"
proof -
  have "Extract (JArray [JString '' The  Matrix'', JString ''the matrix'', JString ''Heat'']) ''[]'' =
      Inr ['' The  Matrix'', ''the matrix'', ''Heat'']" by code_simp
  from extracted_keywords_canonical [OF this]
  obtain r where "ExtractKeywords (JArray [JString '' The  Matrix'', JString ''the matrix'', JString ''Heat'']) ''[]'' = Inr r"
    "kv_Normalized ` set (ex_Values r) = NormalizeKeyword ` {'' The  Matrix'', ''the matrix'', ''Heat''} - {[]}" by auto
  moreover have "NormalizeKeyword '' The  Matrix'' = ''the matrix''" "NormalizeKeyword ''the matrix'' = ''the matrix''"
    "NormalizeKeyword ''Heat'' = ''heat''" by code_simp+
  ultimately show ?thesis by (intro exI [where x = r]) auto
qed

end
