(* ===== verification/Keyword_Discovery.thy ===== *)
theory Keyword_Discovery
  imports Keyword_Path_Laws
begin

text \<open>
  The candidates of \<open>DiscoverFields\<close> against \<open>Extract\<close>: every candidate is the path of a scalar of the document, it parses, and
  an extraction along it that succeeds returns all its values.
\<close>

section \<open>Scalars of a document\<close>

function leaves :: "json \<Rightarrow> (PathSegment list \<times> string) list" where
  "leaves node =
     (case node of
        JObject kvs \<Rightarrow> concat (map (\<lambda>kv. map (\<lambda>(s, t). (SegmentField (fst kv) # s, t)) (leaves (snd kv))) (sort_key fst kvs))
      | JArray xs \<Rightarrow> concat (map (\<lambda>x. map (\<lambda>(s, t). (SegmentWildcard # s, t)) (leaves x)) xs)
      | _ \<Rightarrow> (case scalarText node of None \<Rightarrow> [] | Some t \<Rightarrow> [([], t)]))"
  by pat_completeness auto
termination
proof (relation "measure size")
  show "(snd kv, node) \<in> measure size" if "node = JObject kvs" "kv \<in> set (sort_key fst kvs)" for node kvs kv
    using that size_object_field [of "fst kv" "snd kv" kvs] by simp
  show "(x, node) \<in> measure size" if "node = JArray xs" "x \<in> set xs" for node xs x
    using that size_array_item [of x xs] by simp
qed simp

declare leaves.simps [simp del]

text \<open>Objects whose keys are distinct and can be written as a field of a path.\<close>

function clean :: "json \<Rightarrow> bool" where
  "clean node =
     (case node of
        JObject kvs \<Rightarrow> distinct (map fst kvs) \<and> list_all (\<lambda>kv. segment_ok (SegmentField (fst kv)) \<and> clean (snd kv)) kvs
      | JArray xs \<Rightarrow> list_all clean xs
      | _ \<Rightarrow> True)"
  by pat_completeness auto
termination
proof (relation "measure size")
  show "(snd kv, node) \<in> measure size" if "node = JObject kvs" "kv \<in> set kvs" for node kvs kv
    using that size_object_field [of "fst kv" "snd kv" kvs] by simp
  show "(x, node) \<in> measure size" if "node = JArray xs" "x \<in> set xs" for node xs x
    using that size_array_item [of x xs] by simp
qed simp

declare clean.simps [simp del]

lemma clean_object: "clean (JObject kvs) \<longleftrightarrow> distinct (map fst kvs) \<and> (\<forall>kv\<in>set kvs. segment_ok (SegmentField (fst kv)) \<and> clean (snd kv))"
  by (subst clean.simps) (simp add: list_all_iff)

lemma clean_array: "clean (JArray xs) \<longleftrightarrow> (\<forall>x\<in>set xs. clean x)"
  by (subst clean.simps) (simp add: list_all_iff)

lemma leaves_object:
  "leaves (JObject kvs) = concat (map (\<lambda>kv. map (\<lambda>(s, t). (SegmentField (fst kv) # s, t)) (leaves (snd kv))) (sort_key fst kvs))"
  by (subst leaves.simps) simp

lemma leaves_array: "leaves (JArray xs) = concat (map (\<lambda>x. map (\<lambda>(s, t). (SegmentWildcard # s, t)) (leaves x)) xs)"
  by (subst leaves.simps) simp

lemma leaves_scalar:
  assumes "\<nexists>kvs. node = JObject kvs" and "\<nexists>xs. node = JArray xs"
  shows "leaves node = (case scalarText node of None \<Rightarrow> [] | Some t \<Rightarrow> [([], t)])"
  using assms by (subst leaves.simps) (cases node; simp)

lemma json_cases [case_names object array scalar]:
  obtains kvs where "node = JObject kvs" | xs where "node = JArray xs"
    | "\<nexists>kvs. node = JObject kvs" "\<nexists>xs. node = JArray xs"
  by (cases node) auto

lemma json_induct [case_names object array scalar]:
  assumes "\<And>kvs. (\<And>kv. kv \<in> set kvs \<Longrightarrow> P (snd kv)) \<Longrightarrow> P (JObject kvs)"
    and "\<And>xs. (\<And>x. x \<in> set xs \<Longrightarrow> P x) \<Longrightarrow> P (JArray xs)"
    and "\<And>node. \<nexists>kvs. node = JObject kvs \<Longrightarrow> \<nexists>xs. node = JArray xs \<Longrightarrow> P node"
  shows "P node"
proof (induction "size node" arbitrary: node rule: less_induct)
  case less
  show ?case
  proof (cases node rule: json_cases)
    case (object kvs)
    have "P (snd kv)" if "kv \<in> set kvs" for kv
      using that less size_object_field [of "fst kv" "snd kv" kvs] by (simp add: object)
    then show ?thesis unfolding object by (rule assms(1))
  next
    case (array xs)
    have "P x" if "x \<in> set xs" for x using that less size_array_item [of x xs] by (simp add: array)
    then show ?thesis unfolding array by (rule assms(2))
  qed (rule assms(3))
qed

lemma leaves_ok: "clean node \<Longrightarrow> (s, t) \<in> set (leaves node) \<Longrightarrow> list_all segment_ok s"
proof (induction node arbitrary: s rule: json_induct)
  case (object kvs)
  then show ?case by (fastforce simp: clean_object leaves_object)
next
  case (array xs)
  then obtain x s' where "x \<in> set xs" "(s', t) \<in> set (leaves x)" "s = SegmentWildcard # s'" by (auto simp: leaves_array)
  with array show ?case by (simp add: clean_array segment_ok_def [of SegmentWildcard])
next
  case (scalar node)
  then show ?case by (auto simp: leaves_scalar split: option.splits)
qed

section \<open>The walk records the scalars\<close>

definition record_at :: "(string \<times> candidateAccumulator) list \<Rightarrow> PathSegment list \<times> string \<Rightarrow> (string \<times> candidateAccumulator) list" where
  "record_at r st = (if fst st = [] then r else record_leaf (print_path (fst st)) (snd st) r)"

definition below :: "PathSegment list \<Rightarrow> (PathSegment list \<times> string) list \<Rightarrow> (PathSegment list \<times> string) list" where
  "below pre ls = map (\<lambda>(s, t). (pre @ s, t)) ls"

lemma below_simps:
  "below pre (concat lss) = concat (map (below pre) lss)"
  "below pre (map (\<lambda>(s, t). (seg # s, t)) ls) = below (pre @ [seg]) ls"
  by (auto simp: below_def map_concat intro!: arg_cong [where f = concat])

lemma foldl_concat: "foldl f r (concat xss) = foldl (foldl f) r xss"
  by (induction xss arbitrary: r) auto

lemma print_snoc:
  "list_all segment_ok pre \<Longrightarrow> print_path (pre @ [SegmentField k]) = child_path (print_path pre) k"
  "print_path (pre @ [SegmentWildcard]) = print_path pre @ ''[]''"
  using print_path_start [of pre]
  by (cases pre; auto simp: print_path_def print_selector_def child_path_def)+

lemma print_empty: "list_all segment_ok pre \<Longrightarrow> print_path pre = [] \<longleftrightarrow> pre = []"
  using print_path_start [of pre] by (auto simp: print_path_def)

lemma walk_leaves:
  "clean node \<Longrightarrow> list_all segment_ok pre \<Longrightarrow> walkCandidates node (print_path pre) r = foldl record_at r (below pre (leaves node))"
proof (induction node arbitrary: pre r rule: json_induct)
  case (object kvs)
  have step: "walkCandidates (snd kv) (child_path (print_path pre) (fst kv)) r =
      foldl record_at r (below (pre @ [SegmentField (fst kv)]) (leaves (snd kv)))" if "kv \<in> set kvs" for kv r
    using object.IH [OF that, of "pre @ [SegmentField (fst kv)]" r] object.prems that by (simp add: clean_object print_snoc)
  have "foldl (\<lambda>r kv. walkCandidates (snd kv) (child_path (print_path pre) (fst kv)) r) r (sort_key fst kvs) =
      foldl (\<lambda>r kv. foldl record_at r (below (pre @ [SegmentField (fst kv)]) (leaves (snd kv)))) r (sort_key fst kvs)"
    by (rule foldl_cong) (simp_all add: step)
  then show ?case
    by (subst walkCandidates.simps) (simp add: leaves_object below_simps foldl_concat foldl_map comp_def)
next
  case (array xs)
  have step: "walkCandidates x (print_path pre @ ''[]'') r = foldl record_at r (below (pre @ [SegmentWildcard]) (leaves x))"
    if "x \<in> set xs" for x r
    using array.IH [OF that, of "pre @ [SegmentWildcard]" r] array.prems that by (simp add: clean_array print_snoc segment_ok_def)
  show ?case
    by (subst walkCandidates.simps)
      (simp add: leaves_array below_simps foldl_concat foldl_map comp_def step cong: foldl_cong)
next
  case (scalar node)
  then show ?case
    by (subst walkCandidates.simps)
      (cases node; auto simp: leaves_scalar below_def record_at_def print_empty scalarText_def)
qed


section \<open>What the accumulators hold\<close>

definition texts_at :: "string \<Rightarrow> (PathSegment list \<times> string) list \<Rightarrow> string list" where
  "texts_at p ls = map snd (filter (\<lambda>(s, t). s \<noteq> [] \<and> print_path s = p) ls)"

definition summarises :: "candidateAccumulator \<Rightarrow> string list \<Rightarrow> bool" where
  "summarises item ts \<longleftrightarrow>
     ca_count item = length ts \<and> distinct (ca_samples item) \<and> set (ca_seen item) = set (ca_samples item)
     \<and> set (ca_samples item) \<subseteq> set ts \<and> length (ca_samples item) \<le> 3
     \<and> (length (ca_samples item) < 3 \<longrightarrow> set ts \<subseteq> set (ca_samples item))"

lemma count_text_summarises: "summarises item ts \<Longrightarrow> summarises (count_text t item) (ts @ [t])"
  by (auto simp: summarises_def count_text_def Let_def)

definition records :: "(string \<times> candidateAccumulator) list \<Rightarrow> (PathSegment list \<times> string) list \<Rightarrow> bool" where
  "records r ls \<longleftrightarrow>
     distinct (map fst r)
     \<and> (\<forall>p. case map_of r p of None \<Rightarrow> texts_at p ls = [] | Some item \<Rightarrow> texts_at p ls \<noteq> [] \<and> summarises item (texts_at p ls))"

lemma records_None: "records r ls \<Longrightarrow> map_of r p = None \<Longrightarrow> texts_at p ls = []"
  unfolding records_def by (drule conjunct2, drule spec [where x = p]) simp

lemma records_Some: "records r ls \<Longrightarrow> map_of r p = Some item \<Longrightarrow> texts_at p ls \<noteq> [] \<and> summarises item (texts_at p ls)"
  unfolding records_def by (drule conjunct2, drule spec [where x = p]) simp

lemma recordsI:
  assumes "distinct (map fst r)" and "\<And>p. map_of r p = None \<Longrightarrow> texts_at p ls = []"
    and "\<And>p item. map_of r p = Some item \<Longrightarrow> texts_at p ls \<noteq> [] \<and> summarises item (texts_at p ls)"
  shows "records r ls"
  unfolding records_def using assms by (auto split: option.split)

lemma texts_at_snoc: "texts_at p (ls @ [(s, t)]) = texts_at p ls @ (if s \<noteq> [] \<and> print_path s = p then [t] else [])"
  by (simp add: texts_at_def)

lemma record_at_records:
  assumes "records r ls"
  shows "records (record_at r (s, t)) (ls @ [(s, t)])"
proof (cases "s = []")
  case True
  then have "texts_at p (ls @ [(s, t)]) = texts_at p ls" for p by (simp add: texts_at_snoc)
  then have "records r (ls @ [(s, t)])" using assms unfolding records_def by (simp only: simp_thms)
  with True show ?thesis by (simp add: record_at_def)
next
  case False
  define old where "old = (case map_of r (print_path s) of None \<Rightarrow> \<lparr>ca_count = 0, ca_samples = [], ca_seen = []\<rparr> | Some item \<Rightarrow> item)"
  have "summarises old (texts_at (print_path s) ls)"
    using records_None [OF assms, of "print_path s"] records_Some [OF assms, of "print_path s"]
    by (cases "map_of r (print_path s)") (auto simp: old_def summarises_def)
  then have "summarises (count_text t old) (texts_at (print_path s) ls @ [t])" by (rule count_text_summarises)
  moreover have "record_at r (s, t) = AList.update (print_path s) (count_text t old) r"
    using False by (simp add: record_at_def record_leaf_def old_def)
  moreover have "texts_at p (ls @ [(s, t)]) = (if p = print_path s then texts_at p ls @ [t] else texts_at p ls)" for p
    using False by (simp add: texts_at_snoc)
  moreover have "distinct (map fst r)" using assms by (simp add: records_def)
  ultimately show ?thesis using records_None [OF assms] records_Some [OF assms]
    by (intro recordsI) (auto simp: update_conv distinct_update simp del: map_of_eq_None_iff split: if_splits)
qed

lemma foldl_records: "records r ls \<Longrightarrow> records (foldl record_at r ks) (ls @ ks)"
proof (induction ks arbitrary: r ls)
  case (Cons k ks)
  then show ?case using Cons.IH [OF record_at_records [of r ls "fst k" "snd k"]] by simp
qed simp

lemma walk_records: "clean document \<Longrightarrow> records (walkCandidates document [] []) (leaves document)"
  using walk_leaves [of document "[]" "[]"] foldl_records [of "[]" "[]" "leaves document"]
  by (simp add: print_path_def below_def records_def [of "[]"] texts_at_def)

section \<open>Extraction along a recorded path\<close>

definition under :: "PathSegment list \<Rightarrow> json \<Rightarrow> string list" where
  "under segs node = map snd (filter (\<lambda>(s, t). s = segs) (leaves node))"

lemma under_map:
  "map snd (filter (\<lambda>(s, t). s = segs) (map (\<lambda>(s, t). (seg # s, t)) ls)) =
     (case segs of [] \<Rightarrow> [] | g # gs \<Rightarrow> if g = seg then map snd (filter (\<lambda>(s, t). s = gs) ls) else [])"
  by (induction ls) (auto split: list.splits)

lemma under_object:
  "under segs (JObject kvs) =
     concat (map (\<lambda>kv. case segs of [] \<Rightarrow> [] | g # gs \<Rightarrow> if g = SegmentField (fst kv) then under gs (snd kv) else []) (sort_key fst kvs))"
  unfolding under_def leaves_object filter_concat map_concat map_map comp_def under_map ..

lemma under_array:
  "under segs (JArray xs) = concat (map (\<lambda>x. case segs of [] \<Rightarrow> [] | g # gs \<Rightarrow> if g = SegmentWildcard then under gs x else []) xs)"
  unfolding under_def leaves_array filter_concat map_concat map_map comp_def under_map ..

lemma concat_nothing: "concat (map (\<lambda>x. []) xs) = []"
  by (induction xs) auto

lemma concat_one_key:
  "distinct (map fst m) \<Longrightarrow>
     concat (map (\<lambda>kv. if k = fst kv then h (snd kv) else []) m) = (case map_of m k of None \<Rightarrow> [] | Some v \<Rightarrow> h v)"
proof (induction m)
  case (Cons a m)
  have "concat (map (\<lambda>kv. if k = fst kv then h (snd kv) else []) m) = []" if "k \<notin> fst ` set m"
    using that by (induction m) auto
  with Cons show ?case by (cases a) auto
qed simp

lemma map_of_sort:
  assumes "distinct (map fst m)"
  shows "map_of (sort_key fst m) = map_of m"
proof -
  have "mset (map fst (sort_key fst m)) = mset (map fst m)" by simp
  then have "distinct (map fst (sort_key fst m))" using assms mset_eq_imp_distinct_iff by blast
  then show ?thesis using assms by (intro map_of_inject_set [THEN iffD2]) simp_all
qed

lemma under_field:
  assumes "distinct (map fst kvs)"
  shows "under (SegmentField k # segs) (JObject kvs) = (case map_of kvs k of None \<Rightarrow> [] | Some v \<Rightarrow> under segs v)"
proof -
  have "mset (map fst (sort_key fst kvs)) = mset (map fst kvs)" by simp
  then have "distinct (map fst (sort_key fst kvs))" using assms mset_eq_imp_distinct_iff by blast
  from concat_one_key [OF this, of k "under segs"] show ?thesis by (simp add: under_object map_of_sort [OF assms])
qed

lemma under_collect:
  assumes "\<And>x ns. x \<in> set xs \<Longrightarrow> select segs x = Inr ns \<Longrightarrow> mset (under segs x) \<subseteq># mset (concat (map texts ns))"
    and "collect (map (select segs) xs) = Inr nodes"
  shows "mset (concat (map (under segs) xs)) \<subseteq># mset (concat (map texts nodes))"
  using assms
proof (induction xs arbitrary: nodes)
  case (Cons x xs)
  obtain ns ms where "select segs x = Inr ns" "collect (map (select segs) xs) = Inr ms" "nodes = ns @ ms"
    using Cons.prems(2) unfolding list.map collect_Cons by blast
  then show ?case using Cons.IH [of ms] Cons.prems(1) by (simp add: subset_mset.add_mono)
qed simp

lemma scalar_shape: "under (seg # segs) node = []" if "\<nexists>kvs. node = JObject kvs" "\<nexists>xs. node = JArray xs" for node
  using that by (auto simp: under_def leaves_scalar split: option.splits)

lemma under_select: "clean node \<Longrightarrow> select segs node = Inr nodes \<Longrightarrow> mset (under segs node) \<subseteq># mset (concat (map texts nodes))"
proof (induction segs arbitrary: node nodes)
  case Nil
  then show ?case
  proof (cases node rule: json_cases)
    case scalar
    with Nil show ?thesis by (cases node) (auto simp: under_def leaves_scalar scalarText_def)
  qed (simp_all add: under_object under_array concat_nothing)
next
  case (Cons seg segs)
  obtain ms where ms: "step_node seg node = Inr ms" "collect (map (select segs) ms) = Inr nodes"
    using Cons.prems(2) by (auto split: sum.splits)
  show ?case
  proof (cases node rule: json_cases)
    case (object kvs)
    show ?thesis
    proof (cases seg)
      case (SegmentField k)
      have d: "distinct (map fst kvs)" using Cons.prems object by (simp add: clean_object)
      show ?thesis
      proof (cases "map_of kvs k")
        case (Some v)
        then have "clean v" using Cons.prems object by (auto simp: clean_object dest!: map_of_SomeD)
        moreover have "ms = [v]" using ms(1) Some by (simp add: step_node_def SegmentField object)
        ultimately show ?thesis using Cons.IH [of v nodes] ms(2) Some
          by (auto simp: under_field [OF d] SegmentField object split: sum.splits)
      qed (simp add: under_field [OF d] SegmentField object)
    qed (use ms(1) object in \<open>simp_all add: step_node_def\<close>)
  next
    case (array xs)
    show ?thesis
    proof (cases seg)
      case SegmentWildcard
      then have "ms = xs" using ms(1) by (simp add: step_node_def array)
      then show ?thesis using under_collect [OF Cons.IH ms(2)] Cons.prems array SegmentWildcard
        by (simp add: under_array clean_array)
    next
      case (SegmentIndex i)
      have "under (SegmentIndex i # segs) (JArray xs) = []" by (simp add: under_array)
      then show ?thesis by (simp add: SegmentIndex array)
    qed (use ms(1) array in \<open>simp_all add: step_node_def\<close>)
  qed (simp add: scalar_shape)
qed


lemma texts_at_under:
  assumes "clean document" and "list_all segment_ok segs" and "segs \<noteq> []"
  shows "texts_at (print_path segs) (leaves document) = under segs document"
proof -
  have "s \<noteq> [] \<and> print_path s = print_path segs \<longleftrightarrow> s = segs" if "(s, t) \<in> set (leaves document)" for s t
    using parse_print [of s] parse_print [of segs] leaves_ok [OF assms(1) that] assms(2,3) by (metis sum.inject(2))
  then show ?thesis unfolding texts_at_def under_def by (auto intro!: arg_cong [where f = "map snd"] filter_cong)
qed

section \<open>Properties\<close>

text \<open>The path picker offers usable paths: for a document whose keys can be written as fields, every candidate of
  \<open>DiscoverFields\<close> parses, and when the extraction along it succeeds it returns every sample and at least as many values as the
  candidate counts; a candidate has between one and three distinct samples; and every scalar below the root has a candidate.\<close>

theorem discovered_paths_extract:
  assumes "clean document"
  shows "(\<forall>c\<in>set (DiscoverFields document). \<exists>segs. ParsePath (fc_Path c) = Inr segs
        \<and> distinct (fc_Samples c) \<and> length (fc_Samples c) \<in> {1..3}
        \<and> (\<forall>vs. Extract document (fc_Path c) = Inr vs \<longrightarrow> set (fc_Samples c) \<subseteq> set vs \<and> fc_Count c \<le> length vs))
    \<and> (\<forall>(s, t)\<in>set (leaves document). s \<noteq> [] \<longrightarrow> print_path s \<in> fc_Path ` set (DiscoverFields document))"
proof (intro conjI ballI)
  define acc where "acc = walkCandidates document [] []"
  have rec: "records acc (leaves document)" unfolding acc_def by (rule walk_records [OF assms])
  have paths: "fc_Path ` set (DiscoverFields document) = {p. p \<noteq> [] \<and> map_of acc p \<noteq> None}"
    by (force simp: DiscoverFields_def Let_def acc_def [symmetric] map_of_eq_None_iff image_iff)
  show "case st of (s, t) \<Rightarrow> s \<noteq> [] \<longrightarrow> print_path s \<in> fc_Path ` set (DiscoverFields document)" if "st \<in> set (leaves document)" for st
  proof (clarify)
    fix s t assume st: "st = (s, t)" and "s \<noteq> []"
    have "texts_at (print_path s) (leaves document) \<noteq> []" using that st \<open>s \<noteq> []\<close> by (force simp: texts_at_def filter_empty_conv)
    then have "map_of acc (print_path s) \<noteq> None" using records_None [OF rec] by blast
    moreover have "print_path s \<noteq> []" using print_empty leaves_ok [OF assms] that st \<open>s \<noteq> []\<close> by blast
    ultimately show "print_path s \<in> fc_Path ` set (DiscoverFields document)" unfolding paths by simp
  qed
  fix c assume c: "c \<in> set (DiscoverFields document)"
  then obtain item where item: "map_of acc (fc_Path c) = Some item" "fc_Count c = ca_count item" "fc_Samples c = ca_samples item"
    by (auto simp: DiscoverFields_def Let_def acc_def [symmetric] dest: weak_map_of_SomeI)
  let ?ts = "texts_at (fc_Path c) (leaves document)"
  have ts: "?ts \<noteq> []" "summarises item ?ts" using records_Some [OF rec item(1)] by auto
  then obtain s t where s: "(s, t) \<in> set (leaves document)" "s \<noteq> []" "print_path s = fc_Path c"
    by (auto simp: texts_at_def filter_empty_conv)
  have ok: "list_all segment_ok s" using leaves_ok [OF assms s(1)] .
  have parse: "ParsePath (fc_Path c) = Inr s" using parse_print [OF s(2) ok] s(3) by simp
  have under: "?ts = under s document" using texts_at_under [OF assms ok s(2)] s(3) by simp
  have "set (fc_Samples c) \<subseteq> set vs \<and> fc_Count c \<le> length vs" if ex: "Extract document (fc_Path c) = Inr vs" for vs
  proof -
    obtain nodes where n: "select s document = Inr nodes" "vs = concat (map texts nodes)"
      using ex parse unfolding Extract_meaning by auto
    have sub: "mset ?ts \<subseteq># mset vs" using under_select [OF assms n(1)] n(2) under by simp
    have "set ?ts \<subseteq> set vs" using mset_subset_eqD [OF sub] by auto
    moreover have "length ?ts \<le> length vs" using size_mset_mono [OF sub] by simp
    ultimately show ?thesis using ts(2) item by (auto simp: summarises_def)
  qed
  moreover have "length (fc_Samples c) \<in> {1..3}" "distinct (fc_Samples c)"
    using ts item(3) by (auto simp: summarises_def) (metis One_nat_def Suc_leI length_greater_0_conv list.set(1) set_empty subset_empty zero_less_numeral)+
  ultimately show "\<exists>segs. ParsePath (fc_Path c) = Inr segs \<and> distinct (fc_Samples c) \<and> length (fc_Samples c) \<in> {1..3}
      \<and> (\<forall>vs. Extract document (fc_Path c) = Inr vs \<longrightarrow> set (fc_Samples c) \<subseteq> set vs \<and> fc_Count c \<le> length vs)"
    using parse by blast
qed

definition sample_document :: json where
  "sample_document = JObject [(''data'', JArray [JObject [(''name'', JString ''Dune'')], JObject [(''name'', JString ''Heat'')]])]"

theorem discovered_paths_extract_witness:
  "(\<exists>segs. ParsePath ''data[].name'' = Inr segs) \<and> Extract sample_document ''data[].name'' = Inr [''Dune'', ''Heat'']"
proof -
  have "clean sample_document" by code_simp
  moreover have "map fc_Path (DiscoverFields sample_document) = [''data[].name'']" by code_simp
  ultimately have "\<exists>segs. ParsePath ''data[].name'' = Inr segs"
    using discovered_paths_extract [of sample_document] by (cases "DiscoverFields sample_document") auto
  then show ?thesis by (rule conjI) code_simp
qed

text \<open>A key with a dot is offered as a path that means something else: the candidate of the only scalar of the document parses, but
  the extraction along it finds nothing.\<close>

theorem dotted_key_not_extracted:
  "let document = JObject [(''a.b'', JString ''x'')]
   in map fc_Path (DiscoverFields document) = [''a.b''] \<and> map fc_Count (DiscoverFields document) = [1]
      \<and> Extract document ''a.b'' = Inr []"
  by code_simp

end
