(* ===== verification/Keyword_Iteration.thy ===== *)
theory Keyword_Iteration
  imports Keyword_Path
begin

text \<open>
  The request sequences of \<^verbatim>\<open>src/keywordsource/iteration.go\<close>: validation of an iteration, its numeric values in 64-bit
  arithmetic, and the derivation of the request for an index.

  The check of header names (\<open>httpguts\<close>, a third-party package) and the JSON decoder and encoder are arguments; the decoder
  returns a value and the bytes that follow it. Maps that are only updated and read by key are association lists.
\<close>

section \<open>Model: data\<close>

record IterationConfig =
  ic_Enabled :: bool
  ic_Location :: string
  ic_Path :: string
  ic_Start :: int
  ic_Step :: int
  ic_Count :: int
  ic_DelaySeconds :: int
  ic_Unlimited :: bool
  ic_NoKeywordStopCount :: int
  ic_StopMode :: string
  ic_RandomDelayMinSeconds :: int
  ic_RandomDelayMaxSeconds :: int

record RequestConfig =
  rq_Executor :: string
  rq_Method :: string
  rq_URL :: string
  rq_Headers :: "(string \<times> string) list"
  rq_Query :: "(string \<times> string) list"
  rq_BodyType :: string
  rq_Body :: string
  rq_Form :: "(string \<times> string) list"
  rq_ProxyURL :: string
  rq_TimeoutSeconds :: int
  rq_MaxRedirects :: int
  rq_BrowserGateway :: string
  rq_BrowserSession :: string

datatype iteration_error =
  CountRange | DelayRange | StopCountRange | StopModeInvalid | UnlimitedNeedsStop | RandomRange | RandomOrder
| IterationPathEmpty | QueryNameInvalid | HeaderNameInvalid | JSONPathInvalid | BodyNotObject | BodyTrailing
| ObjectMissing string | NotAnObject string | FormFieldInvalid | BodyTypeInvalid | LocationInvalid
| IndexNegative | IndexOutOfRange int | ValueOverflow | CannotMaterialize | EncodeFailed

text \<open>The parts of the environment that a request derivation uses.\<close>

record json_env =
  je_header :: "string \<Rightarrow> bool"
  je_decode :: "string \<Rightarrow> (json \<times> string) option"
  je_encode :: "json \<Rightarrow> string option"

section \<open>Model: canonical names\<close>

definition NormalizeIterationStopMode :: "string \<Rightarrow> string" where
  "NormalizeIterationStopMode mode = (if fold_key mode = [] then ''normal'' else fold_key mode)"

definition canonicalIterationLocation :: "string \<Rightarrow> string" where
  "canonicalIterationLocation location = (if location = [] then ''query'' else fold_key location)"

definition canonicalBodyType :: "string \<Rightarrow> string" where
  "canonicalBodyType bodyType = (if bodyType = [] then ''none'' else fold_key bodyType)"

definition contains_any :: "string \<Rightarrow> string \<Rightarrow> bool" where
  "contains_any s chars \<longleftrightarrow> list_ex (\<lambda>c. c \<in> set chars) s"

definition cr_lf :: string where "cr_lf = [CHR 0x0D, CHR 0x0A]"

fun json_segments :: "string list \<Rightarrow> iteration_error + string list" where
  "json_segments [] = Inr []"
| "json_segments (s # ss) =
     (let segment = trim_space s
      in if segment = [] \<or> contains_any segment (''[]'' @ cr_lf) then Inl JSONPathInvalid
         else case json_segments ss of Inl e \<Rightarrow> Inl e | Inr rest \<Rightarrow> Inr (segment # rest))"

definition parseIterationJSONPath :: "string \<Rightarrow> iteration_error + string list" where
  "parseIterationJSONPath path = json_segments (split_byte (CHR ''.'') (trim_space path))"

text \<open>\<open>http.CanonicalHeaderKey\<close> on the bytes of header names.\<close>

definition header_byte :: "char \<Rightarrow> bool" where
  "header_byte c \<longleftrightarrow>
     is_digit c \<or> (65 \<le> (of_char c :: nat) \<and> (of_char c :: nat) \<le> 90) \<or> (97 \<le> (of_char c :: nat) \<and> (of_char c :: nat) \<le> 122)
     \<or> c \<in> set ''!#$%&*+-.^_|~'' \<or> c = CHR 0x27 \<or> c = CHR 0x60"

fun header_case :: "bool \<Rightarrow> string \<Rightarrow> string" where
  "header_case upper [] = []"
| "header_case upper (c # cs) = (if upper then ascii_upper c else ascii_lower c) # header_case (c = CHR ''-'') cs"

definition CanonicalHeaderKey :: "string \<Rightarrow> string" where
  "CanonicalHeaderKey name = (if list_all header_byte name then header_case True name else name)"

section \<open>Model: JSON bodies\<close>

definition json_blank :: "string \<Rightarrow> bool" where
  "json_blank s \<longleftrightarrow> list_all (\<lambda>c. c \<in> set ([CHR 0x20, CHR 0x09] @ cr_lf)) s"

definition decodeJSONObject :: "json_env \<Rightarrow> string \<Rightarrow> iteration_error + (string \<times> json) list" where
  "decodeJSONObject env body =
     (case je_decode env body of
        Some (JObject document, rest) \<Rightarrow> if json_blank rest then Inr document else Inl BodyTrailing
      | _ \<Rightarrow> Inl BodyNotObject)"

fun descendJSONObject :: "(string \<times> json) list \<Rightarrow> string list \<Rightarrow> iteration_error + (string \<times> json) list" where
  "descendJSONObject current [] = Inr current"
| "descendJSONObject current (segment # segments) =
     (case map_of current segment of
        None \<Rightarrow> Inl (ObjectMissing segment)
      | Some (JObject o') \<Rightarrow> descendJSONObject o' segments
      | Some _ \<Rightarrow> Inl (NotAnObject segment))"

definition validateJSONIterationTarget :: "json_env \<Rightarrow> string \<Rightarrow> string \<Rightarrow> iteration_error + unit" where
  "validateJSONIterationTarget env body path =
     (case decodeJSONObject env body of
        Inl e \<Rightarrow> Inl e
      | Inr document \<Rightarrow>
          (case parseIterationJSONPath path of
             Inl e \<Rightarrow> Inl e
           | Inr segments \<Rightarrow> (case descendJSONObject document (butlast segments) of Inl e \<Rightarrow> Inl e | Inr _ \<Rightarrow> Inr ())))"

text \<open>The object that \<open>descendJSONObject\<close> returns is part of the document: writing to it changes the document along the path.\<close>

fun write_below :: "string list \<Rightarrow> string \<Rightarrow> json \<Rightarrow> (string \<times> json) list \<Rightarrow> (string \<times> json) list" where
  "write_below [] key v document = AList.update key v document"
| "write_below (segment # segments) key v document =
     (case map_of document segment of
        Some (JObject o') \<Rightarrow> AList.update segment (JObject (write_below segments key v o')) document
      | _ \<Rightarrow> document)"

definition injectJSONIterationValue :: "json_env \<Rightarrow> string \<Rightarrow> string \<Rightarrow> int \<Rightarrow> iteration_error + string" where
  "injectJSONIterationValue env body path value =
     (case decodeJSONObject env body of
        Inl e \<Rightarrow> Inl e
      | Inr document \<Rightarrow>
          (case parseIterationJSONPath path of
             Inl e \<Rightarrow> Inl e
           | Inr segments \<Rightarrow>
               (case descendJSONObject document (butlast segments) of
                  Inl e \<Rightarrow> Inl e
                | Inr parent \<Rightarrow>
                    (case je_encode env (JObject (write_below (butlast segments) (last segments) (JNumber (itoa value)) document)) of
                       None \<Rightarrow> Inl EncodeFailed
                     | Some encoded \<Rightarrow> Inr (trim_space encoded)))))"

section \<open>Model: values\<close>

text \<open>Signed 64-bit arithmetic wraps around.\<close>

definition wrap64 :: "int \<Rightarrow> int" where
  "wrap64 v = (v + 2 ^ 63) mod 2 ^ 64 - 2 ^ 63"

definition iterationValue :: "int \<Rightarrow> int \<Rightarrow> int \<Rightarrow> iteration_error + int" where
  "iterationValue start step index =
     (if index < 0 then Inl IndexNegative
      else if index \<noteq> 0 \<and> (step > go_div int64_max index \<or> step < go_div int64_min index) then Inl ValueOverflow
      else let delta = wrap64 (step * index)
           in if (delta > 0 \<and> start > wrap64 (int64_max - delta)) \<or> (delta < 0 \<and> start < wrap64 (int64_min - delta))
              then Inl ValueOverflow else Inr (wrap64 (start + delta)))"

definition IterationValue :: "IterationConfig \<Rightarrow> int \<Rightarrow> iteration_error + int" where
  "IterationValue it index =
     (if index < 0 then Inl IndexNegative
      else if \<not> ic_Enabled it \<and> index \<noteq> 0 then Inl (IndexOutOfRange index)
      else if ic_Enabled it \<and> \<not> ic_Unlimited it \<and> (index \<ge> ic_Count it \<or> ic_Count it < 1 \<or> ic_Count it > 100)
      then Inl (IndexOutOfRange index)
      else iterationValue (ic_Start it) (ic_Step it) index)"

fun iteration_values_loop :: "IterationConfig \<Rightarrow> int \<Rightarrow> nat \<Rightarrow> iteration_error + int list" where
  "iteration_values_loop it index 0 = Inr []"
| "iteration_values_loop it index (Suc n) =
     (case IterationValue it index of
        Inl e \<Rightarrow> Inl e
      | Inr v \<Rightarrow> (case iteration_values_loop it (index + 1) n of Inl e \<Rightarrow> Inl e | Inr vs \<Rightarrow> Inr (v # vs)))"

definition IterationValues :: "IterationConfig \<Rightarrow> iteration_error + int list" where
  "IterationValues it =
     (if \<not> ic_Enabled it then iteration_values_loop it 0 1
      else if ic_Unlimited it then Inl CannotMaterialize
      else if ic_Count it < 1 \<or> ic_Count it > 100 then Inl CountRange
      else iteration_values_loop it 0 (nat (ic_Count it)))"

section \<open>Model: validation and derivation\<close>

definition validate_target :: "json_env \<Rightarrow> RequestConfig \<Rightarrow> IterationConfig \<Rightarrow> iteration_error + unit" where
  "validate_target env base it =
     (let path = trim_space (ic_Path it); location = canonicalIterationLocation (ic_Location it)
      in if location = ''query'' then (if contains_any path cr_lf then Inl QueryNameInvalid else Inr ())
         else if location = ''header'' then (if \<not> je_header env path then Inl HeaderNameInvalid else Inr ())
         else if location = ''body''
         then (if canonicalBodyType (rq_BodyType base) = ''json''
               then (case parseIterationJSONPath path of
                       Inl e \<Rightarrow> Inl e
                     | Inr _ \<Rightarrow> validateJSONIterationTarget env (rq_Body base) path)
               else if canonicalBodyType (rq_BodyType base) = ''form''
               then (if contains_any path cr_lf then Inl FormFieldInvalid else Inr ())
               else Inl BodyTypeInvalid)
         else Inl LocationInvalid)"

definition validate_ranges :: "IterationConfig \<Rightarrow> iteration_error + unit" where
  "validate_ranges it =
     (if ic_Count it < 1 \<or> ic_Count it > 100 then Inl CountRange
      else if ic_DelaySeconds it < 0 \<or> ic_DelaySeconds it > 3600 then Inl DelayRange
      else if ic_NoKeywordStopCount it < 0 \<or> ic_NoKeywordStopCount it > 100 then Inl StopCountRange
      else if NormalizeIterationStopMode (ic_StopMode it) \<notin> {''normal'', ''strict''} then Inl StopModeInvalid
      else if ic_Unlimited it \<and> ic_NoKeywordStopCount it < 1 then Inl UnlimitedNeedsStop
      else if ic_RandomDelayMinSeconds it < - 3600 \<or> ic_RandomDelayMinSeconds it > 3600
              \<or> ic_RandomDelayMaxSeconds it < - 3600 \<or> ic_RandomDelayMaxSeconds it > 3600 then Inl RandomRange
      else if ic_RandomDelayMinSeconds it > ic_RandomDelayMaxSeconds it then Inl RandomOrder
      else if trim_space (ic_Path it) = [] then Inl IterationPathEmpty
      else Inr ())"

definition ValidateIterationConfig :: "json_env \<Rightarrow> RequestConfig \<Rightarrow> IterationConfig \<Rightarrow> iteration_error + unit" where
  "ValidateIterationConfig env base it =
     (if \<not> ic_Enabled it then Inr ()
      else case validate_ranges it of
             Inl e \<Rightarrow> Inl e
           | Inr _ \<Rightarrow>
               (case validate_target env base it of
                  Inl e \<Rightarrow> Inl e
                | Inr _ \<Rightarrow>
                    if ic_Unlimited it then (case IterationValue it 0 of Inl e \<Rightarrow> Inl e | Inr _ \<Rightarrow> Inr ())
                    else (case IterationValues it of Inl e \<Rightarrow> Inl e | Inr _ \<Rightarrow> Inr ())))"

definition equal_fold :: "string \<Rightarrow> string \<Rightarrow> bool" where
  "equal_fold a b \<longleftrightarrow> to_lower a = to_lower b"

definition inject_value :: "json_env \<Rightarrow> IterationConfig \<Rightarrow> int \<Rightarrow> RequestConfig \<Rightarrow> iteration_error + RequestConfig" where
  "inject_value env it value derived =
     (let path = trim_space (ic_Path it); location = canonicalIterationLocation (ic_Location it); bt = canonicalBodyType (rq_BodyType derived)
      in if location = ''query'' then Inr (derived\<lparr>rq_Query := AList.update path (itoa value) (rq_Query derived)\<rparr>)
         else if location = ''header''
         then Inr (derived\<lparr>rq_Headers := AList.update (CanonicalHeaderKey path) (itoa value)
                             (filter (\<lambda>kv. \<not> equal_fold (fst kv) path) (rq_Headers derived))\<rparr>)
         else if location = ''body'' \<and> bt = ''json''
         then (case injectJSONIterationValue env (rq_Body derived) path value of Inl e \<Rightarrow> Inl e | Inr b \<Rightarrow> Inr (derived\<lparr>rq_Body := b\<rparr>))
         else if location = ''body'' \<and> bt = ''form''
         then Inr (derived\<lparr>rq_Form := AList.update path (itoa value) (rq_Form derived)\<rparr>)
         else Inr derived)"

definition DeriveRequest :: "json_env \<Rightarrow> RequestConfig \<Rightarrow> IterationConfig \<Rightarrow> int \<Rightarrow> iteration_error + (RequestConfig \<times> int)" where
  "DeriveRequest env base it index =
     (case ValidateIterationConfig env base it of
        Inl e \<Rightarrow> Inl e
      | Inr _ \<Rightarrow>
          (case IterationValue it index of
             Inl e \<Rightarrow> Inl e
           | Inr value \<Rightarrow>
               if \<not> ic_Enabled it then Inr (base, value)
               else (case inject_value env it value base of Inl e \<Rightarrow> Inl e | Inr derived \<Rightarrow> Inr (derived, value))))"

section \<open>Lemmas\<close>

lemma wrap64_id: "in_int64 v \<Longrightarrow> wrap64 v = v"
  by (simp add: wrap64_def in_int64_def int64_min_def int64_max_def)

lemma div_less_int: "0 < (b :: int) \<Longrightarrow> a div b < c \<longleftrightarrow> a < c * b"
proof -
  assume b: "0 < b"
  have "a div b * b = a - a mod b" by (simp add: minus_mod_eq_div_mult)
  then have split: "a div b * b \<le> a" "a < (a div b + 1) * b"
    using pos_mod_sign [OF b, of a] pos_mod_bound [OF b, of a] unfolding distrib_right by linarith+
  have "a < c * b" if "a div b < c" by (rule less_le_trans [OF split(2)]) (use that b in \<open>simp add: mult_right_mono\<close>)
  moreover have "a div b < c" if "a < c * b" using split(1) mult_right_mono [of c "a div b" b] that b by linarith
  ultimately show ?thesis by blast
qed

lemma max_div_bound: "0 < index \<Longrightarrow> step > go_div int64_max index \<longleftrightarrow> step * index > int64_max"
proof -
  assume i: "0 < index"
  have "go_div int64_max index = int64_max div index" using i by (simp add: go_div_def int64_max_def sgn_if)
  moreover have "int64_max div index < step \<longleftrightarrow> int64_max < step * index" using i by (rule div_less_int)
  ultimately show ?thesis by simp
qed

lemma min_div_bound: "0 < index \<Longrightarrow> step < go_div int64_min index \<longleftrightarrow> step * index < int64_min"
proof -
  assume i: "0 < index"
  have "go_div int64_min index = - ((2 ^ 63) div index)" using i by (simp add: go_div_def int64_min_def sgn_if)
  moreover have "(2 ^ 63) div index < - step \<longleftrightarrow> 2 ^ 63 < (- step) * index" using i by (rule div_less_int)
  ultimately show ?thesis unfolding int64_min_def by auto
qed

lemma iteration_value_ok:
  assumes "in_int64 start" and "in_int64 step" and "0 \<le> index"
  shows "iterationValue start step index =
    (if in_int64 (step * index) \<and> in_int64 (start + step * index) then Inr (start + step * index) else Inl ValueOverflow)"
proof -
  define delta where "delta = step * index"
  have guard: "index \<noteq> 0 \<and> (step > go_div int64_max index \<or> step < go_div int64_min index) \<longleftrightarrow> \<not> in_int64 delta"
  proof (cases "index = 0")
    case False
    then have "0 < index" using assms(3) by simp
    then show ?thesis using max_div_bound min_div_bound by (auto simp: delta_def in_int64_def)
  qed (simp add: delta_def in_int64_def int64_min_def int64_max_def)
  show ?thesis
  proof (cases "in_int64 delta")
    case True
    have "delta > 0 \<Longrightarrow> wrap64 (int64_max - delta) = int64_max - delta" "delta < 0 \<Longrightarrow> wrap64 (int64_min - delta) = int64_min - delta"
      using True by (intro wrap64_id; simp add: in_int64_def int64_min_def int64_max_def)+
    then have "(delta > 0 \<and> start > wrap64 (int64_max - delta)) \<or> (delta < 0 \<and> start < wrap64 (int64_min - delta))
        \<longleftrightarrow> \<not> in_int64 (start + delta)"
      using assms(1) True by (auto simp: in_int64_def int64_min_def int64_max_def)
    moreover have "\<not> (index \<noteq> 0 \<and> (step > go_div int64_max index \<or> step < go_div int64_min index))" using guard True by blast
    ultimately show ?thesis using True assms(3) wrap64_id [of delta] wrap64_id [of "start + delta"]
      by (auto simp: iterationValue_def Let_def delta_def [symmetric])
  qed (use guard assms(3) in \<open>simp add: iterationValue_def delta_def [symmetric]\<close>)
qed

lemma iteration_values_loop_nth:
  "iteration_values_loop it i n = Inr vs \<Longrightarrow> k < n \<Longrightarrow> IterationValue it (i + int k) = Inr (vs ! k)"
proof (induction it i n arbitrary: vs k rule: iteration_values_loop.induct)
  case (2 it i n)
  obtain v ws where v: "IterationValue it i = Inr v" "iteration_values_loop it (i + 1) n = Inr ws" "vs = v # ws"
    using 2(2) by (auto split: sum.splits)
  show ?case
  proof (cases k)
    case (Suc j)
    then show ?thesis using 2(1) [OF v(1) v(2)] 2(3) v(3) by (simp add: algebra_simps)
  qed (simp add: v)
qed simp

lemma split_byte_nonempty: "split_byte sep s \<noteq> []"
  by (induction s) (auto split: list.splits)

lemma json_segments_nonempty: "json_segments ss = Inr segments \<Longrightarrow> ss \<noteq> [] \<Longrightarrow> segments \<noteq> []"
  by (cases ss) (auto simp: Let_def split: if_splits sum.splits)

lemma write_below_read:
  "descendJSONObject document segments = Inr parent \<Longrightarrow>
     descendJSONObject (write_below segments key v document) segments = Inr (AList.update key v parent)"
  by (induction document segments rule: descendJSONObject.induct) (auto simp: update_conv split: option.splits json.splits)

text \<open>The request carries the value where the iteration puts it, and is otherwise the base request.\<close>

definition carries :: "json_env \<Rightarrow> IterationConfig \<Rightarrow> int \<Rightarrow> RequestConfig \<Rightarrow> RequestConfig \<Rightarrow> bool" where
  "carries env it value base derived \<longleftrightarrow>
     (let path = trim_space (ic_Path it); location = canonicalIterationLocation (ic_Location it); bt = canonicalBodyType (rq_BodyType base)
      in if location = ''query'' then derived = base\<lparr>rq_Query := rq_Query derived\<rparr>
              \<and> map_of (rq_Query derived) = (map_of (rq_Query base))(path \<mapsto> itoa value)
         else if location = ''header'' then derived = base\<lparr>rq_Headers := rq_Headers derived\<rparr>
              \<and> map_of (rq_Headers derived) (CanonicalHeaderKey path) = Some (itoa value)
              \<and> (\<forall>k. k \<noteq> CanonicalHeaderKey path \<longrightarrow>
                   map_of (rq_Headers derived) k = (if equal_fold k path then None else map_of (rq_Headers base) k))
         else if bt = ''form'' then derived = base\<lparr>rq_Form := rq_Form derived\<rparr>
              \<and> map_of (rq_Form derived) = (map_of (rq_Form base))(path \<mapsto> itoa value)
         else derived = base\<lparr>rq_Body := rq_Body derived\<rparr>
              \<and> (\<exists>document segments written parent encoded. decodeJSONObject env (rq_Body base) = Inr document
                   \<and> parseIterationJSONPath path = Inr segments \<and> segments \<noteq> []
                   \<and> je_encode env (JObject written) = Some encoded \<and> rq_Body derived = trim_space encoded
                   \<and> descendJSONObject written (butlast segments) = Inr parent
                   \<and> map_of parent (last segments) = Some (JNumber (itoa value))))"

lemma map_of_filter_fold:
  "map_of (filter (\<lambda>kv. \<not> equal_fold (fst kv) path) m) k = (if equal_fold k path then None else map_of m k)"
  by (induction m) auto

lemma inject_carries:
  assumes "validate_target env base it = Inr ()" and "\<And>v. je_encode env v \<noteq> None"
  shows "\<exists>derived. inject_value env it value base = Inr derived \<and> carries env it value base derived"
proof -
  define path where "path = trim_space (ic_Path it)"
  consider (query) "canonicalIterationLocation (ic_Location it) = ''query''"
    | (header) "canonicalIterationLocation (ic_Location it) = ''header''"
    | (form) "canonicalIterationLocation (ic_Location it) = ''body''" "canonicalBodyType (rq_BodyType base) = ''form''"
    | (json) "canonicalIterationLocation (ic_Location it) = ''body''" "canonicalBodyType (rq_BodyType base) = ''json''"
    using assms(1) by (auto simp: validate_target_def Let_def split: if_splits)
  then show ?thesis
  proof cases
    case json
    have "validateJSONIterationTarget env (rq_Body base) path = Inr ()"
      using assms(1) json by (auto simp: validate_target_def Let_def path_def split: sum.splits)
    then obtain document segments parent where d: "decodeJSONObject env (rq_Body base) = Inr document"
        "parseIterationJSONPath path = Inr segments" "descendJSONObject document (butlast segments) = Inr parent"
      by (auto simp: validateJSONIterationTarget_def split: sum.splits)
    define written where "written = write_below (butlast segments) (last segments) (JNumber (itoa value)) document"
    obtain encoded where e: "je_encode env (JObject written) = Some encoded" using assms(2) by blast
    have seg: "segments \<noteq> []" using d(2) json_segments_nonempty split_byte_nonempty by (auto simp: parseIterationJSONPath_def)
    have w: "descendJSONObject written (butlast segments) = Inr (AList.update (last segments) (JNumber (itoa value)) parent)"
      unfolding written_def by (rule write_below_read [OF d(3)])
    have "injectJSONIterationValue env (rq_Body base) path value = Inr (trim_space encoded)"
      using d e by (simp add: injectJSONIterationValue_def written_def)
    moreover have "map_of (AList.update (last segments) (JNumber (itoa value)) parent) (last segments) = Some (JNumber (itoa value))"
      by (simp add: update_conv)
    ultimately show ?thesis using d(1,2) e seg w json
      by (simp add: inject_value_def carries_def Let_def path_def [symmetric]) blast
  qed (auto simp: inject_value_def carries_def Let_def update_conv map_of_filter_fold)
qed

section \<open>Properties\<close>

text \<open>C35: Iteration values do not wrap: on 64-bit operands the value of an index is the exact \<open>start + step * index\<close>, and an overflow
  is reported exactly when the product or the sum leaves the 64-bit range.\<close>

theorem iteration_value_exact:
  assumes "in_int64 start" and "in_int64 step" and "0 \<le> index"
  shows "iterationValue start step index =
    (if in_int64 (step * index) \<and> in_int64 (start + step * index) then Inr (start + step * index) else Inl ValueOverflow)"
  using assms by (rule iteration_value_ok)

theorem iteration_value_exact_witness:
  "iterationValue (- 5) 4611686018427387904 2 = Inl ValueOverflow \<and> iterationValue 1 50 3 = Inr 151"
  using iteration_value_exact [of "- 5" 4611686018427387904 2] iteration_value_exact [of 1 50 3]
  by (simp add: in_int64_def int64_min_def int64_max_def)

text \<open>A validated finite iteration can be carried out: for every index below its count the derived request exists, carries the exact
  value where the iteration puts it, and is otherwise the base request.\<close>

theorem derive_request_total:
  assumes "ValidateIterationConfig env base it = Inr ()" and "ic_Enabled it" and "\<not> ic_Unlimited it"
    and "\<And>v. je_encode env v \<noteq> None" and "in_int64 (ic_Start it)" and "in_int64 (ic_Step it)"
    and "0 \<le> index" and "index < ic_Count it"
  shows "\<exists>derived. DeriveRequest env base it index = Inr (derived, ic_Start it + ic_Step it * index)
    \<and> carries env it (ic_Start it + ic_Step it * index) base derived"
proof -
  obtain vs where ok: "validate_ranges it = Inr ()" "validate_target env base it = Inr ()" and vs: "IterationValues it = Inr vs"
    using assms(1-3) by (auto simp: ValidateIterationConfig_def split: sum.splits)
  have "iteration_values_loop it 0 (nat (ic_Count it)) = Inr vs" using vs assms(2,3) by (auto simp: IterationValues_def split: if_splits)
  from iteration_values_loop_nth [OF this, of "nat index"]
  obtain v where v: "IterationValue it index = Inr v" using assms(7,8) by auto
  then have "iterationValue (ic_Start it) (ic_Step it) index = Inr v" by (auto simp: IterationValue_def split: if_splits)
  then have "v = ic_Start it + ic_Step it * index" using iteration_value_ok [OF assms(5-7)] by (simp split: if_splits)
  with v inject_carries [OF ok(2) assms(4), of v] assms(1,2) show ?thesis by (auto simp: DeriveRequest_def)
qed

definition sample_env :: json_env where
  "sample_env = \<lparr>je_header = (\<lambda>_. True), je_decode = (\<lambda>_. Some (JObject [(''page'', JNumber ''1'')], [])), je_encode = (\<lambda>_. Some ''{}'')\<rparr>"

definition sample_iteration :: IterationConfig where
  "sample_iteration =
     \<lparr>ic_Enabled = True, ic_Location = ''body'', ic_Path = ''page'', ic_Start = 1, ic_Step = 1, ic_Count = 3, ic_DelaySeconds = 0,
      ic_Unlimited = False, ic_NoKeywordStopCount = 0, ic_StopMode = [], ic_RandomDelayMinSeconds = 0, ic_RandomDelayMaxSeconds = 0\<rparr>"

definition sample_base :: RequestConfig where
  "sample_base =
     \<lparr>rq_Executor = ''http'', rq_Method = ''POST'', rq_URL = ''http://a'', rq_Headers = [], rq_Query = [], rq_BodyType = ''json'',
      rq_Body = ''{}'', rq_Form = [], rq_ProxyURL = [], rq_TimeoutSeconds = 15, rq_MaxRedirects = 5, rq_BrowserGateway = [],
      rq_BrowserSession = []\<rparr>"

theorem derive_request_total_witness:
  "\<exists>derived. DeriveRequest sample_env sample_base sample_iteration 2 = Inr (derived, 3)"
proof -
  have "ValidateIterationConfig sample_env sample_base sample_iteration = Inr ()" by code_simp
  moreover have "je_encode sample_env v \<noteq> None" for v by (simp add: sample_env_def)
  moreover have "ic_Enabled sample_iteration" "\<not> ic_Unlimited sample_iteration" "in_int64 (ic_Start sample_iteration)"
    "in_int64 (ic_Step sample_iteration)" "(2 :: int) < ic_Count sample_iteration" by code_simp+
  ultimately obtain derived where "DeriveRequest sample_env sample_base sample_iteration 2 =
      Inr (derived, ic_Start sample_iteration + ic_Step sample_iteration * 2)"
    using derive_request_total [of sample_env sample_base sample_iteration 2] by auto
  then show ?thesis by (simp add: sample_iteration_def)
qed

end
