(* ===== verification/Keyword_Sync.thy ===== *)
theory Keyword_Sync
  imports Keyword_Iteration
begin

text \<open>
  A tracked synchronisation run of \<^verbatim>\<open>src/keywordsync\<close>: \<open>executeTrackedRun\<close> of \<^verbatim>\<open>history.go\<close> with the helpers of
  \<^verbatim>\<open>service.go\<close>. The loop over the requests may not end, so it is a partial function: \<open>None\<close> is a run that never
  returns.

  What the world answers at each iteration (cancellation, the delay, the store, the HTTP request) is an argument. The texts of
  error messages and of samples are not part of the model: an error is the value that caused it.
\<close>

section \<open>Model: data\<close>

record sync_env =
  sn_cancelled :: "int \<Rightarrow> bool"
  sn_wait :: "int \<Rightarrow> bool"
  sn_begin :: "int \<Rightarrow> bool"
  sn_execute :: "int \<Rightarrow> RequestConfig \<Rightarrow> json option"
  sn_interrupted :: "int \<Rightarrow> bool"
  sn_complete :: "int \<Rightarrow> bool"
  sn_existing :: "int \<Rightarrow> string list \<Rightarrow> string list option"
  sn_stopped :: bool
  sn_finalize :: bool

datatype sync_failure = DeriveFailed iteration_error | ExecuteFailed | ExtractFailed path_error | ProgressCheckFailed | ConfigFailed

datatype row_status = RowRunning | RowFailed | RowSuccess

record iteration_row =
  ir_Sequence :: int
  ir_Status :: row_status
  ir_RawItemCount :: nat
  ir_UniqueItemCount :: nat
  ir_CrossIterationNew :: nat

record tracked_run =
  tr_values :: "string list"
  tr_sequences :: "int list"
  tr_seen :: "string list"
  tr_errors :: "sync_failure list"
  tr_requestCount :: int
  tr_successCount :: int
  tr_failureCount :: int
  tr_rawItemCount :: nat
  tr_noKeywordStreak :: int
  tr_rows :: "iteration_row list"

datatype run_status = RunSuccess | RunPartial

datatype sync_outcome =
  Interrupted
| StoreFailed
| RunFailed "sync_failure list" int int
| Finalized run_status "string list" "int list" int int int
| SaveFailed int int

datatype iteration_step = Continue tracked_run | Break tracked_run | Return tracked_run sync_outcome

section \<open>Model: helpers\<close>

definition iterationAllowsIndex :: "IterationConfig \<Rightarrow> int \<Rightarrow> bool" where
  "iterationAllowsIndex it index = (if \<not> ic_Enabled it then index = 0 else ic_Unlimited it \<or> index < ic_Count it)"

definition iterationReachedNoKeywordLimit :: "IterationConfig \<Rightarrow> int \<Rightarrow> bool" where
  "iterationReachedNoKeywordLimit it streak \<longleftrightarrow> ic_NoKeywordStopCount it > 0 \<and> streak \<ge> ic_NoKeywordStopCount it"

fun new_values :: "string list \<Rightarrow> KeywordValue list \<Rightarrow> KeywordValue list \<times> string list" where
  "new_values seen [] = ([], seen)"
| "new_values seen (v # vs) =
     (if kv_Normalized v \<in> set seen then new_values seen vs
      else let (fresh, seen) = new_values (kv_Normalized v # seen) vs in (v # fresh, seen))"

text \<open>\<open>evaluateIterationKeywordProgress\<close>: the values not seen in this run, the extended set of seen values and whether
  there was progress; \<open>None\<close> is an error of the store. The set of seen values is shared with the caller, so it grows on errors too.\<close>

definition evaluateIterationKeywordProgress :: "(string list \<Rightarrow> string list option) \<Rightarrow> IterationConfig \<Rightarrow> KeywordValue list \<Rightarrow> string list \<Rightarrow>
    (KeywordValue list \<times> bool) option \<times> string list" where
  "evaluateIterationKeywordProgress existing it extracted seen =
     (let (fresh, seen) = new_values seen extracted
      in (if \<not> ic_Enabled it \<or> ic_NoKeywordStopCount it \<le> 0 \<or> NormalizeIterationStopMode (ic_StopMode it) = ''normal''
          then Some (fresh, extracted \<noteq> [])
          else if fresh = [] then Some (fresh, False)
          else case existing (map kv_Normalized fresh) of
                 None \<Rightarrow> None
               | Some old \<Rightarrow> Some (fresh, list_ex (\<lambda>v. kv_Normalized v \<notin> set old) fresh),
          seen))"

definition combinedIterationDelay :: "int \<Rightarrow> int \<Rightarrow> duration" where
  "combinedIterationDelay fixedSeconds randomSeconds = max 0 (fixedSeconds + randomSeconds) * Second"

section \<open>Model: one iteration\<close>

definition close_row :: "sync_env \<Rightarrow> int \<Rightarrow> iteration_row \<Rightarrow> tracked_run \<Rightarrow> tracked_run" where
  "close_row env index row run =
     (if sn_complete env index then run\<lparr>tr_rows := butlast (tr_rows run) @ [row]\<rparr> else run)"

definition failed_row :: "int \<Rightarrow> iteration_row" where
  "failed_row index =
     \<lparr>ir_Sequence = index + 1, ir_Status = RowFailed, ir_RawItemCount = 0, ir_UniqueItemCount = 0, ir_CrossIterationNew = 0\<rparr>"

definition end_iteration :: "sync_env \<Rightarrow> IterationConfig \<Rightarrow> int \<Rightarrow> iteration_row \<Rightarrow> tracked_run \<Rightarrow> iteration_step" where
  "end_iteration env it index row run =
     (let run' = close_row env index row run
      in if \<not> sn_complete env index then Return run' StoreFailed
         else if iterationReachedNoKeywordLimit it (tr_noKeywordStreak run) then Break run'
         else Continue run')"

definition fail_iteration :: "sync_env \<Rightarrow> IterationConfig \<Rightarrow> int \<Rightarrow> sync_failure \<Rightarrow> tracked_run \<Rightarrow> iteration_step" where
  "fail_iteration env it index failure run =
     end_iteration env it index (failed_row index)
       (run\<lparr>tr_failureCount := tr_failureCount run + 1, tr_noKeywordStreak := tr_noKeywordStreak run + 1,
            tr_errors := tr_errors run @ [failure]\<rparr>)"

definition succeed_iteration :: "sync_env \<Rightarrow> IterationConfig \<Rightarrow> int \<Rightarrow> ExtractionResult \<Rightarrow> KeywordValue list \<Rightarrow> bool \<Rightarrow> tracked_run \<Rightarrow>
    iteration_step" where
  "succeed_iteration env it index extraction fresh hasProgress run =
     end_iteration env it index
       \<lparr>ir_Sequence = index + 1, ir_Status = RowSuccess, ir_RawItemCount = ex_RawCount extraction,
        ir_UniqueItemCount = ex_UniqueCount extraction, ir_CrossIterationNew = length fresh\<rparr>
       (run\<lparr>tr_successCount := tr_successCount run + 1, tr_rawItemCount := tr_rawItemCount run + ex_RawCount extraction,
            tr_noKeywordStreak := (if hasProgress then 0 else tr_noKeywordStreak run + 1),
            tr_values := tr_values run @ map kv_Value fresh,
            tr_sequences := tr_sequences run @ map (\<lambda>_. index + 1) fresh\<rparr>)"

definition process_document :: "sync_env \<Rightarrow> IterationConfig \<Rightarrow> string \<Rightarrow> int \<Rightarrow> json \<Rightarrow> tracked_run \<Rightarrow> iteration_step" where
  "process_document env it path index document run =
     (case ExtractKeywords document path of
        Inl e \<Rightarrow> fail_iteration env it index (ExtractFailed e) run
      | Inr extraction \<Rightarrow>
          (case evaluateIterationKeywordProgress (sn_existing env index) it (ex_Values extraction) (tr_seen run) of
             (None, seen) \<Rightarrow>
               let run = run\<lparr>tr_seen := seen, tr_failureCount := tr_failureCount run + 1\<rparr>;
                   run' = close_row env index (failed_row index) run
               in if \<not> sn_complete env index then Return run' StoreFailed
                  else Return run' (RunFailed [ProgressCheckFailed] (tr_requestCount run) (tr_failureCount run))
           | (Some (fresh, hasProgress), seen) \<Rightarrow>
               succeed_iteration env it index extraction fresh hasProgress (run\<lparr>tr_seen := seen\<rparr>)))"

definition derive_error :: "json_env \<Rightarrow> RequestConfig \<Rightarrow> IterationConfig \<Rightarrow> int \<Rightarrow> iteration_error + RequestConfig" where
  "derive_error jenv base it index =
     (case DeriveRequest jenv base it index of
        Inl e \<Rightarrow> Inl e
      | Inr (config, _) \<Rightarrow> (case IterationValue it index of Inl e \<Rightarrow> Inl e | Inr _ \<Rightarrow> Inr config))"

definition tracked_iteration :: "sync_env \<Rightarrow> json_env \<Rightarrow> RequestConfig \<Rightarrow> IterationConfig \<Rightarrow> string \<Rightarrow> int \<Rightarrow> tracked_run \<Rightarrow> iteration_step" where
  "tracked_iteration env jenv base it path index run =
     (if sn_cancelled env index then Return run Interrupted
      else if index > 0 \<and> \<not> sn_wait env index then Return run Interrupted
      else if \<not> sn_begin env index then Return run StoreFailed
      else let run = run\<lparr>tr_requestCount := tr_requestCount run + 1,
                         tr_rows := tr_rows run @ [\<lparr>ir_Sequence = index + 1, ir_Status = RowRunning, ir_RawItemCount = 0,
                                                    ir_UniqueItemCount = 0, ir_CrossIterationNew = 0\<rparr>]\<rparr>
           in case derive_error jenv base it index of
                Inl e \<Rightarrow> fail_iteration env it index (DeriveFailed e) run
              | Inr config \<Rightarrow>
                  (case sn_execute env index config of
                     None \<Rightarrow>
                       if sn_interrupted env index then Return (close_row env index (failed_row index) run) Interrupted
                       else fail_iteration env it index ExecuteFailed run
                   | Some document \<Rightarrow> process_document env it path index document run))"

section \<open>Model: the run\<close>

partial_function (option) tracked_loop :: "sync_env \<Rightarrow> json_env \<Rightarrow> RequestConfig \<Rightarrow> IterationConfig \<Rightarrow> string \<Rightarrow> int \<Rightarrow> tracked_run \<Rightarrow>
    (tracked_run \<times> sync_outcome option) option" where
  "tracked_loop env jenv base it path index run =
     (if \<not> iterationAllowsIndex it index then Some (run, None)
      else case tracked_iteration env jenv base it path index run of
             Return run result \<Rightarrow> Some (run, Some result)
           | Break run \<Rightarrow> Some (run, None)
           | Continue run \<Rightarrow> tracked_loop env jenv base it path (index + 1) run)"

declare tracked_loop.simps [code]

definition new_run :: tracked_run where
  "new_run =
     \<lparr>tr_values = [], tr_sequences = [], tr_seen = [], tr_errors = [], tr_requestCount = 0, tr_successCount = 0, tr_failureCount = 0,
      tr_rawItemCount = 0, tr_noKeywordStreak = 0, tr_rows = []\<rparr>"

definition finish_run :: "sync_env \<Rightarrow> tracked_run \<Rightarrow> sync_outcome" where
  "finish_run env run =
     (if sn_stopped env then Interrupted
      else if tr_successCount run = 0 then RunFailed (tr_errors run) (tr_requestCount run) (tr_failureCount run)
      else if \<not> sn_finalize env then SaveFailed (tr_requestCount run) (tr_failureCount run)
      else Finalized (if tr_failureCount run > 0 then RunPartial else RunSuccess) (tr_values run) (tr_sequences run)
             (tr_requestCount run) (tr_successCount run) (tr_failureCount run))"

text \<open>\<open>config\<close> is the converted request, or none when the conversion or its validation failed.\<close>

definition executeTrackedRun :: "sync_env \<Rightarrow> json_env \<Rightarrow> RequestConfig option \<Rightarrow> IterationConfig \<Rightarrow> string \<Rightarrow>
    (tracked_run \<times> sync_outcome) option" where
  "executeTrackedRun env jenv config it path =
     (case config of
        None \<Rightarrow> Some (new_run, RunFailed [ConfigFailed] 0 0)
      | Some base \<Rightarrow>
          (case (ParsePath path, ValidateIterationConfig jenv base it) of
             (Inr _, Inr _) \<Rightarrow>
               (case tracked_loop env jenv base it path 0 new_run of
                  None \<Rightarrow> None
                | Some (run, Some result) \<Rightarrow> Some (run, result)
                | Some (run, None) \<Rightarrow> Some (run, finish_run env run))
           | _ \<Rightarrow> Some (new_run, RunFailed [ConfigFailed] 0 0)))"

end
