(* ===== verification/Keyword_Sync_Laws.thy ===== *)
theory Keyword_Sync_Laws
  imports Keyword_Sync Keyword_Path_Laws
begin

text \<open>
  What a synchronisation run guarantees: it ends for every finite iteration, and for an unlimited one in strict mode when the
  source offers finitely many keywords; its counters and rows agree; and an unlimited iteration in normal mode against a source
  that keeps answering never ends.
\<close>

section \<open>Progress\<close>

lemma new_values_laws:
  assumes "new_values seen vs = (fresh, seen')"
  shows "set seen' = set seen \<union> kv_Normalized ` set vs" and "set fresh \<subseteq> set vs" and "distinct (map kv_Normalized fresh)"
    and "kv_Normalized ` set fresh = kv_Normalized ` set vs - set seen"
proof -
  have "set seen' = set seen \<union> kv_Normalized ` set vs \<and> set fresh \<subseteq> set vs \<and> distinct (map kv_Normalized fresh)
      \<and> kv_Normalized ` set fresh = kv_Normalized ` set vs - set seen"
    using assms
  proof (induction seen vs arbitrary: fresh seen' rule: new_values.induct)
    case (2 seen v vs)
    show ?case
    proof (cases "kv_Normalized v \<in> set seen")
      case True
      then show ?thesis using 2(1) [OF True] 2(3) by auto
    next
      case False
      obtain f s where fs: "new_values (kv_Normalized v # seen) vs = (f, s)" by fastforce
      then have IH: "set s = insert (kv_Normalized v) (set seen) \<union> kv_Normalized ` set vs" "set f \<subseteq> set vs"
          "distinct (map kv_Normalized f)" "kv_Normalized ` set f = kv_Normalized ` set vs - insert (kv_Normalized v) (set seen)"
        using 2(2) [OF False fs] by simp_all
      have "fresh = v # f" "seen' = s" using 2(3) False by (simp_all add: fs)
      moreover have "kv_Normalized v \<notin> kv_Normalized ` set f" unfolding IH(4) by simp
      moreover have "insert (kv_Normalized v) (kv_Normalized ` set f) = insert (kv_Normalized v) (kv_Normalized ` set vs) - set seen"
        unfolding IH(4) using False by blast
      ultimately show ?thesis using IH(1-3) by auto
    qed
  qed simp
  then show "set seen' = set seen \<union> kv_Normalized ` set vs" "set fresh \<subseteq> set vs" "distinct (map kv_Normalized fresh)"
    "kv_Normalized ` set fresh = kv_Normalized ` set vs - set seen" by blast+
qed

definition strict_mode :: "IterationConfig \<Rightarrow> bool" where
  "strict_mode it \<longleftrightarrow> ic_Enabled it \<and> ic_NoKeywordStopCount it > 0 \<and> NormalizeIterationStopMode (ic_StopMode it) \<noteq> ''normal''"

lemma progress_seen:
  assumes "evaluateIterationKeywordProgress existing it extracted seen = (r, seen')"
  shows "set seen' = set seen \<union> kv_Normalized ` set extracted"
proof -
  obtain f s where fs: "new_values seen extracted = (f, s)" by fastforce
  have "s = seen'" using assms by (simp add: evaluateIterationKeywordProgress_def fs)
  with new_values_laws(1) [OF fs] show ?thesis by simp
qed

lemma strict_progress:
  assumes "strict_mode it" and "evaluateIterationKeywordProgress existing it extracted seen = (Some (fresh, True), seen')"
  shows "set seen \<subset> set seen'"
proof -
  obtain f s where fs: "new_values seen extracted = (f, s)" by fastforce
  have "f \<noteq> []" "s = seen'" using assms by (auto simp: evaluateIterationKeywordProgress_def strict_mode_def fs split: if_splits option.splits)
  then show ?thesis using new_values_laws [OF fs] by (cases f) auto
qed

section \<open>One iteration\<close>

lemma end_iteration_cases:
  obtains (returned) "end_iteration env it index row run = Return (close_row env index row run) StoreFailed" "\<not> sn_complete env index"
    | (break) "end_iteration env it index row run = Break (close_row env index row run)" "sn_complete env index"
        "iterationReachedNoKeywordLimit it (tr_noKeywordStreak run)"
    | (continued) "end_iteration env it index row run = Continue (close_row env index row run)" "sn_complete env index"
        "\<not> iterationReachedNoKeywordLimit it (tr_noKeywordStreak run)"
  by (auto simp: end_iteration_def Let_def)

lemma close_row_simps [simp]:
  "tr_values (close_row env index row run) = tr_values run" "tr_sequences (close_row env index row run) = tr_sequences run"
  "tr_seen (close_row env index row run) = tr_seen run" "tr_errors (close_row env index row run) = tr_errors run"
  "tr_requestCount (close_row env index row run) = tr_requestCount run" "tr_successCount (close_row env index row run) = tr_successCount run"
  "tr_failureCount (close_row env index row run) = tr_failureCount run" "tr_noKeywordStreak (close_row env index row run) = tr_noKeywordStreak run"
  by (simp_all add: close_row_def)

text \<open>The ways an iteration can go on: a failure, or a success with or without progress.\<close>

definition begun :: "int \<Rightarrow> tracked_run \<Rightarrow> tracked_run" where
  "begun index run =
     run\<lparr>tr_requestCount := tr_requestCount run + 1,
         tr_rows := tr_rows run @ [\<lparr>ir_Sequence = index + 1, ir_Status = RowRunning, ir_RawItemCount = 0, ir_UniqueItemCount = 0,
                                    ir_CrossIterationNew = 0\<rparr>]\<rparr>"

lemma tracked_iteration_cases:
  obtains (early) result where "tracked_iteration env jenv base it path index run = Return run result" "result = Interrupted \<or> result = StoreFailed"
    | (interrupted) "tracked_iteration env jenv base it path index run = Return (close_row env index (failed_row index) (begun index run)) Interrupted"
    | (failed) failure where "tracked_iteration env jenv base it path index run = fail_iteration env it index failure (begun index run)"
    | (processed) config document where "sn_execute env index config = Some document"
        "tracked_iteration env jenv base it path index run = process_document env it path index document (begun index run)"
proof -
  show thesis
  proof (cases "sn_cancelled env index \<or> (index > 0 \<and> \<not> sn_wait env index) \<or> \<not> sn_begin env index")
    case True
    then show thesis by (intro early [of "if sn_cancelled env index \<or> (index > 0 \<and> \<not> sn_wait env index) then Interrupted else StoreFailed"])
        (auto simp: tracked_iteration_def)
  next
    case False
    have nc: "\<not> sn_cancelled env index" "\<not> (index > 0 \<and> \<not> sn_wait env index)" "\<not> \<not> sn_begin env index" using False by blast+
    have start: "tracked_iteration env jenv base it path index run =
      (case derive_error jenv base it index of
         Inl e \<Rightarrow> fail_iteration env it index (DeriveFailed e) (begun index run)
       | Inr config \<Rightarrow>
           (case sn_execute env index config of
              None \<Rightarrow> if sn_interrupted env index then Return (close_row env index (failed_row index) (begun index run)) Interrupted
                      else fail_iteration env it index ExecuteFailed (begun index run)
            | Some document \<Rightarrow> process_document env it path index document (begun index run)))"
      unfolding tracked_iteration_def Let_def begun_def if_not_P [OF nc(1)] if_not_P [OF nc(2)] if_not_P [OF nc(3)] ..
    show thesis
    proof (cases "derive_error jenv base it index")
      case (Inl e)
      then show thesis using start by (intro failed [of "DeriveFailed e"]) simp
    next
      case (Inr config)
      show thesis
      proof (cases "sn_execute env index config")
        case None
        then show thesis using start Inr interrupted failed [of ExecuteFailed] by (cases "sn_interrupted env index") auto
      next
        case (Some document)
        then show thesis using start Inr by (intro processed [of config document]) auto
      qed
    qed
  qed
qed

lemma process_document_cases:
  obtains (unreadable) e where "ExtractKeywords document path = Inl e"
        "process_document env it path index document run = fail_iteration env it index (ExtractFailed e) run"
    | (refused) result seen where "process_document env it path index document run =
          Return (close_row env index (failed_row index) (run\<lparr>tr_seen := seen, tr_failureCount := tr_failureCount run + 1\<rparr>)) result"
        "result = StoreFailed \<or> result = RunFailed [ProgressCheckFailed] (tr_requestCount run) (tr_failureCount run + 1)"
    | (checked) extraction fresh progress seen where "ExtractKeywords document path = Inr extraction"
        "evaluateIterationKeywordProgress (sn_existing env index) it (ex_Values extraction) (tr_seen run) = (Some (fresh, progress), seen)"
        "process_document env it path index document run = succeed_iteration env it index extraction fresh progress (run\<lparr>tr_seen := seen\<rparr>)"
proof (cases "ExtractKeywords document path")
  case (Inl e)
  then show thesis by (intro unreadable [of e]) (simp_all add: process_document_def)
next
  case (Inr extraction)
  obtain r seen where ev: "evaluateIterationKeywordProgress (sn_existing env index) it (ex_Values extraction) (tr_seen run) = (r, seen)"
    by fastforce
  show thesis
  proof (cases r)
    case None
    then show thesis using Inr ev
      by (intro refused [of seen "if sn_complete env index then RunFailed [ProgressCheckFailed] (tr_requestCount run) (tr_failureCount run + 1) else StoreFailed"])
        (simp_all add: process_document_def Let_def)
  next
    case (Some fp)
    then show thesis using Inr ev by (intro checked [of extraction "fst fp" "snd fp" seen]) (cases fp; simp add: process_document_def)+
  qed
qed


section \<open>Termination\<close>

text \<open>The keywords the source can offer.\<close>

definition source_within :: "sync_env \<Rightarrow> string \<Rightarrow> string set \<Rightarrow> bool" where
  "source_within env path K \<longleftrightarrow>
     (\<forall>index config document extraction. sn_execute env index config = Some document \<longrightarrow> ExtractKeywords document path = Inr extraction \<longrightarrow>
        kv_Normalized ` set (ex_Values extraction) \<subseteq> K)"

lemma iteration_continues:
  assumes "tracked_iteration env jenv base it path index run = Continue run'"
  shows "tr_requestCount run' = tr_requestCount run + 1 \<and> \<not> iterationReachedNoKeywordLimit it (tr_noKeywordStreak run')
    \<and> (tr_noKeywordStreak run' = tr_noKeywordStreak run + 1 \<and> set (tr_seen run) \<subseteq> set (tr_seen run')
       \<or> tr_noKeywordStreak run' = 0
         \<and> (\<exists>config document extraction fresh. sn_execute env index config = Some document \<and> ExtractKeywords document path = Inr extraction
              \<and> evaluateIterationKeywordProgress (sn_existing env index) it (ex_Values extraction) (tr_seen run)
                  = (Some (fresh, True), tr_seen run')))"
proof (cases rule: tracked_iteration_cases [where env = env and jenv = jenv and base = base and it = it and path = path and index = index and run = run])
  case (failed failure)
  then show ?thesis using assms
    by (cases rule: end_iteration_cases [where env = env and it = it and index = index and row = "failed_row index" and
          run = "(begun index run)\<lparr>tr_failureCount := tr_failureCount (begun index run) + 1, tr_noKeywordStreak := tr_noKeywordStreak (begun index run) + 1,
            tr_errors := tr_errors (begun index run) @ [failure]\<rparr>"])
      (auto simp: fail_iteration_def begun_def)
next
  case (processed config document)
  show ?thesis
  proof (cases rule: process_document_cases [where document = document and path = path and env = env and it = it and index = index and
        run = "begun index run"])
    case (unreadable e)
    then show ?thesis using assms processed
      by (auto simp: fail_iteration_def begun_def end_iteration_def Let_def split: if_splits)
  next
    case (refused result seen)
    then show ?thesis using assms processed by simp
  next
    case (checked extraction fresh progress seen)
    have "set (tr_seen run) \<subseteq> set seen" using progress_seen [OF checked(2)] by (auto simp: begun_def)
    moreover have "run' = close_row env index \<lparr>ir_Sequence = index + 1, ir_Status = RowSuccess, ir_RawItemCount = ex_RawCount extraction,
        ir_UniqueItemCount = ex_UniqueCount extraction, ir_CrossIterationNew = length fresh\<rparr>
       ((begun index run)\<lparr>tr_seen := seen, tr_successCount := tr_successCount run + 1,
            tr_rawItemCount := tr_rawItemCount run + ex_RawCount extraction,
            tr_noKeywordStreak := (if progress then 0 else tr_noKeywordStreak run + 1),
            tr_values := tr_values run @ map kv_Value fresh, tr_sequences := tr_sequences run @ map (\<lambda>_. index + 1) fresh\<rparr>)
      \<and> \<not> iterationReachedNoKeywordLimit it (if progress then 0 else tr_noKeywordStreak run + 1)"
      using assms processed checked(3) by (auto simp: succeed_iteration_def end_iteration_def Let_def begun_def split: if_splits)
    ultimately show ?thesis using processed(1) checked(1,2) by (cases progress) (auto simp: begun_def)
  qed
qed (use assms in auto)

lemma iteration_stops:
  assumes "tracked_iteration env jenv base it path index run = Break run' \<or> tracked_iteration env jenv base it path index run = Return run' result"
  shows "tr_requestCount run' \<le> tr_requestCount run + 1"
proof (cases rule: tracked_iteration_cases [where env = env and jenv = jenv and base = base and it = it and path = path and index = index and run = run])
  case (failed failure)
  then show ?thesis using assms by (auto simp: fail_iteration_def end_iteration_def Let_def begun_def split: if_splits)
next
  case (processed config document)
  then show ?thesis using assms
    by (cases rule: process_document_cases [where document = document and path = path and env = env and it = it and index = index and
          run = "begun index run"])
      (auto simp: fail_iteration_def succeed_iteration_def end_iteration_def Let_def begun_def split: if_splits)
qed (use assms in \<open>auto simp: begun_def\<close>)

definition run_measure :: "string set \<Rightarrow> IterationConfig \<Rightarrow> tracked_run \<Rightarrow> nat" where
  "run_measure K it run =
     card (K - set (tr_seen run)) * (nat (ic_NoKeywordStopCount it) + 1) + nat (ic_NoKeywordStopCount it - tr_noKeywordStreak run)"

lemma strict_step_decreases:
  assumes strict: "strict_mode it" and K: "finite K" "source_within env path K"
    and step: "tracked_iteration env jenv base it path index run = Continue run'"
    and streak: "0 \<le> tr_noKeywordStreak run"
  shows "run_measure K it run' < run_measure K it run \<and> 0 \<le> tr_noKeywordStreak run'"
proof -
  define S where "S = ic_NoKeywordStopCount it"
  have S: "0 < S" using strict by (simp add: strict_mode_def S_def)
  have limit: "tr_noKeywordStreak run' < S"
    using iteration_continues [OF step] S by (auto simp: iterationReachedNoKeywordLimit_def S_def)
  consider (idle) "tr_noKeywordStreak run' = tr_noKeywordStreak run + 1" "set (tr_seen run) \<subseteq> set (tr_seen run')"
    | (progress) config document extraction fresh where "tr_noKeywordStreak run' = 0" "sn_execute env index config = Some document"
        "ExtractKeywords document path = Inr extraction"
        "evaluateIterationKeywordProgress (sn_existing env index) it (ex_Values extraction) (tr_seen run) = (Some (fresh, True), tr_seen run')"
    using iteration_continues [OF step] by blast
  then show ?thesis
  proof cases
    case idle
    then have "card (K - set (tr_seen run')) \<le> card (K - set (tr_seen run))" using K(1) by (intro card_mono) auto
    then have "card (K - set (tr_seen run')) * (nat S + 1) \<le> card (K - set (tr_seen run)) * (nat S + 1)" by (rule mult_le_mono1)
    then show ?thesis using idle limit streak S unfolding run_measure_def S_def [symmetric] by auto
  next
    case progress
    have "set (tr_seen run') = set (tr_seen run) \<union> kv_Normalized ` set (ex_Values extraction)" by (rule progress_seen [OF progress(4)])
    moreover have "kv_Normalized ` set (ex_Values extraction) \<subseteq> K" using K(2) progress(2,3) by (auto simp: source_within_def)
    moreover have "set (tr_seen run) \<subset> set (tr_seen run')" by (rule strict_progress [OF strict progress(4)])
    ultimately have "K - set (tr_seen run') \<subset> K - set (tr_seen run)" by blast
    then have "card (K - set (tr_seen run')) + 1 \<le> card (K - set (tr_seen run))" using K(1) by (simp add: psubset_card_mono Suc_leI)
    then have "(card (K - set (tr_seen run')) + 1) * (nat S + 1) \<le> card (K - set (tr_seen run)) * (nat S + 1)" by (rule mult_le_mono1)
    then show ?thesis using progress(1) S unfolding run_measure_def S_def [symmetric] by auto
  qed
qed

lemma loop_strict:
  assumes "strict_mode it" and "finite K" and "source_within env path K" and "0 \<le> tr_noKeywordStreak run"
  shows "\<exists>run' r. tracked_loop env jenv base it path index run = Some (run', r)
    \<and> tr_requestCount run' \<le> tr_requestCount run + int (run_measure K it run) + 1"
  using assms(4)
proof (induction "run_measure K it run" arbitrary: index run rule: less_induct)
  case less
  show ?case
  proof (cases "iterationAllowsIndex it index")
    case True
    show ?thesis
    proof (cases "tracked_iteration env jenv base it path index run")
      case (Continue run1)
      have m: "run_measure K it run1 < run_measure K it run" "0 \<le> tr_noKeywordStreak run1"
        using strict_step_decreases [OF assms(1-3) Continue less.prems] by auto
      have "tr_requestCount run1 = tr_requestCount run + 1" using iteration_continues [OF Continue] by blast
      with less.hyps [OF m, of "index + 1"] m(1) True Continue show ?thesis by (subst tracked_loop.simps) fastforce
    qed (use True iteration_stops in \<open>subst tracked_loop.simps, fastforce\<close>)+
  qed (subst tracked_loop.simps, simp)
qed

lemma loop_finite:
  assumes "\<not> ic_Enabled it \<or> \<not> ic_Unlimited it" and "0 \<le> index"
  shows "\<exists>run' r. tracked_loop env jenv base it path index run = Some (run', r)
    \<and> tr_requestCount run' \<le> tr_requestCount run + max 0 ((if ic_Enabled it then ic_Count it else 1) - index)"
  using assms(2)
proof (induction "nat ((if ic_Enabled it then ic_Count it else 1) - index)" arbitrary: index run rule: less_induct)
  case less
  show ?case
  proof (cases "iterationAllowsIndex it index")
    case True
    then have bound: "index < (if ic_Enabled it then ic_Count it else 1)" using assms(1) by (auto simp: iterationAllowsIndex_def split: if_splits)
    show ?thesis
    proof (cases "tracked_iteration env jenv base it path index run")
      case (Continue run1)
      have "tr_requestCount run1 = tr_requestCount run + 1" using iteration_continues [OF Continue] by blast
      moreover obtain run' r where "tracked_loop env jenv base it path (index + 1) run1 = Some (run', r)"
        "tr_requestCount run' \<le> tr_requestCount run1 + max 0 ((if ic_Enabled it then ic_Count it else 1) - (index + 1))"
        using less.hyps [of "index + 1" run1] bound less.prems by (auto split: if_splits)
      ultimately show ?thesis using True Continue bound by (subst tracked_loop.simps) auto
    qed (use True bound iteration_stops in \<open>subst tracked_loop.simps, fastforce\<close>)+
  qed (subst tracked_loop.simps, simp)
qed


section \<open>Accounting\<close>

definition row_counts :: "row_status \<Rightarrow> iteration_row list \<Rightarrow> nat" where
  "row_counts status rows = length (filter (\<lambda>row. ir_Status row = status) rows)"

definition run_ok :: "int \<Rightarrow> tracked_run \<Rightarrow> bool" where
  "run_ok index run \<longleftrightarrow>
     tr_requestCount run = index \<and> int (length (tr_rows run)) = index
     \<and> tr_successCount run = int (row_counts RowSuccess (tr_rows run)) \<and> tr_failureCount run = int (row_counts RowFailed (tr_rows run))
     \<and> row_counts RowRunning (tr_rows run) = 0
     \<and> tr_failureCount run = int (length (tr_errors run))
     \<and> length (tr_sequences run) = length (tr_values run) \<and> (\<forall>q\<in>set (tr_sequences run). 1 \<le> q \<and> q \<le> index)
     \<and> sorted (tr_sequences run)
     \<and> distinct (map NormalizeKeyword (tr_values run)) \<and> NormalizeKeyword ` set (tr_values run) \<subseteq> set (tr_seen run)"

lemma row_counts_simps [simp]:
  "row_counts status [] = 0"
  "row_counts status (rows @ [row]) = row_counts status rows + (if ir_Status row = status then 1 else 0)"
  by (simp_all add: row_counts_def)

lemma begun_rows: "butlast (tr_rows (begun index run)) = tr_rows run"
  by (simp add: begun_def)

lemma failed_ok:
  assumes "run_ok index run" and "sn_complete env index"
  shows "run_ok (index + 1) (close_row env index (failed_row index) ((begun index run)\<lparr>tr_failureCount := tr_failureCount run + 1,
     tr_noKeywordStreak := tr_noKeywordStreak run + 1, tr_errors := tr_errors run @ [failure]\<rparr>))"
  using assms by (auto simp: run_ok_def close_row_def begun_def failed_row_def)

lemma extracted_normal: "ExtractKeywords document path = Inr extraction \<Longrightarrow> v \<in> set (ex_Values extraction) \<Longrightarrow> kv_Normalized v = NormalizeKeyword (kv_Value v)"
  using unique_keywords_sound by (auto simp: ExtractKeywords_def Let_def split: sum.splits)

lemma progress_fresh:
  assumes "evaluateIterationKeywordProgress existing it extracted seen = (Some (fresh, progress), seen')"
  shows "new_values seen extracted = (fresh, seen')"
proof -
  obtain f s where fs: "new_values seen extracted = (f, s)" by fastforce
  then show ?thesis using assms by (auto simp: evaluateIterationKeywordProgress_def split: if_splits option.splits)
qed

lemma succeeded_ok:
  assumes ok: "run_ok index run" and complete: "sn_complete env index" and ex: "ExtractKeywords document path = Inr extraction"
    and ev: "evaluateIterationKeywordProgress existing it (ex_Values extraction) (tr_seen run) = (Some (fresh, progress), seen)"
    and row: "ir_Status row = RowSuccess"
  shows "run_ok (index + 1) (close_row env index row ((begun index run)\<lparr>tr_seen := seen, tr_successCount := tr_successCount run + 1,
     tr_rawItemCount := raws, tr_noKeywordStreak := streak, tr_values := tr_values run @ map kv_Value fresh,
     tr_sequences := tr_sequences run @ map (\<lambda>_. index + 1) fresh\<rparr>))"
proof -
  note laws = new_values_laws [OF progress_fresh [OF ev]]
  have norm: "map (NormalizeKeyword \<circ> kv_Value) fresh = map kv_Normalized fresh"
    using laws(2) extracted_normal [OF ex] by (auto intro!: map_cong)
  have norm': "NormalizeKeyword ` kv_Value ` set fresh = kv_Normalized ` set fresh"
    using arg_cong [OF norm, of set] by (simp add: image_comp)
  have disj: "NormalizeKeyword ` set (tr_values run) \<inter> kv_Normalized ` set fresh = {}"
    using ok laws(4) by (auto simp: run_ok_def)
  have "distinct (map (NormalizeKeyword \<circ> kv_Value) fresh)" unfolding norm by (rule laws(3))
  then have "distinct (map NormalizeKeyword (tr_values run @ map kv_Value fresh))"
    using ok disj norm' [unfolded image_image] unfolding map_append distinct_append set_map map_map by (simp add: run_ok_def image_comp comp_def)
  moreover have "NormalizeKeyword ` set (tr_values run @ map kv_Value fresh) \<subseteq> set seen"
    using ok laws(1,4) norm' by (auto simp: run_ok_def)
  moreover have "sorted (tr_sequences run @ map (\<lambda>_. index + 1) fresh)"
    using ok by (auto simp: run_ok_def sorted_append map_replicate_const)
  ultimately show ?thesis using ok complete row unfolding run_ok_def by (auto simp: close_row_def begun_def)
qed

lemma iteration_ok:
  assumes ok: "run_ok index run"
  shows "tracked_iteration env jenv base it path index run = Continue run' \<Longrightarrow> run_ok (index + 1) run'"
    and "tracked_iteration env jenv base it path index run = Break run' \<Longrightarrow> run_ok (index + 1) run'"
proof -
  have "tracked_iteration env jenv base it path index run \<in> {Continue run', Break run'} \<Longrightarrow> run_ok (index + 1) run'"
  proof (cases rule: tracked_iteration_cases [where env = env and jenv = jenv and base = base and it = it and path = path and index = index and run = run])
    case (failed failure)
    assume "tracked_iteration env jenv base it path index run \<in> {Continue run', Break run'}"
    then show ?thesis using failed failed_ok [OF ok, of env failure]
      by (auto simp: fail_iteration_def end_iteration_def Let_def split: if_splits) (simp_all add: begun_def)
  next
    case (processed config document)
    assume st: "tracked_iteration env jenv base it path index run \<in> {Continue run', Break run'}"
    show ?thesis
    proof (cases rule: process_document_cases [where document = document and path = path and env = env and it = it and index = index and
          run = "begun index run"])
      case (unreadable e)
      then show ?thesis using st processed failed_ok [OF ok, of env "ExtractFailed e"]
        by (auto simp: fail_iteration_def end_iteration_def Let_def split: if_splits) (simp_all add: begun_def)
    next
      case (checked extraction fresh progress seen)
      have "evaluateIterationKeywordProgress (sn_existing env index) it (ex_Values extraction) (tr_seen run) = (Some (fresh, progress), seen)"
        using checked(2) by (simp add: begun_def)
      from succeeded_ok [OF ok _ checked(1) this] checked(3) st processed show ?thesis
        by (auto simp: succeed_iteration_def end_iteration_def Let_def split: if_splits) (simp_all add: begun_def)
    qed (use st processed in auto)
  qed auto
  then show "tracked_iteration env jenv base it path index run = Continue run' \<Longrightarrow> run_ok (index + 1) run'"
    "tracked_iteration env jenv base it path index run = Break run' \<Longrightarrow> run_ok (index + 1) run'" by auto
qed

lemma loop_ok:
  assumes "tracked_loop env jenv base it path index run = Some (run', None)" and "run_ok index run"
  shows "\<exists>n. run_ok n run'"
proof -
  have "tracked_loop env jenv base it path index run = Some res \<Longrightarrow> run_ok index run \<longrightarrow> snd res = None \<longrightarrow> (\<exists>n. run_ok n (fst res))" for res
  proof (induction rule: tracked_loop.raw_induct [rotated 1, consumes 1])
    case (1 loop env jenv base it path index run res)
    show ?case
      using 1(2) 1(1) [of env jenv base it path "index + 1"] iteration_ok [of index run env jenv base it path]
      by (auto split: if_splits iteration_step.splits)
  qed
  with assms show ?thesis by fastforce
qed


lemma rows_total: "length rows = row_counts RowSuccess rows + row_counts RowFailed rows + row_counts RowRunning rows"
proof (induction rows rule: rev_induct)
  case (snoc row rows)
  then show ?case by (cases "ir_Status row") auto
qed simp

lemma iteration_not_finalized:
  assumes "tracked_iteration env jenv base it path index run = Return run' result"
  shows "result \<noteq> Finalized status vs qs requests successes failures"
proof (cases rule: tracked_iteration_cases [where env = env and jenv = jenv and base = base and it = it and path = path and index = index and run = run])
  case (failed failure)
  then show ?thesis using assms by (auto simp: fail_iteration_def end_iteration_def Let_def split: if_splits)
next
  case (processed config document)
  then show ?thesis using assms
    by (cases rule: process_document_cases [where document = document and path = path and env = env and it = it and index = index and
          run = "begun index run"])
      (auto simp: fail_iteration_def succeed_iteration_def end_iteration_def Let_def split: if_splits)
qed (use assms in auto)

lemma loop_not_finalized:
  assumes "tracked_loop env jenv base it path index run = Some (run', r)"
  shows "r \<noteq> Some (Finalized status vs qs requests successes failures)"
proof -
  have "tracked_loop env jenv base it path index run = Some res \<Longrightarrow> snd res \<noteq> Some (Finalized status vs qs requests successes failures)" for res
  proof (induction rule: tracked_loop.raw_induct [rotated 1, consumes 1])
    case (1 loop env jenv base it path index run res)
    show ?case
      using 1(2) 1(1) [of env jenv base it path "index + 1"] iteration_not_finalized [of env jenv base it path index run]
      by (auto split: if_splits iteration_step.splits)
  qed
  with assms show ?thesis by fastforce
qed

section \<open>Properties\<close>

text \<open>C7: A synchronisation run ends: with a finite iteration it returns after at most a hundred requests; with an unlimited iteration in
  strict mode, against a source that offers keywords of a finite set \<open>K\<close> only, it returns within
  \<open>(|K| + 1) (stop count + 1)\<close> requests.\<close>

theorem sync_run_terminates:
  assumes "\<not> ic_Enabled it \<or> \<not> ic_Unlimited it \<or> NormalizeIterationStopMode (ic_StopMode it) = ''strict'' \<and> finite K \<and> source_within env path K"
  shows "\<exists>run result. executeTrackedRun env jenv config it path = Some (run, result)
    \<and> tr_requestCount run \<le> (if ic_Enabled it \<and> ic_Unlimited it then int (card K + 1) * (max 0 (ic_NoKeywordStopCount it) + 1) else 100)"
proof (cases "\<exists>base segs. config = Some base \<and> ParsePath path = Inr segs \<and> ValidateIterationConfig jenv base it = Inr ()")
  case False
  then have "executeTrackedRun env jenv config it path = Some (new_run, RunFailed [ConfigFailed] 0 0)"
    by (cases config) (auto simp: executeTrackedRun_def split: sum.splits)
  then show ?thesis by (auto simp: new_run_def)
next
  case True
  then obtain base where valid: "config = Some base" "ValidateIterationConfig jenv base it = Inr ()" "\<exists>segs. ParsePath path = Inr segs" by blast
  have "\<exists>run r. tracked_loop env jenv base it path 0 new_run = Some (run, r)
    \<and> tr_requestCount run \<le> (if ic_Enabled it \<and> ic_Unlimited it then int (card K + 1) * (max 0 (ic_NoKeywordStopCount it) + 1) else 100)"
  proof (cases "ic_Enabled it \<and> ic_Unlimited it")
    case True
    then have "validate_ranges it = Inr ()" using valid(2) by (auto simp: ValidateIterationConfig_def split: sum.splits)
    then have stop: "1 \<le> ic_NoKeywordStopCount it" using True by (auto simp: validate_ranges_def split: if_splits)
    have strict: "strict_mode it" using assms True stop by (simp add: strict_mode_def)
    have "run_measure K it new_run = card K * (nat (ic_NoKeywordStopCount it) + 1) + nat (ic_NoKeywordStopCount it)"
      by (simp add: run_measure_def new_run_def)
    moreover obtain run r where "tracked_loop env jenv base it path 0 new_run = Some (run, r)"
      "tr_requestCount run \<le> tr_requestCount new_run + int (run_measure K it new_run) + 1"
      using loop_strict [OF strict, of K env path new_run jenv base 0] assms True by (auto simp: new_run_def)
    ultimately show ?thesis using True stop by (auto simp: new_run_def algebra_simps)
  next
    case False
    then have "\<not> ic_Enabled it \<or> ic_Count it \<le> 100"
      using valid(2) by (auto simp: ValidateIterationConfig_def validate_ranges_def split: sum.splits if_splits)
    moreover obtain run r where "tracked_loop env jenv base it path 0 new_run = Some (run, r)"
      "tr_requestCount run \<le> tr_requestCount new_run + max 0 ((if ic_Enabled it then ic_Count it else 1) - 0)"
      using loop_finite [of it 0 env jenv base path new_run] False by auto
    moreover have "tr_requestCount new_run = 0" by (simp add: new_run_def)
    ultimately show ?thesis using False by (auto split: if_splits)
  qed
  then obtain run r where "tracked_loop env jenv base it path 0 new_run = Some (run, r)"
    "tr_requestCount run \<le> (if ic_Enabled it \<and> ic_Unlimited it then int (card K + 1) * (max 0 (ic_NoKeywordStopCount it) + 1) else 100)"
    by blast
  then show ?thesis using valid by (cases r) (auto simp: executeTrackedRun_def)
qed

text \<open>An unlimited iteration over a source with two keywords, and the answers of a world in which everything succeeds.\<close>

definition static_env :: "json \<Rightarrow> sync_env" where
  "static_env document =
     \<lparr>sn_cancelled = (\<lambda>_. False), sn_wait = (\<lambda>_. True), sn_begin = (\<lambda>_. True), sn_execute = (\<lambda>_ _. Some document),
      sn_interrupted = (\<lambda>_. False), sn_complete = (\<lambda>_. True), sn_existing = (\<lambda>_ _. Some []), sn_stopped = False, sn_finalize = True\<rparr>"

definition unlimited_iteration :: "string \<Rightarrow> IterationConfig" where
  "unlimited_iteration mode =
     \<lparr>ic_Enabled = True, ic_Location = ''query'', ic_Path = ''page'', ic_Start = 1, ic_Step = 0, ic_Count = 1, ic_DelaySeconds = 0,
      ic_Unlimited = True, ic_NoKeywordStopCount = 2, ic_StopMode = mode, ic_RandomDelayMinSeconds = 0, ic_RandomDelayMaxSeconds = 0\<rparr>"

definition sample_answer :: json where
  "sample_answer = JArray [JString ''Dune'', JString ''Heat'']"

lemma sample_answer_keywords: "ExtractKeywords sample_answer ''[]'' =
    Inr \<lparr>ex_Path = ''[]'', ex_RawCount = 2, ex_UniqueCount = 2,
      ex_Values = [\<lparr>kv_Value = ''Dune'', kv_Normalized = ''dune''\<rparr>, \<lparr>kv_Value = ''Heat'', kv_Normalized = ''heat''\<rparr>]\<rparr>"
  by code_simp

theorem sync_run_terminates_witness:
  "\<exists>run result. executeTrackedRun (static_env sample_answer) sample_env (Some sample_base) (unlimited_iteration ''strict'') ''[]'' = Some (run, result)
     \<and> tr_requestCount run \<le> 9"
proof -
  have "NormalizeIterationStopMode ''strict'' = ''strict''" by code_simp
  moreover have "source_within (static_env sample_answer) ''[]'' {''dune'', ''heat''}"
    by (auto simp: source_within_def static_env_def sample_answer_keywords)
  ultimately show ?thesis
    using sync_run_terminates [of "unlimited_iteration ''strict''" "{''dune'', ''heat''}" "static_env sample_answer" "''[]''" sample_env
        "Some sample_base"] by (simp add: unlimited_iteration_def)
qed

text \<open>A finished run is consistent: every request has a closed row, the success and failure counts are those of the rows and add up to
  the requests, the run is complete exactly when nothing failed, its values are pairwise different keywords, and each carries the
  sequence number of an iteration of the run, in order.\<close>

theorem sync_run_accounting:
  assumes "executeTrackedRun env jenv config it path = Some (run, Finalized status values sequences requests successes failures)"
  shows "requests = successes + failures \<and> 0 < successes \<and> (status = RunSuccess \<longleftrightarrow> failures = 0)
    \<and> int (length (tr_rows run)) = requests \<and> (\<forall>row\<in>set (tr_rows run). ir_Status row \<noteq> RowRunning)
    \<and> successes = int (row_counts RowSuccess (tr_rows run))
    \<and> distinct (map NormalizeKeyword values) \<and> length sequences = length values \<and> sorted sequences
    \<and> (\<forall>q\<in>set sequences. 1 \<le> q \<and> q \<le> requests)"
proof -
  obtain base r where loop: "tracked_loop env jenv base it path 0 new_run = Some (run, r)"
    and fin: "r = Some (Finalized status values sequences requests successes failures)
      \<or> r = None \<and> finish_run env run = Finalized status values sequences requests successes failures"
    using assms by (auto simp: executeTrackedRun_def split: option.splits sum.splits prod.splits)
  with loop_not_finalized [OF loop] have none: "r = None" "finish_run env run = Finalized status values sequences requests successes failures"
    by auto
  have "run_ok 0 new_run" by (simp add: run_ok_def new_run_def)
  then obtain n where ok: "run_ok n run" using loop_ok loop none(1) by blast
  have "\<forall>row\<in>set (tr_rows run). ir_Status row \<noteq> RowRunning"
    using ok by (auto simp: run_ok_def row_counts_def filter_empty_conv)
  moreover have "finish_run env run = Finalized (if tr_failureCount run > 0 then RunPartial else RunSuccess) (tr_values run) (tr_sequences run)
      (tr_requestCount run) (tr_successCount run) (tr_failureCount run)" "tr_successCount run \<noteq> 0"
    using none(2) by (auto simp: finish_run_def split: if_splits)
  ultimately show ?thesis using ok rows_total [of "tr_rows run"] none(2) by (auto simp: run_ok_def)
qed


theorem sync_run_accounting_witness:
  "\<exists>run. executeTrackedRun (static_env sample_answer) sample_env (Some sample_base) ((unlimited_iteration ''strict'')\<lparr>ic_Unlimited := False\<rparr>) ''[]''
       = Some (run, Finalized RunSuccess [''Dune'', ''Heat''] [1, 1] 1 1 0)
     \<and> int (length (tr_rows run)) = 1"
proof -
  have "map_option snd (executeTrackedRun (static_env sample_answer) sample_env (Some sample_base)
      ((unlimited_iteration ''strict'')\<lparr>ic_Unlimited := False\<rparr>) ''[]'') = Some (Finalized RunSuccess [''Dune'', ''Heat''] [1, 1] 1 1 0)"
    by code_simp
  then obtain run where "executeTrackedRun (static_env sample_answer) sample_env (Some sample_base)
      ((unlimited_iteration ''strict'')\<lparr>ic_Unlimited := False\<rparr>) ''[]'' = Some (run, Finalized RunSuccess [''Dune'', ''Heat''] [1, 1] 1 1 0)"
    by (auto simp: map_option_case split: option.splits)
  with sync_run_accounting [OF this] show ?thesis by blast
qed

text \<open>A validated unlimited iteration in normal mode need not end: with step zero against a source that always answers with the same
  keywords, the run never returns.\<close>

theorem unlimited_run_never_ends:
  "ValidateIterationConfig sample_env sample_base (unlimited_iteration ''normal'') = Inr ()
   \<and> executeTrackedRun (static_env sample_answer) sample_env (Some sample_base) (unlimited_iteration ''normal'') ''[]'' = None"
proof -
  define it where "it = unlimited_iteration ''normal''"
  have valid: "ValidateIterationConfig sample_env sample_base it = Inr ()" unfolding it_def by code_simp
  have derive: "\<exists>config. derive_error sample_env sample_base it index = Inr config" if "0 \<le> index" for index
  proof -
    have "IterationValue it index = Inr 1"
      using that iteration_value_ok [of 1 0 index]
      by (simp add: IterationValue_def it_def unlimited_iteration_def in_int64_def int64_min_def int64_max_def)
    moreover have "ic_Enabled it" "canonicalIterationLocation (ic_Location it) = ''query''" unfolding it_def by code_simp+
    ultimately show ?thesis by (simp add: derive_error_def DeriveRequest_def valid inject_value_def)
  qed
  have mode: "NormalizeIterationStopMode (ic_StopMode it) = ''normal''" unfolding it_def by code_simp
  have goes_on: "\<exists>run'. tracked_iteration (static_env sample_answer) sample_env sample_base it ''[]'' index run = Continue run'" if pos: "0 \<le> index" for index run
  proof -
    obtain config where "derive_error sample_env sample_base it index = Inr config" using derive [OF pos] by blast
    then show ?thesis
      by (simp add: tracked_iteration_def static_env_def process_document_def sample_answer_keywords evaluateIterationKeywordProgress_def mode
          case_prod_beta Let_def succeed_iteration_def end_iteration_def iterationReachedNoKeywordLimit_def)
  qed
  have "tracked_loop env jenv base it' path index run = Some res \<Longrightarrow>
      env = static_env sample_answer \<Longrightarrow> jenv = sample_env \<Longrightarrow> base = sample_base \<Longrightarrow> it' = it \<Longrightarrow> path = ''[]'' \<Longrightarrow> 0 \<le> index \<Longrightarrow> False"
    for env jenv base it' path index run res
  proof (induction rule: tracked_loop.raw_induct [rotated 1, consumes 1])
    case (1 loop env jenv base it' path index run res)
    obtain run' where step: "tracked_iteration env jenv base it' path index run = Continue run'" using goes_on [of index run] 1(3-8) by auto
    have "iterationAllowsIndex it' index" using 1(6) by (simp add: it_def unlimited_iteration_def iterationAllowsIndex_def)
    then have "loop env jenv base it' path (index + 1) run' = Some res" using 1(2) step by simp
    then show ?case using 1(1) 1(3-8) by fastforce
  qed
  then have "tracked_loop (static_env sample_answer) sample_env sample_base it ''[]'' 0 new_run = None"
    by (metis not_None_eq order_refl)
  moreover have "ParsePath ''[]'' = Inr [SegmentWildcard]" by code_simp
  ultimately show ?thesis using valid by (auto simp: executeTrackedRun_def it_def [symmetric])
qed

end
