(* ===== verification/Account_Store.thy ===== *)
theory Account_Store
  imports Keyword_Path_Laws
begin

text \<open>
  The accounts in the database: users and API keys, \<^verbatim>\<open>src/storage/users.go\<close> and
  \<^verbatim>\<open>src/storage/identity_types.go\<close>. The two tables are association lists over their primary or unique key;
  an SQL statement is the operation on the rows that its text describes, with the uniqueness constraints
  of the schema (\<^verbatim>\<open>migrations/003\<close>). Each operation is one transaction: administration is serialised by
  an advisory lock and a row is locked before it is changed. A statement that the database itself fails
  to execute rolls its transaction back, which is no step here. \<open>at\<close> is the service's clock and \<open>dbnow\<close>
  the database's.
\<close>

section \<open>Model: data\<close>

record User =
  us_ID :: int
  us_Username :: string
  us_NormalizedUsername :: string
  us_PasswordHash :: string
  us_Role :: string
  us_Enabled :: bool
  us_ExpiresAt :: "time option"
  us_MustChangePassword :: bool
  us_AuthVersion :: int
  us_RPSLimit :: int
  us_RPMLimit :: int
  us_RateLimitDisabled :: bool
  us_LastLoginAt :: "time option"
  us_CreatedAt :: time
  us_UpdatedAt :: time
  us_DeletedAt :: "time option"

record APIKey =
  ak_ID :: int
  ak_UserID :: int
  ak_KeyPrefix :: string
  ak_KeyHash :: string
  ak_CreatedAt :: time
  ak_LastUsedAt :: "time option"
  ak_RevokedAt :: "time option"

record CreateUserInput =
  cu_Username :: string
  cu_PasswordHash :: string
  cu_Role :: string
  cu_Enabled :: "bool option"
  cu_ExpiresAt :: "time option"
  cu_MustChangePassword :: "bool option"
  cu_RPSLimit :: int
  cu_RPMLimit :: int
  cu_RateLimitDisabled :: bool

text \<open>A field that is \<open>None\<close> is left alone; \<open>ExpiresAt\<close> may be set to no time at all.\<close>

record UpdateUserInput =
  uu_Username :: "string option"
  uu_Role :: "string option"
  uu_Enabled :: "bool option"
  uu_ExpiresAt :: "time option option"
  uu_MustChangePassword :: "bool option"
  uu_RPSLimit :: "int option"
  uu_RPMLimit :: "int option"
  uu_RateLimitDisabled :: "bool option"

record APIKeyInput =
  ki_UserID :: int
  ki_KeyPrefix :: string
  ki_KeyHash :: string
  ki_CreatedAt :: time

datatype storage_error = ErrNotFound | ErrConflict | ErrInvalid

text \<open>The tables, with the next values of their sequences, and the owners of private plugin credentials.\<close>

record AccountStore =
  db_users :: "(int \<times> User) list"
  db_nextUser :: int
  db_keys :: "(int \<times> APIKey) list"
  db_nextKey :: int
  db_privateCredentials :: "int list"

section \<open>Model: users\<close>

definition stored_username :: "string \<Rightarrow> string" where
  "stored_username username = to_lower (join_with '' '' (space_fields [] (trim_space username)))"

definition validUserRole :: "string \<Rightarrow> bool" where
  "validUserRole role \<longleftrightarrow> role = ''admin'' \<or> role = ''user''"

definition IsActiveAt :: "User \<Rightarrow> time \<Rightarrow> bool" where
  "IsActiveAt u at \<longleftrightarrow>
     (if \<not> us_Enabled u \<or> us_DeletedAt u \<noteq> None then False
      else case us_ExpiresAt u of None \<Rightarrow> True | Some t \<Rightarrow> t > at)"

definition IsEffectiveAdminAt :: "User \<Rightarrow> time \<Rightarrow> bool" where
  "IsEffectiveAdminAt u at \<longleftrightarrow> us_Role u = ''admin'' \<and> IsActiveAt u at"

definition CountActiveAdmins :: "time \<Rightarrow> AccountStore \<Rightarrow> nat" where
  "CountActiveAdmins at st = length (filter (\<lambda>(i, u). IsEffectiveAdminAt u at) (db_users st))"

definition username_taken :: "string \<Rightarrow> int option \<Rightarrow> AccountStore \<Rightarrow> bool" where
  "username_taken normalized except st \<longleftrightarrow>
     list_ex (\<lambda>(i, u). Some i \<noteq> except \<and> us_NormalizedUsername u = normalized) (db_users st)"

definition insertUserTx :: "time \<Rightarrow> CreateUserInput \<Rightarrow> AccountStore \<Rightarrow> storage_error + User \<times> AccountStore" where
  "insertUserTx dbnow input st =
     (let normalized = stored_username (cu_Username input);
          role = (if trim_space (cu_Role input) = [] then ''user'' else trim_space (cu_Role input));
          rps = (if cu_RPSLimit input = 0 then 3 else cu_RPSLimit input);
          rpm = (if cu_RPMLimit input = 0 then 60 else cu_RPMLimit input);
          user = \<lparr>us_ID = db_nextUser st, us_Username = trim_space (cu_Username input), us_NormalizedUsername = normalized,
                  us_PasswordHash = trim_space (cu_PasswordHash input), us_Role = role,
                  us_Enabled = (case cu_Enabled input of None \<Rightarrow> True | Some b \<Rightarrow> b), us_ExpiresAt = cu_ExpiresAt input,
                  us_MustChangePassword = (case cu_MustChangePassword input of None \<Rightarrow> True | Some b \<Rightarrow> b),
                  us_AuthVersion = 1, us_RPSLimit = rps, us_RPMLimit = rpm, us_RateLimitDisabled = cu_RateLimitDisabled input,
                  us_LastLoginAt = None, us_CreatedAt = dbnow, us_UpdatedAt = dbnow, us_DeletedAt = None\<rparr>
      in if normalized = [] then Inl ErrInvalid
         else if trim_space (cu_PasswordHash input) = [] then Inl ErrInvalid
         else if \<not> validUserRole role then Inl ErrInvalid
         else if rps < 1 \<or> rpm < 1 then Inl ErrInvalid
         else if username_taken normalized None st then Inl ErrConflict
         else Inr (user, st\<lparr>db_users := db_users st @ [(db_nextUser st, user)], db_nextUser := db_nextUser st + 1\<rparr>))"

definition hash_taken :: "string \<Rightarrow> int option \<Rightarrow> AccountStore \<Rightarrow> bool" where
  "hash_taken hash except st \<longleftrightarrow> list_ex (\<lambda>(i, k). Some i \<noteq> except \<and> ak_KeyHash k = hash) (db_keys st)"

definition insertAPIKeyTx :: "APIKeyInput \<Rightarrow> AccountStore \<Rightarrow> storage_error + APIKey \<times> AccountStore" where
  "insertAPIKeyTx input st =
     (let key = \<lparr>ak_ID = db_nextKey st, ak_UserID = ki_UserID input, ak_KeyPrefix = trim_space (ki_KeyPrefix input),
                 ak_KeyHash = trim_space (ki_KeyHash input), ak_CreatedAt = ki_CreatedAt input, ak_LastUsedAt = None,
                 ak_RevokedAt = None\<rparr>
      in if ki_UserID input \<le> 0 \<or> trim_space (ki_KeyPrefix input) = [] \<or> trim_space (ki_KeyHash input) = [] then Inl ErrInvalid
         else if map_of (db_keys st) (ki_UserID input) \<noteq> None \<or> hash_taken (ak_KeyHash key) None st then Inl ErrConflict
         else Inr (key, st\<lparr>db_keys := db_keys st @ [(ki_UserID input, key)], db_nextKey := db_nextKey st + 1\<rparr>))"

definition CreateUser :: "time \<Rightarrow> CreateUserInput \<Rightarrow> AccountStore \<Rightarrow> storage_error + User \<times> AccountStore" where
  "CreateUser dbnow input st = insertUserTx dbnow input st"

definition CreateUserWithAPIKey ::
  "time \<Rightarrow> time \<Rightarrow> CreateUserInput \<Rightarrow> APIKeyInput \<Rightarrow> AccountStore \<Rightarrow> storage_error + (User \<times> APIKey) \<times> AccountStore" where
  "CreateUserWithAPIKey at dbnow input keyInput st =
     (case insertUserTx dbnow input st of
        Inl e \<Rightarrow> Inl e
      | Inr (user, st1) \<Rightarrow>
          (case insertAPIKeyTx (keyInput\<lparr>ki_UserID := us_ID user,
                                  ki_CreatedAt := (if is_zero_time (ki_CreatedAt keyInput) then at else ki_CreatedAt keyInput)\<rparr>) st1 of
             Inl e \<Rightarrow> Inl e
           | Inr (key, st2) \<Rightarrow> Inr ((user, key), st2)))"

definition GetUserByID :: "int \<Rightarrow> AccountStore \<Rightarrow> storage_error + User" where
  "GetUserByID i st = (case map_of (db_users st) i of None \<Rightarrow> Inl ErrNotFound | Some u \<Rightarrow> Inr u)"

definition GetUserByNormalizedUsername :: "string \<Rightarrow> AccountStore \<Rightarrow> storage_error + User" where
  "GetUserByNormalizedUsername username st =
     (let normalized = stored_username username
      in if normalized = [] then Inl ErrNotFound
         else case List.find (\<lambda>(i, u). us_NormalizedUsername u = normalized) (db_users st) of
                None \<Rightarrow> Inl ErrNotFound | Some (i, u) \<Rightarrow> Inr u)"

section \<open>Model: changing a user\<close>

text \<open>One field of an update: the candidate, whether a column is set, and whether the change concerns security.\<close>

type_synonym edit = "User \<times> bool \<times> bool"

definition edit_username :: "User \<Rightarrow> UpdateUserInput \<Rightarrow> edit \<Rightarrow> storage_error + edit" where
  "edit_username current input = (\<lambda>(c, sets, sec). case uu_Username input of
     None \<Rightarrow> Inr (c, sets, sec)
   | Some name \<Rightarrow>
       let normalized = stored_username name
       in if normalized = [] then Inl ErrInvalid
          else Inr (c\<lparr>us_Username := trim_space name, us_NormalizedUsername := normalized\<rparr>, True,
                    sec \<or> normalized \<noteq> us_NormalizedUsername current))"

definition edit_role :: "User \<Rightarrow> UpdateUserInput \<Rightarrow> edit \<Rightarrow> storage_error + edit" where
  "edit_role current input = (\<lambda>(c, sets, sec). case uu_Role input of
     None \<Rightarrow> Inr (c, sets, sec)
   | Some role \<Rightarrow>
       if \<not> validUserRole (trim_space role) then Inl ErrInvalid
       else Inr (c\<lparr>us_Role := trim_space role\<rparr>, True, sec \<or> trim_space role \<noteq> us_Role current))"

definition edit_enabled :: "User \<Rightarrow> UpdateUserInput \<Rightarrow> edit \<Rightarrow> storage_error + edit" where
  "edit_enabled current input = (\<lambda>(c, sets, sec). case uu_Enabled input of
     None \<Rightarrow> Inr (c, sets, sec)
   | Some b \<Rightarrow> Inr (c\<lparr>us_Enabled := b\<rparr>, True, sec \<or> b \<noteq> us_Enabled current))"

definition edit_expires :: "User \<Rightarrow> UpdateUserInput \<Rightarrow> edit \<Rightarrow> storage_error + edit" where
  "edit_expires current input = (\<lambda>(c, sets, sec). case uu_ExpiresAt input of
     None \<Rightarrow> Inr (c, sets, sec)
   | Some t \<Rightarrow> Inr (c\<lparr>us_ExpiresAt := t\<rparr>, True, True))"

definition edit_must_change :: "User \<Rightarrow> UpdateUserInput \<Rightarrow> edit \<Rightarrow> storage_error + edit" where
  "edit_must_change current input = (\<lambda>(c, sets, sec). case uu_MustChangePassword input of
     None \<Rightarrow> Inr (c, sets, sec)
   | Some b \<Rightarrow> Inr (c\<lparr>us_MustChangePassword := b\<rparr>, True, sec \<or> b \<noteq> us_MustChangePassword current))"

definition edit_rps :: "User \<Rightarrow> UpdateUserInput \<Rightarrow> edit \<Rightarrow> storage_error + edit" where
  "edit_rps current input = (\<lambda>(c, sets, sec). case uu_RPSLimit input of
     None \<Rightarrow> Inr (c, sets, sec)
   | Some n \<Rightarrow> if n < 1 then Inl ErrInvalid else Inr (c\<lparr>us_RPSLimit := n\<rparr>, True, sec))"

definition edit_rpm :: "User \<Rightarrow> UpdateUserInput \<Rightarrow> edit \<Rightarrow> storage_error + edit" where
  "edit_rpm current input = (\<lambda>(c, sets, sec). case uu_RPMLimit input of
     None \<Rightarrow> Inr (c, sets, sec)
   | Some n \<Rightarrow> if n < 1 then Inl ErrInvalid else Inr (c\<lparr>us_RPMLimit := n\<rparr>, True, sec))"

definition edit_unlimited :: "User \<Rightarrow> UpdateUserInput \<Rightarrow> edit \<Rightarrow> storage_error + edit" where
  "edit_unlimited current input = (\<lambda>(c, sets, sec). case uu_RateLimitDisabled input of
     None \<Rightarrow> Inr (c, sets, sec)
   | Some b \<Rightarrow> Inr (c\<lparr>us_RateLimitDisabled := b\<rparr>, True, sec))"

fun apply_edits :: "(edit \<Rightarrow> storage_error + edit) list \<Rightarrow> edit \<Rightarrow> storage_error + edit" where
  "apply_edits [] acc = Inr acc"
| "apply_edits (e # es) acc = (case e acc of Inl err \<Rightarrow> Inl err | Inr acc' \<Rightarrow> apply_edits es acc')"

definition edits :: "User \<Rightarrow> UpdateUserInput \<Rightarrow> (edit \<Rightarrow> storage_error + edit) list" where
  "edits current input =
     map (\<lambda>e. e current input)
       [edit_username, edit_role, edit_enabled, edit_expires, edit_must_change, edit_rps, edit_rpm, edit_unlimited]"

definition another_admin :: "int \<Rightarrow> time \<Rightarrow> AccountStore \<Rightarrow> bool" where
  "another_admin excluded at st \<longleftrightarrow> list_ex (\<lambda>(i, u). i \<noteq> excluded \<and> IsEffectiveAdminAt u at) (db_users st)"

definition put_user :: "User \<Rightarrow> AccountStore \<Rightarrow> AccountStore" where
  "put_user u st = st\<lparr>db_users := AList.update (us_ID u) u (db_users st)\<rparr>"

text \<open>The row that \<open>WHERE id=$1 AND deleted_at IS NULL\<close> selects.\<close>

definition live_user :: "int \<Rightarrow> AccountStore \<Rightarrow> User option" where
  "live_user i st = (case map_of (db_users st) i of None \<Rightarrow> None | Some u \<Rightarrow> if us_DeletedAt u = None then Some u else None)"

definition UpdateUser :: "time \<Rightarrow> time \<Rightarrow> int \<Rightarrow> UpdateUserInput \<Rightarrow> AccountStore \<Rightarrow> storage_error + User \<times> AccountStore" where
  "UpdateUser at dbnow i input st =
     (case live_user i st of
        None \<Rightarrow> Inl ErrNotFound
      | Some current \<Rightarrow>
          (case apply_edits (edits current input) (current, False, False) of
             Inl e \<Rightarrow> Inl e
           | Inr (candidate, sets, securityChanged) \<Rightarrow>
               if \<not> sets then Inr (current, st)
               else if IsEffectiveAdminAt current at \<and> \<not> IsEffectiveAdminAt candidate at \<and> \<not> another_admin i at st
                 then Inl ErrConflict
               else if username_taken (us_NormalizedUsername candidate) (Some i) st then Inl ErrConflict
               else let updated = candidate\<lparr>us_AuthVersion := us_AuthVersion current + (if securityChanged then 1 else 0),
                                            us_UpdatedAt := dbnow\<rparr>
                    in Inr (updated, put_user updated st)))"

definition SoftDeleteUser :: "time \<Rightarrow> time \<Rightarrow> int \<Rightarrow> time \<Rightarrow> AccountStore \<Rightarrow> storage_error + User \<times> AccountStore" where
  "SoftDeleteUser at dbnow i deletedAt st =
     (let deletedAt = (if is_zero_time deletedAt then at else deletedAt)
      in case live_user i st of
           None \<Rightarrow> Inl ErrNotFound
         | Some current \<Rightarrow>
             if IsEffectiveAdminAt current deletedAt \<and> \<not> another_admin i deletedAt st then Inl ErrConflict
             else let deleted = current\<lparr>us_Enabled := False, us_DeletedAt := Some deletedAt,
                                        us_AuthVersion := us_AuthVersion current + 1, us_UpdatedAt := dbnow\<rparr>
                  in Inr (deleted, put_user deleted (st\<lparr>db_privateCredentials := filter (\<lambda>owner. owner \<noteq> i) (db_privateCredentials st)\<rparr>)))"

definition SetUserPassword :: "time \<Rightarrow> int \<Rightarrow> string \<Rightarrow> bool \<Rightarrow> time \<Rightarrow> AccountStore \<Rightarrow> storage_error + User \<times> AccountStore" where
  "SetUserPassword at i passwordHash mustChange changedAt st =
     (if trim_space passwordHash = [] then Inl ErrInvalid
      else let changedAt = (if is_zero_time changedAt then at else changedAt)
           in case live_user i st of
                None \<Rightarrow> Inl ErrNotFound
              | Some u \<Rightarrow>
                  let u' = u\<lparr>us_PasswordHash := trim_space passwordHash, us_MustChangePassword := mustChange,
                             us_AuthVersion := us_AuthVersion u + 1, us_UpdatedAt := changedAt\<rparr>
                  in Inr (u', put_user u' st))"

definition UpdateUserLastLogin :: "time \<Rightarrow> time \<Rightarrow> int \<Rightarrow> time \<Rightarrow> AccountStore \<Rightarrow> storage_error + AccountStore" where
  "UpdateUserLastLogin at dbnow i loggedInAt st =
     (let loggedInAt = (if is_zero_time loggedInAt then at else loggedInAt)
      in case live_user i st of
           None \<Rightarrow> Inl ErrNotFound
         | Some u \<Rightarrow> Inr (put_user (u\<lparr>us_LastLoginAt := Some loggedInAt, us_UpdatedAt := dbnow\<rparr>) st))"

section \<open>Model: API keys\<close>

definition CreateAPIKey :: "time \<Rightarrow> int \<Rightarrow> APIKeyInput \<Rightarrow> AccountStore \<Rightarrow> storage_error + APIKey \<times> AccountStore" where
  "CreateAPIKey at userID input st =
     (if live_user userID st = None then Inl ErrNotFound
      else insertAPIKeyTx (input\<lparr>ki_UserID := userID,
             ki_CreatedAt := (if is_zero_time (ki_CreatedAt input) then at else ki_CreatedAt input)\<rparr>) st)"

definition GetAPIKeyForUser :: "int \<Rightarrow> AccountStore \<Rightarrow> storage_error + APIKey" where
  "GetAPIKeyForUser userID st = (case map_of (db_keys st) userID of None \<Rightarrow> Inl ErrNotFound | Some k \<Rightarrow> Inr k)"

definition GetUserByAPIKeyHash :: "string \<Rightarrow> AccountStore \<Rightarrow> storage_error + User \<times> APIKey" where
  "GetUserByAPIKeyHash keyHash st =
     (case List.find (\<lambda>(i, k). ak_KeyHash k = trim_space keyHash \<and> ak_RevokedAt k = None) (db_keys st) of
        None \<Rightarrow> Inl ErrNotFound
      | Some (i, k) \<Rightarrow> (case map_of (db_users st) i of None \<Rightarrow> Inl ErrNotFound | Some u \<Rightarrow> Inr (u, k)))"

definition ResetAPIKey :: "time \<Rightarrow> int \<Rightarrow> APIKeyInput \<Rightarrow> time \<Rightarrow> AccountStore \<Rightarrow> storage_error + APIKey \<times> AccountStore" where
  "ResetAPIKey at userID input resetAt st =
     (if trim_space (ki_KeyPrefix input) = [] \<or> trim_space (ki_KeyHash input) = [] then Inl ErrInvalid
      else let resetAt = (if is_zero_time resetAt then at else resetAt); hash = trim_space (ki_KeyHash input)
           in if live_user userID st = None then Inl ErrNotFound
              else if hash_taken hash (Some userID) st then Inl ErrConflict
              else let key = (case map_of (db_keys st) userID of
                                Some k \<Rightarrow> k\<lparr>ak_KeyPrefix := trim_space (ki_KeyPrefix input), ak_KeyHash := hash, ak_CreatedAt := resetAt,
                                            ak_LastUsedAt := None, ak_RevokedAt := None\<rparr>
                              | None \<Rightarrow> \<lparr>ak_ID = db_nextKey st, ak_UserID = userID, ak_KeyPrefix = trim_space (ki_KeyPrefix input),
                                         ak_KeyHash = hash, ak_CreatedAt = resetAt, ak_LastUsedAt = None, ak_RevokedAt = None\<rparr>)
                   in Inr (key, st\<lparr>db_keys := AList.update userID key (db_keys st), db_nextKey := db_nextKey st + 1\<rparr>))"

text \<open>The key that \<open>WHERE user_id=$1 AND revoked_at IS NULL\<close> selects.\<close>

definition live_key :: "int \<Rightarrow> AccountStore \<Rightarrow> APIKey option" where
  "live_key i st = (case map_of (db_keys st) i of None \<Rightarrow> None | Some k \<Rightarrow> if ak_RevokedAt k = None then Some k else None)"

definition RevokeAPIKey :: "time \<Rightarrow> int \<Rightarrow> time \<Rightarrow> AccountStore \<Rightarrow> storage_error + AccountStore" where
  "RevokeAPIKey at userID revokedAt st =
     (let revokedAt = (if is_zero_time revokedAt then at else revokedAt)
      in case live_key userID st of
           None \<Rightarrow> Inl ErrNotFound
         | Some k \<Rightarrow> Inr (st\<lparr>db_keys := AList.update userID (k\<lparr>ak_RevokedAt := Some revokedAt\<rparr>) (db_keys st)\<rparr>))"

definition UpdateAPIKeyLastUsed :: "time \<Rightarrow> int \<Rightarrow> time \<Rightarrow> AccountStore \<Rightarrow> storage_error + AccountStore" where
  "UpdateAPIKeyLastUsed at userID usedAt st =
     (let usedAt = (if is_zero_time usedAt then at else usedAt)
      in case live_key userID st of
           None \<Rightarrow> Inl ErrNotFound
         | Some k \<Rightarrow> Inr (st\<lparr>db_keys := AList.update userID (k\<lparr>ak_LastUsedAt := Some usedAt\<rparr>) (db_keys st)\<rparr>))"

end
