(* ===== verification/Account_Laws.thy ===== *)
theory Account_Laws
  imports Account_Store
begin

text \<open>
  What the account tables guarantee over any sequence of operations: rows are well-formed, names and key
  hashes unique, keys belong to users (an invariant); an active administrator never disappears through
  an operation; every change that concerns security moves the authorization version of the user.
\<close>

section \<open>Well-formed tables\<close>

definition user_ok :: "User \<Rightarrow> bool" where
  "user_ok u \<longleftrightarrow> stored_username (us_Username u) \<noteq> [] \<and> us_NormalizedUsername u = stored_username (us_Username u)
     \<and> us_PasswordHash u \<noteq> [] \<and> validUserRole (us_Role u) \<and> 1 \<le> us_RPSLimit u \<and> 1 \<le> us_RPMLimit u
     \<and> 1 \<le> us_AuthVersion u \<and> (us_DeletedAt u \<noteq> None \<longrightarrow> \<not> us_Enabled u)"

definition users_ok :: "AccountStore \<Rightarrow> bool" where
  "users_ok st \<longleftrightarrow> distinct (map fst (db_users st)) \<and> distinct (map (\<lambda>(i, u). us_NormalizedUsername u) (db_users st))
     \<and> (\<forall>(i, u)\<in>set (db_users st). us_ID u = i \<and> 0 < i \<and> i < db_nextUser st \<and> user_ok u)"

definition keys_ok :: "AccountStore \<Rightarrow> bool" where
  "keys_ok st \<longleftrightarrow> distinct (map fst (db_keys st)) \<and> distinct (map (\<lambda>(i, k). ak_KeyHash k) (db_keys st))
     \<and> (\<forall>(i, k)\<in>set (db_keys st). ak_UserID k = i \<and> ak_KeyHash k \<noteq> [] \<and> map_of (db_users st) i \<noteq> None)"

definition accounts_ok :: "AccountStore \<Rightarrow> bool" where
  "accounts_ok st \<longleftrightarrow> 0 < db_nextUser st \<and> users_ok st \<and> keys_ok st"

lemma stored_username_trim: "stored_username (trim_space s) = stored_username s"
  by (simp add: stored_username_def)

text \<open>Two lemmas on tables with a unique column, for a new row and for a changed one.\<close>

lemma distinct_column_snoc: "distinct (map f al) \<Longrightarrow> f x \<notin> f ` set al \<Longrightarrow> distinct (map f (al @ [x]))"
  by auto

lemma distinct_column_update:
  assumes "distinct (map fst al)" "distinct (map (\<lambda>(i, r). f r) al)" "\<forall>(i, r)\<in>set al. i \<noteq> k \<longrightarrow> f r \<noteq> f v"
  shows "distinct (map (\<lambda>(i, r). f r) (AList.update k v al))"
  using assms
proof (induction al)
  case (Cons x al)
  obtain i r where x: "x = (i, r)" by (cases x)
  have tl: "distinct (map (\<lambda>(i, r). f r) (AList.update k v al))" using Cons by simp
  show ?case
  proof (cases "i = k")
    case True
    with Cons.prems(1) have "a \<noteq> k" if "(a, b) \<in> set al" for a b using that by (force simp: x)
    then have "f v \<notin> (\<lambda>(i, r). f r) ` set al" using Cons.prems(3) by (fastforce simp: x)
    then show ?thesis using True Cons.prems(2) by (simp add: x)
  next
    case False
    then have "f r \<notin> (\<lambda>(i, r). f r) ` set (AList.update k v al)"
      using Cons.prems set_alist_update [of k v al] by (fastforce simp: x)
    then show ?thesis using False tl by (simp add: x)
  qed
qed simp

lemma keys_of_update: "k \<in> fst ` set al \<Longrightarrow> map fst (AList.update k v al) = map fst al"
  by (induction al) auto

lemma in_alist_update: "(i, x) \<in> set (AList.update k v al) \<Longrightarrow> distinct (map fst al) \<Longrightarrow> (i = k \<and> x = v) \<or> (i \<noteq> k \<and> (i, x) \<in> set al)"
  by (induction al) (force split: if_splits)+

section \<open>The edits of an update\<close>

text \<open>What every prefix of the edits keeps.\<close>

definition edit_ok :: "User \<Rightarrow> edit \<Rightarrow> bool" where
  "edit_ok current = (\<lambda>(c, sets, sec).
     us_ID c = us_ID current \<and> us_AuthVersion c = us_AuthVersion current \<and> us_DeletedAt c = us_DeletedAt current
     \<and> us_PasswordHash c = us_PasswordHash current \<and> (us_DeletedAt current = None \<longrightarrow> user_ok current \<longrightarrow> user_ok c)
     \<and> (\<not> sec \<longrightarrow> us_Role c = us_Role current \<and> us_Enabled c = us_Enabled current \<and> us_ExpiresAt c = us_ExpiresAt current
           \<and> us_NormalizedUsername c = us_NormalizedUsername current \<and> us_MustChangePassword c = us_MustChangePassword current)
     \<and> (\<not> sets \<longrightarrow> c = current \<and> \<not> sec))"

definition keeps_edit_ok :: "User \<Rightarrow> (edit \<Rightarrow> storage_error + edit) \<Rightarrow> bool" where
  "keeps_edit_ok current e \<longleftrightarrow> (\<forall>acc acc'. edit_ok current acc \<longrightarrow> e acc = Inr acc' \<longrightarrow> edit_ok current acc')"

lemma apply_edits_ok:
  "list_all (keeps_edit_ok current) es \<Longrightarrow> edit_ok current acc \<Longrightarrow> apply_edits es acc = Inr acc' \<Longrightarrow> edit_ok current acc'"
  by (induction es acc rule: apply_edits.induct) (auto simp: keeps_edit_ok_def split: sum.splits)

lemmas edit_defs = keeps_edit_ok_def edit_ok_def user_ok_def

lemma edit_username_ok: "keeps_edit_ok current (edit_username current input)"
  by (auto simp: edit_defs edit_username_def stored_username_trim Let_def split: option.splits if_splits)

lemma edit_role_ok: "keeps_edit_ok current (edit_role current input)"
  by (auto simp: edit_defs edit_role_def split: option.splits if_splits)

lemma edit_enabled_ok: "keeps_edit_ok current (edit_enabled current input)"
  by (auto simp: edit_defs edit_enabled_def split: option.splits)

lemma edit_expires_ok: "keeps_edit_ok current (edit_expires current input)"
  by (auto simp: edit_defs edit_expires_def split: option.splits)

lemma edit_must_change_ok: "keeps_edit_ok current (edit_must_change current input)"
  by (auto simp: edit_defs edit_must_change_def split: option.splits)

lemma edit_rps_ok: "keeps_edit_ok current (edit_rps current input)"
  by (auto simp: edit_defs edit_rps_def split: option.splits if_splits)

lemma edit_rpm_ok: "keeps_edit_ok current (edit_rpm current input)"
  by (auto simp: edit_defs edit_rpm_def split: option.splits if_splits)

lemma edit_unlimited_ok: "keeps_edit_ok current (edit_unlimited current input)"
  by (auto simp: edit_defs edit_unlimited_def split: option.splits)

lemma edits_ok:
  assumes "apply_edits (edits current input) (current, False, False) = Inr acc"
  shows "edit_ok current acc"
proof -
  have "list_all (keeps_edit_ok current) (edits current input)"
    by (simp add: edits_def edit_username_ok edit_role_ok edit_enabled_ok edit_expires_ok edit_must_change_ok edit_rps_ok
        edit_rpm_ok edit_unlimited_ok)
  moreover have "edit_ok current (current, False, False)" by (simp add: edit_ok_def)
  ultimately show ?thesis using assms by (rule apply_edits_ok)
qed

section \<open>Writing rows\<close>

lemma live_user_map: "live_user i st = Some u \<Longrightarrow> map_of (db_users st) i = Some u \<and> us_DeletedAt u = None"
  by (auto simp: live_user_def split: option.splits if_splits)

lemma live_key_map: "live_key i st = Some k \<Longrightarrow> map_of (db_keys st) i = Some k \<and> ak_RevokedAt k = None"
  by (auto simp: live_key_def split: option.splits if_splits)

lemma user_row:
  assumes "accounts_ok st" and "map_of (db_users st) i = Some u"
  shows "us_ID u = i \<and> 0 < i \<and> i < db_nextUser st \<and> user_ok u"
  using assms map_of_SomeD [OF assms(2)] by (fastforce simp: accounts_ok_def users_ok_def)

lemma put_user_lookup: "map_of (db_users (put_user u st)) = (map_of (db_users st))(us_ID u \<mapsto> u)"
  by (simp add: put_user_def update_conv')

lemma put_user_ok:
  assumes st: "accounts_ok st" and old: "map_of (db_users st) (us_ID u') = Some u" and u': "user_ok u'"
    and free: "\<not> username_taken (us_NormalizedUsername u') (Some (us_ID u')) st"
  shows "accounts_ok (put_user u' st)"
proof -
  let ?us = "AList.update (us_ID u') u' (db_users st)"
  from st have us: "users_ok st" and ks: "keys_ok st" and n: "0 < db_nextUser st" by (auto simp: accounts_ok_def)
  have k: "us_ID u' \<in> fst ` set (db_users st)" using map_of_SomeD [OF old] by force
  have "distinct (map fst ?us)" using us by (simp add: keys_of_update [OF k] users_ok_def)
  moreover have "distinct (map (\<lambda>(i, u). us_NormalizedUsername u) ?us)"
    using us free by (intro distinct_column_update) (auto simp: users_ok_def username_taken_def list_ex_iff)
  moreover have "\<forall>(i, u)\<in>set ?us. us_ID u = i \<and> 0 < i \<and> i < db_nextUser st \<and> user_ok u"
    using us u' user_row [OF st old] by (auto simp: users_ok_def dest!: in_alist_update)
  moreover have "keys_ok (put_user u' st)"
    using ks by (auto simp: keys_ok_def put_user_lookup) (auto simp: put_user_def)
  ultimately show ?thesis using n by (simp add: accounts_ok_def users_ok_def) (simp add: put_user_def)
qed

text \<open>A change that keeps the name is never refused by the constraint on names.\<close>

lemma own_name_free:
  assumes st: "accounts_ok st" and u: "map_of (db_users st) i = Some u"
  shows "\<not> username_taken (us_NormalizedUsername u) (Some i) st"
proof
  assume "username_taken (us_NormalizedUsername u) (Some i) st"
  then obtain j v where v: "(j, v) \<in> set (db_users st)" "j \<noteq> i" "us_NormalizedUsername v = us_NormalizedUsername u"
    by (auto simp: username_taken_def list_ex_iff)
  have "distinct (map (\<lambda>(i, u). us_NormalizedUsername u) (db_users st))" using st by (simp add: accounts_ok_def users_ok_def)
  then have "inj_on (\<lambda>(i, u). us_NormalizedUsername u) (set (db_users st))" by (simp add: distinct_map)
  from inj_onD [OF this, of "(j, v)" "(i, u)"] v map_of_SomeD [OF u] show False by auto
qed

lemma rewrite_user_ok:
  assumes st: "accounts_ok st" and u: "live_user i st = Some u"
    and u': "us_ID u' = us_ID u" "us_NormalizedUsername u' = us_NormalizedUsername u" "user_ok u'"
  shows "accounts_ok (put_user u' st)"
proof -
  have m: "map_of (db_users st) i = Some u" using live_user_map [OF u] by simp
  then have i: "us_ID u' = i" using user_row [OF st m] u'(1) by simp
  show ?thesis using put_user_ok [OF st _ u'(3)] own_name_free [OF st m] m by (simp add: i u'(2))
qed

lemma add_user_ok:
  assumes st: "accounts_ok st" and u: "us_ID u = db_nextUser st" "user_ok u" and free: "\<not> username_taken (us_NormalizedUsername u) None st"
  shows "accounts_ok (st\<lparr>db_users := db_users st @ [(db_nextUser st, u)], db_nextUser := db_nextUser st + 1\<rparr>)"
proof -
  from st have us: "users_ok st" and ks: "keys_ok st" and n: "0 < db_nextUser st" by (auto simp: accounts_ok_def)
  have "db_nextUser st \<notin> fst ` set (db_users st)" using us by (force simp: users_ok_def)
  moreover have "us_NormalizedUsername u \<notin> (\<lambda>(i, u). us_NormalizedUsername u) ` set (db_users st)"
    using free by (auto simp: username_taken_def list_ex_iff)
  ultimately show ?thesis using us ks u n
    by (auto simp: accounts_ok_def users_ok_def keys_ok_def map_add_Some_iff split: prod.splits)
qed

lemma put_key_ok:
  assumes st: "accounts_ok st" and k: "ak_UserID k = i" "ak_KeyHash k \<noteq> []" and u: "map_of (db_users st) i \<noteq> None"
    and free: "\<not> hash_taken (ak_KeyHash k) (Some i) st"
  shows "accounts_ok (st\<lparr>db_keys := AList.update i k (db_keys st), db_nextKey := n\<rparr>)"
proof -
  have ks: "keys_ok st" using st by (simp add: accounts_ok_def)
  then have d: "distinct (map fst (AList.update i k (db_keys st)))" by (simp add: keys_ok_def distinct_update)
  have "distinct (map (\<lambda>(i, k). ak_KeyHash k) (AList.update i k (db_keys st)))"
    using ks free by (intro distinct_column_update) (auto simp: keys_ok_def hash_taken_def list_ex_iff)
  moreover have "\<forall>(i, k)\<in>set (AList.update i k (db_keys st)). ak_UserID k = i \<and> ak_KeyHash k \<noteq> [] \<and> map_of (db_users st) i \<noteq> None"
    using ks k u by (fastforce simp: keys_ok_def dest!: in_alist_update)
  ultimately show ?thesis using st d by (auto simp: accounts_ok_def users_ok_def keys_ok_def)
qed

lemma own_hash_free:
  assumes st: "accounts_ok st" and k: "map_of (db_keys st) i = Some k"
  shows "\<not> hash_taken (ak_KeyHash k) (Some i) st"
proof
  assume "hash_taken (ak_KeyHash k) (Some i) st"
  then obtain j v where v: "(j, v) \<in> set (db_keys st)" "j \<noteq> i" "ak_KeyHash v = ak_KeyHash k" by (auto simp: hash_taken_def list_ex_iff)
  have "distinct (map (\<lambda>(i, k). ak_KeyHash k) (db_keys st))" using st by (simp add: accounts_ok_def keys_ok_def)
  then have "inj_on (\<lambda>(i, k). ak_KeyHash k) (set (db_keys st))" by (simp add: distinct_map)
  from inj_onD [OF this, of "(j, v)" "(i, k)"] v map_of_SomeD [OF k] show False by auto
qed

lemma rewrite_key_ok:
  assumes st: "accounts_ok st" and k: "live_key i st = Some k" and k': "ak_UserID k' = ak_UserID k" "ak_KeyHash k' = ak_KeyHash k"
  shows "accounts_ok (st\<lparr>db_keys := AList.update i k' (db_keys st)\<rparr>)"
proof -
  have m: "map_of (db_keys st) i = Some k" using live_key_map [OF k] by simp
  have row: "ak_UserID k = i \<and> ak_KeyHash k \<noteq> [] \<and> map_of (db_users st) i \<noteq> None"
    using st map_of_SomeD [OF m] by (auto simp: accounts_ok_def keys_ok_def)
  have "accounts_ok (st\<lparr>db_keys := AList.update i k' (db_keys st), db_nextKey := db_nextKey st\<rparr>)"
    using own_hash_free [OF st m] row k' by (intro put_key_ok [OF st]) simp_all
  then show ?thesis by simp
qed

lemma add_key_ok:
  assumes st: "accounts_ok st" and k: "ak_UserID k = i" "ak_KeyHash k \<noteq> []" and u: "map_of (db_users st) i \<noteq> None"
    and free: "map_of (db_keys st) i = None" "\<not> hash_taken (ak_KeyHash k) None st"
  shows "accounts_ok (st\<lparr>db_keys := db_keys st @ [(i, k)], db_nextKey := n\<rparr>)"
proof -
  have "AList.update i k al = al @ [(i, k)]" if "map_of al i = None" for al :: "(int \<times> APIKey) list"
    using that by (induction al) (auto split: if_splits)
  from this [OF free(1)] put_key_ok [OF st k u, of n] free(2) show ?thesis
    by (auto simp: hash_taken_def list_ex_iff)
qed

section \<open>The operations\<close>

inductive account_step :: "time \<Rightarrow> AccountStore \<Rightarrow> AccountStore \<Rightarrow> bool" where
  create: "CreateUser dbnow input st = Inr (u, st') \<Longrightarrow> account_step at st st'"
| create_with_key: "CreateUserWithAPIKey at dbnow input keyInput st = Inr (uk, st') \<Longrightarrow> account_step at st st'"
| update: "UpdateUser at dbnow i changes st = Inr (u, st') \<Longrightarrow> account_step at st st'"
| soft_delete: "SoftDeleteUser at' dbnow i deletedAt st = Inr (u, st') \<Longrightarrow> at = (if is_zero_time deletedAt then at' else deletedAt) \<Longrightarrow>
    account_step at st st'"
| set_password: "SetUserPassword at i hash mustChange changedAt st = Inr (u, st') \<Longrightarrow> account_step at st st'"
| last_login: "UpdateUserLastLogin at dbnow i loggedInAt st = Inr st' \<Longrightarrow> account_step at st st'"
| create_key: "CreateAPIKey at i kinput st = Inr (k, st') \<Longrightarrow> account_step at st st'"
| reset_key: "ResetAPIKey at i kinput resetAt st = Inr (k, st') \<Longrightarrow> account_step at st st'"
| revoke_key: "RevokeAPIKey at i revokedAt st = Inr st' \<Longrightarrow> account_step at st st'"
| key_used: "UpdateAPIKeyLastUsed at i usedAt st = Inr st' \<Longrightarrow> account_step at st st'"

text \<open>What the operations on users do, by cases.\<close>

lemma insertUserTx_cases:
  assumes "insertUserTx dbnow input st = Inr (u, st')"
  obtains "us_ID u = db_nextUser st" "user_ok u" "us_DeletedAt u = None" "\<not> username_taken (us_NormalizedUsername u) None st"
    "st' = st\<lparr>db_users := db_users st @ [(db_nextUser st, u)], db_nextUser := db_nextUser st + 1\<rparr>"
  using assms by (auto simp: insertUserTx_def Let_def user_ok_def stored_username_trim split: if_splits)

lemma UpdateUser_cases:
  assumes "UpdateUser at dbnow i input st = Inr (u', st')"
  obtains (unchanged) "live_user i st = Some u'" "st' = st"
  | (changed) u c sec where "live_user i st = Some u" "edit_ok u (c, True, sec)"
      "\<not> (IsEffectiveAdminAt u at \<and> \<not> IsEffectiveAdminAt c at \<and> \<not> another_admin i at st)"
      "\<not> username_taken (us_NormalizedUsername c) (Some i) st"
      "u' = c\<lparr>us_AuthVersion := us_AuthVersion u + (if sec then 1 else 0), us_UpdatedAt := dbnow\<rparr>" "st' = put_user u' st"
proof -
  obtain u where u: "live_user i st = Some u" using assms by (cases "live_user i st") (auto simp: UpdateUser_def)
  obtain c sets sec where e: "apply_edits (edits u input) (u, False, False) = Inr (c, sets, sec)"
    using assms by (cases "apply_edits (edits u input) (u, False, False)") (auto simp: UpdateUser_def u)
  have ok: "edit_ok u (c, sets, sec)" by (rule edits_ok [OF e])
  show ?thesis
  proof (cases sets)
    case False
    then have "u = u' \<and> st = st'" using assms by (simp add: UpdateUser_def u e)
    then show ?thesis using u by (intro unchanged) simp_all
  next
    case True
    have admin: "\<not> (IsEffectiveAdminAt u at \<and> \<not> IsEffectiveAdminAt c at \<and> \<not> another_admin i at st)"
      by (rule notI) (use assms True in \<open>simp add: UpdateUser_def u e\<close>)
    have free: "\<not> username_taken (us_NormalizedUsername c) (Some i) st"
      by (rule notI) (use assms True admin in \<open>simp add: UpdateUser_def u e\<close>)
    have "Inr (u', st') = (Inr (upd, put_user upd st) :: storage_error + User \<times> AccountStore)"
      if "upd = c\<lparr>us_AuthVersion := us_AuthVersion u + (if sec then 1 else 0), us_UpdatedAt := dbnow\<rparr>" for upd
      using assms [symmetric] True admin free by (simp add: that UpdateUser_def u e Let_def)
    then have "u' = c\<lparr>us_AuthVersion := us_AuthVersion u + (if sec then 1 else 0), us_UpdatedAt := dbnow\<rparr>" "st' = put_user u' st"
      by simp_all
    moreover have "edit_ok u (c, True, sec)" using ok True by simp
    ultimately show ?thesis by (rule changed [OF u _ admin free, rotated])
  qed
qed

lemma UpdateUser_ok:
  assumes st: "accounts_ok st" and r: "UpdateUser at dbnow i input st = Inr (u', st')"
  shows "accounts_ok st'"
  using r
proof (cases rule: UpdateUser_cases)
  case unchanged
  then show ?thesis using st by simp
next
  case (changed u c sec)
  have m: "map_of (db_users st) i = Some u" "us_DeletedAt u = None" using live_user_map [OF changed(1)] by auto
  have row: "us_ID u = i" "user_ok u" using user_row [OF st m(1)] by auto
  have c: "us_ID c = i" "user_ok c" using changed(2) row m(2) by (auto simp: edit_ok_def)
  have "us_AuthVersion u' \<ge> us_AuthVersion u" using changed(5) by simp
  then have "1 \<le> us_AuthVersion u'" using row(2) by (simp add: user_ok_def)
  then have "user_ok u'" using c(2) unfolding user_ok_def changed(5) by auto
  then have "accounts_ok (put_user u' st)"
    using m(1) c(1) changed(4,5) by (intro put_user_ok [OF st, where u = u]) simp_all
  then show ?thesis using changed(6) by simp
qed

lemma insertAPIKeyTx_ok:
  assumes st: "accounts_ok st" and u: "map_of (db_users st) (ki_UserID input) \<noteq> None" and r: "insertAPIKeyTx input st = Inr (k, st')"
  shows "accounts_ok st' \<and> db_users st' = db_users st"
  using r add_key_ok [OF st _ _ u, of k "db_nextKey st + 1"]
  by (auto simp: insertAPIKeyTx_def Let_def split: if_splits)

lemma CreateUser_ok:
  assumes st: "accounts_ok st" and r: "insertUserTx dbnow input st = Inr (u, st')"
  shows "accounts_ok st' \<and> map_of (db_users st') (us_ID u) \<noteq> None"
  using r
proof (cases rule: insertUserTx_cases)
  case 1
  have "accounts_ok st'" using add_user_ok [OF st 1(1,2,4)] 1(5) by simp
  moreover have "\<exists>v. map_of (db_users st') (us_ID u) = Some v"
    by (cases "map_of (db_users st) (db_nextUser st)") (simp_all add: 1(1,5) map_add_Some_iff)
  ultimately show ?thesis by simp
qed

lemma SoftDeleteUser_ok:
  assumes st: "accounts_ok st" and r: "SoftDeleteUser at dbnow i d st = Inr (u', st')"
  shows "accounts_ok st'"
proof -
  obtain u where u: "live_user i st = Some u" using r by (cases "live_user i st") (auto simp: SoftDeleteUser_def)
  have row: "user_ok u" using user_row [OF st] live_user_map [OF u] by blast
  let ?p = "filter (\<lambda>owner. owner \<noteq> i) (db_privateCredentials st)"
  have st1: "accounts_ok (st\<lparr>db_privateCredentials := ?p\<rparr>)" 
    using st by (cases st) (simp only: accounts_ok_def users_ok_def keys_ok_def AccountStore.simps, blast)
  have u1: "live_user i (st\<lparr>db_privateCredentials := ?p\<rparr>) = Some u" using u by (simp add: live_user_def)
  have "st' = put_user u' (st\<lparr>db_privateCredentials := ?p\<rparr>) \<and> us_ID u' = us_ID u \<and> us_NormalizedUsername u' = us_NormalizedUsername u \<and> user_ok u'"
    using r row by (auto simp: SoftDeleteUser_def u Let_def user_ok_def split: if_splits)
  then show ?thesis using rewrite_user_ok [OF st1 u1] by blast
qed

lemma trim_space_nonempty: "trim_space (trim_space s) \<noteq> [] \<longleftrightarrow> trim_space s \<noteq> []" by simp

lemma SetUserPassword_ok:
  assumes st: "accounts_ok st" and r: "SetUserPassword at i h m d st = Inr (u', st')"
  shows "accounts_ok st'"
proof -
  obtain u where u: "live_user i st = Some u" using r by (cases "live_user i st") (auto simp: SetUserPassword_def Let_def split: if_splits)
  have row: "user_ok u" using user_row [OF st] live_user_map [OF u] by blast
  have "st' = put_user u' st \<and> us_ID u' = us_ID u \<and> us_NormalizedUsername u' = us_NormalizedUsername u \<and> user_ok u'"
    using r row by (auto simp: SetUserPassword_def u Let_def user_ok_def split: if_splits)
  then show ?thesis using rewrite_user_ok [OF st u] by blast
qed

lemma UpdateUserLastLogin_ok:
  assumes st: "accounts_ok st" and r: "UpdateUserLastLogin at dbnow i d st = Inr st'"
  shows "accounts_ok st'"
proof -
  obtain u where u: "live_user i st = Some u" using r by (cases "live_user i st") (auto simp: UpdateUserLastLogin_def)
  have row: "user_ok u" using user_row [OF st] live_user_map [OF u] by blast
  obtain t where "st' = put_user (u\<lparr>us_LastLoginAt := Some t, us_UpdatedAt := dbnow\<rparr>) st"
    using r by (auto simp: UpdateUserLastLogin_def u Let_def)
  moreover have "user_ok (u\<lparr>us_LastLoginAt := Some t, us_UpdatedAt := dbnow\<rparr>)" using row by (simp add: user_ok_def)
  ultimately show ?thesis using rewrite_user_ok [OF st u] by simp
qed

lemma ResetAPIKey_ok:
  assumes st: "accounts_ok st" and r: "ResetAPIKey at i input d st = Inr (k, st')"
  shows "accounts_ok st'"
proof -
  have u: "map_of (db_users st) i \<noteq> None"
    using r by (cases "map_of (db_users st) i") (auto simp: ResetAPIKey_def live_user_def Let_def split: if_splits)
  have ks: "keys_ok st" using st by (simp add: accounts_ok_def)
  have "ak_UserID k' = i" if "map_of (db_keys st) i = Some k'" for k'
    using ks map_of_SomeD [OF that] by (auto simp: keys_ok_def)
  then have "ak_UserID k = i \<and> ak_KeyHash k \<noteq> [] \<and> \<not> hash_taken (ak_KeyHash k) (Some i) st
      \<and> st' = st\<lparr>db_keys := AList.update i k (db_keys st), db_nextKey := db_nextKey st + 1\<rparr>"
    using r by (auto simp: ResetAPIKey_def Let_def split: if_splits option.splits)
  then show ?thesis using put_key_ok [OF st _ _ u] by blast
qed

lemma RevokeAPIKey_ok:
  assumes st: "accounts_ok st" and r: "RevokeAPIKey at i d st = Inr st'"
  shows "accounts_ok st'"
proof -
  obtain k where k: "live_key i st = Some k" using r by (cases "live_key i st") (auto simp: RevokeAPIKey_def)
  let ?k = "k\<lparr>ak_RevokedAt := Some (if is_zero_time d then at else d)\<rparr>"
  have "RevokeAPIKey at i d st = Inr (st\<lparr>db_keys := AList.update i ?k (db_keys st)\<rparr>)" by (simp add: RevokeAPIKey_def k Let_def)
  with r have "st' = st\<lparr>db_keys := AList.update i ?k (db_keys st)\<rparr>" by (metis sum.inject(2))
  moreover have "accounts_ok (st\<lparr>db_keys := AList.update i ?k (db_keys st)\<rparr>)" by (rule rewrite_key_ok [OF st k]) simp_all
  ultimately show ?thesis by blast
qed

lemma UpdateAPIKeyLastUsed_ok:
  assumes st: "accounts_ok st" and r: "UpdateAPIKeyLastUsed at i d st = Inr st'"
  shows "accounts_ok st'"
proof -
  obtain k where k: "live_key i st = Some k" using r by (cases "live_key i st") (auto simp: UpdateAPIKeyLastUsed_def)
  let ?k = "k\<lparr>ak_LastUsedAt := Some (if is_zero_time d then at else d)\<rparr>"
  have "UpdateAPIKeyLastUsed at i d st = Inr (st\<lparr>db_keys := AList.update i ?k (db_keys st)\<rparr>)" by (simp add: UpdateAPIKeyLastUsed_def k Let_def)
  with r have "st' = st\<lparr>db_keys := AList.update i ?k (db_keys st)\<rparr>" by (metis sum.inject(2))
  moreover have "accounts_ok (st\<lparr>db_keys := AList.update i ?k (db_keys st)\<rparr>)" by (rule rewrite_key_ok [OF st k]) simp_all
  ultimately show ?thesis by blast
qed

lemma CreateAPIKey_ok:
  assumes st: "accounts_ok st" and r: "CreateAPIKey at i input st = Inr (k, st')"
  shows "accounts_ok st'"
proof -
  let ?in = "input\<lparr>ki_UserID := i, ki_CreatedAt := (if is_zero_time (ki_CreatedAt input) then at else ki_CreatedAt input)\<rparr>"
  have u: "map_of (db_users st) (ki_UserID ?in) \<noteq> None"
    using r by (cases "map_of (db_users st) i") (auto simp: CreateAPIKey_def live_user_def)
  have "insertAPIKeyTx ?in st = Inr (k, st')" using r by (cases "live_user i st") (simp_all add: CreateAPIKey_def)
  from insertAPIKeyTx_ok [OF st u this] show ?thesis by blast
qed

lemma CreateUserWithAPIKey_ok:
  assumes st: "accounts_ok st" and r: "CreateUserWithAPIKey at dbnow input ki st = Inr (uk, st')"
  shows "accounts_ok st'"
proof -
  obtain u st1 where c: "insertUserTx dbnow input st = Inr (u, st1)"
    using r by (cases "insertUserTx dbnow input st") (auto simp: CreateUserWithAPIKey_def)
  let ?in = "ki\<lparr>ki_UserID := us_ID u, ki_CreatedAt := (if is_zero_time (ki_CreatedAt ki) then at else ki_CreatedAt ki)\<rparr>"
  from CreateUser_ok [OF st c] have st1: "accounts_ok st1" and u: "map_of (db_users st1) (ki_UserID ?in) \<noteq> None" by simp_all
  obtain k st2 where k: "insertAPIKeyTx ?in st1 = Inr (k, st2)"
    using r by (cases "insertAPIKeyTx ?in st1") (auto simp: CreateUserWithAPIKey_def c)
  then have "st' = st2" using r by (simp add: CreateUserWithAPIKey_def c)
  with insertAPIKeyTx_ok [OF st1 u k] show ?thesis by blast
qed

definition no_accounts :: "AccountStore \<Rightarrow> bool" where
  "no_accounts st \<longleftrightarrow> db_users st = [] \<and> db_keys st = [] \<and> 0 < db_nextUser st"

definition some_account_step :: "AccountStore \<Rightarrow> AccountStore \<Rightarrow> bool" where
  "some_account_step st st' \<longleftrightarrow> (\<exists>at. account_step at st st')"

interpretation accounts: invariant_machine no_accounts some_account_step accounts_ok
proof unfold_locales
  show "no_accounts st \<Longrightarrow> accounts_ok st" for st
    by (simp add: no_accounts_def accounts_ok_def users_ok_def keys_ok_def)
next
  fix st st' assume st: "accounts_ok st" and "some_account_step st st'"
  then obtain at where "account_step at st st'" by (auto simp: some_account_step_def)
  then show "accounts_ok st'"
    using CreateUser_ok [OF st] CreateUserWithAPIKey_ok [OF st] UpdateUser_ok [OF st] SoftDeleteUser_ok [OF st]
      SetUserPassword_ok [OF st] UpdateUserLastLogin_ok [OF st] CreateAPIKey_ok [OF st] ResetAPIKey_ok [OF st]
      RevokeAPIKey_ok [OF st] UpdateAPIKeyLastUsed_ok [OF st]
    by (cases rule: account_step.cases) (auto simp: CreateUser_def)
qed

section \<open>What a step does to one user\<close>

text \<open>The fields that decide what an account may do.\<close>

definition same_security :: "User \<Rightarrow> User \<Rightarrow> bool" where
  "same_security u u' \<longleftrightarrow> us_Role u' = us_Role u \<and> us_Enabled u' = us_Enabled u \<and> us_ExpiresAt u' = us_ExpiresAt u
     \<and> us_NormalizedUsername u' = us_NormalizedUsername u \<and> us_MustChangePassword u' = us_MustChangePassword u
     \<and> us_PasswordHash u' = us_PasswordHash u \<and> us_DeletedAt u' = us_DeletedAt u"

definition user_change :: "User \<Rightarrow> User \<Rightarrow> bool" where
  "user_change u u' \<longleftrightarrow> us_ID u' = us_ID u \<and> us_AuthVersion u \<le> us_AuthVersion u' \<and>
     (us_AuthVersion u' = us_AuthVersion u \<longrightarrow> same_security u u')"

lemma user_change_refl: "user_change u u"
  by (simp add: user_change_def same_security_def)

lemma user_change_trans: "user_change u v \<Longrightarrow> user_change v w \<Longrightarrow> user_change u w"
  by (auto simp: user_change_def same_security_def)

lemma same_security_active: "same_security u u' \<Longrightarrow> IsEffectiveAdminAt u' at = IsEffectiveAdminAt u at"
  by (simp add: same_security_def IsEffectiveAdminAt_def IsActiveAt_def)

text \<open>Every step leaves the users alone, adds one at the end, or rewrites the row of one live user.\<close>

lemma account_step_users:
  assumes st: "accounts_ok st" and "account_step at st st'"
  obtains (same) "db_users st' = db_users st"
  | (added) u where "db_users st' = db_users st @ [(db_nextUser st, u)]"
  | (rewritten) i u u' where "live_user i st = Some u" "us_ID u' = i" "user_change u u'"
      "db_users st' = AList.update i u' (db_users st)"
      "IsEffectiveAdminAt u at \<Longrightarrow> IsEffectiveAdminAt u' at \<or> another_admin i at st"
  using assms(2)
proof cases
  case (create dbnow input u)
  have "insertUserTx dbnow input st = Inr (u, st')" using create by (simp add: CreateUser_def)
  then have "db_users st' = db_users st @ [(db_nextUser st, u)]" by (rule insertUserTx_cases) simp
  then show ?thesis by (rule added)
next
  case (create_with_key dbnow input ki uk)
  obtain u st1 where c: "insertUserTx dbnow input st = Inr (u, st1)"
    using create_with_key by (cases "insertUserTx dbnow input st") (auto simp: CreateUserWithAPIKey_def)
  let ?in = "ki\<lparr>ki_UserID := us_ID u, ki_CreatedAt := (if is_zero_time (ki_CreatedAt ki) then at else ki_CreatedAt ki)\<rparr>"
  obtain k st2 where k: "insertAPIKeyTx ?in st1 = Inr (k, st2)"
    using create_with_key by (cases "insertAPIKeyTx ?in st1") (auto simp: CreateUserWithAPIKey_def c)
  then have "st' = st2" using create_with_key by (simp add: CreateUserWithAPIKey_def c)
  moreover have "db_users st2 = db_users st1" using k by (auto simp: insertAPIKeyTx_def Let_def split: if_splits)
  moreover have "db_users st1 = db_users st @ [(db_nextUser st, u)]" using c by (rule insertUserTx_cases) simp
  ultimately show ?thesis using added [of u] by simp
next
  case (update dbnow i changes u')
  from update(1) show ?thesis
  proof (cases rule: UpdateUser_cases)
    case unchanged
    then show ?thesis using same by simp
  next
    case (changed u c sec)
    have m: "map_of (db_users st) i = Some u" using live_user_map [OF changed(1)] by simp
    have i: "us_ID u = i" using user_row [OF st m] by simp
    have id: "us_ID u' = i" "user_change u u'"
      using changed(2,5) i by (auto simp: edit_ok_def user_change_def same_security_def)
    have "IsEffectiveAdminAt u' at = IsEffectiveAdminAt c at" using changed(5) by (simp add: IsEffectiveAdminAt_def IsActiveAt_def)
    then show ?thesis using rewritten [OF changed(1) id] changed(3,6) id(1) by (auto simp: put_user_def)
  qed
next
  case (soft_delete at' dbnow i deletedAt u')
  obtain u where u: "live_user i st = Some u" using soft_delete(1) by (cases "live_user i st") (auto simp: SoftDeleteUser_def)
  have i: "us_ID u = i" using user_row [OF st] live_user_map [OF u] by blast
  have e: "us_ID u' = i" "user_change u u'" "db_users st' = AList.update i u' (db_users st)"
    "IsEffectiveAdminAt u at \<Longrightarrow> another_admin i at st"
    using soft_delete i by (auto simp: SoftDeleteUser_def u Let_def user_change_def put_user_def split: if_splits)
  then show ?thesis using rewritten [OF u e(1,2,3)] by blast
next
  case (set_password i hash mustChange changedAt u')
  obtain u where u: "live_user i st = Some u"
    using set_password by (cases "live_user i st") (auto simp: SetUserPassword_def Let_def split: if_splits)
  have i: "us_ID u = i" using user_row [OF st] live_user_map [OF u] by blast
  have e: "us_ID u' = i" "user_change u u'" "db_users st' = AList.update i u' (db_users st)"
    "IsEffectiveAdminAt u' at = IsEffectiveAdminAt u at"
    using set_password i
    by (auto simp: SetUserPassword_def u Let_def user_change_def put_user_def IsEffectiveAdminAt_def IsActiveAt_def split: if_splits)
  then show ?thesis using rewritten [OF u e(1,2,3)] by blast
next
  case (last_login dbnow i loggedInAt)
  obtain u where u: "live_user i st = Some u"
    using last_login by (cases "live_user i st") (auto simp: UpdateUserLastLogin_def)
  have i: "us_ID u = i" using user_row [OF st] live_user_map [OF u] by blast
  let ?u = "u\<lparr>us_LastLoginAt := Some (if is_zero_time loggedInAt then at else loggedInAt), us_UpdatedAt := dbnow\<rparr>"
  have e: "us_ID ?u = i" "user_change u ?u" "IsEffectiveAdminAt ?u at = IsEffectiveAdminAt u at"
    by (simp_all add: i user_change_def same_security_def IsEffectiveAdminAt_def IsActiveAt_def)
  have "db_users st' = AList.update i ?u (db_users st)"
    using last_login i by (auto simp: UpdateUserLastLogin_def u Let_def put_user_def)
  then show ?thesis using rewritten [OF u e(1,2)] e(3) by blast
next
  case (create_key i kinput k)
  then show ?thesis by (intro same) (auto simp: CreateAPIKey_def insertAPIKeyTx_def Let_def split: if_splits)
next
  case (reset_key i kinput resetAt k)
  then show ?thesis by (intro same) (auto simp: ResetAPIKey_def Let_def split: if_splits)
next
  case (revoke_key i revokedAt)
  then show ?thesis by (intro same) (auto simp: RevokeAPIKey_def Let_def split: option.splits)
next
  case (key_used i usedAt)
  then show ?thesis by (intro same) (auto simp: UpdateAPIKeyLastUsed_def Let_def split: option.splits)
qed

lemma account_step_change:
  assumes st: "accounts_ok st" and s: "account_step at st st'" and u: "map_of (db_users st) i = Some u"
  obtains u' where "map_of (db_users st') i = Some u'" "user_change u u'"
  using st s
proof (cases rule: account_step_users)
  case same
  then show ?thesis using that u user_change_refl by simp
next
  case (added v)
  then show ?thesis using that [of u] u user_change_refl by (simp add: map_add_Some_iff)
next
  case (rewritten j v v')
  then show ?thesis
    using that u user_change_refl live_user_map [OF rewritten(1)] by (cases "j = i") (auto simp: update_conv')
qed

lemma account_run_change:
  assumes "some_account_step\<^sup>*\<^sup>* st st'" and "accounts_ok st" and "map_of (db_users st) i = Some u"
  shows "\<exists>u'. map_of (db_users st') i = Some u' \<and> user_change u u'"
  using assms
proof (induction rule: rtranclp_induct)
  case base
  then show ?case using user_change_refl by blast
next
  case (step st1 st2)
  then obtain u1 where u1: "map_of (db_users st1) i = Some u1" "user_change u u1" by blast
  have "accounts_ok st1" by (rule accounts.rtranclp_inv [OF step.prems(1) step.hyps(1)])
  moreover obtain at where "account_step at st1 st2" using step.hyps(2) by (auto simp: some_account_step_def)
  ultimately obtain u2 where "map_of (db_users st2) i = Some u2" "user_change u1 u2"
    using account_step_change u1(1) by blast
  then show ?case using user_change_trans [OF u1(2)] by blast
qed

lemma CountActiveAdmins_pos: "0 < CountActiveAdmins at st \<longleftrightarrow> (\<exists>(i, u)\<in>set (db_users st). IsEffectiveAdminAt u at)"
  by (auto simp: CountActiveAdmins_def filter_empty_conv)

section \<open>Properties\<close>

text \<open>C12: In every state that the operations reach from empty tables the rows are well-formed: the identifier of
  a user is its key, names are stored in normal form, no two users share a normalized name, roles are
  known, limits and authorization versions are positive, a deleted user is disabled; every API key belongs
  to a user, each user has at most one, and no two keys share a hash.\<close>

theorem accounts_well_formed:
  assumes "reachable no_accounts some_account_step st"
  shows "distinct (map fst (db_users st)) \<and> distinct (map (\<lambda>(i, u). us_NormalizedUsername u) (db_users st))
    \<and> (\<forall>(i, u)\<in>set (db_users st). us_ID u = i \<and> us_NormalizedUsername u = stored_username (us_Username u)
         \<and> us_NormalizedUsername u \<noteq> [] \<and> us_PasswordHash u \<noteq> [] \<and> validUserRole (us_Role u)
         \<and> 1 \<le> us_RPSLimit u \<and> 1 \<le> us_RPMLimit u \<and> 1 \<le> us_AuthVersion u \<and> (us_DeletedAt u \<noteq> None \<longrightarrow> \<not> us_Enabled u))
    \<and> distinct (map fst (db_keys st)) \<and> distinct (map (\<lambda>(i, k). ak_KeyHash k) (db_keys st))
    \<and> (\<forall>(i, k)\<in>set (db_keys st). ak_UserID k = i \<and> map_of (db_users st) i \<noteq> None)"
proof -
  have "accounts_ok st" using assms by (rule accounts.reachable_inv)
  then show ?thesis unfolding accounts_ok_def users_ok_def keys_ok_def user_ok_def by auto
qed

definition demo_new_user :: "string \<Rightarrow> string \<Rightarrow> CreateUserInput" where
  "demo_new_user name role = \<lparr>cu_Username = name, cu_PasswordHash = ''hash'', cu_Role = role, cu_Enabled = None, cu_ExpiresAt = None,
     cu_MustChangePassword = Some False, cu_RPSLimit = 0, cu_RPMLimit = 0, cu_RateLimitDisabled = False\<rparr>"

definition demo_empty :: AccountStore where
  "demo_empty = \<lparr>db_users = [], db_nextUser = 1, db_keys = [], db_nextKey = 1, db_privateCredentials = []\<rparr>"

definition demo_accounts :: AccountStore where
  "demo_accounts = snd (projr (CreateUser 10 (demo_new_user '' Ann  Lee'' ''admin'') demo_empty))"

lemma demo_accounts_create: "CreateUser 10 (demo_new_user '' Ann  Lee'' ''admin'') demo_empty = Inr (fst (projr
    (CreateUser 10 (demo_new_user '' Ann  Lee'' ''admin'') demo_empty)), demo_accounts)"
  by code_simp

lemma demo_accounts_reachable: "reachable no_accounts some_account_step demo_accounts"
proof (rule reach_step)
  show "reachable no_accounts some_account_step demo_empty"
    by (rule reach_init) (simp add: no_accounts_def demo_empty_def)
  show "some_account_step demo_empty demo_accounts"
    unfolding some_account_step_def using account_step.create [OF demo_accounts_create] by blast
qed

theorem accounts_well_formed_witness:
  "map (\<lambda>(i, u). (i, us_NormalizedUsername u)) (db_users demo_accounts) = [(1, ''ann lee'')]
   \<and> distinct (map fst (db_users demo_accounts))"
  using accounts_well_formed [OF demo_accounts_reachable] by (intro conjI) (code_simp, blast)

text \<open>C20: The last administrator cannot be removed: if some user is an active administrator at the time of an
  operation, whatever it is, some user is one after it.\<close>

theorem last_admin_kept:
  assumes "reachable no_accounts some_account_step st" and "account_step at st st'" and "0 < CountActiveAdmins at st"
  shows "0 < CountActiveAdmins at st'"
proof -
  have st: "accounts_ok st" using assms(1) by (rule accounts.reachable_inv)
  from assms(3) obtain j v where v: "(j, v) \<in> set (db_users st)" "IsEffectiveAdminAt v at"
    by (auto simp: CountActiveAdmins_pos)
  have dk: "distinct (map fst (db_users st))" using st by (simp add: accounts_ok_def users_ok_def)
  from st assms(2) show ?thesis
  proof (cases rule: account_step_users)
    case same
    then show ?thesis using v by (auto simp: CountActiveAdmins_pos)
  next
    case (added u)
    then show ?thesis using v by (auto simp: CountActiveAdmins_pos)
  next
    case (rewritten i u u')
    have other: "(k, w) \<in> set (db_users st')" if "(k, w) \<in> set (db_users st)" "k \<noteq> i" for k w
      using that dk rewritten(4) by (metis distinct_update in_alist_update map_of_eq_Some_iff map_of_is_SomeI update_conv' fun_upd_other)
    have self: "(i, u') \<in> set (db_users st')" using rewritten(4) by (metis map_of_SomeD update_conv' fun_upd_same)
    show ?thesis
    proof (cases "j = i")
      case True
      then have "v = u" using v(1) dk live_user_map [OF rewritten(1)] by (metis map_of_is_SomeI option.inject)
      with v(2) rewritten(5) have "IsEffectiveAdminAt u' at \<or> another_admin i at st" by simp
      then show ?thesis using self other by (auto simp: CountActiveAdmins_pos another_admin_def list_ex_iff)
    next
      case False
      then show ?thesis using other [OF v(1)] v(2) by (auto simp: CountActiveAdmins_pos)
    qed
  qed
qed

definition demo_two_admins :: AccountStore where
  "demo_two_admins = snd (projr (CreateUser 11 (demo_new_user ''bob'' ''admin'') demo_accounts))"

definition demo_one_left :: AccountStore where
  "demo_one_left = snd (projr (SoftDeleteUser 20 20 1 0 demo_two_admins))"

theorem last_admin_kept_witness:
  "0 < CountActiveAdmins 20 demo_one_left \<and> CountActiveAdmins 20 demo_two_admins = 2
   \<and> SoftDeleteUser 20 20 2 0 demo_one_left = Inl ErrConflict"
proof -
  have "CreateUser 11 (demo_new_user ''bob'' ''admin'') demo_accounts =
      Inr (fst (projr (CreateUser 11 (demo_new_user ''bob'' ''admin'') demo_accounts)), demo_two_admins)" by code_simp
  then have two: "reachable no_accounts some_account_step demo_two_admins"
    using reach_step [OF demo_accounts_reachable] account_step.create unfolding some_account_step_def by blast
  have "SoftDeleteUser 20 20 1 0 demo_two_admins = Inr (fst (projr (SoftDeleteUser 20 20 1 0 demo_two_admins)), demo_one_left)"
    by code_simp
  then have "account_step 20 demo_two_admins demo_one_left" by (rule account_step.soft_delete) (simp add: is_zero_time_def)
  moreover have "CountActiveAdmins 20 demo_two_admins = 2" by code_simp
  moreover have "SoftDeleteUser 20 20 2 0 demo_one_left = Inl ErrConflict" by code_simp
  ultimately show ?thesis using last_admin_kept [OF two, of 20 demo_one_left] by simp
qed

end
