(* ===== verification/Auth_Service.thy ===== *)
theory Auth_Service
  imports Account_Laws
begin

text \<open>
  Authentication: \<^verbatim>\<open>src/auth/service.go\<close>, \<^verbatim>\<open>src/auth/credentials.go\<close>, the account adapter of
  \<^verbatim>\<open>src/integration/identity_repository.go\<close> and the token functions of \<^verbatim>\<open>src/util/jwt.go\<close>. The service works
  on a repository, a record of functions here as an interface there; the laws it relies on are the locale
  \<open>identity_laws\<close>, which the adapter over the account tables fulfils. The libraries for JSON web tokens,
  password hashes, SHA-256 and Base64 are the functions of \<open>crypto\<close>.
\<close>

section \<open>Model: data\<close>

datatype auth_error =
    ErrInvalidCredentials
  | ErrUserDisabled
  | ErrUserExpired
  | ErrUserDeleted
  | ErrPasswordChangeRequired
  | ErrTokenStale
  | ErrInvalidAPIKey
  | ErrRepositoryUnavailable
  | ErrPasswordPolicyViolation
  | ErrLibrary

record AuthUser =
  au_ID :: int
  au_Username :: string
  au_NormalizedUsername :: string
  au_PasswordHash :: string
  au_Role :: string
  au_Enabled :: bool
  au_ExpiresAt :: "time option"
  au_MustChangePassword :: bool
  au_AuthVersion :: int
  au_RPSLimit :: int
  au_RPMLimit :: int
  au_RateLimitDisabled :: bool
  au_DeletedAt :: "time option"

record Principal =
  pr_UserID :: int
  pr_Username :: string
  pr_Role :: string
  pr_MustChangePassword :: bool
  pr_RPSLimit :: int
  pr_RPMLimit :: int
  pr_RateLimitDisabled :: bool
  pr_ExpiresAt :: "time option"

definition IsAdmin :: "Principal \<Rightarrow> bool" where
  "IsAdmin p \<longleftrightarrow> pr_Role p = ''admin''"

record TokenIdentity =
  ti_UserID :: int
  ti_Username :: string
  ti_Role :: string
  ti_AuthVersion :: int

record Claims = TokenIdentity +
  cl_IssuedAt :: time
  cl_ExpiresAt :: time

record LoginResult =
  lr_Token :: string
  lr_ExpiresAt :: time
  lr_Principal :: Principal

text \<open>The libraries: signing and parsing a token (with its signature, method and expiry checked at a time),
  a fresh password hash and the comparison with one, SHA-256 in hexadecimal, and raw URL Base64.\<close>

record crypto =
  cr_sign :: "Claims \<Rightarrow> string \<Rightarrow> string option"
  cr_parse :: "string \<Rightarrow> string \<Rightarrow> time \<Rightarrow> Claims option"
  cr_hash :: "string \<Rightarrow> string option"
  cr_compare :: "string \<Rightarrow> string \<Rightarrow> bool"
  cr_sha256 :: "string \<Rightarrow> string"
  cr_base64 :: "string \<Rightarrow> string option"

datatype repo_error = RepoNotFound | RepoUnavailable | RepoCanceled | RepoDeadline

record 's IdentityRepository =
  re_FindByNormalizedUsername :: "string \<Rightarrow> 's \<Rightarrow> repo_error + AuthUser"
  re_FindByID :: "int \<Rightarrow> 's \<Rightarrow> repo_error + AuthUser"
  re_FindByAPIKeyHash :: "string \<Rightarrow> 's \<Rightarrow> repo_error + AuthUser"
  re_SetPassword :: "time \<Rightarrow> int \<Rightarrow> string \<Rightarrow> bool \<Rightarrow> 's \<Rightarrow> repo_error + 's"
  re_UpdateLastLogin :: "int \<Rightarrow> time \<Rightarrow> 's \<Rightarrow> repo_error + 's"
  re_UpdateAPIKeyLastUsed :: "int \<Rightarrow> time \<Rightarrow> 's \<Rightarrow> repo_error + 's"

record AuthConfig =
  as_jwtSecret :: string
  as_tokenTTL :: duration

section \<open>Model: credentials and tokens\<close>

definition HashPassword :: "crypto \<Rightarrow> string \<Rightarrow> auth_error + string" where
  "HashPassword cr password =
     (if length (filter (\<lambda>c. \<not> (128 \<le> (of_char c :: nat) \<and> (of_char c :: nat) < 192)) password) < 8
      then Inl ErrPasswordPolicyViolation
      else case cr_hash cr password of None \<Rightarrow> Inl ErrLibrary | Some h \<Rightarrow> Inr h)"

definition CheckPassword :: "crypto \<Rightarrow> string \<Rightarrow> string \<Rightarrow> bool" where
  "CheckPassword cr hash password = (if hash = [] \<or> password = [] then False else cr_compare cr hash password)"

definition HashAPIKey :: "crypto \<Rightarrow> string \<Rightarrow> string" where
  "HashAPIKey cr key = cr_sha256 cr (trim_space key)"

definition ValidAPIKeyFormat :: "crypto \<Rightarrow> string \<Rightarrow> bool" where
  "ValidAPIKeyFormat cr key =
     (let key = trim_space key
      in if \<not> has_prefix key ''psk_'' then False
         else case cr_base64 cr (trim_prefix key ''psk_'') of None \<Rightarrow> False | Some decoded \<Rightarrow> length decoded = 32)"

text \<open>Times in a token are whole seconds.\<close>

definition GenerateUserToken :: "crypto \<Rightarrow> time \<Rightarrow> TokenIdentity \<Rightarrow> string \<Rightarrow> duration \<Rightarrow> auth_error + string" where
  "GenerateUserToken cr now identity secret expiry =
     (if ti_Username identity = [] then Inl ErrLibrary
      else if secret = [] then Inl ErrLibrary
      else if expiry \<le> 0 then Inl ErrLibrary
      else let claims = \<lparr>ti_UserID = ti_UserID identity, ti_Username = ti_Username identity, ti_Role = ti_Role identity,
                         ti_AuthVersion = ti_AuthVersion identity, cl_IssuedAt = time_truncate now Second,
                         cl_ExpiresAt = time_truncate (now + expiry) Second\<rparr>
           in case cr_sign cr claims secret of None \<Rightarrow> Inl ErrLibrary | Some token \<Rightarrow> Inr token)"

definition GenerateToken :: "crypto \<Rightarrow> time \<Rightarrow> string \<Rightarrow> string \<Rightarrow> duration \<Rightarrow> auth_error + string" where
  "GenerateToken cr now username secret expiry =
     GenerateUserToken cr now \<lparr>ti_UserID = 0, ti_Username = username, ti_Role = [], ti_AuthVersion = 0\<rparr> secret expiry"

definition ValidateToken :: "crypto \<Rightarrow> time \<Rightarrow> string \<Rightarrow> string \<Rightarrow> Claims option" where
  "ValidateToken cr now tokenString secret =
     (if tokenString = [] then None else if secret = [] then None else cr_parse cr tokenString secret now)"

section \<open>Model: the service\<close>

definition NormalizeUsername :: "string \<Rightarrow> string" where
  "NormalizeUsername val = to_lower (trim_space val)"

definition validateActive :: "AuthUser \<Rightarrow> time \<Rightarrow> auth_error option" where
  "validateActive user now =
     (if au_DeletedAt user \<noteq> None then Some ErrUserDeleted
      else if \<not> au_Enabled user then Some ErrUserDisabled
      else case au_ExpiresAt user of
             None \<Rightarrow> None
           | Some t \<Rightarrow> if \<not> t > now then Some ErrUserExpired else None)"

definition principalFromUser :: "AuthUser \<Rightarrow> Principal" where
  "principalFromUser user =
     \<lparr>pr_UserID = au_ID user, pr_Username = au_Username user, pr_Role = au_Role user,
      pr_MustChangePassword = au_MustChangePassword user, pr_RPSLimit = au_RPSLimit user, pr_RPMLimit = au_RPMLimit user,
      pr_RateLimitDisabled = au_RateLimitDisabled user, pr_ExpiresAt = au_ExpiresAt user\<rparr>"

definition mapRepositoryError :: "repo_error \<Rightarrow> auth_error \<Rightarrow> auth_error" where
  "mapRepositoryError err fallback =
     (if err = RepoCanceled \<or> err = RepoDeadline then ErrRepositoryUnavailable
      else if err = RepoUnavailable then ErrRepositoryUnavailable
      else fallback)"

definition Login :: "crypto \<Rightarrow> 's IdentityRepository \<Rightarrow> AuthConfig \<Rightarrow> time \<Rightarrow> string \<Rightarrow> string \<Rightarrow> 's \<Rightarrow>
    (auth_error + LoginResult) \<times> 's" where
  "Login cr repo cfg now username password s =
     (case re_FindByNormalizedUsername repo (NormalizeUsername username) s of
        Inl err \<Rightarrow> (Inl (mapRepositoryError err ErrInvalidCredentials), s)
      | Inr user \<Rightarrow>
          (case validateActive user now of
             Some err \<Rightarrow> (Inl err, s)
           | None \<Rightarrow>
               if \<not> CheckPassword cr (au_PasswordHash user) password then (Inl ErrInvalidCredentials, s)
               else (case re_UpdateLastLogin repo (au_ID user) now s of
                      Inl err \<Rightarrow> (Inl ErrRepositoryUnavailable, s)
                    | Inr s' \<Rightarrow>
                        (case GenerateUserToken cr now
                                \<lparr>ti_UserID = au_ID user, ti_Username = au_Username user, ti_Role = au_Role user,
                                 ti_AuthVersion = au_AuthVersion user\<rparr> (as_jwtSecret cfg) (as_tokenTTL cfg) of
                           Inl err \<Rightarrow> (Inl err, s')
                         | Inr token \<Rightarrow>
                             (Inr \<lparr>lr_Token = token, lr_ExpiresAt = now + as_tokenTTL cfg, lr_Principal = principalFromUser user\<rparr>, s')))))"

definition AuthenticateToken :: "crypto \<Rightarrow> 's IdentityRepository \<Rightarrow> AuthConfig \<Rightarrow> time \<Rightarrow> string \<Rightarrow> 's \<Rightarrow> auth_error + Principal" where
  "AuthenticateToken cr repo cfg now token s =
     (case ValidateToken cr now token (as_jwtSecret cfg) of
        None \<Rightarrow> Inl ErrInvalidCredentials
      | Some claims \<Rightarrow>
          if ti_UserID claims \<le> 0 then Inl ErrInvalidCredentials
          else (case re_FindByID repo (ti_UserID claims) s of
                 Inl err \<Rightarrow> Inl (mapRepositoryError err ErrInvalidCredentials)
               | Inr user \<Rightarrow>
                   (case validateActive user now of
                      Some err \<Rightarrow> Inl err
                    | None \<Rightarrow> if au_AuthVersion user \<noteq> ti_AuthVersion claims then Inl ErrTokenStale
                              else Inr (principalFromUser user))))"

definition AuthenticateAPIKey :: "crypto \<Rightarrow> 's IdentityRepository \<Rightarrow> time \<Rightarrow> string \<Rightarrow> 's \<Rightarrow> (auth_error + Principal) \<times> 's" where
  "AuthenticateAPIKey cr repo now key s =
     (if \<not> ValidAPIKeyFormat cr key then (Inl ErrInvalidAPIKey, s)
      else (case re_FindByAPIKeyHash repo (HashAPIKey cr key) s of
             Inl err \<Rightarrow> (Inl (mapRepositoryError err ErrInvalidAPIKey), s)
           | Inr user \<Rightarrow>
               (case validateActive user now of
                  Some err \<Rightarrow> (Inl err, s)
                | None \<Rightarrow>
                    if au_MustChangePassword user then (Inl ErrPasswordChangeRequired, s)
                    else (case re_UpdateAPIKeyLastUsed repo (au_ID user) now s of
                           Inl err \<Rightarrow> (Inl ErrRepositoryUnavailable, s)
                         | Inr s' \<Rightarrow> (Inr (principalFromUser user), s')))))"

definition ChangePassword :: "crypto \<Rightarrow> 's IdentityRepository \<Rightarrow> time \<Rightarrow> Principal \<Rightarrow> string \<Rightarrow> string \<Rightarrow> 's \<Rightarrow> auth_error + 's" where
  "ChangePassword cr repo now p currentPassword newPassword s =
     (case re_FindByID repo (pr_UserID p) s of
        Inl err \<Rightarrow> Inl (mapRepositoryError err ErrInvalidCredentials)
      | Inr user \<Rightarrow>
          (case validateActive user now of
             Some err \<Rightarrow> Inl err
           | None \<Rightarrow>
               if \<not> CheckPassword cr (au_PasswordHash user) currentPassword then Inl ErrInvalidCredentials
               else (case HashPassword cr newPassword of
                      Inl err \<Rightarrow> Inl err
                    | Inr hash \<Rightarrow>
                        (case re_SetPassword repo now (au_ID user) hash False s of
                           Inl err \<Rightarrow> Inl ErrRepositoryUnavailable
                         | Inr s' \<Rightarrow> Inr s'))))"

section \<open>Model: the repository over the account tables\<close>

definition authUser :: "User \<Rightarrow> AuthUser" where
  "authUser user =
     \<lparr>au_ID = us_ID user, au_Username = us_Username user, au_NormalizedUsername = us_NormalizedUsername user,
      au_PasswordHash = us_PasswordHash user, au_Role = us_Role user, au_Enabled = us_Enabled user,
      au_ExpiresAt = us_ExpiresAt user, au_MustChangePassword = us_MustChangePassword user, au_AuthVersion = us_AuthVersion user,
      au_RPSLimit = us_RPSLimit user, au_RPMLimit = us_RPMLimit user, au_RateLimitDisabled = us_RateLimitDisabled user,
      au_DeletedAt = us_DeletedAt user\<rparr>"

definition authStorageError :: "storage_error \<Rightarrow> repo_error" where
  "authStorageError err = (if err = ErrNotFound then RepoNotFound else RepoUnavailable)"

definition identity_repository :: "AccountStore IdentityRepository" where
  "identity_repository =
     \<lparr>re_FindByNormalizedUsername = (\<lambda>name st. map_sum authStorageError authUser (GetUserByNormalizedUsername name st)),
      re_FindByID = (\<lambda>i st. map_sum authStorageError authUser (GetUserByID i st)),
      re_FindByAPIKeyHash = (\<lambda>h st. map_sum authStorageError (\<lambda>(u, k). authUser u) (GetUserByAPIKeyHash h st)),
      re_SetPassword = (\<lambda>now i h m st. map_sum authStorageError snd (SetUserPassword now i h m now st)),
      re_UpdateLastLogin = (\<lambda>i t st. map_sum authStorageError id (UpdateUserLastLogin t t i t st)),
      re_UpdateAPIKeyLastUsed = (\<lambda>i t st. map_sum authStorageError id (UpdateAPIKeyLastUsed t i t st))\<rparr>"

section \<open>What the service relies on\<close>

text \<open>Two records of one user agree in everything that decides what the account may do.\<close>

definition same_authority :: "AuthUser \<Rightarrow> AuthUser \<Rightarrow> bool" where
  "same_authority u u' \<longleftrightarrow> au_ID u' = au_ID u \<and> au_Role u' = au_Role u \<and> au_Enabled u' = au_Enabled u
     \<and> au_ExpiresAt u' = au_ExpiresAt u \<and> au_DeletedAt u' = au_DeletedAt u
     \<and> au_MustChangePassword u' = au_MustChangePassword u \<and> au_PasswordHash u' = au_PasswordHash u"

text \<open>The contract of a repository: \<open>ok\<close> holds of its states and \<open>later\<close> relates a state to those that any
  operations may lead to. A user does not disappear, the authorization version never goes back, and while it
  stays the same so does the authority of the user; a new password moves it.\<close>

locale identity_laws =
  fixes repo :: "'s IdentityRepository" and ok :: "'s \<Rightarrow> bool" and later :: "'s \<Rightarrow> 's \<Rightarrow> bool"
  assumes later_ok: "ok s \<Longrightarrow> later s s' \<Longrightarrow> ok s'"
    and later_trans: "later s s' \<Longrightarrow> later s' s'' \<Longrightarrow> later s s''"
    and found_id: "ok s \<Longrightarrow> re_FindByID repo i s = Inr u \<Longrightarrow> au_ID u = i"
    and found_name: "ok s \<Longrightarrow> re_FindByNormalizedUsername repo n s = Inr u \<Longrightarrow> re_FindByID repo (au_ID u) s = Inr u"
    and found_key: "ok s \<Longrightarrow> re_FindByAPIKeyHash repo h s = Inr u \<Longrightarrow> re_FindByID repo (au_ID u) s = Inr u"
    and user_persists: "ok s \<Longrightarrow> later s s' \<Longrightarrow> re_FindByID repo i s = Inr u \<Longrightarrow>
      \<exists>u'. re_FindByID repo i s' = Inr u' \<and> au_AuthVersion u \<le> au_AuthVersion u'
         \<and> (au_AuthVersion u' = au_AuthVersion u \<longrightarrow> same_authority u u')"
    and password_set: "ok s \<Longrightarrow> re_SetPassword repo now i h m s = Inr s' \<Longrightarrow> re_FindByID repo i s = Inr u \<Longrightarrow>
      later s s' \<and> (\<exists>u'. re_FindByID repo i s' = Inr u' \<and> au_AuthVersion u < au_AuthVersion u')"
    and login_noted: "ok s \<Longrightarrow> re_UpdateLastLogin repo i t s = Inr s' \<Longrightarrow> later s s'"
begin

lemma token_sound:
  assumes "AuthenticateToken cr repo cfg now token s = Inr p"
  obtains claims u where "ValidateToken cr now token (as_jwtSecret cfg) = Some claims" "0 < ti_UserID claims"
    "re_FindByID repo (ti_UserID claims) s = Inr u" "validateActive u now = None" "au_AuthVersion u = ti_AuthVersion claims"
    "p = principalFromUser u"
  using assms by (auto simp: AuthenticateToken_def split: option.splits if_splits sum.splits)

lemma key_sound:
  assumes "AuthenticateAPIKey cr repo now key s = (Inr p, s')"
  obtains u where "ValidAPIKeyFormat cr key" "re_FindByAPIKeyHash repo (HashAPIKey cr key) s = Inr u" "validateActive u now = None"
    "\<not> au_MustChangePassword u" "p = principalFromUser u"
  using assms by (auto simp: AuthenticateAPIKey_def split: option.splits if_splits sum.splits)

lemma session_authority:
  assumes s: "ok s" and login: "Login cr repo cfg t0 name pw s = (Inr r, s1)" and later: "later s1 s2"
    and parse: "\<And>claims. cr_sign cr claims (as_jwtSecret cfg) = Some (lr_Token r) \<Longrightarrow>
        ValidateToken cr t (lr_Token r) (as_jwtSecret cfg) \<in> {None, Some claims}"
    and auth: "AuthenticateToken cr repo cfg t (lr_Token r) s2 = Inr p"
  obtains u u2 where "re_FindByNormalizedUsername repo (NormalizeUsername name) s = Inr u"
    "CheckPassword cr (au_PasswordHash u) pw" "re_FindByID repo (au_ID u) s2 = Inr u2" "same_authority u u2"
    "validateActive u2 t = None" "lr_Principal r = principalFromUser u" "p = principalFromUser u2"
proof -
  from login obtain u where u: "re_FindByNormalizedUsername repo (NormalizeUsername name) s = Inr u"
    and pw: "CheckPassword cr (au_PasswordHash u) pw" and s1: "re_UpdateLastLogin repo (au_ID u) t0 s = Inr s1"
    and tok: "GenerateUserToken cr t0 \<lparr>ti_UserID = au_ID u, ti_Username = au_Username u, ti_Role = au_Role u,
        ti_AuthVersion = au_AuthVersion u\<rparr> (as_jwtSecret cfg) (as_tokenTTL cfg) = Inr (lr_Token r)"
    and r: "lr_Principal r = principalFromUser u"
    by (auto simp: Login_def split: sum.splits option.splits if_splits)
  from tok obtain c where c: "cr_sign cr c (as_jwtSecret cfg) = Some (lr_Token r)" "ti_UserID c = au_ID u" "ti_AuthVersion c = au_AuthVersion u"
    by (auto simp: GenerateUserToken_def Let_def split: if_splits option.splits)
  from auth obtain claims u2 where a: "ValidateToken cr t (lr_Token r) (as_jwtSecret cfg) = Some claims"
    "re_FindByID repo (ti_UserID claims) s2 = Inr u2" "validateActive u2 t = None" "au_AuthVersion u2 = ti_AuthVersion claims"
    "p = principalFromUser u2" by (rule token_sound)
  have "claims = c" using parse [OF c(1)] a(1) by simp
  with a c have a2: "re_FindByID repo (au_ID u) s2 = Inr u2" "au_AuthVersion u2 = au_AuthVersion u" by simp_all
  have "later s s2" using login_noted [OF s s1] later by (rule later_trans)
  from user_persists [OF s this found_name [OF s u]] a2 have "same_authority u u2" by auto
  then show ?thesis using that u pw a2(1) a(3,5) r by blast
qed

lemma old_token_refused:
  assumes s: "ok s" and change: "ChangePassword cr repo now q cur new s = Inr s1" and later: "later s1 s2"
    and before: "AuthenticateToken cr repo cfg t token s = Inr p" and who: "pr_UserID p = pr_UserID q"
    and parse: "\<And>claims. ValidateToken cr t token (as_jwtSecret cfg) = Some claims \<Longrightarrow>
        ValidateToken cr t2 token (as_jwtSecret cfg) \<in> {None, Some claims}"
  shows "\<not> (\<exists>p2. AuthenticateToken cr repo cfg t2 token s2 = Inr p2)"
proof
  assume "\<exists>p2. AuthenticateToken cr repo cfg t2 token s2 = Inr p2"
  then obtain p2 where after: "AuthenticateToken cr repo cfg t2 token s2 = Inr p2" ..
  from before obtain c u where b: "ValidateToken cr t token (as_jwtSecret cfg) = Some c" "re_FindByID repo (ti_UserID c) s = Inr u"
    "au_AuthVersion u = ti_AuthVersion c" "p = principalFromUser u" by (rule token_sound)
  from after obtain c2 u2 where a: "ValidateToken cr t2 token (as_jwtSecret cfg) = Some c2"
    "re_FindByID repo (ti_UserID c2) s2 = Inr u2" "au_AuthVersion u2 = ti_AuthVersion c2" by (rule token_sound)
  have "c2 = c" using parse [OF b(1)] a(1) by simp
  have q: "pr_UserID q = ti_UserID c" using who b(4) found_id [OF s b(2)] by (simp add: principalFromUser_def)
  from change obtain h where set: "re_SetPassword repo now (ti_UserID c) h False s = Inr s1"
    using b(2) found_id [OF s b(2)] by (auto simp: ChangePassword_def q split: sum.splits option.splits if_splits)
  from password_set [OF s set b(2)] obtain u1 where u1: "later s s1" "re_FindByID repo (ti_UserID c) s1 = Inr u1"
    "au_AuthVersion u < au_AuthVersion u1" by blast
  from user_persists [OF later_ok [OF s u1(1)] later u1(2)] a \<open>c2 = c\<close> have "au_AuthVersion u1 \<le> au_AuthVersion u2" by auto
  then show False using a(3) b(3) u1(3) \<open>c2 = c\<close> by simp
qed

end

section \<open>The adapter fulfils the contract\<close>

lemma map_sum_Inr: "map_sum f g x = Inr y \<longleftrightarrow> (\<exists>z. x = Inr z \<and> y = g z)"
  by (cases x) auto

lemma repo_FindByID: "re_FindByID identity_repository i st = Inr u \<longleftrightarrow> (\<exists>v. map_of (db_users st) i = Some v \<and> u = authUser v)"
  by (auto simp: identity_repository_def GetUserByID_def map_sum_Inr split: option.splits)

lemma find_in_set: "List.find P xs = Some x \<Longrightarrow> x \<in> set xs \<and> P x"
  by (auto simp: find_Some_iff)

lemma user_change_authority:
  "user_change v v' \<Longrightarrow> au_AuthVersion (authUser v) \<le> au_AuthVersion (authUser v') \<and>
     (au_AuthVersion (authUser v') = au_AuthVersion (authUser v) \<longrightarrow> same_authority (authUser v) (authUser v'))"
  by (auto simp: user_change_def same_security_def same_authority_def authUser_def)

interpretation accounts_repo: identity_laws identity_repository accounts_ok "some_account_step\<^sup>*\<^sup>*"
proof unfold_locales
  fix s s' s'' :: AccountStore
  show "accounts_ok s \<Longrightarrow> some_account_step\<^sup>*\<^sup>* s s' \<Longrightarrow> accounts_ok s'" by (rule accounts.rtranclp_inv)
  show "some_account_step\<^sup>*\<^sup>* s s' \<Longrightarrow> some_account_step\<^sup>*\<^sup>* s' s'' \<Longrightarrow> some_account_step\<^sup>*\<^sup>* s s''" by (rule rtranclp_trans)
next
  fix s i u assume "accounts_ok s" "re_FindByID identity_repository i s = Inr u"
  then show "au_ID u = i" using user_row by (fastforce simp: repo_FindByID authUser_def)
next
  fix s n u assume s: "accounts_ok s" and "re_FindByNormalizedUsername identity_repository n s = Inr u"
  then obtain j v where v: "(j, v) \<in> set (db_users s)" "u = authUser v"
    by (auto simp: identity_repository_def GetUserByNormalizedUsername_def map_sum_Inr Let_def dest!: find_in_set
        split: option.splits if_splits)
  have m: "map_of (db_users s) j = Some v" using s v(1) by (simp add: accounts_ok_def users_ok_def)
  then show "re_FindByID identity_repository (au_ID u) s = Inr u" using user_row [OF s m] v(2) by (auto simp: repo_FindByID authUser_def)
next
  fix s h u assume s: "accounts_ok s" and "re_FindByAPIKeyHash identity_repository h s = Inr u"
  then obtain j v where m: "map_of (db_users s) j = Some v" "u = authUser v"
    by (auto simp: identity_repository_def GetUserByAPIKeyHash_def map_sum_Inr split: option.splits)
  then show "re_FindByID identity_repository (au_ID u) s = Inr u" using user_row [OF s m(1)] by (auto simp: repo_FindByID authUser_def)
next
  fix s s' i u assume "accounts_ok s" "some_account_step\<^sup>*\<^sup>* s s'" "re_FindByID identity_repository i s = Inr u"
  then show "\<exists>u'. re_FindByID identity_repository i s' = Inr u' \<and> au_AuthVersion u \<le> au_AuthVersion u'
      \<and> (au_AuthVersion u' = au_AuthVersion u \<longrightarrow> same_authority u u')"
    using account_run_change [of s s' i] user_change_authority by (fastforce simp: repo_FindByID)
next
  fix s s' now i h m u
  assume s: "accounts_ok s" and set: "re_SetPassword identity_repository now i h m s = Inr s'"
    and u: "re_FindByID identity_repository i s = Inr u"
  from set obtain w where w: "SetUserPassword now i h m now s = Inr (w, s')"
    by (auto simp: identity_repository_def map_sum_Inr)
  from u obtain v where v: "map_of (db_users s) i = Some v" "u = authUser v" by (auto simp: repo_FindByID)
  have "us_AuthVersion v < us_AuthVersion w \<and> map_of (db_users s') i = Some w"
    using w v(1) user_row [OF s v(1)]
    by (auto simp: SetUserPassword_def live_user_def put_user_def Let_def update_conv' split: if_splits)
  moreover have "some_account_step s s'" using account_step.set_password [OF w] by (auto simp: some_account_step_def)
  ultimately show "some_account_step\<^sup>*\<^sup>* s s' \<and> (\<exists>u'. re_FindByID identity_repository i s' = Inr u' \<and> au_AuthVersion u < au_AuthVersion u')"
    by (auto simp: repo_FindByID v(2) authUser_def)
next
  fix s s' i t assume "accounts_ok s" "re_UpdateLastLogin identity_repository i t s = Inr s'"
  then have "UpdateUserLastLogin t t i t s = Inr s'" by (auto simp: identity_repository_def map_sum_Inr)
  then have "some_account_step s s'" using account_step.last_login [of t t i t s s'] by (auto simp: some_account_step_def)
  then show "some_account_step\<^sup>*\<^sup>* s s'" by simp
qed

section \<open>Properties\<close>

lemma validateActive_IsActive: "validateActive (authUser u) now = None \<longleftrightarrow> IsActiveAt u now"
  by (auto simp: validateActive_def IsActiveAt_def authUser_def split: option.splits)

text \<open>C30: Who is authenticated is an active user of the tables: a token is accepted only when it verifies, names a
  user by a positive identifier (so a token of the single-user mode never is) and carries the user's current
  authorization version; an API key only when it is in the tables, is not revoked and belongs to a user who
  need not change the password. The principal has the identity, role and limits of that user.\<close>

theorem authenticated_principal:
  assumes st: "reachable no_accounts some_account_step st"
    and auth: "AuthenticateToken cr identity_repository cfg now token st = Inr p
      \<or> (\<exists>st'. AuthenticateAPIKey cr identity_repository now key st = (Inr p, st'))"
  shows "\<exists>u. map_of (db_users st) (pr_UserID p) = Some u \<and> IsActiveAt u now \<and> p = principalFromUser (authUser u)
    \<and> ((\<exists>c. cr_parse cr token (as_jwtSecret cfg) now = Some c \<and> 0 < ti_UserID c \<and> ti_UserID c = us_ID u
            \<and> ti_AuthVersion c = us_AuthVersion u)
       \<or> (ValidAPIKeyFormat cr key \<and> \<not> us_MustChangePassword u
          \<and> (\<exists>k. (us_ID u, k) \<in> set (db_keys st) \<and> ak_KeyHash k = trim_space (HashAPIKey cr key) \<and> ak_RevokedAt k = None)))"
  using auth
proof
  have ok: "accounts_ok st" using st by (rule accounts.reachable_inv)
  assume "AuthenticateToken cr identity_repository cfg now token st = Inr p"
  then obtain c v where c: "ValidateToken cr now token (as_jwtSecret cfg) = Some c" "0 < ti_UserID c"
    "re_FindByID identity_repository (ti_UserID c) st = Inr v" "validateActive v now = None" "au_AuthVersion v = ti_AuthVersion c"
    "p = principalFromUser v" by (rule accounts_repo.token_sound)
  then obtain u where u: "map_of (db_users st) (ti_UserID c) = Some u" "v = authUser u" by (auto simp: repo_FindByID)
  then have "us_ID u = ti_UserID c" using user_row [OF ok] by blast
  moreover have "IsActiveAt u now" using c(4) u(2) by (simp add: validateActive_IsActive)
  moreover have "cr_parse cr token (as_jwtSecret cfg) now = Some c" using c(1) by (auto simp: ValidateToken_def split: if_splits)
  ultimately show ?thesis using c(2,5,6) u by (intro exI [of _ u]) (auto simp: principalFromUser_def authUser_def)
next
  have ok: "accounts_ok st" using st by (rule accounts.reachable_inv)
  assume "\<exists>st'. AuthenticateAPIKey cr identity_repository now key st = (Inr p, st')"
  then obtain v where v: "ValidAPIKeyFormat cr key" "re_FindByAPIKeyHash identity_repository (HashAPIKey cr key) st = Inr v"
    "validateActive v now = None" "\<not> au_MustChangePassword v" "p = principalFromUser v" by (auto elim: accounts_repo.key_sound)
  then obtain j k u where k: "(j, k) \<in> set (db_keys st)" "ak_KeyHash k = trim_space (HashAPIKey cr key)" "ak_RevokedAt k = None"
    "map_of (db_users st) j = Some u" "v = authUser u"
    by (auto simp: identity_repository_def GetUserByAPIKeyHash_def map_sum_Inr dest!: find_in_set split: option.splits)
  have "us_ID u = j" using user_row [OF ok k(4)] by simp
  moreover have "IsActiveAt u now" using v(3) k(5) by (simp add: validateActive_IsActive)
  ultimately show ?thesis using v(1,4,5) k by (intro exI [of _ u]) (auto simp: principalFromUser_def authUser_def)
qed

definition demo_epoch :: time where
  "demo_epoch = 62135596800 * Second"

definition demo_claims :: Claims where
  "demo_claims = \<lparr>ti_UserID = 1, ti_Username = ''Ann  Lee'', ti_Role = ''admin'', ti_AuthVersion = 1,
     cl_IssuedAt = demo_epoch, cl_ExpiresAt = demo_epoch + Hour\<rparr>"

text \<open>A library in which one token, one password and one key are good.\<close>

definition demo_crypto :: crypto where
  "demo_crypto = \<lparr>cr_sign = (\<lambda>c secret. if c = demo_claims then Some ''token'' else None),
     cr_parse = (\<lambda>t secret now. if t = ''token'' \<and> now < demo_epoch + Hour then Some demo_claims else None),
     cr_hash = (\<lambda>pw. Some (''#'' @ pw)), cr_compare = (\<lambda>h pw. pw = ''secret''), cr_sha256 = (\<lambda>s. s), cr_base64 = (\<lambda>s. None)\<rparr>"

definition demo_auth_config :: AuthConfig where
  "demo_auth_config = \<lparr>as_jwtSecret = ''key'', as_tokenTTL = Hour\<rparr>"

definition demo_principal :: Principal where
  "demo_principal = \<lparr>pr_UserID = 1, pr_Username = ''Ann  Lee'', pr_Role = ''admin'', pr_MustChangePassword = False,
     pr_RPSLimit = 3, pr_RPMLimit = 60, pr_RateLimitDisabled = False, pr_ExpiresAt = None\<rparr>"

lemma demo_auth: "AuthenticateToken demo_crypto identity_repository demo_auth_config (demo_epoch + 30) ''token'' demo_accounts = Inr demo_principal"
  by code_simp

theorem authenticated_principal_witness:
  "AuthenticateToken demo_crypto identity_repository demo_auth_config (demo_epoch + 30) ''token'' demo_accounts = Inr demo_principal
   \<and> (\<exists>u. map_of (db_users demo_accounts) 1 = Some u \<and> IsActiveAt u (demo_epoch + 30))"
  using authenticated_principal [OF demo_accounts_reachable, of demo_crypto demo_auth_config "demo_epoch + 30" "''token''" demo_principal] demo_auth
  by (auto simp: demo_principal_def)

text \<open>C19: A session shows the account as it is: whenever the token of a successful login is accepted later, after
  any operations on the accounts, the account is still active and its role, expiry, duty to change the
  password and password are those of the login. The signature library gives back what was signed, or rejects.\<close>

theorem session_reflects_account:
  assumes "reachable no_accounts some_account_step st"
    and "Login cr identity_repository cfg t0 name pw st = (Inr r, st1)"
    and "some_account_step\<^sup>*\<^sup>* st1 st2"
    and "\<forall>c. cr_sign cr c (as_jwtSecret cfg) = Some (lr_Token r) \<longrightarrow> cr_parse cr (lr_Token r) (as_jwtSecret cfg) t \<in> {None, Some c}"
    and "AuthenticateToken cr identity_repository cfg t (lr_Token r) st2 = Inr p"
  shows "pr_UserID p = pr_UserID (lr_Principal r) \<and> pr_Role p = pr_Role (lr_Principal r)
    \<and> pr_ExpiresAt p = pr_ExpiresAt (lr_Principal r) \<and> pr_MustChangePassword p = pr_MustChangePassword (lr_Principal r)
    \<and> (\<exists>u. map_of (db_users st2) (pr_UserID p) = Some u \<and> IsActiveAt u t \<and> CheckPassword cr (us_PasswordHash u) pw)"
proof -
  have ok: "accounts_ok st" using assms(1) by (rule accounts.reachable_inv)
  have parse: "ValidateToken cr t (lr_Token r) (as_jwtSecret cfg) \<in> {None, Some c}"
    if "cr_sign cr c (as_jwtSecret cfg) = Some (lr_Token r)" for c
    using assms(4) that by (simp add: ValidateToken_def)
  obtain u u2 where u: "CheckPassword cr (au_PasswordHash u) pw" "re_FindByID identity_repository (au_ID u) st2 = Inr u2"
    "same_authority u u2" "validateActive u2 t = None" "lr_Principal r = principalFromUser u" "p = principalFromUser u2"
    by (rule accounts_repo.session_authority [OF ok assms(2,3) parse assms(5)])
  then obtain v where "map_of (db_users st2) (au_ID u) = Some v" "u2 = authUser v" by (auto simp: repo_FindByID)
  moreover from this u(4) have "IsActiveAt v t" by (simp add: validateActive_IsActive)
  ultimately show ?thesis using u by (auto simp: same_authority_def principalFromUser_def authUser_def)
qed

definition demo_login :: "(auth_error + LoginResult) \<times> AccountStore" where
  "demo_login = Login demo_crypto identity_repository demo_auth_config (demo_epoch + 20) ''Ann LEE '' ''secret'' demo_accounts"

theorem session_reflects_account_witness:
  "AuthenticateToken demo_crypto identity_repository demo_auth_config (demo_epoch + 30) (lr_Token (projr (fst demo_login))) (snd demo_login) = Inr demo_principal
   \<and> pr_Role demo_principal = pr_Role (lr_Principal (projr (fst demo_login)))"
proof -
  have l: "Login demo_crypto identity_repository demo_auth_config (demo_epoch + 20) ''Ann LEE '' ''secret'' demo_accounts = (Inr (projr (fst demo_login)), snd demo_login)"
    by code_simp
  have a: "AuthenticateToken demo_crypto identity_repository demo_auth_config (demo_epoch + 30) (lr_Token (projr (fst demo_login))) (snd demo_login) = Inr demo_principal"
    by code_simp
  have "\<forall>c. cr_sign demo_crypto c (as_jwtSecret demo_auth_config) = Some (lr_Token (projr (fst demo_login))) \<longrightarrow>
      cr_parse demo_crypto (lr_Token (projr (fst demo_login))) (as_jwtSecret demo_auth_config) (demo_epoch + 30) \<in> {None, Some c}"
    by (simp add: demo_crypto_def)
  from session_reflects_account [OF demo_accounts_reachable l rtranclp.rtrancl_refl this a] a show ?thesis by simp
qed

text \<open>C29: A new password ends every session: after a successful change of a user's password no token with which that
  user was authenticated before is accepted again, whatever happens to the accounts in between.\<close>

theorem password_change_ends_sessions:
  assumes "reachable no_accounts some_account_step st"
    and "ChangePassword cr identity_repository now q current new st = Inr st1" and "some_account_step\<^sup>*\<^sup>* st1 st2"
    and "AuthenticateToken cr identity_repository cfg t token st = Inr p" and "pr_UserID p = pr_UserID q"
    and "\<forall>c. cr_parse cr token (as_jwtSecret cfg) t = Some c \<longrightarrow> cr_parse cr token (as_jwtSecret cfg) t2 \<in> {None, Some c}"
  shows "\<exists>e. AuthenticateToken cr identity_repository cfg t2 token st2 = Inl e"
proof -
  have ok: "accounts_ok st" using assms(1) by (rule accounts.reachable_inv)
  have "\<not> (\<exists>p2. AuthenticateToken cr identity_repository cfg t2 token st2 = Inr p2)"
    using assms(6) by (intro accounts_repo.old_token_refused [OF ok assms(2-5)]) (auto simp: ValidateToken_def split: if_splits)
  then show ?thesis by (cases "AuthenticateToken cr identity_repository cfg t2 token st2") auto
qed

definition demo_changed :: AccountStore where
  "demo_changed = projr (ChangePassword demo_crypto identity_repository (demo_epoch + 40) demo_principal ''secret'' ''long enough'' demo_accounts)"

theorem password_change_ends_sessions_witness:
  "AuthenticateToken demo_crypto identity_repository demo_auth_config (demo_epoch + 30) ''token'' demo_accounts = Inr demo_principal
   \<and> AuthenticateToken demo_crypto identity_repository demo_auth_config (demo_epoch + 50) ''token'' demo_changed = Inl ErrTokenStale
   \<and> (\<exists>e. AuthenticateToken demo_crypto identity_repository demo_auth_config (demo_epoch + 50) ''token'' demo_changed = Inl e)"
proof -
  have "ChangePassword demo_crypto identity_repository (demo_epoch + 40) demo_principal ''secret'' ''long enough'' demo_accounts = Inr demo_changed"
    by code_simp
  from password_change_ends_sessions [OF demo_accounts_reachable this rtranclp.rtrancl_refl demo_auth refl, of "demo_epoch + 50"]
  have "\<exists>e. AuthenticateToken demo_crypto identity_repository demo_auth_config (demo_epoch + 50) ''token'' demo_changed = Inl e"
    by (simp add: demo_crypto_def)
  moreover have "AuthenticateToken demo_crypto identity_repository demo_auth_config (demo_epoch + 50) ''token'' demo_changed = Inl ErrTokenStale"
    by code_simp
  ultimately show ?thesis using demo_auth by simp
qed

end
