(* ===== verification/Http_Access.thy ===== *)
theory Http_Access
  imports Auth_Service
begin

text \<open>
  Who reaches a handler: the authentication middleware \<open>AuthMiddleware\<close> with its database and single-user
  modes, \<open>RequireAdminAuth\<close> and the mapping of authentication errors to answers, \<^verbatim>\<open>src/api/middleware.go\<close> and
  \<^verbatim>\<open>src/api/auth_runtime.go\<close>, composed in the order in which \<^verbatim>\<open>src/api/router.go\<close> installs them. A handler
  chain is a function that either answers, with a status and an error code, or passes the request on with
  what the middlewares have stored in its context.
\<close>

section \<open>Model: requests and answers\<close>

record HttpRequest =
  hq_Method :: string
  hq_Path :: string
  hq_APIKey :: string
  hq_Authorization :: string

record HttpContext =
  hx_principal :: "Principal option"
  hx_authType :: string
  hx_username :: "string option"

record Answer =
  an_Status :: int
  an_Code :: string

definition no_context :: HttpContext where
  "no_context = \<lparr>hx_principal = None, hx_authType = [], hx_username = None\<rparr>"

record AppConfig =
  ac_AuthEnabled :: bool
  ac_AuthUsers :: "(string \<times> string) list"
  ac_AuthJWTSecret :: string

section \<open>Model: authentication errors\<close>

definition respondAuthError :: "auth_error \<Rightarrow> Answer" where
  "respondAuthError err =
     (case err of
        ErrRepositoryUnavailable \<Rightarrow> \<lparr>an_Status = 503, an_Code = ''AUTH_SERVICE_UNAVAILABLE''\<rparr>
      | ErrUserDisabled \<Rightarrow> \<lparr>an_Status = 401, an_Code = ''AUTH_USER_DISABLED''\<rparr>
      | ErrUserExpired \<Rightarrow> \<lparr>an_Status = 401, an_Code = ''AUTH_USER_EXPIRED''\<rparr>
      | ErrUserDeleted \<Rightarrow> \<lparr>an_Status = 401, an_Code = ''AUTH_USER_DELETED''\<rparr>
      | ErrPasswordChangeRequired \<Rightarrow> \<lparr>an_Status = 403, an_Code = ''AUTH_PASSWORD_CHANGE_REQUIRED''\<rparr>
      | ErrPasswordPolicyViolation \<Rightarrow> \<lparr>an_Status = 400, an_Code = ''AUTH_PASSWORD_POLICY''\<rparr>
      | ErrTokenStale \<Rightarrow> \<lparr>an_Status = 401, an_Code = ''AUTH_TOKEN_STALE''\<rparr>
      | ErrInvalidAPIKey \<Rightarrow> \<lparr>an_Status = 401, an_Code = ''AUTH_API_KEY_INVALID''\<rparr>
      | ErrInvalidCredentials \<Rightarrow> \<lparr>an_Status = 401, an_Code = ''AUTH_INVALID_CREDENTIALS''\<rparr>
      | ErrLibrary \<Rightarrow> \<lparr>an_Status = 401, an_Code = ''AUTH_INVALID''\<rparr>)"

section \<open>Model: the middlewares\<close>

definition isPublicPath :: "string \<Rightarrow> bool" where
  "isPublicPath path \<longleftrightarrow>
     (if path = ''/api/auth/login'' \<or> path = ''/api/auth/logout'' \<or> path = ''/api/health'' \<or> path = ''/admin'' \<or> path = ''/admin/''
      then True else has_prefix path ''/admin/assets/'')"

definition bearerPrefix :: string where "bearerPrefix = ''Bearer ''"

definition setPrincipal :: "Principal \<Rightarrow> string \<Rightarrow> HttpContext \<Rightarrow> HttpContext" where
  "setPrincipal p authType c = c\<lparr>hx_principal := Some p, hx_authType := authType, hx_username := Some (pr_Username p)\<rparr>"

definition databaseAuthMiddleware ::
  "crypto \<Rightarrow> AuthConfig \<Rightarrow> time \<Rightarrow> HttpRequest \<Rightarrow> AccountStore \<Rightarrow> (Answer + HttpContext) \<times> AccountStore" where
  "databaseAuthMiddleware cr cfg now req st =
     (if isPublicPath (hq_Path req) then (Inr no_context, st)
      else if hq_Path req = ''/api/search'' \<and> hq_APIKey req \<noteq> []
        then (case AuthenticateAPIKey cr identity_repository now (hq_APIKey req) st of
                (Inl err, st') \<Rightarrow> (Inl (respondAuthError err), st')
              | (Inr p, st') \<Rightarrow> (Inr (setPrincipal p ''api_key'' no_context), st'))
      else if \<not> has_prefix (hq_Authorization req) bearerPrefix
        then (Inl \<lparr>an_Status = 401, an_Code = ''AUTH_TOKEN_MISSING''\<rparr>, st)
      else (case AuthenticateToken cr identity_repository cfg now (trim_space (trim_prefix (hq_Authorization req) bearerPrefix)) st of
              Inl err \<Rightarrow> (Inl (respondAuthError err), st)
            | Inr p \<Rightarrow>
                if pr_MustChangePassword p \<and> hq_Path req \<noteq> ''/api/auth/verify'' \<and> hq_Path req \<noteq> ''/api/auth/change-password''
                   \<and> hq_Path req \<noteq> ''/api/auth/logout''
                then (Inl (respondAuthError ErrPasswordChangeRequired), st)
                else (Inr (setPrincipal p ''web'' no_context), st)))"

definition legacyPublicPaths :: "string list" where
  "legacyPublicPaths = [''/api/auth/login'', ''/api/auth/logout'', ''/api/health'', ''/admin'']"

definition legacyAuthMiddleware :: "crypto \<Rightarrow> AppConfig \<Rightarrow> time \<Rightarrow> HttpRequest \<Rightarrow> Answer + HttpContext" where
  "legacyAuthMiddleware cr app now req =
     (if \<not> ac_AuthEnabled app then Inr no_context
      else if list_ex (has_prefix (hq_Path req)) legacyPublicPaths then Inr no_context
      else if hq_Authorization req = [] then Inl \<lparr>an_Status = 401, an_Code = ''AUTH_TOKEN_MISSING''\<rparr>
      else if \<not> has_prefix (hq_Authorization req) bearerPrefix then Inl \<lparr>an_Status = 401, an_Code = ''AUTH_TOKEN_INVALID_FORMAT''\<rparr>
      else case ValidateToken cr now (trim_prefix (hq_Authorization req) bearerPrefix) (ac_AuthJWTSecret app) of
             None \<Rightarrow> Inl \<lparr>an_Status = 401, an_Code = ''AUTH_TOKEN_INVALID''\<rparr>
           | Some claims \<Rightarrow> Inr (no_context\<lparr>hx_username := Some (ti_Username claims)\<rparr>))"

text \<open>The account service of database mode is present together with its configuration.\<close>

definition AuthMiddleware ::
  "crypto \<Rightarrow> AuthConfig option \<Rightarrow> AppConfig \<Rightarrow> time \<Rightarrow> HttpRequest \<Rightarrow> AccountStore \<Rightarrow> (Answer + HttpContext) \<times> AccountStore" where
  "AuthMiddleware cr service app now req st =
     (case service of
        Some cfg \<Rightarrow> databaseAuthMiddleware cr cfg now req st
      | None \<Rightarrow> (legacyAuthMiddleware cr app now req, st))"

definition RequireAdminAuth :: "crypto \<Rightarrow> AuthConfig option \<Rightarrow> AppConfig \<Rightarrow> time \<Rightarrow> HttpRequest \<Rightarrow> HttpContext \<Rightarrow> Answer + HttpContext" where
  "RequireAdminAuth cr service app now req ctx =
     (if service \<noteq> None
      then (case hx_principal ctx of
              None \<Rightarrow> Inl \<lparr>an_Status = 401, an_Code = ''AUTH_TOKEN_MISSING''\<rparr>
            | Some p \<Rightarrow> if \<not> IsAdmin p then Inl \<lparr>an_Status = 403, an_Code = ''AUTH_ADMIN_REQUIRED''\<rparr> else Inr ctx)
      else if \<not> ac_AuthEnabled app \<or> ac_AuthUsers app = [] then Inl \<lparr>an_Status = 503, an_Code = ''ADMIN_AUTH_NOT_CONFIGURED''\<rparr>
      else if hx_username ctx \<noteq> None then Inr ctx
      else if \<not> has_prefix (hq_Authorization req) bearerPrefix then Inl \<lparr>an_Status = 401, an_Code = ''AUTH_TOKEN_MISSING''\<rparr>
      else case ValidateToken cr now (trim_prefix (hq_Authorization req) bearerPrefix) (ac_AuthJWTSecret app) of
             None \<Rightarrow> Inl \<lparr>an_Status = 401, an_Code = ''AUTH_TOKEN_INVALID''\<rparr>
           | Some claims \<Rightarrow> Inr (ctx\<lparr>hx_username := Some (ti_Username claims)\<rparr>))"

text \<open>The chain in front of the handlers of the group \<open>/api/admin\<close>.\<close>

definition admin_chain ::
  "crypto \<Rightarrow> AuthConfig option \<Rightarrow> AppConfig \<Rightarrow> time \<Rightarrow> HttpRequest \<Rightarrow> AccountStore \<Rightarrow> (Answer + HttpContext) \<times> AccountStore" where
  "admin_chain cr service app now req st =
     (case AuthMiddleware cr service app now req st of
        (Inl answer, st') \<Rightarrow> (Inl answer, st')
      | (Inr ctx, st') \<Rightarrow> (RequireAdminAuth cr service app now req ctx, st'))"

section \<open>What the middlewares let through\<close>

lemma database_context:
  assumes "databaseAuthMiddleware cr cfg now req st = (Inr ctx, st')" and "\<not> isPublicPath (hq_Path req)"
  obtains (api_key) p where "hq_Path req = ''/api/search''" "AuthenticateAPIKey cr identity_repository now (hq_APIKey req) st = (Inr p, st')"
      "ctx = setPrincipal p ''api_key'' no_context"
  | (web) p where "AuthenticateToken cr identity_repository cfg now (trim_space (trim_prefix (hq_Authorization req) bearerPrefix)) st = Inr p"
      "ctx = setPrincipal p ''web'' no_context" "st' = st"
      "pr_MustChangePassword p \<Longrightarrow> hq_Path req \<in> {''/api/auth/verify'', ''/api/auth/change-password'', ''/api/auth/logout''}"
proof (cases "hq_Path req = ''/api/search'' \<and> hq_APIKey req \<noteq> []")
  case True
  then show ?thesis using assms api_key by (auto simp: databaseAuthMiddleware_def split: prod.splits sum.splits)
next
  case False
  then show ?thesis using assms web
    by (auto simp: databaseAuthMiddleware_def split: if_splits sum.splits)
qed

lemma prefix_not_public: "has_prefix path ''/api/admin/'' \<Longrightarrow> \<not> isPublicPath path \<and> path \<noteq> ''/api/search''
    \<and> path \<notin> {''/api/auth/verify'', ''/api/auth/change-password'', ''/api/auth/logout''}"
  by (auto simp: isPublicPath_def has_prefix_iff)

lemma prefix_not_legacy_public: "has_prefix path ''/api/admin/'' \<Longrightarrow> \<not> list_ex (has_prefix path) legacyPublicPaths"
  by (auto simp: legacyPublicPaths_def has_prefix_iff)

section \<open>Properties\<close>

text \<open>The session that a request presents: the principal of its bearer token.\<close>

definition session :: "crypto \<Rightarrow> AuthConfig \<Rightarrow> time \<Rightarrow> HttpRequest \<Rightarrow> AccountStore \<Rightarrow> auth_error + Principal" where
  "session cr cfg now req st =
     AuthenticateToken cr identity_repository cfg now (trim_space (trim_prefix (hq_Authorization req) bearerPrefix)) st"

lemma admin_chain_database:
  assumes "has_prefix (hq_Path req) ''/api/admin/''"
  shows "admin_chain cr (Some cfg) app now req st =
     (if \<not> has_prefix (hq_Authorization req) bearerPrefix then Inl \<lparr>an_Status = 401, an_Code = ''AUTH_TOKEN_MISSING''\<rparr>
      else (case session cr cfg now req st of
              Inl err \<Rightarrow> Inl (respondAuthError err)
            | Inr p \<Rightarrow>
                if pr_MustChangePassword p then Inl (respondAuthError ErrPasswordChangeRequired)
                else if \<not> IsAdmin p then Inl \<lparr>an_Status = 403, an_Code = ''AUTH_ADMIN_REQUIRED''\<rparr>
                else Inr (setPrincipal p ''web'' no_context)), st)"
  using prefix_not_public [OF assms]
  by (auto simp: admin_chain_def AuthMiddleware_def databaseAuthMiddleware_def RequireAdminAuth_def session_def setPrincipal_def
      split: sum.splits)

lemma session_error: "session cr cfg now req st = Inl err \<Longrightarrow> an_Status (respondAuthError err) = 401"
  by (auto simp: session_def AuthenticateToken_def validateActive_def mapRepositoryError_def respondAuthError_def identity_repository_def
      GetUserByID_def authStorageError_def map_sum_def split: option.splits if_splits sum.splits)

text \<open>C21: An administration handler is reached only by an administrator. With the account database the request carries
  a token whose user is active now, has the role and need not change the password, and the handler sees that
  principal; an API key never suffices. Without the database the single-user mode must be configured and the
  token must verify; nothing is open when authentication is switched off.\<close>

theorem admin_access:
  assumes st: "reachable no_accounts some_account_step st" and path: "has_prefix (hq_Path req) ''/api/admin/''"
    and chain: "admin_chain cr service app now req st = (Inr ctx, st')"
  shows "st' = st \<and>
    (case service of
       Some cfg \<Rightarrow> \<exists>u c. map_of (db_users st) (us_ID u) = Some u \<and> IsEffectiveAdminAt u now \<and> \<not> us_MustChangePassword u
          \<and> hx_principal ctx = Some (principalFromUser (authUser u)) \<and> hx_authType ctx = ''web''
          \<and> cr_parse cr (trim_space (trim_prefix (hq_Authorization req) bearerPrefix)) (as_jwtSecret cfg) now = Some c
          \<and> ti_UserID c = us_ID u \<and> ti_AuthVersion c = us_AuthVersion u
     | None \<Rightarrow> ac_AuthEnabled app \<and> ac_AuthUsers app \<noteq> []
          \<and> ValidateToken cr now (trim_prefix (hq_Authorization req) bearerPrefix) (ac_AuthJWTSecret app) \<noteq> None)"
proof (cases service)
  case None
  then show ?thesis using chain prefix_not_legacy_public [OF path]
    by (auto simp: admin_chain_def AuthMiddleware_def legacyAuthMiddleware_def RequireAdminAuth_def no_context_def
        split: if_splits option.splits)
next
  case (Some cfg)
  have ok: "accounts_ok st" using st by (rule accounts.reachable_inv)
  from chain have "session cr cfg now req st = Inr (the (hx_principal ctx))" "\<not> pr_MustChangePassword (the (hx_principal ctx))"
    "IsAdmin (the (hx_principal ctx))" "hx_principal ctx \<noteq> None" "hx_authType ctx = ''web''" "st' = st"
    by (auto simp: Some admin_chain_database [OF path] setPrincipal_def split: if_splits sum.splits)
  then obtain p where p: "session cr cfg now req st = Inr p" "\<not> pr_MustChangePassword p" "IsAdmin p" "hx_principal ctx = Some p"
    "hx_authType ctx = ''web''" "st' = st" by auto
  from p(1) obtain c v where c: "ValidateToken cr now (trim_space (trim_prefix (hq_Authorization req) bearerPrefix)) (as_jwtSecret cfg) = Some c"
    "re_FindByID identity_repository (ti_UserID c) st = Inr v" "validateActive v now = None" "au_AuthVersion v = ti_AuthVersion c"
    "p = principalFromUser v" unfolding session_def by (rule accounts_repo.token_sound)
  then obtain u where u: "map_of (db_users st) (ti_UserID c) = Some u" "v = authUser u" by (auto simp: repo_FindByID)
  have id: "us_ID u = ti_UserID c" using user_row [OF ok u(1)] by simp
  have "IsEffectiveAdminAt u now \<and> \<not> us_MustChangePassword u"
    using c(3) p(2,3) u(2) c(5) by (simp add: IsEffectiveAdminAt_def validateActive_IsActive IsAdmin_def principalFromUser_def)
       (simp add: authUser_def)
  moreover have "cr_parse cr (trim_space (trim_prefix (hq_Authorization req) bearerPrefix)) (as_jwtSecret cfg) now = Some c"
    using c(1) by (auto simp: ValidateToken_def split: if_splits)
  moreover have "us_AuthVersion u = ti_AuthVersion c" using c(4) u(2) by (simp add: authUser_def)
  ultimately show ?thesis using u id c(5) p(4,5,6) by (auto simp: Some intro!: exI [of _ u] exI [of _ c])
qed

definition demo_admin_request :: "string \<Rightarrow> HttpRequest" where
  "demo_admin_request path = \<lparr>hq_Method = ''GET'', hq_Path = path, hq_APIKey = ''psk_x'', hq_Authorization = ''Bearer token''\<rparr>"

definition demo_app_config :: AppConfig where
  "demo_app_config = \<lparr>ac_AuthEnabled = False, ac_AuthUsers = [], ac_AuthJWTSecret = ''key''\<rparr>"

definition demo_context :: HttpContext where
  "demo_context = setPrincipal demo_principal ''web'' no_context"

theorem admin_access_witness:
  "admin_chain demo_crypto (Some demo_auth_config) demo_app_config (demo_epoch + 30) (demo_admin_request ''/api/admin/users'') demo_accounts = (Inr demo_context, demo_accounts)
   \<and> (\<exists>u. IsEffectiveAdminAt u (demo_epoch + 30) \<and> hx_principal demo_context = Some (principalFromUser (authUser u)))
   \<and> fst (admin_chain demo_crypto None demo_app_config (demo_epoch + 30) (demo_admin_request ''/api/admin/users'') demo_accounts)
       = Inl \<lparr>an_Status = 503, an_Code = ''ADMIN_AUTH_NOT_CONFIGURED''\<rparr>"
proof -
  have c: "admin_chain demo_crypto (Some demo_auth_config) demo_app_config (demo_epoch + 30) (demo_admin_request ''/api/admin/users'') demo_accounts = (Inr demo_context, demo_accounts)"
    by code_simp
  have p: "has_prefix (hq_Path (demo_admin_request ''/api/admin/users'')) ''/api/admin/''" by code_simp
  have n: "fst (admin_chain demo_crypto None demo_app_config (demo_epoch + 30) (demo_admin_request ''/api/admin/users'') demo_accounts)
       = Inl \<lparr>an_Status = 503, an_Code = ''ADMIN_AUTH_NOT_CONFIGURED''\<rparr>" by code_simp
  show ?thesis using admin_access [OF demo_accounts_reachable p c] c n by auto
qed

text \<open>How administration requests are refused with the account database: with 403 exactly when the token is that
  of an active user who is not an administrator or still has to change the password, and with 401 exactly when
  the request presents no valid session.\<close>

theorem admin_refusals:
  assumes "has_prefix (hq_Path req) ''/api/admin/''"
  shows "(case fst (admin_chain cr (Some cfg) app now req st) of
      Inr ctx \<Rightarrow> \<exists>p. session cr cfg now req st = Inr p \<and> IsAdmin p \<and> \<not> pr_MustChangePassword p \<and> hx_principal ctx = Some p
    | Inl answer \<Rightarrow>
        (an_Status answer = 403 \<and> has_prefix (hq_Authorization req) bearerPrefix
           \<and> (\<exists>p. session cr cfg now req st = Inr p \<and> (pr_MustChangePassword p \<or> \<not> IsAdmin p)
                \<and> an_Code answer = (if pr_MustChangePassword p then ''AUTH_PASSWORD_CHANGE_REQUIRED'' else ''AUTH_ADMIN_REQUIRED'')))
        \<or> (an_Status answer = 401
           \<and> (\<not> has_prefix (hq_Authorization req) bearerPrefix
              \<or> (\<exists>err. session cr cfg now req st = Inl err \<and> an_Code answer = an_Code (respondAuthError err)))))"
  by (auto simp: admin_chain_database [OF assms] setPrincipal_def session_error respondAuthError_def [of ErrPasswordChangeRequired]
      split: sum.splits)

theorem admin_refusals_witness:
  "fst (admin_chain demo_crypto (Some demo_auth_config) demo_app_config (demo_epoch + 30) (demo_admin_request ''/api/admin/users'') demo_changed)
     = Inl \<lparr>an_Status = 401, an_Code = ''AUTH_TOKEN_STALE''\<rparr>
   \<and> (\<exists>err. session demo_crypto demo_auth_config (demo_epoch + 30) (demo_admin_request ''/api/admin/users'') demo_changed = Inl err)"
proof -
  have p: "has_prefix (hq_Path (demo_admin_request ''/api/admin/users'')) ''/api/admin/''" by code_simp
  have r: "fst (admin_chain demo_crypto (Some demo_auth_config) demo_app_config (demo_epoch + 30) (demo_admin_request ''/api/admin/users'') demo_changed)
     = Inl \<lparr>an_Status = 401, an_Code = ''AUTH_TOKEN_STALE''\<rparr>" by code_simp
  have b: "has_prefix (hq_Authorization (demo_admin_request ''/api/admin/users'')) bearerPrefix" by code_simp
  from admin_refusals [where cr = demo_crypto and cfg = demo_auth_config and app = demo_app_config and now = "demo_epoch + 30" and st = demo_changed, OF p] r b show ?thesis by auto
qed

end
