(* ===== verification/Result_Filter.thy ===== *)
theory Result_Filter
  imports Search_Results
begin

text \<open>
  The include and exclude filter of the search interface, \<^verbatim>\<open>src/api/filter.go\<close>: a response is reduced to the
  links, or results, whose text contains none of the excluded and one of the included keywords. The table
  of links by type is filtered type by type, so the order in which Go iterates it does not matter.
\<close>

section \<open>Model\<close>

record FilterConfig =
  fi_Include :: "string list"
  fi_Exclude :: "string list"

definition matchFilter :: "string \<Rightarrow> string list \<Rightarrow> string list \<Rightarrow> bool" where
  "matchFilter s includeKeywords excludeKeywords =
     (let lowerText = to_lower s
      in if list_ex (contains lowerText) excludeKeywords then False
         else if includeKeywords \<noteq> [] then list_ex (contains lowerText) includeKeywords
         else True)"

fun filter_types :: "string list \<Rightarrow> string list \<Rightarrow> MergedLinks \<Rightarrow> MergedLinks" where
  "filter_types inc exc [] = []"
| "filter_types inc exc ((linkType, links) # m) =
     (let filteredLinks = filter (\<lambda>link. matchFilter (ml_Note link) inc exc) links
      in if filteredLinks \<noteq> [] then (linkType, filteredLinks) # filter_types inc exc m else filter_types inc exc m)"

definition filterMergedByType :: "MergedLinks option \<Rightarrow> string list \<Rightarrow> string list \<Rightarrow> MergedLinks option" where
  "filterMergedByType mergedLinks inc exc = map_option (filter_types inc exc) mergedLinks"

definition link_text :: "SearchResult \<Rightarrow> Link \<Rightarrow> string" where
  "link_text r link = (if ln_WorkTitle link = [] then sr_Title r else ln_WorkTitle link)"

fun filter_result_list :: "string list \<Rightarrow> string list \<Rightarrow> SearchResult list \<Rightarrow> SearchResult list" where
  "filter_result_list inc exc [] = []"
| "filter_result_list inc exc (r # rs) =
     (if \<not> matchFilter (sr_Title r) inc exc then filter_result_list inc exc rs
      else let filteredLinks = filter (\<lambda>link. matchFilter (link_text r link) inc exc) (sr_Links r)
           in if filteredLinks \<noteq> [] then r\<lparr>sr_Links := filteredLinks\<rparr> # filter_result_list inc exc rs
              else filter_result_list inc exc rs)"

definition filterResults :: "SearchResult list option \<Rightarrow> string list \<Rightarrow> string list \<Rightarrow> SearchResult list option" where
  "filterResults results inc exc = map_option (filter_result_list inc exc) results"

text \<open>\<open>len\<close> of a table that may be \<open>nil\<close>, summed over its groups.\<close>

definition count_links :: "MergedLinks option \<Rightarrow> int" where
  "count_links m = (case m of None \<Rightarrow> 0 | Some groups \<Rightarrow> foldl (\<lambda>total g. total + int (length (snd g))) 0 groups)"

definition count_results :: "SearchResult list option \<Rightarrow> int" where
  "count_results rs = (case rs of None \<Rightarrow> 0 | Some rs \<Rightarrow> int (length rs))"

definition applyResultFilter :: "'st SearchResponse \<Rightarrow> FilterConfig option \<Rightarrow> string \<Rightarrow> 'st SearchResponse" where
  "applyResultFilter response fil resultType =
     (case fil of
        None \<Rightarrow> response
      | Some f \<Rightarrow>
          if fi_Include f = [] \<and> fi_Exclude f = [] then response
          else let inc = map to_lower (fi_Include f); exc = map to_lower (fi_Exclude f)
               in if resultType = ''merged_by_type'' \<or> resultType = ''''
                  then let merged = filterMergedByType (rp_MergedByType response) inc exc
                       in response\<lparr>rp_MergedByType := merged, rp_Total := count_links merged\<rparr>
                  else if resultType = ''all'' \<or> resultType = ''results''
                  then let results = filterResults (rp_Results response) inc exc;
                           response = response\<lparr>rp_Results := results, rp_Total := count_results results\<rparr>
                       in if resultType = ''all''
                          then response\<lparr>rp_MergedByType := filterMergedByType (rp_MergedByType response) inc exc\<rparr>
                          else response
                  else response)"

section \<open>What passes the filter\<close>

text \<open>The meaning of a filter: case-insensitive occurrence, no excluded keyword and, where some are given, an
  included one.\<close>

definition occurs :: "string \<Rightarrow> string \<Rightarrow> bool" where
  "occurs kw s \<longleftrightarrow> (\<exists>a b. to_lower s = a @ to_lower kw @ b)"

definition passes :: "FilterConfig \<Rightarrow> string \<Rightarrow> bool" where
  "passes f s \<longleftrightarrow> (\<forall>kw\<in>set (fi_Exclude f). \<not> occurs kw s) \<and> (fi_Include f = [] \<or> (\<exists>kw\<in>set (fi_Include f). occurs kw s))"

lemma match_passes: "matchFilter s (map to_lower (fi_Include f)) (map to_lower (fi_Exclude f)) = passes f s"
  by (auto simp: matchFilter_def passes_def occurs_def contains_iff list_ex_iff Let_def)

abbreviation inc_of :: "FilterConfig \<Rightarrow> string list" where "inc_of f \<equiv> map to_lower (fi_Include f)"
abbreviation exc_of :: "FilterConfig \<Rightarrow> string list" where "exc_of f \<equiv> map to_lower (fi_Exclude f)"

lemma filter_types_spec:
  "filter_types (inc_of f) (exc_of f) m =
     filter (\<lambda>g. snd g \<noteq> []) (map (\<lambda>(t, ls). (t, filter (\<lambda>l. passes f (ml_Note l)) ls)) m)"
  by (induction m) (auto simp: match_passes Let_def)

definition reduced :: "FilterConfig \<Rightarrow> SearchResult \<Rightarrow> SearchResult" where
  "reduced f r = r\<lparr>sr_Links := filter (\<lambda>l. passes f (link_text r l)) (sr_Links r)\<rparr>"

lemma filter_result_list_spec:
  "filter_result_list (inc_of f) (exc_of f) rs =
     filter (\<lambda>r. sr_Links r \<noteq> []) (map (reduced f) (filter (\<lambda>r. passes f (sr_Title r)) rs))"
  by (induction rs) (auto simp: match_passes reduced_def Let_def)

lemma link_text_reduced [simp]: "link_text (reduced f r) = link_text r"
  by (rule ext) (simp add: link_text_def reduced_def)

lemma reduced_idem [simp]: "reduced f (reduced f r) = reduced f r"
proof -
  have "sr_Links (reduced f (reduced f r)) = sr_Links (reduced f r)"
    by (simp add: reduced_def [of f "reduced f r"]) (simp add: reduced_def)
  then show ?thesis by (simp add: reduced_def)
qed

lemma title_reduced [simp]: "sr_Title (reduced f r) = sr_Title r"
  by (simp add: reduced_def)

lemma filter_result_list_idem:
  "filter_result_list (inc_of f) (exc_of f) (filter_result_list (inc_of f) (exc_of f) rs) = filter_result_list (inc_of f) (exc_of f) rs"
  unfolding filter_result_list_spec by (induction rs) auto

lemma filter_types_idem:
  "filter_types (inc_of f) (exc_of f) (filter_types (inc_of f) (exc_of f) m) = filter_types (inc_of f) (exc_of f) m"
  unfolding filter_types_spec by (induction m) auto

lemma merged_links_filter: "merged_links (filter_types (inc_of f) (exc_of f) m) = filter (\<lambda>l. passes f (ml_Note l)) (merged_links m)"
  unfolding filter_types_spec merged_links_def by (induction m) auto

lemma sum_groups: "foldl (\<lambda>total g. total + int (length (snd g))) k m = k + int (length (merged_links m))"
  unfolding merged_links_def by (induction m arbitrary: k) auto

lemma count_links_Some [simp]: "count_links (Some m) = int (length (merged_links m))"
  by (simp add: count_links_def sum_groups)

lemma filter_types_set:
  "set (filter_types (inc_of f) (exc_of f) m) =
     {(t, shown) |t ls shown. (t, ls) \<in> set m \<and> shown = filter (\<lambda>l. passes f (ml_Note l)) ls \<and> shown \<noteq> []}"
  unfolding filter_types_spec by auto

section \<open>Properties\<close>

definition shows_merged :: "string \<Rightarrow> bool" where "shows_merged t \<longleftrightarrow> t \<in> {[], ''merged_by_type'', ''all''}"
definition shows_results :: "string \<Rightarrow> bool" where "shows_results t \<longleftrightarrow> t \<in> {''results'', ''all''}"

lemma applyResultFilter_merged:
  "fi_Include f \<noteq> [] \<or> fi_Exclude f \<noteq> [] \<Longrightarrow> rp_MergedByType (applyResultFilter r (Some f) t) =
     (if shows_merged t then map_option (filter_types (inc_of f) (exc_of f)) (rp_MergedByType r) else rp_MergedByType r)"
  by (auto simp: applyResultFilter_def shows_merged_def filterMergedByType_def Let_def)

lemma applyResultFilter_results:
  "fi_Include f \<noteq> [] \<or> fi_Exclude f \<noteq> [] \<Longrightarrow> rp_Results (applyResultFilter r (Some f) t) =
     (if shows_results t then map_option (filter_result_list (inc_of f) (exc_of f)) (rp_Results r) else rp_Results r)"
  by (auto simp: applyResultFilter_def shows_results_def filterResults_def Let_def)

lemma applyResultFilter_total:
  "fi_Include f \<noteq> [] \<or> fi_Exclude f \<noteq> [] \<Longrightarrow> rp_Total (applyResultFilter r (Some f) t) =
     (if shows_results t then count_results (rp_Results (applyResultFilter r (Some f) t))
      else if shows_merged t then count_links (rp_MergedByType (applyResultFilter r (Some f) t)) else rp_Total r)"
  by (auto simp: applyResultFilter_def shows_results_def shows_merged_def filterResults_def Let_def)

lemma applyResultFilter_rest:
  "applyResultFilter r fil t =
     r\<lparr>rp_Total := rp_Total (applyResultFilter r fil t), rp_Results := rp_Results (applyResultFilter r fil t),
       rp_MergedByType := rp_MergedByType (applyResultFilter r fil t)\<rparr>"
  by (auto simp: applyResultFilter_def Let_def split: option.split)

lemma applyResultFilter_idem:
  assumes f: "fi_Include f \<noteq> [] \<or> fi_Exclude f \<noteq> []"
  shows "applyResultFilter (applyResultFilter r (Some f) t) (Some f) t = applyResultFilter r (Some f) t" (is "?g ?r' = ?r'")
proof -
  have m: "rp_MergedByType (?g ?r') = rp_MergedByType ?r'"
    by (cases "rp_MergedByType r") (simp_all add: applyResultFilter_merged [OF f] filter_types_idem)
  have rs: "rp_Results (?g ?r') = rp_Results ?r'"
    by (cases "rp_Results r") (simp_all add: applyResultFilter_results [OF f] filter_result_list_idem)
  have "rp_Total (?g ?r') = rp_Total ?r'"
    by (simp add: applyResultFilter_total [OF f, of ?r'] m rs) (simp add: applyResultFilter_total [OF f, of r])
  with m rs show ?thesis by (subst applyResultFilter_rest) simp
qed

text \<open>C33: For a filter that is not empty and a known result type, the response shows exactly the links, per type
  and in order, whose note passes, no empty type, and exactly the results whose title passes, each with the
  links whose own title passes and at least one of them. The total counts what is shown, nothing else
  changes, and filtering again changes nothing.\<close>

theorem filtered_response:
  assumes f: "fi_Include f \<noteq> [] \<or> fi_Exclude f \<noteq> []" and r': "r' = applyResultFilter r (Some f) t"
  shows "(shows_merged t \<longrightarrow> rp_MergedByType r = Some m \<longrightarrow>
            (\<exists>m'. rp_MergedByType r' = Some m'
               \<and> set m' = {(ty, shown) |ty ls shown. (ty, ls) \<in> set m \<and> shown = filter (\<lambda>l. passes f (ml_Note l)) ls \<and> shown \<noteq> []}
               \<and> merged_links m' = filter (\<lambda>l. passes f (ml_Note l)) (merged_links m)
               \<and> (\<not> shows_results t \<longrightarrow> rp_Total r' = int (length (merged_links m')))))
       \<and> (shows_results t \<longrightarrow> rp_Results r = Some rs \<longrightarrow>
            rp_Results r' = Some (filter (\<lambda>x. sr_Links x \<noteq> []) (map (reduced f) (filter (\<lambda>x. passes f (sr_Title x)) rs)))
            \<and> rp_Total r' = count_results (rp_Results r'))
       \<and> r' = r\<lparr>rp_Total := rp_Total r', rp_Results := rp_Results r', rp_MergedByType := rp_MergedByType r'\<rparr>
       \<and> applyResultFilter r' (Some f) t = r'"
proof (intro conjI impI)
  assume "shows_merged t" "rp_MergedByType r = Some m"
  then show "\<exists>m'. rp_MergedByType r' = Some m'
      \<and> set m' = {(ty, shown) |ty ls shown. (ty, ls) \<in> set m \<and> shown = filter (\<lambda>l. passes f (ml_Note l)) ls \<and> shown \<noteq> []}
      \<and> merged_links m' = filter (\<lambda>l. passes f (ml_Note l)) (merged_links m)
      \<and> (\<not> shows_results t \<longrightarrow> rp_Total r' = int (length (merged_links m')))"
    by (simp add: r' applyResultFilter_merged [OF f] filter_types_set merged_links_filter applyResultFilter_total [OF f])
next
  assume "shows_results t" "rp_Results r = Some rs"
  then show "rp_Results r' = Some (filter (\<lambda>x. sr_Links x \<noteq> []) (map (reduced f) (filter (\<lambda>x. passes f (sr_Title x)) rs)))"
    and "rp_Total r' = count_results (rp_Results r')"
    by (simp_all add: r' applyResultFilter_results [OF f] filter_result_list_spec applyResultFilter_total [OF f])
next
  show "r' = r\<lparr>rp_Total := rp_Total r', rp_Results := rp_Results r', rp_MergedByType := rp_MergedByType r'\<rparr>"
    unfolding r' by (rule applyResultFilter_rest)
  show "applyResultFilter r' (Some f) t = r'"
    unfolding r' using f by (rule applyResultFilter_idem)
qed

definition demo_merged :: "string \<Rightarrow> MergedLink" where
  "demo_merged note = \<lparr>ml_URL = ''u'' @ note, ml_Password = [], ml_Note = note, ml_Datetime = 0, ml_Source = [],
     ml_SubSource = [], ml_Images = []\<rparr>"

definition demo_response :: "unit SearchResponse" where
  "demo_response = \<lparr>rp_Total = 3, rp_Results = None,
     rp_MergedByType = Some [(''quark'', [demo_merged ''Movie HD'', demo_merged ''movie cam'']), (''uc'', [demo_merged ''song''])],
     rp_Completion = ''complete'', rp_PartialSources = [], rp_SourceStatuses = None, rp_Execution = None, rp_StopReason = [],
     rp_ElapsedMS = 0\<rparr>"

definition demo_filter :: FilterConfig where
  "demo_filter = \<lparr>fi_Include = [''MOVIE''], fi_Exclude = [''Cam'']\<rparr>"

theorem filtered_response_witness:
  "let r' = applyResultFilter demo_response (Some demo_filter) ''merged_by_type''
   in rp_MergedByType r' = Some [(''quark'', [demo_merged ''Movie HD''])] \<and> rp_Total r' = 1
      \<and> applyResultFilter r' (Some demo_filter) ''merged_by_type'' = r'"
proof -
  let ?r = "applyResultFilter demo_response (Some demo_filter) ''merged_by_type''"
  have "fi_Include demo_filter \<noteq> []" by code_simp
  then have "applyResultFilter ?r (Some demo_filter) ''merged_by_type'' = ?r"
    using filtered_response [of demo_filter ?r demo_response "''merged_by_type''"] by simp
  moreover have "rp_MergedByType ?r = Some [(''quark'', [demo_merged ''Movie HD''])] \<and> rp_Total ?r = 1" by code_simp
  ultimately show ?thesis by simp
qed

text \<open>Any other result type is answered with the links by type, as \<open>filterResponseByType\<close> does, but its filter
  is ignored.\<close>

lemma filter_ignored:
  assumes "\<not> shows_merged t" and "\<not> shows_results t"
  shows "applyResultFilter (filterResponseByType r t) fil t = r\<lparr>rp_Results := None\<rparr>"
  using assms by (auto simp: applyResultFilter_def filterResponseByType_def shows_merged_def shows_results_def Let_def split: option.split)

text \<open>An empty excluded keyword occurs in every text, so nothing passes.\<close>

lemma empty_exclude:
  assumes "[] \<in> set (fi_Exclude f)"
  shows "\<not> passes f s"
proof -
  have "to_lower s = [] @ to_lower [] @ to_lower s" by (simp add: to_lower_def)
  then have "occurs [] s" unfolding occurs_def by blast
  with assms show ?thesis by (auto simp: passes_def)
qed

end
