(* ===== verification/Search_Request.thy ===== *)
theory Search_Request
  imports Search_Results
begin

text \<open>
  What is passed between the interface and the search services: the request of \<^verbatim>\<open>src/service/search_context.go\<close>,
  its extension map and the status of a source (\<^verbatim>\<open>src/model/response.go\<close>), with the steps of
  \<^verbatim>\<open>src/service/search_service.go\<close> that resolve the sources of a request. A nil slice or map is \<open>None\<close>. The
  values of the extension map that the services look at are truth values and strings.
\<close>

section \<open>Model\<close>

record SearchIdentity =
  sid_Actor :: string
  sid_UserID :: int
  sid_Role :: string
  sid_AuthType :: string
  sid_APIKeyID :: int
  sid_RequestID :: string

record 'e ContextSearchRequest =
  cs_Keyword :: string
  cs_Channels :: "string list option"
  cs_Concurrency :: int
  cs_ForceRefresh :: bool
  cs_ResultType :: string
  cs_SourceType :: string
  cs_Plugins :: "string list option"
  cs_CloudTypes :: "string list option"
  cs_Ext :: 'e
  cs_Identity :: SearchIdentity
  cs_ExecutionBudget :: duration
  cs_requiresLiveTG :: bool

datatype 'j ext_value = ExtBool bool | ExtString string | ExtOther 'j

type_synonym 'j ext = "(string \<rightharpoonup> 'j ext_value) option"

type_synonym 'j service_request = "'j ext ContextSearchRequest"

definition ext_get :: "'j ext \<Rightarrow> string \<Rightarrow> 'j ext_value option" where
  "ext_get ext key = (case ext of None \<Rightarrow> None | Some m \<Rightarrow> m key)"

definition ext_deep :: "'j ext \<Rightarrow> bool" where
  "ext_deep ext \<longleftrightarrow> ext_get ext ''deep'' = Some (ExtBool True)"

text \<open>\<open>cloneExt\<close> and \<open>cloneSearchExt\<close>: never nil.\<close>

definition cloneExt :: "'j ext \<Rightarrow> string \<rightharpoonup> 'j ext_value" where
  "cloneExt ext = (case ext of None \<Rightarrow> Map.empty | Some m \<Rightarrow> m)"

record SourceStatus =
  ss_Completion :: string
  ss_Candidates :: int
  ss_Attempted :: int
  ss_Succeeded :: int
  ss_Failed :: int
  ss_Message :: string

type_synonym Response = "SourceStatus SearchResponse"

definition no_response :: Response where
  "no_response = \<lparr>rp_Total = 0, rp_Results = None, rp_MergedByType = None, rp_Completion = [], rp_PartialSources = [],
     rp_SourceStatuses = None, rp_Execution = None, rp_StopReason = [], rp_ElapsedMS = 0\<rparr>"

text \<open>The part of a request that \<open>resolveManagedSearchRequest\<close> reads and writes.\<close>

definition source_part :: "'j service_request \<Rightarrow> SearchRequest" where
  "source_part r = \<lparr>rq_SourceType = cs_SourceType r, rq_Channels = cs_Channels r, rq_Plugins = cs_Plugins r,
                    rq_deep = ext_deep (cs_Ext r), rq_requiresLiveTG = cs_requiresLiveTG r\<rparr>"

definition resolve_managed :: "bool \<Rightarrow> 'v Config \<Rightarrow> 'j service_request \<Rightarrow> channel_error + 'j service_request" where
  "resolve_managed tieredRollout snapshot r =
     (case resolveManagedSearchRequest tieredRollout (source_part r) snapshot of
        Inl e \<Rightarrow> Inl e
      | Inr s \<Rightarrow> Inr (r\<lparr>cs_Channels := rq_Channels s, cs_Plugins := rq_Plugins s, cs_requiresLiveTG := rq_requiresLiveTG s\<rparr>))"

datatype resolve_error = ResolveContext | ResolveChannel channel_error | ResolveNoSnapshot | ResolveIncompleteSnapshot

text \<open>\<open>ctxErr\<close>: the context has ended; \<open>managed\<close>: the service has a snapshot manager; \<open>acquired\<close>: its \<open>Acquire\<close>
  (\<open>None\<close> when it fails) with the snapshot, \<open>None\<close> when it is incomplete.\<close>

definition ResolveSearchRequest :: "bool \<Rightarrow> bool \<Rightarrow> 'v Config option option \<Rightarrow> bool \<Rightarrow> 'j service_request \<Rightarrow>
    resolve_error + 'j service_request" where
  "ResolveSearchRequest ctxErr managed acquired tieredRollout r =
     (if ctxErr then Inl ResolveContext
      else if \<not> managed
      then (case NormalizeList (cs_Channels r) of
              Inl e \<Rightarrow> Inl (ResolveChannel e)
            | Inr channels \<Rightarrow> Inr (r\<lparr>cs_Channels := channels\<rparr>))
      else (case acquired of
              None \<Rightarrow> Inl ResolveNoSnapshot
            | Some None \<Rightarrow> Inl ResolveIncompleteSnapshot
            | Some (Some snapshot) \<Rightarrow>
                (case resolve_managed tieredRollout snapshot r of
                   Inl e \<Rightarrow> Inl (ResolveChannel e)
                 | Inr r' \<Rightarrow> Inr r')))"

lemma resolve_managed_keeps:
  assumes "resolve_managed tiered snapshot r = Inr r'"
  shows "cs_Keyword r' = cs_Keyword r" "cs_Identity r' = cs_Identity r" "cs_ForceRefresh r' = cs_ForceRefresh r"
    "cs_ResultType r' = cs_ResultType r" "cs_SourceType r' = cs_SourceType r" "cs_CloudTypes r' = cs_CloudTypes r"
    "cs_Ext r' = cs_Ext r" "cs_ExecutionBudget r' = cs_ExecutionBudget r"
  using assms by (auto simp: resolve_managed_def split: sum.splits)

end
