(* ===== verification/Search_Api.thy ===== *)
theory Search_Api
  imports Http_Access Limiter Result_Filter Search_Request Go_Decimal
begin

text \<open>
  The search interface: \<open>SearchAccessMiddleware\<close> of \<^verbatim>\<open>src/api/search_access.go\<close>, which spends the user's rate
  limit, and \<open>SearchHandler\<close> of \<^verbatim>\<open>src/api/handler.go\<close>, which reads the request, asks the search provider and
  answers; in front of them the authentication middleware. The provider, the JSON decoders and the
  contexts' errors are arguments. The texts of error messages are left out; an error carries the chain of
  the sentinel errors it wraps.
\<close>

section \<open>Model: the request\<close>

text \<open>\<open>None\<close> is a \<open>nil\<close> slice.\<close>

record 'e SearchQuery =
  sq_Keyword :: string
  sq_Channels :: "string list option"
  sq_Concurrency :: int
  sq_ForceRefresh :: bool
  sq_ResultType :: string
  sq_SourceType :: string
  sq_Plugins :: "string list option"
  sq_Ext :: 'e
  sq_CloudTypes :: "string list option"
  sq_Filter :: "FilterConfig option"

definition StringToInt :: "string \<Rightarrow> int" where
  "StringToInt s = (if s = [] then 0 else case atoi s of None \<Rightarrow> 0 | Some i \<Rightarrow> i)"

text \<open>A query parameter that is neither empty nor a blank.\<close>

definition given :: "string \<Rightarrow> bool" where
  "given s \<longleftrightarrow> s \<noteq> [] \<and> s \<noteq> '' ''"

definition list_parameter :: "string \<Rightarrow> string list option" where
  "list_parameter s =
     (if given s
      then let parts = filter (\<lambda>p. p \<noteq> []) (map trim_space (split_byte CHR '','' s)) in if parts = [] then None else Some parts
      else None)"

datatype bad_request = BadExt | BadFilter | BadRead | BadBody

text \<open>The query string: the first value of a parameter, \<open>''''\<close> when absent, and whether it is present. \<open>decode_ext\<close>
  may decode to \<open>nil\<close>; \<open>no_ext\<close> is the empty map.\<close>

record 'e decoders =
  de_ext :: "string \<Rightarrow> 'e option option"
  de_no_ext :: 'e
  de_filter :: "string \<Rightarrow> FilterConfig option"
  de_body :: "string \<Rightarrow> 'e SearchQuery option"

definition parse_get :: "'e decoders \<Rightarrow> (string \<Rightarrow> string) \<Rightarrow> (string \<Rightarrow> bool) \<Rightarrow> bad_request + 'e SearchQuery" where
  "parse_get d query has =
     (let resultType = (if given (query ''res'') then query ''res'' else ''merge'');
          sourceType = (if given (query ''src'') then query ''src'' else ''all'');
          ext = (if given (query ''ext'')
                 then if query ''ext'' = ''{}'' then Some (de_no_ext d)
                      else case de_ext d (query ''ext'') of
                             None \<Rightarrow> None | Some None \<Rightarrow> Some (de_no_ext d) | Some (Some e) \<Rightarrow> Some e
                 else Some (de_no_ext d))
      in case ext of
           None \<Rightarrow> Inl BadExt
         | Some e \<Rightarrow>
             let req = \<lparr>sq_Keyword = query ''kw'', sq_Channels = list_parameter (query ''channels''),
                        sq_Concurrency = (if given (query ''conc'') then StringToInt (query ''conc'') else 0),
                        sq_ForceRefresh = (query ''refresh'' = ''true''), sq_ResultType = resultType, sq_SourceType = sourceType,
                        sq_Plugins = (if has ''plugins'' then list_parameter (query ''plugins'') else None), sq_Ext = e,
                        sq_CloudTypes = (if has ''cloud_types'' then list_parameter (query ''cloud_types'') else None),
                        sq_Filter = None\<rparr>
             in if given (query ''filter'')
                then (case de_filter d (query ''filter'') of None \<Rightarrow> Inl BadFilter | Some f \<Rightarrow> Inr (req\<lparr>sq_Filter := Some f\<rparr>))
                else Inr req)"

text \<open>The body is \<open>None\<close> when reading it fails.\<close>

definition parse_post :: "'e decoders \<Rightarrow> string option \<Rightarrow> bad_request + 'e SearchQuery" where
  "parse_post d body =
     (case body of
        None \<Rightarrow> Inl BadRead
      | Some text_ \<Rightarrow> (case de_body d text_ of None \<Rightarrow> Inl BadBody | Some req \<Rightarrow> Inr req))"

definition request_defaults :: "bool \<Rightarrow> string list option \<Rightarrow> 'e SearchQuery \<Rightarrow> 'e SearchQuery" where
  "request_defaults managed defaultChannels req =
     (let req = (if sq_Channels req = None \<and> \<not> managed then req\<lparr>sq_Channels := defaultChannels\<rparr> else req);
          req = (if sq_ResultType req = [] then req\<lparr>sq_ResultType := ''merged_by_type''\<rparr>
                 else if sq_ResultType req = ''merge'' then req\<lparr>sq_ResultType := ''merged_by_type''\<rparr> else req);
          req = (if sq_SourceType req = [] then req\<lparr>sq_SourceType := ''all''\<rparr> else req)
      in if sq_SourceType req = ''tg'' then req\<lparr>sq_Plugins := None\<rparr>
         else if sq_SourceType req = ''plugin'' then req\<lparr>sq_Channels := None\<rparr>
         else req)"

definition search_identity :: "HttpContext \<Rightarrow> string \<Rightarrow> SearchIdentity" where
  "search_identity ctx requestID =
     (case hx_principal ctx of
        None \<Rightarrow> \<lparr>sid_Actor = ''legacy'', sid_UserID = 0, sid_Role = [], sid_AuthType = hx_authType ctx, sid_APIKeyID = 0,
                 sid_RequestID = requestID\<rparr>
      | Some p \<Rightarrow> \<lparr>sid_Actor = (if IsAdmin p then ''admin'' else ''user''), sid_UserID = pr_UserID p, sid_Role = pr_Role p,
                   sid_AuthType = hx_authType ctx, sid_APIKeyID = 0, sid_RequestID = requestID\<rparr>)"

section \<open>Model: the answer\<close>

datatype sentinel = ErrOverloaded | ErrInvalidChannel | DeadlineExceeded | ContextCanceled

record 'st SearchReply =
  sy_Status :: int
  sy_Code :: string
  sy_Headers :: "(string \<times> string) list"
  sy_Count :: "int option"
  sy_Response :: "'st SearchResponse option"

definition plain_reply :: "int \<Rightarrow> string \<Rightarrow> 'st SearchReply" where
  "plain_reply status code = \<lparr>sy_Status = status, sy_Code = code, sy_Headers = [], sy_Count = None, sy_Response = None\<rparr>"

definition processing_response :: "'st SearchResponse" where
  "processing_response = \<lparr>rp_Total = 0, rp_Results = None, rp_MergedByType = Some [], rp_Completion = ''processing'',
     rp_PartialSources = [], rp_SourceStatuses = None, rp_Execution = None, rp_StopReason = [], rp_ElapsedMS = 0\<rparr>"

text \<open>The errors of the request's and of the response's context when the provider has returned.\<close>

definition search_error_reply :: "sentinel list \<Rightarrow> sentinel option \<Rightarrow> sentinel option \<Rightarrow> 'st SearchReply" where
  "search_error_reply err requestErr responseErr =
     (if ErrOverloaded \<in> set err then (plain_reply 429 ''SEARCH_OVERLOADED'')\<lparr>sy_Headers := [(''Retry-After'', ''2'')]\<rparr>
      else if ErrInvalidChannel \<in> set err then plain_reply 400 ''SEARCH_INVALID_CHANNEL''
      else if DeadlineExceeded \<in> set err \<and> requestErr = None \<and> responseErr = Some DeadlineExceeded
        then \<lparr>sy_Status = 202, sy_Code = [], sy_Headers = [(''Retry-After'', ''2'')], sy_Count = Some 0,
              sy_Response = Some processing_response\<rparr>
      else if ContextCanceled \<in> set err \<and> requestErr \<noteq> None then plain_reply 499 ''SEARCH_CLIENT_CANCELED''
      else if DeadlineExceeded \<in> set err then plain_reply 504 ''SEARCH_UPSTREAM_TIMEOUT''
      else plain_reply 500 ''SEARCH_FAILED'')"

definition IsPartial :: "'st SearchResponse \<Rightarrow> bool" where
  "IsPartial r \<longleftrightarrow> rp_Completion r = ''partial''"

definition search_result_reply :: "FilterConfig option \<Rightarrow> string \<Rightarrow> 'st SearchResponse \<Rightarrow> 'st SearchReply" where
  "search_result_reply fil resultType response =
     (let shown = (if fil \<noteq> None then applyResultFilter response fil resultType else response)
      in \<lparr>sy_Status = 200, sy_Code = [], sy_Headers = (if IsPartial shown then [(''Retry-After'', ''2'')] else []),
          sy_Count = Some (rp_Total response), sy_Response = Some shown\<rparr>)"

section \<open>Model: the handler\<close>

record search_env =
  sx_managed :: bool
  sx_defaultChannels :: "string list option"
  sx_executionTimeout :: duration
  sx_responseTimeout :: duration

definition searchExecutionTimeout :: "search_env \<Rightarrow> duration" where
  "searchExecutionTimeout env = (if sx_executionTimeout env > 0 then sx_executionTimeout env else 12 * Second)"

definition searchResponseTimeout :: "search_env \<Rightarrow> duration" where
  "searchResponseTimeout env = (if sx_responseTimeout env > 0 then sx_responseTimeout env else 25 * Second)"

definition response_timeout :: "search_env \<Rightarrow> duration" where
  "response_timeout env =
     (let budget = searchExecutionTimeout env; timeout = searchResponseTimeout env
      in if timeout \<le> budget then budget + 2 * Second else timeout)"

definition context_request :: "search_env \<Rightarrow> SearchIdentity \<Rightarrow> 'e SearchQuery \<Rightarrow> 'e ContextSearchRequest" where
  "context_request env ident req =
     \<lparr>cs_Keyword = sq_Keyword req, cs_Channels = sq_Channels req, cs_Concurrency = sq_Concurrency req,
      cs_ForceRefresh = sq_ForceRefresh req, cs_ResultType = sq_ResultType req, cs_SourceType = sq_SourceType req,
      cs_Plugins = sq_Plugins req, cs_CloudTypes = sq_CloudTypes req, cs_Ext = sq_Ext req, cs_Identity = ident,
      cs_ExecutionBudget = searchExecutionTimeout env, cs_requiresLiveTG = False\<rparr>"

text \<open>What the provider answers, with the errors of the two contexts at that moment.\<close>

type_synonym ('e, 'st) provider =
  "'e ContextSearchRequest \<Rightarrow> duration \<Rightarrow> (sentinel list + 'st SearchResponse) \<times> sentinel option \<times> sentinel option"

text \<open>The handler returns the reply and the request it has passed to the provider, if any.\<close>

definition SearchHandler ::
  "search_env \<Rightarrow> ('e, 'st) provider \<Rightarrow> HttpContext \<Rightarrow> string \<Rightarrow> bad_request + 'e SearchQuery \<Rightarrow>
     'st SearchReply \<times> 'e ContextSearchRequest option" where
  "SearchHandler env provider ctx requestID parsed =
     (case parsed of
        Inl bad \<Rightarrow> (plain_reply 400 [], None)
      | Inr req \<Rightarrow>
          if (case hx_principal ctx of
                None \<Rightarrow> False
              | Some p \<Rightarrow> sq_ForceRefresh req \<and> (hx_authType ctx = ''api_key'' \<or> \<not> IsAdmin p))
          then (plain_reply 403 ''SEARCH_REFRESH_FORBIDDEN'', None)
          else let req = request_defaults (sx_managed env) (sx_defaultChannels env) req;
                   asked = context_request env (search_identity ctx requestID) req
               in (case provider asked (response_timeout env) of
                     (Inl err, requestErr, responseErr) \<Rightarrow> (search_error_reply err requestErr responseErr, Some asked)
                   | (Inr response, _) \<Rightarrow> (search_result_reply (sq_Filter req) (sq_ResultType req) response, Some asked)))"

section \<open>Model: the rate limit\<close>

text \<open>\<open>d.Round(time.Second)\<close> for a duration that is not negative: to the nearest second, halves up.\<close>

definition round_seconds :: "duration \<Rightarrow> duration" where
  "round_seconds d = (let r = d mod Second in if r + r < Second then d - r else d + Second - r)"

definition unix_seconds :: "time \<Rightarrow> int" where
  "unix_seconds t = t div Second - 62135596800"

definition setRateLimitHeaders :: "LimitDecision \<Rightarrow> (string \<times> string) list" where
  "setRateLimitHeaders decision =
     (if ld_Unlimited decision then [(''RateLimit-Limit'', ''unlimited''), (''RateLimit-Remaining'', ''unlimited'')]
      else [(''RateLimit-Limit'', itoa (wl_Limit (ld_Second decision)) @ '';w=1, '' @ itoa (wl_Limit (ld_Minute decision)) @ '';w=60''),
            (''RateLimit-Remaining'', itoa (ld_Remaining decision))]
           @ (if \<not> is_zero_time (ld_ResetAt decision) then [(''RateLimit-Reset'', itoa (unix_seconds (ld_ResetAt decision)))] else [])
           @ (if ld_RetryAfter decision > 0
              then let seconds = go_div (round_seconds (ld_RetryAfter decision)) Second
                   in [(''Retry-After'', itoa (if seconds < 1 then 1 else seconds))]
              else []))"

definition limit_config :: "Principal \<Rightarrow> LimitConfig" where
  "limit_config p = \<lparr>lc_RequestsPerSecond = pr_RPSLimit p, lc_RequestsPerMinute = pr_RPMLimit p, lc_Unlimited = pr_RateLimitDisabled p\<rparr>"

text \<open>The middleware answers, or passes the request on with the headers it has set.\<close>

definition SearchAccess ::
  "time \<Rightarrow> HttpContext \<Rightarrow> Limiter option \<Rightarrow> ('st SearchReply + (string \<times> string) list) \<times> Limiter option" where
  "SearchAccess now ctx limiter =
     (case hx_principal ctx of
        None \<Rightarrow> (Inr [], limiter)
      | Some p \<Rightarrow>
          if pr_MustChangePassword p then (Inl (plain_reply 403 ''AUTH_PASSWORD_CHANGE_REQUIRED''), limiter)
          else (case limiter of
                  None \<Rightarrow> (Inr [], None)
                | Some l \<Rightarrow>
                    let (decision, l') = AllowWithConfig l now (itoa (pr_UserID p)) (limit_config p);
                        headers = setRateLimitHeaders decision
                    in if \<not> ld_Allowed decision
                       then (Inl ((plain_reply 429 ''RATE_LIMIT_EXCEEDED'')\<lparr>sy_Headers := headers\<rparr>), Some l')
                       else (Inr headers, Some l')))"

section \<open>Model: the chain of \<^verbatim>\<open>/api/search\<close>\<close>

record web_state =
  ws_accounts :: AccountStore
  ws_limiter :: "Limiter option"

record ('e, 'st) web =
  wb_crypto :: crypto
  wb_service :: "AuthConfig option"
  wb_app :: AppConfig
  wb_env :: "search_env"
  wb_provider :: "('e, 'st) provider"

definition search_chain ::
  "('e, 'st) web \<Rightarrow> time \<Rightarrow> HttpRequest \<Rightarrow> string \<Rightarrow> bad_request + 'e SearchQuery \<Rightarrow> web_state \<Rightarrow>
     ('st SearchReply \<times> 'e ContextSearchRequest option) \<times> web_state" where
  "search_chain w now req requestID parsed ws =
     (case AuthMiddleware (wb_crypto w) (wb_service w) (wb_app w) now req (ws_accounts ws) of
        (Inl answer, st) \<Rightarrow> ((plain_reply (an_Status answer) (an_Code answer), None), ws\<lparr>ws_accounts := st\<rparr>)
      | (Inr ctx, st) \<Rightarrow>
          (case SearchAccess now ctx (ws_limiter ws) of
             (Inl reply, l) \<Rightarrow> ((reply, None), ws\<lparr>ws_accounts := st, ws_limiter := l\<rparr>)
           | (Inr headers, l) \<Rightarrow>
               let (reply, asked) = SearchHandler (wb_env w) (wb_provider w) ctx requestID parsed
               in ((reply\<lparr>sy_Headers := headers @ sy_Headers reply\<rparr>, asked), ws\<lparr>ws_accounts := st, ws_limiter := l\<rparr>)))"

section \<open>What the chain lets through\<close>

lemma context_request_fields [simp]:
  "cs_Identity (context_request env ident req) = ident"
  "cs_ForceRefresh (context_request env ident req) = sq_ForceRefresh req"
  by (simp_all add: context_request_def)

lemma request_defaults_keep [simp]:
  "sq_ForceRefresh (request_defaults managed defaults req) = sq_ForceRefresh req"
  "sq_Filter (request_defaults managed defaults req) = sq_Filter req"
  by (simp_all add: request_defaults_def Let_def)

lemma SearchHandler_asked:
  assumes "SearchHandler env provider ctx requestID parsed = (reply, Some asked)"
  shows "cs_Identity asked = search_identity ctx requestID
    \<and> (\<forall>p. hx_principal ctx = Some p \<longrightarrow> cs_ForceRefresh asked \<longrightarrow> hx_authType ctx \<noteq> ''api_key'' \<and> IsAdmin p)"
  using assms by (auto simp: SearchHandler_def Let_def split: sum.splits prod.splits if_splits)

lemma search_chain_asked:
  fixes w :: "('e, 'st) web"
  assumes "search_chain w now req requestID parsed ws = ((reply, Some asked), ws')"
  obtains ctx st headers l reply' where
    "AuthMiddleware (wb_crypto w) (wb_service w) (wb_app w) now req (ws_accounts ws) = (Inr ctx, st)"
    "SearchAccess now ctx (ws_limiter ws) = (Inr headers :: 'st SearchReply + (string \<times> string) list, l)"
    "SearchHandler (wb_env w) (wb_provider w) ctx requestID parsed = (reply', Some asked)"
  using assms by (auto simp: search_chain_def Let_def split: prod.splits sum.splits)

lemma SearchAccess_forwards:
  assumes "SearchAccess now ctx limiter = (Inr headers, l)" and "hx_principal ctx = Some p"
  shows "\<not> pr_MustChangePassword p \<and> (\<forall>lim. limiter = Some lim \<longrightarrow> ld_Allowed (fst (AllowWithConfig lim now (itoa (pr_UserID p)) (limit_config p))))"
  using assms by (auto simp: SearchAccess_def Let_def split: prod.splits if_splits option.splits)

text \<open>Numerals determine their numbers.\<close>

lemma decimal_first: "hd (decimal n) \<noteq> CHR ''-''"
  using decimal_digits [of n] is_digit_no_sign [of "hd (decimal n)"] by (cases "decimal n") (auto dest: arg_cong [of _ _ length])

lemma decimal_inject: "decimal m = decimal n \<Longrightarrow> m = n"
  by (metis decimal_value_decimal)

lemma decimal_no_sign: "decimal m \<noteq> CHR ''-'' # s"
  using decimal_first [of m] by (metis list.sel(1))

lemma itoa_inject:
  assumes "itoa v = itoa w"
  shows "v = w"
proof (cases "v < 0")
  case True
  then have "w < 0" using assms decimal_no_sign [of "nat w"] by (metis itoa_def)
  with True assms have "nat (- v) = nat (- w)" by (intro decimal_inject) (simp add: itoa_def)
  with True \<open>w < 0\<close> show ?thesis by simp
next
  case False
  then have "\<not> w < 0" using assms decimal_no_sign [of "nat v"] by (metis itoa_def)
  with False assms have "nat v = nat w" by (intro decimal_inject) (simp add: itoa_def)
  with False \<open>\<not> w < 0\<close> show ?thesis by simp
qed

section \<open>Runs of requests\<close>

text \<open>A run: search requests with their times, between which the accounts may become anything.\<close>

datatype 'e event = Search_At time HttpRequest string "bad_request + 'e SearchQuery" | Accounts AccountStore

fun event_times :: "'e event list \<Rightarrow> time list" where
  "event_times [] = []"
| "event_times (Search_At now req rid parsed # evs) = now # event_times evs"
| "event_times (Accounts st # evs) = event_times evs"

text \<open>How many searches of one user reach the provider in the window of length \<open>len\<close> that starts at \<open>win\<close>.\<close>

fun searches_in :: "('e, 'st) web \<Rightarrow> duration \<Rightarrow> int \<Rightarrow> time \<Rightarrow> 'e event list \<Rightarrow> web_state \<Rightarrow> nat" where
  "searches_in w len uid win [] ws = 0"
| "searches_in w len uid win (Search_At now req rid parsed # evs) ws =
     (case search_chain w now req rid parsed ws of
        ((reply, asked), ws') \<Rightarrow>
          (case asked of
             None \<Rightarrow> 0
           | Some r \<Rightarrow> if sid_Actor (cs_Identity r) \<noteq> ''legacy'' \<and> sid_UserID (cs_Identity r) = uid \<and> time_truncate now len = win then 1 else 0)
          + searches_in w len uid win evs ws')"
| "searches_in w len uid win (Accounts st # evs) ws = searches_in w len uid win evs (ws\<lparr>ws_accounts := st\<rparr>)"

text \<open>Whenever the user is authenticated in the run, the limits are those of \<open>k\<close>.\<close>

fun limits_fixed :: "('e, 'st) web \<Rightarrow> int \<Rightarrow> LimitConfig \<Rightarrow> 'e event list \<Rightarrow> web_state \<Rightarrow> bool" where
  "limits_fixed w uid k [] ws = True"
| "limits_fixed w uid k (Search_At now req rid parsed # evs) ws =
     ((case AuthMiddleware (wb_crypto w) (wb_service w) (wb_app w) now req (ws_accounts ws) of
         (Inr ctx, st) \<Rightarrow>
           (case hx_principal ctx of Some p \<Rightarrow> pr_UserID p = uid \<longrightarrow> normalizeLimitConfig (limit_config p) = k | None \<Rightarrow> True)
       | (Inl answer, st) \<Rightarrow> True)
      \<and> limits_fixed w uid k evs (snd (search_chain w now req rid parsed ws)))"
| "limits_fixed w uid k (Accounts st # evs) ws = limits_fixed w uid k evs (ws\<lparr>ws_accounts := st\<rparr>)"

text \<open>What one request does with the limiter: nothing, or one call, and it searches only when the call is granted.\<close>

lemma search_chain_limiter:
  assumes "search_chain w now req rid parsed ws = ((reply, asked), ws')" and "ws_limiter ws = Some l"
  obtains (none) "ws_limiter ws' = Some l" "\<And>r. asked = Some r \<Longrightarrow> sid_Actor (cs_Identity r) = ''legacy''"
  | (call) ctx st p where "AuthMiddleware (wb_crypto w) (wb_service w) (wb_app w) now req (ws_accounts ws) = (Inr ctx, st)"
      "hx_principal ctx = Some p"
      "ws_limiter ws' = Some (snd (AllowWithConfig l now (itoa (pr_UserID p)) (limit_config p)))"
      "\<And>r. asked = Some r \<Longrightarrow> sid_UserID (cs_Identity r) = pr_UserID p
         \<and> ld_Allowed (fst (AllowWithConfig l now (itoa (pr_UserID p)) (limit_config p)))"
proof (cases "AuthMiddleware (wb_crypto w) (wb_service w) (wb_app w) now req (ws_accounts ws)")
  case (Pair a st)
  show ?thesis
  proof (cases a)
    case (Inl answer)
    then show ?thesis using assms Pair by (intro none) (auto simp: search_chain_def)
  next
    case (Inr ctx)
    show ?thesis
    proof (cases "hx_principal ctx")
      case None
      have "sid_Actor (cs_Identity r) = ''legacy''" if "asked = Some r" for r
        using assms(1) None Inr that Pair SearchHandler_asked
        by (fastforce simp: search_chain_def SearchAccess_def search_identity_def Let_def split: prod.splits)
      moreover have "ws_limiter ws' = Some l" using assms None Inr Pair
        by (auto simp: search_chain_def SearchAccess_def Let_def split: prod.splits)
      ultimately show ?thesis using none by blast
    next
      case (Some p)
      obtain d l' where d: "AllowWithConfig l now (itoa (pr_UserID p)) (limit_config p) = (d, l')" by fastforce
      have id: "sid_UserID (search_identity ctx rid) = pr_UserID p" using Some by (simp add: search_identity_def)
      show ?thesis
      proof (cases "pr_MustChangePassword p")
        case True
        then show ?thesis using assms Pair Inr Some by (intro none) (auto simp: search_chain_def SearchAccess_def)
      next
        case False
        have "sid_UserID (cs_Identity r) = pr_UserID p \<and> ld_Allowed d" if "asked = Some r" for r
          using assms that Pair Inr Some False d id SearchHandler_asked [of "wb_env w" "wb_provider w" ctx rid parsed _ r]
          by (fastforce simp: search_chain_def SearchAccess_def Let_def split: prod.splits if_splits)
        moreover have "ws_limiter ws' = Some l'"
          using assms Pair Inr Some False d by (auto simp: search_chain_def SearchAccess_def Let_def split: prod.splits if_splits)
        ultimately show ?thesis using d Pair Inr Some by (intro call [of ctx st p]) simp_all
      qed
    qed
  qed
qed

lemma granted_Cons:
  "granted len u win ((v, t, c) # rs) (d # ds) =
     (if v = u \<and> time_truncate t len = win \<and> ld_Allowed d then 1 else 0) + granted len u win rs ds"
  by (simp add: granted_def)

lemma run_requests_Cons:
  "fst (run_requests l ((v, t, c) # rs)) = fst (AllowWithConfig l t v c) # fst (run_requests (snd (AllowWithConfig l t v c)) rs)"
  by (simp add: Let_def split: prod.splits)

text \<open>A run spends the limiter like a list of calls, and searches at most as often as these are granted.\<close>

lemma run_calls:
  assumes "ws_limiter ws = Some l" and "limits_fixed w uid k evs ws"
  shows "\<exists>calls. (\<forall>(v, t, c)\<in>set calls. v = itoa uid \<longrightarrow> normalizeLimitConfig c = k)
    \<and> (\<lambda>(v, t, c). t) ` set calls \<subseteq> set (event_times evs)
    \<and> (sorted (event_times evs) \<longrightarrow> sorted (map (\<lambda>(v, t, c). t) calls))
    \<and> (\<forall>len win. searches_in w len uid win evs ws \<le> granted len (itoa uid) win calls (fst (run_requests l calls)))"
  using assms
proof (induction w uid k evs ws arbitrary: l rule: limits_fixed.induct)
  case (1 w uid k ws)
  show ?case by (intro exI [of _ "[]"]) simp
next
  case (2 w uid k now req rid parsed evs ws)
  obtain reply asked ws' where c: "search_chain w now req rid parsed ws = ((reply, asked), ws')"
    by (metis prod.exhaust)
  have fixed: "limits_fixed w uid k evs ws'" using 2(3) by (simp add: c)
  note IH = 2(1) [unfolded c snd_conv, OF _ fixed]
  from c 2(2) show ?case
  proof (cases rule: search_chain_limiter)
    case none
    from IH [OF none(1)] obtain calls where calls: "\<forall>(v, t, c)\<in>set calls. v = itoa uid \<longrightarrow> normalizeLimitConfig c = k"
      "(\<lambda>(v, t, c). t) ` set calls \<subseteq> set (event_times evs)"
      "sorted (event_times evs) \<longrightarrow> sorted (map (\<lambda>(v, t, c). t) calls)"
      "\<forall>len win. searches_in w len uid win evs ws' \<le> granted len (itoa uid) win calls (fst (run_requests l calls))" by blast
    have "searches_in w len uid win (Search_At now req rid parsed # evs) ws = searches_in w len uid win evs ws'" for len win
      using none(2) by (auto simp: c split: option.split)
    with calls show ?thesis by (intro exI [of _ calls]) auto
  next
    case (call ctx st p)
    let ?c = "(itoa (pr_UserID p), now, limit_config p)" and ?l' = "snd (AllowWithConfig l now (itoa (pr_UserID p)) (limit_config p))"
    from IH [OF call(3)] obtain calls where calls: "\<forall>(v, t, c)\<in>set calls. v = itoa uid \<longrightarrow> normalizeLimitConfig c = k"
      "(\<lambda>(v, t, c). t) ` set calls \<subseteq> set (event_times evs)"
      "sorted (event_times evs) \<longrightarrow> sorted (map (\<lambda>(v, t, c). t) calls)"
      "\<forall>len win. searches_in w len uid win evs ws' \<le> granted len (itoa uid) win calls (fst (run_requests ?l' calls))" by blast
    have "pr_UserID p = uid \<longrightarrow> normalizeLimitConfig (limit_config p) = k" using 2(3) by (simp add: call(1,2))
    then have "\<forall>(v, t, c)\<in>set (?c # calls). v = itoa uid \<longrightarrow> normalizeLimitConfig c = k"
      using calls(1) itoa_inject by auto
    moreover have "sorted (event_times (Search_At now req rid parsed # evs)) \<longrightarrow> sorted (map (\<lambda>(v, t, c). t) (?c # calls))"
      using calls(2,3) by auto
    moreover have "searches_in w len uid win (Search_At now req rid parsed # evs) ws
        \<le> granted len (itoa uid) win (?c # calls) (fst (run_requests l (?c # calls)))" for len win
    proof -
      have "searches_in w len uid win (Search_At now req rid parsed # evs) ws
          \<le> (if pr_UserID p = uid \<and> time_truncate now len = win
                 \<and> ld_Allowed (fst (AllowWithConfig l now (itoa (pr_UserID p)) (limit_config p))) then 1 else 0)
            + searches_in w len uid win evs ws'"
        using call(4) by (auto simp: c split: option.split)
      also have "\<dots> \<le> granted len (itoa uid) win (?c # calls) (fst (run_requests l (?c # calls)))"
        using calls(4) by (simp only: run_requests_Cons granted_Cons) (simp add: add_mono)
      finally show ?thesis .
    qed
    moreover have "(\<lambda>(v, t, c). t) ` set (?c # calls) \<subseteq> set (event_times (Search_At now req rid parsed # evs))"
      using calls(2) by auto
    ultimately show ?thesis by blast
  qed
next
  case (3 w uid k st evs ws)
  then show ?case by simp
qed

section \<open>Properties\<close>

text \<open>C11: Who searches: with the account database a request to \<^verbatim>\<open>/api/search\<close> reaches the provider only for an active user
  who need not change the password, under that user's identity and role and within that user's rate limit;
  a live refresh is forced only by an administrator with a web session, never with an API key.\<close>

theorem search_guarded:
  fixes w :: "('e, 'st) web"
  assumes st: "reachable no_accounts some_account_step (ws_accounts ws)"
    and db: "wb_service w = Some cfg" and path: "hq_Path req = ''/api/search''"
    and chain: "search_chain w now req requestID parsed ws = ((reply, Some asked), ws')"
  shows "\<exists>u. map_of (db_users (ws_accounts ws)) (sid_UserID (cs_Identity asked)) = Some u
    \<and> IsActiveAt u now \<and> \<not> us_MustChangePassword u \<and> sid_Role (cs_Identity asked) = us_Role u
    \<and> (sid_Actor (cs_Identity asked) = ''admin'' \<longleftrightarrow> us_Role u = ''admin'')
    \<and> (cs_ForceRefresh asked \<longrightarrow> us_Role u = ''admin'' \<and> sid_AuthType (cs_Identity asked) = ''web'')
    \<and> (\<forall>l. ws_limiter ws = Some l \<longrightarrow>
         ld_Allowed (fst (AllowWithConfig l now (itoa (us_ID u)) (limit_config (principalFromUser (authUser u))))))"
proof -
  have ok: "accounts_ok (ws_accounts ws)" using st by (rule accounts.reachable_inv)
  from chain obtain ctx st1 headers l reply' where a: "databaseAuthMiddleware (wb_crypto w) cfg now req (ws_accounts ws) = (Inr ctx, st1)"
    and access: "SearchAccess now ctx (ws_limiter ws) = (Inr headers :: 'st SearchReply + (string \<times> string) list, l)"
    and h: "SearchHandler (wb_env w) (wb_provider w) ctx requestID parsed = (reply', Some asked)"
    by (rule search_chain_asked) (simp add: AuthMiddleware_def db)
  have np: "\<not> isPublicPath (hq_Path req)" by (simp add: path isPublicPath_def has_prefix_def)
  have "\<exists>p v. ctx = setPrincipal p (hx_authType ctx) no_context \<and> hx_authType ctx \<in> {''web'', ''api_key''}
      \<and> re_FindByID identity_repository (au_ID v) (ws_accounts ws) = Inr v \<and> validateActive v now = None \<and> p = principalFromUser v"
    using a np
  proof (cases rule: database_context)
    case (api_key p)
    from api_key(2) obtain v where "re_FindByAPIKeyHash identity_repository (HashAPIKey (wb_crypto w) (hq_APIKey req)) (ws_accounts ws) = Inr v"
      "validateActive v now = None" "p = principalFromUser v" by (rule accounts_repo.key_sound)
    then show ?thesis using api_key(3) accounts_repo.found_key [OF ok] by (auto simp: setPrincipal_def)
  next
    case (web p)
    from web(1) obtain c :: Claims and v where "re_FindByID identity_repository (ti_UserID c) (ws_accounts ws) = Inr v"
      "validateActive v now = None" "p = principalFromUser v" by (rule accounts_repo.token_sound)
    moreover from this(1) have "au_ID v = ti_UserID c" by (rule accounts_repo.found_id [OF ok])
    ultimately show ?thesis using web(2) by (intro exI [of _ p] exI [of _ v]) (simp add: setPrincipal_def)
  qed
  then obtain p v where p: "hx_principal ctx = Some p" "hx_authType ctx \<in> {''web'', ''api_key''}"
    "re_FindByID identity_repository (au_ID v) (ws_accounts ws) = Inr v" "validateActive v now = None" "p = principalFromUser v"
    by (auto simp: setPrincipal_def)
  then obtain u where u: "map_of (db_users (ws_accounts ws)) (au_ID v) = Some u" "v = authUser u" by (auto simp: repo_FindByID)
  have id: "us_ID u = au_ID v" using user_row [OF ok u(1)] by simp
  note asked = SearchHandler_asked [OF h]
  note fwd = SearchAccess_forwards [OF access p(1)]
  have "IsActiveAt u now" using p(4) u(2) by (simp add: validateActive_IsActive)
  moreover have "pr_UserID p = us_ID u" "pr_Role p = us_Role u" "pr_MustChangePassword p = us_MustChangePassword u"
    using p(5) u(2) by (simp_all add: principalFromUser_def authUser_def)
  ultimately show ?thesis using u(1) id asked fwd p(1,2,5) u(2)
    by (intro exI [of _ u]) (auto simp: search_identity_def IsAdmin_def)
qed

definition demo_web :: "(unit, unit) web" where
  "demo_web = \<lparr>wb_crypto = demo_crypto, wb_service = Some demo_auth_config, wb_app = demo_app_config,
     wb_env = \<lparr>sx_managed = True, sx_defaultChannels = None, sx_executionTimeout = 0, sx_responseTimeout = 0\<rparr>,
     wb_provider = (\<lambda>r timeout. (Inr demo_response, None, None))\<rparr>"

definition demo_query :: "unit SearchQuery" where
  "demo_query = \<lparr>sq_Keyword = ''movie'', sq_Channels = None, sq_Concurrency = 0, sq_ForceRefresh = True, sq_ResultType = ''merge'',
     sq_SourceType = ''all'', sq_Plugins = None, sq_Ext = (), sq_CloudTypes = None, sq_Filter = Some demo_filter\<rparr>"

definition demo_web_state :: web_state where
  "demo_web_state = \<lparr>ws_accounts = demo_accounts, ws_limiter = Some (newLimiter DefaultLimitConfig)\<rparr>"

definition demo_http :: HttpRequest where
  "demo_http = \<lparr>hq_Method = ''GET'', hq_Path = ''/api/search'', hq_APIKey = [], hq_Authorization = ''Bearer token''\<rparr>"

definition demo_asked :: "unit ContextSearchRequest" where
  "demo_asked = context_request (wb_env demo_web) (search_identity demo_context ''id'')
     (demo_query\<lparr>sq_ResultType := ''merged_by_type''\<rparr>)"

theorem search_guarded_witness:
  "snd (fst (search_chain demo_web (demo_epoch + 30) demo_http ''id'' (Inr demo_query) demo_web_state)) = Some demo_asked
   \<and> (\<exists>u. map_of (db_users demo_accounts) 1 = Some u \<and> us_Role u = ''admin'' \<and> IsActiveAt u (demo_epoch + 30))"
proof -
  define r where "r = search_chain demo_web (demo_epoch + 30) demo_http ''id'' (Inr demo_query) demo_web_state"
  have a: "snd (fst r) = Some demo_asked" unfolding r_def by code_simp
  then have c: "search_chain demo_web (demo_epoch + 30) demo_http ''id'' (Inr demo_query) demo_web_state = ((fst (fst r), Some demo_asked), snd r)"
    unfolding r_def [symmetric] by (metis prod.collapse)
  have id: "sid_UserID (cs_Identity demo_asked) = 1" "cs_ForceRefresh demo_asked" by code_simp+
  have st: "reachable no_accounts some_account_step (ws_accounts demo_web_state)"
    using demo_accounts_reachable by (simp add: demo_web_state_def)
  have db: "wb_service demo_web = Some demo_auth_config" by (simp add: demo_web_def)
  have path: "hq_Path demo_http = ''/api/search''" by (simp add: demo_http_def)
  from search_guarded [OF st db path c] id a show ?thesis unfolding r_def by (auto simp: demo_web_state_def)
qed

text \<open>C31: The rate limit holds for searches: over any run of requests with clock readings that do not go back, whatever
  becomes of the accounts in between as long as the user's own limits stay the same (the code starts new counters
  when they change), for a user with limits who has not been counted before, at most
  the user's requests per second (per minute) reach the provider in any aligned second (minute).\<close>

theorem search_rate_capped:
  assumes "sorted (event_times evs)" and "limits_fixed w uid k evs ws" and "\<not> lc_Unlimited k" and "normalizeLimitConfig k = k"
    and "ws_limiter ws = Some l" and "l_states l (itoa uid) = None"
  shows "int (searches_in w Second uid win evs ws) \<le> lc_RequestsPerSecond k
    \<and> int (searches_in w Minute uid win evs ws) \<le> lc_RequestsPerMinute k"
proof -
  from run_calls [OF assms(5,2)] assms(1) obtain calls where calls:
    "\<forall>(v, t, c)\<in>set calls. v = itoa uid \<longrightarrow> normalizeLimitConfig c = k" "sorted (map (\<lambda>(v, t, c). t) calls)"
    "\<forall>len win. searches_in w len uid win evs ws \<le> granted len (itoa uid) win calls (fst (run_requests l calls))" by blast
  have cfg: "\<forall>(v, t, c)\<in>set calls. v = itoa uid \<longrightarrow> normalizeLimitConfig c = normalizeLimitConfig k"
    using calls(1) assms(4) by simp
  have lim: "\<not> lc_Unlimited (normalizeLimitConfig k)" using assms(3,4) by simp
  have "int (granted Second (itoa uid) win calls (fst (run_requests l calls))) \<le> lc_RequestsPerSecond k"
    using second_window.granted_le_limit [OF calls(2) cfg lim assms(6), of win] assms(4) by simp
  moreover have "int (granted Minute (itoa uid) win calls (fst (run_requests l calls))) \<le> lc_RequestsPerMinute k"
    using minute_window.granted_le_limit [OF calls(2) cfg lim assms(6), of win] assms(4) by simp
  ultimately show ?thesis using calls(3) by (meson le_trans of_nat_le_iff order_trans)
qed

definition demo_events :: "unit event list" where
  "demo_events = map (\<lambda>t. Search_At (demo_epoch + t) demo_http ''id'' (Inr demo_query)) [30, 31, 32, 33]"

theorem search_rate_capped_witness:
  "searches_in demo_web Second 1 demo_epoch demo_events demo_web_state = 3
   \<and> int (searches_in demo_web Second 1 demo_epoch demo_events demo_web_state) \<le> lc_RequestsPerSecond DefaultLimitConfig"
proof -
  have 1: "sorted (event_times demo_events)" by code_simp
  have 2: "limits_fixed demo_web 1 DefaultLimitConfig demo_events demo_web_state" by code_simp
  have 3: "\<not> lc_Unlimited DefaultLimitConfig" "normalizeLimitConfig DefaultLimitConfig = DefaultLimitConfig" by code_simp+
  have 4: "ws_limiter demo_web_state = Some (newLimiter DefaultLimitConfig)" by (simp add: demo_web_state_def)
  have 5: "l_states (newLimiter DefaultLimitConfig) (itoa 1) = None" by (simp add: newLimiter_def)
  have "searches_in demo_web Second 1 demo_epoch demo_events demo_web_state = 3" by code_simp
  with search_rate_capped [OF 1 2 3 4 5, of demo_epoch] show ?thesis by simp
qed

text \<open>What a response shows of the provider's response \<open>r\<close> under a filter, for the result type \<open>t\<close>: the links whose
  note passes, without empty groups, where \<open>t\<close> shows links; the results whose title passes, with those of their links
  whose own title passes and at least one of them, where \<open>t\<close> shows results; the rest as it was.\<close>

definition passing_groups :: "FilterConfig \<Rightarrow> MergedLinks \<Rightarrow> MergedLinks" where
  "passing_groups f m = filter (\<lambda>g. snd g \<noteq> []) (map (\<lambda>(ty, ls). (ty, filter (\<lambda>l. passes f (ml_Note l)) ls)) m)"

definition passing_results :: "FilterConfig \<Rightarrow> SearchResult list \<Rightarrow> SearchResult list" where
  "passing_results f rs = filter (\<lambda>x. sr_Links x \<noteq> []) (map (reduced f) (filter (\<lambda>x. passes f (sr_Title x)) rs))"

definition shows_passing :: "FilterConfig option \<Rightarrow> string \<Rightarrow> 'st SearchResponse \<Rightarrow> 'st SearchResponse \<Rightarrow> bool" where
  "shows_passing fil t r shown \<longleftrightarrow>
     (case fil of
        None \<Rightarrow> shown = r
      | Some f \<Rightarrow>
          if fi_Include f = [] \<and> fi_Exclude f = [] then shown = r
          else rp_MergedByType shown = (if shows_merged t then map_option (passing_groups f) (rp_MergedByType r) else rp_MergedByType r)
             \<and> rp_Results shown = (if shows_results t then map_option (passing_results f) (rp_Results r) else rp_Results r)
             \<and> shown = r\<lparr>rp_Total := rp_Total shown, rp_Results := rp_Results shown, rp_MergedByType := rp_MergedByType shown\<rparr>)"

lemma result_shown:
  "shows_passing fil t r (if fil \<noteq> None then applyResultFilter r fil t else r)"
proof (cases fil)
  case (Some f)
  show ?thesis
  proof (cases "fi_Include f = [] \<and> fi_Exclude f = []")
    case True
    with Some show ?thesis by (simp add: shows_passing_def applyResultFilter_def)
  next
    case False
    then have f: "fi_Include f \<noteq> [] \<or> fi_Exclude f \<noteq> []" by blast
    have names: "filter_types (inc_of f) (exc_of f) = passing_groups f" "filter_result_list (inc_of f) (exc_of f) = passing_results f"
      by (rule ext, simp add: passing_groups_def filter_types_spec passing_results_def filter_result_list_spec)+
    note fields = applyResultFilter_merged [OF f, of r t] applyResultFilter_results [OF f, of r t]
    have "shows_passing (Some f) t r (applyResultFilter r (Some f) t)"
      unfolding shows_passing_def option.case if_not_P [OF False] fields(1) fields(2) names
      by (intro conjI refl) (subst applyResultFilter_rest, simp only: fields names)
    with Some show ?thesis by simp
  qed
qed (simp add: shows_passing_def)

text \<open>C32: What an answer of the handler means. 403: a live refresh was asked for by a user who may not force one, and
  nothing was searched. Otherwise the provider got the request with its defaults, under the caller's identity, and
  more time than its execution budget. 200: it answered; its response is shown, and when the request has a filter,
  exactly the links and the results that pass it, for the result types that show them. The other statuses are its
  errors: 429 an overloaded scheduler, 400 an invalid channel, 202 with an empty processing response the response
  deadline while the client still waits, 499 a cancelled search whose client has gone, 504 any other deadline and 500
  everything else; only 202 shows a response.\<close>

theorem search_answer:
  fixes provider :: "('e, 'st) provider"
  assumes "SearchHandler env provider ctx requestID (Inr req) = (reply, asked)"
    and "req' = request_defaults (sx_managed env) (sx_defaultChannels env) req"
  shows "(sy_Status reply = 403 \<longleftrightarrow> asked = None)
    \<and> (asked = None \<longleftrightarrow> (\<exists>p. hx_principal ctx = Some p \<and> sq_ForceRefresh req \<and> (hx_authType ctx = ''api_key'' \<or> \<not> IsAdmin p)))
    \<and> (asked \<noteq> None \<longrightarrow>
    (\<exists>a result reqErr respErr. asked = Some a \<and> a = context_request env (search_identity ctx requestID) req'
      \<and> provider a (response_timeout env) = (result, reqErr, respErr)
      \<and> searchExecutionTimeout env < response_timeout env
      \<and> (sy_Status reply = 200 \<longleftrightarrow> (\<exists>r. result = Inr r))
      \<and> (\<forall>r. result = Inr r \<longrightarrow> sy_Count reply = Some (rp_Total r)
            \<and> (\<exists>shown. sy_Response reply = Some shown \<and> shows_passing (sq_Filter req) (sq_ResultType req') r shown))
      \<and> (\<forall>e. result = Inl e \<longrightarrow>
            (sy_Status reply = 429 \<longleftrightarrow> ErrOverloaded \<in> set e)
          \<and> (sy_Status reply = 400 \<longleftrightarrow> ErrOverloaded \<notin> set e \<and> ErrInvalidChannel \<in> set e)
          \<and> (sy_Status reply = 202 \<longleftrightarrow> ErrOverloaded \<notin> set e \<and> ErrInvalidChannel \<notin> set e \<and> DeadlineExceeded \<in> set e
               \<and> reqErr = None \<and> respErr = Some DeadlineExceeded)
          \<and> (sy_Status reply = 499 \<longleftrightarrow> ErrOverloaded \<notin> set e \<and> ErrInvalidChannel \<notin> set e \<and> ContextCanceled \<in> set e \<and> reqErr \<noteq> None)
          \<and> (sy_Status reply = 504 \<longleftrightarrow> ErrOverloaded \<notin> set e \<and> ErrInvalidChannel \<notin> set e \<and> DeadlineExceeded \<in> set e
               \<and> \<not> (reqErr = None \<and> respErr = Some DeadlineExceeded) \<and> \<not> (ContextCanceled \<in> set e \<and> reqErr \<noteq> None))
          \<and> sy_Status reply \<in> {429, 400, 202, 499, 504, 500}
          \<and> sy_Response reply = (if sy_Status reply = 202 then Some processing_response else None))))"
proof (cases asked)
  case None
  then show ?thesis using assms
    by (auto simp: SearchHandler_def plain_reply_def Let_def split: if_splits prod.splits sum.splits option.splits)
next
  case (Some a)
  obtain result reqErr respErr where p: "provider a (response_timeout env) = (result, reqErr, respErr)" by (metis prod.exhaust)
  have fil: "sq_Filter req' = sq_Filter req" by (simp add: assms(2))
  have rep: "reply = (case result of Inl err \<Rightarrow> search_error_reply err reqErr respErr
                      | Inr response \<Rightarrow> search_result_reply (sq_Filter req) (sq_ResultType req') response)"
    and a: "a = context_request env (search_identity ctx requestID) req'"
    and allowed: "\<not> (\<exists>p. hx_principal ctx = Some p \<and> sq_ForceRefresh req \<and> (hx_authType ctx = ''api_key'' \<or> \<not> IsAdmin p))"
    using assms Some p fil by (auto simp: SearchHandler_def Let_def split: if_splits prod.splits sum.splits option.splits)
  have t: "searchExecutionTimeout env < response_timeout env" by (auto simp: response_timeout_def Let_def duration_defs)
  show ?thesis
  proof (cases result)
    case (Inl err)
    have "sy_Status reply \<noteq> 403" "sy_Status reply \<noteq> 200" using rep Inl by (auto simp: search_error_reply_def plain_reply_def)
    moreover have "(sy_Status reply = 429 \<longleftrightarrow> ErrOverloaded \<in> set err)
          \<and> (sy_Status reply = 400 \<longleftrightarrow> ErrOverloaded \<notin> set err \<and> ErrInvalidChannel \<in> set err)
          \<and> (sy_Status reply = 202 \<longleftrightarrow> ErrOverloaded \<notin> set err \<and> ErrInvalidChannel \<notin> set err \<and> DeadlineExceeded \<in> set err
               \<and> reqErr = None \<and> respErr = Some DeadlineExceeded)
          \<and> (sy_Status reply = 499 \<longleftrightarrow> ErrOverloaded \<notin> set err \<and> ErrInvalidChannel \<notin> set err \<and> ContextCanceled \<in> set err \<and> reqErr \<noteq> None)
          \<and> (sy_Status reply = 504 \<longleftrightarrow> ErrOverloaded \<notin> set err \<and> ErrInvalidChannel \<notin> set err \<and> DeadlineExceeded \<in> set err
               \<and> \<not> (reqErr = None \<and> respErr = Some DeadlineExceeded) \<and> \<not> (ContextCanceled \<in> set err \<and> reqErr \<noteq> None))
          \<and> sy_Status reply \<in> {429, 400, 202, 499, 504, 500}
          \<and> sy_Response reply = (if sy_Status reply = 202 then Some processing_response else None)"
      using rep Inl by (simp add: search_error_reply_def plain_reply_def)
    ultimately show ?thesis using Inl Some a p t allowed by auto
  next
    case (Inr r)
    have "sy_Status reply = 200" "sy_Count reply = Some (rp_Total r)"
      "sy_Response reply = Some (if sq_Filter req \<noteq> None then applyResultFilter r (sq_Filter req) (sq_ResultType req') else r)"
      using rep Inr by (simp_all add: search_result_reply_def Let_def)
    with result_shown [of "sq_Filter req" "sq_ResultType req'" r] Inr Some a p t allowed show ?thesis by auto
  qed
qed

text \<open>A provider that answers with results, of which one passes the filter, and one whose search the client has left.\<close>

definition titled :: "string \<Rightarrow> SearchResult" where
  "titled title = demo_result\<lparr>sr_Title := title, sr_Links := [demo_link\<lparr>ln_WorkTitle := []\<rparr>]\<rparr>"

definition answering :: "(unit, unit) provider" where
  "answering r timeout = (Inr (demo_response\<lparr>rp_Results := Some [titled ''Movie HD'', titled ''song'']\<rparr>), None, None)"

definition left_alone :: "(unit, unit) provider" where
  "left_alone r timeout = (Inl [ContextCanceled], Some ContextCanceled, Some ContextCanceled)"

definition demo_all_query :: "unit SearchQuery" where
  "demo_all_query = demo_query\<lparr>sq_ResultType := ''all''\<rparr>"

theorem search_answer_witness:
  "(\<exists>reply asked shown. SearchHandler (wb_env demo_web) answering no_context [] (Inr demo_all_query) = (reply, asked)
      \<and> sy_Status reply = 200 \<and> sy_Response reply = Some shown
      \<and> map_option (map sr_Title) (rp_Results shown) = Some [''Movie HD''])
   \<and> (\<exists>reply asked. SearchHandler (wb_env demo_web) left_alone no_context [] (Inr demo_all_query) = (reply, asked)
      \<and> sy_Status reply = 499)"
proof
  let ?run = "\<lambda>p. SearchHandler (wb_env demo_web) p no_context [] (Inr demo_all_query)"
  have some: "snd (?run answering) \<noteq> None" "snd (?run left_alone) \<noteq> None" by code_simp+
  have t: "sq_ResultType (request_defaults (sx_managed (wb_env demo_web)) (sx_defaultChannels (wb_env demo_web)) demo_all_query) = ''all''"
    and f: "sq_Filter demo_all_query = Some demo_filter" "fi_Include demo_filter \<noteq> []" by code_simp+
  from search_answer [OF prod.collapse [symmetric, of "?run answering"] refl] some(1)
  obtain shown where shown: "sy_Status (fst (?run answering)) = 200" "sy_Response (fst (?run answering)) = Some shown"
    "shows_passing (sq_Filter demo_all_query) ''all'' (demo_response\<lparr>rp_Results := Some [titled ''Movie HD'', titled ''song'']\<rparr>) shown"
    unfolding t by (auto simp: answering_def)
  have "map sr_Title (passing_results demo_filter [titled ''Movie HD'', titled ''song'']) = [''Movie HD'']"
    unfolding passing_results_def reduced_def match_passes [symmetric] by code_simp
  with shown(3) f have "map_option (map sr_Title) (rp_Results shown) = Some [''Movie HD'']"
    by (simp add: shows_passing_def shows_results_def)
  with shown(1,2) show "\<exists>reply asked shown. ?run answering = (reply, asked)
      \<and> sy_Status reply = 200 \<and> sy_Response reply = Some shown
      \<and> map_option (map sr_Title) (rp_Results shown) = Some [''Movie HD'']"
    by (metis prod.collapse)
  from search_answer [OF prod.collapse [symmetric, of "?run left_alone"] refl] some(2)
  obtain e reqErr respErr where "Inl [ContextCanceled] = (Inl e :: sentinel list + unit SearchResponse)" "Some ContextCanceled = reqErr"
    "sy_Status (fst (?run left_alone)) = 499 \<longleftrightarrow> ErrOverloaded \<notin> set e \<and> ErrInvalidChannel \<notin> set e \<and> ContextCanceled \<in> set e \<and> reqErr \<noteq> None"
    unfolding left_alone_def prod.inject by blast
  then have "sy_Status (fst (?run left_alone)) = 499" by auto
  then show "\<exists>reply asked. ?run left_alone = (reply, asked) \<and> sy_Status reply = 499" by (metis prod.collapse)
qed

text \<open>The \<open>Retry-After\<close> header is rounded to the nearest second, so it can name a time that is too early: with one
  request a minute, a call at second 29.6 is told to wait 30 seconds, and is refused again when it does.\<close>

theorem retry_after_too_early:
  "\<exists>l t c d l' secs. AllowWithConfig l t ''1'' c = (d, l') \<and> \<not> ld_Allowed d
     \<and> (''Retry-After'', itoa secs) \<in> set (setRateLimitHeaders d)
     \<and> \<not> ld_Allowed (fst (AllowWithConfig l' (t + secs * Second) ''1'' c))"
proof -
  define c where "c = \<lparr>lc_RequestsPerSecond = 1, lc_RequestsPerMinute = 1, lc_Unlimited = False\<rparr>"
  define l where "l = snd (AllowWithConfig (newLimiter c) demo_epoch ''1'' c)"
  define t where "t = demo_epoch + 29600 * Millisecond"
  have "\<not> ld_Allowed (fst (AllowWithConfig l t ''1'' c))
      \<and> (''Retry-After'', itoa 30) \<in> set (setRateLimitHeaders (fst (AllowWithConfig l t ''1'' c)))
      \<and> \<not> ld_Allowed (fst (AllowWithConfig (snd (AllowWithConfig l t ''1'' c)) (t + 30 * Second) ''1'' c))"
    unfolding l_def c_def t_def by code_simp
  then show ?thesis by (metis prod.collapse)
qed

end
