(* ===== verification/Search_Trace.thy ===== *)
theory Search_Trace
  imports Interleaving "HOL-Library.Word"
begin

text \<open>
  The cache trace of a search request, \<^verbatim>\<open>src/service/search_trace.go\<close>. The branches of a search report their
  cache decisions concurrently; \<open>Mark\<close> sets a flag in a 32-bit word with a compare-and-swap loop, each
  atomic access of which is a step here, and \<open>Status\<close> reads the word once. No report is lost, and the
  status depends only on which reports have been made, not on their order.
\<close>

unbundle bit_operations_syntax

section \<open>Model\<close>

datatype SearchCacheStatus = CacheNotApplicable | CacheHit | CacheMiss | CacheRefresh | CacheBypass

fun trace_flag :: "SearchCacheStatus \<Rightarrow> 32 word option" where
  "trace_flag CacheHit = Some 1"
| "trace_flag CacheMiss = Some 2"
| "trace_flag CacheRefresh = Some 4"
| "trace_flag CacheBypass = Some 8"
| "trace_flag CacheNotApplicable = None"

definition trace_Status :: "32 word \<Rightarrow> SearchCacheStatus" where
  "trace_Status flags =
     (if flags AND 4 \<noteq> 0 then CacheRefresh
      else if flags AND 2 \<noteq> 0 then CacheMiss
      else if flags AND 8 \<noteq> 0 then CacheBypass
      else if flags AND 1 \<noteq> 0 then CacheHit
      else CacheNotApplicable)"

text \<open>A goroutine in \<open>Mark\<close>: about to load the word, about to swap it against the value it has loaded,
  or returned.\<close>

datatype mark_pc =
    MarkLoad SearchCacheStatus
  | MarkSwap SearchCacheStatus "32 word"
  | Marked SearchCacheStatus

fun mark_start :: "mark_pc \<Rightarrow> bool" where
  "mark_start (MarkLoad status) = True"
| "mark_start _ = False"

fun mark_next :: "32 word \<Rightarrow> mark_pc \<Rightarrow> (32 word \<times> mark_pc) list" where
  "mark_next flags (MarkLoad status) =
     (case trace_flag status of
        None \<Rightarrow> [(flags, Marked status)]
      | Some flag \<Rightarrow> if flags AND flag \<noteq> 0 then [(flags, Marked status)] else [(flags, MarkSwap status flags)])"
| "mark_next flags (MarkSwap status current) =
     (case trace_flag status of
        None \<Rightarrow> []
      | Some flag \<Rightarrow> if flags = current then [(current OR flag, Marked status)] else [(flags, MarkLoad status)])"
| "mark_next flags (Marked status) = []"

section \<open>No report is lost\<close>

text \<open>A flag is set exactly for the statuses whose \<open>Mark\<close> has returned.\<close>

definition flag_set :: "32 word \<Rightarrow> SearchCacheStatus \<Rightarrow> bool" where
  "flag_set flags status \<longleftrightarrow> (case trace_flag status of None \<Rightarrow> False | Some flag \<Rightarrow> flags AND flag \<noteq> 0)"

definition trace_inv :: "(32 word, mark_pc) system \<Rightarrow> bool" where
  "trace_inv sys \<longleftrightarrow> (\<forall>status. trace_flag status \<noteq> None \<longrightarrow>
     (flag_set (fst sys) status \<longleftrightarrow> Marked status \<in># snd sys))"

lemma flag_values: "trace_flag s = Some f \<Longrightarrow> f \<in> {1, 2, 4, 8}"
  by (cases s) auto

lemma or_and_distinct: "(w OR f) AND g \<noteq> 0 \<longleftrightarrow> w AND g \<noteq> 0 \<or> f AND g \<noteq> (0 :: 32 word)"
proof -
  have "(w OR f) AND g = (w AND g) OR (f AND g)" by (simp add: bit_eq_iff bit_simps) blast
  then show ?thesis by (simp add: or_eq_0_iff)
qed

lemma or_flag_set:
  assumes "trace_flag t \<noteq> None" and "trace_flag s = Some f"
  shows "flag_set (w OR f) t \<longleftrightarrow> flag_set w t \<or> t = s"
  using assms by (cases t; cases s) (auto simp: flag_set_def or_and_distinct)

lemma mark_no_flag: "trace_flag s = None \<Longrightarrow> s = CacheNotApplicable"
  by (cases s) auto

interpretation marking: interleaved 0 mark_next mark_start trace_inv
proof unfold_locales
  show "trace_inv (0, {#})" by (auto simp: trace_inv_def flag_set_def)
next
  fix s ts p assume "trace_inv (s, ts)" "mark_start p"
  then show "trace_inv (s, add_mset p ts)" by (cases p) (auto simp: trace_inv_def)
next
  fix s p ts s' p'
  assume inv: "trace_inv (s, add_mset p ts)" and step: "(s', p') \<in> set (mark_next s p)"
  show "trace_inv (s', add_mset p' ts)"
  proof (cases p)
    case (MarkLoad status)
    then show ?thesis using inv step
      by (auto simp: trace_inv_def flag_set_def split: option.splits if_splits dest: mark_no_flag)
  next
    case (MarkSwap status current)
    then show ?thesis using inv step
      by (auto simp: trace_inv_def or_flag_set split: option.splits if_splits)
  next
    case (Marked status)
    then show ?thesis using step by simp
  qed
qed

section \<open>Properties\<close>

text \<open>The status that a set of reports amounts to: refresh before miss before bypass before hit.\<close>

definition summary :: "SearchCacheStatus set \<Rightarrow> SearchCacheStatus" where
  "summary reports =
     (if CacheRefresh \<in> reports then CacheRefresh
      else if CacheMiss \<in> reports then CacheMiss
      else if CacheBypass \<in> reports then CacheBypass
      else if CacheHit \<in> reports then CacheHit
      else CacheNotApplicable)"

text \<open>In every interleaving of any number of reports the status is the summary of the reports that have
  returned.\<close>

theorem trace_status_summary:
  assumes "interleaved_reachable 0 mark_next mark_start (flags, goroutines)"
  shows "trace_Status flags = summary {status. Marked status \<in># goroutines}"
proof -
  have "trace_inv (flags, goroutines)" using assms by (rule marking.reachable_inv)
  then have "flag_set flags s \<longleftrightarrow> Marked s \<in># goroutines" if "trace_flag s \<noteq> None" for s
    using that by (simp add: trace_inv_def)
  from this [of CacheRefresh] this [of CacheMiss] this [of CacheBypass] this [of CacheHit]
  show ?thesis by (simp add: trace_Status_def summary_def flag_set_def)
qed

theorem trace_status_summary_witness:
  "trace_Status 3 = summary {status. Marked status \<in># {#Marked CacheHit, Marked CacheMiss#}}
   \<and> summary {status. Marked status \<in># {#Marked CacheHit, Marked CacheMiss#}} = CacheMiss"
proof -
  have "script mark_next mark_start
      [Spawn (MarkLoad CacheHit), Spawn (MarkLoad CacheMiss), Run 0 0, Run 1 0, Run 0 0, Run 1 0, Run 1 0, Run 1 0] (0, [])
      = Some (3, [Marked CacheHit, Marked CacheMiss])" by code_simp
  from script_from_start [OF this] trace_status_summary [of 3 "{#Marked CacheHit, Marked CacheMiss#}"]
  show ?thesis by (simp add: summary_def)
qed

end
