(* ===== verification/Search_Flight.thy ===== *)
theory Search_Flight
  imports Search_Request Search_Trace
begin

text \<open>
  Shared executions of a search, \<^verbatim>\<open>src/service/search_flight.go\<close>: requests that ask the same thing at the same
  time share one execution, and an answer is replayed for five seconds. JSON and SHA-256 are the parameter
  \<open>digest\<close> (\<open>None\<close> when the payload cannot be encoded). \<open>DoChan\<close> of \<^verbatim>\<open>golang.org/x/sync/singleflight\<close> is used
  as its documentation describes it: who calls it with a key receives what an execution under that key has
  returned, his own or another's; which one is left open. A step of the relation is one operation on the
  shared state.
\<close>

section \<open>Model: the key\<close>

record 'e flight_payload =
  fp_Keyword :: string
  fp_Channels :: "string list option"
  fp_Concurrency :: int
  fp_ForceRefresh :: bool
  fp_ResultType :: string
  fp_SourceType :: string
  fp_Plugins :: "string list option"
  fp_CloudTypes :: "string list option"
  fp_Ext :: 'e
  fp_Actor :: string
  fp_UserID :: int
  fp_Role :: string
  fp_AuthType :: string
  fp_APIKeyID :: int
  fp_ExecutionBudget :: int

text \<open>A copy in sorted order. Copying an empty list with \<open>append\<close> onto a nil slice gives nil.\<close>

definition sortedSearchValues :: "string list option \<Rightarrow> string list option" where
  "sortedSearchValues vs = (case vs of None \<Rightarrow> None | Some xs \<Rightarrow> if xs = [] then None else Some (sort xs))"

definition flight_payload :: "'e ContextSearchRequest \<Rightarrow> 'e flight_payload" where
  "flight_payload r =
     \<lparr>fp_Keyword = cs_Keyword r, fp_Channels = sortedSearchValues (cs_Channels r), fp_Concurrency = cs_Concurrency r,
      fp_ForceRefresh = cs_ForceRefresh r, fp_ResultType = cs_ResultType r, fp_SourceType = cs_SourceType r,
      fp_Plugins = sortedSearchValues (cs_Plugins r), fp_CloudTypes = sortedSearchValues (cs_CloudTypes r),
      fp_Ext = cs_Ext r, fp_Actor = sid_Actor (cs_Identity r), fp_UserID = sid_UserID (cs_Identity r),
      fp_Role = sid_Role (cs_Identity r), fp_AuthType = sid_AuthType (cs_Identity r),
      fp_APIKeyID = sid_APIKeyID (cs_Identity r), fp_ExecutionBudget = cs_ExecutionBudget r\<rparr>"

definition buildSearchFlightKey :: "('e flight_payload \<Rightarrow> string option) \<Rightarrow> string \<Rightarrow> 'e ContextSearchRequest \<Rightarrow> string option" where
  "buildSearchFlightKey digest prefix r =
     (case digest (flight_payload r) of None \<Rightarrow> None | Some d \<Rightarrow> Some (prefix @ '':'' @ d))"

section \<open>Model: the outcome of an execution\<close>

definition StopReasonDeadline :: string where
  "StopReasonDeadline = ''deadline''"

definition deadline_status :: SourceStatus where
  "deadline_status = \<lparr>ss_Completion = ''partial'', ss_Candidates = 0, ss_Attempted = 0, ss_Succeeded = 0, ss_Failed = 0,
     ss_Message = StopReasonDeadline\<rparr>"

definition add_status :: "(string \<times> SourceStatus) list \<Rightarrow> string \<Rightarrow> (string \<times> SourceStatus) list" where
  "add_status m source = (if map_of m source = None then AList.update source deadline_status m else m)"

definition markSearchDeadline :: "Response \<Rightarrow> duration \<Rightarrow> Response" where
  "markSearchDeadline response elapsed =
     (let ms = milliseconds elapsed;
          response = response\<lparr>rp_Completion := ''partial'', rp_StopReason := StopReasonDeadline,
                              rp_ElapsedMS := (if ms \<le> 0 then 1 else ms)\<rparr>
      in if rp_PartialSources response = [] then response
         else let unique = sort (uniq_acc [] (filter (\<lambda>s. s \<noteq> []) (map trim_space (rp_PartialSources response))));
                  response = response\<lparr>rp_PartialSources := unique\<rparr>
              in if unique = [] then response
                 else response\<lparr>rp_SourceStatuses :=
                        Some (foldl add_status (case rp_SourceStatuses response of None \<Rightarrow> [] | Some m \<Rightarrow> m) unique)\<rparr>)"

text \<open>A context: its deadline, and whether an outer search has set an execution deadline in it.\<close>

record flight_ctx =
  fc_deadline :: "time option"
  fc_inherited :: bool

text \<open>The base context of the shared execution. \<open>WithoutCancel\<close> drops the deadline and keeps the values.\<close>

definition shared_base :: "flight_ctx \<Rightarrow> duration \<Rightarrow> time \<Rightarrow> flight_ctx" where
  "shared_base ctx budget now =
     (if budget > 0
      then (if fc_inherited ctx then ctx else \<lparr>fc_deadline = Some (now + budget), fc_inherited = True\<rparr>)
      else \<lparr>fc_deadline = None, fc_inherited = fc_inherited ctx\<rparr>)"

datatype 'x search_error = SearchDeadline | SearchCanceled | SearchOther 'x

text \<open>What the execution returns: \<open>expired\<close> tells that the shared context has run into its deadline.\<close>

definition flight_outcome :: "duration \<Rightarrow> bool \<Rightarrow> duration \<Rightarrow> Response \<times> 'x search_error option \<Rightarrow> Response \<times> 'x search_error option" where
  "flight_outcome budget expired elapsed outcome =
     (case outcome of
        (response, searchErr) \<Rightarrow>
          if budget > 0 \<and> expired
          then (markSearchDeadline response elapsed,
                if searchErr = Some SearchDeadline \<or> searchErr = Some SearchCanceled then None else searchErr)
          else (response, searchErr))"

record flight_value =
  fv_response :: Response
  fv_cacheStatus :: SearchCacheStatus

definition replayable :: "flight_value \<Rightarrow> 'x search_error option \<Rightarrow> bool" where
  "replayable v err \<longleftrightarrow> err = None \<and> rp_StopReason (fv_response v) \<noteq> StopReasonDeadline"

definition searchFlightReplayTTL :: duration where
  "searchFlightReplayTTL = 5 * Second"

definition searchDeadlineAggregationGrace :: duration where
  "searchDeadlineAggregationGrace = 2 * Second"

text \<open>How long a caller whose context has ended still waits for the shared result.\<close>

definition extra_wait :: "duration \<Rightarrow> bool \<Rightarrow> duration option" where
  "extra_wait budget inherited = (if budget > 0 \<and> inherited then Some searchDeadlineAggregationGrace else None)"

section \<open>Model: the shared state\<close>

text \<open>An execution under a key, as it ended: who started it, when it ended and what it returned.\<close>

record ('e, 'x) flight_run =
  fr_key :: string
  fr_request :: "'e ContextSearchRequest"
  fr_end :: time
  fr_value :: flight_value
  fr_error :: "'x search_error option"

datatype ('e, 'x) answer =
    Replayed "'e ContextSearchRequest" time flight_value
  | Received "'e ContextSearchRequest" time flight_value "'x search_error option"
  | Abandoned "'e ContextSearchRequest"

record ('e, 'x) flight_state =
  fl_replays :: "string \<rightharpoonup> flight_value \<times> time"
  fl_waiting :: "('e ContextSearchRequest \<times> string) list"
  fl_runs :: "('e, 'x) flight_run list"
  fl_answers :: "('e, 'x) answer list"

definition no_flights :: "('e, 'x) flight_state" where
  "no_flights = \<lparr>fl_replays = Map.empty, fl_waiting = [], fl_runs = [], fl_answers = []\<rparr>"

text \<open>The first part of \<open>executeSearchFlight\<close>: a replay that has not expired answers at once; an expired one is
  deleted, and the caller joins \<open>DoChan\<close>. A request without a key is executed on its own and not recorded.\<close>

definition enter_flight :: "('e flight_payload \<Rightarrow> string option) \<Rightarrow> string \<Rightarrow> time \<Rightarrow> 'e ContextSearchRequest \<Rightarrow>
    ('e, 'x) flight_state \<Rightarrow> ('e, 'x) flight_state" where
  "enter_flight digest prefix now r st =
     (case buildSearchFlightKey digest prefix r of
        None \<Rightarrow> st
      | Some key \<Rightarrow>
          (case fl_replays st key of
             None \<Rightarrow> st\<lparr>fl_waiting := (r, key) # fl_waiting st\<rparr>
           | Some (v, expiresAt) \<Rightarrow>
               if now < expiresAt then st\<lparr>fl_answers := Replayed r now v # fl_answers st\<rparr>
               else st\<lparr>fl_replays := (fl_replays st)(key := None), fl_waiting := (r, key) # fl_waiting st\<rparr>))"

text \<open>The end of an execution that a waiting caller has started.\<close>

definition end_flight :: "('e ContextSearchRequest \<times> string) \<Rightarrow> time \<Rightarrow> flight_value \<Rightarrow> 'x search_error option \<Rightarrow>
    ('e, 'x) flight_state \<Rightarrow> ('e, 'x) flight_state" where
  "end_flight w now v err st =
     (let st = st\<lparr>fl_runs := \<lparr>fr_key = snd w, fr_request = fst w, fr_end = now, fr_value = v, fr_error = err\<rparr> # fl_runs st\<rparr>
      in if replayable v err then st\<lparr>fl_replays := (fl_replays st)(snd w \<mapsto> (v, now + searchFlightReplayTTL))\<rparr> else st)"

definition receive_flight :: "('e ContextSearchRequest \<times> string) \<Rightarrow> time \<Rightarrow> ('e, 'x) flight_run \<Rightarrow> ('e, 'x) flight_state \<Rightarrow>
    ('e, 'x) flight_state" where
  "receive_flight w now run st =
     st\<lparr>fl_waiting := remove1 w (fl_waiting st), fl_answers := Received (fst w) now (fr_value run) (fr_error run) # fl_answers st\<rparr>"

definition abandon_flight :: "('e ContextSearchRequest \<times> string) \<Rightarrow> ('e, 'x) flight_state \<Rightarrow> ('e, 'x) flight_state" where
  "abandon_flight w st =
     st\<lparr>fl_waiting := remove1 w (fl_waiting st), fl_answers := Abandoned (fst w) # fl_answers st\<rparr>"

inductive flight_step ::
  "('e flight_payload \<Rightarrow> string option) \<Rightarrow> string \<Rightarrow> ('e, 'x) flight_state \<Rightarrow> ('e, 'x) flight_state \<Rightarrow> bool"
  for digest :: "'e flight_payload \<Rightarrow> string option" and prefix :: string where
  enter: "flight_step digest prefix st (enter_flight digest prefix now r st)"
| finish: "w \<in> set (fl_waiting st) \<Longrightarrow> flight_step digest prefix st (end_flight w now v err st)"
| receive: "w \<in> set (fl_waiting st) \<Longrightarrow> run \<in> set (fl_runs st) \<Longrightarrow> fr_key run = snd w \<Longrightarrow>
    flight_step digest prefix st (receive_flight w now run st)"
| abandon: "w \<in> set (fl_waiting st) \<Longrightarrow> flight_step digest prefix st (abandon_flight w st)"
| forget_replay: "flight_step digest prefix st (st\<lparr>fl_replays := (fl_replays st)(key := None)\<rparr>)"

section \<open>Invariant\<close>

definition keyed_request :: "('e flight_payload \<Rightarrow> string option) \<Rightarrow> string \<Rightarrow> 'e ContextSearchRequest \<Rightarrow> string \<Rightarrow> bool" where
  "keyed_request digest prefix r key \<longleftrightarrow> buildSearchFlightKey digest prefix r = Some key"

definition waiting_keyed :: "('e flight_payload \<Rightarrow> string option) \<Rightarrow> string \<Rightarrow> ('e, 'x) flight_state \<Rightarrow> bool" where
  "waiting_keyed digest prefix st \<longleftrightarrow> (\<forall>(r, key)\<in>set (fl_waiting st). keyed_request digest prefix r key)"

definition runs_keyed :: "('e flight_payload \<Rightarrow> string option) \<Rightarrow> string \<Rightarrow> ('e, 'x) flight_state \<Rightarrow> bool" where
  "runs_keyed digest prefix st \<longleftrightarrow> (\<forall>run\<in>set (fl_runs st). keyed_request digest prefix (fr_request run) (fr_key run))"

text \<open>A run that a replay of \<open>v\<close> with this expiry goes back to.\<close>

definition replay_source :: "flight_value \<Rightarrow> time \<Rightarrow> ('e, 'x) flight_run \<Rightarrow> bool" where
  "replay_source v expiresAt run \<longleftrightarrow>
     fr_value run = v \<and> fr_error run = None \<and> expiresAt = fr_end run + searchFlightReplayTTL
     \<and> rp_StopReason (fv_response v) \<noteq> StopReasonDeadline"

definition replays_sourced :: "('e, 'x) flight_state \<Rightarrow> bool" where
  "replays_sourced st \<longleftrightarrow> (\<forall>key v expiresAt. fl_replays st key = Some (v, expiresAt) \<longrightarrow>
     (\<exists>run\<in>set (fl_runs st). fr_key run = key \<and> replay_source v expiresAt run))"

fun answer_sourced :: "('e flight_payload \<Rightarrow> string option) \<Rightarrow> string \<Rightarrow> ('e, 'x) flight_run list \<Rightarrow> ('e, 'x) answer \<Rightarrow> bool" where
  "answer_sourced digest prefix runs (Replayed r now v) \<longleftrightarrow>
     (\<exists>run\<in>set runs. keyed_request digest prefix r (fr_key run) \<and> now < fr_end run + searchFlightReplayTTL
        \<and> replay_source v (fr_end run + searchFlightReplayTTL) run)"
| "answer_sourced digest prefix runs (Received r now v err) \<longleftrightarrow>
     (\<exists>run\<in>set runs. keyed_request digest prefix r (fr_key run) \<and> fr_value run = v \<and> fr_error run = err)"
| "answer_sourced digest prefix runs (Abandoned r) = True"

definition answers_sourced :: "('e flight_payload \<Rightarrow> string option) \<Rightarrow> string \<Rightarrow> ('e, 'x) flight_state \<Rightarrow> bool" where
  "answers_sourced digest prefix st \<longleftrightarrow> (\<forall>a\<in>set (fl_answers st). answer_sourced digest prefix (fl_runs st) a)"

definition flight_inv :: "('e flight_payload \<Rightarrow> string option) \<Rightarrow> string \<Rightarrow> ('e, 'x) flight_state \<Rightarrow> bool" where
  "flight_inv digest prefix st \<longleftrightarrow> waiting_keyed digest prefix st \<and> runs_keyed digest prefix st \<and> replays_sourced st
     \<and> answers_sourced digest prefix st"

lemma answer_sourced_more: "answer_sourced digest prefix runs a \<Longrightarrow> answer_sourced digest prefix (run # runs) a"
  by (cases a) auto

lemma enter_flight_inv:
  assumes "flight_inv digest prefix st"
  shows "flight_inv digest prefix (enter_flight digest prefix now r st)"
proof (cases "buildSearchFlightKey digest prefix r")
  case (Some key)
  show ?thesis
  proof (cases "fl_replays st key")
    case None
    with Some assms show ?thesis
      by (simp add: enter_flight_def flight_inv_def waiting_keyed_def runs_keyed_def replays_sourced_def answers_sourced_def
          keyed_request_def)
  next
    case (Some replay)
    obtain v expiresAt where replay: "replay = (v, expiresAt)" by fastforce
    with Some assms obtain run where "run \<in> set (fl_runs st)" "fr_key run = key" "replay_source v expiresAt run"
      unfolding flight_inv_def replays_sourced_def by blast
    with Some \<open>buildSearchFlightKey digest prefix r = Some key\<close> replay assms show ?thesis
      by (auto simp: enter_flight_def flight_inv_def waiting_keyed_def runs_keyed_def replays_sourced_def answers_sourced_def
          keyed_request_def replay_source_def)
  qed
qed (use assms in \<open>simp add: enter_flight_def\<close>)

lemma end_flight_inv:
  assumes "flight_inv digest prefix st" and "w \<in> set (fl_waiting st)"
  shows "flight_inv digest prefix (end_flight w now v err st)"
proof -
  from assms have "waiting_keyed digest prefix (end_flight w now v err st)"
    by (simp add: flight_inv_def waiting_keyed_def end_flight_def Let_def)
  moreover from assms have "runs_keyed digest prefix (end_flight w now v err st)"
    by (auto simp: flight_inv_def waiting_keyed_def runs_keyed_def end_flight_def Let_def)
  moreover from assms have "replays_sourced (end_flight w now v err st)"
    by (auto simp: flight_inv_def replays_sourced_def end_flight_def Let_def replayable_def replay_source_def)
  moreover from assms have "answers_sourced digest prefix (end_flight w now v err st)"
    by (auto simp: flight_inv_def answers_sourced_def end_flight_def Let_def intro!: answer_sourced_more)
  ultimately show ?thesis by (simp add: flight_inv_def)
qed

lemma receive_flight_inv:
  assumes "flight_inv digest prefix st" and "w \<in> set (fl_waiting st)" and "run \<in> set (fl_runs st)" and "fr_key run = snd w"
  shows "flight_inv digest prefix (receive_flight w now run st)"
proof -
  have "keyed_request digest prefix (fst w) (fr_key run)"
    using assms by (auto simp: flight_inv_def waiting_keyed_def)
  then show ?thesis
    using assms by (auto simp: flight_inv_def waiting_keyed_def runs_keyed_def replays_sourced_def answers_sourced_def
        receive_flight_def dest!: set_remove1_subset [THEN subsetD]) metis
qed

lemma flight_step_inv:
  assumes "flight_inv digest prefix st" and "flight_step digest prefix st st'"
  shows "flight_inv digest prefix st'"
  using assms(2,1)
proof cases
  case (abandon w)
  then show ?thesis using assms(1)
    by (auto simp: flight_inv_def waiting_keyed_def runs_keyed_def replays_sourced_def answers_sourced_def abandon_flight_def
        dest!: set_remove1_subset [THEN subsetD])
next
  case (forget_replay key)
  then show ?thesis using assms(1)
    by (auto simp: flight_inv_def waiting_keyed_def runs_keyed_def replays_sourced_def answers_sourced_def)
qed (use assms(1) in \<open>auto intro: enter_flight_inv end_flight_inv receive_flight_inv\<close>)

definition flights_start :: "('e, 'x) flight_state \<Rightarrow> bool" where
  "flights_start st \<longleftrightarrow> st = no_flights"

interpretation flights: invariant_machine flights_start "flight_step digest prefix" "flight_inv digest prefix"
  for digest :: "'e flight_payload \<Rightarrow> string option" and prefix
proof unfold_locales
  show "flight_inv digest prefix st" if "flights_start st" for st :: "('e, 'x) flight_state"
    using that by (simp add: flights_start_def no_flights_def flight_inv_def waiting_keyed_def runs_keyed_def
        replays_sourced_def answers_sourced_def)
qed (rule flight_step_inv)

section \<open>Which requests share a key\<close>

text \<open>Two requests ask the same: they differ at most in the order of their lists, in an empty list standing
  for a nil one, in the request identifier and in the flag \<open>requiresLiveTG\<close>, which is not part of the key.\<close>

definition values_of :: "string list option \<Rightarrow> string list" where
  "values_of vs = (case vs of None \<Rightarrow> [] | Some xs \<Rightarrow> xs)"

definition same_values :: "string list option \<Rightarrow> string list option \<Rightarrow> bool" where
  "same_values a b \<longleftrightarrow> mset (values_of a) = mset (values_of b)"

definition same_question :: "'e ContextSearchRequest \<Rightarrow> 'e ContextSearchRequest \<Rightarrow> bool" where
  "same_question a b \<longleftrightarrow>
     cs_Keyword a = cs_Keyword b \<and> same_values (cs_Channels a) (cs_Channels b) \<and> same_values (cs_Plugins a) (cs_Plugins b)
     \<and> same_values (cs_CloudTypes a) (cs_CloudTypes b) \<and> cs_Concurrency a = cs_Concurrency b
     \<and> cs_ForceRefresh a = cs_ForceRefresh b \<and> cs_ResultType a = cs_ResultType b \<and> cs_SourceType a = cs_SourceType b
     \<and> cs_Ext a = cs_Ext b \<and> cs_ExecutionBudget a = cs_ExecutionBudget b
     \<and> (cs_Identity a)\<lparr>sid_RequestID := []\<rparr> = (cs_Identity b)\<lparr>sid_RequestID := []\<rparr>"

lemma sort_same_values: "sortedSearchValues a = sortedSearchValues b \<longleftrightarrow> same_values a b"
proof -
  have "sort xs = sort ys \<longleftrightarrow> mset xs = mset ys" for xs ys :: "string list"
    by (metis mset_sort properties_for_sort sorted_sort)
  then show ?thesis by (auto simp: sortedSearchValues_def same_values_def values_of_def split: option.split)
qed

lemma same_identity:
  "a\<lparr>sid_RequestID := []\<rparr> = b\<lparr>sid_RequestID := []\<rparr> \<longleftrightarrow>
     sid_Actor a = sid_Actor b \<and> sid_UserID a = sid_UserID b \<and> sid_Role a = sid_Role b \<and> sid_AuthType a = sid_AuthType b
     \<and> sid_APIKeyID a = sid_APIKeyID b" for a b :: SearchIdentity
  by (cases a; cases b) simp

lemma payload_same_question: "flight_payload a = flight_payload b \<longleftrightarrow> same_question a b"
  by (auto simp: flight_payload_def same_question_def sort_same_values same_identity)

text \<open>The flag that the key leaves out follows from the rest when the two requests have been resolved
  against the same configuration.\<close>

lemma resolved_live_tg:
  assumes "resolve_managed tiered snapshot r = Inr r'"
  shows "cs_requiresLiveTG r' \<longleftrightarrow> \<not> set (values_of (cs_Channels r')) \<subseteq> set (Channels snapshot)"
  using assms resolved_sources [of "source_part r" snapshot tiered]
  by (auto simp: resolve_managed_def values_of_def split: sum.splits)

lemma resolved_same_live_tg:
  assumes "resolve_managed tiered snapshot a = Inr a'" and "resolve_managed tiered snapshot b = Inr b'"
    and "same_question a' b'"
  shows "cs_requiresLiveTG a' = cs_requiresLiveTG b'"
  using assms(3) unfolding resolved_live_tg [OF assms(1)] resolved_live_tg [OF assms(2)]
  by (auto simp: same_question_def same_values_def dest: mset_eq_setD)

text \<open>A request for no plug-in and one for all of them share their key: the empty list becomes nil in it.
  \<open>SearchContext\<close> of a service without managed sources searches different plug-ins for the two.\<close>

lemma no_plugins_share_key:
  "buildSearchFlightKey digest prefix (r\<lparr>cs_Plugins := Some []\<rparr>) = buildSearchFlightKey digest prefix (r\<lparr>cs_Plugins := None\<rparr>)"
  by (simp add: buildSearchFlightKey_def flight_payload_def sortedSearchValues_def)

lemma key_same_question:
  assumes "keyed_request digest prefix a key" and "keyed_request digest prefix b key"
    and "inj_on digest {flight_payload a, flight_payload b}"
  shows "same_question a b"
  using assms by (auto simp: keyed_request_def buildSearchFlightKey_def payload_same_question [symmetric] split: option.splits
      dest: inj_onD)

section \<open>Properties\<close>

text \<open>C13: Whatever the interleaving, an answer that a request receives or that is replayed to it was computed for a
  request that asks the same, if the digest does not collide on the two payloads: the same keyword, identity,
  types, options and budget, and the same channels, plug-ins and link types up to order, where nil and the
  empty list count as one. Request identifiers may differ, and so may \<open>requiresLiveTG\<close>, which two requests
  resolved against the same configuration have in common (\<open>resolved_same_live_tg\<close>).
  A replayed answer is less than five seconds old, has no error and was not cut off by the deadline.\<close>

theorem flight_same_question:
  assumes "reachable flights_start (flight_step digest prefix) st"
    and "\<And>run. run \<in> set (fl_runs st) \<Longrightarrow> inj_on digest {flight_payload (fr_request run), flight_payload r}"
  shows "(Received r now v err \<in> set (fl_answers st) \<longrightarrow>
            (\<exists>run\<in>set (fl_runs st). fr_value run = v \<and> fr_error run = err \<and> same_question (fr_request run) r))
       \<and> (Replayed r now v \<in> set (fl_answers st) \<longrightarrow>
            (\<exists>run\<in>set (fl_runs st). fr_value run = v \<and> fr_error run = None \<and> same_question (fr_request run) r
               \<and> now < fr_end run + 5 * Second \<and> rp_StopReason (fv_response v) \<noteq> StopReasonDeadline))"
proof -
  have inv: "flight_inv digest prefix st" using assms(1) by (rule flights.reachable_inv)
  have same: "same_question (fr_request run) r"
    if "run \<in> set (fl_runs st)" "keyed_request digest prefix r (fr_key run)" for run
    using key_same_question [OF _ that(2) assms(2)] that(1) inv by (simp add: flight_inv_def runs_keyed_def)
  have sourced: "answer_sourced digest prefix (fl_runs st) a" if "a \<in> set (fl_answers st)" for a
    using that inv by (simp add: flight_inv_def answers_sourced_def)
  show ?thesis
    using sourced [of "Received r now v err"] sourced [of "Replayed r now v"] same
    by (auto simp: replay_source_def searchFlightReplayTTL_def)
qed

definition flight_demo :: "bool \<Rightarrow> string list \<Rightarrow> unit ContextSearchRequest" where
  "flight_demo refresh channels =
     \<lparr>cs_Keyword = ''film'', cs_Channels = Some channels, cs_Concurrency = 0, cs_ForceRefresh = refresh, cs_ResultType = ''all'',
      cs_SourceType = ''all'', cs_Plugins = None, cs_CloudTypes = None, cs_Ext = (),
      cs_Identity = \<lparr>sid_Actor = ''user'', sid_UserID = 7, sid_Role = ''user'', sid_AuthType = ''jwt'', sid_APIKeyID = 0,
                     sid_RequestID = []\<rparr>, cs_ExecutionBudget = 0, cs_requiresLiveTG = False\<rparr>"

definition demo_value :: flight_value where
  "demo_value = \<lparr>fv_response = no_response, fv_cacheStatus = CacheMiss\<rparr>"

definition demo_digest :: "unit flight_payload \<Rightarrow> string option" where
  "demo_digest p = (if fp_ForceRefresh p then None else Some ''d'')"

theorem flight_same_question_witness:
  "\<exists>st :: (unit, unit) flight_state. reachable flights_start (flight_step demo_digest ''live'') st
     \<and> Replayed (flight_demo False [''b'', ''a'']) 2 demo_value \<in> set (fl_answers st)
     \<and> (\<exists>run\<in>set (fl_runs st). fr_request run = flight_demo False [''a'', ''b''] \<and> same_question (fr_request run) (flight_demo False [''b'', ''a'']))"
proof -
  let ?r = "flight_demo False [''a'', ''b'']" and ?s = "flight_demo False [''b'', ''a'']"
  define s0 :: "(unit, unit) flight_state" where "s0 = no_flights"
  define s1 where "s1 = enter_flight demo_digest ''live'' 0 ?r s0"
  define s2 where "s2 = end_flight (?r, ''live:d'') 1 demo_value None s1"
  define s3 where "s3 = enter_flight demo_digest ''live'' 2 ?s s2"
  note defs = s0_def s1_def s2_def s3_def
  have "(?r, ''live:d'') \<in> set (fl_waiting s1)"
    by (simp add: defs no_flights_def enter_flight_def buildSearchFlightKey_def demo_digest_def flight_payload_def flight_demo_def)
  then have reach: "reachable flights_start (flight_step demo_digest ''live'') s3"
    unfolding s3_def s2_def using flight_step.enter flight_step.finish
    by (intro reach_step [OF reach_step [OF reach_step [OF reach_init, of _ s0]]]) (auto simp: s1_def s0_def flights_start_def)
  have runs: "fl_runs s3 = [\<lparr>fr_key = ''live:d'', fr_request = ?r, fr_end = 1, fr_value = demo_value, fr_error = None\<rparr>]"
    unfolding defs by code_simp
  have ans: "Replayed ?s 2 demo_value \<in> set (fl_answers s3)"
    by (simp add: defs no_flights_def enter_flight_def end_flight_def buildSearchFlightKey_def demo_digest_def flight_payload_def
        flight_demo_def replayable_def demo_value_def no_response_def StopReasonDeadline_def searchFlightReplayTTL_def duration_defs)
  have "flight_payload ?r = flight_payload ?s" by code_simp
  then have "\<And>run. run \<in> set (fl_runs s3) \<Longrightarrow> inj_on demo_digest {flight_payload (fr_request run), flight_payload ?s}"
    by (simp add: runs)
  from flight_same_question [OF reach this] ans have "\<exists>run\<in>set (fl_runs s3). same_question (fr_request run) ?s" by blast
  with reach ans show ?thesis by (auto simp: runs)
qed

text \<open>A response that the deadline has cut off is marked partial and keeps its results; its partial sources are
  trimmed, distinct and sorted, each has a status, and no status that was there is changed.\<close>

definition statuses :: "Response \<Rightarrow> string \<rightharpoonup> SourceStatus" where
  "statuses r = map_of (case rp_SourceStatuses r of None \<Rightarrow> [] | Some m \<Rightarrow> m)"

lemma add_status_lookup: "map_of (add_status m s) k = (if k = s \<and> map_of m s = None then Some deadline_status else map_of m k)"
  by (simp add: add_status_def update_conv')

lemma add_statuses_lookup:
  "map_of (foldl add_status m sources) k = (if k \<in> set sources \<and> map_of m k = None then Some deadline_status else map_of m k)"
  by (induction sources arbitrary: m) (auto simp: add_status_lookup)

theorem deadline_marked:
  "let r' = markSearchDeadline r elapsed;
       named = {s. s \<noteq> [] \<and> (\<exists>p\<in>set (rp_PartialSources r). s = trim_space p)}
   in rp_Completion r' = ''partial'' \<and> rp_StopReason r' = ''deadline'' \<and> rp_ElapsedMS r' \<ge> 1
    \<and> rp_Results r' = rp_Results r \<and> rp_MergedByType r' = rp_MergedByType r \<and> rp_Total r' = rp_Total r
    \<and> set (rp_PartialSources r') = named \<and> distinct (rp_PartialSources r') \<and> sorted (rp_PartialSources r')
    \<and> (\<forall>s. statuses r' s = (if s \<in> named \<and> statuses r s = None then Some deadline_status else statuses r s))"
proof -
  define unique where "unique = sort (uniq_acc [] (filter (\<lambda>s. s \<noteq> []) (map trim_space (rp_PartialSources r))))"
  define named where "named = {s. s \<noteq> [] \<and> (\<exists>p\<in>set (rp_PartialSources r). s = trim_space p)}"
  have u: "set unique = named" "distinct unique" "sorted unique"
    by (auto simp: unique_def named_def set_uniq_acc distinct_uniq_acc)
  have ms: "rp_ElapsedMS (markSearchDeadline r elapsed) \<ge> 1"
    by (simp add: markSearchDeadline_def Let_def)
  show ?thesis
  proof (cases "rp_PartialSources r = []")
    case True
    then have "named = {}" by (simp add: named_def)
    with True ms show ?thesis unfolding named_def [symmetric] Let_def
      by (simp add: markSearchDeadline_def Let_def StopReasonDeadline_def statuses_def)
  next
    case False
    then show ?thesis using u ms unfolding named_def [symmetric] Let_def
      by (auto simp: markSearchDeadline_def Let_def StopReasonDeadline_def statuses_def add_statuses_lookup
          unique_def [symmetric])
  qed
qed

text \<open>A nested search keeps the execution deadline of the outer one: it gets no second budget.\<close>

lemma nested_deadline:
  assumes "0 < budget" and "0 < budget'" and "now \<le> now'"
  shows "shared_base (shared_base ctx budget now) budget' now' = shared_base ctx budget now"
  using assms by (simp add: shared_base_def)

end
