(* ===== verification/Search_Cache.thy ===== *)
theory Search_Cache
  imports Two_Level_Cache Search_Results
begin

text \<open>
  The cache of search results above the two-level cache, \<^verbatim>\<open>src/service/search_cache.go\<close>: what is stored with
  a result list, and how an answer is merged into what is stored already. The serializer is the parameter
  \<open>search_codec\<close>; \<open>readings\<close> holds the clock readings of one operation and the order in which it iterates the
  map of merged results. A nil cache is \<open>None\<close>. The operations that merge hold the lock of their key, so
  that two merges of one key never overlap; here an operation is one step.
\<close>

section \<open>Model\<close>

record cachedSearchResults =
  ch_Results :: "SearchResult list"
  ch_Complete :: bool
  ch_Execution :: "SearchExecution option"
  ch_FreshUntil :: time

definition nothing_cached :: cachedSearchResults where
  "nothing_cached = \<lparr>ch_Results = [], ch_Complete = False, ch_Execution = None, ch_FreshUntil = zero_time\<rparr>"

definition fresh :: "time \<Rightarrow> cachedSearchResults \<Rightarrow> bool" where
  "fresh now c \<longleftrightarrow> is_zero_time (ch_FreshUntil c) \<or> now < ch_FreshUntil c"

definition negativeSearchCacheTTL :: duration where
  "negativeSearchCacheTTL = 10 * Minute"

definition aggregateSearchCacheTTL :: "SearchResult list \<Rightarrow> bool \<Rightarrow> duration \<Rightarrow> duration" where
  "aggregateSearchCacheTTL results isComplete regular =
     (if isComplete \<and> results = [] then negativeSearchCacheTTL else regular)"

definition searchCacheLock :: "string \<Rightarrow> nat" where
  "searchCacheLock key = unat (fnv32a key mod 64)"

record search_codec =
  sc_serialize :: "cachedSearchResults \<Rightarrow> string option"
  sc_envelope :: "string \<Rightarrow> cachedSearchResults option"
  sc_legacy :: "string \<Rightarrow> SearchResult list option"

datatype search_cache_error = UnreadableEntry | SerializeFailed | StoreFailed disk_error

record store_env =
  se_codec :: search_codec
  se_fname :: "string \<Rightarrow> string"
  se_io :: disk_io

record readings =
  rd_now :: time
  rd_later :: time
  rd_final :: time
  rd_store :: time
  rd_order :: "SearchResult list \<Rightarrow> SearchResult list"

definition loadCachedSearch :: "store_env \<Rightarrow> readings \<Rightarrow> string \<Rightarrow> TwoLevelCache option \<Rightarrow>
    (cachedSearchResults \<times> bool \<times> search_cache_error option) \<times> TwoLevelCache option" where
  "loadCachedSearch env rd key cacheStore =
     (case cacheStore of
        None \<Rightarrow> ((nothing_cached, False, None), None)
      | Some c \<Rightarrow>
          (case tl_Get (se_fname env) (se_io env) (rd_now rd) (rd_later rd) (rd_final rd) key c of
             (None, c) \<Rightarrow> ((nothing_cached, False, None), Some c)
           | (Some data, c) \<Rightarrow>
               (case sc_envelope (se_codec env) data of
                  Some envelope \<Rightarrow> ((envelope, True, None), Some c)
                | None \<Rightarrow>
                    (case sc_legacy (se_codec env) data of
                       None \<Rightarrow> ((nothing_cached, True, Some UnreadableEntry), Some c)
                     | Some legacy \<Rightarrow> ((nothing_cached\<lparr>ch_Results := legacy\<rparr>, True, None), Some c)))))"

definition mergeCachedSearch :: "readings \<Rightarrow> cachedSearchResults \<Rightarrow> SearchResult list \<Rightarrow> bool \<Rightarrow> cachedSearchResults" where
  "mergeCachedSearch rd existing incoming isComplete =
     \<lparr>ch_Results = mergeSearchResults (rd_order rd) (ch_Results existing) incoming,
      ch_Complete = (ch_Complete existing \<or> isComplete), ch_Execution = None, ch_FreshUntil = ch_FreshUntil existing\<rparr>"

definition mergeCachedSearchWithExecution :: "readings \<Rightarrow> cachedSearchResults \<Rightarrow> SearchResult list \<Rightarrow> bool \<Rightarrow>
    SearchExecution option \<Rightarrow> cachedSearchResults" where
  "mergeCachedSearchWithExecution rd existing incoming isComplete execution =
     (let merged = mergeCachedSearch rd existing incoming isComplete
      in merged\<lparr>ch_Execution := (case execution of Some e \<Rightarrow> Some e | None \<Rightarrow> ch_Execution existing)\<rparr>)"

definition tgChannelStaleGrace :: duration where
  "tgChannelStaleGrace = 6 * Hour"

definition storeFreshCachedSearch :: "store_env \<Rightarrow> readings \<Rightarrow> string \<Rightarrow> SearchResult list \<Rightarrow> duration \<Rightarrow> duration \<Rightarrow>
    SearchExecution option \<Rightarrow> TwoLevelCache option \<Rightarrow> search_cache_error option \<times> TwoLevelCache option" where
  "storeFreshCachedSearch env rd key results freshTTL staleGrace execution cacheStore =
     (case cacheStore of
        None \<Rightarrow> (None, None)
      | Some c \<Rightarrow>
          let envelope = \<lparr>ch_Results = results, ch_Complete = True, ch_Execution = execution,
                          ch_FreshUntil = rd_now rd + freshTTL\<rparr>
          in (case sc_serialize (se_codec env) envelope of
                None \<Rightarrow> (Some SerializeFailed, Some c)
              | Some data \<Rightarrow>
                  let staleGrace = (if staleGrace < 0 then 0 else staleGrace);
                      (err, c) = SetBothLevels (se_fname env) (se_io env) (rd_store rd) key data (freshTTL + staleGrace) c
                  in (map_option StoreFailed err, Some c)))"

text \<open>The part that the two merging operations share: load, merge, serialize, store.\<close>

definition merge_and_store :: "store_env \<Rightarrow> readings \<Rightarrow> string \<Rightarrow> (cachedSearchResults \<Rightarrow> cachedSearchResults) \<Rightarrow> duration \<Rightarrow>
    TwoLevelCache \<Rightarrow> (search_cache_error + cachedSearchResults) \<times> TwoLevelCache" where
  "merge_and_store env rd key merge ttl c =
     (case loadCachedSearch env rd key (Some c) of
        ((existing, hit, Some err), c') \<Rightarrow> (Inl err, the c')
      | ((existing, hit, None), c') \<Rightarrow>
          let merged = merge (if hit then existing else nothing_cached)
          in (case sc_serialize (se_codec env) merged of
                None \<Rightarrow> (Inl SerializeFailed, the c')
              | Some data \<Rightarrow>
                  (case SetBothLevels (se_fname env) (se_io env) (rd_store rd) key data ttl (the c') of
                     (Some err, c'') \<Rightarrow> (Inl (StoreFailed err), c'')
                   | (None, c'') \<Rightarrow> (Inr merged, c''))))"

definition mergeAndStoreCachedSearch :: "store_env \<Rightarrow> readings \<Rightarrow> string \<Rightarrow> SearchResult list \<Rightarrow> duration \<Rightarrow> bool \<Rightarrow>
    TwoLevelCache option \<Rightarrow> (search_cache_error + cachedSearchResults) \<times> TwoLevelCache option" where
  "mergeAndStoreCachedSearch env rd key incoming ttl isComplete cacheStore =
     (case cacheStore of
        None \<Rightarrow> (Inr (nothing_cached\<lparr>ch_Results := incoming, ch_Complete := isComplete\<rparr>), None)
      | Some c \<Rightarrow> map_prod id Some
          (merge_and_store env rd key (\<lambda>existing. mergeCachedSearch rd existing incoming isComplete) ttl c))"

definition mergeAndStoreCachedSearchWithExecution :: "store_env \<Rightarrow> readings \<Rightarrow> string \<Rightarrow> SearchResult list \<Rightarrow> duration \<Rightarrow> bool \<Rightarrow>
    SearchExecution option \<Rightarrow> TwoLevelCache option \<Rightarrow> (search_cache_error + cachedSearchResults) \<times> TwoLevelCache option" where
  "mergeAndStoreCachedSearchWithExecution env rd key incoming ttl isComplete execution cacheStore =
     (case cacheStore of
        None \<Rightarrow> (Inr (mergeCachedSearchWithExecution rd nothing_cached incoming isComplete execution), None)
      | Some c \<Rightarrow> map_prod id Some
          (merge_and_store env rd key
             (\<lambda>existing. mergeCachedSearchWithExecution rd existing incoming isComplete execution) ttl c))"

section \<open>Lemmas: a cache that keeps a key\<close>

text \<open>The lock of a key is one of the 64.\<close>

lemma searchCacheLock_range: "searchCacheLock key < 64"
  unfolding searchCacheLock_def unat_mod by simp

definition keeps :: "string \<Rightarrow> ShardedMemoryCache \<Rightarrow> bool" where
  "keeps key m \<longleftrightarrow> cache_wf m \<and> 0 < mc_itemsPerShard m \<and> evictable (mem_getShard m key)"

lemma evictable_get:
  assumes "evictable shard" and "unix_nano now < max_int64"
  shows "evictable (snd (shard_get now key shard))"
  using assms by (auto simp: evictable_def shard_get_def drop_entry_def touch_def list_all_iff AList.delete_eq
      split: option.splits)

lemma evictable_set:
  assumes "evictable shard" and "shard_wf n m shard" and "key \<noteq> []" and "unix_nano now < max_int64"
  shows "evictable (fst (shard_set now disk n m key data ttl lm shard))"
proof -
  obtain shard' fls where r: "shard_set now disk n m key data ttl lm shard = (shard', fls)" by fastforce
  from assms(2) r have "evictable shard'"
  proof (cases rule: shard_set_cases)
    case (2 ok mid)
    then have "evictable mid" using assms(1) by (auto simp: evictable_def list_all_iff)
    with 2 assms(3,4) show ?thesis by (auto simp: evictable_def list_all_iff update_absent new_item_def)
  qed (use assms(1) in simp)
  with r show ?thesis by simp
qed

lemma keeps_shard:
  assumes "keeps key m"
  shows "shard_wf (mc_itemsPerShard m) (mc_sizePerShard m) (mem_getShard m key)"
  using assms mem_router.index_lt [of m key] by (simp add: keeps_def cache_wf_def shards_wf_def mem_getShard_def)

lemma shard_of_on_key:
  assumes "cache_wf m"
  shows "mem_getShard (mem_router.on_key key f m) key = f (mem_getShard m key)"
  using assms mem_router.on_key_same [of m key f] by (simp add: cache_wf_def mem_getShard_def)

lemma keeps_get:
  assumes "keeps key m" and "unix_nano now < max_int64"
  shows "keeps key (snd (GetWithTimestamp now key m))" "mc_sizePerShard (snd (GetWithTimestamp now key m)) = mc_sizePerShard m"
proof -
  have "cache_wf (snd (GetWithTimestamp now key m))"
    using mem_apply_wf [of m "MemGet now key"] assms(1) by (simp add: keeps_def mem_Get_def case_prod_unfold)
  moreover have "evictable (mem_getShard (snd (GetWithTimestamp now key m)) key)"
    using assms evictable_get [of "mem_getShard m key" now key]
    by (simp add: GetWithTimestamp_def shard_of_on_key keeps_def)
  ultimately show "keeps key (snd (GetWithTimestamp now key m))"
    using assms(1) by (simp add: keeps_def GetWithTimestamp_def)
  show "mc_sizePerShard (snd (GetWithTimestamp now key m)) = mc_sizePerShard m" by (simp add: GetWithTimestamp_def)
qed

lemma keeps_set:
  assumes "keeps key m" and "key \<noteq> []" and "unix_nano now < max_int64"
  shows "keeps key (fst (SetWithTimestamp now key data ttl lm m))"
    "mc_sizePerShard (fst (SetWithTimestamp now key data ttl lm m)) = mc_sizePerShard m"
proof -
  have "cache_wf (fst (SetWithTimestamp now key data ttl lm m))"
    using mem_apply_wf [of m "MemSet now key data ttl lm"] assms(1) by (simp add: keeps_def)
  moreover have "evictable (mem_getShard (fst (SetWithTimestamp now key data ttl lm m)) key)"
    using assms evictable_set [OF _ keeps_shard [OF assms(1)] assms(2,3)]
    by (simp add: SetWithTimestamp_def shard_of_on_key keeps_def Let_def)
  ultimately show "keeps key (fst (SetWithTimestamp now key data ttl lm m))"
    using assms(1) by (simp add: keeps_def SetWithTimestamp_def Let_def)
  show "mc_sizePerShard (fst (SetWithTimestamp now key data ttl lm m)) = mc_sizePerShard m"
    by (simp add: SetWithTimestamp_def Let_def)
qed

lemma keeps_tl_Get:
  assumes "keeps key (tl_memory c)" and "key \<noteq> []" and "unix_nano now < max_int64" and "unix_nano final < max_int64"
  shows "keeps key (tl_memory (snd (tl_Get fname io now later final key c)))
       \<and> mc_sizePerShard (tl_memory (snd (tl_Get fname io now later final key c))) = mc_sizePerShard (tl_memory c)"
  using assms keeps_get [of key "tl_memory c" now] keeps_set [of key "snd (GetWithTimestamp now key (tl_memory c))" final]
  by (auto simp: tl_Get_def Let_def split: prod.splits option.splits sum.splits)

section \<open>A run of merges\<close>

text \<open>One call of a merging operation: \<open>cl_plan\<close> is \<open>None\<close> for \<open>mergeAndStoreCachedSearch\<close>.\<close>

record merge_call =
  cl_rd :: readings
  cl_incoming :: "SearchResult list"
  cl_ttl :: duration
  cl_complete :: bool
  cl_plan :: "SearchExecution option option"

definition run_call :: "store_env \<Rightarrow> string \<Rightarrow> TwoLevelCache option \<Rightarrow> merge_call \<Rightarrow> TwoLevelCache option" where
  "run_call env key cacheStore cl =
     (case cl_plan cl of
        None \<Rightarrow> snd (mergeAndStoreCachedSearch env (cl_rd cl) key (cl_incoming cl) (cl_ttl cl) (cl_complete cl) cacheStore)
      | Some execution \<Rightarrow> snd (mergeAndStoreCachedSearchWithExecution env (cl_rd cl) key (cl_incoming cl) (cl_ttl cl)
                           (cl_complete cl) execution cacheStore))"

text \<open>The specification: what a call makes of the entry, without any cache.\<close>

definition absorb :: "cachedSearchResults \<Rightarrow> merge_call \<Rightarrow> cachedSearchResults" where
  "absorb e cl =
     (case cl_plan cl of
        None \<Rightarrow> mergeCachedSearch (cl_rd cl) e (cl_incoming cl) (cl_complete cl)
      | Some execution \<Rightarrow> mergeCachedSearchWithExecution (cl_rd cl) e (cl_incoming cl) (cl_complete cl) execution)"

text \<open>The entry survives the serializer and fits into a shard of the memory cache.\<close>

definition storable :: "search_codec \<Rightarrow> int \<Rightarrow> cachedSearchResults \<Rightarrow> bool" where
  "storable cd limit e \<longleftrightarrow>
     (case sc_serialize cd e of
        None \<Rightarrow> False
      | Some data \<Rightarrow> sc_envelope cd data = Some e \<and> int (length data) \<le> limit)"

definition clocks_ok :: "readings \<Rightarrow> bool" where
  "clocks_ok rd \<longleftrightarrow>
     unix_nano (rd_now rd) < max_int64 \<and> unix_nano (rd_final rd) < max_int64 \<and> unix_nano (rd_store rd) < max_int64"

text \<open>Every call of a run reads the entry before it expires, and every entry of the run can be stored.\<close>

fun run_fits :: "search_codec \<Rightarrow> int \<Rightarrow> time \<Rightarrow> cachedSearchResults \<Rightarrow> merge_call list \<Rightarrow> bool" where
  "run_fits cd limit expiry e [] = True"
| "run_fits cd limit expiry e (cl # cls) \<longleftrightarrow>
     rd_now (cl_rd cl) \<le> expiry \<and> clocks_ok (cl_rd cl) \<and> storable cd limit (absorb e cl)
     \<and> run_fits cd limit (rd_store (cl_rd cl) + cl_ttl cl) (absorb e cl) cls"

fun run_expiry :: "time \<Rightarrow> merge_call list \<Rightarrow> time" where
  "run_expiry expiry [] = expiry"
| "run_expiry expiry (cl # cls) = run_expiry (rd_store (cl_rd cl) + cl_ttl cl) cls"

definition permutes_results :: "merge_call \<Rightarrow> bool" where
  "permutes_results cl \<longleftrightarrow> (\<forall>xs. mset (rd_order (cl_rd cl) xs) = mset xs)"

lemma run_call_merge:
  "run_call env key (Some c) cl = Some (snd (merge_and_store env (cl_rd cl) key (\<lambda>e. absorb e cl) (cl_ttl cl) c))"
  by (simp add: run_call_def absorb_def mergeAndStoreCachedSearch_def mergeAndStoreCachedSearchWithExecution_def
      split: option.split)

lemma load_unfold:
  assumes "fst (loadCachedSearch env rd key (Some c)) = (e, hit, None)"
  shows "snd (loadCachedSearch env rd key (Some c))
         = Some (snd (tl_Get (se_fname env) (se_io env) (rd_now rd) (rd_later rd) (rd_final rd) key c))"
    and "(if hit then e else nothing_cached) = e"
  using assms by (auto simp: loadCachedSearch_def split: prod.splits option.splits)

lemma load_hit:
  assumes "fst (tl_Get (se_fname env) (se_io env) (rd_now rd) (rd_later rd) (rd_final rd) key c) = Some data"
    and "sc_envelope (se_codec env) data = Some e"
  shows "fst (loadCachedSearch env rd key (Some c)) = (e, True, None)"
  using assms by (auto simp: loadCachedSearch_def split: prod.split option.split)

lemma both_levels_memory:
  "tl_memory (snd (SetBothLevels fname io now key data ttl c)) = fst (SetWithTimestamp now key data ttl now (tl_memory c))"
  by (simp add: SetBothLevels_def Let_def case_prod_unfold)

text \<open>One call: whatever the disk does, the next lookups see the merged entry until it expires.\<close>

lemma merge_step:
  assumes "keeps key (tl_memory c)" and "key \<noteq> []" and "clocks_ok (cl_rd cl)"
    and load: "fst (loadCachedSearch env (cl_rd cl) key (Some c)) = (e, hit, None)"
    and "storable (se_codec env) (mc_sizePerShard (tl_memory c)) (absorb e cl)"
  obtains c' where "run_call env key (Some c) cl = Some c'" and "keeps key (tl_memory c')"
    and "mc_sizePerShard (tl_memory c') = mc_sizePerShard (tl_memory c)"
    and "\<And>rd. rd_now rd \<le> rd_store (cl_rd cl) + cl_ttl cl \<Longrightarrow>
           fst (loadCachedSearch env rd key (Some c')) = (absorb e cl, True, None)"
proof -
  let ?rd = "cl_rd cl"
  define c1 where "c1 = snd (tl_Get (se_fname env) (se_io env) (rd_now ?rd) (rd_later ?rd) (rd_final ?rd) key c)"
  obtain data where data: "sc_serialize (se_codec env) (absorb e cl) = Some data"
    "sc_envelope (se_codec env) data = Some (absorb e cl)" "int (length data) \<le> mc_sizePerShard (tl_memory c)"
    using assms(5) by (auto simp: storable_def split: option.splits)
  define c' where "c' = snd (SetBothLevels (se_fname env) (se_io env) (rd_store ?rd) key data (cl_ttl cl) c1)"
  have k1: "keeps key (tl_memory c1)" "mc_sizePerShard (tl_memory c1) = mc_sizePerShard (tl_memory c)"
    using keeps_tl_Get [OF assms(1,2)] assms(3) by (simp_all add: c1_def clocks_ok_def)
  have run: "run_call env key (Some c) cl = Some c'"
  proof -
    obtain e' h' er st where l: "loadCachedSearch env ?rd key (Some c) = ((e', h', er), st)" by (metis prod.collapse)
    with load load_unfold [OF load] have "e' = e" "h' = hit" "er = None" "st = Some c1" by (simp_all add: c1_def)
    with l load_unfold(2) [OF load] data(1) show ?thesis
      by (auto simp: run_call_merge merge_and_store_def Let_def c'_def split: prod.split option.split)
  qed
  have mem: "tl_memory c' = fst (SetWithTimestamp (rd_store ?rd) key data (cl_ttl cl) (rd_store ?rd) (tl_memory c1))"
    by (simp add: c'_def both_levels_memory)
  have k': "keeps key (tl_memory c')" "mc_sizePerShard (tl_memory c') = mc_sizePerShard (tl_memory c)"
    using keeps_set [OF k1(1) assms(2)] assms(3) k1(2) by (simp_all add: mem clocks_ok_def)
  have "fst (loadCachedSearch env rd key (Some c')) = (absorb e cl, True, None)"
    if "rd_now rd \<le> rd_store ?rd + cl_ttl cl" for rd
  proof (rule load_hit [OF _ data(2)])
    have "fst (GetWithTimestamp (rd_now rd) key (tl_memory c')) = Some (data, rd_store ?rd)"
      unfolding mem using set_then_get [of "tl_memory c1" data key "rd_now rd"] k1 data(3) that
      by (simp add: keeps_def)
    then show "fst (tl_Get (se_fname env) (se_io env) (rd_now rd) (rd_later rd) (rd_final rd) key c') = Some data"
      using tl_Get_memory_hit by blast
  qed
  with run k' that show ?thesis by blast
qed

lemma merge_steps:
  assumes "keeps key (tl_memory c)" and "key \<noteq> []"
    and "\<And>rd. rd_now rd \<le> expiry \<Longrightarrow> fst (loadCachedSearch env rd key (Some c)) = (e, True, None)"
    and "run_fits (se_codec env) (mc_sizePerShard (tl_memory c)) expiry e cls"
  shows "\<exists>c'. foldl (run_call env key) (Some c) cls = Some c' \<and>
    (\<forall>rd. rd_now rd \<le> run_expiry expiry cls \<longrightarrow> fst (loadCachedSearch env rd key (Some c')) = (foldl absorb e cls, True, None))"
  using assms
proof (induction cls arbitrary: c e expiry)
  case (Cons cl cls)
  then obtain c1 where c1: "run_call env key (Some c) cl = Some c1" "keeps key (tl_memory c1)"
    "mc_sizePerShard (tl_memory c1) = mc_sizePerShard (tl_memory c)"
    "\<And>rd. rd_now rd \<le> rd_store (cl_rd cl) + cl_ttl cl \<Longrightarrow>
       fst (loadCachedSearch env rd key (Some c1)) = (absorb e cl, True, None)"
    by (elim merge_step [of key c cl env e True]) auto
  with Cons.IH [OF c1(2) Cons.prems(2) c1(4)] Cons.prems(4) show ?case by simp
qed auto

section \<open>What a run of merges keeps\<close>

lemma merged_keys:
  assumes "\<forall>xs. mset (order xs) = mset xs"
  shows "generateResultKey ` set (mergeSearchResults order a b) = generateResultKey ` (set a \<union> set b)"
proof -
  have "set (mergeSearchResults order a b) = snd ` set (merge_table a b)"
    using arg_cong [OF spec [OF assms, of "map snd (merge_table a b)"], of set_mset]
    by (simp add: mergeSearchResults_def merge_table_def)
  moreover have "generateResultKey ` snd ` set (merge_table a b) = fst ` set (merge_table a b)"
    using arg_cong [OF keyed_map_key [OF merge_table_keyed], of set a b] by (simp add: image_image)
  ultimately show ?thesis by (simp add: merge_table_keys)
qed

lemma absorb_simps:
  assumes "permutes_results cl"
  shows "generateResultKey ` set (ch_Results (absorb e cl)) = generateResultKey ` (set (ch_Results e) \<union> set (cl_incoming cl))"
    and "ch_Complete (absorb e cl) \<longleftrightarrow> ch_Complete e \<or> cl_complete cl"
    and "ch_FreshUntil (absorb e cl) = ch_FreshUntil e"
  using assms merged_keys [of "rd_order (cl_rd cl)" "ch_Results e" "cl_incoming cl"]
  by (simp_all add: absorb_def mergeCachedSearch_def mergeCachedSearchWithExecution_def permutes_results_def Let_def
      split: option.split)

lemma absorbed:
  assumes "list_all permutes_results cls"
  shows "generateResultKey ` set (ch_Results (foldl absorb e cls))
         = generateResultKey ` (set (ch_Results e) \<union> \<Union> (set ` set (map cl_incoming cls)))"
    and "ch_Complete (foldl absorb e cls) \<longleftrightarrow> ch_Complete e \<or> list_ex cl_complete cls"
  using assms by (induction cls arbitrary: e) (simp_all add: absorb_simps image_Un Un_assoc)

section \<open>Properties\<close>

text \<open>C14: A run of merges on one key, over the real memory and disk cache and with any disk failures, does
  what the specification \<open>absorb\<close> does on the entry alone: a lookup before the entry expires finds every
  result of every call under its key, and a complete entry exactly when some call was complete.\<close>

theorem search_cache_accumulates:
  assumes "keeps key (tl_memory c)" and "key \<noteq> []"
    and "fst (loadCachedSearch env (cl_rd cl) key (Some c)) = (e, hit, None)"
    and "run_fits (se_codec env) (mc_sizePerShard (tl_memory c)) (rd_now (cl_rd cl)) e (cl # cls)"
    and "rd_now rd \<le> run_expiry 0 (cl # cls)" and "list_all permutes_results (cl # cls)"
  shows "\<exists>c' e'. foldl (run_call env key) (Some c) (cl # cls) = Some c'
       \<and> fst (loadCachedSearch env rd key (Some c')) = (e', True, None) \<and> e' = foldl absorb e (cl # cls)
       \<and> generateResultKey ` set (ch_Results e')
         = generateResultKey ` (set (ch_Results e) \<union> \<Union> (set ` set (map cl_incoming (cl # cls))))
       \<and> (ch_Complete e' \<longleftrightarrow> ch_Complete e \<or> list_ex cl_complete (cl # cls))"
proof -
  obtain c1 where c1: "run_call env key (Some c) cl = Some c1" "keeps key (tl_memory c1)"
    "mc_sizePerShard (tl_memory c1) = mc_sizePerShard (tl_memory c)"
    "\<And>rd. rd_now rd \<le> rd_store (cl_rd cl) + cl_ttl cl \<Longrightarrow>
       fst (loadCachedSearch env rd key (Some c1)) = (absorb e cl, True, None)"
    using merge_step [OF assms(1,2) _ assms(3)] assms(4) unfolding run_fits.simps by metis
  from merge_steps [OF c1(2) assms(2) c1(4), where cls = cls] c1(1,3) assms(4,5)
  obtain c' where "foldl (run_call env key) (Some c) (cl # cls) = Some c'"
    "fst (loadCachedSearch env rd key (Some c')) = (foldl absorb e (cl # cls), True, None)" by auto
  with absorbed [OF assms(6), of e] show ?thesis by blast
qed

text \<open>A serializer for entries whose results have names of one letter.\<close>

definition letter_codec :: search_codec where
  "letter_codec = \<lparr>
     sc_serialize = (\<lambda>e. Some ((if ch_Complete e then CHR ''c'' else CHR ''p'') # concat (map sr_UniqueID (ch_Results e)))),
     sc_envelope = (\<lambda>s. case s of
         [] \<Rightarrow> None
       | k # ids \<Rightarrow> Some (nothing_cached\<lparr>ch_Results := map (\<lambda>i. demo_result\<lparr>sr_UniqueID := [i]\<rparr>) ids,
                                        ch_Complete := (k = CHR ''c'')\<rparr>)),
     sc_legacy = (\<lambda>s. None)\<rparr>"

definition letter_call :: "time \<Rightarrow> string \<Rightarrow> bool \<Rightarrow> merge_call" where
  "letter_call now ids whole =
     \<lparr>cl_rd = \<lparr>rd_now = now, rd_later = now, rd_final = now, rd_store = now + 1, rd_order = (\<lambda>rs. rs)\<rparr>,
      cl_incoming = map (\<lambda>i. demo_result\<lparr>sr_UniqueID := [i]\<rparr>) ids, cl_ttl = 100, cl_complete = whole, cl_plan = None\<rparr>"

definition letter_env :: store_env where
  "letter_env = \<lparr>se_codec = letter_codec, se_fname = (\<lambda>k. k), se_io = good_io\<rparr>"

theorem search_cache_accumulates_witness:
  "\<exists>c c' e'. NewEnhancedTwoLevelCache 1 10 = Some c
     \<and> foldl (run_call letter_env ''k'') (Some c) [letter_call 10 ''ab'' False, letter_call 50 ''bc'' True] = Some c'
     \<and> fst (loadCachedSearch letter_env (cl_rd (letter_call 120 [] True)) ''k'' (Some c')) = (e', True, None)
     \<and> ch_Complete e' \<and> length (ch_Results e') = 3"
proof -
  let ?cls = "[letter_call 10 ''ab'' False, letter_call 50 ''bc'' True]"
  obtain c where c: "NewEnhancedTwoLevelCache 1 10 = Some c"
    and m: "tl_memory c = SetDiskCacheReference True (NewShardedMemoryCache 1 5000 6)"
    by (auto simp: NewEnhancedTwoLevelCache_def splitCacheBudget_def go_div_def NewOptimizedShardedDiskCache_def
        newShardedDiskCacheWithCount_def Let_def)
  have wf: "cache_wf (tl_memory c)"
    unfolding m using mem_apply_wf [OF New_cache_wf, of _ _ _ "MemSetDisk True"] by simp
  have "0 < mc_itemsPerShard (tl_memory c) \<and> evictable (mem_getShard (tl_memory c) ''k'')" unfolding m by code_simp
  with wf have k: "keeps ''k'' (tl_memory c)" by (simp add: keeps_def)
  have "map_option (\<lambda>c. fst (loadCachedSearch letter_env (cl_rd (hd ?cls)) ''k'' (Some c))) (NewEnhancedTwoLevelCache 1 10)
      = Some (nothing_cached, False, None)" by code_simp
  then have l: "fst (loadCachedSearch letter_env (cl_rd (letter_call 10 ''ab'' False)) ''k'' (Some c)) = (nothing_cached, False, None)"
    by (simp add: c)
  have f: "run_fits (se_codec letter_env) (mc_sizePerShard (tl_memory c)) (rd_now (cl_rd (hd ?cls))) nothing_cached ?cls"
    unfolding m by code_simp
  have "list_all permutes_results ?cls" by (simp add: letter_call_def permutes_results_def)
  from search_cache_accumulates [OF k _ l, where cls = "[letter_call 50 ''bc'' True]", OF _ _ _ this, of "cl_rd (letter_call 120 [] True)"] f
  have "\<exists>c' e'. foldl (run_call letter_env ''k'') (Some c) ?cls = Some c'
       \<and> fst (loadCachedSearch letter_env (cl_rd (letter_call 120 [] True)) ''k'' (Some c')) = (e', True, None)
       \<and> e' = foldl absorb nothing_cached ?cls"
    by (simp add: letter_call_def) blast
  moreover have "ch_Complete (foldl absorb nothing_cached ?cls) \<and> length (ch_Results (foldl absorb nothing_cached ?cls)) = 3"
    by code_simp
  ultimately show ?thesis using c by blast
qed

end
