(* ===== verification/Cache_Key.thy ===== *)
theory Cache_Key
  imports Tg_Channel
begin

text \<open>
  The keys of the search caches, \<^verbatim>\<open>src/util/cache/cache_key.go\<close>: what a key depends on, and that the memo
  tables of the list hashes do not show. The hexadecimal MD5 digest of a text is the parameter \<open>digest\<close>; the
  names of the registered plugins, fixed when the program starts, are the argument \<open>registered\<close>.
\<close>

section \<open>Model\<close>

record key_caches =
  channelHashCache :: "string \<rightharpoonup> string"
  pluginHashCache :: "string \<rightharpoonup> string"

definition calculateListHash :: "(string \<Rightarrow> string) \<Rightarrow> string list \<Rightarrow> string" where
  "calculateListHash digest items = digest (concat items)"

definition allPluginsHash :: "(string \<Rightarrow> string) \<Rightarrow> string list \<Rightarrow> string" where
  "allPluginsHash digest registered = calculateListHash digest (sort registered)"

definition allChannelsHash :: string where
  "allChannelsHash = ''all''"

text \<open>The lookup in a memo table and the hash that is stored on a miss.\<close>

definition memo_hash :: "(string \<Rightarrow> string) \<Rightarrow> string list \<Rightarrow> (string \<rightharpoonup> string) \<Rightarrow> string \<times> (string \<rightharpoonup> string)" where
  "memo_hash digest items memo =
     (let key = join_with '','' items
      in case memo key of
           Some hash \<Rightarrow> (hash, memo)
         | None \<Rightarrow> (let hash = calculateListHash digest items in (hash, memo(key \<mapsto> hash))))"

definition getChannelsHash :: "(string \<Rightarrow> string) \<Rightarrow> string list \<Rightarrow> key_caches \<Rightarrow> string \<times> key_caches" where
  "getChannelsHash digest channels kc =
     (if channels = [] then (allChannelsHash, kc)
      else if length channels < 5 then (join_with '','' (sort channels), kc)
      else (case memo_hash digest (sort channels) (channelHashCache kc) of
              (hash, memo) \<Rightarrow> (hash, kc\<lparr>channelHashCache := memo\<rparr>)))"

definition getPluginsHash :: "(string \<Rightarrow> string) \<Rightarrow> string list \<Rightarrow> string list \<Rightarrow> key_caches \<Rightarrow> string \<times> key_caches" where
  "getPluginsHash digest registered plugins kc =
     (if plugins = [] then (allPluginsHash digest registered, kc)
      else if list_all (\<lambda>p. p = []) plugins then (allPluginsHash digest registered, kc)
      else if length plugins < 5 then (join_with '','' (sort (filter (\<lambda>p. p \<noteq> []) plugins)), kc)
      else (case memo_hash digest (sort (filter (\<lambda>p. p \<noteq> []) plugins)) (pluginHashCache kc) of
              (hash, memo) \<Rightarrow> (hash, kc\<lparr>pluginHashCache := memo\<rparr>)))"

text \<open>The text of each key, as \<open>fmt.Sprintf\<close> builds it, and the key.\<close>

definition tg_key_text :: "string \<Rightarrow> string \<Rightarrow> string" where
  "tg_key_text normalizedKeyword channelsHash = ''tg:'' @ normalizedKeyword @ '':'' @ channelsHash"

definition GenerateTGCacheKey :: "(string \<Rightarrow> string) \<Rightarrow> string \<Rightarrow> string list \<Rightarrow> key_caches \<Rightarrow> string \<times> key_caches" where
  "GenerateTGCacheKey digest keyword channels kc =
     (case getChannelsHash digest channels kc of
        (channelsHash, kc) \<Rightarrow> (digest (tg_key_text (fold_key keyword) channelsHash), kc))"

definition channel_key_text :: "string \<Rightarrow> string \<Rightarrow> string" where
  "channel_key_text normalizedKeyword normalizedChannel =
     ''tg-channel:'' @ normalizedChannel @ '':'' @ normalizedKeyword"

definition GenerateTGChannelCacheKey :: "(string \<Rightarrow> string) \<Rightarrow> string \<Rightarrow> string \<Rightarrow> string" where
  "GenerateTGChannelCacheKey digest keyword channel = digest (channel_key_text (fold_key keyword) (fold_key channel))"

definition plugin_key_text :: "string \<Rightarrow> string \<Rightarrow> string" where
  "plugin_key_text normalizedKeyword pluginsHash = ''plugin:'' @ normalizedKeyword @ '':'' @ pluginsHash"

definition GeneratePluginCacheKey :: "(string \<Rightarrow> string) \<Rightarrow> string list \<Rightarrow> string \<Rightarrow> string list \<Rightarrow> key_caches \<Rightarrow>
    string \<times> key_caches" where
  "GeneratePluginCacheKey digest registered keyword plugins kc =
     (case getPluginsHash digest registered plugins kc of
        (pluginsHash, kc) \<Rightarrow> (digest (plugin_key_text (fold_key keyword) pluginsHash), kc))"

definition GenerateCacheKey :: "(string \<Rightarrow> string) \<Rightarrow> string list \<Rightarrow> string \<Rightarrow> string list \<Rightarrow> string \<Rightarrow> string list \<Rightarrow>
    key_caches \<Rightarrow> string \<times> key_caches" where
  "GenerateCacheKey digest registered keyword channels sourceType plugins kc =
     (let (channelsHash, kc) = getChannelsHash digest channels kc;
          sourceType = (if sourceType = [] then ''all'' else sourceType);
          (pluginsHash, kc) = (if sourceType = ''tg'' then (''none'', kc) else getPluginsHash digest registered plugins kc)
      in (digest (fold_key keyword @ '':'' @ channelsHash @ '':'' @ sourceType @ '':'' @ pluginsHash), kc))"

definition joined_or_all :: "string list \<Rightarrow> string" where
  "joined_or_all names = (if names = [] then ''all'' else join_with '','' (sort names))"

definition GenerateCacheKeyV2 :: "(string \<Rightarrow> string) \<Rightarrow> string \<Rightarrow> string list \<Rightarrow> string \<Rightarrow> string list \<Rightarrow> string" where
  "GenerateCacheKeyV2 digest keyword channels sourceType plugins =
     digest (''v2:'' @ fold_key keyword @ '':'' @ joined_or_all channels @ '':'' @
          (if sourceType = [] then ''all'' else sourceType) @ '':'' @ joined_or_all plugins)"

definition GenerateCacheKeyLegacy :: "(string \<Rightarrow> string) \<Rightarrow> string list \<Rightarrow> string \<Rightarrow> (string \<times> string) list \<Rightarrow>
    key_caches \<Rightarrow> string \<times> key_caches" where
  "GenerateCacheKeyLegacy digest registered query filters kc =
     (if filters = [] then GenerateCacheKey digest registered query [] [] [] kc
      else (digest (foldl (\<lambda>keyStr k. keyStr @ ''|'' @ k @ ''='' @ the (map_of filters k)) query (sort (map fst filters))), kc))"

section \<open>Lemmas\<close>

text \<open>A list of names without commas is read back from its joined text.\<close>

lemma split_no_byte: "c \<notin> set s \<Longrightarrow> split_byte c s = [s]"
  by (induction s) auto

lemma split_byte_append: "c \<notin> set s \<Longrightarrow> split_byte c (s @ c # t) = s # split_byte c t"
  by (induction s) auto

lemma split_join:
  "xs \<noteq> [] \<Longrightarrow> \<forall>x\<in>set xs. CHR '','' \<notin> set x \<Longrightarrow> split_byte (CHR '','') (join_with '','' xs) = xs"
  by (induction "'',''" xs rule: join_with.induct) (auto simp: split_no_byte split_byte_append)

lemma join_inj:
  assumes "join_with '','' xs = join_with '','' ys" and "xs \<noteq> []" and "ys \<noteq> []"
    and "\<forall>x\<in>set xs. CHR '','' \<notin> set x" and "\<forall>y\<in>set ys. CHR '','' \<notin> set y"
  shows "xs = ys"
  using assms split_join by metis

lemma sort_nonempty: "sort xs = [] \<longleftrightarrow> xs = []"
  by (metis set_empty set_sort)

lemma sort_eq_mset: "sort xs = sort ys \<longleftrightarrow> mset xs = mset ys"
  by (metis mset_sort properties_for_sort sorted_sort)

text \<open>The last colon separates: a part without colons can be read off the end of a key text.\<close>

lemma last_colon:
  assumes "a @ CHR '':'' # s = b @ CHR '':'' # t" and "CHR '':'' \<notin> set s" and "CHR '':'' \<notin> set t"
  shows "a = b \<and> s = t"
proof -
  have "rev s @ CHR '':'' # rev a = rev t @ CHR '':'' # rev b" using arg_cong [OF assms(1), of rev] by simp
  moreover have "takeWhile (\<lambda>c. c \<noteq> CHR '':'') (rev u @ CHR '':'' # v) = rev u" if "CHR '':'' \<notin> set u" for u v
    using that by (subst takeWhile_append2) auto
  ultimately have "rev s = rev t" using assms(2,3) by metis
  with assms(1) show ?thesis by simp
qed

text \<open>What a memo table holds: under a joined text the hash of the names it joins.\<close>

definition memo_ok :: "(string \<Rightarrow> string) \<Rightarrow> (string \<rightharpoonup> string) \<Rightarrow> bool" where
  "memo_ok digest memo \<longleftrightarrow> (\<forall>key hash. memo key = Some hash \<longrightarrow> hash = calculateListHash digest (split_byte (CHR '','') key))"

definition caches_ok :: "(string \<Rightarrow> string) \<Rightarrow> key_caches \<Rightarrow> bool" where
  "caches_ok digest kc \<longleftrightarrow> memo_ok digest (channelHashCache kc) \<and> memo_ok digest (pluginHashCache kc)"

lemma memo_hash_transparent:
  assumes "memo_ok digest memo" and "items \<noteq> []" and "\<forall>x\<in>set items. CHR '','' \<notin> set x"
  shows "fst (memo_hash digest items memo) = calculateListHash digest items \<and> memo_ok digest (snd (memo_hash digest items memo))"
proof -
  have split: "split_byte (CHR '','') (join_with '','' items) = items" using assms(2,3) by (rule split_join)
  have "hash = calculateListHash digest items" if "memo (join_with '','' items) = Some hash" for hash
    using assms(1) that split unfolding memo_ok_def by metis
  then show ?thesis using assms(1) split by (auto simp: memo_hash_def memo_ok_def Let_def split: option.splits)
qed

text \<open>The list part of a key, without the memo tables.\<close>

definition list_part :: "(string \<Rightarrow> string) \<Rightarrow> string \<Rightarrow> string list \<Rightarrow> string list \<Rightarrow> string" where
  "list_part digest every given names =
     (if names = [] then every
      else if length given < 5 then join_with '','' (sort names) else calculateListHash digest (sort names))"

lemma getChannelsHash_part:
  assumes "caches_ok digest kc" and "\<forall>x\<in>set channels. CHR '','' \<notin> set x"
  shows "fst (getChannelsHash digest channels kc) = list_part digest ''all'' channels channels
       \<and> caches_ok digest (snd (getChannelsHash digest channels kc))"
  using assms memo_hash_transparent [of digest "channelHashCache kc" "sort channels"]
  by (auto simp: getChannelsHash_def list_part_def allChannelsHash_def caches_ok_def sort_nonempty split: prod.split)

lemma getPluginsHash_part:
  assumes "caches_ok digest kc" and "\<forall>x\<in>set plugins. CHR '','' \<notin> set x"
  shows "fst (getPluginsHash digest registered plugins kc)
         = list_part digest (allPluginsHash digest registered) plugins (filter (\<lambda>p. p \<noteq> []) plugins)
       \<and> caches_ok digest (snd (getPluginsHash digest registered plugins kc))"
proof -
  have "list_all (\<lambda>p. p = []) plugins \<longleftrightarrow> filter (\<lambda>p. p \<noteq> []) plugins = []"
    by (simp add: list_all_iff filter_empty_conv)
  then show ?thesis
    using assms memo_hash_transparent [of digest "pluginHashCache kc" "sort (filter (\<lambda>p. p \<noteq> []) plugins)"]
    by (auto simp: getPluginsHash_def list_part_def caches_ok_def sort_nonempty split: prod.split)
qed

text \<open>Canonical channel names hold neither separator and are longer than \<open>all\<close>.\<close>

lemma canonical_bytes:
  assumes "publicChannelPattern s"
  shows "CHR '','' \<notin> set s" and "CHR '':'' \<notin> set s"
proof -
  have "\<not> is_channel_byte (CHR '','')" "\<not> is_channel_byte (CHR '':'')" by code_simp+
  then show "CHR '','' \<notin> set s" "CHR '':'' \<notin> set s" using pattern_bytes [OF assms] by blast+
qed

lemma join_bytes: "c \<in> set (join_with sep xs) \<Longrightarrow> c \<in> set sep \<or> (\<exists>x\<in>set xs. c \<in> set x)"
  by (induction sep xs rule: join_with.induct) auto

lemma join_longer: "x \<in> set xs \<Longrightarrow> length x \<le> length (join_with sep xs)"
  by (induction sep xs rule: join_with.induct) auto

lemma small_list_part:
  assumes "\<forall>c\<in>set xs. publicChannelPattern c" and "\<forall>c\<in>set ys. publicChannelPattern c"
    and "length xs < 5" and "length ys < 5" and "list_part digest ''all'' xs xs = list_part digest ''all'' ys ys"
  shows "mset xs = mset ys"
proof -
  have longer: "join_with '','' (sort zs) \<noteq> ''all''" if "zs \<noteq> []" "\<forall>c\<in>set zs. publicChannelPattern c" for zs
  proof -
    obtain z where "z \<in> set zs" using \<open>zs \<noteq> []\<close> by (cases zs) auto
    then have "5 \<le> length (join_with '','' (sort zs))"
      using that(2) pattern_length [of z] join_longer [of z "sort zs" "'',''"] by force
    then show ?thesis by auto
  qed
  have "sort xs = sort ys" if "xs \<noteq> []" "ys \<noteq> []"
    using assms that canonical_bytes(1) join_inj [of "sort xs" "sort ys"] by (simp add: list_part_def sort_nonempty)
  with assms longer show ?thesis by (auto simp: list_part_def sort_eq_mset split: if_splits)
qed

lemma list_part_colon:
  assumes "\<forall>c\<in>set xs. publicChannelPattern c" and "length xs < 5"
  shows "CHR '':'' \<notin> set (list_part digest ''all'' xs xs)"
  using assms canonical_bytes(2) by (auto simp: list_part_def dest!: join_bytes)

section \<open>Properties\<close>

text \<open>C36: The key of a Telegram search over canonical channels depends only on the normalised keyword and on which
  channels are searched, not on their order nor on what has been memoised; and two searches over fewer than
  five channels each have the same key only if keyword and channels agree, unless MD5 collides on their texts.\<close>

theorem tg_cache_key:
  assumes "caches_ok digest kc" and "caches_ok digest kc'"
    and "\<forall>c\<in>set channels. publicChannelPattern c" and "\<forall>c\<in>set channels'. publicChannelPattern c"
  shows "(fold_key keyword = fold_key keyword' \<and> mset channels = mset channels' \<longrightarrow>
            fst (GenerateTGCacheKey digest keyword channels kc) = fst (GenerateTGCacheKey digest keyword' channels' kc'))
       \<and> (length channels < 5 \<and> length channels' < 5
          \<and> inj_on digest {tg_key_text (fold_key keyword) (fst (getChannelsHash digest channels kc)),
                        tg_key_text (fold_key keyword') (fst (getChannelsHash digest channels' kc'))}
          \<and> fst (GenerateTGCacheKey digest keyword channels kc) = fst (GenerateTGCacheKey digest keyword' channels' kc') \<longrightarrow>
            fold_key keyword = fold_key keyword' \<and> mset channels = mset channels')"
proof (intro conjI impI; (elim conjE)?)
  have part: "fst (getChannelsHash digest channels kc) = list_part digest ''all'' channels channels"
    "fst (getChannelsHash digest channels' kc') = list_part digest ''all'' channels' channels'"
    using assms canonical_bytes(1) getChannelsHash_part by metis+
  have key: "fst (GenerateTGCacheKey digest k cs c) = digest (tg_key_text (fold_key k) (fst (getChannelsHash digest cs c)))" for k cs c
    by (simp add: GenerateTGCacheKey_def split: prod.split)
  {
    assume fold: "fold_key keyword = fold_key keyword'" and same: "mset channels = mset channels'"
    have "sort channels = sort channels'" "length channels = length channels'" "channels = [] \<longleftrightarrow> channels' = []"
      using same by (auto simp: sort_eq_mset dest: mset_eq_length)
    with fold show "fst (GenerateTGCacheKey digest keyword channels kc) = fst (GenerateTGCacheKey digest keyword' channels' kc')"
      by (simp add: key part list_part_def)
  next
    assume small: "length channels < 5" "length channels' < 5"
      and inj: "inj_on digest {tg_key_text (fold_key keyword) (fst (getChannelsHash digest channels kc)),
                     tg_key_text (fold_key keyword') (fst (getChannelsHash digest channels' kc'))}"
      and same: "fst (GenerateTGCacheKey digest keyword channels kc) = fst (GenerateTGCacheKey digest keyword' channels' kc')"
    have "tg_key_text (fold_key keyword) (list_part digest ''all'' channels channels)
        = tg_key_text (fold_key keyword') (list_part digest ''all'' channels' channels')"
      using inj_onD [OF inj] same unfolding key part by blast
    then have "(''tg:'' @ fold_key keyword) @ CHR '':'' # list_part digest ''all'' channels channels
        = (''tg:'' @ fold_key keyword') @ CHR '':'' # list_part digest ''all'' channels' channels'"
      unfolding tg_key_text_def append_assoc append_Cons append_Nil .
    then have parts: "fold_key keyword = fold_key keyword'
        \<and> list_part digest ''all'' channels channels = list_part digest ''all'' channels' channels'"
      using last_colon [OF _ list_part_colon [OF assms(3) small(1)] list_part_colon [OF assms(4) small(2)]]
      unfolding same_append_eq by blast
    then show "fold_key keyword = fold_key keyword'" by simp
    show "mset channels = mset channels'" using small_list_part [OF assms(3,4) small] parts by metis
  }
qed

definition no_memo :: key_caches where
  "no_memo = \<lparr>channelHashCache = Map.empty, pluginHashCache = Map.empty\<rparr>"

lemma no_memo_ok: "caches_ok digest no_memo"
  by (simp add: no_memo_def caches_ok_def memo_ok_def)

lemma demo_channels: "publicChannelPattern ''tgnews''" "publicChannelPattern ''movie''"
  by code_simp+

theorem tg_cache_key_witness:
  "fst (GenerateTGCacheKey (\<lambda>s. s) '' Film'' [''tgnews'', ''movie''] no_memo)
     = fst (GenerateTGCacheKey (\<lambda>s. s) ''film '' [''movie'', ''tgnews''] no_memo)
   \<and> fst (GenerateTGCacheKey (\<lambda>s. s) ''film'' [''movie''] no_memo) \<noteq> fst (GenerateTGCacheKey (\<lambda>s. s) ''film'' [''tgnews''] no_memo)"
proof
  have f: "fold_key '' Film'' = fold_key ''film ''" by code_simp
  show "fst (GenerateTGCacheKey (\<lambda>s. s) '' Film'' [''tgnews'', ''movie''] no_memo)
     = fst (GenerateTGCacheKey (\<lambda>s. s) ''film '' [''movie'', ''tgnews''] no_memo)"
    using tg_cache_key [OF no_memo_ok no_memo_ok, where digest = "\<lambda>s. s" and channels = "[''tgnews'', ''movie'']"
      and channels' = "[''movie'', ''tgnews'']" and keyword = "'' Film''" and keyword' = "''film ''"] f demo_channels
    by (simp add: add_mset_commute)
  have "mset [''movie''] \<noteq> mset [''tgnews'']" by simp
  then show "fst (GenerateTGCacheKey (\<lambda>s. s) ''film'' [''movie''] no_memo) \<noteq> fst (GenerateTGCacheKey (\<lambda>s. s) ''film'' [''tgnews''] no_memo)"
    using tg_cache_key [OF no_memo_ok no_memo_ok, where digest = "\<lambda>s. s" and channels = "[''movie'']"
      and channels' = "[''tgnews'']" and keyword = "''film''" and keyword' = "''film''"] demo_channels
    by auto
qed

text \<open>From five channels on the names are hashed without a separator, so two different sets of canonical
  channels share one key, whatever the hash function: each gets the cached results of the other.\<close>

theorem channel_lists_share_key:
  "\<exists>a b. set a \<noteq> set b \<and> list_all publicChannelPattern (a @ b)
       \<and> fst (GenerateTGCacheKey digest keyword a no_memo) = fst (GenerateTGCacheKey digest keyword b no_memo)"
proof (intro exI conjI)
  let ?a = "[''books'', ''strange'', ''video'', ''video2'', ''video3'']"
  let ?b = "[''bookss'', ''trange'', ''video'', ''video2'', ''video3'']"
  have "''books'' \<in> set ?a" "''books'' \<notin> set ?b" by simp_all
  then show "set ?a \<noteq> set ?b" by blast
  show "list_all publicChannelPattern (?a @ ?b)" by code_simp
  show "fst (GenerateTGCacheKey digest keyword ?a no_memo) = fst (GenerateTGCacheKey digest keyword ?b no_memo)"
    by (simp add: GenerateTGCacheKey_def getChannelsHash_def memo_hash_def no_memo_def calculateListHash_def Let_def)
qed

end
