(* ===== verification/Tg_Search.thy ===== *)
theory Tg_Search
  imports Search_Cache Search_Request Cache_Key Search_Trace
begin

text \<open>
  The Telegram part of a live search, \<open>searchTGWithStatus\<close> and \<open>scheduleTGChannelRefresh\<close> of
  \<^verbatim>\<open>src/service/search_service.go\<close>: the aggregate cache, the cache of each channel, the channels that are asked,
  and the batch made of their answers. What the scheduler's \<open>Execute\<close> delivers for the channels it is given,
  in any order, is the parameter \<open>exec\<close>, with the answers that the tasks have written to the channel caches;
  \<open>rd\<close> gives the clock readings and map orders of the cache operations. The goroutine that writes the
  aggregate to the cache is a job in the state, run by \<open>run_cache_write\<close>. The configuration is loaded.
\<close>

section \<open>Model: batches and the state of a search\<close>

record sourceSearchBatch =
  sb_Results :: "SearchResult list"
  sb_Complete :: bool
  sb_PartialSources :: "string list"
  sb_SourceStatuses :: "(string \<times> SourceStatus) list option"
  sb_Execution :: SearchExecution

definition completeSourceSearchBatch :: sourceSearchBatch where
  "completeSourceSearchBatch = \<lparr>sb_Results = [], sb_Complete = True, sb_PartialSources = [], sb_SourceStatuses = None,
     sb_Execution = no_execution\<rparr>"

record live_config =
  vc_cacheEnabled :: bool
  vc_CacheTTLMinutes :: int
  vc_TGSearchWorkers :: int
  vc_SearchPerRequestTG :: int
  vc_SearchPerRequestPlugin :: int
  vc_SearchTieredRollout :: bool
  vc_DefaultConcurrency :: int
  vc_AsyncPluginEnabled :: bool

record cache_write =
  cw_key :: string
  cw_results :: "SearchResult list"
  cw_complete :: bool
  cw_plan :: SearchExecution

record search_state =
  st_cache :: "TwoLevelCache option"
  st_keys :: key_caches
  st_marks :: "SearchCacheStatus list"
  st_refreshing :: "string list"
  st_writes :: "cache_write list"

definition mark_status :: "SearchCacheStatus \<Rightarrow> search_state \<Rightarrow> search_state" where
  "mark_status s st = st\<lparr>st_marks := st_marks st @ [s]\<rparr>"

definition load_entry :: "store_env \<Rightarrow> readings \<Rightarrow> string \<Rightarrow> search_state \<Rightarrow>
    (cachedSearchResults \<times> bool \<times> search_cache_error option) \<times> search_state" where
  "load_entry env r key st =
     (case loadCachedSearch env r key (st_cache st) of (answer, cache) \<Rightarrow> (answer, st\<lparr>st_cache := cache\<rparr>))"

text \<open>The aggregate lookup that both kinds of sources begin with: a complete entry that covers the request, or
  the entry that seeds the search, with the report to the trace.\<close>

definition consult_cache :: "store_env \<Rightarrow> readings \<Rightarrow> string \<Rightarrow> bool \<Rightarrow> bool \<Rightarrow> (cachedSearchResults \<Rightarrow> bool) \<Rightarrow> search_state \<Rightarrow>
    (cachedSearchResults option \<times> cachedSearchResults) \<times> search_state" where
  "consult_cache env r key look forceRefresh covers st =
     (if look
      then (case load_entry env r key st of
              ((cached, hit, err), st) \<Rightarrow>
                if err = None \<and> hit \<and> ch_Complete cached \<and> covers cached
                then ((Some cached, nothing_cached), mark_status CacheHit st)
                else if err \<noteq> None then ((None, nothing_cached), mark_status CacheBypass st)
                else ((None, if hit then cached else nothing_cached), mark_status CacheMiss st))
      else ((None, nothing_cached), if \<not> forceRefresh then mark_status CacheBypass st else st))"

definition cached_execution :: "SearchExecution \<Rightarrow> cachedSearchResults \<Rightarrow> SearchExecution" where
  "cached_execution fallback cached =
     (case ch_Execution cached of
        None \<Rightarrow> fallback
      | Some e \<Rightarrow> e\<lparr>se_Cached := se_Executed e + se_Cached e, se_Executed := 0\<rparr>)"

definition cache_ttl :: "live_config \<Rightarrow> duration" where
  "cache_ttl cfg = vc_CacheTTLMinutes cfg * Minute"

text \<open>The goroutine that merges a finished search into the aggregate entry.\<close>

definition run_cache_write :: "store_env \<Rightarrow> live_config \<Rightarrow> readings \<Rightarrow> cache_write \<Rightarrow> search_state \<Rightarrow> search_state" where
  "run_cache_write env cfg r w st =
     st\<lparr>st_cache := snd (mergeAndStoreCachedSearchWithExecution env r (cw_key w) (cw_results w)
                        (aggregateSearchCacheTTL (cw_results w) (cw_complete w) (cache_ttl cfg)) (cw_complete w)
                        (Some (cw_plan w)) (st_cache st))\<rparr>"

section \<open>Model: channels\<close>

definition refresh_key :: "string \<Rightarrow> string \<Rightarrow> string" where
  "refresh_key keyword channel = keyword @ CHR 0x00 # channel"

definition scheduleTGChannelRefresh :: "string \<Rightarrow> string \<Rightarrow> search_state \<Rightarrow> search_state" where
  "scheduleTGChannelRefresh keyword channel st =
     (if refresh_key keyword channel \<in> set (st_refreshing st) then st
      else st\<lparr>st_refreshing := refresh_key keyword channel # st_refreshing st\<rparr>)"

text \<open>The goroutine of a refresh: \<open>found\<close> is what the channel has answered, \<open>None\<close> if the scheduler refused
  the search or the channel failed.\<close>

definition run_channel_refresh :: "store_env \<Rightarrow> live_config \<Rightarrow> readings \<Rightarrow> (string \<Rightarrow> string) \<Rightarrow> string \<Rightarrow> string \<Rightarrow>
    SearchResult list option \<Rightarrow> search_state \<Rightarrow> search_state" where
  "run_channel_refresh env cfg r digest keyword channel found st =
     (let freshTTL = (if vc_CacheTTLMinutes cfg > 0 then cache_ttl cfg else Hour);
          st = (case found of
                  None \<Rightarrow> st
                | Some results \<Rightarrow>
                    if vc_cacheEnabled cfg \<and> st_cache st \<noteq> None
                    then st\<lparr>st_cache := snd (storeFreshCachedSearch env r (GenerateTGChannelCacheKey digest keyword channel)
                                               results freshTTL tgChannelStaleGrace None (st_cache st))\<rparr>
                    else st)
      in st\<lparr>st_refreshing := filter (\<lambda>k. k \<noteq> refresh_key keyword channel) (st_refreshing st)\<rparr>)"

definition tgSearchWorkerCount :: "live_config \<Rightarrow> int \<Rightarrow> int" where
  "tgSearchWorkerCount cfg channelCount =
     (if channelCount \<le> 0 then 0
      else let limit = (if vc_TGSearchWorkers cfg > 0 then vc_TGSearchWorkers cfg else 20)
           in if channelCount > limit then limit else channelCount)"

definition tg_workers :: "live_config \<Rightarrow> nat \<Rightarrow> int" where
  "tg_workers cfg tasks =
     (let workers = tgSearchWorkerCount cfg (int tasks)
      in if vc_SearchPerRequestTG cfg > 0 \<and> workers > vc_SearchPerRequestTG cfg then vc_SearchPerRequestTG cfg else workers)"

record tgChannelSearchResult =
  to_Channel :: string
  to_Results :: "SearchResult list"
  to_Failed :: bool

text \<open>A result of \<open>Execute\<close>: the value, \<open>None\<close> when the task was refused, and whether it carries an error. The
  second component lists the successful answers in the order in which the tasks stored them.\<close>

type_synonym tg_execution = "(tgChannelSearchResult option \<times> bool) list \<times> (readings \<times> string \<times> SearchResult list) list"

definition store_channel :: "store_env \<Rightarrow> live_config \<Rightarrow> (string \<Rightarrow> string) \<Rightarrow> string \<Rightarrow> search_state \<Rightarrow>
    readings \<times> string \<times> SearchResult list \<Rightarrow> search_state" where
  "store_channel env cfg digest keyword st answer =
     (case answer of
        (r, channel, results) \<Rightarrow>
          if vc_cacheEnabled cfg \<and> st_cache st \<noteq> None
          then st\<lparr>st_cache := snd (storeFreshCachedSearch env r (GenerateTGChannelCacheKey digest keyword channel) results
                                     (cache_ttl cfg) tgChannelStaleGrace None (st_cache st))\<rparr>
          else st)"

text \<open>The loop over the channels: the results found in the cache, the channels they belong to, how many of them
  are stale, and the channels left to ask.\<close>

record channel_scan =
  sn_results :: "SearchResult list"
  sn_cached :: "string list"
  sn_stale :: nat
  sn_tasks :: "string list"

definition empty_scan :: channel_scan where
  "empty_scan = \<lparr>sn_results = [], sn_cached = [], sn_stale = 0, sn_tasks = []\<rparr>"

fun scan_channels :: "store_env \<Rightarrow> (string \<Rightarrow> readings) \<Rightarrow> (string \<Rightarrow> string) \<Rightarrow> bool \<Rightarrow> string \<Rightarrow> string list \<Rightarrow> channel_scan \<Rightarrow>
    search_state \<Rightarrow> channel_scan \<times> search_state" where
  "scan_channels env rd digest look keyword [] sn st = (sn, st)"
| "scan_channels env rd digest look keyword (channel # channels) sn st =
     (let channelKey = GenerateTGChannelCacheKey digest keyword channel;
          ((cached, hit, err), st) = (if look then load_entry env (rd channelKey) channelKey st
                                      else ((nothing_cached, False, None), st))
      in if look \<and> err = None \<and> hit \<and> ch_Complete cached
         then let stale = \<not> fresh (rd_store (rd channelKey)) cached;
                  st = (if stale then scheduleTGChannelRefresh keyword channel st else st)
              in scan_channels env rd digest look keyword channels
                   (sn\<lparr>sn_results := sn_results sn @ ch_Results cached, sn_cached := sn_cached sn @ [channel],
                       sn_stale := (if stale then Suc (sn_stale sn) else sn_stale sn)\<rparr>) st
         else scan_channels env rd digest look keyword channels (sn\<lparr>sn_tasks := sn_tasks sn @ [channel]\<rparr>) st)"

text \<open>The loop over the results: completeness, the channels that finished, the partial sources, the results.\<close>

record tg_collected =
  tc_complete :: bool
  tc_finished :: "string list"
  tc_partial :: "string list"
  tc_results :: "SearchResult list"

definition collect_tg :: "tg_collected \<Rightarrow> tgChannelSearchResult option \<times> bool \<Rightarrow> tg_collected" where
  "collect_tg c result =
     (case fst result of
        None \<Rightarrow> c\<lparr>tc_complete := False\<rparr>
      | Some outcome \<Rightarrow>
          let c = c\<lparr>tc_finished := to_Channel outcome # tc_finished c\<rparr>
          in if to_Failed outcome \<or> snd result
             then c\<lparr>tc_complete := False, tc_partial := tc_partial c @ [''tg:'' @ to_Channel outcome]\<rparr>
             else c\<lparr>tc_results := tc_results c @ to_Results outcome\<rparr>)"

definition tg_look :: "live_config \<Rightarrow> bool \<Rightarrow> search_state \<Rightarrow> bool" where
  "tg_look cfg forceRefresh st \<longleftrightarrow> \<not> forceRefresh \<and> vc_cacheEnabled cfg \<and> st_cache st \<noteq> None"

definition channel_execution :: "string list \<Rightarrow> channel_scan \<Rightarrow> nat \<Rightarrow> SearchExecution" where
  "channel_execution channels sn delivered =
     (let cachedCount = int (length channels) - int (length (sn_tasks sn))
      in \<lparr>se_Requested = int (length channels), se_Executed = int delivered, se_Cached = cachedCount, se_Deferred = 0,
          se_Completed = cachedCount + int delivered, se_Cancelled = int (length (sn_tasks sn)) - int delivered,
          se_Strategy = (if sn_stale sn > 0 then ''channel-cache-swr'' else ''channel-cache'')\<rparr>)"

text \<open>\<open>order\<close> is the order in which the final merge iterates its map; \<open>admitted\<close> is the answer of the admission,
  which is asked only when a channel has to be searched.\<close>

definition searchTGWithStatus :: "store_env \<Rightarrow> live_config \<Rightarrow> (string \<Rightarrow> readings) \<Rightarrow> (string \<Rightarrow> string) \<Rightarrow>
    (SearchResult list \<Rightarrow> SearchResult list) \<Rightarrow> 'x option \<Rightarrow> (int \<Rightarrow> string list \<Rightarrow> tg_execution) \<Rightarrow> string \<Rightarrow> string list \<Rightarrow> bool \<Rightarrow>
    search_state \<Rightarrow> ('x + sourceSearchBatch) \<times> search_state" where
  "searchTGWithStatus env cfg rd digest order refused exec keyword channels forceRefresh st =
     (let (cacheKey, keys) = GenerateTGCacheKey digest keyword channels (st_keys st);
          st = st\<lparr>st_keys := keys\<rparr>;
          look = tg_look cfg forceRefresh st
      in case consult_cache env (rd cacheKey) cacheKey look forceRefresh (\<lambda>_. True) st of
           ((Some cached, _), st) \<Rightarrow>
             (Inr \<lparr>sb_Results = ch_Results cached, sb_Complete = True, sb_PartialSources = [], sb_SourceStatuses = None,
                   sb_Execution = cached_execution
                     (no_execution\<lparr>se_Requested := int (length channels), se_Cached := int (length channels),
                                   se_Strategy := ''channel-cache''\<rparr>) cached\<rparr>, st)
         | ((None, seed), st) \<Rightarrow>
             let (sn, st) = scan_channels env rd digest look keyword channels empty_scan st
             in if sn_tasks sn \<noteq> [] \<and> refused \<noteq> None then (Inl (the refused), st)
                else let (results, stored) = exec (tg_workers cfg (length (sn_tasks sn))) (sn_tasks sn);
                         st = foldl (store_channel env cfg digest keyword) st stored;
                         c = foldl collect_tg
                               \<lparr>tc_complete = (length results = length (sn_tasks sn)), tc_finished = sn_cached sn,
                                tc_partial = [], tc_results = sn_results sn\<rparr> results;
                         partialSources = tc_partial c @
                           map (\<lambda>ch. ''tg:'' @ ch) (filter (\<lambda>ch. ch \<notin> set (tc_finished c)) channels);
                         merged = mergeSearchResults order (ch_Results seed) (tc_results c);
                         execution = channel_execution channels sn (length results);
                         st = (if vc_cacheEnabled cfg
                               then st\<lparr>st_writes := st_writes st @
                                      [\<lparr>cw_key = cacheKey, cw_results = merged, cw_complete = tc_complete c, cw_plan = execution\<rparr>]\<rparr>
                               else st)
                     in (Inr \<lparr>sb_Results = merged, sb_Complete = tc_complete c, sb_PartialSources = partialSources,
                              sb_SourceStatuses = None, sb_Execution = execution\<rparr>, st))"

section \<open>Lemmas\<close>

lemma load_entry_fields:
  assumes "load_entry env r key st = (answer, st')"
  shows "st_keys st' = st_keys st" "st_marks st' = st_marks st" "st_refreshing st' = st_refreshing st" "st_writes st' = st_writes st"
  using assms by (auto simp: load_entry_def split: prod.splits)

lemma consult_cases:
  assumes "consult_cache env r key look forceRefresh covers st = ((found, seed), st')"
  obtains cached where "look" "found = Some cached" "ch_Complete cached" "covers cached"
      "fst (load_entry env r key st) = (cached, True, None)" "st_writes st' = st_writes st" "st_marks st' = st_marks st @ [CacheHit]"
  | "found = None" "st_writes st' = st_writes st"
  using assms load_entry_fields [of env r key st]
  by (auto simp: consult_cache_def mark_status_def split: if_splits prod.splits)

lemma scan_channels_spec:
  assumes "scan_channels env rd digest look keyword channels sn st = (sn', st')"
  obtains cs ts where "sn_cached sn' = sn_cached sn @ cs" and "sn_tasks sn' = sn_tasks sn @ ts"
    and "mset cs + mset ts = mset channels" and "st_writes st' = st_writes st" and "\<not> look \<longrightarrow> cs = [] \<and> ts = channels"
    and "st_marks st' = st_marks st" and "st_keys st' = st_keys st"
  using assms
proof (induction channels arbitrary: sn st thesis)
  case (Cons channel channels)
  define key where "key = GenerateTGChannelCacheKey digest keyword channel"
  obtain cached hit err st1 where l: "(if look then load_entry env (rd key) key st else ((nothing_cached, False, None), st))
      = ((cached, hit, err), st1)" by (metis prod.collapse)
  have st1: "st_writes st1 = st_writes st" "st_marks st1 = st_marks st" "st_keys st1 = st_keys st"
    using l load_entry_fields by (auto split: if_splits)
  show ?case
  proof (cases "look \<and> err = None \<and> hit \<and> ch_Complete cached")
    case True
    define stale where "stale = (\<not> fresh (rd_store (rd key)) cached)"
    define sn1 where "sn1 = sn\<lparr>sn_results := sn_results sn @ ch_Results cached, sn_cached := sn_cached sn @ [channel],
                       sn_stale := (if stale then Suc (sn_stale sn) else sn_stale sn)\<rparr>"
    define st2 where "st2 = (if stale then scheduleTGChannelRefresh keyword channel st1 else st1)"
    have st2: "st_writes st2 = st_writes st" "st_marks st2 = st_marks st" "st_keys st2 = st_keys st"
      using st1 by (simp_all add: st2_def scheduleTGChannelRefresh_def)
    have "scan_channels env rd digest look keyword channels sn1 st2 = (sn', st')"
      using Cons.prems(2) l True by (simp add: Let_def key_def [symmetric] sn1_def st2_def stale_def)
    then obtain cs ts where "sn_cached sn' = sn_cached sn1 @ cs" "sn_tasks sn' = sn_tasks sn1 @ ts"
      "mset cs + mset ts = mset channels" "st_writes st' = st_writes st2" "st_marks st' = st_marks st2" "st_keys st' = st_keys st2"
      by (rule Cons.IH [rotated])
    then show ?thesis using Cons.prems(1) [of "channel # cs" ts] True st2 by (simp add: sn1_def)
  next
    case False
    define sn1 where "sn1 = sn\<lparr>sn_tasks := sn_tasks sn @ [channel]\<rparr>"
    have "scan_channels env rd digest look keyword channels sn1 st1 = (sn', st')"
      using Cons.prems(2) l False by (auto simp: Let_def key_def [symmetric] sn1_def)
    then obtain cs ts where "sn_cached sn' = sn_cached sn1 @ cs" "sn_tasks sn' = sn_tasks sn1 @ ts"
      "mset cs + mset ts = mset channels" "st_writes st' = st_writes st1" "\<not> look \<longrightarrow> cs = [] \<and> ts = channels"
      "st_marks st' = st_marks st1" "st_keys st' = st_keys st1"
      by (rule Cons.IH [rotated])
    then show ?thesis using Cons.prems(1) [of cs "channel # ts"] st1 by (simp add: sn1_def)
  qed
qed simp

text \<open>A result that delivers the answer of its channel.\<close>

definition delivers :: "tgChannelSearchResult option \<times> bool \<Rightarrow> bool" where
  "delivers result \<longleftrightarrow> (case fst result of None \<Rightarrow> False | Some out \<Rightarrow> \<not> to_Failed out \<and> \<not> snd result)"

definition outcomes :: "(tgChannelSearchResult option \<times> bool) list \<Rightarrow> tgChannelSearchResult list" where
  "outcomes results = List.map_filter fst results"

text \<open>What \<open>Execute\<close> guarantees: at most one result for each task it was given.\<close>

definition executes_channels :: "string list \<Rightarrow> (tgChannelSearchResult option \<times> bool) list \<Rightarrow> bool" where
  "executes_channels tasks results \<longleftrightarrow>
     length results \<le> length tasks \<and> distinct (map to_Channel (outcomes results))
     \<and> set (map to_Channel (outcomes results)) \<subseteq> set tasks"

definition delivered :: "(tgChannelSearchResult option \<times> bool) list \<Rightarrow> tgChannelSearchResult list" where
  "delivered results = map (\<lambda>r. the (fst r)) (filter delivers results)"

definition undelivered :: "(tgChannelSearchResult option \<times> bool) list \<Rightarrow> string list" where
  "undelivered results = map (\<lambda>r. to_Channel (the (fst r))) (filter (\<lambda>r. fst r \<noteq> None \<and> \<not> delivers r) results)"

lemma outcomes_simps [simp]:
  "outcomes [] = []"
  "outcomes (r # rs) = (case fst r of None \<Rightarrow> outcomes rs | Some out \<Rightarrow> out # outcomes rs)"
  by (simp_all add: outcomes_def List.map_filter_def split: option.split)

lemma delivered_simps [simp]:
  "delivered [] = []"
  "delivered (r # rs) = (if delivers r then the (fst r) # delivered rs else delivered rs)"
  by (simp_all add: delivered_def)

lemma undelivered_simps [simp]:
  "undelivered [] = []"
  "undelivered (r # rs) =
     (if fst r \<noteq> None \<and> \<not> delivers r then to_Channel (the (fst r)) # undelivered rs else undelivered rs)"
  by (simp_all add: undelivered_def)

lemma delivered_outcomes: "set (delivered results) \<subseteq> set (outcomes results)"
  by (induction results) (auto simp: delivers_def split: option.splits)

lemma outcomes_length: "length (outcomes results) \<le> length results"
  by (induction results) (auto split: option.split)

lemma collect_tg_spec:
  "tc_complete (foldl collect_tg c results) \<longleftrightarrow> tc_complete c \<and> list_all delivers results"
  "set (tc_finished (foldl collect_tg c results)) = set (tc_finished c) \<union> to_Channel ` set (outcomes results)"
  "tc_partial (foldl collect_tg c results) = tc_partial c @ map (\<lambda>ch. ''tg:'' @ ch) (undelivered results)"
  "tc_results (foldl collect_tg c results) = tc_results c @ concat (map to_Results (delivered results))"
  by (induction results arbitrary: c)
    (auto simp: collect_tg_def delivers_def Let_def split: option.splits)

lemma finished_channels: "to_Channel ` set (outcomes results) = to_Channel ` set (delivered results) \<union> set (undelivered results)"
  by (induction results) (auto simp: delivers_def split: option.splits)

lemma outcomes_apart:
  assumes "distinct (map to_Channel (outcomes results))"
  shows "to_Channel ` set (delivered results) \<inter> set (undelivered results) = {}"
  using assms
proof (induction results)
  case (Cons r results)
  then show ?case using finished_channels [of results] by (auto simp: delivers_def split: option.splits)
qed simp

lemma delivered_distinct:
  assumes "distinct (map to_Channel (outcomes results))"
  shows "distinct (map to_Channel (delivered results))"
  using assms delivered_outcomes
  by (induction results) (auto simp: delivers_def split: option.splits)

lemma delivered_length: "length (delivered results) = length results \<longleftrightarrow> list_all delivers results"
  by (simp add: delivered_def list_all_iff) (metis filter_True length_filter_less linorder_neq_iff)

section \<open>Properties\<close>

text \<open>An answer that is not the cached one accounts for every channel: each channel was found complete in its
  cache or was asked; the partial sources are exactly the asked channels that did not deliver; the batch is
  complete exactly when there are none; and the results are, key for key, those of the entry that seeded the
  search, of the channel caches and of the channels that delivered. The counts add up.\<close>

theorem tg_search_accounts:
  assumes run: "searchTGWithStatus env cfg rd digest order refused exec keyword channels forceRefresh st = (Inr batch, st')"
    and miss: "consult_cache env (rd cacheKey) cacheKey (tg_look cfg forceRefresh st) forceRefresh (\<lambda>_. True) (st\<lparr>st_keys := keys\<rparr>) = ((None, seed), st1)"
    and key: "GenerateTGCacheKey digest keyword channels (st_keys st) = (cacheKey, keys)"
    and "distinct channels" and order: "\<And>xs. mset (order xs) = mset xs"
    and contract: "\<forall>workers tasks. distinct tasks \<longrightarrow> executes_channels tasks (fst (exec workers tasks))"
  defines "sn \<equiv> fst (scan_channels env rd digest (tg_look cfg forceRefresh st) keyword channels empty_scan st1)"
  defines "results \<equiv> fst (exec (tg_workers cfg (length (sn_tasks sn))) (sn_tasks sn))"
  shows "mset (sn_cached sn) + mset (sn_tasks sn) = mset channels
       \<and> set (sb_PartialSources batch) = (\<lambda>ch. ''tg:'' @ ch) ` (set (sn_tasks sn) - to_Channel ` set (delivered results))
       \<and> (sb_Complete batch \<longleftrightarrow> sb_PartialSources batch = [])
       \<and> generateResultKey ` set (sb_Results batch) =
           generateResultKey ` (set (ch_Results seed) \<union> set (sn_results sn) \<union> \<Union> (set ` to_Results ` set (delivered results)))
       \<and> se_Requested (sb_Execution batch)
           = se_Cached (sb_Execution batch) + se_Executed (sb_Execution batch) + se_Cancelled (sb_Execution batch)
       \<and> se_Cached (sb_Execution batch) = int (length (sn_cached sn)) \<and> 0 \<le> se_Cancelled (sb_Execution batch)
       \<and> (vc_cacheEnabled cfg \<longrightarrow> (\<exists>w. st_writes st' = st_writes st @ [w] \<and> cw_key w = cacheKey
            \<and> cw_results w = sb_Results batch \<and> cw_complete w = sb_Complete batch \<and> cw_plan w = sb_Execution batch))"
proof -
  obtain sn' st2 where scan: "scan_channels env rd digest (tg_look cfg forceRefresh st) keyword channels empty_scan st1 = (sn', st2)"
    by fastforce
  then have sn: "sn' = sn" by (simp add: sn_def)
  obtain cs ts where "sn_cached sn' = [] @ cs" "sn_tasks sn' = [] @ ts" "mset cs + mset ts = mset channels"
    and w2: "st_writes st2 = st_writes st1"
    using scan_channels_spec [OF scan] unfolding empty_scan_def channel_scan.simps by metis
  then have parts: "mset (sn_cached sn) + mset (sn_tasks sn) = mset channels" using sn by simp
  have w1: "st_writes st1 = st_writes st" using consult_cases [OF miss] by fastforce
  define c where "c = foldl collect_tg \<lparr>tc_complete = (length results = length (sn_tasks sn)), tc_finished = sn_cached sn,
      tc_partial = [], tc_results = sn_results sn\<rparr> results"
  define merged where "merged = mergeSearchResults order (ch_Results seed) (tc_results c)"
  have look: "tg_look cfg forceRefresh (st\<lparr>st_keys := keys\<rparr>) = tg_look cfg forceRefresh st" by (simp add: tg_look_def)
  have stored: "st_writes (foldl (store_channel env cfg digest keyword) s xs) = st_writes s" for s xs
    by (induction xs arbitrary: s) (auto simp: store_channel_def split: prod.split)
  have batch: "sb_Results batch = merged" "sb_Complete batch = tc_complete c"
    "sb_PartialSources batch = tc_partial c @ map (\<lambda>ch. ''tg:'' @ ch) (filter (\<lambda>ch. ch \<notin> set (tc_finished c)) channels)"
    "sb_Execution batch = channel_execution channels sn (length results)"
    "vc_cacheEnabled cfg \<Longrightarrow> st_writes st' = st_writes st @
       [\<lparr>cw_key = cacheKey, cw_results = merged, cw_complete = tc_complete c, cw_plan = channel_execution channels sn (length results)\<rparr>]"
  proof -
    have refused: "\<not> (sn_tasks sn \<noteq> [] \<and> refused \<noteq> None)"
    proof
      assume r: "sn_tasks sn \<noteq> [] \<and> refused \<noteq> None"
      have "searchTGWithStatus env cfg rd digest order refused exec keyword channels forceRefresh st = (Inl (the refused), st2)"
        by (simp add: searchTGWithStatus_def key look miss scan sn r)
      with run show False by simp
    qed
    define stored_st where "stored_st = foldl (store_channel env cfg digest keyword) st2
      (snd (exec (tg_workers cfg (length (sn_tasks sn))) (sn_tasks sn)))"
    have e: "exec (tg_workers cfg (length (sn_tasks sn))) (sn_tasks sn)
        = (results, snd (exec (tg_workers cfg (length (sn_tasks sn))) (sn_tasks sn)))" by (simp add: results_def)
    have "searchTGWithStatus env cfg rd digest order refused exec keyword channels forceRefresh st =
        (Inr \<lparr>sb_Results = merged, sb_Complete = tc_complete c,
              sb_PartialSources = tc_partial c @ map (\<lambda>ch. ''tg:'' @ ch) (filter (\<lambda>ch. ch \<notin> set (tc_finished c)) channels),
              sb_SourceStatuses = None, sb_Execution = channel_execution channels sn (length results)\<rparr>,
         if vc_cacheEnabled cfg
         then stored_st\<lparr>st_writes := st_writes stored_st @ [\<lparr>cw_key = cacheKey, cw_results = merged,
                cw_complete = tc_complete c, cw_plan = channel_execution channels sn (length results)\<rparr>]\<rparr>
         else stored_st)"
      unfolding searchTGWithStatus_def key prod.case Let_def look miss option.case scan sn
      by (subst e) (use refused in \<open>simp add: c_def merged_def stored_st_def\<close>)
    note r = run [unfolded this]
    have ws: "st_writes stored_st = st_writes st" unfolding stored_st_def stored w2 w1 ..
    show "sb_Results batch = merged" "sb_Complete batch = tc_complete c"
      "sb_PartialSources batch = tc_partial c @ map (\<lambda>ch. ''tg:'' @ ch) (filter (\<lambda>ch. ch \<notin> set (tc_finished c)) channels)"
      "sb_Execution batch = channel_execution channels sn (length results)"
      using r by auto
    show "st_writes st' = st_writes st @
       [\<lparr>cw_key = cacheKey, cw_results = merged, cw_complete = tc_complete c, cw_plan = channel_execution channels sn (length results)\<rparr>]"
      if "vc_cacheEnabled cfg" using r that ws by auto
  qed
  have tasks: "set (sn_cached sn) \<union> set (sn_tasks sn) = set channels" "distinct (sn_tasks sn)"
    "set (sn_cached sn) \<inter> set (sn_tasks sn) = {}" "length (sn_cached sn) + length (sn_tasks sn) = length channels"
  proof -
    show "set (sn_cached sn) \<union> set (sn_tasks sn) = set channels" using arg_cong [OF parts, of set_mset] by simp
    have "mset (sn_cached sn @ sn_tasks sn) = mset channels" using parts by simp
    then have "distinct (sn_cached sn @ sn_tasks sn)" using assms(4) by (metis mset_eq_imp_distinct_iff)
    then show "distinct (sn_tasks sn)" "set (sn_cached sn) \<inter> set (sn_tasks sn) = {}" by simp_all
    show "length (sn_cached sn) + length (sn_tasks sn) = length channels" using arg_cong [OF parts, of size] by simp
  qed
  have ok: "executes_channels (sn_tasks sn) results" using contract tasks(2) by (simp add: results_def)
  let ?good = "to_Channel ` set (delivered results)"
  have good: "?good \<union> set (undelivered results) \<subseteq> set (sn_tasks sn)" "?good \<inter> set (undelivered results) = {}"
    using ok finished_channels [of results] outcomes_apart [of results] by (auto simp: executes_channels_def)
  have partial: "set (sb_PartialSources batch) = (\<lambda>ch. ''tg:'' @ ch) ` (set (sn_tasks sn) - ?good)"
  proof -
    have "set (sb_PartialSources batch) = (\<lambda>ch. ''tg:'' @ ch) ` (set (undelivered results)
        \<union> (set channels - (set (sn_cached sn) \<union> (?good \<union> set (undelivered results)))))"
      by (simp add: batch c_def collect_tg_spec finished_channels image_Un set_diff_eq)
    also have "set (undelivered results) \<union> (set channels - (set (sn_cached sn) \<union> (?good \<union> set (undelivered results))))
        = set (sn_tasks sn) - ?good" using tasks(1,3) good by blast
    finally show ?thesis .
  qed
  have complete: "sb_Complete batch \<longleftrightarrow> sb_PartialSources batch = []"
  proof -
    have card: "card ?good = length (delivered results)" "card (set (sn_tasks sn)) = length (sn_tasks sn)"
    proof -
      have "distinct (map to_Channel (delivered results))" using ok delivered_distinct by (simp add: executes_channels_def)
      then show "card ?good = length (delivered results)" using distinct_card by fastforce
      show "card (set (sn_tasks sn)) = length (sn_tasks sn)" using tasks(2) by (rule distinct_card)
    qed
    have le: "length (delivered results) \<le> length results" "length results \<le> length (sn_tasks sn)"
      using ok by (simp_all add: delivered_def executes_channels_def)
    have "sb_Complete batch \<longleftrightarrow> length results = length (sn_tasks sn) \<and> length (delivered results) = length results"
      by (simp add: batch c_def collect_tg_spec delivered_length)
    also have "\<dots> \<longleftrightarrow> card ?good = card (set (sn_tasks sn))" using card le by linarith
    also have "\<dots> \<longleftrightarrow> set (sn_tasks sn) - ?good = {}"
    proof
      assume "card ?good = card (set (sn_tasks sn))"
      moreover have "?good \<subseteq> set (sn_tasks sn)" using good(1) by blast
      ultimately have "?good = set (sn_tasks sn)" by (intro card_subset_eq) simp_all
      then show "set (sn_tasks sn) - ?good = {}" by blast
    next
      assume "set (sn_tasks sn) - ?good = {}"
      with good(1) have "?good = set (sn_tasks sn)" by blast
      then show "card ?good = card (set (sn_tasks sn))" by simp
    qed
    also have "\<dots> \<longleftrightarrow> sb_PartialSources batch = []" using partial by (metis image_is_empty set_empty)
    finally show ?thesis .
  qed
  have keys: "generateResultKey ` set (sb_Results batch) =
      generateResultKey ` (set (ch_Results seed) \<union> set (sn_results sn) \<union> \<Union> (set ` to_Results ` set (delivered results)))"
  proof -
    have "\<forall>xs. mset (order xs) = mset xs" using order by blast
    then have "generateResultKey ` set merged = generateResultKey ` (set (ch_Results seed) \<union> set (tc_results c))"
      unfolding merged_def by (rule merged_keys)
    also have "set (tc_results c) = set (sn_results sn) \<union> \<Union> (set ` to_Results ` set (delivered results))"
      by (simp add: c_def collect_tg_spec)
    finally show ?thesis by (simp only: batch Un_assoc)
  qed
  have le: "length results \<le> length (sn_tasks sn)" using ok by (simp add: executes_channels_def)
  have counts: "se_Requested (sb_Execution batch)
      = se_Cached (sb_Execution batch) + se_Executed (sb_Execution batch) + se_Cancelled (sb_Execution batch)
    \<and> se_Cached (sb_Execution batch) = int (length (sn_cached sn)) \<and> 0 \<le> se_Cancelled (sb_Execution batch)"
    using le tasks(4) by (simp add: batch channel_execution_def Let_def)
  have "\<exists>w. st_writes st' = st_writes st @ [w] \<and> cw_key w = cacheKey
      \<and> cw_results w = sb_Results batch \<and> cw_complete w = sb_Complete batch \<and> cw_plan w = sb_Execution batch"
    if "vc_cacheEnabled cfg" using that by (simp add: batch)
  with parts partial complete keys counts show ?thesis by blast
qed

text \<open>Two channels, of which one fails; no cache.\<close>

definition tg_demo_config :: live_config where
  "tg_demo_config = \<lparr>vc_cacheEnabled = True, vc_CacheTTLMinutes = 60, vc_TGSearchWorkers = 0, vc_SearchPerRequestTG = 0,
     vc_SearchPerRequestPlugin = 0, vc_SearchTieredRollout = False, vc_DefaultConcurrency = 4, vc_AsyncPluginEnabled = True\<rparr>"

definition tg_demo_state :: search_state where
  "tg_demo_state = \<lparr>st_cache = None, st_keys = no_memo, st_marks = [], st_refreshing = [], st_writes = []\<rparr>"

definition tg_demo_exec :: "int \<Rightarrow> string list \<Rightarrow> tg_execution" where
  "tg_demo_exec workers tasks =
     (map (\<lambda>ch. (Some \<lparr>to_Channel = ch, to_Results = [demo_result], to_Failed = (ch = ''tgnews'')\<rparr>, False)) tasks, [])"

definition tg_demo_readings :: "string \<Rightarrow> readings" where
  "tg_demo_readings key = \<lparr>rd_now = 10, rd_later = 10, rd_final = 10, rd_store = 10, rd_order = (\<lambda>rs. rs)\<rparr>"

lemma outcomes_map_Some: "outcomes (map (\<lambda>ch. (Some (f ch), b)) chs) = map f chs"
  by (induction chs) simp_all

theorem tg_search_accounts_witness:
  "\<exists>batch st'. searchTGWithStatus letter_env tg_demo_config tg_demo_readings (\<lambda>s. s) (\<lambda>rs. rs) (None :: unit option) tg_demo_exec
       ''film'' [''movie'', ''tgnews''] False tg_demo_state = (Inr batch, st')
     \<and> set (sb_PartialSources batch) = {''tg:tgnews''} \<and> \<not> sb_Complete batch"
proof -
  let ?key = "fst (GenerateTGCacheKey (\<lambda>s. s) ''film'' [''movie'', ''tgnews''] no_memo)"
  let ?look = "tg_look tg_demo_config False tg_demo_state"
  have "isl (fst (searchTGWithStatus letter_env tg_demo_config tg_demo_readings (\<lambda>s. s) (\<lambda>rs. rs) (None :: unit option)
      tg_demo_exec ''film'' [''movie'', ''tgnews''] False tg_demo_state)) = False" by code_simp
  then obtain batch st' where b: "searchTGWithStatus letter_env tg_demo_config tg_demo_readings (\<lambda>s. s) (\<lambda>rs. rs) (None :: unit option)
      tg_demo_exec ''film'' [''movie'', ''tgnews''] False tg_demo_state = (Inr batch, st')"
    by (metis prod.collapse sum.collapse(2))
  have key: "GenerateTGCacheKey (\<lambda>s. s) ''film'' [''movie'', ''tgnews''] (st_keys tg_demo_state)
      = (''tg:film:movie,tgnews'', no_memo)"
  proof -
    have "fold_key ''film'' = ''film''" "join_with '','' (sort [''movie'', ''tgnews'']) = ''movie,tgnews''" by code_simp+
    then show ?thesis by (simp add: GenerateTGCacheKey_def getChannelsHash_def tg_key_text_def tg_demo_state_def)
  qed
  define st1 where "st1 = mark_status CacheBypass (tg_demo_state\<lparr>st_keys := no_memo\<rparr>)"
  have look: "?look = False" by (simp add: tg_look_def tg_demo_state_def)
  have miss: "consult_cache letter_env (tg_demo_readings ''tg:film:movie,tgnews'') ''tg:film:movie,tgnews'' ?look False (\<lambda>_. True)
      (tg_demo_state\<lparr>st_keys := no_memo\<rparr>) = ((None, nothing_cached), st1)"
    by (simp add: consult_cache_def look st1_def)
  have contract: "\<forall>workers tasks. distinct tasks \<longrightarrow> executes_channels tasks (fst (tg_demo_exec workers tasks))"
    by (simp add: executes_channels_def tg_demo_exec_def outcomes_map_Some comp_def)
  have sn: "sn_tasks (fst (scan_channels letter_env tg_demo_readings (\<lambda>s. s) ?look ''film'' [''movie'', ''tgnews''] empty_scan st1))
      = [''movie'', ''tgnews'']" by (simp add: look Let_def empty_scan_def)
  have good: "to_Channel ` set (delivered (fst (tg_demo_exec w [''movie'', ''tgnews'']))) = {''movie''}" for w
    by (simp add: tg_demo_exec_def delivers_def)
  have d: "distinct [''movie'', ''tgnews'']" and ord: "mset ((\<lambda>rs. rs) xs) = mset xs" for xs :: "SearchResult list" by simp_all
  note t = tg_search_accounts [OF b miss key d ord contract]
  have "set (sb_PartialSources batch) = (\<lambda>ch. ''tg:'' @ ch) ` (set [''movie'', ''tgnews''] - {''movie''})"
    using t [THEN conjunct2, THEN conjunct1] unfolding sn good .
  also have "set [''movie'', ''tgnews''] - {''movie''} = {''tgnews''}" by auto
  finally have p: "set (sb_PartialSources batch) = {''tg:tgnews''}" by simp
  moreover have "\<not> sb_Complete batch" using t [THEN conjunct2, THEN conjunct2, THEN conjunct1] p by (metis empty_not_insert list.set(1))
  ultimately show ?thesis using b by blast
qed

text \<open>The job as a call of the merging operation.\<close>

definition write_call :: "live_config \<Rightarrow> readings \<Rightarrow> cache_write \<Rightarrow> merge_call" where
  "write_call cfg r w =
     \<lparr>cl_rd = r, cl_incoming = cw_results w, cl_ttl = aggregateSearchCacheTTL (cw_results w) (cw_complete w) (cache_ttl cfg),
      cl_complete = cw_complete w, cl_plan = Some (Some (cw_plan w))\<rparr>"

lemma run_cache_write_call:
  "run_cache_write env cfg r w st = st\<lparr>st_cache := run_call env (cw_key w) (st_cache st) (write_call cfg r w)\<rparr>"
  by (simp add: run_cache_write_def run_call_def write_call_def)

text \<open>The next search after the goroutine has written a complete aggregate.\<close>

lemma served_after_write:
  fixes cfg :: live_config and r :: readings and w :: cache_write
  defines "cl \<equiv> write_call cfg r w"
  assumes "cw_complete w" and "cw_key w = fst (GenerateTGCacheKey digest keyword channels kc)" and "cw_key w \<noteq> []"
    and keep: "st_cache st = Some c" "keeps (cw_key w) (tl_memory c)" and "clocks_ok r"
    and load: "fst (loadCachedSearch env r (cw_key w) (Some c)) = (e, hit, None)"
    and store: "storable (se_codec env) (mc_sizePerShard (tl_memory c)) (absorb e cl)" and "permutes_results cl"
    and "caches_ok digest kc" and "caches_ok digest (st_keys st)"
    and "\<forall>ch\<in>set channels. publicChannelPattern ch"
    and "fold_key keyword' = fold_key keyword" and "mset channels' = mset channels" and "vc_cacheEnabled cfg"
    and "rd_now (rd (cw_key w)) \<le> rd_store r + cl_ttl cl"
  shows "\<exists>batch st'. searchTGWithStatus env cfg rd digest order refused exec keyword' channels' False (run_cache_write env cfg r w st)
           = (Inr batch, st')
       \<and> sb_Complete batch \<and> sb_PartialSources batch = [] \<and> st_writes st' = st_writes st \<and> st_marks st' = st_marks st @ [CacheHit]
       \<and> generateResultKey ` set (cw_results w) \<subseteq> generateResultKey ` set (sb_Results batch)"
proof -
  obtain c1 where c1: "run_call env (cw_key w) (Some c) cl = Some c1"
    "\<And>rd. rd_now rd \<le> rd_store r + cl_ttl cl \<Longrightarrow> fst (loadCachedSearch env rd (cw_key w) (Some c1)) = (absorb e cl, True, None)"
    using merge_step [of "cw_key w" c cl env e hit] keep(2) assms(4,7) load store by (auto simp: cl_def write_call_def)
  define st1 where "st1 = run_cache_write env cfg r w st"
  have st1: "st1 = st\<lparr>st_cache := Some c1\<rparr>"
    using c1(1) keep(1) by (simp add: st1_def run_cache_write_call cl_def)
  have key: "fst (GenerateTGCacheKey digest keyword' channels' (st_keys st)) = cw_key w"
  proof -
    have commas: "\<forall>x\<in>set channels. CHR '','' \<notin> set x" "set channels' = set channels"
      using assms(13,15) canonical_bytes(1) mset_eq_setD by blast+
    have "list_part digest ''all'' channels' channels' = list_part digest ''all'' channels channels"
      using assms(15) sort_eq_mset [of channels' channels] mset_eq_length [OF assms(15)] by (auto simp: list_part_def)
    then show ?thesis
      using getChannelsHash_part [of digest kc channels] getChannelsHash_part [of digest "st_keys st" channels'] commas assms(11,12,14)
      by (simp add: assms(3) GenerateTGCacheKey_def case_prod_unfold)
  qed
  obtain keys where keys: "GenerateTGCacheKey digest keyword' channels' (st_keys st) = (cw_key w, keys)"
    using key by (metis prod.collapse)
  obtain cache where found: "loadCachedSearch env (rd (cw_key w)) (cw_key w) (Some c1) = ((absorb e cl, True, None), cache)"
    using c1(2) [OF assms(17)] by (metis prod.collapse)
  have comp: "ch_Complete (absorb e cl)" using absorb_simps(2) [OF assms(10)] assms(2) by (simp add: cl_def write_call_def)
  have "generateResultKey ` set (cw_results w) \<subseteq> generateResultKey ` set (ch_Results (absorb e cl))"
    using absorb_simps(1) [OF assms(10), of e] by (auto simp: cl_def write_call_def)
  with found comp assms(16) show ?thesis unfolding st1_def [symmetric]
    by (simp add: searchTGWithStatus_def st1 keys tg_look_def consult_cache_def load_entry_def mark_status_def)
qed

text \<open>The job that a finished search leaves for its goroutine.\<close>

definition aggregate_write :: "string \<Rightarrow> sourceSearchBatch \<Rightarrow> cache_write" where
  "aggregate_write key batch =
     \<lparr>cw_key = key, cw_results = sb_Results batch, cw_complete = sb_Complete batch, cw_plan = sb_Execution batch\<rparr>"

lemma tg_search_enqueues:
  assumes run: "searchTGWithStatus env cfg rd digest order refused exec keyword channels forceRefresh st = (Inr batch, st')"
    and searched: "st_marks st' \<noteq> st_marks st @ [CacheHit]" and cfg: "vc_cacheEnabled cfg"
  shows "st_writes st' = st_writes st @ [aggregate_write (fst (GenerateTGCacheKey digest keyword channels (st_keys st))) batch]"
proof -
  obtain key keys where key: "GenerateTGCacheKey digest keyword channels (st_keys st) = (key, keys)" by fastforce
  define look where "look = tg_look cfg forceRefresh (st\<lparr>st_keys := keys\<rparr>)"
  obtain found seed st1 where consult: "consult_cache env (rd key) key look forceRefresh (\<lambda>_. True) (st\<lparr>st_keys := keys\<rparr>)
      = ((found, seed), st1)" by (metis prod.collapse)
  show ?thesis
  proof (cases found)
    case (Some cached)
    have "st' = st1" using run unfolding searchTGWithStatus_def Let_def key prod.case look_def [symmetric] consult Some option.case by simp
    with consult Some searched show ?thesis by (cases rule: consult_cases) auto
  next
    case None
    obtain sn st2 where scan: "scan_channels env rd digest look keyword channels empty_scan st1 = (sn, st2)" by fastforce
    have w2: "st_writes st2 = st_writes st"
    proof -
      have "st_writes st2 = st_writes st1" using scan_channels_spec [OF scan] by metis
      also have "\<dots> = st_writes st" using consult None by (cases rule: consult_cases) auto
      finally show ?thesis .
    qed
    have admitted: "\<not> (sn_tasks sn \<noteq> [] \<and> refused \<noteq> None)"
    proof
      assume r: "sn_tasks sn \<noteq> [] \<and> refused \<noteq> None"
      have "searchTGWithStatus env cfg rd digest order refused exec keyword channels forceRefresh st = (Inl (the refused), st2)"
        unfolding searchTGWithStatus_def Let_def key prod.case look_def [symmetric] consult None option.case scan if_P [OF r] ..
      with run show False by simp
    qed
    have stored: "st_writes (foldl (store_channel env cfg digest keyword) s xs) = st_writes s" for s xs
      by (induction xs arbitrary: s) (auto simp: store_channel_def split: prod.split)
    obtain results answers where e: "exec (tg_workers cfg (length (sn_tasks sn))) (sn_tasks sn) = (results, answers)" by fastforce
    show ?thesis
      using run unfolding searchTGWithStatus_def Let_def key prod.case look_def [symmetric] consult None option.case scan
        if_not_P [OF admitted] e if_P [OF cfg]
      by (auto simp: aggregate_write_def stored w2)
  qed
qed

text \<open>C18: A finished search is served from the cache. A first search that the cache did not answer and that reports
  itself complete leaves exactly one job for its goroutine. Once that job has run, in any state of the service whose
  cache can hold the entry, the next search for the same keyword over the same channels, in any order, is answered
  by the cached entry, asks no channel and reports a hit, until the entry expires; it shows every result of the first
  search.\<close>

theorem tg_search_served_from_cache:
  assumes first: "searchTGWithStatus env cfg rd0 digest order0 refused0 exec0 keyword channels forceRefresh st0 = (Inr batch0, st1)"
    and searched: "st_marks st1 \<noteq> st_marks st0 @ [CacheHit]" and "sb_Complete batch0" and cfg: "vc_cacheEnabled cfg"
  defines "key \<equiv> fst (GenerateTGCacheKey digest keyword channels (st_keys st0))"
  defines "ttl \<equiv> aggregateSearchCacheTTL (sb_Results batch0) True (cache_ttl cfg)"
  assumes "key \<noteq> []" and "st_cache st = Some c" and "keeps key (tl_memory c)" and "clocks_ok r"
    and "\<forall>xs. mset (rd_order r xs) = mset xs"
    and load: "fst (loadCachedSearch env r key (Some c)) = (e, hit, None)"
    and "storable (se_codec env) (mc_sizePerShard (tl_memory c))
           (mergeCachedSearchWithExecution r e (sb_Results batch0) True (Some (sb_Execution batch0)))"
    and "caches_ok digest (st_keys st0)" and "caches_ok digest (st_keys st)" and "\<forall>ch\<in>set channels. publicChannelPattern ch"
    and "fold_key keyword' = fold_key keyword" and "mset channels' = mset channels"
    and "rd_now (rd key) \<le> rd_store r + ttl"
  shows "\<exists>w. st_writes st1 = st_writes st0 @ [w]
       \<and> (\<exists>batch st'. searchTGWithStatus env cfg rd digest order refused exec keyword' channels' False (run_cache_write env cfg r w st)
              = (Inr batch, st')
            \<and> sb_Complete batch \<and> sb_PartialSources batch = [] \<and> st_writes st' = st_writes st
            \<and> st_marks st' = st_marks st @ [CacheHit]
            \<and> generateResultKey ` set (sb_Results batch0) \<subseteq> generateResultKey ` set (sb_Results batch))"
proof -
  let ?w = "aggregate_write key batch0"
  have w: "cw_complete ?w" "cw_key ?w = key" "cw_results ?w = sb_Results batch0"
    using assms(3) by (simp_all add: aggregate_write_def)
  have call: "absorb e (write_call cfg r ?w) =
      mergeCachedSearchWithExecution r e (sb_Results batch0) True (Some (sb_Execution batch0))"
    "cl_ttl (write_call cfg r ?w) = ttl" "permutes_results (write_call cfg r ?w)"
    using assms(3,11) by (simp_all add: absorb_def write_call_def aggregate_write_def ttl_def permutes_results_def)
  have key: "key = fst (GenerateTGCacheKey digest keyword channels (st_keys st0))" by (simp add: key_def)
  note after = served_after_write [of ?w digest keyword channels "st_keys st0" st c r env e hit cfg, unfolded w(2,3) call(1,2)]
  have "\<exists>batch st'. searchTGWithStatus env cfg rd digest order refused exec keyword' channels' False (run_cache_write env cfg r ?w st)
           = (Inr batch, st')
       \<and> sb_Complete batch \<and> sb_PartialSources batch = [] \<and> st_writes st' = st_writes st \<and> st_marks st' = st_marks st @ [CacheHit]
       \<and> generateResultKey ` set (sb_Results batch0) \<subseteq> generateResultKey ` set (sb_Results batch)"
    by (rule after) fact+
  with tg_search_enqueues [OF first searched cfg] show ?thesis unfolding key_def by blast
qed

text \<open>A forced search over one channel with an answer of one letter, in a service with an empty cache; the serializer
  of letters reads entries back with the plan of that search.\<close>

definition letter_exec :: "int \<Rightarrow> string list \<Rightarrow> tg_execution" where
  "letter_exec workers tasks =
     (map (\<lambda>ch. (Some \<lparr>to_Channel = ch, to_Results = [demo_result\<lparr>sr_UniqueID := ''a''\<rparr>], to_Failed = False\<rparr>, False)) tasks, [])"

definition plan_env :: store_env where
  "plan_env = letter_env\<lparr>se_codec := letter_codec\<lparr>sc_envelope :=
     (\<lambda>s. map_option (\<lambda>e. e\<lparr>ch_Execution := Some (channel_execution [''movie''] (empty_scan\<lparr>sn_tasks := [''movie'']\<rparr>) 1)\<rparr>)
            (sc_envelope letter_codec s))\<rparr>\<rparr>"

definition first_search :: "search_state \<Rightarrow> (unit + sourceSearchBatch) \<times> search_state" where
  "first_search st =
     searchTGWithStatus plan_env tg_demo_config tg_demo_readings (\<lambda>s. s) (\<lambda>rs. rs) None letter_exec ''film'' [''movie''] True st"

definition first_batch :: sourceSearchBatch where
  "first_batch = \<lparr>sb_Results = [demo_result\<lparr>sr_UniqueID := ''a''\<rparr>], sb_Complete = True, sb_PartialSources = [], sb_SourceStatuses = None,
     sb_Execution = channel_execution [''movie''] (empty_scan\<lparr>sn_tasks := [''movie'']\<rparr>) 1\<rparr>"

definition demo_key :: string where
  "demo_key = fst (GenerateTGCacheKey (\<lambda>s. s) ''film'' [''movie''] no_memo)"

theorem tg_search_served_from_cache_witness:
  "\<exists>c st1 w batch st'. NewEnhancedTwoLevelCache 1 10 = Some c
     \<and> first_search (tg_demo_state\<lparr>st_cache := Some c\<rparr>) = (Inr first_batch, st1) \<and> st_writes st1 = [w]
     \<and> searchTGWithStatus plan_env tg_demo_config tg_demo_readings (\<lambda>s. s) (\<lambda>rs. rs) (None :: unit option) tg_demo_exec
         ''film '' [''movie''] False (run_cache_write plan_env tg_demo_config (tg_demo_readings []) w st1) = (Inr batch, st')
     \<and> sb_Complete batch \<and> st_marks st' = [CacheHit]
     \<and> generateResultKey (demo_result\<lparr>sr_UniqueID := ''a''\<rparr>) \<in> generateResultKey ` set (sb_Results batch)"
proof -
  obtain c where c: "NewEnhancedTwoLevelCache 1 10 = Some c"
    and m: "tl_memory c = SetDiskCacheReference True (NewShardedMemoryCache 1 5000 6)"
    by (auto simp: NewEnhancedTwoLevelCache_def splitCacheBudget_def go_div_def NewOptimizedShardedDiskCache_def
        newShardedDiskCacheWithCount_def Let_def)
  let ?r = "tg_demo_readings []" and ?st = "tg_demo_state\<lparr>st_cache := Some c\<rparr>"
  have gen: "GenerateTGCacheKey (\<lambda>s. s) ''film'' [''movie''] no_memo = (demo_key, no_memo)"
    by (simp add: demo_key_def GenerateTGCacheKey_def getChannelsHash_def)
  have merged: "mergeSearchResults (\<lambda>rs. rs) [] [demo_result\<lparr>sr_UniqueID := ''a''\<rparr>] = [demo_result\<lparr>sr_UniqueID := ''a''\<rparr>]"
    by code_simp
  have run: "first_search ?st = (Inr first_batch, ?st\<lparr>st_writes := [aggregate_write demo_key first_batch]\<rparr>)" (is "_ = (_, ?st1)")
    by (simp add: first_search_def searchTGWithStatus_def tg_demo_state_def gen Let_def consult_cache_def tg_look_def empty_scan_def
        letter_exec_def merged collect_tg_def nothing_cached_def first_batch_def aggregate_write_def tg_demo_config_def)
  have wf: "cache_wf (tl_memory c)"
    unfolding m using mem_apply_wf [OF New_cache_wf, of _ _ _ "MemSetDisk True"] by simp
  have "0 < mc_itemsPerShard (tl_memory c) \<and> evictable (mem_getShard (tl_memory c) demo_key)" unfolding m by code_simp
  with wf have k: "keeps demo_key (tl_memory c)" by (simp add: keeps_def)
  have "map_option (\<lambda>c. fst (loadCachedSearch plan_env ?r demo_key (Some c))) (NewEnhancedTwoLevelCache 1 10)
      = Some (nothing_cached, False, None)" by code_simp
  then have load: "fst (loadCachedSearch plan_env ?r demo_key (Some c)) = (nothing_cached, False, None)" by (simp add: c)
  have store: "storable (se_codec plan_env) (mc_sizePerShard (tl_memory c))
      (mergeCachedSearchWithExecution ?r nothing_cached (sb_Results first_batch) True (Some (sb_Execution first_batch)))"
    unfolding m by code_simp
  have ok: "demo_key \<noteq> []" "clocks_ok ?r" "sb_Complete first_batch" "vc_cacheEnabled tg_demo_config"
    "rd_now (tg_demo_readings demo_key) \<le> rd_store ?r + aggregateSearchCacheTTL (sb_Results first_batch) True (cache_ttl tg_demo_config)"
    "st_marks ?st1 \<noteq> st_marks ?st @ [CacheHit]" by code_simp+
  have key: "fst (GenerateTGCacheKey (\<lambda>s. s) ''film'' [''movie''] (st_keys ?st)) = demo_key"
    by (simp add: demo_key_def tg_demo_state_def)
  have order: "\<forall>xs. mset (rd_order ?r xs) = mset xs" by (simp add: tg_demo_readings_def)
  have fold: "fold_key ''film '' = fold_key ''film''" by code_simp
  have chan: "\<forall>ch\<in>set [''movie'']. publicChannelPattern ch" using demo_channels by simp
  have st: "st_cache ?st1 = Some c" "caches_ok (\<lambda>s. s) (st_keys ?st)" "caches_ok (\<lambda>s. s) (st_keys ?st1)"
    using no_memo_ok by (simp_all add: tg_demo_state_def)
  from tg_search_served_from_cache [where channels' = "[''movie'']" and rd = tg_demo_readings and order = "\<lambda>rs. rs"
      and refused = "None :: unit option" and exec = tg_demo_exec, OF run [unfolded first_search_def] ok(6,3,4), unfolded key,
      OF ok(1) st(1) k ok(2) order load store st(2,3) chan fold refl ok(5)]
  obtain w batch st' where w: "st_writes ?st1 = st_writes ?st @ [w]"
    "searchTGWithStatus plan_env tg_demo_config tg_demo_readings (\<lambda>s. s) (\<lambda>rs. rs) (None :: unit option) tg_demo_exec
         ''film '' [''movie''] False (run_cache_write plan_env tg_demo_config (tg_demo_readings []) w ?st1) = (Inr batch, st')"
    "sb_Complete batch" "st_marks st' = st_marks ?st1 @ [CacheHit]"
    "generateResultKey ` set (sb_Results first_batch) \<subseteq> generateResultKey ` set (sb_Results batch)" by blast
  show ?thesis
  proof (intro exI conjI)
    show "NewEnhancedTwoLevelCache 1 10 = Some c" by (rule c)
    show "first_search ?st = (Inr first_batch, ?st1)" by (rule run)
    show "st_writes ?st1 = [w]" using w(1) by (simp add: tg_demo_state_def)
    show "searchTGWithStatus plan_env tg_demo_config tg_demo_readings (\<lambda>s. s) (\<lambda>rs. rs) (None :: unit option) tg_demo_exec
         ''film '' [''movie''] False (run_cache_write plan_env tg_demo_config (tg_demo_readings []) w ?st1) = (Inr batch, st')" by (rule w(2))
    show "sb_Complete batch" by (rule w(3))
    show "st_marks st' = [CacheHit]" using w(4) by (simp add: tg_demo_state_def)
    show "generateResultKey (demo_result\<lparr>sr_UniqueID := ''a''\<rparr>) \<in> generateResultKey ` set (sb_Results batch)"
      using w(5) by (simp add: first_batch_def)
  qed
qed

end
