(* ===== verification/Plugin_Search.thy ===== *)
theory Plugin_Search
  imports Tg_Search Go_Decimal Scheduler
begin

text \<open>
  The plug-in part of a live search, \<open>searchPluginsWithStatus\<close> and \<open>searchPluginsForIdentityWithStatus\<close> of
  \<^verbatim>\<open>src/service/search_service.go\<close>: the aggregate cache, the plug-ins that are asked and in which rounds, the
  plug-ins that search with the accounts of the caller, and the batch made of the answers. A plug-in is the
  record of the functions behind its interface. \<open>exec\<close> is what the scheduler's \<open>Execute\<close> delivers for the tasks
  of one call; a task carries the result that its \<open>Run\<close> computes. The callbacks through which a plug-in
  reports on an account are operations of the credential store, not of the search.
\<close>

section \<open>Model: plug-ins and their tasks\<close>

text \<open>What the service looks at in an error: whether it says that there are no results, and the status it carries.\<close>

record plugin_error =
  pe_NoResults :: bool
  pe_SourceStatus :: "SourceStatus option"

definition other_error :: plugin_error where
  "other_error = \<lparr>pe_NoResults = False, pe_SourceStatus = None\<rparr>"

text \<open>\<open>Search\<close> and \<open>SearchWithResult\<close> also see the main cache key and the keyword that were set before.\<close>

record ('c, 'j) AsyncSearchPlugin =
  pi_Name :: string
  pi_Search :: "string \<Rightarrow> string \<Rightarrow> string \<Rightarrow> (string \<rightharpoonup> 'j ext_value) \<Rightarrow> SearchResult list \<times> plugin_error option"
  pi_SearchWithResult ::
    "(string \<Rightarrow> string \<Rightarrow> string \<Rightarrow> (string \<rightharpoonup> 'j ext_value) \<Rightarrow> SearchResult list \<times> bool \<times> plugin_error option) option"
  pi_SearchCredentialLayer ::
    "(string \<Rightarrow> (string \<rightharpoonup> 'j ext_value) \<Rightarrow> 'c list \<Rightarrow> SearchResult list \<times> bool \<times> plugin_error option) option"

record pluginTaskResult =
  po_Source :: string
  po_Results :: "SearchResult list"
  po_Complete :: bool
  po_Err :: "plugin_error option"
  po_Status :: "SourceStatus option"

text \<open>The \<open>Result\<close> of the scheduler, and a task with what it computes.\<close>

record plugin_result =
  pv_Value :: "pluginTaskResult option"
  pv_Err :: bool
  pv_ResultCount :: nat
  pv_UniqueCount :: nat

record plugin_task =
  pk_Source :: string
  pk_Run :: plugin_result

type_synonym plugin_exec = "Class \<Rightarrow> int \<Rightarrow> plugin_task list \<Rightarrow> plugin_result list"

definition statusFromSearchError :: "plugin_error option \<Rightarrow> SourceStatus option" where
  "statusFromSearchError err = (case err of None \<Rightarrow> None | Some e \<Rightarrow> pe_SourceStatus e)"

definition scheduledPluginResult :: "pluginTaskResult \<Rightarrow> plugin_result" where
  "scheduledPluginResult outcome =
     (case searchResultMetrics (po_Results outcome) of
        (n, uniq) \<Rightarrow> \<lparr>pv_Value = Some outcome, pv_Err = (po_Err outcome \<noteq> None), pv_ResultCount = n, pv_UniqueCount = uniq\<rparr>)"

definition countPluginTaskLinks :: "plugin_result list \<Rightarrow> nat" where
  "countPluginTaskLinks results =
     sum_list (map (\<lambda>r. case pv_Value r of
                          None \<Rightarrow> 0
                        | Some outcome \<Rightarrow> sum_list (map (\<lambda>item. length (sr_Links item)) (po_Results outcome))) results)"

text \<open>\<open>plugins\<close> is \<open>nil\<close> and empty alike.\<close>

definition available_plugins :: "('c, 'j) AsyncSearchPlugin list option \<Rightarrow> string list \<Rightarrow> ('c, 'j) AsyncSearchPlugin list" where
  "available_plugins manager plugins =
     (case manager of
        None \<Rightarrow> []
      | Some allPlugins \<Rightarrow>
          if list_ex (\<lambda>p. p \<noteq> []) plugins
          then filter (\<lambda>p. to_lower (pi_Name p) \<in> set (map to_lower (filter (\<lambda>p. p \<noteq> []) plugins))) allPlugins
          else allPlugins)"

definition base_ext :: "'j ext \<Rightarrow> bool \<Rightarrow> string \<rightharpoonup> 'j ext_value" where
  "base_ext ext forceRefresh =
     (if forceRefresh then (cloneExt ext)(''refresh'' \<mapsto> ExtBool True) else cloneExt ext)"

definition plugin_task :: "string \<Rightarrow> string \<Rightarrow> (string \<rightharpoonup> 'j ext_value) \<Rightarrow> ('c, 'j) AsyncSearchPlugin \<Rightarrow> plugin_task" where
  "plugin_task cacheKey keyword baseExt inst =
     \<lparr>pk_Source = ''plugin:'' @ pi_Name inst,
      pk_Run = (case pi_SearchWithResult inst of
          Some search \<Rightarrow>
            (case search cacheKey keyword keyword baseExt of
               (results, isFinal, err) \<Rightarrow>
                 scheduledPluginResult \<lparr>po_Source = pi_Name inst, po_Results = results, po_Complete = isFinal, po_Err = err,
                                        po_Status = statusFromSearchError err\<rparr>)
        | None \<Rightarrow>
            (case pi_Search inst cacheKey keyword keyword baseExt of
               (results, err) \<Rightarrow>
                 scheduledPluginResult \<lparr>po_Source = pi_Name inst, po_Results = results, po_Complete = (err = None), po_Err = err,
                                        po_Status = statusFromSearchError err\<rparr>))\<rparr>"

section \<open>Model: the rounds of a search\<close>

text \<open>With the tiered rollout, a search that is not deep asks 15 plug-ins, then 30 more when it has fewer than 30
  links, then all others when it has none.\<close>

definition run_tiers :: "bool \<Rightarrow> bool \<Rightarrow> (plugin_task list \<Rightarrow> plugin_result list) \<Rightarrow> plugin_task list \<Rightarrow> nat \<times> plugin_result list" where
  "run_tiers tieredRollout deepSearch run tasks =
     (let n = (if tieredRollout \<and> \<not> deepSearch \<and> length tasks > 15 then 15 else length tasks);
          results = run (take n tasks);
          (n, results) =
            (if tieredRollout \<and> \<not> deepSearch \<and> countPluginTaskLinks results < 30 \<and> n < length tasks
             then let nxt = (if n + 30 > length tasks then length tasks else n + 30)
                  in (nxt, results @ run (take (nxt - n) (drop n tasks)))
             else (n, results))
      in if (deepSearch \<or> (tieredRollout \<and> countPluginTaskLinks results = 0)) \<and> n < length tasks
         then (length tasks, results @ run (drop n tasks))
         else (n, results))"

record plugin_collected =
  pc_complete :: bool
  pc_finished :: "string list"
  pc_partial :: "string list"
  pc_statuses :: "(string \<times> SourceStatus) list"
  pc_results :: "SearchResult list"

definition collect_plugin :: "plugin_collected \<Rightarrow> plugin_result \<Rightarrow> plugin_collected" where
  "collect_plugin c v =
     (case pv_Value v of
        None \<Rightarrow> c\<lparr>pc_complete := False\<rparr>
      | Some outcome \<Rightarrow>
          let failed = po_Err outcome \<noteq> None \<or> pv_Err v \<or> \<not> po_Complete outcome;
              source = ''plugin:'' @ po_Source outcome
          in \<lparr>pc_complete = (pc_complete c \<and> \<not> failed), pc_finished = po_Source outcome # pc_finished c,
              pc_partial = (if failed then pc_partial c @ [source] else pc_partial c),
              pc_statuses = (case po_Status outcome of None \<Rightarrow> pc_statuses c | Some s \<Rightarrow> AList.update source s (pc_statuses c)),
              pc_results = pc_results c @ filter (\<lambda>r. sr_Links r \<noteq> []) (po_Results outcome)\<rparr>)"

definition unfinished :: "plugin_collected \<Rightarrow> ('c, 'j) AsyncSearchPlugin list \<Rightarrow> string list" where
  "unfinished c asked = map (\<lambda>p. ''plugin:'' @ pi_Name p) (filter (\<lambda>p. pi_Name p \<notin> set (pc_finished c)) asked)"

definition plugin_workers :: "live_config \<Rightarrow> int \<Rightarrow> int" where
  "plugin_workers cfg concurrency =
     (if vc_SearchPerRequestPlugin cfg > 0 \<and> concurrency > vc_SearchPerRequestPlugin cfg
      then vc_SearchPerRequestPlugin cfg else concurrency)"

definition plugin_look :: "live_config \<Rightarrow> bool \<Rightarrow> bool \<Rightarrow> search_state \<Rightarrow> bool" where
  "plugin_look cfg forceRefresh deepSearch st \<longleftrightarrow>
     \<not> forceRefresh \<and> \<not> deepSearch \<and> vc_cacheEnabled cfg \<and> st_cache st \<noteq> None"

definition covers_request :: "bool \<Rightarrow> cachedSearchResults \<Rightarrow> bool" where
  "covers_request tieredRollout cached \<longleftrightarrow>
     (case ch_Execution cached of None \<Rightarrow> True | Some e \<Rightarrow> tieredRollout \<or> se_Deferred e = 0)"

definition plugin_strategy :: "bool \<Rightarrow> bool \<Rightarrow> string" where
  "plugin_strategy tieredRollout deepSearch =
     (if tieredRollout \<and> \<not> deepSearch then ''tiered'' else if deepSearch then ''deep'' else ''all-sources'')"

definition plugin_execution :: "bool \<Rightarrow> bool \<Rightarrow> nat \<Rightarrow> nat \<Rightarrow> nat \<Rightarrow> SearchExecution" where
  "plugin_execution tieredRollout deepSearch tasks executed answered =
     \<lparr>se_Requested = int tasks, se_Executed = int executed, se_Cached = 0, se_Deferred = int tasks - int executed,
      se_Completed = int answered, se_Cancelled = int executed - int answered,
      se_Strategy = plugin_strategy tieredRollout deepSearch\<rparr>"

definition searchPluginsWithStatus :: "store_env \<Rightarrow> live_config \<Rightarrow> (string \<Rightarrow> readings) \<Rightarrow> (string \<Rightarrow> string) \<Rightarrow> string list \<Rightarrow>
    (SearchResult list \<Rightarrow> SearchResult list) \<Rightarrow> 'x option \<Rightarrow> plugin_exec \<Rightarrow> ('c, 'j) AsyncSearchPlugin list option \<Rightarrow>
    string \<Rightarrow> string list \<Rightarrow> bool \<Rightarrow> int \<Rightarrow> 'j ext \<Rightarrow> search_state \<Rightarrow> ('x + sourceSearchBatch) \<times> search_state" where
  "searchPluginsWithStatus env cfg rd digest registered order refused exec manager keyword plugins forceRefresh concurrency ext st =
     (let deepSearch = ext_deep ext;
          tiered = vc_SearchTieredRollout cfg;
          (cacheKey, keys) = GeneratePluginCacheKey digest registered keyword plugins (st_keys st);
          st = st\<lparr>st_keys := keys\<rparr>
      in case consult_cache env (rd cacheKey) cacheKey (plugin_look cfg forceRefresh deepSearch st) forceRefresh
             (covers_request tiered) st of
           ((Some cached, _), st) \<Rightarrow>
             (Inr \<lparr>sb_Results = ch_Results cached, sb_Complete = True, sb_PartialSources = [], sb_SourceStatuses = None,
                   sb_Execution = cached_execution (no_execution\<lparr>se_Cached := 1, se_Strategy := ''tiered''\<rparr>) cached\<rparr>, st)
         | ((None, seed), st) \<Rightarrow>
             let available = available_plugins manager plugins;
                 workers = plugin_workers cfg (if concurrency \<le> 0 then vc_DefaultConcurrency cfg else concurrency);
                 tasks = map (plugin_task cacheKey keyword (base_ext ext forceRefresh)) available
             in if tasks \<noteq> [] \<and> refused \<noteq> None then (Inl (the refused), st)
                else let (executed, results) = run_tiers tiered deepSearch (exec ClassPlugin workers) tasks;
                         c = foldl collect_plugin
                               \<lparr>pc_complete = (length results = executed), pc_finished = [], pc_partial = [], pc_statuses = [],
                                pc_results = ch_Results seed\<rparr> results;
                         partialSources = pc_partial c @ unfinished c (take executed available);
                         merged = mergeSearchResults order [] (pc_results c);
                         execution = plugin_execution tiered deepSearch (length tasks) executed (length results);
                         st = (if vc_cacheEnabled cfg
                               then st\<lparr>st_writes := st_writes st @
                                      [\<lparr>cw_key = cacheKey, cw_results = merged, cw_complete = pc_complete c, cw_plan = execution\<rparr>]\<rparr>
                               else st)
                     in (Inr \<lparr>sb_Results = merged, sb_Complete = pc_complete c, sb_PartialSources = partialSources,
                              sb_SourceStatuses = (if pc_statuses c = [] then None else Some (pc_statuses c)),
                              sb_Execution = execution\<rparr>, st))"

section \<open>Model: plug-ins that search with accounts\<close>

definition select_instances :: "('c, 'j) AsyncSearchPlugin list \<Rightarrow> string list \<Rightarrow> ('c, 'j) AsyncSearchPlugin list" where
  "select_instances allPlugins requested =
     (let wanted = filter (\<lambda>n. n \<noteq> []) (map fold_key requested)
      in if requested = [] \<or> wanted = [] then allPlugins
         else filter (\<lambda>p. to_lower (pi_Name p) \<in> set wanted) allPlugins)"

definition search_actor :: "SearchIdentity \<Rightarrow> string" where
  "search_actor identity =
     (if sid_Actor identity = ''admin'' then ''admin''
      else if sid_Actor identity = ''collector'' then ''collector''
      else if sid_Actor identity = ''user'' then ''user''
      else ''collector'')"

definition credential_cache_scope :: "SearchIdentity \<Rightarrow> string" where
  "credential_cache_scope identity =
     search_actor identity @ '':'' @ itoa (sid_UserID identity) @ '':'' @ sid_Role identity @ '':'' @ sid_AuthType identity
       @ '':'' @ itoa (sid_APIKeyID identity)"

definition managed_ext :: "'j ext \<Rightarrow> SearchIdentity \<Rightarrow> bool \<Rightarrow> string \<rightharpoonup> 'j ext_value" where
  "managed_ext ext identity forceRefresh =
     (let base = (cloneExt ext)(''credential_cache_scope'' \<mapsto> ExtString (credential_cache_scope identity))
      in if forceRefresh then base(''refresh'' \<mapsto> ExtBool True) else base)"

definition nothing_found :: "string \<Rightarrow> plugin_result" where
  "nothing_found source =
     \<lparr>pv_Value = Some \<lparr>po_Source = source, po_Results = [], po_Complete = True, po_Err = None, po_Status = None\<rparr>, pv_Err = False,
      pv_ResultCount = 0, pv_UniqueCount = 0\<rparr>"

definition says_no_results :: "plugin_error option \<Rightarrow> bool" where
  "says_no_results err \<longleftrightarrow> (case err of None \<Rightarrow> False | Some e \<Rightarrow> pe_NoResults e)"

text \<open>The run of an account-backed plug-in: the private accounts first, then the shared ones.\<close>

definition layer_outcome :: "string \<Rightarrow> SearchResult list \<Rightarrow> plugin_error option \<Rightarrow> plugin_result" where
  "layer_outcome source results err =
     scheduledPluginResult \<lparr>po_Source = source, po_Results = results, po_Complete = (err = None), po_Err = err,
                            po_Status = statusFromSearchError err\<rparr>"

definition run_layers :: "string \<Rightarrow> ('c list \<Rightarrow> SearchResult list \<times> bool \<times> plugin_error option) \<Rightarrow>
    plugin_error + 'c list \<times> 'c list \<Rightarrow> plugin_result" where
  "run_layers source search layers =
     (case layers of
        Inl err \<Rightarrow> scheduledPluginResult \<lparr>po_Source = source, po_Results = [], po_Complete = False, po_Err = Some err, po_Status = None\<rparr>
      | Inr (private, shared) \<Rightarrow>
          if private = [] \<and> shared = [] then nothing_found source
          else (case search private of
                  (results, True, err) \<Rightarrow> layer_outcome source results err
                | (_, False, privateErr) \<Rightarrow>
                    (case search shared of
                       (results, True, err) \<Rightarrow> layer_outcome source results err
                     | (_, False, err) \<Rightarrow>
                         if says_no_results privateErr \<or> says_no_results err then nothing_found source
                         else scheduledPluginResult
                                \<lparr>po_Source = source, po_Results = [], po_Complete = False,
                                 po_Err = Some (case err of None \<Rightarrow> other_error | Some e \<Rightarrow> e), po_Status = None\<rparr>)))"

type_synonym 'c resolver = "string \<Rightarrow> int \<Rightarrow> string \<Rightarrow> int \<Rightarrow> plugin_error + 'c list \<times> 'c list"

definition managed_task :: "'c resolver \<Rightarrow> SearchIdentity \<Rightarrow> string \<Rightarrow> (string \<rightharpoonup> 'j ext_value) \<Rightarrow> ('c, 'j) AsyncSearchPlugin \<Rightarrow> plugin_task" where
  "managed_task resolve identity keyword baseExt inst =
     \<lparr>pk_Source = ''plugin:'' @ pi_Name inst,
      pk_Run = run_layers (pi_Name inst) (the (pi_SearchCredentialLayer inst) keyword baseExt)
                 (resolve (search_actor identity) (sid_UserID identity) (pi_Name inst) 20)\<rparr>"

text \<open>The account-backed plug-ins are searched and their answers joined with the batch of the plain ones, which
  search in a goroutine of their own; both parts ask for the same admission.\<close>

definition search_managed :: "live_config \<Rightarrow> (SearchResult list \<Rightarrow> SearchResult list) \<Rightarrow> 'x option \<Rightarrow> plugin_exec \<Rightarrow> 'c resolver \<Rightarrow>
    SearchIdentity \<Rightarrow> string \<Rightarrow> bool \<Rightarrow> int \<Rightarrow> 'j ext \<Rightarrow> ('c, 'j) AsyncSearchPlugin list \<Rightarrow> 'x + sourceSearchBatch \<Rightarrow> search_state \<Rightarrow>
    ('x + sourceSearchBatch) \<times> search_state" where
  "search_managed cfg order refused exec resolve identity keyword forceRefresh concurrency ext managed legacyOutcome st =
     (let st = (if \<not> forceRefresh then mark_status CacheBypass st else st);
          tasks = map (managed_task resolve identity keyword (managed_ext ext identity forceRefresh)) managed
      in if refused \<noteq> None then (Inl (the refused), st)
         else let managedResults = exec ClassCredential (plugin_workers cfg concurrency) tasks
              in (case legacyOutcome of
                    Inl err \<Rightarrow> (Inl err, st)
                  | Inr legacy \<Rightarrow>
                      let c = foldl collect_plugin
                            \<lparr>pc_complete = (sb_Complete legacy \<and> length managedResults = length tasks), pc_finished = [],
                             pc_partial = sb_PartialSources legacy,
                             pc_statuses = (case sb_SourceStatuses legacy of None \<Rightarrow> [] | Some s \<Rightarrow> s),
                             pc_results = sb_Results legacy\<rparr> managedResults;
                          execution = mergeSearchExecution [sb_Execution legacy,
                            \<lparr>se_Requested = int (length tasks), se_Executed = int (length managedResults), se_Cached = 0,
                             se_Deferred = 0, se_Completed = int (length managedResults),
                             se_Cancelled = int (length tasks) - int (length managedResults), se_Strategy = ''credential''\<rparr>]
                      in (Inr \<lparr>sb_Results = mergeSearchResults order [] (pc_results c), sb_Complete = pc_complete c,
                               sb_PartialSources = pc_partial c @ unfinished c managed,
                               sb_SourceStatuses = (if pc_statuses c = [] then None else Some (pc_statuses c)),
                               sb_Execution = (case execution of None \<Rightarrow> no_execution | Some e \<Rightarrow> e)\<rparr>, st)))"

text \<open>\<open>credentials\<close> is \<open>None\<close> for a service without accounts.\<close>

definition searchPluginsForIdentityWithStatus :: "store_env \<Rightarrow> live_config \<Rightarrow> (string \<Rightarrow> readings) \<Rightarrow> (string \<Rightarrow> string) \<Rightarrow> string list \<Rightarrow>
    (SearchResult list \<Rightarrow> SearchResult list) \<Rightarrow> 'x option \<Rightarrow> plugin_exec \<Rightarrow> ('c, 'j) AsyncSearchPlugin list option \<Rightarrow>
    'c resolver option \<Rightarrow> SearchIdentity \<Rightarrow> string \<Rightarrow> string list \<Rightarrow> bool \<Rightarrow> int \<Rightarrow> 'j ext \<Rightarrow> search_state \<Rightarrow>
    ('x + sourceSearchBatch) \<times> search_state" where
  "searchPluginsForIdentityWithStatus env cfg rd digest registered order refused exec manager credentials identity keyword requested
       forceRefresh concurrency ext st =
     (case (credentials, manager) of
        (Some resolve, Some allPlugins) \<Rightarrow>
          let selected = select_instances allPlugins requested;
              managed = filter (\<lambda>p. pi_SearchCredentialLayer p \<noteq> None) selected;
              legacyNames = map pi_Name (filter (\<lambda>p. pi_SearchCredentialLayer p = None) selected);
              (legacyOutcome, st) =
                (if legacyNames = [] then (Inr completeSourceSearchBatch, st)
                 else searchPluginsWithStatus env cfg rd digest registered order refused exec manager keyword legacyNames
                        forceRefresh concurrency ext st)
          in if managed = [] then (legacyOutcome, st)
             else search_managed cfg order refused exec resolve identity keyword forceRefresh concurrency ext managed legacyOutcome st
      | _ \<Rightarrow> searchPluginsWithStatus env cfg rd digest registered order refused exec manager keyword requested forceRefresh
               concurrency ext st)"

section \<open>Lemmas\<close>

text \<open>What \<open>Execute\<close> guarantees: at most one result for each task, and a result that carries a value is what the
  \<open>Run\<close> of a task has returned.\<close>

definition valued :: "plugin_result list \<Rightarrow> plugin_result list" where
  "valued results = filter (\<lambda>r. pv_Value r \<noteq> None) results"

definition executes_plugins :: "plugin_task list \<Rightarrow> plugin_result list \<Rightarrow> bool" where
  "executes_plugins tasks results \<longleftrightarrow>
     length results \<le> length tasks \<and> mset (valued results) \<subseteq># mset (map pk_Run tasks)"

definition answers :: "plugin_result list \<Rightarrow> pluginTaskResult list" where
  "answers results = map (\<lambda>r. the (pv_Value r)) (valued results)"

definition settles :: "plugin_result \<Rightarrow> bool" where
  "settles r \<longleftrightarrow> (case pv_Value r of None \<Rightarrow> False | Some outcome \<Rightarrow> po_Err outcome = None \<and> \<not> pv_Err r \<and> po_Complete outcome)"

definition settled :: "plugin_result list \<Rightarrow> string list" where
  "settled results = map (\<lambda>r. po_Source (the (pv_Value r))) (filter settles results)"

definition unsettled :: "plugin_result list \<Rightarrow> string list" where
  "unsettled results = map (\<lambda>r. po_Source (the (pv_Value r))) (filter (\<lambda>r. pv_Value r \<noteq> None \<and> \<not> settles r) results)"

definition linked :: "SearchResult list \<Rightarrow> SearchResult list" where
  "linked results = filter (\<lambda>r. sr_Links r \<noteq> []) results"

lemma executes_append:
  assumes "executes_plugins a x" and "executes_plugins b y"
  shows "executes_plugins (a @ b) (x @ y)"
  using assms by (simp add: executes_plugins_def valued_def subset_mset.add_mono)

lemma tier_parts: "n \<le> m \<Longrightarrow> take n xs @ take (m - n) (drop n xs) = take m xs"
  by (metis le_add_diff_inverse take_add)

lemma run_tiers_spec:
  assumes run: "\<And>ts. executes_plugins ts (run ts)" and tiers: "run_tiers tieredRollout deepSearch run tasks = (n, results)"
  shows "n \<le> length tasks \<and> executes_plugins (take n tasks) results
    \<and> (n < length tasks \<longrightarrow> tieredRollout \<and> \<not> deepSearch
         \<and> (n = 15 \<and> 30 \<le> countPluginTaskLinks results \<or> n = 45 \<and> 0 < countPluginTaskLinks results))"
proof (cases "tieredRollout \<and> \<not> deepSearch \<and> length tasks > 15")
  case False
  then have "run_tiers tieredRollout deepSearch run tasks = (length tasks, run tasks)" by (auto simp: run_tiers_def)
  with run [of tasks] tiers show ?thesis by simp
next
  case big: True
  define r1 where "r1 = run (take 15 tasks)"
  have e1: "executes_plugins (take 15 tasks) r1" by (simp add: r1_def run)
  show ?thesis
  proof (cases "countPluginTaskLinks r1 < 30")
    case False
    then have "n = 15" "results = r1" using tiers big by (simp_all add: run_tiers_def r1_def [symmetric])
    with big e1 False show ?thesis by simp
  next
    case True
    define m where "m = (if 15 + 30 > length tasks then length tasks else 15 + 30 :: nat)"
    define r2 where "r2 = r1 @ run (take (m - 15) (drop 15 tasks))"
    have m: "15 \<le> m" "m \<le> length tasks" "m < length tasks \<longrightarrow> m = 45" using big by (auto simp: m_def)
    have e2: "executes_plugins (take m tasks) r2"
      using executes_append [OF e1 run, of "take (m - 15) (drop 15 tasks)"] tier_parts [OF m(1), of tasks] by (simp add: r2_def)
    have tiers': "(if (deepSearch \<or> (tieredRollout \<and> countPluginTaskLinks r2 = 0)) \<and> m < length tasks
         then (length tasks, r2 @ run (drop m tasks)) else (m, r2)) = (n, results)"
    proof -
      have "run_tiers tieredRollout deepSearch run tasks =
        (if (deepSearch \<or> (tieredRollout \<and> countPluginTaskLinks r2 = 0)) \<and> m < length tasks
         then (length tasks, r2 @ run (drop m tasks)) else (m, r2))"
        using big True by (simp add: run_tiers_def Let_def r1_def [symmetric] m_def r2_def)
      with tiers show ?thesis by simp
    qed
    show ?thesis
    proof (cases "countPluginTaskLinks r2 = 0 \<and> m < length tasks")
      case True
      then have "n = length tasks" "results = r2 @ run (drop m tasks)" using tiers' big by simp_all
      with executes_append [OF e2 run, of "drop m tasks"] show ?thesis by simp
    next
      case False
      then have "n = m" "results = r2" using tiers' big by auto
      with False e2 m big show ?thesis by auto
    qed
  qed
qed

lemma settled_simps [simp]:
  "settled [] = []"
  "settled (r # rs) = (if settles r then po_Source (the (pv_Value r)) # settled rs else settled rs)"
  "unsettled [] = []"
  "unsettled (r # rs) =
     (if pv_Value r \<noteq> None \<and> \<not> settles r then po_Source (the (pv_Value r)) # unsettled rs else unsettled rs)"
  "answers [] = []"
  "answers (r # rs) = (case pv_Value r of None \<Rightarrow> answers rs | Some outcome \<Rightarrow> outcome # answers rs)"
  by (simp_all add: settled_def unsettled_def answers_def valued_def split: option.split)

lemma collect_plugin_spec:
  "pc_complete (foldl collect_plugin c results) \<longleftrightarrow> pc_complete c \<and> list_all settles results"
  "set (pc_finished (foldl collect_plugin c results)) = set (pc_finished c) \<union> po_Source ` set (answers results)"
  "pc_partial (foldl collect_plugin c results) = pc_partial c @ map (\<lambda>s. ''plugin:'' @ s) (unsettled results)"
  "pc_results (foldl collect_plugin c results) = pc_results c @ concat (map (\<lambda>a. linked (po_Results a)) (answers results))"
  by (induction results arbitrary: c)
    (auto simp: collect_plugin_def settles_def linked_def Let_def split: option.splits)

lemma answered_sources: "mset (map po_Source (answers results)) = mset (settled results) + mset (unsettled results)"
  by (induction results) (auto simp: settles_def split: option.splits)

text \<open>A task that always returns a value for its plug-in.\<close>

definition answers_for :: "(('c, 'j) AsyncSearchPlugin \<Rightarrow> plugin_task) \<Rightarrow> bool" where
  "answers_for task \<longleftrightarrow> (\<forall>inst. pv_Value (pk_Run (task inst)) \<noteq> None \<and> po_Source (the (pv_Value (pk_Run (task inst)))) = pi_Name inst)"

lemma answers_for_plugin: "answers_for (plugin_task cacheKey keyword baseExt)"
  by (simp add: answers_for_def plugin_task_def scheduledPluginResult_def split: option.split prod.split)

lemma answers_for_managed: "answers_for (managed_task resolve identity keyword baseExt)"
  by (auto simp: answers_for_def managed_task_def run_layers_def layer_outcome_def nothing_found_def scheduledPluginResult_def
      split: sum.split prod.split bool.split)

lemma executed_sources:
  assumes "answers_for task" and "executes_plugins (map task asked) results"
  shows "mset (map po_Source (answers results)) \<subseteq># mset (map pi_Name asked)"
proof -
  let ?src = "\<lambda>r. po_Source (the (pv_Value r))"
  have "mset (map po_Source (answers results)) = image_mset ?src (mset (valued results))"
    by (simp add: answers_def multiset.map_comp comp_def)
  also have "\<dots> \<subseteq># image_mset ?src (mset (map pk_Run (map task asked)))"
    using assms(2) by (intro image_mset_subseteq_mono) (simp add: executes_plugins_def)
  also have "\<dots> = mset (map pi_Name asked)" using assms(1) by (simp add: multiset.map_comp comp_def answers_for_def)
  finally show ?thesis .
qed

text \<open>When at most one answer of each asked source settles, all settle exactly when none is missing.\<close>

lemma all_settled:
  fixes asked fin :: "string list"
  assumes "distinct asked" and sub: "mset fin \<subseteq># mset asked" and k: "length fin \<le> k" "k \<le> length asked"
  shows "k = length asked \<and> length fin = k \<longleftrightarrow> set asked - set fin = {}"
proof
  assume "k = length asked \<and> length fin = k"
  with sub have "mset fin = mset asked" by (metis mset_subset_size order_less_irrefl size_mset subset_mset.le_imp_less_or_eq)
  then show "set asked - set fin = {}" by (metis Diff_cancel mset_eq_setD)
next
  assume "set asked - set fin = {}"
  then have "card (set asked) \<le> card (set fin)" by (intro card_mono) auto
  also have "\<dots> \<le> length fin" by (rule card_length)
  finally show "k = length asked \<and> length fin = k" using distinct_card [OF assms(1)] k by simp
qed

lemma settled_length: "length (settled results) = length results \<longleftrightarrow> list_all settles results"
  by (simp add: settled_def list_all_iff) (metis filter_True length_filter_less linorder_neq_iff)

lemma distinct_of_subset:
  assumes "distinct ys" and "mset xs \<subseteq># mset ys"
  shows "distinct xs"
proof -
  obtain zs where "mset ys = mset (xs @ zs)"
    using assms(2) by (metis ex_mset mset_append mset_subset_eq_exists_conv)
  with assms(1) show ?thesis by (metis distinct_append mset_eq_imp_distinct_iff)
qed

text \<open>The sources that are reported partial, and the complete batch.\<close>

lemma partial_sources:
  assumes "distinct (map pi_Name asked)" and "executes_plugins (map task asked) results" and "answers_for task"
  shows "set (unsettled results) \<union> (set (map pi_Name asked) - po_Source ` set (answers results)) = set (map pi_Name asked) - set (settled results)"
    and "length results = length asked \<and> list_all settles results \<longleftrightarrow> set (map pi_Name asked) - set (settled results) = {}"
proof -
  have sub: "mset (settled results) + mset (unsettled results) \<subseteq># mset (map pi_Name asked)"
    using executed_sources [OF assms(3,2)] answered_sources by metis
  have set_answers: "po_Source ` set (answers results) = set (settled results) \<union> set (unsettled results)"
    using arg_cong [OF answered_sources, of set_mset results] by simp
  have "mset (settled results @ unsettled results) \<subseteq># mset (map pi_Name asked)" using sub by simp
  then have "distinct (settled results @ unsettled results)"
    using distinct_of_subset [OF assms(1)] by blast
  then have "set (settled results) \<inter> set (unsettled results) = {}" by simp
  moreover have "set (settled results) \<union> set (unsettled results) \<subseteq> set (map pi_Name asked)"
    using set_mset_mono [OF sub] by simp
  ultimately show "set (unsettled results) \<union> (set (map pi_Name asked) - po_Source ` set (answers results))
      = set (map pi_Name asked) - set (settled results)" unfolding set_answers by blast
  have "mset (settled results) \<subseteq># mset (map pi_Name asked)" using sub by (metis mset_subset_eq_add_left subset_mset.order_trans)
  from all_settled [OF assms(1) this, of "length results"] assms(2)
  show "length results = length asked \<and> list_all settles results \<longleftrightarrow> set (map pi_Name asked) - set (settled results) = {}"
    unfolding settled_length [symmetric] by (auto simp: settled_def executes_plugins_def)
qed


lemma collected_sources:
  assumes "distinct (map pi_Name asked)" and "executes_plugins (map task asked) results" and "answers_for task"
    and "pc_finished start = []"
  defines "c \<equiv> foldl collect_plugin start results"
  shows "set (pc_partial c @ unfinished c asked)
      = set (pc_partial start) \<union> (\<lambda>s. ''plugin:'' @ s) ` (set (map pi_Name asked) - set (settled results))"
    and "pc_complete start = (whole \<and> length results = length asked) \<Longrightarrow>
      pc_complete c \<longleftrightarrow> whole \<and> set (map pi_Name asked) - set (settled results) = {}"
proof -
  have "set (pc_partial c @ unfinished c asked) = set (pc_partial start)
      \<union> (\<lambda>s. ''plugin:'' @ s) ` (set (unsettled results) \<union> (set (map pi_Name asked) - po_Source ` set (answers results)))"
    unfolding c_def unfinished_def by (auto simp: collect_plugin_spec assms(4))
  then show "set (pc_partial c @ unfinished c asked)
      = set (pc_partial start) \<union> (\<lambda>s. ''plugin:'' @ s) ` (set (map pi_Name asked) - set (settled results))"
    unfolding partial_sources(1) [OF assms(1-3)] .
  show "pc_complete c \<longleftrightarrow> whole \<and> set (map pi_Name asked) - set (settled results) = {}"
    if "pc_complete start = (whole \<and> length results = length asked)"
    using that partial_sources(2) [OF assms(1-3)] by (auto simp: c_def collect_plugin_spec)
qed

text \<open>The batch of a search that is not answered by the cache.\<close>

lemma plugin_live_batch:
  assumes run: "searchPluginsWithStatus env cfg rd digest registered order refused exec manager keyword plugins forceRefresh concurrency ext st
      = (Inr batch, st')"
    and miss: "consult_cache env (rd cacheKey) cacheKey (plugin_look cfg forceRefresh (ext_deep ext) st) forceRefresh
      (covers_request (vc_SearchTieredRollout cfg)) (st\<lparr>st_keys := keys\<rparr>) = ((None, seed), st1)"
    and key: "GeneratePluginCacheKey digest registered keyword plugins (st_keys st) = (cacheKey, keys)"
  defines "available \<equiv> available_plugins manager plugins"
  defines "tasks \<equiv> map (plugin_task cacheKey keyword (base_ext ext forceRefresh)) available"
  assumes tiers: "run_tiers (vc_SearchTieredRollout cfg) (ext_deep ext)
      (exec ClassPlugin (plugin_workers cfg (if concurrency \<le> 0 then vc_DefaultConcurrency cfg else concurrency))) tasks = (executed, results)"
  defines "c \<equiv> foldl collect_plugin \<lparr>pc_complete = (length results = executed), pc_finished = [], pc_partial = [],
      pc_statuses = [], pc_results = ch_Results seed\<rparr> results"
  defines "plan \<equiv> plugin_execution (vc_SearchTieredRollout cfg) (ext_deep ext) (length tasks) executed (length results)"
  defines "merged \<equiv> mergeSearchResults order [] (pc_results c)"
  shows "batch = \<lparr>sb_Results = merged, sb_Complete = pc_complete c, sb_PartialSources = pc_partial c @ unfinished c (take executed available),
              sb_SourceStatuses = (if pc_statuses c = [] then None else Some (pc_statuses c)), sb_Execution = plan\<rparr>
      \<and> st' = (if vc_cacheEnabled cfg
         then st1\<lparr>st_writes := st_writes st1 @ [\<lparr>cw_key = cacheKey, cw_results = merged, cw_complete = pc_complete c, cw_plan = plan\<rparr>]\<rparr>
         else st1)"
proof -
  have look: "plugin_look cfg forceRefresh (ext_deep ext) (st\<lparr>st_keys := keys\<rparr>) = plugin_look cfg forceRefresh (ext_deep ext) st"
    by (simp add: plugin_look_def)
  have admitted: "\<not> (tasks \<noteq> [] \<and> refused \<noteq> None)"
  proof
    assume t: "tasks \<noteq> [] \<and> refused \<noteq> None"
    have "fst (searchPluginsWithStatus env cfg rd digest registered order refused exec manager keyword plugins forceRefresh
        concurrency ext st) = Inl (the refused)"
      unfolding searchPluginsWithStatus_def Let_def key prod.case look miss option.case available_def [symmetric] tasks_def [symmetric]
        if_P [OF t] by simp
    with run show False by simp
  qed
  have "searchPluginsWithStatus env cfg rd digest registered order refused exec manager keyword plugins forceRefresh concurrency ext st
      = (Inr \<lparr>sb_Results = merged, sb_Complete = pc_complete c, sb_PartialSources = pc_partial c @ unfinished c (take executed available),
              sb_SourceStatuses = (if pc_statuses c = [] then None else Some (pc_statuses c)), sb_Execution = plan\<rparr>,
         if vc_cacheEnabled cfg
         then st1\<lparr>st_writes := st_writes st1 @ [\<lparr>cw_key = cacheKey, cw_results = merged, cw_complete = pc_complete c, cw_plan = plan\<rparr>]\<rparr>
         else st1)"
    unfolding searchPluginsWithStatus_def Let_def key prod.case look miss option.case available_def [symmetric] tasks_def [symmetric]
      tiers if_not_P [OF admitted] by (simp add: c_def merged_def plan_def)
  with run show ?thesis by simp
qed

text \<open>The sources that a batch reports are sources that were asked, and it is complete exactly when it reports
  none.\<close>

definition honest :: "string \<Rightarrow> string set \<Rightarrow> sourceSearchBatch \<Rightarrow> bool" where
  "honest kind sources batch \<longleftrightarrow>
     (sb_Complete batch \<longleftrightarrow> sb_PartialSources batch = []) \<and> set (sb_PartialSources batch) \<subseteq> (\<lambda>s. kind @ s) ` sources"

lemma honestI:
  assumes "set (sb_PartialSources batch) = (\<lambda>s. kind @ s) ` missing" and "sb_Complete batch \<longleftrightarrow> missing = {}" and "missing \<subseteq> sources"
  shows "honest kind sources batch"
proof -
  have "sb_PartialSources batch = [] \<longleftrightarrow> missing = {}" using assms(1) by (metis image_is_empty set_empty)
  with assms show ?thesis by (auto simp: honest_def)
qed

lemma honest_mono: "honest kind A batch \<Longrightarrow> A \<subseteq> B \<Longrightarrow> honest kind B batch"
  unfolding honest_def by blast

lemma plugins_honest:
  assumes run: "searchPluginsWithStatus env cfg rd digest registered order refused exec manager keyword plugins forceRefresh concurrency ext st
      = (Inr batch, st')"
    and "distinct (map pi_Name (available_plugins manager plugins))"
    and contract: "\<forall>workers tasks. executes_plugins tasks (exec ClassPlugin workers tasks)"
  shows "honest ''plugin:'' (set (map pi_Name (available_plugins manager plugins))) batch"
proof -
  obtain cacheKey keys where key: "GeneratePluginCacheKey digest registered keyword plugins (st_keys st) = (cacheKey, keys)" by fastforce
  define look where "look = plugin_look cfg forceRefresh (ext_deep ext) st"
  have look': "plugin_look cfg forceRefresh (ext_deep ext) (st\<lparr>st_keys := keys\<rparr>) = look" by (simp add: plugin_look_def look_def)
  obtain found seed st1 where consult: "consult_cache env (rd cacheKey) cacheKey look forceRefresh
      (covers_request (vc_SearchTieredRollout cfg)) (st\<lparr>st_keys := keys\<rparr>) = ((found, seed), st1)" by (metis prod.collapse)
  show ?thesis
  proof (cases found)
    case (Some cached)
    have "sb_Complete batch \<and> sb_PartialSources batch = []"
      using run unfolding searchPluginsWithStatus_def Let_def key prod.case look' consult Some option.case by auto
    then show ?thesis by (simp add: honest_def)
  next
    case None
    obtain n results where tiers: "run_tiers (vc_SearchTieredRollout cfg) (ext_deep ext)
        (exec ClassPlugin (plugin_workers cfg (if concurrency \<le> 0 then vc_DefaultConcurrency cfg else concurrency)))
        (map (plugin_task cacheKey keyword (base_ext ext forceRefresh)) (available_plugins manager plugins)) = (n, results)" by fastforce
    define asked where "asked = take n (available_plugins manager plugins)"
    note batch = plugin_live_batch [OF run consult [unfolded None look_def] key tiers, THEN conjunct1, folded asked_def]
    have spec: "n \<le> length (available_plugins manager plugins)"
      "executes_plugins (map (plugin_task cacheKey keyword (base_ext ext forceRefresh)) asked) results"
      using run_tiers_spec [OF _ tiers] contract by (simp_all add: asked_def take_map)
    have d: "distinct (map pi_Name asked)" using assms(2) by (simp add: asked_def distinct_take flip: take_map)
    let ?start = "\<lparr>pc_complete = (length results = n), pc_finished = [], pc_partial = [], pc_statuses = [], pc_results = ch_Results seed\<rparr>"
    note c = collected_sources(1) [OF d spec(2) answers_for_plugin, where start = ?start]
      collected_sources(2) [OF d spec(2) answers_for_plugin, where start = ?start and whole = True]
    have len: "length asked = n" using spec(1) by (simp add: asked_def)
    show ?thesis
    proof (rule honestI)
      show "set (sb_PartialSources batch) = (\<lambda>s. ''plugin:'' @ s) ` (set (map pi_Name asked) - set (settled results))"
        unfolding batch using c(1) by simp
      show "sb_Complete batch \<longleftrightarrow> set (map pi_Name asked) - set (settled results) = {}"
        unfolding batch using c(2) len by simp
      show "set (map pi_Name asked) - set (settled results) \<subseteq> set (map pi_Name (available_plugins manager plugins))"
        by (auto simp: asked_def dest: in_set_takeD)
    qed
  qed
qed

lemma managed_honest:
  assumes run: "search_managed cfg order refused exec resolve identity keyword forceRefresh concurrency ext managed (Inr legacy) st = (Inr batch, st')"
    and legacy: "honest ''plugin:'' sources legacy" and distinct: "distinct (map pi_Name managed)"
    and contract: "\<forall>cls workers tasks. executes_plugins tasks (exec cls workers tasks)"
  shows "honest ''plugin:'' (sources \<union> set (map pi_Name managed)) batch"
proof -
  define results where "results = exec ClassCredential (plugin_workers cfg concurrency)
      (map (managed_task resolve identity keyword (managed_ext ext identity forceRefresh)) managed)"
  let ?start = "\<lparr>pc_complete = (sb_Complete legacy \<and> length results = length managed), pc_finished = [], pc_partial = sb_PartialSources legacy,
      pc_statuses = (case sb_SourceStatuses legacy of None \<Rightarrow> [] | Some s \<Rightarrow> s), pc_results = sb_Results legacy\<rparr>"
  define c where "c = foldl collect_plugin ?start results"
  have batch: "sb_Complete batch = pc_complete c" "sb_PartialSources batch = pc_partial c @ unfinished c managed"
  proof -
    have f: "Inr batch = fst (search_managed cfg order refused exec resolve identity keyword forceRefresh concurrency ext managed (Inr legacy) st)"
      using run by simp
    have none: "refused = None"
    proof (rule ccontr)
      assume "refused \<noteq> None"
      with f show False by (simp add: search_managed_def Let_def)
    qed
    show "sb_Complete batch = pc_complete c" "sb_PartialSources batch = pc_partial c @ unfinished c managed"
      using f [unfolded search_managed_def none Let_def length_map sum.case, folded results_def, folded c_def] by simp_all
  qed
  have ok: "executes_plugins (map (managed_task resolve identity keyword (managed_ext ext identity forceRefresh)) managed) results"
    using contract by (simp add: results_def)
  let ?missing = "set (map pi_Name managed) - set (settled results)"
  have partial: "set (sb_PartialSources batch) = set (sb_PartialSources legacy) \<union> (\<lambda>s. ''plugin:'' @ s) ` ?missing"
    using collected_sources(1) [OF distinct ok answers_for_managed, where start = ?start] by (simp add: batch c_def)
  have "sb_Complete batch \<longleftrightarrow> sb_Complete legacy \<and> ?missing = {}"
    using collected_sources(2) [OF distinct ok answers_for_managed, where start = ?start and whole = "sb_Complete legacy"] by (simp add: batch c_def)
  then have "sb_Complete batch \<longleftrightarrow> sb_PartialSources batch = []"
    using legacy partial unfolding honest_def by (metis (no_types, lifting) Un_empty image_is_empty set_empty)
  with legacy partial show ?thesis unfolding honest_def by blast
qed

lemma search_managed_Inl [simp]: "search_managed cfg order refused exec resolve identity keyword forceRefresh concurrency ext managed (Inl e) st \<noteq> (Inr batch, st')"
  by (simp add: search_managed_def Let_def)

text \<open>The plug-ins that a list of names asks, as a set of names: all when every name is blank. The plain search
  compares without regard to case, the one with accounts trims as well.\<close>

definition asked_plugin :: "string list \<Rightarrow> string \<Rightarrow> bool" where
  "asked_plugin requested name \<longleftrightarrow>
     (\<forall>p\<in>set requested. fold_key p = [])
     \<or> (\<exists>p\<in>set requested. to_lower name = to_lower p \<or> to_lower name = fold_key p)"

definition asked_names :: "('c, 'j) AsyncSearchPlugin list option \<Rightarrow> string list \<Rightarrow> string set" where
  "asked_names manager requested =
     (case manager of None \<Rightarrow> {} | Some ps \<Rightarrow> {n \<in> set (map pi_Name ps). asked_plugin requested n})"

lemma fold_key_Nil [simp]: "fold_key [] = []"
  by code_simp

lemma available_asked: "set (map pi_Name (available_plugins manager requested)) \<subseteq> asked_names manager requested"
proof (cases "list_ex (\<lambda>p. p \<noteq> []) requested")
  case False
  then have "\<forall>p\<in>set requested. fold_key p = []" by (auto simp: list_ex_iff)
  then have "asked_plugin requested n" for n by (simp add: asked_plugin_def)
  then show ?thesis by (auto simp: available_plugins_def asked_names_def split: option.splits)
next
  case True
  then show ?thesis
    by (auto simp: available_plugins_def asked_names_def asked_plugin_def split: option.splits if_splits)
qed

lemma selected_asked:
  assumes "p \<in> set (select_instances ps requested)"
  shows "p \<in> set ps" and "asked_plugin requested (pi_Name p)"
proof -
  show "p \<in> set ps" using assms by (auto simp: select_instances_def Let_def split: if_splits)
  show "asked_plugin requested (pi_Name p)"
  proof (cases "\<forall>q\<in>set requested. fold_key q = []")
    case False
    then show ?thesis using assms by (auto simp: asked_plugin_def select_instances_def Let_def filter_empty_conv split: if_splits)
  qed (simp add: asked_plugin_def)
qed

text \<open>The names of selected plug-ins ask only plug-ins that the request asked, when no plug-in has an empty name.\<close>

lemma legacy_asked:
  assumes "\<forall>n\<in>set names. n \<noteq> [] \<and> asked_plugin requested n" and "names \<noteq> []"
  shows "set (map pi_Name (available_plugins manager names)) \<subseteq> asked_names manager requested"
proof -
  have "list_ex (\<lambda>p. p \<noteq> []) names" using assms by (cases names) auto
  moreover have "asked_plugin requested m" if "to_lower m = to_lower n" "n \<in> set names" for m n
    using assms(1) that by (auto simp: asked_plugin_def)
  ultimately show ?thesis
    by (auto simp: available_plugins_def asked_names_def split: option.splits)
qed

lemma identity_honest:
  assumes run: "searchPluginsForIdentityWithStatus env cfg rd digest registered order refused exec manager credentials identity keyword
      requested forceRefresh concurrency ext st = (Inr batch, st')"
    and named: "\<forall>ps. manager = Some ps \<longrightarrow> distinct (map pi_Name ps) \<and> [] \<notin> set (map pi_Name ps)"
    and contract: "\<forall>cls workers tasks. executes_plugins tasks (exec cls workers tasks)"
  shows "honest ''plugin:'' (asked_names manager requested) batch"
proof -
  let ?asked = "asked_names manager requested"
  have plain: "honest ''plugin:'' ?asked b"
    if "searchPluginsWithStatus env cfg rd digest registered order refused exec manager keyword names forceRefresh concurrency ext st = (Inr b, s)"
      and "set (map pi_Name (available_plugins manager names)) \<subseteq> ?asked" for names b s
  proof -
    have "distinct (map pi_Name (available_plugins manager names))"
      using named by (auto simp: available_plugins_def distinct_map_filter split: option.split)
    moreover have "\<forall>workers tasks. executes_plugins tasks (exec ClassPlugin workers tasks)" using contract by simp
    ultimately show ?thesis using plugins_honest [OF that(1)] honest_mono that(2) by blast
  qed
  show ?thesis
  proof (cases "\<exists>resolve ps. credentials = Some resolve \<and> manager = Some ps")
    case False
    then have "searchPluginsWithStatus env cfg rd digest registered order refused exec manager keyword requested forceRefresh concurrency ext st
        = (Inr batch, st')"
      using run by (auto simp: searchPluginsForIdentityWithStatus_def split: option.splits)
    then show ?thesis using available_asked by (rule plain)
  next
    case True
    then obtain resolve ps where some: "credentials = Some resolve" "manager = Some ps" by blast
    define selected where "selected = select_instances ps requested"
    define managed where "managed = filter (\<lambda>p. pi_SearchCredentialLayer p \<noteq> None) selected"
    define names where "names = map pi_Name (filter (\<lambda>p. pi_SearchCredentialLayer p = None) selected)"
    obtain outcome st1 where legacy: "(if names = [] then (Inr completeSourceSearchBatch, st)
        else searchPluginsWithStatus env cfg rd digest registered order refused exec manager keyword names forceRefresh concurrency ext st) = (outcome, st1)"
      by fastforce
    have run': "(if managed = [] then (outcome, st1)
        else search_managed cfg order refused exec resolve identity keyword forceRefresh concurrency ext managed outcome st1) = (Inr batch, st')"
      using run unfolding searchPluginsForIdentityWithStatus_def some option.case prod.case Let_def selected_def [symmetric]
        managed_def [symmetric] names_def [symmetric] legacy [unfolded some] .
    have "n \<noteq> [] \<and> asked_plugin requested n" if "n \<in> set names" for n
      using that named some(2) selected_asked [of _ ps requested] by (fastforce simp: names_def selected_def)
    then have names: "names \<noteq> [] \<Longrightarrow> set (map pi_Name (available_plugins manager names)) \<subseteq> ?asked"
      by (intro legacy_asked) auto
    have whole: "honest ''plugin:'' ?asked b" if "outcome = Inr b" for b
      using legacy that plain names by (cases "names = []") (auto simp: honest_def completeSourceSearchBatch_def)
    have sub: "set (map pi_Name managed) \<subseteq> ?asked"
      using selected_asked [of _ ps requested] by (auto simp: managed_def selected_def asked_names_def some(2))
    have dist: "distinct (map pi_Name managed)"
      using named by (auto simp: managed_def selected_def select_instances_def some distinct_map_filter Let_def)
    show ?thesis
    proof (cases "managed = []")
      case True
      with run' whole show ?thesis by simp
    next
      case False
      with run' obtain b where b: "outcome = Inr b" by (cases outcome) auto
      from managed_honest [OF _ whole [OF b] dist contract] run' False b
      have "honest ''plugin:'' (?asked \<union> set (map pi_Name managed)) batch" by simp
      moreover have "?asked \<union> set (map pi_Name managed) = ?asked" using sub by blast
      ultimately show ?thesis by simp
    qed
  qed
qed

text \<open>The searches with accounts leave one mark at most.\<close>

lemma managed_state:
  "snd (search_managed cfg order refused exec resolve identity keyword forceRefresh concurrency ext managed legacyOutcome st)
   = (if forceRefresh then st else mark_status CacheBypass st)"
  by (cases legacyOutcome) (simp_all add: search_managed_def Let_def)

section \<open>Properties\<close>

text \<open>C16: An answer that is not the cached one accounts for every plug-in: the plug-ins of the rounds that were run are
  asked, the partial sources are exactly those that did not settle, the batch is complete exactly when there
  are none, and the results are, key for key, those of the entry that seeded the search and the linked results
  of every answer. The counts add up, and plug-ins are deferred only by the tiered rollout, after 15 plug-ins
  that brought 30 links or after 45 that brought one.\<close>

theorem plugin_search_accounts:
  assumes run: "searchPluginsWithStatus env cfg rd digest registered order refused exec manager keyword plugins forceRefresh concurrency ext st
      = (Inr batch, st')"
    and miss: "consult_cache env (rd cacheKey) cacheKey (plugin_look cfg forceRefresh (ext_deep ext) st) forceRefresh
      (covers_request (vc_SearchTieredRollout cfg)) (st\<lparr>st_keys := keys\<rparr>) = ((None, seed), st1)"
    and key: "GeneratePluginCacheKey digest registered keyword plugins (st_keys st) = (cacheKey, keys)"
    and "distinct (map pi_Name (available_plugins manager plugins))" and order: "\<forall>xs. mset (order xs) = mset xs"
    and contract: "\<forall>workers tasks. executes_plugins tasks (exec ClassPlugin workers tasks)"
  defines "available \<equiv> available_plugins manager plugins"
  defines "tasks \<equiv> map (plugin_task cacheKey keyword (base_ext ext forceRefresh)) available"
  defines "rounds \<equiv> run_tiers (vc_SearchTieredRollout cfg) (ext_deep ext)
      (exec ClassPlugin (plugin_workers cfg (if concurrency \<le> 0 then vc_DefaultConcurrency cfg else concurrency))) tasks"
  defines "executed \<equiv> fst rounds" and "results \<equiv> snd rounds" and "x \<equiv> sb_Execution batch"
  shows "set (sb_PartialSources batch) = (\<lambda>s. ''plugin:'' @ s) ` (set (map pi_Name (take executed available)) - set (settled results))
       \<and> (sb_Complete batch \<longleftrightarrow> sb_PartialSources batch = [])
       \<and> generateResultKey ` set (sb_Results batch) =
           generateResultKey ` (set (ch_Results seed) \<union> \<Union> (set ` linked ` po_Results ` set (answers results)))
       \<and> executed \<le> length available \<and> se_Executed x = int executed \<and> se_Requested x = int (length available) \<and> se_Requested x = se_Executed x + se_Deferred x
       \<and> se_Executed x = se_Completed x + se_Cancelled x \<and> 0 \<le> se_Cancelled x
       \<and> (executed < length available \<longrightarrow> vc_SearchTieredRollout cfg \<and> \<not> ext_deep ext
            \<and> (executed = 15 \<and> 30 \<le> countPluginTaskLinks results \<or> executed = 45 \<and> 0 < countPluginTaskLinks results))
       \<and> (vc_cacheEnabled cfg \<longrightarrow> (\<exists>w. st_writes st' = st_writes st @ [w] \<and> cw_key w = cacheKey
            \<and> cw_results w = sb_Results batch \<and> cw_complete w = sb_Complete batch \<and> cw_plan w = x))"
proof -
  have tiers: "run_tiers (vc_SearchTieredRollout cfg) (ext_deep ext)
      (exec ClassPlugin (plugin_workers cfg (if concurrency \<le> 0 then vc_DefaultConcurrency cfg else concurrency)))
      (map (plugin_task cacheKey keyword (base_ext ext forceRefresh)) (available_plugins manager plugins)) = (executed, results)"
    by (simp add: rounds_def executed_def results_def tasks_def available_def)
  have spec: "executed \<le> length available" "executes_plugins (take executed tasks) results"
    "executed < length available \<longrightarrow> vc_SearchTieredRollout cfg \<and> \<not> ext_deep ext
       \<and> (executed = 15 \<and> 30 \<le> countPluginTaskLinks results \<or> executed = 45 \<and> 0 < countPluginTaskLinks results)"
    using run_tiers_spec [OF _ tiers] contract by (simp_all add: tasks_def available_def)
  let ?start = "\<lparr>pc_complete = (length results = executed), pc_finished = [], pc_partial = [], pc_statuses = [], pc_results = ch_Results seed\<rparr>"
  define c where "c = foldl collect_plugin ?start results"
  note live = plugin_live_batch [OF run miss key tiers, folded c_def available_def, folded tasks_def]
  have asked: "distinct (map pi_Name (take executed available))" "length (take executed available) = executed"
    "executes_plugins (map (plugin_task cacheKey keyword (base_ext ext forceRefresh)) (take executed available)) results"
    using assms(4) spec(1,2) by (simp_all add: available_def [symmetric] tasks_def take_map distinct_take flip: take_map)
  note c = collected_sources(1) [OF asked(1,3) answers_for_plugin, where start = ?start, folded c_def]
    collected_sources(2) [OF asked(1,3) answers_for_plugin, where start = ?start and whole = True, folded c_def]
  have partial: "set (sb_PartialSources batch)
      = (\<lambda>s. ''plugin:'' @ s) ` (set (map pi_Name (take executed available)) - set (settled results))"
    using c(1) live by simp
  have complete: "sb_Complete batch \<longleftrightarrow> sb_PartialSources batch = []"
  proof -
    have "sb_Complete batch \<longleftrightarrow> set (map pi_Name (take executed available)) - set (settled results) = {}"
      using c(2) asked(2) live by simp
    with partial show ?thesis by (metis (no_types, lifting) image_is_empty set_empty)
  qed
  have "set (pc_results c) = set (ch_Results seed) \<union> \<Union> (set ` linked ` po_Results ` set (answers results))"
    by (auto simp: c_def collect_plugin_spec)
  then have keys: "generateResultKey ` set (sb_Results batch) =
      generateResultKey ` (set (ch_Results seed) \<union> \<Union> (set ` linked ` po_Results ` set (answers results)))"
    using live merged_keys [OF order, of "[]" "pc_results c"] by simp
  have "length results \<le> executed" using asked(2,3) by (simp add: executes_plugins_def)
  then have counts: "se_Executed x = int executed" "se_Requested x = int (length available)" "se_Requested x = se_Executed x + se_Deferred x"
    "se_Executed x = se_Completed x + se_Cancelled x" "0 \<le> se_Cancelled x"
    using live by (simp_all add: x_def plugin_execution_def tasks_def)
  have w1: "st_writes st1 = st_writes st" using consult_cases [OF miss] by fastforce
  have "\<exists>w. st_writes st' = st_writes st @ [w] \<and> cw_key w = cacheKey \<and> cw_results w = sb_Results batch
      \<and> cw_complete w = sb_Complete batch \<and> cw_plan w = x" if "vc_cacheEnabled cfg"
    using live that by (simp add: w1 x_def)
  with partial complete keys counts spec(1,3) show ?thesis by blast
qed

text \<open>A plug-in that answers with one linked result, or fails; every task is executed.\<close>

definition plain_plugin :: "string \<Rightarrow> plugin_error option \<Rightarrow> (unit, unit) AsyncSearchPlugin" where
  "plain_plugin name err =
     \<lparr>pi_Name = name, pi_Search = (\<lambda>cacheKey current keyword ext. (if err = None then [demo_result] else [], err)),
      pi_SearchWithResult = None, pi_SearchCredentialLayer = None\<rparr>"

definition run_all :: plugin_exec where
  "run_all cls workers tasks = map pk_Run tasks"

lemma executes_run_all: "executes_plugins tasks (run_all cls workers tasks)"
  unfolding executes_plugins_def run_all_def valued_def mset_filter by (simp add: multiset_filter_subset)

theorem plugin_search_accounts_witness:
  "\<exists>batch st'. searchPluginsWithStatus letter_env tg_demo_config tg_demo_readings (\<lambda>s. s) [] (\<lambda>rs. rs) (None :: unit option) run_all
       (Some [plain_plugin ''alpha'' None, plain_plugin ''beta'' (Some other_error)]) ''film'' [''Alpha'', ''beta''] False 0 None
       tg_demo_state = (Inr batch, st')
     \<and> set (sb_PartialSources batch) = {''plugin:beta''} \<and> \<not> sb_Complete batch"
proof -
  let ?ps = "[plain_plugin ''alpha'' None, plain_plugin ''beta'' (Some other_error)]"
  let ?search = "searchPluginsWithStatus letter_env tg_demo_config tg_demo_readings (\<lambda>s. s) [] (\<lambda>rs. rs) (None :: unit option) run_all
       (Some ?ps) ''film'' [''Alpha'', ''beta''] False 0 None tg_demo_state"
  have "isl (fst ?search) = False" by code_simp
  then obtain batch st' where b: "?search = (Inr batch, st')" by (metis prod.collapse sum.collapse(2))
  obtain cacheKey keys where key: "GeneratePluginCacheKey (\<lambda>s. s) [] ''film'' [''Alpha'', ''beta''] (st_keys tg_demo_state) = (cacheKey, keys)"
    by fastforce
  have avail: "available_plugins (Some ?ps) [''Alpha'', ''beta''] = ?ps"
  proof -
    have "to_lower ''Alpha'' = ''alpha''" "to_lower ''alpha'' = ''alpha''" "to_lower ''beta'' = ''beta''" by code_simp+
    then show ?thesis by (simp add: available_plugins_def plain_plugin_def)
  qed
  have miss: "consult_cache letter_env (tg_demo_readings cacheKey) cacheKey (plugin_look tg_demo_config False (ext_deep None) tg_demo_state) False
      (covers_request (vc_SearchTieredRollout tg_demo_config)) (tg_demo_state\<lparr>st_keys := keys\<rparr>)
      = ((None, nothing_cached), mark_status CacheBypass (tg_demo_state\<lparr>st_keys := keys\<rparr>))"
    by (simp add: consult_cache_def plugin_look_def tg_demo_state_def)
  have names: "distinct (map pi_Name (available_plugins (Some ?ps) [''Alpha'', ''beta'']))"
    unfolding avail by (simp add: plain_plugin_def)
  have exec: "\<forall>workers tasks. executes_plugins tasks (run_all ClassPlugin workers tasks)" by (simp add: executes_run_all)
  note t = plugin_search_accounts [OF b miss key names _ exec, unfolded avail]
  let ?rounds = "run_tiers (vc_SearchTieredRollout tg_demo_config) (ext_deep (None :: unit ext))
      (run_all ClassPlugin (plugin_workers tg_demo_config (if 0 \<le> (0::int) then vc_DefaultConcurrency tg_demo_config else 0)))
      (map (plugin_task cacheKey ''film'' (base_ext (None :: unit ext) False)) ?ps)"
  have rounds: "fst ?rounds = 2 \<and> settled (snd ?rounds) = [''alpha'']"
    by (simp add: tg_demo_config_def run_tiers_def run_all_def plugin_task_def plain_plugin_def scheduledPluginResult_def
        settles_def statusFromSearchError_def split: prod.split)
  have "set (sb_PartialSources batch) = (\<lambda>s. ''plugin:'' @ s) ` (set (map pi_Name (take (fst ?rounds) ?ps)) - set (settled (snd ?rounds)))"
    and c: "sb_Complete batch \<longleftrightarrow> sb_PartialSources batch = []"
    using t by (rule conjunct1, simp) (use t in \<open>rule conjunct1 [OF conjunct2], simp\<close>)
  then have "set (sb_PartialSources batch) = {''plugin:beta''}"
    unfolding rounds [THEN conjunct1] rounds [THEN conjunct2] by (auto simp: plain_plugin_def)
  with b c show ?thesis by (metis empty_not_insert list.set(1))
qed

text \<open>C17: What a search with accounts leaves behind does not depend on the accounts: whoever asks, whatever the
  accounts are and whatever the account-backed plug-ins answer, the cache, the entries that will be written to
  it and the reports to the trace are the same. No answer of one caller's accounts reaches another.\<close>

theorem plugin_cache_isolation:
  assumes "exec ClassPlugin = exec' ClassPlugin"
  shows "snd (searchPluginsForIdentityWithStatus env cfg rd digest registered order refused exec manager (Some resolve) identity keyword
               requested forceRefresh concurrency ext st)
       = snd (searchPluginsForIdentityWithStatus env cfg rd digest registered order refused exec' manager (Some resolve') identity' keyword
               requested forceRefresh concurrency ext st)"
proof -
  have same: "searchPluginsWithStatus env cfg rd digest registered order refused exec manager keyword names force concurrency ext st
      = searchPluginsWithStatus env cfg rd digest registered order refused exec' manager keyword names force concurrency ext st"
    for names force by (simp only: searchPluginsWithStatus_def assms)
  show ?thesis
  proof (cases manager)
    case None
    with same show ?thesis by (simp add: searchPluginsForIdentityWithStatus_def)
  next
    case (Some ps)
    with same show ?thesis
      by (simp add: searchPluginsForIdentityWithStatus_def managed_state Let_def case_prod_unfold del: filter_empty_conv)
  qed
qed

text \<open>One plug-in with accounts whose searches time out for the second caller only.\<close>

definition account_plugin :: "string \<Rightarrow> (unit, unit) AsyncSearchPlugin" where
  "account_plugin name = (plain_plugin name None)\<lparr>pi_SearchCredentialLayer := Some (\<lambda>keyword ext layer. ([demo_result], True, None))\<rparr>"

definition run_plain :: plugin_exec where
  "run_plain cls workers tasks = (if cls = ClassPlugin then run_all cls workers tasks else [])"

definition demo_identity :: "string \<Rightarrow> SearchIdentity" where
  "demo_identity actor = \<lparr>sid_Actor = actor, sid_UserID = 7, sid_Role = ''user'', sid_AuthType = ''jwt'', sid_APIKeyID = 0, sid_RequestID = []\<rparr>"

definition demo_identity_search :: "plugin_exec \<Rightarrow> string \<Rightarrow> (unit + sourceSearchBatch) \<times> search_state" where
  "demo_identity_search exec actor =
     searchPluginsForIdentityWithStatus letter_env tg_demo_config tg_demo_readings (\<lambda>s. s) [] (\<lambda>rs. rs) None exec
       (Some [plain_plugin ''alpha'' None, account_plugin ''acct'']) (Some (\<lambda>actor user plugin limit. Inr ([()], [])))
       (demo_identity actor) ''film'' [] False 0 None tg_demo_state"

theorem plugin_cache_isolation_witness:
  "snd (demo_identity_search run_all ''user'') = snd (demo_identity_search run_plain ''admin'')
   \<and> map_sum id sb_PartialSources (fst (demo_identity_search run_all ''user'')) = Inr []
   \<and> map_sum id sb_PartialSources (fst (demo_identity_search run_plain ''admin'')) = Inr [''plugin:acct'']"
proof (intro conjI)
  have "run_all ClassPlugin = run_plain ClassPlugin" by (simp add: run_plain_def fun_eq_iff)
  then show "snd (demo_identity_search run_all ''user'') = snd (demo_identity_search run_plain ''admin'')"
    unfolding demo_identity_search_def by (rule plugin_cache_isolation)
  show "map_sum id sb_PartialSources (fst (demo_identity_search run_all ''user'')) = Inr []" by code_simp
  show "map_sum id sb_PartialSources (fst (demo_identity_search run_plain ''admin'')) = Inr [''plugin:acct'']" by code_simp
qed

text \<open>A merge by the callback of an asynchronous plug-in drops the plan of the entry: a tiered answer that
  deferred plug-ins then serves requests that want all of them.\<close>

lemma callback_forgets_deferral: "covers_request False (mergeCachedSearch r cached incoming whole)"
  by (simp add: covers_request_def mergeCachedSearch_def)

end
