(* ===== verification/Live_Search.thy ===== *)
theory Live_Search
  imports Plugin_Search Source_Config
begin

text \<open>
  A live search as a whole, \<open>searchContextUncoalesced\<close> of \<^verbatim>\<open>src/service/search_service.go\<close>, and what it takes
  from \<^verbatim>\<open>src/service/search_scheduler.go\<close>: which sources a request asks, the admission that both kinds of
  sources share, and the response that is made of the two batches. The two searches run concurrently in the
  code; here the Telegram part goes first. \<open>live_env\<close> collects what the parts depend on.
\<close>

section \<open>Model: the scheduler of the searches\<close>

definition searchPriority :: "'j service_request \<Rightarrow> Priority" where
  "searchPriority r =
     (if ext_get (cs_Ext r) ''search_priority'' = Some (ExtString ''background'') then PriorityBackground
      else if sid_Actor (cs_Identity r) = ''collector'' then PriorityCollection
      else PriorityInteractive)"

text \<open>The admission of a request is asked for when the first source needs it, and once only; \<open>acquire\<close> is the
  answer of the scheduler.\<close>

record 'x lazySearchAdmission =
  lz_outcome :: "'x option option"
  lz_released :: bool

definition contextWithLazySearchAdmission :: "'x lazySearchAdmission" where
  "contextWithLazySearchAdmission = \<lparr>lz_outcome = None, lz_released = False\<rparr>"

definition ensureLiveSearchAdmission :: "'x option \<Rightarrow> 'x lazySearchAdmission \<Rightarrow> 'x option \<times> 'x lazySearchAdmission" where
  "ensureLiveSearchAdmission acquire lazy =
     (case lz_outcome lazy of
        Some outcome \<Rightarrow> (outcome, lazy)
      | None \<Rightarrow> (acquire, lazy\<lparr>lz_outcome := Some acquire\<rparr>))"

text \<open>\<open>Release\<close> tells whether the permit of the scheduler is given back.\<close>

definition lazy_Release :: "'x lazySearchAdmission \<Rightarrow> bool \<times> 'x lazySearchAdmission" where
  "lazy_Release lazy =
     (if lz_released lazy then (False, lazy) else (lz_outcome lazy = Some None, lazy\<lparr>lz_released := True\<rparr>))"

text \<open>The policies of a snapshot; \<open>order\<close> is the order in which the map of plug-ins is iterated.\<close>

definition channel_policy :: "Channel \<Rightarrow> SourcePolicy" where
  "channel_policy c =
     \<lparr>sp_MaxConcurrency = ch_MaxConcurrency c,
      sp_Timeout = (if ch_TimeoutSeconds c > 0 then ch_TimeoutSeconds c * Second else 0), sp_CircuitFailures = 0, sp_CircuitCooldown = 0\<rparr>"

definition plugin_policy :: "'v PluginConfig \<Rightarrow> SourcePolicy" where
  "plugin_policy p =
     \<lparr>sp_MaxConcurrency = Source_Config.pc_MaxConcurrency p,
      sp_Timeout = (if pc_TimeoutSeconds p > 0 then pc_TimeoutSeconds p * Second else 0),
      sp_CircuitFailures = pc_CircuitFailures p,
      sp_CircuitCooldown = (if pc_CircuitCooldownSeconds p > 0 then pc_CircuitCooldownSeconds p * Second else 0)\<rparr>"

definition configureSearchScheduler :: "((string \<times> 'v PluginConfig) list \<Rightarrow> (string \<times> 'v PluginConfig) list) \<Rightarrow> 'v Config option \<Rightarrow>
    SchedRegistry \<Rightarrow> SchedRegistry" where
  "configureSearchScheduler order snapshot s =
     (case snapshot of
        None \<Rightarrow> s
      | Some cfg \<Rightarrow>
          let s = foldl (\<lambda>s c. ConfigureSource s (''tg:'' @ ch_Key c) (channel_policy c)) s (filter ch_Enabled (cf_Channels cfg))
          in foldl (\<lambda>s (name, p). ConfigureSource s (''plugin:'' @ name) (plugin_policy p)) s
               (filter (\<lambda>(name, p). pc_Enabled p) (order (cf_Plugins cfg))))"

section \<open>Model: a live search\<close>

record ('c, 'j) live_env =
  lv_store :: store_env
  lv_cfg :: live_config
  lv_rd :: "string \<Rightarrow> readings"
  lv_digest :: "string \<Rightarrow> string"
  lv_registered :: "string list"
  lv_order :: "SearchResult list \<Rightarrow> SearchResult list"
  lv_rank :: rank_env
  lv_link :: link_env
  lv_tg :: "int \<Rightarrow> string list \<Rightarrow> tg_execution"
  lv_plugins :: plugin_exec
  lv_manager :: "('c, 'j) AsyncSearchPlugin list option"
  lv_credentials :: "'c resolver option"

text \<open>The plug-in parameter: \<open>None\<close> means all. A request that names every plug-in is the one that names none.\<close>

definition normalize_plugins :: "string list \<Rightarrow> string \<Rightarrow> string list option \<Rightarrow> string list option" where
  "normalize_plugins registered sourceType plugins =
     (if sourceType = ''tg'' then None
      else if sourceType = ''all'' \<or> sourceType = ''plugin''
      then (case plugins of
              None \<Rightarrow> None
            | Some [] \<Rightarrow> Some []
            | Some ps \<Rightarrow>
                if \<not> list_ex (\<lambda>p. p \<noteq> []) ps then None
                else let allPluginNames = map to_lower registered;
                         requestedPlugins = map to_lower (filter (\<lambda>p. p \<noteq> []) ps)
                     in if length requestedPlugins = length allPluginNames
                           \<and> list_all (\<lambda>name. name \<in> set requestedPlugins) allPluginNames
                        then None else Some ps)
      else plugins)"

definition tg_enabled :: "string \<Rightarrow> string list option \<Rightarrow> bool" where
  "tg_enabled sourceType channels \<longleftrightarrow> (sourceType = ''all'' \<or> sourceType = ''tg'') \<and> channels \<noteq> Some []"

definition plugins_enabled :: "live_config \<Rightarrow> string \<Rightarrow> string list option \<Rightarrow> bool" where
  "plugins_enabled cfg sourceType plugins \<longleftrightarrow>
     (sourceType = ''all'' \<or> sourceType = ''plugin'') \<and> vc_AsyncPluginEnabled cfg \<and> plugins \<noteq> Some []"

text \<open>The response that is made of the two batches.\<close>

definition shown_result :: "rank_env \<Rightarrow> SearchResult \<Rightarrow> bool" where
  "shown_result re r \<longleftrightarrow>
     \<not> is_zero_time (sr_Datetime r) \<or> getKeywordPriority (sr_Title r) > 0
     \<or> plugin_level (re_priority re) (getResultSource r) \<le> 2"

definition statuses_of :: "sourceSearchBatch \<Rightarrow> (string \<times> SourceStatus) list" where
  "statuses_of batch = (case sb_SourceStatuses batch of None \<Rightarrow> [] | Some s \<Rightarrow> s)"

definition live_response :: "('c, 'j) live_env \<Rightarrow> string \<Rightarrow> string list option \<Rightarrow> string \<Rightarrow> sourceSearchBatch \<Rightarrow> sourceSearchBatch \<Rightarrow>
    Response" where
  "live_response le keyword cloudTypes resultType tg pl =
     (let allResults = rankSearchResults (lv_rank le) keyword (mergeSearchResults (lv_order le) (sb_Results tg) (sb_Results pl));
          filteredForResults = filter (shown_result (lv_rank le)) allResults;
          mergedLinks = mergeResultsByType (re_text (lv_rank le)) (lv_link le) allResults keyword
                          (case cloudTypes of None \<Rightarrow> [] | Some ts \<Rightarrow> ts);
          total = (if resultType = ''merged_by_type'' then sum_list (map (\<lambda>(t, links). length links) mergedLinks)
                   else length filteredForResults)
      in filterResponseByType
           \<lparr>rp_Total = int total, rp_Results = Some filteredForResults, rp_MergedByType = Some mergedLinks,
            rp_Completion = (if \<not> sb_Complete tg \<or> \<not> sb_Complete pl then ''partial'' else ''complete''),
            rp_PartialSources = sb_PartialSources tg @ sb_PartialSources pl,
            rp_SourceStatuses = mergeSourceStatuses [statuses_of tg, statuses_of pl],
            rp_Execution = mergeSearchExecution [sb_Execution tg, sb_Execution pl], rp_StopReason = [], rp_ElapsedMS = 0\<rparr> resultType)"

datatype 'x live_error = LiveContext | LiveChannel channel_error | LiveRefused 'x

definition live_tg :: "('c, 'j) live_env \<Rightarrow> 'x option \<Rightarrow> string \<Rightarrow> string list option \<Rightarrow> bool \<Rightarrow> search_state \<Rightarrow>
    ('x + sourceSearchBatch) \<times> search_state" where
  "live_tg le refused keyword channels forceRefresh st =
     searchTGWithStatus (lv_store le) (lv_cfg le) (lv_rd le) (lv_digest le) (lv_order le) refused (lv_tg le) keyword
       (case channels of None \<Rightarrow> [] | Some cs \<Rightarrow> cs) forceRefresh st"

definition live_plugins :: "('c, 'j) live_env \<Rightarrow> 'x option \<Rightarrow> SearchIdentity \<Rightarrow> string \<Rightarrow> string list option \<Rightarrow> bool \<Rightarrow> int \<Rightarrow>
    'j ext \<Rightarrow> search_state \<Rightarrow> ('x + sourceSearchBatch) \<times> search_state" where
  "live_plugins le refused identity keyword plugins forceRefresh concurrency ext st =
     searchPluginsForIdentityWithStatus (lv_store le) (lv_cfg le) (lv_rd le) (lv_digest le) (lv_registered le) (lv_order le) refused
       (lv_plugins le) (lv_manager le) (lv_credentials le) identity keyword (case plugins of None \<Rightarrow> [] | Some ps \<Rightarrow> ps)
       forceRefresh concurrency ext st"

definition manager_names :: "('c, 'j) AsyncSearchPlugin list option \<Rightarrow> string list" where
  "manager_names manager = (case manager of None \<Rightarrow> [] | Some ps \<Rightarrow> map pi_Name ps)"

definition searchContextUncoalesced :: "('c, 'j) live_env \<Rightarrow> bool \<Rightarrow> 'x option \<Rightarrow> 'j service_request \<Rightarrow> search_state \<Rightarrow>
    ('x live_error + Response) \<times> search_state" where
  "searchContextUncoalesced le ctxErr refused request st =
     (if ctxErr then (Inl LiveContext, st)
      else let st = (if cs_ForceRefresh request then mark_status CacheRefresh st else st)
      in (case NormalizeList (cs_Channels request) of
            Inl e \<Rightarrow> (Inl (LiveChannel e), st)
          | Inr channels \<Rightarrow>
              let ext = Some (cloneExt (cs_Ext request));
                  sourceType = (if cs_SourceType request = [] then ''all'' else cs_SourceType request);
                  plugins = normalize_plugins (manager_names (lv_manager le)) sourceType (cs_Plugins request);
                  concurrency = (if cs_Concurrency request \<le> 0 then vc_DefaultConcurrency (lv_cfg le) else cs_Concurrency request);
                  (tg, st) = (if tg_enabled sourceType channels
                              then live_tg le refused (cs_Keyword request) channels (cs_ForceRefresh request) st
                              else (Inr completeSourceSearchBatch, st));
                  (pl, st) = (if plugins_enabled (lv_cfg le) sourceType plugins
                              then live_plugins le refused (cs_Identity request) (cs_Keyword request) plugins
                                     (cs_ForceRefresh request) concurrency ext st
                              else (Inr completeSourceSearchBatch, st))
              in (case (tg, pl) of
                    (Inl e, _) \<Rightarrow> (Inl (LiveRefused e), st)
                  | (Inr tg, Inl e) \<Rightarrow> (Inl (LiveRefused e), st)
                  | (Inr tg, Inr pl) \<Rightarrow>
                      (Inr (live_response le (cs_Keyword request) (cs_CloudTypes request) (cs_ResultType request) tg pl), st))))"


section \<open>Lemmas\<close>

lemma tg_honest:
  assumes run: "searchTGWithStatus env cfg rd digest order refused exec keyword channels forceRefresh st = (Inr batch, st')"
    and "distinct channels" and order: "\<forall>xs. mset (order xs) = mset xs"
    and contract: "\<forall>workers tasks. distinct tasks \<longrightarrow> executes_channels tasks (fst (exec workers tasks))"
  shows "honest ''tg:'' (set channels) batch"
proof -
  obtain cacheKey keys where key: "GenerateTGCacheKey digest keyword channels (st_keys st) = (cacheKey, keys)" by fastforce
  define look where "look = tg_look cfg forceRefresh st"
  have look': "tg_look cfg forceRefresh (st\<lparr>st_keys := keys\<rparr>) = look" by (simp add: tg_look_def look_def)
  obtain found seed st1 where consult: "consult_cache env (rd cacheKey) cacheKey look forceRefresh (\<lambda>_. True) (st\<lparr>st_keys := keys\<rparr>)
      = ((found, seed), st1)" by (metis prod.collapse)
  show ?thesis
  proof (cases found)
    case (Some cached)
    have "sb_Complete batch \<and> sb_PartialSources batch = []"
      using run unfolding searchTGWithStatus_def Let_def key prod.case look' consult Some option.case by auto
    then show ?thesis by (simp add: honest_def)
  next
    case None
    from order have "mset (order xs) = mset xs" for xs by blast
    note accounts = tg_search_accounts [OF run consult [unfolded None look_def] key assms(2) this contract]
    define sn where "sn = fst (scan_channels env rd digest (tg_look cfg forceRefresh st) keyword channels empty_scan st1)"
    have "set_mset (mset (sn_cached sn) + mset (sn_tasks sn)) = set_mset (mset channels)"
      unfolding accounts [folded sn_def, THEN conjunct1] ..
    then have tasks: "set (sn_tasks sn) \<subseteq> set channels" by auto
    have partial: "\<exists>good. set (sb_PartialSources batch) = (\<lambda>ch. ''tg:'' @ ch) ` (set (sn_tasks sn) - good)"
      using accounts [folded sn_def, THEN conjunct2, THEN conjunct1] by blast
    have "sb_Complete batch \<longleftrightarrow> sb_PartialSources batch = []" using accounts [THEN conjunct2, THEN conjunct2, THEN conjunct1] .
    with tasks partial show ?thesis unfolding honest_def by blast
  qed
qed

lemma NormalizeList_distinct: "NormalizeList channels = Inr cs \<Longrightarrow> distinct (case cs of None \<Rightarrow> [] | Some xs \<Rightarrow> xs)"
  using channel_list_canonical [of "the channels"] by (cases channels) (auto simp: NormalizeList_def split: sum.splits)

lemma merged_keys_distinct:
  assumes "\<forall>xs. mset (order xs) = mset xs"
  shows "distinct (map generateResultKey (mergeSearchResults order a b))"
proof -
  have keyed: "keyed (merge_table a b)" by (rule merge_table_keyed)
  have "mset (mergeSearchResults order a b) = mset (map snd (merge_table a b))"
    using assms by (simp add: mergeSearchResults_def merge_table_def)
  moreover have "distinct (map generateResultKey (map snd (merge_table a b)))"
    unfolding map_map comp_def keyed_map_key [OF keyed] using keyed by (simp add: keyed_def)
  ultimately show ?thesis using urls_distinct_mset by blast
qed

lemma filterResponseByType_fields:
  "rp_Completion (filterResponseByType r t) = rp_Completion r" "rp_PartialSources (filterResponseByType r t) = rp_PartialSources r"
  "rp_Total (filterResponseByType r t) = rp_Total r"
  "rp_Results (filterResponseByType r t) = (if t = ''all'' \<or> t = ''results'' then rp_Results r else None)"
  "rp_MergedByType (filterResponseByType r t) = (if t = ''results'' then None else rp_MergedByType r)"
  by (auto simp: filterResponseByType_def)

lemma by_type_distinct: "distinct (map ml_URL (merged_links (mergeResultsByType tx le results keyword cloudTypes)))"
  using merged_by_type_distinct [of tx le results keyword] filter_concat_distinct
  by (cases "cloudTypes = []") (auto simp: filtered_by_type merged_links_def)

text \<open>The plug-ins that the plug-in parameter of a request asks: all without one, none with an empty list.\<close>

definition asks_plugin :: "string list option \<Rightarrow> string \<Rightarrow> bool" where
  "asks_plugin plugins name \<longleftrightarrow> (case plugins of None \<Rightarrow> True | Some ps \<Rightarrow> ps \<noteq> [] \<and> asked_plugin ps name)"

lemma asked_by_request:
  assumes "plugins_enabled cfg kind (normalize_plugins (manager_names manager) kind plugins)"
    and "n \<in> asked_names manager (case normalize_plugins (manager_names manager) kind plugins of None \<Rightarrow> [] | Some ps \<Rightarrow> ps)"
  shows "n \<in> set (manager_names manager) \<and> asks_plugin plugins n"
proof
  show member: "n \<in> set (manager_names manager)"
    using assms(2) by (auto simp: asked_names_def manager_names_def split: option.splits)
  show "asks_plugin plugins n"
  proof (cases plugins)
    case (Some ps)
    have kind: "kind = ''all'' \<or> kind = ''plugin''" using assms(1) by (simp add: plugins_enabled_def)
    have ps: "ps \<noteq> []" using assms(1) Some kind by (auto simp: plugins_enabled_def normalize_plugins_def)
    then obtain q qs where q: "ps = q # qs" by (cases ps) auto
    show ?thesis
    proof (cases "normalize_plugins (manager_names manager) kind plugins")
      case None
      then have "\<not> list_ex (\<lambda>p. p \<noteq> []) ps
          \<or> list_all (\<lambda>name. name \<in> set (map to_lower (filter (\<lambda>p. p \<noteq> []) ps))) (map to_lower (manager_names manager))"
        using kind Some q by (auto simp: normalize_plugins_def Let_def split: if_splits)
      then have "asked_plugin ps n"
      proof
        assume "\<not> list_ex (\<lambda>p. p \<noteq> []) ps"
        then show ?thesis by (auto simp: asked_plugin_def list_ex_iff)
      next
        assume "list_all (\<lambda>name. name \<in> set (map to_lower (filter (\<lambda>p. p \<noteq> []) ps))) (map to_lower (manager_names manager))"
        with member show ?thesis by (auto simp: asked_plugin_def list_all_iff)
      qed
      with Some ps show ?thesis by (simp add: asks_plugin_def)
    next
      case (Some xs)
      then have "xs = ps" using kind q \<open>plugins = Some ps\<close>
        by (auto simp: normalize_plugins_def Let_def split: if_splits)
      with assms(2) Some have "asked_plugin ps n" by (auto simp: asked_names_def split: option.splits)
      with \<open>plugins = Some ps\<close> ps show ?thesis by (simp add: asks_plugin_def)
    qed
  qed (simp add: asks_plugin_def)
qed

text \<open>The two batches behind an answer, and the sources that they may report.\<close>

definition asked_sources :: "('c, 'j) live_env \<Rightarrow> 'j service_request \<Rightarrow> string \<Rightarrow> string list option \<Rightarrow> string set" where
  "asked_sources le request kind cs =
     (\<lambda>s. ''tg:'' @ s) ` {c. (kind = ''all'' \<or> kind = ''tg'') \<and> c \<in> set (case cs of None \<Rightarrow> [] | Some xs \<Rightarrow> xs)}
     \<union> (\<lambda>s. ''plugin:'' @ s) ` {n \<in> set (manager_names (lv_manager le)). (kind = ''all'' \<or> kind = ''plugin'')
          \<and> vc_AsyncPluginEnabled (lv_cfg le) \<and> asks_plugin (cs_Plugins request) n}"

lemma live_search_parts:
  assumes run: "searchContextUncoalesced le ctxErr refused request st = (Inr response, st')"
  defines "kind \<equiv> if cs_SourceType request = [] then ''all'' else cs_SourceType request"
  obtains cs ps conc tgb plb st0 st1 st2 where "NormalizeList (cs_Channels request) = Inr cs"
    and "ps = normalize_plugins (manager_names (lv_manager le)) kind (cs_Plugins request)"
    and "(if tg_enabled kind cs then live_tg le refused (cs_Keyword request) cs (cs_ForceRefresh request) st0
          else (Inr completeSourceSearchBatch, st0)) = (Inr tgb, st1)"
    and "(if plugins_enabled (lv_cfg le) kind ps
          then live_plugins le refused (cs_Identity request) (cs_Keyword request) ps (cs_ForceRefresh request) conc
                 (Some (cloneExt (cs_Ext request))) st1
          else (Inr completeSourceSearchBatch, st1)) = (Inr plb, st2)"
    and "response = live_response le (cs_Keyword request) (cs_CloudTypes request) (cs_ResultType request) tgb plb"
proof -
  obtain cs where cs: "NormalizeList (cs_Channels request) = Inr cs"
    using run by (auto simp: searchContextUncoalesced_def Let_def split: if_splits sum.splits)
  define st0 where "st0 = (if cs_ForceRefresh request then mark_status CacheRefresh st else st)"
  define ps where "ps = normalize_plugins (manager_names (lv_manager le)) kind (cs_Plugins request)"
  define conc where "conc = (if cs_Concurrency request \<le> 0 then vc_DefaultConcurrency (lv_cfg le) else cs_Concurrency request)"
  obtain t st1 where t: "(if tg_enabled kind cs then live_tg le refused (cs_Keyword request) cs (cs_ForceRefresh request) st0
      else (Inr completeSourceSearchBatch, st0)) = (t, st1)" by fastforce
  obtain p st2 where p: "(if plugins_enabled (lv_cfg le) kind ps
      then live_plugins le refused (cs_Identity request) (cs_Keyword request) ps (cs_ForceRefresh request) conc
             (Some (cloneExt (cs_Ext request))) st1
      else (Inr completeSourceSearchBatch, st1)) = (p, st2)" by fastforce
  have kind_eq: "kind = (if cs_SourceType request = [] then ''all'' else cs_SourceType request)" by (simp add: kind_def)
  have ok: "\<not> ctxErr" using run by (auto simp: searchContextUncoalesced_def)
  have run': "(case (t, p) of (Inl e, _) \<Rightarrow> (Inl (LiveRefused e), st2) | (Inr tg, Inl e) \<Rightarrow> (Inl (LiveRefused e), st2)
      | (Inr tg, Inr pl) \<Rightarrow> (Inr (live_response le (cs_Keyword request) (cs_CloudTypes request) (cs_ResultType request) tg pl), st2))
      = (Inr response, st')"
    using run unfolding searchContextUncoalesced_def if_not_P [OF ok] Let_def st0_def [symmetric] cs sum.case kind_eq [symmetric]
      ps_def [symmetric] conc_def [symmetric] t prod.case p .
  then obtain tgb plb where "t = Inr tgb" "p = Inr plb"
    "response = live_response le (cs_Keyword request) (cs_CloudTypes request) (cs_ResultType request) tgb plb"
    by (auto split: sum.splits)
  with that cs ps_def t p show thesis by blast
qed

lemma live_batches_honest:
  assumes run: "searchContextUncoalesced le ctxErr refused request st = (Inr response, st')"
    and order: "\<forall>xs. mset (lv_order le xs) = mset xs"
    and tg: "\<forall>workers tasks. distinct tasks \<longrightarrow> executes_channels tasks (fst (lv_tg le workers tasks))"
    and plugins: "\<forall>cls workers tasks. executes_plugins tasks (lv_plugins le cls workers tasks)"
    and names: "distinct (manager_names (lv_manager le))" "[] \<notin> set (manager_names (lv_manager le))"
  defines "kind \<equiv> if cs_SourceType request = [] then ''all'' else cs_SourceType request"
  obtains cs tgb plb where "NormalizeList (cs_Channels request) = Inr cs"
    and "response = live_response le (cs_Keyword request) (cs_CloudTypes request) (cs_ResultType request) tgb plb"
    and "set (sb_PartialSources tgb @ sb_PartialSources plb) \<subseteq> asked_sources le request kind cs"
    and "sb_Complete tgb \<longleftrightarrow> sb_PartialSources tgb = []" and "sb_Complete plb \<longleftrightarrow> sb_PartialSources plb = []"
proof -
  obtain cs ps conc tgb plb st0 st1 st2 where cs: "NormalizeList (cs_Channels request) = Inr cs"
    and ps: "ps = normalize_plugins (manager_names (lv_manager le)) kind (cs_Plugins request)"
    and t: "(if tg_enabled kind cs then live_tg le refused (cs_Keyword request) cs (cs_ForceRefresh request) st0
          else (Inr completeSourceSearchBatch, st0)) = (Inr tgb, st1)"
    and p: "(if plugins_enabled (lv_cfg le) kind ps
          then live_plugins le refused (cs_Identity request) (cs_Keyword request) ps (cs_ForceRefresh request) conc
                 (Some (cloneExt (cs_Ext request))) st1
          else (Inr completeSourceSearchBatch, st1)) = (Inr plb, st2)"
    and response: "response = live_response le (cs_Keyword request) (cs_CloudTypes request) (cs_ResultType request) tgb plb"
    using live_search_parts [OF run, folded kind_def] by metis
  let ?channels = "{c. (kind = ''all'' \<or> kind = ''tg'') \<and> c \<in> set (case cs of None \<Rightarrow> [] | Some xs \<Rightarrow> xs)}"
  let ?plugins = "{n \<in> set (manager_names (lv_manager le)). (kind = ''all'' \<or> kind = ''plugin'')
                 \<and> vc_AsyncPluginEnabled (lv_cfg le) \<and> asks_plugin (cs_Plugins request) n}"
  have tg_ok: "honest ''tg:'' ?channels tgb"
  proof (cases "tg_enabled kind cs")
    case True
    with t have "live_tg le refused (cs_Keyword request) cs (cs_ForceRefresh request) st0 = (Inr tgb, st1)" by simp
    then have "honest ''tg:'' (set (case cs of None \<Rightarrow> [] | Some xs \<Rightarrow> xs)) tgb"
      using tg_honest [OF _ NormalizeList_distinct [OF cs] order tg] by (simp add: live_tg_def)
    with True show ?thesis by (auto simp: tg_enabled_def elim!: honest_mono)
  qed (use t in \<open>auto simp: honest_def completeSourceSearchBatch_def\<close>)
  have pl_ok: "honest ''plugin:'' ?plugins plb"
  proof (cases "plugins_enabled (lv_cfg le) kind ps")
    case True
    with p have "live_plugins le refused (cs_Identity request) (cs_Keyword request) ps (cs_ForceRefresh request) conc
             (Some (cloneExt (cs_Ext request))) st1 = (Inr plb, st2)" by simp
    from identity_honest [OF this [unfolded live_plugins_def] _ plugins] names
    have "honest ''plugin:'' (asked_names (lv_manager le) (case ps of None \<Rightarrow> [] | Some ps \<Rightarrow> ps)) plb"
      by (cases "lv_manager le") (simp_all add: manager_names_def)
    moreover have "n \<in> ?plugins" if "n \<in> asked_names (lv_manager le) (case ps of None \<Rightarrow> [] | Some ps \<Rightarrow> ps)" for n
      using asked_by_request [OF True [unfolded ps] that [unfolded ps]] True by (simp add: plugins_enabled_def)
    ultimately show ?thesis by (meson honest_mono subsetI)
  qed (use p in \<open>auto simp: honest_def completeSourceSearchBatch_def\<close>)
  have "set (sb_PartialSources tgb @ sb_PartialSources plb) \<subseteq> asked_sources le request kind cs"
    using tg_ok pl_ok unfolding set_append honest_def asked_sources_def by (intro Un_mono) simp_all
  with that [OF cs response] tg_ok pl_ok show thesis unfolding honest_def by blast
qed

text \<open>The response made of two batches.\<close>

lemma live_response_shape:
  assumes order: "\<forall>xs. mset (lv_order le xs) = mset xs"
    and response: "response = live_response le keyword cloudTypes resultType tgb plb"
  shows "rp_Completion response = (if \<not> sb_Complete tgb \<or> \<not> sb_Complete plb then ''partial'' else ''complete'')"
    and "rp_PartialSources response = sb_PartialSources tgb @ sb_PartialSources plb"
    and "rp_Results response \<noteq> None \<longleftrightarrow> resultType = ''all'' \<or> resultType = ''results''"
    and "rp_MergedByType response \<noteq> None \<longleftrightarrow> resultType \<noteq> ''results''"
    and "rp_Results response = Some rs \<Longrightarrow> distinct (map generateResultKey rs)
            \<and> list_all (\<lambda>r. shown_result (lv_rank le) r \<and> kept_result (lv_rank le) keyword r) rs
            \<and> sorted_wrt (\<lambda>a b. total_score (lv_rank le) (ranked_keyword keyword) b
                 \<le> total_score (lv_rank le) (ranked_keyword keyword) a) rs
            \<and> rp_Total response = int (length rs)"
    and "rp_MergedByType response = Some m \<Longrightarrow> distinct (map ml_URL (merged_links m))
            \<and> (resultType = ''merged_by_type'' \<longrightarrow> rp_Total response = int (length (merged_links m)))"
proof -
  let ?merged = "mergeSearchResults (lv_order le) (sb_Results tgb) (sb_Results plb)"
  let ?ranked = "rankSearchResults (lv_rank le) keyword ?merged"
  define shown where "shown = filter (shown_result (lv_rank le)) ?ranked"
  define links where "links = mergeResultsByType (re_text (lv_rank le)) (lv_link le) ?ranked keyword
      (case cloudTypes of None \<Rightarrow> [] | Some ts \<Rightarrow> ts)"
  have counted: "sum_list (map (\<lambda>(t, ls). length ls) links) = length (merged_links links)"
    by (simp add: merged_links_def length_concat comp_def case_prod_unfold)
  show fields: "rp_Completion response = (if \<not> sb_Complete tgb \<or> \<not> sb_Complete plb then ''partial'' else ''complete'')"
    "rp_PartialSources response = sb_PartialSources tgb @ sb_PartialSources plb"
    and "rp_Results response \<noteq> None \<longleftrightarrow> resultType = ''all'' \<or> resultType = ''results''"
    and "rp_MergedByType response \<noteq> None \<longleftrightarrow> resultType \<noteq> ''results''"
    by (simp_all add: response live_response_def Let_def filterResponseByType_fields)
  have lists: "rp_Total response = int (if resultType = ''merged_by_type'' then length (merged_links links) else length shown)"
    "rp_Results response = (if resultType = ''all'' \<or> resultType = ''results'' then Some shown else None)"
    "rp_MergedByType response = (if resultType = ''results'' then None else Some links)"
    by (simp_all add: response live_response_def Let_def filterResponseByType_fields shown_def links_def counted [unfolded links_def])
  have "distinct (map generateResultKey (filter (kept_result (lv_rank le) keyword) ?merged))"
    using merged_keys_distinct [OF order] by (simp add: distinct_map_filter)
  then have "distinct (map generateResultKey ?ranked)"
    by (rule urls_distinct_mset) (simp add: rankSearchResults_sort)
  then have "distinct (map generateResultKey shown)"
    "sorted_wrt (\<lambda>a b. total_score (lv_rank le) (ranked_keyword keyword) b \<le> total_score (lv_rank le) (ranked_keyword keyword) a) shown"
    "list_all (\<lambda>r. shown_result (lv_rank le) r \<and> kept_result (lv_rank le) keyword r) shown"
    by (auto simp: shown_def distinct_map_filter sorted_wrt_filter list_all_iff rankSearchResults_sort sort_desc)
  then show "distinct (map generateResultKey rs)
            \<and> list_all (\<lambda>r. shown_result (lv_rank le) r \<and> kept_result (lv_rank le) keyword r) rs
            \<and> sorted_wrt (\<lambda>a b. total_score (lv_rank le) (ranked_keyword keyword) b
                 \<le> total_score (lv_rank le) (ranked_keyword keyword) a) rs
            \<and> rp_Total response = int (length rs)" if "rp_Results response = Some rs"
    using that by (auto simp: lists split: if_splits)
  have "distinct (map ml_URL (merged_links links))" unfolding links_def by (rule by_type_distinct)
  then show "distinct (map ml_URL (merged_links m))
            \<and> (resultType = ''merged_by_type'' \<longrightarrow> rp_Total response = int (length (merged_links m)))"
    if "rp_MergedByType response = Some m"
    using that by (auto simp: lists split: if_splits)
qed

section \<open>Properties\<close>

text \<open>C15: A live answer says what it is: it is marked complete exactly when it names no partial source, and every
  partial source is one the request asks for: a channel it names, if its source type includes Telegram, or a
  plug-in of the service that its list of plug-ins asks, if the source type includes plug-ins and these are
  enabled. Its results have distinct keys, are relevant to the keyword and ordered by score, and no URL appears
  twice among its links; results are shown for the types \<open>all\<close> and \<open>results\<close>, links for every type but
  \<open>results\<close>. For these two types the total is the number of results shown, for \<open>merged_by_type\<close> it is the number
  of links shown.\<close>

theorem live_search_answer:
  assumes run: "searchContextUncoalesced le ctxErr refused request st = (Inr response, st')"
    and order: "\<forall>xs. mset (lv_order le xs) = mset xs"
    and tg: "\<forall>workers tasks. distinct tasks \<longrightarrow> executes_channels tasks (fst (lv_tg le workers tasks))"
    and plugins: "\<forall>cls workers tasks. executes_plugins tasks (lv_plugins le cls workers tasks)"
    and names: "distinct (manager_names (lv_manager le))" "[] \<notin> set (manager_names (lv_manager le))"
  defines "kind \<equiv> if cs_SourceType request = [] then ''all'' else cs_SourceType request"
  shows "(rp_Completion response = ''complete'' \<longleftrightarrow> rp_PartialSources response = [])
       \<and> (\<exists>cs. NormalizeList (cs_Channels request) = Inr cs \<and> set (rp_PartialSources response)
            \<subseteq> (\<lambda>s. ''tg:'' @ s) ` {c. (kind = ''all'' \<or> kind = ''tg'') \<and> c \<in> set (case cs of None \<Rightarrow> [] | Some xs \<Rightarrow> xs)}
            \<union> (\<lambda>s. ''plugin:'' @ s) ` {n \<in> set (manager_names (lv_manager le)). (kind = ''all'' \<or> kind = ''plugin'')
                 \<and> vc_AsyncPluginEnabled (lv_cfg le) \<and> asks_plugin (cs_Plugins request) n})
       \<and> (rp_Results response \<noteq> None \<longleftrightarrow> cs_ResultType request = ''all'' \<or> cs_ResultType request = ''results'')
       \<and> (rp_MergedByType response \<noteq> None \<longleftrightarrow> cs_ResultType request \<noteq> ''results'')
       \<and> (case rp_Results response of None \<Rightarrow> True | Some rs \<Rightarrow>
            distinct (map generateResultKey rs)
            \<and> list_all (\<lambda>r. shown_result (lv_rank le) r \<and> kept_result (lv_rank le) (cs_Keyword request) r) rs
            \<and> sorted_wrt (\<lambda>a b. total_score (lv_rank le) (ranked_keyword (cs_Keyword request)) b
                 \<le> total_score (lv_rank le) (ranked_keyword (cs_Keyword request)) a) rs
            \<and> rp_Total response = int (length rs))
       \<and> (case rp_MergedByType response of None \<Rightarrow> True | Some m \<Rightarrow>
            distinct (map ml_URL (merged_links m))
            \<and> (cs_ResultType request = ''merged_by_type'' \<longrightarrow> rp_Total response = int (length (merged_links m))))"
proof -
  obtain cs tgb plb where cs: "NormalizeList (cs_Channels request) = Inr cs"
    and response: "response = live_response le (cs_Keyword request) (cs_CloudTypes request) (cs_ResultType request) tgb plb"
    and partial: "set (sb_PartialSources tgb @ sb_PartialSources plb) \<subseteq> asked_sources le request kind cs"
    and complete: "sb_Complete tgb \<longleftrightarrow> sb_PartialSources tgb = []" "sb_Complete plb \<longleftrightarrow> sb_PartialSources plb = []"
    using live_batches_honest [OF run order tg plugins names, folded kind_def] by metis
  note shape = live_response_shape [OF order response]
  have "rp_Completion response = ''complete'' \<longleftrightarrow> rp_PartialSources response = []"
    using complete by (simp add: shape(1,2))
  moreover have "set (rp_PartialSources response) \<subseteq> asked_sources le request kind cs"
    using partial by (simp only: shape(2))
  ultimately show ?thesis
    using cs shape(3-6) unfolding asked_sources_def by (auto split: option.split)
qed

text \<open>Two channels, of which one fails, and two plug-ins that fail, of which the request asks one, and one with accounts.\<close>

definition demo_live :: "(unit, unit) live_env" where
  "demo_live = \<lparr>lv_store = letter_env, lv_cfg = tg_demo_config, lv_rd = tg_demo_readings, lv_digest = (\<lambda>s. s), lv_registered = [],
     lv_order = (\<lambda>rs. rs), lv_rank = demo_env, lv_link = demo_links, lv_tg = tg_demo_exec, lv_plugins = run_all,
     lv_manager = Some [plain_plugin ''alpha'' (Some other_error), plain_plugin ''beta'' (Some other_error), account_plugin ''acct''],
     lv_credentials = Some (\<lambda>actor user plugin limit. Inr ([()], []))\<rparr>"

definition demo_live_request :: "unit service_request" where
  "demo_live_request = \<lparr>cs_Keyword = ''film'', cs_Channels = Some [''@Movie'', ''tgnews''], cs_Concurrency = 0, cs_ForceRefresh = False,
     cs_ResultType = ''all'', cs_SourceType = [], cs_Plugins = Some [''Alpha'', ''acct''], cs_CloudTypes = None, cs_Ext = None,
     cs_Identity = demo_identity ''user'', cs_ExecutionBudget = 0, cs_requiresLiveTG = False\<rparr>"

definition demo_live_search :: "(unit live_error + Response) \<times> search_state" where
  "demo_live_search = searchContextUncoalesced demo_live False None demo_live_request tg_demo_state"

theorem live_search_answer_witness:
  "\<exists>response st'. demo_live_search = (Inr response, st') \<and> rp_PartialSources response = [''tg:tgnews'', ''plugin:alpha'']
     \<and> rp_Completion response \<noteq> ''complete'' \<and> rp_Results response \<noteq> None"
proof -
  have ran: "map_sum id (\<lambda>r. (rp_PartialSources r, rp_Results r \<noteq> None)) (fst demo_live_search) = Inr ([''tg:tgnews'', ''plugin:alpha''], True)"
    by code_simp
  then obtain response where "fst demo_live_search = Inr response" by (cases "fst demo_live_search") auto
  then obtain st' where r: "demo_live_search = (Inr response, st')" by (metis prod.collapse)
  have p: "rp_PartialSources response = [''tg:tgnews'', ''plugin:alpha'']" "rp_Results response \<noteq> None"
    using ran unfolding r by simp_all
  have tg: "\<forall>workers tasks. distinct tasks \<longrightarrow> executes_channels tasks (fst (lv_tg demo_live workers tasks))"
    by (simp add: demo_live_def executes_channels_def tg_demo_exec_def outcomes_map_Some comp_def)
  have "\<forall>xs. mset (lv_order demo_live xs) = mset xs" "\<forall>cls workers tasks. executes_plugins tasks (lv_plugins demo_live cls workers tasks)"
    "distinct (manager_names (lv_manager demo_live))" "[] \<notin> set (manager_names (lv_manager demo_live))"
    by (simp_all add: demo_live_def executes_run_all manager_names_def plain_plugin_def account_plugin_def)
  from live_search_answer [OF r [unfolded demo_live_search_def] this(1) tg this(2-4), THEN conjunct1] p(1)
  have "rp_Completion response \<noteq> ''complete''" by simp
  with p r show ?thesis by blast
qed

text \<open>However often the sources ask, the scheduler is asked once and its answer stands; a permit is given back
  once, and only if there is one.\<close>

lemma admission_once:
  "ensureLiveSearchAdmission again (snd (ensureLiveSearchAdmission first lazy)) = (fst (ensureLiveSearchAdmission first lazy), snd (ensureLiveSearchAdmission first lazy))"
  "fst (lazy_Release (snd (lazy_Release lazy))) = False"
  "fst (lazy_Release (snd (ensureLiveSearchAdmission (Some e) contextWithLazySearchAdmission))) = False"
  "fst (lazy_Release (snd (ensureLiveSearchAdmission None contextWithLazySearchAdmission))) = True"
  by (auto simp: ensureLiveSearchAdmission_def lazy_Release_def contextWithLazySearchAdmission_def split: option.split)

text \<open>The registry of the scheduler stays well formed when a snapshot is applied.\<close>

lemma configureSearchScheduler_wf:
  fixes snapshot :: "'v Config option"
  assumes "registry_wf s"
  shows "registry_wf (configureSearchScheduler order snapshot s)"
proof -
  have "registry_wf (foldl (\<lambda>s c. ConfigureSource s (''tg:'' @ ch_Key c) (channel_policy c)) s cs)" if "registry_wf s" for s cs
    using that by (induction cs arbitrary: s) (auto simp: ConfigureSource_wf)
  moreover have "registry_wf (foldl (\<lambda>s (name, p). ConfigureSource s (''plugin:'' @ name) (plugin_policy p)) s ps)" if "registry_wf s"
    for s and ps :: "(string \<times> 'v PluginConfig) list"
    using that by (induction ps arbitrary: s) (auto simp: ConfigureSource_wf)
  ultimately show ?thesis using assms by (simp add: configureSearchScheduler_def Let_def split: option.split)
qed

end
