(* ===== verification/Credential_Store.thy ===== *)
theory Credential_Store
  imports Account_Laws
begin

text \<open>
  The plug-in accounts in the database: \<^verbatim>\<open>src/storage/plugin_credentials.go\<close>, its types in
  \<^verbatim>\<open>src/storage/source_credential_types.go\<close> and the import of \<^verbatim>\<open>src/storage/data_migrations.go\<close>. The table is the
  list of its rows in the order of their identifiers; an SQL statement is the operation on the rows that its
  text describes, with the constraints of the schema (\<^verbatim>\<open>migrations/004\<close> and \<^verbatim>\<open>021\<close>). Metadata is a JSON object,
  whose values are the texts and lists of texts that the services look at and others. \<open>at\<close> is the clock of the
  store and \<open>dbnow\<close> that of the database. The users that a row refers to are in the account tables.
\<close>

section \<open>Model: data\<close>

text \<open>A value of the metadata: a text, a Go list of texts, a JSON list (an element that is no text is \<open>None\<close>).\<close>

datatype 'm meta_value = MetaText string | MetaTexts "string list" | MetaList "string option list" | MetaOther 'm

type_synonym 'm metadata = "(string \<times> 'm meta_value) list"

text \<open>What the metadata column holds and returns.\<close>

fun stored_value :: "'m meta_value \<Rightarrow> 'm meta_value" where
  "stored_value (MetaTexts xs) = MetaList (map Some xs)"
| "stored_value v = v"

definition stored_metadata :: "'m metadata \<Rightarrow> 'm metadata" where
  "stored_metadata m = map (\<lambda>(k, v). (k, stored_value v)) m"

record 'm PluginCredential =
  cd_ID :: int
  cd_PublicID :: string
  cd_PluginKey :: string
  cd_Scope :: string
  cd_OwnerUserID :: "int option"
  cd_CreatedByUserID :: "int option"
  cd_DisplayName :: string
  cd_PublicMetadata :: "'m metadata"
  cd_SecretSchemaVersion :: int
  cd_BindingFingerprint :: string
  cd_Ciphertext :: string
  cd_Nonce :: string
  cd_KeyVersion :: int
  cd_CredentialFingerprint :: string
  cd_Revision :: int
  cd_OwnerEnabled :: bool
  cd_AdminSuspendedAt :: "time option"
  cd_AdminSuspendedBy :: "int option"
  cd_Status :: string
  cd_ExpiresAt :: "time option"
  cd_CooldownUntil :: "time option"
  cd_LastUsedAt :: "time option"
  cd_LastSuccessAt :: "time option"
  cd_LastFailureAt :: "time option"
  cd_LastErrorCode :: string
  cd_ConsecutiveFailures :: int
  cd_LastHealthCheckAt :: "time option"
  cd_LastHealthStatus :: string
  cd_LastHealthErrorCode :: string
  cd_CreatedAt :: time
  cd_UpdatedAt :: time

record 'm CreatePluginCredentialInput =
  ci_PublicID :: string
  ci_PluginKey :: string
  ci_Scope :: string
  ci_OwnerUserID :: "int option"
  ci_CreatedByUserID :: "int option"
  ci_DisplayName :: string
  ci_PublicMetadata :: "'m metadata"
  ci_SecretSchemaVersion :: int
  ci_BindingFingerprint :: string
  ci_Ciphertext :: string
  ci_Nonce :: string
  ci_KeyVersion :: int
  ci_CredentialFingerprint :: string
  ci_OwnerEnabled :: bool
  ci_Status :: string
  ci_ExpiresAt :: "time option"
  ci_CreatedAt :: time

record 'm ReplaceCredentialEnvelopeInput =
  ri_PublicID :: string
  ri_ExpectedRevision :: int
  ri_Scope :: string
  ri_DisplayName :: string
  ri_PublicMetadata :: "'m metadata"
  ri_SecretSchemaVersion :: int
  ri_BindingFingerprint :: string
  ri_Ciphertext :: string
  ri_Nonce :: string
  ri_KeyVersion :: int
  ri_CredentialFingerprint :: string
  ri_Status :: string
  ri_ExpiresAt :: "time option"
  ri_UpdatedAt :: time

record PluginCredentialFilter =
  fl_OwnerUserID :: "int option"
  fl_PluginKeys :: "string list"
  fl_Scopes :: "string list"
  fl_Statuses :: "string list"
  fl_OwnerEnabled :: "bool option"
  fl_Suspended :: "bool option"
  fl_IncludeSecrets :: bool
  fl_Page :: int
  fl_PageSize :: int

record 'm PluginCredentialPage =
  pg_Items :: "'m PluginCredential list"
  pg_Total :: nat
  pg_Page :: int
  pg_PageSize :: int

record 'm CredentialStore =
  cb_rows :: "'m PluginCredential list"
  cb_nextID :: int
  cb_migrations :: "(string \<times> time) list"

text \<open>\<open>WriteFailed\<close> is an error of the database that is not a conflict.\<close>

datatype credential_error = StoreError storage_error | WriteFailed

abbreviation "NotFound \<equiv> StoreError ErrNotFound"
abbreviation "Conflict \<equiv> StoreError ErrConflict"
abbreviation "Invalid \<equiv> StoreError ErrInvalid"

section \<open>Model: what is valid\<close>

definition validCredentialScope :: "string \<Rightarrow> bool" where
  "validCredentialScope scope \<longleftrightarrow> scope = ''user_private'' \<or> scope = ''admin_private'' \<or> scope = ''public_shared''"

definition admin_scope :: "string \<Rightarrow> bool" where
  "admin_scope scope \<longleftrightarrow> scope = ''admin_private'' \<or> scope = ''public_shared''"

definition validCredentialScopeOwner :: "string \<Rightarrow> int option \<Rightarrow> bool" where
  "validCredentialScopeOwner scope owner \<longleftrightarrow>
     (if scope = ''user_private'' then (case owner of None \<Rightarrow> False | Some i \<Rightarrow> i > 0)
      else admin_scope scope \<and> owner = None)"

definition validCredentialStatus :: "string \<Rightarrow> bool" where
  "validCredentialStatus status \<longleftrightarrow> status = ''active'' \<or> status = ''invalid'' \<or> status = ''expired''"

definition validCredentialHealthStatus :: "string \<Rightarrow> bool" where
  "validCredentialHealthStatus status \<longleftrightarrow>
     status = ''unknown'' \<or> status = ''healthy'' \<or> status = ''error'' \<or> status = ''invalid''"

definition valid_envelope :: "int \<Rightarrow> int \<Rightarrow> string \<Rightarrow> string \<Rightarrow> string \<Rightarrow> string \<Rightarrow> bool" where
  "valid_envelope schemaVersion keyVersion bindingFingerprint credentialFingerprint nonce ciphertext \<longleftrightarrow>
     schemaVersion > 0 \<and> keyVersion > 0 \<and> length bindingFingerprint = 32 \<and> length credentialFingerprint = 32
     \<and> length nonce = 12 \<and> length ciphertext \<ge> 16"

definition validatePluginCredentialInput :: "'m CreatePluginCredentialInput \<Rightarrow> bool" where
  "validatePluginCredentialInput input \<longleftrightarrow>
     trim_space (ci_PublicID input) \<noteq> [] \<and> trim_space (ci_PluginKey input) \<noteq> []
     \<and> validCredentialScopeOwner (ci_Scope input) (ci_OwnerUserID input)
     \<and> valid_envelope (ci_SecretSchemaVersion input) (ci_KeyVersion input) (ci_BindingFingerprint input)
         (ci_CredentialFingerprint input) (ci_Nonce input) (ci_Ciphertext input)
     \<and> (trim_space (ci_Status input) = [] \<or> validCredentialStatus (trim_space (ci_Status input)))"

definition IsUsableAt :: "'m PluginCredential \<Rightarrow> time \<Rightarrow> bool" where
  "IsUsableAt c at \<longleftrightarrow>
     (if \<not> cd_OwnerEnabled c \<or> cd_AdminSuspendedAt c \<noteq> None \<or> cd_Status c \<noteq> ''active'' then False
      else if (case cd_ExpiresAt c of None \<Rightarrow> False | Some t \<Rightarrow> \<not> t > at) then False
      else (case cd_CooldownUntil c of None \<Rightarrow> True | Some t \<Rightarrow> \<not> t > at))"

text \<open>The unique indexes: the public identifier, and the fingerprint per plug-in and owner, or per plug-in for the
  rows without an owner.\<close>

definition same_fingerprint :: "'m PluginCredential \<Rightarrow> 'm PluginCredential \<Rightarrow> bool" where
  "same_fingerprint a b \<longleftrightarrow>
     cd_PluginKey a = cd_PluginKey b \<and> cd_CredentialFingerprint a = cd_CredentialFingerprint b
     \<and> (cd_Scope a = ''user_private'' \<and> cd_Scope b = ''user_private'' \<and> cd_OwnerUserID a = cd_OwnerUserID b
        \<or> admin_scope (cd_Scope a) \<and> admin_scope (cd_Scope b))"

definition violates_unique :: "'m PluginCredential \<Rightarrow> 'm PluginCredential list \<Rightarrow> bool" where
  "violates_unique c rows \<longleftrightarrow>
     list_ex (\<lambda>r. cd_ID r \<noteq> cd_ID c \<and> (cd_PublicID r = cd_PublicID c \<or> same_fingerprint r c)) rows"

section \<open>Model: writing\<close>

definition owner_active :: "time \<Rightarrow> User \<Rightarrow> bool" where
  "owner_active at u \<longleftrightarrow> us_Enabled u \<and> us_DeletedAt u = None \<and> (case us_ExpiresAt u of None \<Rightarrow> True | Some t \<Rightarrow> t > at)"

definition known_user :: "int option \<Rightarrow> AccountStore \<Rightarrow> bool" where
  "known_user i users \<longleftrightarrow> (case i of None \<Rightarrow> True | Some i \<Rightarrow> map_of (db_users users) i \<noteq> None)"

definition new_row :: "time \<Rightarrow> int \<Rightarrow> 'm CreatePluginCredentialInput \<Rightarrow> 'm PluginCredential" where
  "new_row createdAt nextID input =
     \<lparr>cd_ID = nextID, cd_PublicID = trim_space (ci_PublicID input), cd_PluginKey = trim_space (ci_PluginKey input),
      cd_Scope = ci_Scope input, cd_OwnerUserID = ci_OwnerUserID input, cd_CreatedByUserID = ci_CreatedByUserID input,
      cd_DisplayName = trim_space (ci_DisplayName input), cd_PublicMetadata = stored_metadata (ci_PublicMetadata input),
      cd_SecretSchemaVersion = ci_SecretSchemaVersion input, cd_BindingFingerprint = ci_BindingFingerprint input,
      cd_Ciphertext = ci_Ciphertext input, cd_Nonce = ci_Nonce input, cd_KeyVersion = ci_KeyVersion input,
      cd_CredentialFingerprint = ci_CredentialFingerprint input, cd_Revision = 1, cd_OwnerEnabled = ci_OwnerEnabled input,
      cd_AdminSuspendedAt = None, cd_AdminSuspendedBy = None,
      cd_Status = (if trim_space (ci_Status input) = [] then ''active'' else trim_space (ci_Status input)),
      cd_ExpiresAt = ci_ExpiresAt input, cd_CooldownUntil = None, cd_LastUsedAt = None, cd_LastSuccessAt = None,
      cd_LastFailureAt = None, cd_LastErrorCode = [], cd_ConsecutiveFailures = 0, cd_LastHealthCheckAt = None,
      cd_LastHealthStatus = ''unknown'', cd_LastHealthErrorCode = [], cd_CreatedAt = createdAt, cd_UpdatedAt = createdAt\<rparr>"

definition insertPluginCredentialTx :: "time \<Rightarrow> AccountStore \<Rightarrow> 'm CreatePluginCredentialInput \<Rightarrow> 'm CredentialStore \<Rightarrow>
    credential_error + 'm PluginCredential \<times> 'm CredentialStore" where
  "insertPluginCredentialTx at users input st =
     (let owner = (case ci_OwnerUserID input of None \<Rightarrow> None | Some i \<Rightarrow> map_of (db_users users) i);
          row = new_row (if is_zero_time (ci_CreatedAt input) then at else ci_CreatedAt input) (cb_nextID st) input
      in if \<not> validatePluginCredentialInput input then Inl Invalid
         else if ci_Scope input = ''user_private'' \<and> owner = None then Inl NotFound
         else if ci_Scope input = ''user_private'' \<and> \<not> owner_active at (the owner) then Inl Conflict
         else if \<not> known_user (ci_CreatedByUserID input) users then Inl WriteFailed
         else if violates_unique row (cb_rows st) then Inl Conflict
         else Inr (row, st\<lparr>cb_rows := cb_rows st @ [row], cb_nextID := cb_nextID st + 1\<rparr>))"

definition CreatePluginCredential :: "time \<Rightarrow> AccountStore \<Rightarrow> 'm CreatePluginCredentialInput \<Rightarrow> 'm CredentialStore \<Rightarrow>
    credential_error + 'm PluginCredential \<times> 'm CredentialStore" where
  "CreatePluginCredential at users input st = insertPluginCredentialTx at users input st"

text \<open>\<open>UPDATE ... SET f WHERE p\<close>.\<close>

definition update_rows :: "('m PluginCredential \<Rightarrow> bool) \<Rightarrow> ('m PluginCredential \<Rightarrow> 'm PluginCredential) \<Rightarrow> 'm CredentialStore \<Rightarrow>
    'm CredentialStore" where
  "update_rows p f st = st\<lparr>cb_rows := map (\<lambda>r. if p r then f r else r) (cb_rows st)\<rparr>"

definition select_row :: "('m PluginCredential \<Rightarrow> bool) \<Rightarrow> 'm CredentialStore \<Rightarrow> 'm PluginCredential option" where
  "select_row p st = List.find p (cb_rows st)"

definition GetPluginCredentialByPublicID :: "string \<Rightarrow> 'm CredentialStore \<Rightarrow> credential_error + 'm PluginCredential" where
  "GetPluginCredentialByPublicID publicID st =
     (case select_row (\<lambda>r. cd_PublicID r = trim_space publicID) st of None \<Rightarrow> Inl NotFound | Some c \<Rightarrow> Inr c)"

definition new_envelope :: "time \<Rightarrow> string \<Rightarrow> 'm ReplaceCredentialEnvelopeInput \<Rightarrow> 'm PluginCredential \<Rightarrow> 'm PluginCredential" where
  "new_envelope updatedAt scope input r =
     r\<lparr>cd_Scope := scope, cd_DisplayName := trim_space (ri_DisplayName input),
       cd_PublicMetadata := stored_metadata (ri_PublicMetadata input), cd_SecretSchemaVersion := ri_SecretSchemaVersion input,
       cd_BindingFingerprint := ri_BindingFingerprint input, cd_Ciphertext := ri_Ciphertext input, cd_Nonce := ri_Nonce input,
       cd_KeyVersion := ri_KeyVersion input, cd_CredentialFingerprint := ri_CredentialFingerprint input, cd_Status := ri_Status input,
       cd_ExpiresAt := ri_ExpiresAt input, cd_Revision := cd_Revision r + 1, cd_UpdatedAt := updatedAt\<rparr>"

definition valid_replacement :: "'m ReplaceCredentialEnvelopeInput \<Rightarrow> bool" where
  "valid_replacement input \<longleftrightarrow>
     ri_ExpectedRevision input > 0 \<and> validCredentialStatus (ri_Status input)
     \<and> valid_envelope (ri_SecretSchemaVersion input) (ri_KeyVersion input) (ri_BindingFingerprint input)
         (ri_CredentialFingerprint input) (ri_Nonce input) (ri_Ciphertext input)"

text \<open>The replacement by compare-and-set: \<open>mine\<close> selects the rows that the caller may change, \<open>visible\<close> those whose
  existence turns a miss into a conflict.\<close>

definition replace_envelope :: "time \<Rightarrow> ('m PluginCredential \<Rightarrow> bool) \<Rightarrow> ('m PluginCredential \<Rightarrow> bool) \<Rightarrow>
    ('m PluginCredential \<Rightarrow> string) \<Rightarrow> 'm ReplaceCredentialEnvelopeInput \<Rightarrow> 'm CredentialStore \<Rightarrow>
    credential_error + 'm PluginCredential \<times> 'm CredentialStore" where
  "replace_envelope at mine visible scope input st =
     (let updatedAt = (if is_zero_time (ri_UpdatedAt input) then at else ri_UpdatedAt input);
          hits = (\<lambda>r. cd_PublicID r = trim_space (ri_PublicID input) \<and> cd_Revision r = ri_ExpectedRevision input \<and> mine r)
      in case select_row hits st of
           None \<Rightarrow> Inl (if select_row (\<lambda>r. cd_PublicID r = ri_PublicID input \<and> visible r) st = None then NotFound else Conflict)
         | Some r \<Rightarrow>
             let r' = new_envelope updatedAt (scope r) input r
             in if violates_unique r' (cb_rows st) then Inl Conflict
                else Inr (r', update_rows (\<lambda>q. cd_ID q = cd_ID r) (\<lambda>_. r') st))"

definition ReplacePluginCredentialEnvelopeCAS :: "time \<Rightarrow> 'm ReplaceCredentialEnvelopeInput \<Rightarrow> 'm CredentialStore \<Rightarrow>
    credential_error + 'm PluginCredential \<times> 'm CredentialStore" where
  "ReplacePluginCredentialEnvelopeCAS at input st =
     (if \<not> (valid_replacement input \<and> validCredentialScope (ri_Scope input)) then Inl Invalid
      else replace_envelope at (\<lambda>r. admin_scope (cd_Scope r) \<and> admin_scope (ri_Scope input)) (\<lambda>_. True) (\<lambda>_. ri_Scope input) input st)"

definition ReplaceUserPluginCredentialEnvelopeCAS :: "time \<Rightarrow> int \<Rightarrow> 'm ReplaceCredentialEnvelopeInput \<Rightarrow> 'm CredentialStore \<Rightarrow>
    credential_error + 'm PluginCredential \<times> 'm CredentialStore" where
  "ReplaceUserPluginCredentialEnvelopeCAS at ownerUserID input st =
     (if \<not> (ownerUserID > 0 \<and> valid_replacement input \<and> ri_Scope input = ''user_private'') then Inl Invalid
      else replace_envelope at (\<lambda>r. cd_OwnerUserID r = Some ownerUserID \<and> cd_Scope r = ''user_private'')
             (\<lambda>r. cd_OwnerUserID r = Some ownerUserID \<and> cd_Scope r = ''user_private'') cd_Scope input st)"

text \<open>Statements that report whether they have changed a row.\<close>

definition exec_update :: "('m PluginCredential \<Rightarrow> bool) \<Rightarrow> ('m PluginCredential \<Rightarrow> 'm PluginCredential) \<Rightarrow> 'm CredentialStore \<Rightarrow>
    credential_error + 'm CredentialStore" where
  "exec_update p f st = (if select_row p st = None then Inl NotFound else Inr (update_rows p f st))"

definition SetAdminCredentialEnabled :: "time \<Rightarrow> string \<Rightarrow> bool \<Rightarrow> 'm CredentialStore \<Rightarrow> credential_error + 'm CredentialStore" where
  "SetAdminCredentialEnabled dbnow publicID enabled st =
     exec_update (\<lambda>r. cd_PublicID r = trim_space publicID \<and> admin_scope (cd_Scope r))
       (\<lambda>r. r\<lparr>cd_OwnerEnabled := enabled, cd_UpdatedAt := dbnow\<rparr>) st"

definition SetCredentialOwnerEnabled :: "time \<Rightarrow> string \<Rightarrow> int \<Rightarrow> bool \<Rightarrow> 'm CredentialStore \<Rightarrow> credential_error + 'm CredentialStore" where
  "SetCredentialOwnerEnabled dbnow publicID ownerUserID enabled st =
     exec_update (\<lambda>r. cd_PublicID r = trim_space publicID \<and> cd_OwnerUserID r = Some ownerUserID \<and> cd_Scope r = ''user_private'')
       (\<lambda>r. r\<lparr>cd_OwnerEnabled := enabled, cd_UpdatedAt := dbnow\<rparr>) st"

definition SetCredentialAdminSuspension :: "time \<Rightarrow> time \<Rightarrow> AccountStore \<Rightarrow> string \<Rightarrow> bool \<Rightarrow> int \<Rightarrow> time \<Rightarrow> 'm CredentialStore \<Rightarrow>
    credential_error + 'm CredentialStore" where
  "SetCredentialAdminSuspension at dbnow users publicID suspended adminUserID suspendedAt st =
     (if adminUserID \<le> 0 \<or> trim_space publicID = [] then Inl Invalid
      else let when = (if is_zero_time suspendedAt then at else suspendedAt)
           in if suspended \<and> select_row (\<lambda>r. cd_PublicID r = trim_space publicID) st \<noteq> None \<and> \<not> known_user (Some adminUserID) users
              then Inl WriteFailed
              else exec_update (\<lambda>r. cd_PublicID r = trim_space publicID)
                (\<lambda>r. if suspended then r\<lparr>cd_AdminSuspendedAt := Some when, cd_AdminSuspendedBy := Some adminUserID, cd_UpdatedAt := dbnow\<rparr>
                     else r\<lparr>cd_AdminSuspendedAt := None, cd_AdminSuspendedBy := None, cd_UpdatedAt := dbnow\<rparr>) st)"

definition deletePluginCredential :: "('m PluginCredential \<Rightarrow> bool) \<Rightarrow> 'm CredentialStore \<Rightarrow> credential_error + 'm CredentialStore" where
  "deletePluginCredential p st =
     (if select_row p st = None then Inl NotFound else Inr (st\<lparr>cb_rows := filter (\<lambda>r. \<not> p r) (cb_rows st)\<rparr>))"

definition DeleteUserPluginCredential :: "string \<Rightarrow> int \<Rightarrow> 'm CredentialStore \<Rightarrow> credential_error + 'm CredentialStore" where
  "DeleteUserPluginCredential publicID ownerUserID =
     deletePluginCredential (\<lambda>r. cd_PublicID r = publicID \<and> cd_OwnerUserID r = Some ownerUserID \<and> cd_Scope r = ''user_private'')"

definition DeleteAdminPluginCredential :: "string \<Rightarrow> 'm CredentialStore \<Rightarrow> credential_error + 'm CredentialStore" where
  "DeleteAdminPluginCredential publicID = deletePluginCredential (\<lambda>r. cd_PublicID r = publicID \<and> admin_scope (cd_Scope r))"

definition DeletePluginCredentialByAdmin :: "string \<Rightarrow> 'm CredentialStore \<Rightarrow> credential_error + 'm CredentialStore" where
  "DeletePluginCredentialByAdmin publicID = deletePluginCredential (\<lambda>r. cd_PublicID r = publicID)"

text \<open>The accounts of a user that \<open>SoftDeleteUser\<close> deletes (\<^verbatim>\<open>users.go\<close>).\<close>

definition delete_private_credentials :: "int \<Rightarrow> 'm CredentialStore \<Rightarrow> 'm CredentialStore" where
  "delete_private_credentials ownerUserID st =
     st\<lparr>cb_rows := filter (\<lambda>r. \<not> (cd_OwnerUserID r = Some ownerUserID \<and> cd_Scope r = ''user_private'')) (cb_rows st)\<rparr>"

section \<open>Model: what searches and checks report\<close>

definition earlier :: "time option \<Rightarrow> time \<Rightarrow> bool" where
  "earlier last_time at \<longleftrightarrow> (case last_time of None \<Rightarrow> True | Some t \<Rightarrow> t < at)"

definition latest :: "time option \<Rightarrow> time \<Rightarrow> time" where
  "latest last_time at = (case last_time of None \<Rightarrow> at | Some t \<Rightarrow> max t at)"

text \<open>A report that is not newer than the last ones is ignored; an unknown identifier is an error. The update
  and the test for existence may use different spellings of the identifier.\<close>

definition exec_report :: "string \<Rightarrow> string \<Rightarrow> ('m PluginCredential \<Rightarrow> bool) \<Rightarrow> ('m PluginCredential \<Rightarrow> 'm PluginCredential) \<Rightarrow>
    'm CredentialStore \<Rightarrow> credential_error + 'm CredentialStore" where
  "exec_report publicID asGiven newer f st =
     (let hit = (\<lambda>r. cd_PublicID r = publicID \<and> newer r)
      in if select_row hit st \<noteq> None then Inr (update_rows hit f st)
         else if select_row (\<lambda>r. cd_PublicID r = asGiven) st = None then Inl NotFound
         else Inr st)"

definition newer_result :: "time \<Rightarrow> 'm PluginCredential \<Rightarrow> bool" where
  "newer_result at r \<longleftrightarrow> earlier (cd_LastSuccessAt r) at \<and> earlier (cd_LastFailureAt r) at"

definition note_success :: "time \<Rightarrow> time \<Rightarrow> 'm PluginCredential \<Rightarrow> 'm PluginCredential" where
  "note_success dbnow at r =
     r\<lparr>cd_LastUsedAt := Some (latest (cd_LastUsedAt r) at), cd_LastSuccessAt := Some (latest (cd_LastSuccessAt r) at),
       cd_LastErrorCode := [], cd_ConsecutiveFailures := 0, cd_CooldownUntil := None, cd_UpdatedAt := dbnow\<rparr>"

definition RecordPluginCredentialSuccess :: "time \<Rightarrow> time \<Rightarrow> string \<Rightarrow> time \<Rightarrow> 'm CredentialStore \<Rightarrow>
    credential_error + 'm CredentialStore" where
  "RecordPluginCredentialSuccess at dbnow publicID succeededAt st =
     (let at = (if is_zero_time succeededAt then at else succeededAt)
      in exec_report publicID publicID (newer_result at) (note_success dbnow at) st)"

definition note_failure :: "time \<Rightarrow> time \<Rightarrow> string \<Rightarrow> string \<Rightarrow> time option \<Rightarrow> 'm PluginCredential \<Rightarrow> 'm PluginCredential" where
  "note_failure dbnow at errorCode status cooldown r =
     r\<lparr>cd_LastUsedAt := Some (latest (cd_LastUsedAt r) at), cd_LastFailureAt := Some at, cd_LastErrorCode := trim_space errorCode,
       cd_ConsecutiveFailures := cd_ConsecutiveFailures r + 1, cd_Status := (if status = [] then ''active'' else status),
       cd_CooldownUntil := cooldown, cd_UpdatedAt := dbnow\<rparr>"

definition RecordPluginCredentialFailure :: "time \<Rightarrow> time \<Rightarrow> string \<Rightarrow> string \<Rightarrow> string \<Rightarrow> time \<Rightarrow> time option \<Rightarrow> 'm CredentialStore \<Rightarrow>
    credential_error + 'm CredentialStore" where
  "RecordPluginCredentialFailure at dbnow publicID status errorCode failedAt cooldown st =
     (if status \<noteq> [] \<and> \<not> validCredentialStatus status then Inl Invalid
      else let at = (if is_zero_time failedAt then at else failedAt)
           in exec_report publicID publicID (newer_result at) (note_failure dbnow at errorCode status cooldown) st)"

definition note_health :: "time \<Rightarrow> time \<Rightarrow> string \<Rightarrow> string \<Rightarrow> string \<Rightarrow> 'm PluginCredential \<Rightarrow> 'm PluginCredential" where
  "note_health dbnow at healthStatus errorCode status r =
     r\<lparr>cd_LastHealthCheckAt := Some at, cd_LastHealthStatus := healthStatus, cd_LastHealthErrorCode := trim_space errorCode,
       cd_Status := (if status = [] then cd_Status r else status),
       cd_LastErrorCode := (if status = ''invalid'' then trim_space errorCode else if status = ''active'' then [] else cd_LastErrorCode r),
       cd_UpdatedAt := dbnow\<rparr>"

definition RecordPluginCredentialHealth :: "time \<Rightarrow> time \<Rightarrow> string \<Rightarrow> string \<Rightarrow> string \<Rightarrow> string \<Rightarrow> time \<Rightarrow> 'm CredentialStore \<Rightarrow>
    credential_error + 'm CredentialStore" where
  "RecordPluginCredentialHealth at dbnow publicID healthStatus credentialStatus errorCode checkedAt st =
     (let status = trim_space credentialStatus; at = (if is_zero_time checkedAt then at else checkedAt)
      in if \<not> validCredentialHealthStatus healthStatus then Inl Invalid
         else if status \<noteq> [] \<and> \<not> validCredentialStatus status then Inl Invalid
         else exec_report (trim_space publicID) publicID (\<lambda>r. earlier (cd_LastHealthCheckAt r) at)
                (note_health dbnow at healthStatus errorCode status) st)"

section \<open>Model: reading\<close>

text \<open>\<open>ORDER BY ... NULLS LAST\<close> and \<open>NULLS FIRST\<close>: keys for the order of the candidates, compared in this order.\<close>

definition candidate_key :: "'m PluginCredential \<Rightarrow> (int \<times> int) \<times> int \<times> (int \<times> int) \<times> int" where
  "candidate_key r =
     ((case cd_LastSuccessAt r of None \<Rightarrow> (1, 0) | Some t \<Rightarrow> (0, - t)), cd_ConsecutiveFailures r,
      (case cd_LastUsedAt r of None \<Rightarrow> (0, 0) | Some t \<Rightarrow> (1, t)), cd_ID r)"

fun key_less :: "(int \<times> int) \<times> int \<times> (int \<times> int) \<times> int \<Rightarrow> (int \<times> int) \<times> int \<times> (int \<times> int) \<times> int \<Rightarrow> bool" where
  "key_less ((a1, a2), b, (c1, c2), d) ((a1', a2'), b', (c1', c2'), d') \<longleftrightarrow>
     a1 < a1' \<or> a1 = a1' \<and> (a2 < a2' \<or> a2 = a2' \<and> (b < b' \<or> b = b' \<and> (c1 < c1' \<or> c1 = c1' \<and> (c2 < c2' \<or> c2 = c2' \<and> d < d'))))"

fun insert_row :: "('m PluginCredential \<Rightarrow> 'm PluginCredential \<Rightarrow> bool) \<Rightarrow> 'm PluginCredential \<Rightarrow> 'm PluginCredential list \<Rightarrow>
    'm PluginCredential list" where
  "insert_row before r [] = [r]"
| "insert_row before r (q # qs) = (if before q r then q # insert_row before r qs else r # q # qs)"

definition order_rows :: "('m PluginCredential \<Rightarrow> 'm PluginCredential \<Rightarrow> bool) \<Rightarrow> 'm PluginCredential list \<Rightarrow> 'm PluginCredential list" where
  "order_rows before rows = foldr (insert_row before) rows []"

definition listUsableCredentialLayer :: "time \<Rightarrow> AccountStore \<Rightarrow> int \<Rightarrow> string \<Rightarrow> string \<Rightarrow> time \<Rightarrow> int \<Rightarrow> 'm CredentialStore \<Rightarrow>
    credential_error + 'm PluginCredential list" where
  "listUsableCredentialLayer clock users ownerUserID pluginKey scope at limit st =
     (let at = (if is_zero_time at then clock else at);
          limit = (if limit \<le> 0 \<or> limit > 1000 then 100 else limit);
          owned = (\<lambda>r. if scope = ''user_private''
                       then cd_OwnerUserID r = Some ownerUserID
                            \<and> (case map_of (db_users users) ownerUserID of None \<Rightarrow> False | Some u \<Rightarrow> owner_active at u)
                       else cd_OwnerUserID r = None);
          rows = filter (\<lambda>r. cd_PluginKey r = trim_space pluginKey \<and> cd_Scope r = scope \<and> owned r
                    \<and> cd_OwnerEnabled r \<and> cd_AdminSuspendedAt r = None \<and> cd_Status r = ''active''
                    \<and> (case cd_ExpiresAt r of None \<Rightarrow> True | Some t \<Rightarrow> t > at)
                    \<and> (case cd_CooldownUntil r of None \<Rightarrow> True | Some t \<Rightarrow> t \<le> at)) (cb_rows st)
      in if trim_space pluginKey = [] \<or> \<not> validCredentialScope scope then Inl Invalid
         else if scope = ''user_private'' \<and> ownerUserID \<le> 0 then Inl Invalid
         else Inr (take (nat limit) (order_rows (\<lambda>a b. key_less (candidate_key a) (candidate_key b)) rows)))"

definition remainingCredentialLimit :: "int \<Rightarrow> int \<Rightarrow> int" where
  "remainingCredentialLimit limit used =
     (let limit = (if limit \<le> 0 \<or> limit > 1000 then 100 else limit) in if used \<ge> limit then 0 else limit - used)"

text \<open>The private rows first, then the shared ones as far as the limit allows.\<close>

definition with_shared :: "time \<Rightarrow> AccountStore \<Rightarrow> string \<Rightarrow> time \<Rightarrow> int \<Rightarrow> 'm CredentialStore \<Rightarrow>
    credential_error + 'm PluginCredential list \<Rightarrow> credential_error + 'm PluginCredential list" where
  "with_shared clock users pluginKey at limit st private =
     (case private of
        Inl e \<Rightarrow> Inl e
      | Inr rows \<Rightarrow>
          let remaining = remainingCredentialLimit limit (int (length rows))
          in if remaining = 0 then Inr rows
             else (case listUsableCredentialLayer clock users 0 pluginKey ''public_shared'' at remaining st of
                     Inl e \<Rightarrow> Inl e
                   | Inr shared \<Rightarrow> Inr (rows @ shared)))"

definition ListUsableUserPrivateCredentialCandidates :: "time \<Rightarrow> AccountStore \<Rightarrow> int \<Rightarrow> string \<Rightarrow> time \<Rightarrow> int \<Rightarrow> 'm CredentialStore \<Rightarrow>
    credential_error + 'm PluginCredential list" where
  "ListUsableUserPrivateCredentialCandidates clock users ownerUserID pluginKey at limit st =
     listUsableCredentialLayer clock users ownerUserID pluginKey ''user_private'' at limit st"

definition ListUsableAdminPrivateCredentialCandidates :: "time \<Rightarrow> AccountStore \<Rightarrow> string \<Rightarrow> time \<Rightarrow> int \<Rightarrow> 'm CredentialStore \<Rightarrow>
    credential_error + 'm PluginCredential list" where
  "ListUsableAdminPrivateCredentialCandidates clock users pluginKey at limit st =
     listUsableCredentialLayer clock users 0 pluginKey ''admin_private'' at limit st"

definition ListUsableSharedCredentialCandidates :: "time \<Rightarrow> AccountStore \<Rightarrow> string \<Rightarrow> time \<Rightarrow> int \<Rightarrow> 'm CredentialStore \<Rightarrow>
    credential_error + 'm PluginCredential list" where
  "ListUsableSharedCredentialCandidates clock users pluginKey at limit st =
     listUsableCredentialLayer clock users 0 pluginKey ''public_shared'' at limit st"

definition ListUsableUserCredentialCandidates :: "time \<Rightarrow> AccountStore \<Rightarrow> int \<Rightarrow> string \<Rightarrow> time \<Rightarrow> int \<Rightarrow> 'm CredentialStore \<Rightarrow>
    credential_error + 'm PluginCredential list" where
  "ListUsableUserCredentialCandidates clock users ownerUserID pluginKey at limit st =
     with_shared clock users pluginKey at limit st
       (listUsableCredentialLayer clock users ownerUserID pluginKey ''user_private'' at limit st)"

definition ListUsableAdminCredentialCandidates :: "time \<Rightarrow> AccountStore \<Rightarrow> string \<Rightarrow> time \<Rightarrow> int \<Rightarrow> 'm CredentialStore \<Rightarrow>
    credential_error + 'm PluginCredential list" where
  "ListUsableAdminCredentialCandidates clock users pluginKey at limit st =
     with_shared clock users pluginKey at limit st
       (listUsableCredentialLayer clock users 0 pluginKey ''admin_private'' at limit st)"

definition normalizeStringList :: "string list \<Rightarrow> string list" where
  "normalizeStringList values_list = sort (uniq_acc [] (filter (\<lambda>v. v \<noteq> []) (map trim_space values_list)))"

definition ListPluginCredentialHealthCandidates :: "string list \<Rightarrow> time \<Rightarrow> int \<Rightarrow> 'm CredentialStore \<Rightarrow> 'm PluginCredential list" where
  "ListPluginCredentialHealthCandidates pluginKeys dueBefore limit st =
     (let keys = normalizeStringList pluginKeys; limit = (if limit \<le> 0 \<or> limit > 200 then 50 else limit);
          checked = (\<lambda>r. case cd_LastHealthCheckAt r of None \<Rightarrow> (0, 0) | Some t \<Rightarrow> (1, t));
          due = filter (\<lambda>r. cd_PluginKey r \<in> set keys \<and> cd_OwnerEnabled r \<and> cd_AdminSuspendedAt r = None
                   \<and> (cd_Status r = ''active'' \<or> cd_Status r = ''expired'')
                   \<and> (case cd_LastHealthCheckAt r of None \<Rightarrow> True | Some t \<Rightarrow> t \<le> dueBefore)) (cb_rows st)
      in if keys = [] then []
         else take (nat limit) (order_rows (\<lambda>a b. key_less (checked a, 0, (0, 0), cd_ID a) (checked b, 0, (0, 0), cd_ID b)) due))"

definition normalizePage :: "int \<Rightarrow> int \<Rightarrow> int \<Rightarrow> int \<Rightarrow> int \<times> int" where
  "normalizePage page pageSize defaultSize maxSize =
     (let page = (if page < 1 then 1 else page); pageSize = (if pageSize < 1 then defaultSize else pageSize)
      in (page, if pageSize > maxSize then maxSize else pageSize))"

definition buildPluginCredentialWhere :: "PluginCredentialFilter \<Rightarrow> credential_error + ('m PluginCredential \<Rightarrow> bool)" where
  "buildPluginCredentialWhere f =
     (let keys = normalizeStringList (fl_PluginKeys f); scopes = normalizeStringList (fl_Scopes f);
          statuses = normalizeStringList (fl_Statuses f)
      in if \<not> list_all validCredentialScope scopes then Inl Invalid
         else if \<not> list_all validCredentialStatus statuses then Inl Invalid
         else Inr (\<lambda>r. (case fl_OwnerUserID f of None \<Rightarrow> True | Some i \<Rightarrow> cd_OwnerUserID r = Some i)
                    \<and> (keys = [] \<or> cd_PluginKey r \<in> set keys) \<and> (scopes = [] \<or> cd_Scope r \<in> set scopes)
                    \<and> (statuses = [] \<or> cd_Status r \<in> set statuses)
                    \<and> (case fl_OwnerEnabled f of None \<Rightarrow> True | Some b \<Rightarrow> cd_OwnerEnabled r = b)
                    \<and> (case fl_Suspended f of None \<Rightarrow> True | Some b \<Rightarrow> (cd_AdminSuspendedAt r \<noteq> None) = b)))"

definition clearCredentialSecrets :: "'m PluginCredential \<Rightarrow> 'm PluginCredential" where
  "clearCredentialSecrets r =
     r\<lparr>cd_BindingFingerprint := [], cd_Ciphertext := [], cd_Nonce := [], cd_CredentialFingerprint := []\<rparr>"

definition ListPluginCredentials :: "PluginCredentialFilter \<Rightarrow> 'm CredentialStore \<Rightarrow> credential_error + 'm PluginCredentialPage" where
  "ListPluginCredentials f st =
     (let (page, pageSize) = normalizePage (fl_Page f) (fl_PageSize f) 50 200
      in case buildPluginCredentialWhere f of
           Inl e \<Rightarrow> Inl e
         | Inr matches \<Rightarrow>
             let rows = filter matches (cb_rows st);
                 ordered = order_rows (\<lambda>a b. key_less ((- cd_CreatedAt a, - cd_ID a), 0, (0, 0), 0) ((- cd_CreatedAt b, - cd_ID b), 0, (0, 0), 0)) rows;
                 items = take (nat pageSize) (drop (nat ((page - 1) * pageSize)) ordered)
             in Inr \<lparr>pg_Items = (if fl_IncludeSecrets f then items else map clearCredentialSecrets items),
                     pg_Total = length rows, pg_Page = page, pg_PageSize = pageSize\<rparr>)"

definition ListUserPluginCredentials :: "int \<Rightarrow> PluginCredentialFilter \<Rightarrow> 'm CredentialStore \<Rightarrow> credential_error + 'm PluginCredentialPage" where
  "ListUserPluginCredentials ownerUserID f st =
     (if ownerUserID \<le> 0 then Inl Invalid
      else ListPluginCredentials (f\<lparr>fl_OwnerUserID := Some ownerUserID, fl_Scopes := [''user_private''], fl_IncludeSecrets := False\<rparr>) st)"

definition ListAdminPluginCredentials :: "PluginCredentialFilter \<Rightarrow> 'm CredentialStore \<Rightarrow> credential_error + 'm PluginCredentialPage" where
  "ListAdminPluginCredentials f st = ListPluginCredentials (f\<lparr>fl_IncludeSecrets := False\<rparr>) st"

definition CountPluginCredentials :: "'m CredentialStore \<Rightarrow> nat" where
  "CountPluginCredentials st = length (cb_rows st)"

section \<open>Model: importing\<close>

fun insert_all :: "time \<Rightarrow> AccountStore \<Rightarrow> 'm CreatePluginCredentialInput list \<Rightarrow> 'm CredentialStore \<Rightarrow>
    credential_error + 'm CredentialStore" where
  "insert_all at users [] st = Inr st"
| "insert_all at users (input # inputs) st =
     (case insertPluginCredentialTx at users input st of Inl e \<Rightarrow> Inl e | Inr (_, st) \<Rightarrow> insert_all at users inputs st)"

text \<open>\<open>GetDataMigration\<close>, and the import, which a key applies once; the answer tells when the migration was completed
  and whether this call did it. An error rolls everything back.\<close>

definition GetDataMigration :: "string \<Rightarrow> 'm CredentialStore \<Rightarrow> credential_error + time" where
  "GetDataMigration migrationKey st =
     (case map_of (cb_migrations st) (trim_space migrationKey) of None \<Rightarrow> Inl NotFound | Some t \<Rightarrow> Inr t)"

definition ImportPluginCredentialsAndCompleteMigration :: "time \<Rightarrow> AccountStore \<Rightarrow> string \<Rightarrow> time \<Rightarrow>
    'm CreatePluginCredentialInput list \<Rightarrow> 'm CredentialStore \<Rightarrow> credential_error + (time \<times> bool \<times> nat) \<times> 'm CredentialStore" where
  "ImportPluginCredentialsAndCompleteMigration at users migrationKey completedAt inputs st =
     (let key = trim_space migrationKey; completedAt = (if is_zero_time completedAt then at else completedAt)
      in if key = [] then Inl Invalid
         else case map_of (cb_migrations st) key of
                Some t \<Rightarrow> Inr ((t, False, 0), st)
              | None \<Rightarrow>
                  (case insert_all at users inputs (st\<lparr>cb_migrations := cb_migrations st @ [(key, completedAt)]\<rparr>) of
                     Inl e \<Rightarrow> Inl e
                   | Inr st \<Rightarrow> Inr ((completedAt, True, length inputs), st)))"

end
