(* ===== verification/Credential_Laws.thy ===== *)
theory Credential_Laws
  imports Credential_Store
begin

text \<open>
  What holds of the table of plug-in accounts over any sequence of its operations: the constraints of the schema,
  that an account keeps its plug-in and its owner and never becomes someone else's, that its secret changes only
  together with its revision, and that reports of searches count by their times, not by their order of arrival.
\<close>

section \<open>Steps\<close>

inductive credential_step :: "'m CredentialStore \<Rightarrow> 'm CredentialStore \<Rightarrow> bool" where
  create: "CreatePluginCredential at users input st = Inr (c, st') \<Longrightarrow> credential_step st st'"
| replace_admin: "ReplacePluginCredentialEnvelopeCAS at new st = Inr (c, st') \<Longrightarrow> credential_step st st'"
| replace_user: "ReplaceUserPluginCredentialEnvelopeCAS at owner new st = Inr (c, st') \<Longrightarrow> credential_step st st'"
| enable_admin: "SetAdminCredentialEnabled dbnow publicID b st = Inr st' \<Longrightarrow> credential_step st st'"
| enable_owner: "SetCredentialOwnerEnabled dbnow publicID owner b st = Inr st' \<Longrightarrow> credential_step st st'"
| suspend: "SetCredentialAdminSuspension at dbnow users publicID b admin since st = Inr st' \<Longrightarrow> credential_step st st'"
| delete_user: "DeleteUserPluginCredential publicID owner st = Inr st' \<Longrightarrow> credential_step st st'"
| delete_admin: "DeleteAdminPluginCredential publicID st = Inr st' \<Longrightarrow> credential_step st st'"
| delete_any: "DeletePluginCredentialByAdmin publicID st = Inr st' \<Longrightarrow> credential_step st st'"
| delete_owner: "st' = delete_private_credentials owner st \<Longrightarrow> credential_step st st'"
| success: "RecordPluginCredentialSuccess at dbnow publicID t st = Inr st' \<Longrightarrow> credential_step st st'"
| failure: "RecordPluginCredentialFailure at dbnow publicID status code t cooldown st = Inr st' \<Longrightarrow> credential_step st st'"
| health: "RecordPluginCredentialHealth at dbnow publicID h status code t st = Inr st' \<Longrightarrow> credential_step st st'"
| import_all: "ImportPluginCredentialsAndCompleteMigration at users key t inputs st = Inr (x, st') \<Longrightarrow> credential_step st st'"

definition no_credentials :: "'m CredentialStore \<Rightarrow> bool" where
  "no_credentials st \<longleftrightarrow> cb_rows st = [] \<and> cb_nextID st = 1"

section \<open>The constraints\<close>

definition row_ok :: "'m PluginCredential \<Rightarrow> bool" where
  "row_ok r \<longleftrightarrow>
     cd_PublicID r \<noteq> [] \<and> trim_space (cd_PublicID r) = cd_PublicID r \<and> cd_PluginKey r \<noteq> [] \<and> validCredentialScopeOwner (cd_Scope r) (cd_OwnerUserID r)
     \<and> valid_envelope (cd_SecretSchemaVersion r) (cd_KeyVersion r) (cd_BindingFingerprint r) (cd_CredentialFingerprint r)
         (cd_Nonce r) (cd_Ciphertext r)
     \<and> validCredentialStatus (cd_Status r) \<and> validCredentialHealthStatus (cd_LastHealthStatus r)
     \<and> 0 < cd_Revision r \<and> 0 \<le> cd_ConsecutiveFailures r \<and> (cd_AdminSuspendedBy r \<noteq> None \<longrightarrow> cd_AdminSuspendedAt r \<noteq> None)"

definition unique_ok :: "'m PluginCredential list \<Rightarrow> bool" where
  "unique_ok rows \<longleftrightarrow> (\<forall>a\<in>set rows. \<forall>b\<in>set rows. cd_ID a \<noteq> cd_ID b \<longrightarrow> cd_PublicID a \<noteq> cd_PublicID b \<and> \<not> same_fingerprint a b)"

definition store_ok :: "'m CredentialStore \<Rightarrow> bool" where
  "store_ok st \<longleftrightarrow>
     list_all row_ok (cb_rows st) \<and> distinct (map cd_ID (cb_rows st)) \<and> list_all (\<lambda>r. cd_ID r < cb_nextID st) (cb_rows st)
     \<and> unique_ok (cb_rows st)"

text \<open>What an operation may do to a row: \<open>same_holder\<close> is kept, and the secret, with the scope and the metadata that
  it is bound to, changes with the revision only.\<close>

definition same_holder :: "'m PluginCredential \<Rightarrow> 'm PluginCredential \<Rightarrow> bool" where
  "same_holder r r' \<longleftrightarrow>
     cd_PublicID r' = cd_PublicID r \<and> cd_PluginKey r' = cd_PluginKey r \<and> cd_OwnerUserID r' = cd_OwnerUserID r
     \<and> (cd_Scope r' = ''user_private'' \<longleftrightarrow> cd_Scope r = ''user_private'')"

definition secret :: "'m PluginCredential \<Rightarrow> string \<times> int \<times> 'm metadata \<times> string \<times> string \<times> string" where
  "secret r = (cd_Scope r, cd_SecretSchemaVersion r, cd_PublicMetadata r, cd_Ciphertext r, cd_Nonce r, cd_BindingFingerprint r)"

definition row_change :: "'m PluginCredential \<Rightarrow> 'm PluginCredential \<Rightarrow> bool" where
  "row_change r r' \<longleftrightarrow>
     same_holder r r' \<and> cd_Revision r \<le> cd_Revision r' \<and> (cd_Revision r' = cd_Revision r \<longrightarrow> secret r' = secret r)"

definition store_change :: "'m CredentialStore \<Rightarrow> 'm CredentialStore \<Rightarrow> bool" where
  "store_change st st' \<longleftrightarrow>
     cb_nextID st \<le> cb_nextID st'
     \<and> (\<forall>r'\<in>set (cb_rows st'). cb_nextID st \<le> cd_ID r' \<or> (\<exists>r\<in>set (cb_rows st). cd_ID r = cd_ID r' \<and> row_change r r'))"

lemma row_change_refl: "row_change r r"
  by (simp add: row_change_def same_holder_def)

lemma row_change_trans: "row_change a b \<Longrightarrow> row_change b c \<Longrightarrow> row_change a c"
  by (auto simp: row_change_def same_holder_def)

lemma store_change_refl: "store_change st st"
  by (auto simp: store_change_def row_change_refl)

lemma store_change_trans:
  assumes "store_change a b" and "store_change b c"
  shows "store_change a c"
  unfolding store_change_def
proof (intro conjI ballI)
  show "cb_nextID a \<le> cb_nextID c" using assms by (auto simp: store_change_def)
next
  fix r'' assume "r'' \<in> set (cb_rows c)"
  with assms(2) consider "cb_nextID b \<le> cd_ID r''"
    | r' where "r' \<in> set (cb_rows b)" "cd_ID r' = cd_ID r''" "row_change r' r''" by (auto simp: store_change_def)
  then show "cb_nextID a \<le> cd_ID r'' \<or> (\<exists>r\<in>set (cb_rows a). cd_ID r = cd_ID r'' \<and> row_change r r'')"
  proof cases
    case 1
    then show ?thesis using assms(1) by (auto simp: store_change_def)
  next
    case 2
    with assms(1) show ?thesis unfolding store_change_def by (metis row_change_trans)
  qed
qed

section \<open>One lemma per kind of statement\<close>

text \<open>An update that keeps the columns of the unique indexes.\<close>

definition index_columns :: "'m PluginCredential \<Rightarrow> int \<times> string \<times> string \<times> string \<times> int option \<times> string" where
  "index_columns r = (cd_ID r, cd_PublicID r, cd_PluginKey r, cd_Scope r, cd_OwnerUserID r, cd_CredentialFingerprint r)"

lemma same_fingerprint_columns:
  "index_columns a' = index_columns a \<Longrightarrow> index_columns b' = index_columns b \<Longrightarrow> same_fingerprint a' b' = same_fingerprint a b"
  by (simp add: same_fingerprint_def index_columns_def)

lemma store_okD:
  assumes "store_ok st"
  shows "distinct (map cd_ID (cb_rows st))" and "r \<in> set (cb_rows st) \<Longrightarrow> row_ok r"
    and "r \<in> set (cb_rows st) \<Longrightarrow> cd_ID r < cb_nextID st"
    and "r \<in> set (cb_rows st) \<Longrightarrow> q \<in> set (cb_rows st) \<Longrightarrow> cd_ID r \<noteq> cd_ID q \<Longrightarrow>
      cd_PublicID r \<noteq> cd_PublicID q \<and> \<not> same_fingerprint r q"
    and "r \<in> set (cb_rows st) \<Longrightarrow> q \<in> set (cb_rows st) \<Longrightarrow> cd_ID r = cd_ID q \<Longrightarrow> r = q"
  using assms by (simp_all add: store_ok_def list_all_iff unique_ok_def distinct_map inj_on_def)

lemma map_rows_ok:
  assumes "store_ok st" and id: "\<forall>r\<in>set (cb_rows st). cd_ID (g r) = cd_ID r" and "\<forall>r\<in>set (cb_rows st). row_ok (g r)"
    and uniq: "\<forall>a\<in>set (cb_rows st). \<forall>b\<in>set (cb_rows st). cd_ID a \<noteq> cd_ID b \<longrightarrow>
      cd_PublicID (g a) \<noteq> cd_PublicID (g b) \<and> \<not> same_fingerprint (g a) (g b)"
    and "\<forall>r\<in>set (cb_rows st). row_change r (g r)"
  shows "store_ok (st\<lparr>cb_rows := map g (cb_rows st)\<rparr>) \<and> store_change st (st\<lparr>cb_rows := map g (cb_rows st)\<rparr>)"
proof
  have "map cd_ID (map g (cb_rows st)) = map cd_ID (cb_rows st)" using id by simp
  then have "distinct (map cd_ID (map g (cb_rows st)))" using store_okD(1) [OF assms(1)] by (simp only:)
  moreover have "unique_ok (map g (cb_rows st))" using uniq id by (simp add: unique_ok_def)
  ultimately show "store_ok (st\<lparr>cb_rows := map g (cb_rows st)\<rparr>)"
    using assms(1,3) id by (simp add: store_ok_def list_all_iff)
  show "store_change st (st\<lparr>cb_rows := map g (cb_rows st)\<rparr>)"
    using assms(5) id unfolding store_change_def by fastforce
qed

lemma update_rows_ok:
  assumes "store_ok st" and "\<And>r. p r \<Longrightarrow> row_ok r \<Longrightarrow> row_ok (f r)" and "\<And>r. p r \<Longrightarrow> index_columns (f r) = index_columns r"
    and "\<And>r. p r \<Longrightarrow> row_change r (f r)"
  shows "store_ok (update_rows p f st) \<and> store_change st (update_rows p f st)"
proof -
  let ?g = "\<lambda>r. if p r then f r else r"
  have cols: "index_columns (?g r) = index_columns r" for r using assms(3) by simp
  then have id: "cd_ID (?g r) = cd_ID r" "cd_PublicID (?g r) = cd_PublicID r" for r by (simp_all add: index_columns_def)
  show ?thesis unfolding update_rows_def
  proof (rule map_rows_ok [OF assms(1)])
    show "\<forall>r\<in>set (cb_rows st). cd_ID (?g r) = cd_ID r" by (simp only: id) simp
    show "\<forall>r\<in>set (cb_rows st). row_ok (?g r)" using assms(1,2) by (auto simp: store_ok_def list_all_iff)
    show "\<forall>a\<in>set (cb_rows st). \<forall>b\<in>set (cb_rows st). cd_ID a \<noteq> cd_ID b \<longrightarrow>
        cd_PublicID (?g a) \<noteq> cd_PublicID (?g b) \<and> \<not> same_fingerprint (?g a) (?g b)"
      unfolding id same_fingerprint_columns [OF cols cols] using store_okD(4) [OF assms(1)] by blast
    show "\<forall>r\<in>set (cb_rows st). row_change r (?g r)" using assms(4) by (simp add: row_change_refl)
  qed
qed

lemma filter_rows_ok:
  assumes "store_ok st"
  shows "store_ok (st\<lparr>cb_rows := filter p (cb_rows st)\<rparr>) \<and> store_change st (st\<lparr>cb_rows := filter p (cb_rows st)\<rparr>)"
proof
  show "store_ok (st\<lparr>cb_rows := filter p (cb_rows st)\<rparr>)"
    using assms by (auto simp: store_ok_def unique_ok_def list_all_iff distinct_map_filter)
  show "store_change st (st\<lparr>cb_rows := filter p (cb_rows st)\<rparr>)"
    using row_change_refl by (fastforce simp: store_change_def)
qed

lemma new_row_ok:
  assumes "validatePluginCredentialInput input"
  shows "row_ok (new_row t i input)"
  using assms
  by (auto simp: row_ok_def new_row_def validatePluginCredentialInput_def validCredentialStatus_def validCredentialHealthStatus_def)

lemma insert_row_ok:
  assumes "store_ok st" and run: "insertPluginCredentialTx at users input st = Inr (c, st')"
  shows "store_ok st' \<and> store_change st st'"
proof -
  obtain t where row: "c = new_row t (cb_nextID st) input" "validatePluginCredentialInput input"
    "st' = st\<lparr>cb_rows := cb_rows st @ [c], cb_nextID := cb_nextID st + 1\<rparr>" "\<not> violates_unique c (cb_rows st)"
    using run unfolding insertPluginCredentialTx_def Let_def by (simp split: if_split_asm) blast+
  have c: "st' = st\<lparr>cb_rows := cb_rows st @ [c], cb_nextID := cb_nextID st + 1\<rparr>" "cd_ID c = cb_nextID st" "row_ok c"
    "\<not> violates_unique c (cb_rows st)"
    by (fact row(3), simp add: row(1) new_row_def, simp only: row(1) new_row_ok [OF row(2)], fact row(4))
  have uniq: "cd_PublicID r \<noteq> cd_PublicID c \<and> \<not> same_fingerprint r c" if "r \<in> set (cb_rows st)" for r
  proof -
    have "cd_ID r \<noteq> cd_ID c" using c(2) store_okD(3) [OF assms(1) that] by simp
    then show ?thesis using that c(4) unfolding violates_unique_def list_ex_iff by blast
  qed
  have "same_fingerprint c r = same_fingerprint r c" for r by (auto simp: same_fingerprint_def)
  with uniq have "\<forall>r\<in>set (cb_rows st). cd_PublicID c \<noteq> cd_PublicID r \<and> \<not> same_fingerprint c r" by metis
  moreover have "\<forall>r\<in>set (cb_rows st). cd_PublicID r \<noteq> cd_PublicID c \<and> \<not> same_fingerprint r c" using uniq by blast
  ultimately have "unique_ok (cb_rows st @ [c])"
    using store_okD(4) [OF assms(1)] unfolding unique_ok_def set_append by auto
  moreover have "distinct (map cd_ID (cb_rows st @ [c]))" using store_okD(1) [OF assms(1)] store_okD(3) [OF assms(1)] c(2)
    by auto (metis less_irrefl)
  moreover have "list_all (\<lambda>r. cd_ID r < cb_nextID st + 1) (cb_rows st @ [c])"
    using store_okD(3) [OF assms(1)] c(2) by (simp add: list_all_iff) (meson less_imp_le)
  ultimately have "store_ok st'" using assms(1) c(3) by (simp add: store_ok_def c(1))
  moreover have "store_change st st'"
    unfolding store_change_def c(1) using c(2) by (auto intro: row_change_refl bexI)
  ultimately show ?thesis by blast
qed

lemma insert_all_ok:
  assumes "store_ok st" and "insert_all at users inputs st = Inr st'"
  shows "store_ok st' \<and> store_change st st'"
  using assms
proof (induction inputs arbitrary: st)
  case Nil
  then show ?case using store_change_refl by simp
next
  case (Cons input inputs)
  then obtain c st1 where st1: "insertPluginCredentialTx at users input st = Inr (c, st1)" "insert_all at users inputs st1 = Inr st'"
    by (auto split: sum.splits)
  from insert_row_ok [OF Cons.prems(1) st1(1)] Cons.IH [OF _ st1(2)] show ?case using store_change_trans by blast
qed

lemma select_row_SomeD: "select_row p st = Some r \<Longrightarrow> p r \<and> r \<in> set (cb_rows st)"
  by (auto simp: select_row_def find_Some_iff)

lemma select_row_None: "select_row p st = None \<longleftrightarrow> (\<forall>r\<in>set (cb_rows st). \<not> p r)"
  by (auto simp: select_row_def find_None_iff)

lemma new_envelope_ok:
  assumes "row_ok r" and "valid_replacement input" and "validCredentialScopeOwner scope (cd_OwnerUserID r)"
  shows "row_ok (new_envelope t scope input r)"
  using assms by (simp add: row_ok_def new_envelope_def valid_replacement_def)

lemma replace_envelope_ok:
  assumes "store_ok st" and run: "replace_envelope at mine visible scope input st = Inr (c, st')"
    and "\<And>r. mine r \<Longrightarrow> row_ok r \<Longrightarrow> validCredentialScopeOwner (scope r) (cd_OwnerUserID r)" and "valid_replacement input"
    and "\<And>r. mine r \<Longrightarrow> row_ok r \<Longrightarrow> scope r = ''user_private'' \<longleftrightarrow> cd_Scope r = ''user_private''"
  shows "store_ok st' \<and> store_change st st'"
proof -
  obtain r t where r: "r \<in> set (cb_rows st)" "mine r" "c = new_envelope t (scope r) input r" "\<not> violates_unique c (cb_rows st)"
    "st' = update_rows (\<lambda>q. cd_ID q = cd_ID r) (\<lambda>_. c) st"
    using run by (auto simp: replace_envelope_def Let_def dest!: select_row_SomeD split: option.splits if_splits)
  have ok: "row_ok r" using assms(1) r(1) by (simp add: store_ok_def list_all_iff)
  have c1: "row_ok c" unfolding r(3) by (rule new_envelope_ok [OF ok assms(4) assms(3) [OF r(2) ok]])
  have c: "cd_ID c = cd_ID r" "row_change r c"
    using assms(5) [OF r(2) ok] by (auto simp: r(3) new_envelope_def row_change_def same_holder_def)
  have uniq: "cd_PublicID q \<noteq> cd_PublicID c \<and> \<not> same_fingerprint q c" if "q \<in> set (cb_rows st)" "cd_ID q \<noteq> cd_ID r" for q
    using that r(4) by (auto simp: violates_unique_def list_ex_iff c(1))
  let ?g = "\<lambda>q. if cd_ID q = cd_ID r then c else q"
  have apart: "cd_PublicID (?g a) \<noteq> cd_PublicID (?g b) \<and> \<not> same_fingerprint (?g a) (?g b)"
    if "a \<in> set (cb_rows st)" "b \<in> set (cb_rows st)" "cd_ID a \<noteq> cd_ID b" for a b
  proof -
    have "cd_PublicID a \<noteq> cd_PublicID b \<and> \<not> same_fingerprint a b"
      by (rule store_okD(4) [OF assms(1) that])
    moreover have "same_fingerprint c q = same_fingerprint q c" for q by (auto simp: same_fingerprint_def)
    ultimately show ?thesis using uniq [OF that(1)] uniq [OF that(2)] that(3) by force
  qed
  have "q = r" if "q \<in> set (cb_rows st)" "cd_ID q = cd_ID r" for q
    by (rule store_okD(5) [OF assms(1) that(1) r(1) that(2)])
  then have change: "\<forall>q\<in>set (cb_rows st). row_change q (?g q)" using c(2) row_change_refl by auto
  show ?thesis unfolding r(5) update_rows_def
    by (rule map_rows_ok [OF assms(1) _ _ _ change]) (use store_okD(2) [OF assms(1)] c(1) c1 apart in simp_all)
qed

lemma exec_update_ok:
  assumes "store_ok st" and "exec_update p f st = Inr st'" and "\<And>r. p r \<Longrightarrow> row_ok r \<Longrightarrow> row_ok (f r)"
    and "\<And>r. p r \<Longrightarrow> index_columns (f r) = index_columns r" and "\<And>r. p r \<Longrightarrow> row_change r (f r)"
  shows "store_ok st' \<and> store_change st st'"
  using update_rows_ok [OF assms(1), of p f] assms(2-5) by (auto simp: exec_update_def split: if_splits)

lemma exec_report_ok:
  assumes "store_ok st" and "exec_report publicID asGiven newer f st = Inr st'" and "\<And>r. row_ok r \<Longrightarrow> row_ok (f r)"
    and "\<And>r. index_columns (f r) = index_columns r" and "\<And>r. row_change r (f r)"
  shows "store_ok st' \<and> store_change st st'"
  using update_rows_ok [OF assms(1), of "\<lambda>r. cd_PublicID r = publicID \<and> newer r" f] assms(2-5) store_change_refl assms(1)
  by (auto simp: exec_report_def Let_def split: if_splits)

lemma delete_ok:
  assumes "store_ok st" and "deletePluginCredential p st = Inr st'"
  shows "store_ok st' \<and> store_change st st'"
  using filter_rows_ok [OF assms(1), of "\<lambda>r. \<not> p r"] assms(2) by (auto simp: deletePluginCredential_def split: if_splits)

lemmas note_defs = note_success_def note_failure_def note_health_def index_columns_def row_change_def same_holder_def secret_def row_ok_def

lemma credential_step_ok:
  assumes "store_ok st" and "credential_step st st'"
  shows "store_ok st' \<and> store_change st st'"
  using assms(2,1)
proof cases
  case (create at users input c)
  then show ?thesis using insert_row_ok [OF assms(1)] by (simp add: CreatePluginCredential_def)
next
  case (replace_admin at new c)
  then have run: "replace_envelope at (\<lambda>r. admin_scope (cd_Scope r) \<and> admin_scope (ri_Scope new)) (\<lambda>_. True) (\<lambda>_. ri_Scope new) new st = Inr (c, st')"
    and ok: "valid_replacement new" by (auto simp: ReplacePluginCredentialEnvelopeCAS_def split: if_splits)
  show ?thesis
    by (rule replace_envelope_ok [OF assms(1) run _ ok])
      (auto simp: row_ok_def validCredentialScopeOwner_def admin_scope_def split: if_splits)
next
  case (replace_user at owner new c)
  then have run: "replace_envelope at (\<lambda>r. cd_OwnerUserID r = Some owner \<and> cd_Scope r = ''user_private'')
             (\<lambda>r. cd_OwnerUserID r = Some owner \<and> cd_Scope r = ''user_private'') cd_Scope new st = Inr (c, st')"
    and ok: "valid_replacement new" by (auto simp: ReplaceUserPluginCredentialEnvelopeCAS_def split: if_splits)
  show ?thesis by (rule replace_envelope_ok [OF assms(1) run _ ok]) (auto simp: row_ok_def)
next
  case (enable_admin dbnow publicID b)
  then show ?thesis unfolding SetAdminCredentialEnabled_def by (rule exec_update_ok [OF assms(1)]) (auto simp: note_defs)
next
  case (enable_owner dbnow publicID owner b)
  then show ?thesis unfolding SetCredentialOwnerEnabled_def by (rule exec_update_ok [OF assms(1)]) (auto simp: note_defs)
next
  case (suspend at dbnow users publicID b admin since)
  then obtain t where run: "exec_update (\<lambda>r. cd_PublicID r = trim_space publicID)
                (\<lambda>r. if b then r\<lparr>cd_AdminSuspendedAt := Some t, cd_AdminSuspendedBy := Some admin, cd_UpdatedAt := dbnow\<rparr>
                     else r\<lparr>cd_AdminSuspendedAt := None, cd_AdminSuspendedBy := None, cd_UpdatedAt := dbnow\<rparr>) st = Inr st'"
    by (auto simp: SetCredentialAdminSuspension_def Let_def split: if_splits)
  show ?thesis by (rule exec_update_ok [OF assms(1) run]) (auto simp: note_defs)
next
  case (delete_user publicID owner)
  then show ?thesis unfolding DeleteUserPluginCredential_def by (rule delete_ok [OF assms(1)])
next
  case (delete_admin publicID)
  then show ?thesis unfolding DeleteAdminPluginCredential_def by (rule delete_ok [OF assms(1)])
next
  case (delete_any publicID)
  then show ?thesis unfolding DeletePluginCredentialByAdmin_def by (rule delete_ok [OF assms(1)])
next
  case (delete_owner owner)
  then show ?thesis using filter_rows_ok [OF assms(1)] by (simp add: delete_private_credentials_def)
next
  case (success at dbnow publicID t)
  then show ?thesis unfolding RecordPluginCredentialSuccess_def Let_def
    by (rule exec_report_ok [OF assms(1)]) (auto simp: note_defs)
next
  case (failure at dbnow publicID status code t cooldown)
  then have ok: "status = [] \<or> validCredentialStatus status"
    and run: "exec_report publicID publicID (newer_result (if is_zero_time t then at else t))
      (note_failure dbnow (if is_zero_time t then at else t) code status cooldown) st = Inr st'"
    by (auto simp: RecordPluginCredentialFailure_def Let_def split: if_splits)
  show ?thesis using ok by (intro exec_report_ok [OF assms(1) run]) (auto simp: note_defs validCredentialStatus_def)
next
  case (health at dbnow publicID h status code t)
  then have ok: "trim_space status = [] \<or> validCredentialStatus (trim_space status)" "validCredentialHealthStatus h"
    and run: "exec_report (trim_space publicID) publicID (\<lambda>r. earlier (cd_LastHealthCheckAt r) (if is_zero_time t then at else t))
      (note_health dbnow (if is_zero_time t then at else t) h code (trim_space status)) st = Inr st'"
    by (auto simp: RecordPluginCredentialHealth_def Let_def split: if_splits)
  show ?thesis using ok by (intro exec_report_ok [OF assms(1) run]) (auto simp: note_defs)
next
  case (import_all at users key t inputs x)
  then consider "st' = st" | d where "insert_all at users inputs (st\<lparr>cb_migrations := cb_migrations st @ [d]\<rparr>) = Inr st'"
    by (auto simp: ImportPluginCredentialsAndCompleteMigration_def Let_def split: if_splits option.splits sum.splits)
  then show ?thesis
  proof cases
    case 1
    then show ?thesis using assms(1) store_change_refl by simp
  next
    case 2
    from insert_all_ok [OF _ 2] assms(1) show ?thesis by (simp add: store_ok_def store_change_def)
  qed
qed

interpretation credentials: invariant_machine no_credentials credential_step store_ok
proof unfold_locales
  show "no_credentials st \<Longrightarrow> store_ok st" for st :: "'m CredentialStore"
    by (simp add: no_credentials_def store_ok_def unique_ok_def)
next
  show "store_ok st \<Longrightarrow> credential_step st st' \<Longrightarrow> store_ok st'" for st st' :: "'m CredentialStore"
    using credential_step_ok by blast
qed


lemma credential_run_ok:
  assumes "credential_step\<^sup>*\<^sup>* st st'" and "store_ok st"
  shows "store_ok st' \<and> store_change st st'"
  using assms
proof (induction rule: rtranclp_induct)
  case base
  then show ?case using store_change_refl by blast
next
  case (step st1 st2)
  then show ?case using credential_step_ok store_change_trans by blast
qed

lemma same_row_changed:
  assumes "credential_step\<^sup>*\<^sup>* st st'" and "store_ok st" and "r \<in> set (cb_rows st)" and "r' \<in> set (cb_rows st')"
    and "cd_ID r' = cd_ID r"
  shows "row_change r r'"
proof -
  have change: "store_change st st'" using credential_run_ok [OF assms(1,2)] by blast
  have "cd_ID r' < cb_nextID st" using store_okD(3) [OF assms(2,3)] assms(5) by simp
  with change assms(4) obtain q where q: "q \<in> set (cb_rows st)" "cd_ID q = cd_ID r'" "row_change q r'"
    by (force simp: store_change_def)
  with store_okD(5) [OF assms(2) assms(3) q(1)] assms(5) show ?thesis by simp
qed

section \<open>What reports of searches amount to\<close>

datatype report = Succeeded time | Failed time string string "time option"

fun report_time :: "report \<Rightarrow> time" where
  "report_time (Succeeded t) = t"
| "report_time (Failed t status code cooldown) = t"

fun record_report :: "time \<Rightarrow> string \<Rightarrow> report \<Rightarrow> 'm CredentialStore \<Rightarrow> credential_error + 'm CredentialStore" where
  "record_report dbnow publicID (Succeeded t) st = RecordPluginCredentialSuccess 0 dbnow publicID t st"
| "record_report dbnow publicID (Failed t status code cooldown) st =
     RecordPluginCredentialFailure 0 dbnow publicID status code t cooldown st"

fun record_reports :: "time \<Rightarrow> string \<Rightarrow> report list \<Rightarrow> 'm CredentialStore \<Rightarrow> credential_error + 'm CredentialStore" where
  "record_reports dbnow publicID [] st = Inr st"
| "record_reports dbnow publicID (x # xs) st =
     (case record_report dbnow publicID x st of Inl e \<Rightarrow> Inl e | Inr st \<Rightarrow> record_reports dbnow publicID xs st)"

fun note_report :: "time \<Rightarrow> report \<Rightarrow> 'm PluginCredential \<Rightarrow> 'm PluginCredential" where
  "note_report dbnow (Succeeded t) = note_success dbnow t"
| "note_report dbnow (Failed t status code cooldown) = note_failure dbnow t code status cooldown"

text \<open>A report as the reporter sends it: a time, and a status that the store accepts.\<close>

fun good_report :: "report \<Rightarrow> bool" where
  "good_report (Succeeded t) \<longleftrightarrow> \<not> is_zero_time t"
| "good_report (Failed t status code cooldown) \<longleftrightarrow> \<not> is_zero_time t \<and> (status = [] \<or> validCredentialStatus status)"

definition report_row :: "time \<Rightarrow> report \<Rightarrow> 'm PluginCredential \<Rightarrow> 'm PluginCredential" where
  "report_row dbnow x r = (if newer_result (report_time x) r then note_report dbnow x r else r)"

lemma note_report_ids: "cd_PublicID (note_report dbnow x r) = cd_PublicID r"
  by (cases x) (simp_all add: note_success_def note_failure_def)

lemma report_row_ids: "cd_PublicID (report_row dbnow x r) = cd_PublicID r"
  by (simp add: report_row_def note_report_ids)

lemma find_None: "select_row p st = None \<longleftrightarrow> \<not> list_ex p (cb_rows st)"
  by (auto simp: select_row_None list_ex_iff)

lemma exec_report_rows:
  assumes "list_ex (\<lambda>r. cd_PublicID r = publicID) (cb_rows st)"
  shows "exec_report publicID publicID newer f st =
    Inr (update_rows (\<lambda>r. cd_PublicID r = publicID) (\<lambda>r. if newer r then f r else r) st)"
proof -
  have "update_rows (\<lambda>r. cd_PublicID r = publicID \<and> newer r) f st =
      update_rows (\<lambda>r. cd_PublicID r = publicID) (\<lambda>r. if newer r then f r else r) st"
    unfolding update_rows_def by (rule arg_cong [where f = "\<lambda>x. st\<lparr>cb_rows := x\<rparr>"]) simp
  moreover have "update_rows (\<lambda>r. cd_PublicID r = publicID \<and> newer r) f st = st"
    if "\<not> list_ex (\<lambda>r. cd_PublicID r = publicID \<and> newer r) (cb_rows st)"
  proof -
    have "map (\<lambda>r. if cd_PublicID r = publicID \<and> newer r then f r else r) (cb_rows st) = cb_rows st"
      using that by (intro map_idI) (auto simp: list_ex_iff)
    then show ?thesis by (simp add: update_rows_def)
  qed
  ultimately show ?thesis using assms by (simp add: exec_report_def find_None Let_def)
qed

lemma record_report_rows:
  assumes "good_report x" and "list_ex (\<lambda>r. cd_PublicID r = publicID) (cb_rows st)"
  shows "record_report dbnow publicID x st = Inr (update_rows (\<lambda>r. cd_PublicID r = publicID) (report_row dbnow x) st)"
  using assms
proof -
  have row: "report_row dbnow x = (\<lambda>r. if newer_result (report_time x) r then note_report dbnow x r else r)"
    by (rule ext) (simp add: report_row_def)
  show ?thesis unfolding row using assms
    by (cases x) (auto simp: RecordPluginCredentialSuccess_def RecordPluginCredentialFailure_def Let_def exec_report_rows
        cong: if_cong)
qed

lemma record_reports_rows:
  assumes "list_all good_report xs" and "list_ex (\<lambda>r. cd_PublicID r = publicID) (cb_rows st)"
  shows "record_reports dbnow publicID xs st = Inr (update_rows (\<lambda>r. cd_PublicID r = publicID) (fold (report_row dbnow) xs) st)"
  using assms
proof (induction xs arbitrary: st)
  case Nil
  have "map (\<lambda>r. r) (cb_rows st) = cb_rows st" by simp
  then show ?case by (simp add: update_rows_def)
next
  case (Cons x xs)
  let ?st = "update_rows (\<lambda>r. cd_PublicID r = publicID) (report_row dbnow x) st"
  have "list_ex (\<lambda>r. cd_PublicID r = publicID) (cb_rows ?st)"
    using Cons.prems(2) report_row_ids [of dbnow x] by (fastforce simp: list_ex_iff update_rows_def image_iff)
  moreover have "update_rows (\<lambda>r. cd_PublicID r = publicID) (fold (report_row dbnow) xs) ?st =
      update_rows (\<lambda>r. cd_PublicID r = publicID) (fold (report_row dbnow) (x # xs)) st"
    by (simp add: update_rows_def report_row_ids)
  ultimately show ?case using Cons record_report_rows [of x publicID st dbnow] by (simp add: comp_def)
qed

lemma newer_after_report:
  "newer_result t (report_row dbnow x r) \<longleftrightarrow> newer_result t r \<and> (newer_result (report_time x) r \<longrightarrow> report_time x < t)"
  by (cases x) (auto simp: report_row_def newer_result_def earlier_def note_success_def note_failure_def latest_def split: option.splits)

lemma newer_after_reports:
  "newer_result t (fold (report_row dbnow) xs r) \<longleftrightarrow> newer_result t r \<and> (\<forall>x\<in>set xs. report_time x < t)"
proof (induction xs arbitrary: r)
  case (Cons x xs)
  have "newer_result t r \<Longrightarrow> \<not> newer_result (report_time x) r \<Longrightarrow> report_time x < t"
    by (auto simp: newer_result_def earlier_def split: option.splits)
  then show ?case by (auto simp: Cons.IH newer_after_report)
qed simp

lemma older_reports_ignored:
  assumes "\<forall>x\<in>set xs. \<not> newer_result (report_time x) r"
  shows "fold (report_row dbnow) xs r = r"
  using assms by (induction xs) (simp_all add: report_row_def)

lemma newest_report_decides:
  assumes "newer_result (report_time x) r" and "\<forall>y\<in>set (xs @ ys). report_time y < report_time x"
  shows "fold (report_row dbnow) (xs @ x # ys) r = note_report dbnow x (fold (report_row dbnow) xs r)"
proof -
  let ?r = "fold (report_row dbnow) xs r"
  have "newer_result (report_time x) ?r" using assms by (simp add: newer_after_reports)
  then have "report_row dbnow x ?r = note_report dbnow x ?r" by (simp add: report_row_def)
  moreover have "\<not> newer_result (report_time y) (report_row dbnow x ?r)" if "y \<in> set ys" for y
  proof -
    have "report_time y < report_time x" using that assms(2) by simp
    then show ?thesis using \<open>newer_result (report_time x) ?r\<close> by (simp add: newer_after_report)
  qed
  ultimately show ?thesis using older_reports_ignored [of ys "report_row dbnow x ?r"] by simp
qed

lemma fold_report_ids: "cd_PublicID (fold (report_row dbnow) xs r) = cd_PublicID r"
  by (induction xs arbitrary: r) (simp_all add: report_row_ids)

lemma reports_id: "cd_ID (fold (report_row dbnow) xs r) = cd_ID r"
proof (induction xs arbitrary: r)
  case (Cons x xs)
  have "cd_ID (report_row dbnow x r) = cd_ID r"
    by (cases x) (simp_all add: report_row_def note_success_def note_failure_def)
  then show ?case using Cons by simp
qed simp

lemma reports_others:
  "filter (\<lambda>q. cd_PublicID q \<noteq> publicID) (cb_rows (update_rows (\<lambda>r. cd_PublicID r = publicID) (fold (report_row dbnow) xs) st)) =
    filter (\<lambda>q. cd_PublicID q \<noteq> publicID) (cb_rows st)"
proof -
  have "filter (\<lambda>q. cd_PublicID q \<noteq> publicID) (map (\<lambda>r. if cd_PublicID r = publicID then fold (report_row dbnow) xs r else r) rows) =
    filter (\<lambda>q. cd_PublicID q \<noteq> publicID) rows" for rows :: "'a PluginCredential list"
    by (induction rows) (auto simp: fold_report_ids)
  then show ?thesis by (simp add: update_rows_def)
qed

lemma replaced_row:
  assumes "replace_envelope at mine visible scope input st = Inr (c, st')"
  shows "c \<in> set (cb_rows st') \<and> cd_Revision c = ri_ExpectedRevision input + 1
    \<and> (\<exists>q\<in>set (cb_rows st). cd_ID q = cd_ID c \<and> cd_Revision q = ri_ExpectedRevision input)"
  using assms unfolding replace_envelope_def Let_def
  by (force simp: new_envelope_def update_rows_def dest!: select_row_SomeD split: option.splits if_splits)

lemma replaced_admin:
  assumes "ReplacePluginCredentialEnvelopeCAS at input st = Inr (c, st')"
  shows "c \<in> set (cb_rows st') \<and> cd_Revision c = ri_ExpectedRevision input + 1
    \<and> (\<exists>q\<in>set (cb_rows st). cd_ID q = cd_ID c \<and> cd_Revision q = ri_ExpectedRevision input)"
proof (rule replaced_row)
  show "replace_envelope at (\<lambda>r. admin_scope (cd_Scope r) \<and> admin_scope (ri_Scope input)) (\<lambda>_. True) (\<lambda>_. ri_Scope input) input st
      = Inr (c, st')"
    using assms by (simp add: ReplacePluginCredentialEnvelopeCAS_def split: if_split_asm)
qed

lemma replaced_user:
  assumes "ReplaceUserPluginCredentialEnvelopeCAS at owner input st = Inr (c, st')"
  shows "c \<in> set (cb_rows st') \<and> cd_Revision c = ri_ExpectedRevision input + 1
    \<and> (\<exists>q\<in>set (cb_rows st). cd_ID q = cd_ID c \<and> cd_Revision q = ri_ExpectedRevision input)"
proof (rule replaced_row)
  show "replace_envelope at (\<lambda>r. cd_OwnerUserID r = Some owner \<and> cd_Scope r = ''user_private'')
       (\<lambda>r. cd_OwnerUserID r = Some owner \<and> cd_Scope r = ''user_private'') cd_Scope input st = Inr (c, st')"
    using assms by (simp add: ReplaceUserPluginCredentialEnvelopeCAS_def split: if_split_asm)
qed

section \<open>Properties\<close>

text \<open>Whatever sequence of operations has run, the table of plug-in accounts keeps the constraints of its schema:
  each row belongs to a user exactly when it is private to a user, has a complete envelope, known statuses and a positive
  revision; identifiers and public identifiers are not shared; and no owner, nor the administrators together, has
  the same upstream account of a plug-in twice.\<close>

theorem credentials_well_formed:
  assumes "reachable no_credentials credential_step st"
  shows "distinct (map cd_ID (cb_rows st)) \<and> distinct (map cd_PublicID (cb_rows st))
    \<and> (\<forall>r\<in>set (cb_rows st). validCredentialScopeOwner (cd_Scope r) (cd_OwnerUserID r) \<and> validCredentialStatus (cd_Status r)
         \<and> validCredentialHealthStatus (cd_LastHealthStatus r) \<and> 0 < cd_Revision r \<and> length (cd_Nonce r) = 12
         \<and> length (cd_BindingFingerprint r) = 32 \<and> 16 \<le> length (cd_Ciphertext r))
    \<and> (\<forall>r\<in>set (cb_rows st). \<forall>q\<in>set (cb_rows st). cd_PluginKey r = cd_PluginKey q
         \<and> cd_CredentialFingerprint r = cd_CredentialFingerprint q \<and> cd_OwnerUserID r = cd_OwnerUserID q \<longrightarrow> r = q)"
proof -
  have ok: "store_ok st" using assms by (rule credentials.reachable_inv)
  have "inj_on cd_PublicID (set (cb_rows st))"
    using store_okD(4,5) [OF ok] by (meson inj_onI)
  then have "distinct (map cd_PublicID (cb_rows st))"
    using store_okD(1) [OF ok] by (simp add: distinct_map)
  moreover have "r = q" if "r \<in> set (cb_rows st)" "q \<in> set (cb_rows st)" "cd_PluginKey r = cd_PluginKey q"
      "cd_CredentialFingerprint r = cd_CredentialFingerprint q" "cd_OwnerUserID r = cd_OwnerUserID q" for r q
  proof -
    have "validCredentialScopeOwner (cd_Scope r) (cd_OwnerUserID r)" "validCredentialScopeOwner (cd_Scope q) (cd_OwnerUserID q)"
      using that(1,2) store_okD(2) [OF ok] by (auto simp: row_ok_def)
    then have "same_fingerprint r q"
      using that(3-5) by (auto simp: same_fingerprint_def validCredentialScopeOwner_def split: if_splits option.splits)
    then show ?thesis using store_okD(4,5) [OF ok that(1,2)] by blast
  qed
  moreover have "\<forall>r\<in>set (cb_rows st). row_ok r" using store_okD(2) [OF ok] by blast
  ultimately show ?thesis using store_okD(1) [OF ok] by (simp add: row_ok_def valid_envelope_def)
qed

definition demo_input :: "string \<Rightarrow> string \<Rightarrow> char \<Rightarrow> int option \<Rightarrow> unit CreatePluginCredentialInput" where
  "demo_input publicID scope mark owner =
     \<lparr>ci_PublicID = publicID, ci_PluginKey = ''pan'', ci_Scope = scope, ci_OwnerUserID = owner, ci_CreatedByUserID = None,
      ci_DisplayName = ''a'', ci_PublicMetadata = [], ci_SecretSchemaVersion = 1, ci_BindingFingerprint = replicate 32 CHR ''b'',
      ci_Ciphertext = replicate 16 mark, ci_Nonce = replicate 12 CHR ''n'', ci_KeyVersion = 1,
      ci_CredentialFingerprint = replicate 32 mark, ci_OwnerEnabled = True, ci_Status = [], ci_ExpiresAt = None, ci_CreatedAt = 5\<rparr>"

definition demo_store :: "unit CredentialStore" where
  "demo_store = snd (projr (CreatePluginCredential 20 demo_accounts (demo_input ''cred_2'' ''public_shared'' CHR ''s'' None)
     (snd (projr (CreatePluginCredential 20 demo_accounts (demo_input ''cred_1'' ''user_private'' CHR ''p'' (Some 1))
       \<lparr>cb_rows = [], cb_nextID = 1, cb_migrations = []\<rparr>)))))"

lemma create_reachable:
  assumes "reachable no_credentials credential_step st" and "CreatePluginCredential at users input st = Inr x"
  shows "reachable no_credentials credential_step (snd x)"
  using assms by (cases x) (auto intro: reach_step credential_step.create)

lemma demo_reachable: "reachable no_credentials credential_step demo_store"
proof -
  let ?e = "\<lparr>cb_rows = [], cb_nextID = 1, cb_migrations = []\<rparr> :: unit CredentialStore"
  have e: "reachable no_credentials credential_step ?e" by (rule reach_init) (simp add: no_credentials_def)
  have "isl (CreatePluginCredential 20 demo_accounts (demo_input ''cred_1'' ''user_private'' CHR ''p'' (Some 1)) ?e) = False" by code_simp
  then obtain x where x: "CreatePluginCredential 20 demo_accounts (demo_input ''cred_1'' ''user_private'' CHR ''p'' (Some 1)) ?e = Inr x"
    by (metis isl_def sum.exhaust)
  have "isl (CreatePluginCredential 20 demo_accounts (demo_input ''cred_2'' ''public_shared'' CHR ''s'' None)
      (snd (projr (CreatePluginCredential 20 demo_accounts (demo_input ''cred_1'' ''user_private'' CHR ''p'' (Some 1)) ?e)))) = False"
    by code_simp
  then obtain y where "CreatePluginCredential 20 demo_accounts (demo_input ''cred_2'' ''public_shared'' CHR ''s'' None) (snd x) = Inr y"
    unfolding x by (metis isl_def sum.exhaust sum.sel(2))
  with create_reachable [OF create_reachable [OF e x]] show ?thesis by (simp add: demo_store_def x)
qed

theorem credentials_well_formed_witness:
  "map cd_PublicID (cb_rows demo_store) = [''cred_1'', ''cred_2''] \<and> distinct (map cd_ID (cb_rows demo_store))"
  using credentials_well_formed [OF demo_reachable] by (intro conjI) (code_simp, blast)

text \<open>C40: An account never changes hands: from any reachable state, whatever operations follow, a row that still has its
  identifier has the same plug-in and the same owner and is on the same side (private to a user, or the
  administrators'); its revision never decreases, and its secret is the same while its revision is.\<close>

theorem credential_ownership_fixed:
  assumes "reachable no_credentials credential_step st" and "credential_step\<^sup>*\<^sup>* st st'"
    and "r \<in> set (cb_rows st)" and "r' \<in> set (cb_rows st')" and "cd_ID r' = cd_ID r"
  shows "cd_PublicID r' = cd_PublicID r \<and> cd_PluginKey r' = cd_PluginKey r \<and> cd_OwnerUserID r' = cd_OwnerUserID r
    \<and> (cd_Scope r' = ''user_private'' \<longleftrightarrow> cd_Scope r = ''user_private'') \<and> cd_Revision r \<le> cd_Revision r'
    \<and> (cd_Revision r' = cd_Revision r \<longrightarrow>
         (cd_Ciphertext r', cd_Nonce r', cd_BindingFingerprint r') = (cd_Ciphertext r, cd_Nonce r, cd_BindingFingerprint r))"
proof -
  have "store_ok st" using assms(1) by (rule credentials.reachable_inv)
  from same_row_changed [OF assms(2) this assms(3-5)] show ?thesis
    by (simp add: row_change_def same_holder_def secret_def)
qed

definition demo_replacement :: "string \<Rightarrow> string \<Rightarrow> unit ReplaceCredentialEnvelopeInput" where
  "demo_replacement publicID scope =
     \<lparr>ri_PublicID = publicID, ri_ExpectedRevision = 1, ri_Scope = scope, ri_DisplayName = ''b'', ri_PublicMetadata = [],
      ri_SecretSchemaVersion = 1, ri_BindingFingerprint = replicate 32 CHR ''b'', ri_Ciphertext = replicate 16 CHR ''q'',
      ri_Nonce = replicate 12 CHR ''m'', ri_KeyVersion = 1, ri_CredentialFingerprint = replicate 32 CHR ''p'',
      ri_Status = ''active'', ri_ExpiresAt = None, ri_UpdatedAt = 9\<rparr>"

definition demo_replaced :: "unit PluginCredential \<times> unit CredentialStore" where
  "demo_replaced = projr (ReplaceUserPluginCredentialEnvelopeCAS 9 1 (demo_replacement ''cred_1'' ''user_private'') demo_store)"

lemma demo_replaced_run: "ReplaceUserPluginCredentialEnvelopeCAS 9 1 (demo_replacement ''cred_1'' ''user_private'') demo_store
    = Inr (fst demo_replaced, snd demo_replaced)"
proof -
  have "isl (ReplaceUserPluginCredentialEnvelopeCAS 9 1 (demo_replacement ''cred_1'' ''user_private'') demo_store) = False"
    by code_simp
  then show ?thesis by (simp add: demo_replaced_def)
qed

theorem credential_ownership_fixed_witness:
  "cd_OwnerUserID (hd (cb_rows (snd demo_replaced))) = Some 1 \<and> cd_Revision (hd (cb_rows (snd demo_replaced))) = 2"
proof -
  have "credential_step\<^sup>*\<^sup>* demo_store (snd demo_replaced)"
    using credential_step.replace_user [OF demo_replaced_run] by blast
  moreover have "cb_rows demo_store \<noteq> []" "cb_rows (snd demo_replaced) \<noteq> []" by code_simp+
  moreover have "cd_ID (hd (cb_rows (snd demo_replaced))) = cd_ID (hd (cb_rows demo_store))" by code_simp
  ultimately have "cd_OwnerUserID (hd (cb_rows (snd demo_replaced))) = cd_OwnerUserID (hd (cb_rows demo_store))"
    using credential_ownership_fixed [OF demo_reachable, of "snd demo_replaced" "hd (cb_rows demo_store)"
        "hd (cb_rows (snd demo_replaced))"] by (simp add: hd_in_set)
  moreover have "cd_OwnerUserID (hd (cb_rows demo_store)) = Some 1" by code_simp
  moreover have "cd_Revision (hd (cb_rows (snd demo_replaced))) = 2" by code_simp
  ultimately show ?thesis by simp
qed

text \<open>C37: No refresh of a secret is lost: once a replacement of an account has succeeded, another one that was prepared from
  the same revision never touches that account, however many other operations come in between.\<close>

theorem stale_replacement_refused:
  assumes "reachable no_credentials credential_step st"
    and "ReplacePluginCredentialEnvelopeCAS at new st = Inr (c, st1) \<or> ReplaceUserPluginCredentialEnvelopeCAS at owner new st = Inr (c, st1)"
    and "credential_step\<^sup>*\<^sup>* st1 st2" and "ri_ExpectedRevision old = ri_ExpectedRevision new"
    and "ReplacePluginCredentialEnvelopeCAS at' old st2 = Inr (d, st3) \<or> ReplaceUserPluginCredentialEnvelopeCAS at' owner' old st2 = Inr (d, st3)"
  shows "cd_ID d \<noteq> cd_ID c"
proof
  assume same: "cd_ID d = cd_ID c"
  have st: "store_ok st" using assms(1) by (rule credentials.reachable_inv)
  have st1: "store_ok st1" using credential_step_ok [OF st] credential_step.replace_admin credential_step.replace_user assms(2) by blast
  have new: "c \<in> set (cb_rows st1) \<and> cd_Revision c = ri_ExpectedRevision new + 1"
    using assms(2) replaced_admin replaced_user by blast
  obtain q where q: "q \<in> set (cb_rows st2)" "cd_ID q = cd_ID d" "cd_Revision q = ri_ExpectedRevision old"
    using assms(5) replaced_admin replaced_user by blast
  from same_row_changed [OF assms(3) st1 conjunct1 [OF new] q(1)] q(2,3) same new assms(4) show False
    by (simp add: row_change_def)
qed

text \<open>The second refresh finds a revision that is gone; it succeeds on the shared account, which is another one.\<close>

theorem stale_replacement_refused_witness:
  "ReplaceUserPluginCredentialEnvelopeCAS 9 1 (demo_replacement ''cred_1'' ''user_private'') (snd demo_replaced) = Inl Conflict
   \<and> (\<exists>d st. ReplacePluginCredentialEnvelopeCAS 9 (demo_replacement ''cred_2'' ''admin_private'') (snd demo_replaced) = Inr (d, st)
        \<and> cd_ID d \<noteq> cd_ID (fst demo_replaced))"
proof
  let ?r = "ReplacePluginCredentialEnvelopeCAS 9 (demo_replacement ''cred_2'' ''admin_private'') (snd demo_replaced)"
  show "ReplaceUserPluginCredentialEnvelopeCAS 9 1 (demo_replacement ''cred_1'' ''user_private'') (snd demo_replaced) = Inl Conflict"
    by code_simp
  have "isl ?r = False" by code_simp
  then obtain d st where r: "?r = Inr (d, st)" by (metis isl_def sum.exhaust surj_pair)
  have "ri_ExpectedRevision (demo_replacement ''cred_2'' ''admin_private'') = ri_ExpectedRevision (demo_replacement ''cred_1'' ''user_private'')"
    by (simp add: demo_replacement_def)
  from stale_replacement_refused [OF demo_reachable disjI2 [OF demo_replaced_run] rtranclp.rtrancl_refl this disjI1 [OF r]]
  show "\<exists>d st. ?r = Inr (d, st) \<and> cd_ID d \<noteq> cd_ID (fst demo_replaced)" using r by blast
qed

text \<open>C39: Searches may report in any order: of the reports on an account the newest one, if it is newer than what the
  row had before, decides its error code and its cooldown. If it is a success, no failure is counted and the status
  is left alone. If it is a failure, the status is the one it names, \<open>active\<close> when it names none, and it counts one
  more failure than the reports that arrived before it had left; the older ones that arrive after it count for
  nothing. No other account is touched, and no report is refused.\<close>

theorem reports_latest:
  assumes "list_all good_report (xs @ x # ys)" and "\<forall>y\<in>set (xs @ ys). report_time y < report_time x"
    and "r \<in> set (cb_rows st)" and "cd_PublicID r = publicID" and "newer_result (report_time x) r"
  shows "\<exists>st1 r1 st' r'. record_reports dbnow publicID xs st = Inr st1 \<and> r1 \<in> set (cb_rows st1) \<and> cd_ID r1 = cd_ID r
    \<and> record_reports dbnow publicID (xs @ x # ys) st = Inr st' \<and> r' \<in> set (cb_rows st') \<and> cd_ID r' = cd_ID r
    \<and> (case x of Succeeded t \<Rightarrow> cd_CooldownUntil r' = None \<and> cd_LastErrorCode r' = [] \<and> cd_ConsecutiveFailures r' = 0
                 \<and> cd_LastSuccessAt r' = Some t \<and> cd_LastFailureAt r' = cd_LastFailureAt r1 \<and> cd_Status r' = cd_Status r1
       | Failed t status code cooldown \<Rightarrow> cd_CooldownUntil r' = cooldown \<and> cd_LastErrorCode r' = trim_space code
                 \<and> cd_ConsecutiveFailures r' = cd_ConsecutiveFailures r1 + 1
                 \<and> cd_Status r' = (if status = [] then ''active'' else status)
                 \<and> cd_LastFailureAt r' = Some t \<and> cd_LastSuccessAt r' = cd_LastSuccessAt r1)
    \<and> filter (\<lambda>q. cd_PublicID q \<noteq> publicID) (cb_rows st') = filter (\<lambda>q. cd_PublicID q \<noteq> publicID) (cb_rows st)"
proof -
  let ?first = "fold (report_row dbnow) xs" and ?run = "fold (report_row dbnow) (xs @ x # ys)"
  let ?rows = "\<lambda>f. update_rows (\<lambda>r. cd_PublicID r = publicID) f st"
  have ex: "list_ex (\<lambda>r. cd_PublicID r = publicID) (cb_rows st)" using assms(3,4) by (auto simp: list_ex_iff)
  have good: "list_all good_report xs" using assms(1) by simp
  note runs = record_reports_rows [OF good ex, of dbnow] record_reports_rows [OF assms(1) ex, of dbnow]
  have rows: "?first r \<in> set (cb_rows (?rows ?first))" "?run r \<in> set (cb_rows (?rows ?run))"
    using assms(3,4) by (auto simp: update_rows_def)
  have newest: "?run r = note_report dbnow x (?first r)" by (rule newest_report_decides [OF assms(5,2)])
  have before: "newer_result (report_time x) (?first r)" using assms(2,5) by (simp add: newer_after_reports)
  have effect: "case x of Succeeded t \<Rightarrow> cd_CooldownUntil (?run r) = None \<and> cd_LastErrorCode (?run r) = []
         \<and> cd_ConsecutiveFailures (?run r) = 0 \<and> cd_LastSuccessAt (?run r) = Some t
         \<and> cd_LastFailureAt (?run r) = cd_LastFailureAt (?first r) \<and> cd_Status (?run r) = cd_Status (?first r)
       | Failed t status code cooldown \<Rightarrow> cd_CooldownUntil (?run r) = cooldown \<and> cd_LastErrorCode (?run r) = trim_space code
         \<and> cd_ConsecutiveFailures (?run r) = cd_ConsecutiveFailures (?first r) + 1
         \<and> cd_Status (?run r) = (if status = [] then ''active'' else status)
         \<and> cd_LastFailureAt (?run r) = Some t \<and> cd_LastSuccessAt (?run r) = cd_LastSuccessAt (?first r)"
    unfolding newest using before
    by (cases x) (auto simp: note_success_def note_failure_def newer_result_def earlier_def latest_def split: option.splits)
  from runs rows reports_id [of dbnow xs r] reports_id [of dbnow "xs @ x # ys" r] effect
    reports_others [of publicID dbnow "xs @ x # ys" st]
  show ?thesis by blast
qed

theorem reports_latest_witness:
  "\<exists>st' r'. record_reports 30 ''cred_1'' [Failed 10 [] ''500'' None, Failed 20 [] '' 429 '' (Some 50), Succeeded 15] demo_store = Inr st'
     \<and> r' \<in> set (cb_rows st') \<and> cd_CooldownUntil r' = Some 50 \<and> cd_LastErrorCode r' = ''429'' \<and> cd_ConsecutiveFailures r' = 2"
proof -
  let ?x = "Failed 20 [] '' 429 '' (Some 50)" and ?r = "hd (cb_rows demo_store)"
  have hyps: "list_all good_report ([Failed 10 [] ''500'' None] @ ?x # [Succeeded 15])"
    "\<forall>y\<in>set ([Failed 10 [] ''500'' None] @ [Succeeded 15]). report_time y < report_time ?x"
    "?r \<in> set (cb_rows demo_store)" "cd_PublicID ?r = ''cred_1''" "newer_result (report_time ?x) ?r"
    by code_simp+
  have code: "trim_space '' 429 '' = ''429''" by code_simp
  have "map_sum id (\<lambda>st. map (\<lambda>r. (cd_ID r, cd_ConsecutiveFailures r)) (cb_rows st))
      (record_reports 30 ''cred_1'' [Failed 10 [] ''500'' None] demo_store) = Inr [(1, 1), (2, 0)]" by code_simp
  then have one: "cd_ConsecutiveFailures r1 = 1"
    if "record_reports 30 ''cred_1'' [Failed 10 [] ''500'' None] demo_store = Inr st1" "r1 \<in> set (cb_rows st1)" "cd_ID r1 = 1" for st1 r1
    using that by (auto simp: map_eq_Cons_conv)
  have id: "cd_ID ?r = 1" by code_simp
  from reports_latest [OF hyps, of 30] show ?thesis unfolding id report.case code append.simps
    using one by fastforce
qed

end
