(* ===== verification/Spec2Isabelle.thy ===== *)
theory Spec2Isabelle
  imports Limiter Scheduler_Admission Scheduler_Execute Source_Config Snapshot_Manager Two_Level_Cache Search_Results Link_Check_Safety
    Proxy_Pool_Safety Keyword_Discovery Keyword_Sync_Laws Search_Api Search_Flight Live_Search Credential_Laws
begin

text \<open>
  PanSou is a Go service that searches Telegram channels and many plug-in sources for links to network
  drives, merges and ranks what they return, caches it, collects it in a database and keeps checking
  whether the collected links still work. This library models the parts that decide something: who may
  search, which sources are asked and how many at once, what becomes of their answers, what the caches
  keep, which links are checked when, through which proxy a request leaves, and how keywords are
  imported from foreign interfaces. The scrapers, the HTTP and SQL glue and the pages are outside.

  \<^bold>\<open>How the parts interact.\<close> A request passes authentication, which reads the account tables, and
  the per-user limiter; the handler turns it into a query, which is resolved against the current snapshot
  of the source configuration. Equal requests that run at the same time share one execution. A live search
  asks the channels and the plug-ins of the request: each part first consults the entry of the two-level cache
  under the key of the request, is otherwise admitted by the search scheduler, which runs one task per
  source under class and source permits and a circuit breaker per source, and leaves a job that merges what was
  found into the entry. Plug-ins with accounts search with those that the table of plug-in accounts offers the caller, and
  never write to the shared entry. The two batches are merged, ranked, grouped by link type and
  filtered for the answer. Collected links wait in the
  link-check queue, whose workers respect limits and a circuit per platform. Plug-ins lease an outgoing
  proxy from the proxy pool. Keyword sources turn a JSON document into keywords, page after page.

  \<^bold>\<open>Theories and sources\<close> (paths under \<^verbatim>\<open>src/\<close>; a record has the fields of the struct with a short
  prefix, an operation has the name of the Go function).

  \<^item> \<^verbatim>\<open>Go_Prelude\<close>, \<^verbatim>\<open>Go_Decimal\<close>: the parts of Go's standard library that the sources use (\<^verbatim>\<open>strings\<close>,
    \<^verbatim>\<open>sort\<close>, \<^verbatim>\<open>time\<close>, \<^verbatim>\<open>strconv\<close>), generic lemmas and the shared collections of rewrite rules.
  \<^item> \<^verbatim>\<open>Interleaving\<close>: locales for systems of goroutines over a shared state; reachability and
    invariants by rule induction. \<^verbatim>\<open>Circuit_Breaker\<close>: the contract that the scheduler's source gate and
    the link checker's platform state share, with the number of admissions it bounds.
  \<^item> \<^verbatim>\<open>Limiter\<close> (\<^verbatim>\<open>usage/limiter.go\<close>): two aligned fixed windows per user. Lemmas: no window grants more
    than its limit over any interleaved run; a refused call succeeds at the advertised time.
  \<^item> \<^verbatim>\<open>Tg_Channel\<close> (\<^verbatim>\<open>tgchannel/channel.go\<close>), \<^verbatim>\<open>Source_Config\<close> (\<^verbatim>\<open>sourceconfig/types.go\<close>, the read side of
    \<^verbatim>\<open>sourceconfig/snapshot.go\<close>): canonical channel keys and validated configurations.
    \<^verbatim>\<open>Snapshot_Manager\<close> (\<^verbatim>\<open>sourceconfig/snapshot.go\<close>): leases and retirement as atomic steps of goroutines.
  \<^item> \<^verbatim>\<open>Scheduler\<close>, \<^verbatim>\<open>Scheduler_Admission\<close>, \<^verbatim>\<open>Scheduler_Execute\<close> (\<^verbatim>\<open>service/scheduler/scheduler.go\<close>): the source
    gate and its resizable semaphore, admission over the two buffered channels, and \<open>Execute\<close> with its
    release order, the last two as step relations in which every channel operation is a step.
  \<^item> \<^verbatim>\<open>Shard_Hash\<close>, \<^verbatim>\<open>Memory_Cache\<close>, \<^verbatim>\<open>Disk_Cache\<close>, \<^verbatim>\<open>Two_Level_Cache\<close> (\<^verbatim>\<open>util/cache/\<close>): sharding, eviction, the
    budget invariants, I/O failures, and what a lookup sees after a write.
  \<^item> \<^verbatim>\<open>Link_Titles\<close>, \<^verbatim>\<open>Search_Results\<close> (\<^verbatim>\<open>service/search_service.go\<close>, \<^verbatim>\<open>model/response.go\<close>): titles of links in a
    message, merging, scoring, ranking, grouping, execution summaries and the sources of a request.
  \<^item> \<^verbatim>\<open>Cache_Key\<close> (\<^verbatim>\<open>util/cache/cache_key.go\<close>), \<^verbatim>\<open>Search_Cache\<close> (\<^verbatim>\<open>service/search_cache.go\<close>): the keys of the entries
    and when two searches share one; loading, merging and storing an entry over the two-level cache, as a
    refinement of a merge of entries.
  \<^item> \<^verbatim>\<open>Search_Request\<close> (\<^verbatim>\<open>service/search_context.go\<close>, the resolution in \<^verbatim>\<open>service/search_service.go\<close>), \<^verbatim>\<open>Search_Flight\<close>
    (\<^verbatim>\<open>service/search_flight.go\<close>): the request with its identity; shared executions and replays as a step
    relation, and which requests share a key.
  \<^item> \<^verbatim>\<open>Tg_Search\<close>, \<^verbatim>\<open>Plugin_Search\<close>, \<^verbatim>\<open>Live_Search\<close> (\<^verbatim>\<open>service/search_service.go\<close>, \<^verbatim>\<open>search_scheduler.go\<close>): the channel and the
    plug-in part of a live search with their cache, refreshes, rounds and accounts, and the response made of both.
    Lemmas: every source is accounted for, a finished search is served from the cache, accounts leave no trace there.
  \<^item> \<^verbatim>\<open>Credential_Store\<close>, \<^verbatim>\<open>Credential_Laws\<close> (\<^verbatim>\<open>storage/plugin_credentials.go\<close>, \<^verbatim>\<open>data_migrations.go\<close>): the table of
    plug-in accounts with every operation on it; its constraints, ownership and revisions over any run.
  \<^item> \<^verbatim>\<open>Account_Store\<close>, \<^verbatim>\<open>Account_Laws\<close> (\<^verbatim>\<open>storage/users.go\<close>, \<^verbatim>\<open>identity_types.go\<close>): the tables of users and API
    keys with every operation on them; what every reachable state satisfies, the last administrator.
    \<^verbatim>\<open>Auth_Service\<close> (\<^verbatim>\<open>auth/\<close>, \<^verbatim>\<open>util/jwt.go\<close>, \<^verbatim>\<open>integration/identity_repository.go\<close>): login, tokens, keys, change
    of password, over a repository contract (\<open>identity_laws\<close>) interpreted on the tables.
  \<^item> \<^verbatim>\<open>Http_Access\<close> (\<^verbatim>\<open>api/middleware.go\<close>, \<^verbatim>\<open>auth_runtime.go\<close>), \<^verbatim>\<open>Search_Api\<close> (\<^verbatim>\<open>api/handler.go\<close>,
    \<^verbatim>\<open>search_access.go\<close>), \<^verbatim>\<open>Result_Filter\<close> (\<^verbatim>\<open>api/filter.go\<close>), \<^verbatim>\<open>Search_Trace\<close> (\<^verbatim>\<open>service/search_trace.go\<close>): what stands
    between a request and the search provider, the answers, and the report of the caches.
  \<^item> \<^verbatim>\<open>Link_Check\<close>, \<^verbatim>\<open>Link_Check_Safety\<close> (\<^verbatim>\<open>collection/linkcheck.go\<close>): the queue's operations, then its
    goroutines as a step relation with the invariants of every run.
  \<^item> \<^verbatim>\<open>Proxy_Pool\<close>, \<^verbatim>\<open>Proxy_Pool_Safety\<close> (\<^verbatim>\<open>proxypool/service.go\<close>, \<^verbatim>\<open>selector.go\<close>, \<^verbatim>\<open>runtime_state.go\<close>):
    selection, leases, cooldowns, sticky routing; exactness of the lease counts.
  \<^item> \<^verbatim>\<open>Keyword_Path\<close>, \<^verbatim>\<open>Keyword_Path_Laws\<close>, \<^verbatim>\<open>Keyword_Discovery\<close> (\<^verbatim>\<open>keywordsource/path.go\<close>): the path language, its
    parser, extraction as a refinement of a compositional meaning, discovery of candidate paths.
    \<^verbatim>\<open>Keyword_Iteration\<close> (\<^verbatim>\<open>keywordsource/iteration.go\<close>): iterated requests in 64-bit arithmetic.
    \<^verbatim>\<open>Keyword_Sync\<close>, \<^verbatim>\<open>Keyword_Sync_Laws\<close> (\<^verbatim>\<open>keywordsync/history.go\<close>): the tracked run, its termination and
    its accounting.

  \<^bold>\<open>Conventions.\<close> Strings are Go's byte sequences (UTF-8), as lists of \<open>char\<close>; \<open>ToLower\<close> and \<open>TrimSpace\<close> are
  modelled on ASCII, the results of regular expressions and of Unicode tables are parameters. Times are
  integers in nanoseconds since Go's zero time; every operation takes the clock reading as an argument.
  A map that the code iterates over is an association list with distinct keys, and the order of the
  iteration is a parameter, so that a theorem holds for every order; a map that is only looked up is a
  partial function. Mutexes make an operation one step; atomics, channels and unlocked regions are
  separate steps of a relation with any number of goroutines. Floating-point scores are rationals.
  Machine integers are bounded where a claim depends on it: the cooldown doubling, the iteration values
  and the shard hash. Errors are values of a datatype per component.

  \<^bold>\<open>Loops and bounds.\<close> Loops over data are structural or have a measure. The tracked run may go on for
  ever, so it is a \<open>partial_function\<close> in the option type: \<open>sync_run_terminates\<close> shows that it returns, and
  within how many requests, \<open>unlimited_run_never_ends\<close> shows where it does not. No model uses fuel.

  \<^bold>\<open>Not modelled.\<close> The scrapers under \<^verbatim>\<open>plugin/\<close> and the base class they share (for a search a plug-in is the record of the
  functions behind its interface), the HTTP handlers under \<^verbatim>\<open>api/\<close> other than the search, the encryption and the login flows
  of plug-in accounts (\<^verbatim>\<open>credential/\<close>; the table they use is modelled), the SQL of \<^verbatim>\<open>storage/\<close> beside the accounts and the
  plug-in accounts, the calls to the network drives in \<^verbatim>\<open>service/check_service.go\<close>, the answers from the resource database in
  \<^verbatim>\<open>service/hybrid_search.go\<close>, the collection runner, the usage recorder, the external proxy process (\<^verbatim>\<open>mihomo/\<close>), the
  write buffers of \<^verbatim>\<open>util/cache/\<close>, which no search uses, start-up code and metrics pages. The two parts of a live
  search, which the code runs concurrently, are run one after the other. The executions of the scheduler that a live
  search asks for appear in it by what they guarantee (at most one result per task).
\<close>

end
